(* ===== verification/Prelude.thy ===== *)
theory Prelude
  imports Main "HOL-Library.Word"
begin

text \<open>
  Shared vocabulary of the development: machine integers and bytes, Rust's three-way
  \<open>Ordering\<close>, lexicographic comparison of byte strings, the string operations of the Rust
  standard library that the engine uses (\<open>split\<close>, \<open>join\<close>, \<open>strip_prefix\<close>), and
  the contract \<open>key_ok\<close> of order-preserving, self-delimiting keys on which every index
  encoding of the program rests.  The locale \<open>order_key\<close> states that contract as an
  interface; it is interpreted for every encoder the engine has.
\<close>

unbundle bit_operations_syntax

named_theorems key_intros \<open>introduction rules for the key contract\<close>

section \<open>Machine integers\<close>

type_synonym u8 = "8 word"
type_synonym u32 = "32 word"
type_synonym u64 = "64 word"
type_synonym i32 = "32 word"
type_synonym i64 = "64 word"

abbreviation i64_min :: int where "i64_min \<equiv> - (2 ^ 63)"
abbreviation i64_max :: int where "i64_max \<equiv> 2 ^ 63 - 1"

definition in_i64 :: "int \<Rightarrow> bool" where
  "in_i64 n \<longleftrightarrow> i64_min \<le> n \<and> n \<le> i64_max"

text \<open>Rust's \<open>checked_add\<close> on \<open>i64\<close>, read on the mathematical value.\<close>

definition checked_add_i64 :: "i64 \<Rightarrow> i64 \<Rightarrow> i64 option" where
  "checked_add_i64 a b =
     (if in_i64 (sint a + sint b) then Some (word_of_int (sint a + sint b)) else None)"

lemma sint_i64_range: "in_i64 (sint (x :: i64))"
  using sint_range_size [of x] by (simp add: in_i64_def word_size)

lemma sint_word_of_int_i64 [simp]: "in_i64 n \<Longrightarrow> sint (word_of_int n :: i64) = n"
  unfolding sint_sbintrunc' by (rule signed_take_bit_int_eq_self) (auto simp: in_i64_def)

lemma sint_i64_inject: "sint (x :: i64) = sint y \<longleftrightarrow> x = y"
proof
  assume "sint x = sint y"
  then have "(of_int (sint x) :: i64) = of_int (sint y)" by (rule arg_cong)
  then show "x = y" by (simp only: of_int_sint scast_id)
qed simp

lemma checked_add_i64_Some:
  "checked_add_i64 a b = Some c \<longleftrightarrow> in_i64 (sint a + sint b) \<and> sint c = sint a + sint b"
proof -
  have *: "sint (a + b) = sint a + sint b" if "in_i64 (sint a + sint b)"
    using sint_word_of_int_i64 [OF that] by simp
  have "a + b = c" if "in_i64 (sint a + sint b)" "sint c = sint a + sint b"
    using * [OF that(1)] that(2) by (metis sint_i64_inject)
  with * show ?thesis by (auto simp: checked_add_i64_def)
qed

section \<open>Three-way comparison\<close>

text \<open>\<open>std::cmp::Ordering\<close> with \<open>reverse\<close> and \<open>then\<close>.\<close>

datatype ordering = Less | Equal | Greater

fun reverse_ord :: "ordering \<Rightarrow> ordering" where
  "reverse_ord Less = Greater"
| "reverse_ord Equal = Equal"
| "reverse_ord Greater = Less"

definition then_ord :: "ordering \<Rightarrow> ordering \<Rightarrow> ordering" where
  "then_ord a b = (if a = Equal then b else a)"

definition ord_cmp :: "'a::linorder \<Rightarrow> 'a \<Rightarrow> ordering" where
  "ord_cmp x y = (if x < y then Less else if x = y then Equal else Greater)"

lemma ord_cmp_simps [simp]:
  "ord_cmp x y = Less \<longleftrightarrow> x < y"
  "ord_cmp x y = Equal \<longleftrightarrow> x = y"
  "ord_cmp x y = Greater \<longleftrightarrow> y < x"
  by (auto simp: ord_cmp_def)

lemma ord_cmp_eqs [simp]:
  "x < y \<Longrightarrow> ord_cmp x y = Less"
  "y < x \<Longrightarrow> ord_cmp x y = Greater"
  by simp_all

lemma ord_cmp_self [simp]: "ord_cmp x x = Equal"
  by simp

lemma then_ord_simps [simp]:
  "then_ord Equal b = b"
  "then_ord Less b = Less"
  "then_ord Greater b = Greater"
  "then_ord a Equal = a"
  by (simp_all add: then_ord_def)

lemma then_ord_assoc: "then_ord (then_ord a b) c = then_ord a (then_ord b c)"
  by (simp add: then_ord_def)

lemma then_ord_eq_Equal [simp]: "then_ord a b = Equal \<longleftrightarrow> a = Equal \<and> b = Equal"
  by (simp add: then_ord_def)

lemma Equal_eq_then_ord [simp]: "Equal = then_ord a b \<longleftrightarrow> a = Equal \<and> b = Equal"
  by (auto simp: then_ord_def)

lemma reverse_reverse_ord [simp]: "reverse_ord (reverse_ord a) = a"
  by (cases a) auto

lemma reverse_ord_eq [simp]:
  "reverse_ord a = Equal \<longleftrightarrow> a = Equal"
  "reverse_ord a = Less \<longleftrightarrow> a = Greater"
  "reverse_ord a = Greater \<longleftrightarrow> a = Less"
  by (cases a; simp)+

lemma reverse_then_ord: "reverse_ord (then_ord a b) = then_ord (reverse_ord a) (reverse_ord b)"
  by (cases a) auto

lemma ord_cmp_reverse: "reverse_ord (ord_cmp x y) = ord_cmp y x"
  by (auto simp: ord_cmp_def)

lemma ord_cmp_mono:
  assumes "strict_mono f" shows "ord_cmp (f x) (f y) = ord_cmp x y"
  using assms by (auto simp: ord_cmp_def strict_mono_less strict_mono_eq)

section \<open>Lexicographic comparison\<close>

text \<open>\<open>Ord\<close> for slices and vectors: element by element, then the shorter one first.\<close>

fun lex_cmp :: "'a::linorder list \<Rightarrow> 'a list \<Rightarrow> ordering" where
  "lex_cmp [] [] = Equal"
| "lex_cmp [] (y # ys) = Less"
| "lex_cmp (x # xs) [] = Greater"
| "lex_cmp (x # xs) (y # ys) = then_ord (ord_cmp x y) (lex_cmp xs ys)"

lemma lex_cmp_self [simp]: "lex_cmp xs xs = Equal"
  by (induction xs) auto

lemma lex_cmp_Equal [simp]: "lex_cmp xs ys = Equal \<longleftrightarrow> xs = ys"
  by (induction xs ys rule: lex_cmp.induct) auto

lemma lex_cmp_reverse: "reverse_ord (lex_cmp xs ys) = lex_cmp ys xs"
  by (induction xs ys rule: lex_cmp.induct) (auto simp: reverse_then_ord ord_cmp_reverse)

lemma then_ord_LessD: "then_ord a b = Less \<longleftrightarrow> a = Less \<or> (a = Equal \<and> b = Less)"
  by (auto simp: then_ord_def)

lemma lex_cmp_trans: "lex_cmp xs ys = Less \<Longrightarrow> lex_cmp ys zs = Less \<Longrightarrow> lex_cmp xs zs = Less"
proof (induction xs ys arbitrary: zs rule: lex_cmp.induct)
  case (2 y ys)
  then show ?case by (cases zs) auto
next
  case (4 x xs y ys)
  then show ?case by (cases zs) (auto simp: then_ord_LessD)
qed auto

lemma lex_cmp_append_same [simp]: "lex_cmp (xs @ ys) (xs @ zs) = lex_cmp ys zs"
  by (induction xs) auto

lemma lex_cmp_nth_less:
  "length xs = length ys \<Longrightarrow>
   lex_cmp (xs @ s) (ys @ t) = then_ord (lex_cmp xs ys) (lex_cmp s t)"
  by (induction xs ys rule: lex_cmp.induct) (auto simp: then_ord_assoc)

section \<open>Order-preserving, self-delimiting keys\<close>

text \<open>
  Two keys stand in the contract \<open>key_ok c x y\<close> when, whatever bytes follow them, they
  compare as \<open>c\<close>, and if \<open>c\<close> is \<open>Equal\<close> the comparison goes on with the
  followers.  This is order preservation and prefix freedom at once, and it composes.
\<close>

definition key_ok :: "ordering \<Rightarrow> u8 list \<Rightarrow> u8 list \<Rightarrow> bool" where
  "key_ok c xs ys \<longleftrightarrow> (\<forall>s t. lex_cmp (xs @ s) (ys @ t) = then_ord c (lex_cmp s t))"

lemma key_okD: "key_ok c xs ys \<Longrightarrow> lex_cmp xs ys = c"
  unfolding key_ok_def by (metis append_Nil2 lex_cmp_self then_ord_simps(4))

lemma key_ok_tail: "key_ok c xs ys \<Longrightarrow> lex_cmp (xs @ s) (ys @ t) = then_ord c (lex_cmp s t)"
  by (simp add: key_ok_def)

lemma key_ok_append [key_intros]:
  "key_ok c xs ys \<Longrightarrow> key_ok d us vs \<Longrightarrow> key_ok (then_ord c d) (xs @ us) (ys @ vs)"
  by (simp add: key_ok_def then_ord_assoc)

lemma key_ok_same [simp]: "key_ok Equal xs xs"
  by (simp add: key_ok_def)

lemma key_ok_Cons_same [simp]: "key_ok c (x # xs) (x # ys) = key_ok c xs ys"
  by (simp add: key_ok_def)

lemma key_ok_first_less: "x < y \<Longrightarrow> key_ok Less (x # xs) (y # ys)"
  by (simp add: key_ok_def ord_cmp_def)

lemma key_ok_first_greater: "y < x \<Longrightarrow> key_ok Greater (x # xs) (y # ys)"
  by (auto simp: key_ok_def ord_cmp_def)

lemma key_ok_first_neq: "x \<noteq> y \<Longrightarrow> key_ok (ord_cmp x y) (x # xs) (y # ys)"
  by (cases x y rule: linorder_cases)
     (auto simp: ord_cmp_def intro: key_ok_first_less key_ok_first_greater)

lemma key_ok_same_length: "length xs = length ys \<Longrightarrow> key_ok (lex_cmp xs ys) xs ys"
  by (simp add: key_ok_def lex_cmp_nth_less)

lemma key_ok_reverse: "key_ok c xs ys \<Longrightarrow> key_ok (reverse_ord c) ys xs"
  unfolding key_ok_def
  by (metis lex_cmp_reverse reverse_then_ord)

text \<open>
  Complementing every byte reverses the order of keys that satisfy the contract with a
  decided comparison; equal keys stay equal.
\<close>

lemma unat_u8_less: "unat (x :: u8) < 256"
  using unsigned_less [of x, where 'a = nat] by simp

lemma unat_not_u8: "unat (NOT (x :: u8)) = 255 - unat x"
proof -
  have "NOT x = 255 - x" by (simp add: not_eq_complement)
  moreover have "x \<le> 255" using unat_u8_less [of x] by (simp add: word_le_nat_alt)
  ultimately show ?thesis by (simp add: unat_sub)
qed

lemma ord_cmp_not: "ord_cmp (NOT (x :: u8)) (NOT y) = ord_cmp y x"
proof -
  have "unat x \<le> 255" "unat y \<le> 255" using unat_u8_less [of x] unat_u8_less [of y] by auto
  then show ?thesis
    by (auto simp: ord_cmp_def word_less_nat_alt unat_not_u8 simp flip: word_unat_eq_iff)
qed

lemma key_ok_Nil [simp]:
  "key_ok c [] ys \<longleftrightarrow> ys = [] \<and> c = Equal"
  "key_ok c xs [] \<longleftrightarrow> xs = [] \<and> c = Equal"
proof -
  have *: "ys = [] \<and> c = Equal" if k: "key_ok c [] ys" for c ys
    using key_ok_tail [OF k, of ys "[]"] key_ok_tail [OF k, of "[]" "[]"] by simp
  show "key_ok c [] ys \<longleftrightarrow> ys = [] \<and> c = Equal" using * [of c ys] by auto
  show "key_ok c xs [] \<longleftrightarrow> xs = [] \<and> c = Equal"
    using * [of "reverse_ord c" xs] key_ok_reverse [of c xs "[]"] by auto
qed

lemma key_ok_Cons_neq: "key_ok c (x # xs) (y # ys) \<Longrightarrow> x \<noteq> y \<Longrightarrow> c = ord_cmp x y"
  by (drule key_okD) (auto simp: then_ord_def)

lemma key_ok_not: "key_ok c xs ys \<Longrightarrow> key_ok (reverse_ord c) (map NOT xs) (map NOT ys)"
proof (induction xs ys rule: lex_cmp.induct)
  case (4 x xs y ys)
  show ?case
  proof (cases "x = y")
    case True
    then show ?thesis using 4 by simp
  next
    case False
    then have "c = ord_cmp x y" using 4 key_ok_Cons_neq by blast
    then have "reverse_ord c = ord_cmp (NOT x) (NOT y)"
      by (simp add: ord_cmp_reverse ord_cmp_not)
    with False show ?thesis by (simp add: key_ok_first_neq)
  qed
qed auto

text \<open>
  A terminated byte string ends in \<open>00\<close> where \<open>00 FF\<close> stands for a zero byte of
  its content, so it is self-delimiting only in front of bytes other than \<open>FF\<close>.
  \<open>key_sep\<close> is the contract with that proviso, \<open>starts_low\<close> what a follower owes.
\<close>

definition starts_low :: "u8 list \<Rightarrow> bool" where
  "starts_low s \<longleftrightarrow> (case s of [] \<Rightarrow> True | b # _ \<Rightarrow> b < 0xFF)"

definition key_sep :: "ordering \<Rightarrow> u8 list \<Rightarrow> u8 list \<Rightarrow> bool" where
  "key_sep c xs ys \<longleftrightarrow>
     (\<forall>s t. starts_low s \<longrightarrow> starts_low t \<longrightarrow> lex_cmp (xs @ s) (ys @ t) = then_ord c (lex_cmp s t))"

lemma starts_low_simps [simp]: "starts_low []" "starts_low (b # bs) \<longleftrightarrow> b < 0xFF"
  by (simp_all add: starts_low_def)

lemma key_ok_sep: "key_ok c xs ys \<Longrightarrow> key_sep c xs ys"
  by (simp add: key_ok_def key_sep_def)

lemma key_sep_tail:
  "key_sep c xs ys \<Longrightarrow> starts_low s \<Longrightarrow> starts_low t \<Longrightarrow> lex_cmp (xs @ s) (ys @ t) = then_ord c (lex_cmp s t)"
  by (simp add: key_sep_def)

lemma key_sepD: "key_sep c xs ys \<Longrightarrow> lex_cmp xs ys = c"
  using key_sep_tail [of c xs ys "[]" "[]"] by simp

lemma starts_low_append: "starts_low (us @ s) \<longleftrightarrow> (if us = [] then starts_low s else starts_low us)"
  by (cases us) auto

lemma key_sep_append:
  "key_sep c xs ys \<Longrightarrow> starts_low us \<Longrightarrow> starts_low vs \<Longrightarrow> key_sep d us vs \<Longrightarrow>
   key_sep (then_ord c d) (xs @ us) (ys @ vs)"
  unfolding key_sep_def by (simp add: then_ord_assoc starts_low_append)

lemma key_ok_sep_append:
  "key_ok c xs ys \<Longrightarrow> key_sep d us vs \<Longrightarrow> key_sep (then_ord c d) (xs @ us) (ys @ vs)"
  by (simp add: key_ok_def key_sep_def then_ord_assoc)

lemma key_sep_same [simp]: "key_sep Equal xs xs"
  by (simp add: key_sep_def)

lemma key_sep_Cons_same [simp]: "key_sep c (x # xs) (x # ys) = key_sep c xs ys"
  by (simp add: key_sep_def)

lemma key_sep_first_neq: "x \<noteq> y \<Longrightarrow> key_sep (ord_cmp x y) (x # xs) (y # ys)"
  by (rule key_ok_sep [OF key_ok_first_neq])

text \<open>
  The contract as an interface: an encoder \<open>enc\<close> for a comparison \<open>cmp\<close>.  The
  comparison inherits the laws of a total preorder from the byte order.
\<close>

locale order_key =
  fixes cmp :: "'a \<Rightarrow> 'a \<Rightarrow> ordering"
    and enc :: "'a \<Rightarrow> u8 list"
    and valid :: "'a \<Rightarrow> bool"
  assumes enc_key: "valid x \<Longrightarrow> valid y \<Longrightarrow> key_sep (cmp x y) (enc x) (enc y)"
begin

lemma key_order: "valid x \<Longrightarrow> valid y \<Longrightarrow> lex_cmp (enc x) (enc y) = cmp x y"
  by (rule key_sepD [OF enc_key])

lemma cmp_refl: "valid x \<Longrightarrow> cmp x x = Equal"
  using key_order [of x x] by simp

lemma cmp_Equal_iff: "valid x \<Longrightarrow> valid y \<Longrightarrow> cmp x y = Equal \<longleftrightarrow> enc x = enc y"
  using key_order [of x y] lex_cmp_Equal by metis

lemma cmp_reverse: "valid x \<Longrightarrow> valid y \<Longrightarrow> cmp y x = reverse_ord (cmp x y)"
  by (metis key_order lex_cmp_reverse)

lemma cmp_trans:
  "valid x \<Longrightarrow> valid y \<Longrightarrow> valid z \<Longrightarrow> cmp x y = Less \<Longrightarrow> cmp y z = Less \<Longrightarrow> cmp x z = Less"
  by (metis key_order lex_cmp_trans)

lemma cmp_Equal_cong:
  "valid x \<Longrightarrow> valid y \<Longrightarrow> valid z \<Longrightarrow> cmp x y = Equal \<Longrightarrow> cmp x z = cmp y z"
  by (metis key_order lex_cmp_Equal)

end

text \<open>Encoders whose keys start below \<open>FF\<close> can be concatenated into composite keys.\<close>

locale tagged_key = order_key +
  assumes enc_start: "valid x \<Longrightarrow> starts_low (enc x)"
begin

lemma enc_prefix_free:
  "valid x \<Longrightarrow> valid y \<Longrightarrow> starts_low s \<Longrightarrow> starts_low t \<Longrightarrow> enc x @ s = enc y @ t \<Longrightarrow> enc x = enc y \<and> s = t"
  using key_sep_tail [OF enc_key, of x y s t] cmp_Equal_iff [of x y] by simp

lemma composite:
  assumes "valid x" "valid y" "valid u" "valid v"
  shows "lex_cmp (enc x @ enc u) (enc y @ enc v) = then_ord (cmp x y) (cmp u v)"
  using assms by (intro key_sepD key_sep_append enc_key enc_start)

fun cmp_all :: "('a \<times> 'a) list \<Rightarrow> ordering" where
  "cmp_all [] = Equal"
| "cmp_all ((x, y) # ps) = then_ord (cmp x y) (cmp_all ps)"

lemma composite_all:
  assumes "\<forall>(x, y) \<in> set ps. valid x \<and> valid y"
  shows "lex_cmp (concat (map (\<lambda>p. enc (fst p)) ps)) (concat (map (\<lambda>p. enc (snd p)) ps)) = cmp_all ps"
proof -
  have start: "starts_low (concat (map enc xs))" if "\<forall>x \<in> set xs. valid x" for xs
    using that by (induction xs) (auto simp: starts_low_append enc_start)
  have "key_sep (cmp_all ps) (concat (map (\<lambda>p. enc (fst p)) ps)) (concat (map (\<lambda>p. enc (snd p)) ps))"
    using assms
  proof (induction ps)
    case (Cons p ps)
    have "starts_low (concat (map (\<lambda>p. enc (fst p)) ps))" "starts_low (concat (map (\<lambda>p. enc (snd p)) ps))"
      using Cons.prems start [of "map fst ps"] start [of "map snd ps"] by (auto simp: split_beta comp_def)
    then show ?case using Cons by (cases p) (auto intro!: key_sep_append enc_key)
  qed simp
  then show ?thesis by (rule key_sepD)
qed

end

end
