(* ===== verification/F64.thy ===== *)
theory F64
  imports Prelude
begin

text \<open>
  Rust's \<open>f64\<close>: IEEE 754 binary64, represented by its bits (\<open>to_bits\<close>).  Every finite
  double is an integer multiple of \<open>2 ^ -1074\<close>, so the exact value of a double is read as
  the integer \<open>f64_scaled x\<close>, its value times \<open>2 ^ 1074\<close>; the infinities get
  \<open>2 ^ 2098\<close>, above every finite value, and comparisons of non-NaN doubles are comparisons
  of these integers.  Arithmetic is exact arithmetic followed by round-to-nearest, ties to
  even (\<open>round_units\<close>).
\<close>

type_synonym f64 = "64 word"

section \<open>Fields of the representation\<close>

abbreviation inf_mag :: nat where "inf_mag \<equiv> 2047 * 2 ^ 52"

definition f64_negative_bit :: "f64 \<Rightarrow> bool" where
  "f64_negative_bit x \<longleftrightarrow> 2 ^ 63 \<le> unat x"

definition f64_mag :: "f64 \<Rightarrow> nat" where
  "f64_mag x = unat x mod 2 ^ 63"

definition f64_of_mag :: "bool \<Rightarrow> nat \<Rightarrow> f64" where
  "f64_of_mag neg m = word_of_nat ((if neg then 2 ^ 63 else 0) + m)"

definition f64_is_nan :: "f64 \<Rightarrow> bool" where
  "f64_is_nan x \<longleftrightarrow> inf_mag < f64_mag x"

definition f64_is_infinite :: "f64 \<Rightarrow> bool" where
  "f64_is_infinite x \<longleftrightarrow> f64_mag x = inf_mag"

definition f64_nan :: f64 where "f64_nan = f64_of_mag False (inf_mag + 2 ^ 51)"

definition f64_infinity :: "bool \<Rightarrow> f64" where
  "f64_infinity neg = f64_of_mag neg inf_mag"

definition scaled_mag :: "nat \<Rightarrow> nat" where
  "scaled_mag m =
     (if m < 2 ^ 52 then m else (2 ^ 52 + m mod 2 ^ 52) * 2 ^ (m div 2 ^ 52 - 1))"

definition f64_scaled :: "f64 \<Rightarrow> int" where
  "f64_scaled x =
     (if f64_negative_bit x then - int (scaled_mag (f64_mag x)) else int (scaled_mag (f64_mag x)))"

text \<open>The comparison operators; every comparison with NaN is false.\<close>

definition f64_lt :: "f64 \<Rightarrow> f64 \<Rightarrow> bool" where
  "f64_lt x y \<longleftrightarrow> \<not> f64_is_nan x \<and> \<not> f64_is_nan y \<and> f64_scaled x < f64_scaled y"

definition f64_eq :: "f64 \<Rightarrow> f64 \<Rightarrow> bool" where
  "f64_eq x y \<longleftrightarrow> \<not> f64_is_nan x \<and> \<not> f64_is_nan y \<and> f64_scaled x = f64_scaled y"

definition f64_partial_cmp :: "f64 \<Rightarrow> f64 \<Rightarrow> ordering option" where
  "f64_partial_cmp x y =
     (if f64_is_nan x \<or> f64_is_nan y then None else Some (ord_cmp (f64_scaled x) (f64_scaled y)))"

section \<open>Rounding\<close>

fun bit_len :: "nat \<Rightarrow> nat" where
  "bit_len n = (if n = 0 then 0 else Suc (bit_len (n div 2)))"

declare bit_len.simps [simp del]

lemma bit_len_0 [simp]: "bit_len 0 = 0"
  by (simp add: bit_len.simps)

lemma bit_len_bounds: "0 < n \<Longrightarrow> 2 ^ (bit_len n - 1) \<le> n \<and> n < 2 ^ bit_len n"
proof (induction n rule: bit_len.induct)
  case (1 n)
  show ?case
  proof (cases "n div 2 = 0")
    case True
    with 1 have "n = 1" by simp
    then show ?thesis by (simp add: bit_len.simps)
  next
    case False
    with 1 have IH: "2 ^ (bit_len (n div 2) - 1) \<le> n div 2" "n div 2 < 2 ^ bit_len (n div 2)"
      by auto
    obtain l where l: "bit_len (n div 2) = Suc l"
      using False by (simp add: bit_len.simps [of "n div 2"])
    have "bit_len n = Suc (Suc l)" using 1 l by (simp add: bit_len.simps [of n])
    with IH l show ?thesis by simp linarith
  qed
qed

lemma bit_len_unique: "2 ^ l \<le> n \<Longrightarrow> n < 2 ^ Suc l \<Longrightarrow> bit_len n = Suc l"
proof -
  assume a: "(2::nat) ^ l \<le> n" "n < 2 ^ Suc l"
  then have "0 < n" by (cases n) auto
  note b = bit_len_bounds [OF this]
  have "(2::nat) ^ l < 2 ^ bit_len n" using le_less_trans [OF a(1) conjunct2 [OF b]] .
  then have "l < bit_len n" by simp
  moreover have "(2::nat) ^ (bit_len n - 1) < 2 ^ Suc l" using le_less_trans [OF conjunct1 [OF b] a(2)] .
  then have "bit_len n - 1 < Suc l"
    using power_less_imp_less_exp [of "2::nat" "bit_len n - 1" "Suc l"] by simp
  ultimately show ?thesis by simp
qed

lemma bit_len_le: "n < 2 ^ l \<Longrightarrow> bit_len n \<le> l"
proof (cases "n = 0")
  case False
  assume a: "n < 2 ^ l"
  have "(2::nat) ^ (bit_len n - 1) < 2 ^ l"
    using le_less_trans [OF conjunct1 [OF bit_len_bounds] a] False by simp
  then show ?thesis using False by (simp add: bit_len.simps [of n])
qed simp

text \<open>
  The magnitude bits of the double nearest to \<open>n / d\<close> units of \<open>2 ^ -1074\<close>: \<open>k\<close>
  drops the bits beyond the 53 that a significand holds, the quotient is rounded half to even,
  and a carry out of the significand moves into the exponent by itself.
\<close>

definition round_half_even :: "nat \<Rightarrow> nat \<Rightarrow> nat" where
  "round_half_even n d =
     (let q = n div d; r = n mod d
      in if d < 2 * r \<or> (d = 2 * r \<and> odd q) then Suc q else q)"

definition round_units :: "nat \<Rightarrow> nat \<Rightarrow> nat" where
  "round_units n d =
     (let k = bit_len (n div d) - 53
      in min (k * 2 ^ 52 + round_half_even n (d * 2 ^ k)) inf_mag)"

definition f64_of_units :: "bool \<Rightarrow> nat \<Rightarrow> nat \<Rightarrow> f64" where
  "f64_of_units neg n d = f64_of_mag neg (round_units n d)"

text \<open>An exact result \<open>v\<close> (in units) rounded; an exact zero keeps the given sign.\<close>

definition f64_of_scaled :: "bool \<Rightarrow> int \<Rightarrow> f64" where
  "f64_of_scaled zero_sign v =
     (if v = 0 then f64_of_mag zero_sign 0 else f64_of_units (v < 0) (nat \<bar>v\<bar>) 1)"

section \<open>Arithmetic\<close>

definition f64_neg :: "f64 \<Rightarrow> f64" where
  "f64_neg x = x XOR push_bit 63 1"

definition f64_add :: "f64 \<Rightarrow> f64 \<Rightarrow> f64" where
  "f64_add x y =
     (if f64_is_nan x \<or> f64_is_nan y then f64_nan
      else if f64_is_infinite x \<and> f64_is_infinite y \<and> f64_negative_bit x \<noteq> f64_negative_bit y
        then f64_nan
      else if f64_is_infinite x then x
      else if f64_is_infinite y then y
      else f64_of_scaled (f64_negative_bit x \<and> f64_negative_bit y) (f64_scaled x + f64_scaled y))"

definition f64_sub :: "f64 \<Rightarrow> f64 \<Rightarrow> f64" where
  "f64_sub x y = f64_add x (f64_neg y)"

definition f64_mul :: "f64 \<Rightarrow> f64 \<Rightarrow> f64" where
  "f64_mul x y =
     (let neg = (f64_negative_bit x \<noteq> f64_negative_bit y)
      in if f64_is_nan x \<or> f64_is_nan y then f64_nan
         else if f64_is_infinite x \<or> f64_is_infinite y
           then (if f64_scaled x = 0 \<or> f64_scaled y = 0 then f64_nan else f64_infinity neg)
         else f64_of_units neg (nat \<bar>f64_scaled x * f64_scaled y\<bar>) (2 ^ 1074))"

definition f64_div :: "f64 \<Rightarrow> f64 \<Rightarrow> f64" where
  "f64_div x y =
     (let neg = (f64_negative_bit x \<noteq> f64_negative_bit y)
      in if f64_is_nan x \<or> f64_is_nan y \<or> (f64_is_infinite x \<and> f64_is_infinite y)
             \<or> (f64_scaled x = 0 \<and> f64_scaled y = 0) then f64_nan
         else if f64_is_infinite x \<or> f64_scaled y = 0 then f64_infinity neg
         else if f64_is_infinite y then f64_of_mag neg 0
         else f64_of_units neg (nat \<bar>f64_scaled x\<bar> * 2 ^ 1074) (nat \<bar>f64_scaled y\<bar>))"

text \<open>Conversions: \<open>i as f64\<close> rounds, \<open>d as i64\<close> truncates and saturates.\<close>

definition trunc_units :: "int \<Rightarrow> int" where
  "trunc_units v = sgn v * (\<bar>v\<bar> div 2 ^ 1074)"

definition f64_of_i64 :: "i64 \<Rightarrow> f64" where
  "f64_of_i64 i = f64_of_scaled False (sint i * 2 ^ 1074)"

definition f64_trunc :: "f64 \<Rightarrow> f64" where
  "f64_trunc x =
     (if f64_is_nan x \<or> f64_is_infinite x then x
      else f64_of_scaled (f64_negative_bit x) (trunc_units (f64_scaled x) * 2 ^ 1074))"

definition f64_to_i64 :: "f64 \<Rightarrow> i64" where
  "f64_to_i64 x =
     (if f64_is_nan x then 0
      else word_of_int (max i64_min (min i64_max (trunc_units (f64_scaled x)))))"

section \<open>The exact value of a double\<close>

lemma f64_mag_less: "f64_mag x < 2 ^ 63"
  by (simp add: f64_mag_def)

lemma unat_f64: "unat x = (if f64_negative_bit x then 2 ^ 63 else 0) + f64_mag x"
proof -
  have "unat x < 2 ^ 64" using unsigned_less [of x, where 'a = nat] by simp
  then show ?thesis
    by (auto simp: f64_mag_def f64_negative_bit_def mod_if)
qed

lemma unat_f64_of_mag: "m < 2 ^ 63 \<Longrightarrow> unat (f64_of_mag neg m) = (if neg then 2 ^ 63 else 0) + m"
  unfolding f64_of_mag_def unat_of_nat by simp

lemma f64_of_mag_simps [simp]:
  assumes "m < 2 ^ 63"
  shows "f64_mag (f64_of_mag neg m) = m" "f64_negative_bit (f64_of_mag neg m) = neg"
  using assms by (auto simp: f64_mag_def f64_negative_bit_def unat_f64_of_mag)

lemma f64_scaled_of_mag:
  "m < 2 ^ 63 \<Longrightarrow>
   f64_scaled (f64_of_mag neg m) = (if neg then - int (scaled_mag m) else int (scaled_mag m))"
  by (simp add: f64_scaled_def)

lemma scaled_mag_0 [simp]: "scaled_mag 0 = 0"
  by (simp add: scaled_mag_def)

lemma scaled_mag_parts:
  assumes "q < 2 ^ 53" "k = 0 \<or> 2 ^ 52 \<le> q"
  shows "scaled_mag (k * 2 ^ 52 + q) = q * 2 ^ k"
proof (cases "q < 2 ^ 52")
  case True
  with assms show ?thesis by (simp add: scaled_mag_def)
next
  case False
  have m: "k * 2 ^ 52 + q = (k + 1) * 2 ^ 52 + (q - 2 ^ 52)" using False by simp
  have "(k * 2 ^ 52 + q) div 2 ^ 52 = k + 1" "(k * 2 ^ 52 + q) mod 2 ^ 52 = q - 2 ^ 52"
    unfolding m using assms(1) False
    by (simp_all only: div_mult_self3 mod_mult_self3 div_less mod_less) auto
  then show ?thesis using False by (simp add: scaled_mag_def)
qed

lemma scaled_mag_Suc: "scaled_mag m < scaled_mag (Suc m)"
proof (cases "Suc m < 2 ^ 52")
  case True
  then show ?thesis by (simp add: scaled_mag_def)
next
  case False
  define k where "k = m div 2 ^ 52"
  define r where "r = m mod 2 ^ 52"
  have r: "r < 2 ^ 52" "m = k * 2 ^ 52 + r" by (simp_all add: k_def r_def)
  show ?thesis
  proof (cases k)
    case 0
    then have "m = 2 ^ 52 - 1" using False r by simp
    then show ?thesis by (simp add: scaled_mag_def)
  next
    case (Suc j)
    have m: "m = j * 2 ^ 52 + (2 ^ 52 + r)" using r Suc by simp
    then have lhs: "scaled_mag m = (2 ^ 52 + r) * 2 ^ j"
      using scaled_mag_parts [of "2 ^ 52 + r" j] r unfolding m by simp
    show ?thesis
    proof (cases "Suc r = 2 ^ 52")
      case True
      have "Suc m = Suc j * 2 ^ 52 + 2 ^ 52" using m True by simp
      then have "scaled_mag (Suc m) = 2 ^ 52 * 2 ^ Suc j"
        using scaled_mag_parts [of "2 ^ 52" "Suc j"] by simp
      then show ?thesis using lhs r(1) by simp
    next
      case F: False
      have m': "Suc m = j * 2 ^ 52 + (2 ^ 52 + Suc r)" using m by simp
      have "scaled_mag (Suc m) = (2 ^ 52 + Suc r) * 2 ^ j"
        unfolding m' by (rule scaled_mag_parts) (use r F in auto)
      then show ?thesis using lhs by simp
    qed
  qed
qed

lemma scaled_mag_strict_mono: "strict_mono scaled_mag"
  by (simp add: strict_mono_Suc_iff scaled_mag_Suc)

lemma scaled_mag_less [simp]: "scaled_mag m < scaled_mag n \<longleftrightarrow> m < n"
  using scaled_mag_strict_mono by (rule strict_mono_less)

lemma scaled_mag_eq [simp]: "scaled_mag m = scaled_mag n \<longleftrightarrow> m = n"
  using scaled_mag_strict_mono by (rule strict_mono_eq)

lemma scaled_mag_eq_0 [simp]: "scaled_mag m = 0 \<longleftrightarrow> m = 0"
  using scaled_mag_eq [of m 0] by (simp del: scaled_mag_eq)

lemma scaled_mag_inf: "scaled_mag inf_mag = 2 ^ 2098"
  by (simp add: scaled_mag_def)

text \<open>Rounding leaves what fits a significand as it is, and only zero rounds to zero.\<close>

lemma round_half_even_exact: "0 < d \<Longrightarrow> d dvd n \<Longrightarrow> round_half_even n d = n div d"
  by (auto simp: round_half_even_def Let_def)

lemma round_units_exact:
  assumes "n = a * 2 ^ j" "a < 2 ^ 53" "n < 2 ^ 2098"
  shows "scaled_mag (round_units n 1) = n" "round_units n 1 < inf_mag"
proof -
  define k where "k = bit_len n - 53"
  have dvd: "2 ^ k dvd n"
  proof (cases "n = 0")
    case False
    then have "0 < a" using assms by (cases a) auto
    have "n < 2 ^ (53 + j)" using assms by (simp add: power_add mult.commute)
    then have "k \<le> j" using bit_len_le [of n "53 + j"] by (simp add: k_def)
    then show ?thesis by (simp add: assms(1) le_imp_power_dvd dvd_mult)
  qed simp
  define q where "q = n div 2 ^ k"
  have n: "n = q * 2 ^ k" using dvd by (simp add: q_def)
  have q: "q < 2 ^ 53 \<and> (k = 0 \<or> 2 ^ 52 \<le> q)"
  proof (cases "n = 0")
    case False
    note b = bit_len_bounds [of n]
    have "n < 2 ^ (53 + k)"
      by (rule less_le_trans [of n "2 ^ bit_len n"]) (use b False in \<open>auto simp: k_def\<close>)
    then have "q < 2 ^ 53" using n by (simp add: power_add)
    moreover have "2 ^ 52 \<le> q" if "k \<noteq> 0"
    proof -
      have "bit_len n - 1 = 52 + k" using that by (simp add: k_def)
      then have "2 ^ 52 * 2 ^ k \<le> q * 2 ^ k" using b False n by (simp add: power_add)
      then show ?thesis by simp
    qed
    ultimately show ?thesis by blast
  qed (simp add: q_def k_def)
  have v: "scaled_mag (k * 2 ^ 52 + q) = n" using scaled_mag_parts [of q k] q n by simp
  have lt: "k * 2 ^ 52 + q < inf_mag"
    using assms(3) v scaled_mag_inf scaled_mag_less [of "k * 2 ^ 52 + q" inf_mag] by simp
  have "round_units n 1 = k * 2 ^ 52 + q"
    using round_half_even_exact [of "2 ^ k" n] dvd lt
    by (simp add: round_units_def Let_def k_def [symmetric] q_def [symmetric])
  with v lt show "scaled_mag (round_units n 1) = n" "round_units n 1 < inf_mag" by simp_all
qed

lemma round_units_le_inf: "round_units n d \<le> inf_mag"
  by (simp add: round_units_def Let_def)

lemma round_units_eq_0: "round_units n 1 = 0 \<longleftrightarrow> n = 0"
proof
  assume r: "round_units n 1 = 0"
  then have k: "bit_len n \<le> 53"
    by (auto simp: round_units_def Let_def min_def split: if_splits)
  show "n = 0"
  proof (rule ccontr)
    assume "n \<noteq> 0"
    then have "n < 2 ^ 53"
      using bit_len_bounds [of n] k by (meson gr0I less_le_trans one_le_numeral power_increasing)
    then have "scaled_mag (round_units n 1) = n" by (intro round_units_exact [of n n 0]) auto
    with r \<open>n \<noteq> 0\<close> show False by simp
  qed
next
  assume "n = 0"
  then show "round_units n 1 = 0" by (simp add: round_units_def round_half_even_def Let_def)
qed

lemma f64_of_scaled_exact:
  assumes "\<bar>v\<bar> = int (a * 2 ^ j)" "a < 2 ^ 53" "\<bar>v\<bar> < 2 ^ 2098"
  shows "f64_scaled (f64_of_scaled z v) = v" "\<not> f64_is_nan (f64_of_scaled z v)"
    "\<not> f64_is_infinite (f64_of_scaled z v)"
proof -
  have n: "nat \<bar>v\<bar> = a * 2 ^ j" unfolding assms(1) nat_int ..
  have "nat \<bar>v\<bar> < nat (2 ^ 2098)" using assms(3) by (subst nat_less_eq_zless) auto
  then have n2: "nat \<bar>v\<bar> < 2 ^ 2098" by simp
  note e = round_units_exact [OF n assms(2) n2]
  have l: "round_units (nat \<bar>v\<bar>) 1 < 2 ^ 63" using e(2) by simp
  show "f64_scaled (f64_of_scaled z v) = v"
    using e(1) l by (auto simp: f64_of_scaled_def f64_of_units_def f64_scaled_of_mag)
  show "\<not> f64_is_nan (f64_of_scaled z v)" "\<not> f64_is_infinite (f64_of_scaled z v)"
    using e(2) l by (auto simp: f64_of_scaled_def f64_of_units_def f64_is_nan_def f64_is_infinite_def)
qed

lemma f64_of_scaled_sgn: "sgn (f64_scaled (f64_of_scaled z v)) = sgn v"
proof -
  have l: "round_units (nat \<bar>v\<bar>) 1 < 2 ^ 63" using round_units_le_inf [of "nat \<bar>v\<bar>" 1] by simp
  show ?thesis
  proof (cases "v = 0")
    case False
    then have "round_units (nat \<bar>v\<bar>) 1 \<noteq> 0" using round_units_eq_0 [of "nat \<bar>v\<bar>"] by simp
    then have "0 < scaled_mag (round_units (nat \<bar>v\<bar>) 1)"
      using scaled_mag_less [of 0 "round_units (nat \<bar>v\<bar>) 1"] by simp
    then show ?thesis
      using l False
      by (cases "0 < v") (simp_all add: f64_of_scaled_def f64_of_units_def f64_scaled_of_mag sgn_if
          del: scaled_mag_eq_0 One_nat_def)
  qed (simp add: f64_of_scaled_def f64_scaled_of_mag)
qed

lemma f64_of_scaled_not_nan: "\<not> f64_is_nan (f64_of_scaled z v)"
proof -
  have "round_units (nat \<bar>v\<bar>) 1 < 2 ^ 63" using round_units_le_inf [of "nat \<bar>v\<bar>" 1] by simp
  then show ?thesis using round_units_le_inf [of "nat \<bar>v\<bar>" 1]
    by (auto simp: f64_of_scaled_def f64_of_units_def f64_is_nan_def)
qed

end
