(* ===== verification/Encoding.thy ===== *)
theory Encoding
  imports F64
begin

text \<open>
  \<open>encoding.rs\<close>: numbers as sign, binary exponent and left-justified significand, and
  their ordered byte form.  The definitions follow the source bit by bit; a panic of the source
  (an index past the 11-byte buffer, the unreachable exponent, a failed assertion, a shift by a
  negative amount) is \<open>None\<close>.
\<close>

section \<open>Number parts\<close>

abbreviation i32_min :: int where "i32_min \<equiv> - (2 ^ 31)"
abbreviation i32_max :: int where "i32_max \<equiv> 2 ^ 31 - 1"

record number_parts =
  negative :: bool
  exponent :: int
  significand :: u64

definition parts_is_zero :: "number_parts \<Rightarrow> bool" where
  "parts_is_zero p \<longleftrightarrow> exponent p = i32_min \<and> significand p = 0"

definition parts_is_nan :: "number_parts \<Rightarrow> bool" where
  "parts_is_nan p \<longleftrightarrow> exponent p = i32_max \<and> significand p \<noteq> 0"

definition parts_is_infinite :: "number_parts \<Rightarrow> bool" where
  "parts_is_infinite p \<longleftrightarrow> exponent p = i32_max \<and> significand p = 0"

definition ZERO :: number_parts where
  "ZERO = \<lparr>negative = False, exponent = i32_min, significand = 0\<rparr>"

definition NAN :: number_parts where
  "NAN = \<lparr>negative = True, exponent = i32_max, significand = 1\<rparr>"

definition leading_zeros :: "u64 \<Rightarrow> nat" where
  "leading_zeros w = 64 - bit_len (unat w)"

definition from_i64 :: "i64 \<Rightarrow> number_parts" where
  "from_i64 v =
     (if v = 0 then ZERO
      else let neg = (sint v < 0);
               magnitude = (if neg then - v else v);
               lz = leading_zeros magnitude;
               binary_exponent = 63 - lz;
               fraction = magnitude AND NOT (push_bit binary_exponent 1);
               sig = (if lz = 63 then 0 else push_bit (lz + 1) fraction)
           in \<lparr>negative = neg, exponent = int binary_exponent, significand = sig\<rparr>)"

definition from_f64 :: "f64 \<Rightarrow> number_parts" where
  "from_f64 v =
     (let neg = f64_lt v 0;
          biased = int (unat (drop_bit 52 v AND 0x7FF));
          mantissa = v AND 0x000FFFFFFFFFFFFF
      in if biased = 0 then
           (if mantissa = 0 then ZERO
            else let lz = leading_zeros mantissa;
                     binary_exponent = 63 - lz;
                     fraction = mantissa AND NOT (push_bit binary_exponent 1)
                 in \<lparr>negative = neg, exponent = - 1023 - (int lz - 12),
                     significand = (if lz = 63 then 0 else push_bit (lz + 1) fraction)\<rparr>)
         else if biased = 0x7FF then
           (if mantissa = 0 then \<lparr>negative = neg, exponent = i32_max, significand = 0\<rparr> else NAN)
         else \<lparr>negative = neg, exponent = biased - 1023, significand = push_bit 12 mantissa\<rparr>)"

definition as_f64 :: "number_parts \<Rightarrow> f64" where
  "as_f64 p =
     (if parts_is_zero p then 0
      else if parts_is_infinite p then f64_infinity (negative p)
      else if parts_is_nan p then f64_nan
      else let (mantissa, biased) =
             (if - 1022 \<le> exponent p
              then (drop_bit 12 (significand p), word_of_int (exponent p + 1023))
              else let adjustment = nat (- 1022 - exponent p)
                   in (drop_bit adjustment (drop_bit 12 (significand p)) OR push_bit (52 - adjustment) 1, 0));
             sign = (if negative p then push_bit 63 1 else 0)
           in sign OR push_bit 52 biased OR mantissa)"

definition trailing_zeros :: "u64 \<Rightarrow> nat" where
  "trailing_zeros w = (if w = 0 then 64 else length (takeWhile (\<lambda>i. \<not> bit w i) [0..<64]))"

definition as_i64 :: "number_parts \<Rightarrow> i64 option" where
  "as_i64 p =
     (if parts_is_zero p then Some 0
      else if \<not> (0 \<le> exponent p \<and> exponent p \<le> 63) then None
      else if exponent p = 63 then
        (if negative p \<and> significand p = 0 then Some (word_of_int i64_min) else None)
      else let trailing = trailing_zeros (significand p)
           in if \<not> (significand p = 0 \<or> int (64 - trailing) \<le> exponent p) then None
              else let lz = 63 - nat (exponent p);
                       fraction = (if lz = 63 then 0 else drop_bit (lz + 1) (significand p));
                       magnitude = fraction OR push_bit (nat (exponent p)) 1
                   in Some (if negative p then - magnitude else magnitude))"

section \<open>Encoding\<close>

definition top_significand_byte :: "u64 \<Rightarrow> u32" where
  "top_significand_byte s = ucast (drop_bit 56 s AND 0xFE)"

definition out_byte :: "u32 \<Rightarrow> u32 \<Rightarrow> u8" where
  "out_byte inverter b = ucast ((b XOR inverter) AND 0xFF)"

text \<open>
  The streaming loop and the final store, from position \<open>pos\<close> of the 11-byte buffer on; the
  result is what they write from there.
\<close>

function stream_significand :: "u32 \<Rightarrow> nat \<Rightarrow> u32 \<Rightarrow> u64 \<Rightarrow> u8 list option" where
  "stream_significand inverter pos last_byte sig =
     (if 11 \<le> pos then None
      else if sig \<noteq> 0 then
        map_option (Cons (out_byte inverter (last_byte OR 1)))
          (stream_significand inverter (pos + 1) (top_significand_byte sig) (push_bit 7 sig))
      else Some [out_byte inverter last_byte])"
  by pat_completeness auto
termination
  by (relation "measure (\<lambda>(inverter, pos, last_byte, sig). 11 - pos)") auto

declare stream_significand.simps [simp del]

definition encode_number :: "number_parts \<Rightarrow> u8 list option" where
  "encode_number p =
     (if parts_is_zero p then Some [0x80]
      else if parts_is_nan p then Some [0x00, 0x60]
      else if parts_is_infinite p then Some (if negative p then [0x00, 0x80] else [0xFF])
      else
        let inverter = (if negative p then 0xFF else 0x00);
            exp = nat \<bar>exponent p\<bar>;
            exponent_mask = (if exponent p < 0 then 0xFF else 0x00) :: u32;
            sig = significand p
        in if exp < 4 then
             (let significand_start = exp + 1;
                  significand_mask = push_bit significand_start 1 - 2;
                  last_byte = (0xC0 OR push_bit significand_start 1)
                    OR (ucast (drop_bit (64 - significand_start) sig) AND significand_mask);
                  exponent_inverter = push_bit significand_start (NOT 0) AND 126;
                  last_byte = (if exponent_mask \<noteq> 0 then last_byte XOR exponent_inverter else last_byte)
              in stream_significand inverter 0 last_byte (push_bit exp sig))
           else if exp < 20 then
             map_option (Cons (out_byte inverter
                 ((0xE0 OR word_of_nat (exp - 4)) XOR (0x7F AND exponent_mask))))
               (stream_significand inverter 1 (top_significand_byte sig) (push_bit 7 sig))
           else if exp < 148 then
             (let e = word_of_nat (exp - 20);
                  second = (push_bit 4 e AND 0xF0) OR ucast (drop_bit 60 sig);
                  sig4 = push_bit 4 sig
              in map_option (\<lambda>bs.
                   out_byte inverter ((0xF0 OR drop_bit 4 e) XOR (0x7F AND exponent_mask))
                   # out_byte inverter (second XOR (0xF0 AND exponent_mask)) # bs)
                 (stream_significand inverter 2 (top_significand_byte sig4) (push_bit 7 sig4)))
           else if exp < 1172 then
             (let e = word_of_nat (exp - 148)
              in map_option (\<lambda>bs.
                   out_byte inverter ((0xF8 OR drop_bit 8 e) XOR (0x7F AND exponent_mask))
                   # out_byte inverter ((e AND 0xFF) XOR (0xFF AND exponent_mask)) # bs)
                 (stream_significand inverter 2 (top_significand_byte sig) (push_bit 7 sig)))
           else None)"

definition encode_i64 :: "i64 \<Rightarrow> u8 list option" where
  "encode_i64 v = encode_number (from_i64 v)"

definition encode_f64 :: "f64 \<Rightarrow> u8 list option" where
  "encode_f64 v = encode_number (from_f64 v)"

section \<open>Decoding\<close>

datatype decode_error =
    EmptyInput | NegativeZeroExponent | TruncatedInput | InvalidSentinel | InvalidMarker
  | TruncatedContinuation | OverlongSequence

definition decode_marker :: "u32 \<Rightarrow> int" where
  "decode_marker byte =
     (let leading_one = (byte AND 0x20 \<noteq> 0);
          v = (if leading_one then byte XOR 0xFF else byte) AND 0x3F;
          log2 = int (bit_len (unat v)) - 1;
          leader = 5 - log2
      in if leading_one then leader else - leader)"

text \<open>\<open>None\<close>: the shift amount \<open>position - 1\<close> is negative, which overflows.\<close>

definition decode_trailing_byte :: "u32 \<Rightarrow> int \<Rightarrow> u64 option" where
  "decode_trailing_byte v position =
     (if position < 1 then None else Some (push_bit (nat (position - 1)) (ucast (v AND 0xFE))))"

text \<open>The continuation loop over the bytes not yet read; counts the bytes it consumes.\<close>

fun decode_loop :: "u32 \<Rightarrow> u8 list \<Rightarrow> nat \<Rightarrow> u32 \<Rightarrow> int \<Rightarrow> u64 \<Rightarrow> (decode_error + u64 \<times> nat) option" where
  "decode_loop inverter bytes pos current write_bit sig =
     (if current AND 1 = 0 then Some (Inr (sig, pos))
      else case bytes of
        [] \<Rightarrow> Some (Inl TruncatedContinuation)
      | b # bs \<Rightarrow>
          let current = ucast b XOR inverter; write_bit = write_bit - 7
          in if 0 \<le> write_bit then
               (case decode_trailing_byte current write_bit of
                  None \<Rightarrow> None
                | Some t \<Rightarrow> decode_loop inverter bs (pos + 1) current write_bit (sig OR t))
             else if current AND 1 \<noteq> 0 then Some (Inl OverlongSequence)
             else Some (Inr (sig OR drop_bit (nat (1 - write_bit)) (ucast (current AND 0xFE)), pos + 1)))"

declare decode_loop.simps [simp del]

definition decode_finish ::
  "bool \<Rightarrow> bool \<Rightarrow> u32 \<Rightarrow> (decode_error + u64 \<times> nat) option \<Rightarrow> (decode_error + number_parts \<times> nat) option" where
  "decode_finish neg exponent_negative magnitude r =
     map_option (map_sum id (\<lambda>(sig, pos).
       (\<lparr>negative = neg,
         exponent = (if exponent_negative then - int (unat magnitude) else int (unat magnitude)),
         significand = sig\<rparr>, pos))) r"

definition decode_number :: "u8 list \<Rightarrow> (decode_error + number_parts \<times> nat) option" where
  "decode_number bytes =
     (case bytes of [] \<Rightarrow> Some (Inl EmptyInput) | b # bytes1 \<Rightarrow>
       let b0 = ucast b :: u32;
           neg = (b0 AND 0x80 = 0);
           inverter = (if neg then 0xFF else 0x00);
           b0 = b0 XOR inverter;
           exponent_negative = (b0 AND 0x40 = 0);
           exponent_inverter = (if exponent_negative then 0xFF else 0x00);
           marker = decode_marker ((b0 XOR exponent_inverter) AND 0xFF);
           finish = decode_finish neg exponent_negative
       in if marker = -4 then
            (if exponent_negative then Some (Inl NegativeZeroExponent)
             else finish 0 (decode_loop inverter bytes1 1 b0 64 0))
          else if -3 \<le> marker \<and> marker \<le> -1 then
            (let exp = nat (4 + marker);
                 significand_start = exp + 1;
                 significand_mask = NOT (push_bit significand_start (NOT 0)) AND 126;
                 write_bit = 64 - int exp
             in finish (word_of_nat exp) (decode_loop inverter bytes1 1 b0 write_bit
                  (push_bit (nat (write_bit - 1)) (ucast (b0 AND significand_mask)))))
          else if marker = 1 then
            (case bytes1 of
               [] \<Rightarrow> Some (Inl TruncatedInput)
             | b1 # bytes2 \<Rightarrow>
                 let current = ucast b1 XOR inverter
                 in finish (((b0 XOR exponent_inverter) AND 0x0F) + 4)
                      (case decode_trailing_byte current 57 of None \<Rightarrow> None
                       | Some t \<Rightarrow> decode_loop inverter bytes2 2 current 57 t))
          else if marker = 2 then
            (case bytes1 of
               b1 # b2 # bytes3 \<Rightarrow>
                 let high = push_bit 4 ((b0 XOR exponent_inverter) AND 0x07);
                     b1 = ucast b1 XOR inverter;
                     current = ucast b2 XOR inverter
                 in finish ((high OR drop_bit 4 (b1 XOR exponent_inverter)) + 20)
                      (case decode_trailing_byte current 53 of None \<Rightarrow> None
                       | Some t \<Rightarrow> decode_loop inverter bytes3 3 current 53
                           (push_bit 60 (ucast (b1 AND 0x0F)) OR t))
             | _ \<Rightarrow> Some (Inl TruncatedInput))
          else if marker = 3 then
            (case bytes1 of
               b1 # b2 # bytes3 \<Rightarrow>
                 let high = push_bit 8 ((b0 XOR exponent_inverter) AND 0x03);
                     current = ucast b2 XOR inverter
                 in finish ((high OR ((ucast b1 XOR inverter) XOR exponent_inverter)) + 148)
                      (case decode_trailing_byte current 57 of None \<Rightarrow> None
                       | Some t \<Rightarrow> decode_loop inverter bytes3 3 current 57 t)
             | _ \<Rightarrow> Some (Inl TruncatedInput))
          else if marker = 6 then
            (if exponent_negative then Some (Inr (ZERO, 1))
             else if \<not> neg then
               Some (Inr (\<lparr>negative = False, exponent = i32_max, significand = 0\<rparr>, 1))
             else (case bytes1 of
                     [] \<Rightarrow> Some (Inl InvalidSentinel)
                   | b1 # _ \<Rightarrow>
                       if b1 = 0x80 then
                         Some (Inr (\<lparr>negative = True, exponent = i32_max, significand = 0\<rparr>, 2))
                       else if b1 = 0x60 then Some (Inr (NAN, 2))
                       else Some (Inl InvalidSentinel)))
          else Some (Inl InvalidMarker))"

end
