(* ===== verification/EncodingSpec.thy ===== *)
theory EncodingSpec
  imports Encoding
begin

text \<open>
  The order and prefix-freedom of the number encoding.  \<open>groups n r\<close> is the 7-bit group
  stream of a \<open>7 * n\<close>-bit fraction \<open>r\<close> in plain arithmetic, \<open>spec_bytes e s\<close> the
  whole encoding of a positive number; the word-level encoder is shown to compute them, and the
  key contract is proved on the arithmetic form.
\<close>

section \<open>The group stream\<close>

definition digit :: "nat \<Rightarrow> nat \<Rightarrow> nat \<Rightarrow> nat list \<Rightarrow> nat list" where
  "digit b t q xs = (if q = 0 then [b + 2 * t] else (b + 2 * t + 1) # xs)"

fun groups :: "nat \<Rightarrow> nat \<Rightarrow> nat list" where
  "groups 0 r = []"
| "groups (Suc n) r =
     (let t = r div 2 ^ (7 * n); q = r mod 2 ^ (7 * n)
      in digit 0 t q (groups n q))"

definition byte :: "nat \<Rightarrow> u8" where
  "byte n = word_of_nat n"

abbreviation bytes_of :: "nat list \<Rightarrow> u8 list" where
  "bytes_of ns \<equiv> map byte ns"

lemma byte_less: "x < y \<Longrightarrow> y < 256 \<Longrightarrow> byte x < byte y"
  by (simp add: byte_def word_less_nat_alt unat_of_nat)

lemma key_ok_byte_less: "x < y \<Longrightarrow> y < 256 \<Longrightarrow> key_ok Less (byte x # xs) (byte y # ys)"
  by (intro key_ok_first_less byte_less)

lemma key_ok_byte_greater: "y < x \<Longrightarrow> x < 256 \<Longrightarrow> key_ok Greater (byte x # xs) (byte y # ys)"
  by (intro key_ok_first_greater byte_less)

text \<open>
  One step of every digit stream of the format: a byte made of a base, a digit \<open>t\<close> and the
  continuation flag, then the stream of what is left.
\<close>

lemma key_ok_digit:
  fixes b d t t' q q' :: nat
  assumes "b + 2 * t + 1 < 256" "b + 2 * t' + 1 < 256"
    and "q \<noteq> 0 \<Longrightarrow> q' \<noteq> 0 \<Longrightarrow> key_ok (ord_cmp q q') (bytes_of xs) (bytes_of ys)"
  shows "key_ok (then_ord (ord_cmp t t') (ord_cmp q q'))
    (bytes_of (digit b t q xs)) (bytes_of (digit b t' q' ys))"
proof (cases t t' rule: linorder_cases)
  case equal
  then show ?thesis
    using assms by (auto simp: digit_def ord_cmp_def [of q q'] intro: key_ok_byte_less key_ok_byte_greater)
next
  case less
  then show ?thesis using assms(2) by (auto simp: digit_def intro!: key_ok_byte_less)
next
  case greater
  then show ?thesis using assms(1) by (auto simp: digit_def intro!: key_ok_byte_greater)
qed

lemma ord_cmp_div_mod:
  "0 < (d::nat) \<Longrightarrow> ord_cmp r r' = then_ord (ord_cmp (r div d) (r' div d)) (ord_cmp (r mod d) (r' mod d))"
proof (cases "r div d" "r' div d" rule: linorder_cases)
  case less
  then have "r < r'" by (metis div_le_mono not_less)
  with less show ?thesis by (simp add: ord_cmp_def)
next
  case greater
  then have "r' < r" by (metis div_le_mono not_less)
  with greater show ?thesis by (simp add: ord_cmp_def)
next
  case equal
  then have "r = r' div d * d + r mod d" "r' = r' div d * d + r' mod d" by (metis div_mult_mod_eq)+
  then have "r < r' \<longleftrightarrow> r mod d < r' mod d" "r = r' \<longleftrightarrow> r mod d = r' mod d" by linarith+
  with equal show ?thesis by (simp add: ord_cmp_def)
qed

lemma groups_key:
  "r < 2 ^ (7 * n) \<Longrightarrow> r' < 2 ^ (7 * n) \<Longrightarrow>
   key_ok (ord_cmp r r') (bytes_of (groups n r)) (bytes_of (groups n r'))"
proof (induction n arbitrary: r r')
  case (Suc n)
  have t: "r div 2 ^ (7 * n) < 128" "r' div 2 ^ (7 * n) < 128"
    using Suc.prems by (simp_all add: less_mult_imp_div_less power_add)
  have "key_ok (then_ord (ord_cmp (r div 2 ^ (7 * n)) (r' div 2 ^ (7 * n)))
          (ord_cmp (r mod 2 ^ (7 * n)) (r' mod 2 ^ (7 * n))))
     (bytes_of (groups (Suc n) r)) (bytes_of (groups (Suc n) r'))"
    unfolding groups.simps Let_def by (rule key_ok_digit) (use t Suc.IH in auto)
  then show ?case using ord_cmp_div_mod [of "2 ^ (7 * n)" r r'] by simp
qed simp

section \<open>The streaming loop computes it\<close>

lemma or_one_word_of_nat: "(2 * word_of_nat t :: 'a::len word) OR 1 = 2 * word_of_nat t + 1"
  by (simp add: or_one_eq)

lemma top_significand_byte_eq: "top_significand_byte sig = word_of_nat (2 * (unat sig div 2 ^ 57))"
proof -
  have m: "(0xFE :: u64) = push_bit 1 (mask 7)" by (simp add: mask_eq_exp_minus_1)
  have "drop_bit 56 sig AND 0xFE = push_bit 1 (drop_bit 57 sig)"
    unfolding m by (rule bit_word_eqI) (auto simp: bit_and_iff bit_push_bit_iff bit_drop_bit_eq
        bit_mask_iff simp del: push_bit_of_Suc_0 push_bit_Suc dest: bit_imp_le_length)
  also have "unat \<dots> = 2 * (unat sig div 2 ^ 57)"
  proof -
    have "unat sig div 2 ^ 57 < 128" using unsigned_less [of sig, where 'a = nat] by simp
    then show ?thesis unfolding unsigned_push_bit_eq unsigned_drop_bit_eq
      by (simp add: take_bit_eq_mod push_bit_eq_mult drop_bit_eq_div)
  qed
  finally have "unat (drop_bit 56 sig AND 0xFE) = 2 * (unat sig div 2 ^ 57)" .
  then show ?thesis unfolding top_significand_byte_def
    by (metis of_nat_unat)
qed

lemma unat_push_7: "unat (push_bit 7 (sig :: u64)) = (unat sig mod 2 ^ 57) * 2 ^ 7"
  unfolding unsigned_push_bit_eq by (simp add: take_bit_eq_mod push_bit_eq_mult mod_mult_mult2 [of _ 128 _, symmetric])

lemma group_step:
  fixes r s n :: nat
  assumes "r * 2 ^ 64 = s * 2 ^ (7 * Suc n)"
  shows "r div 2 ^ (7 * n) = s div 2 ^ 57"
    "(r mod 2 ^ (7 * n)) * 2 ^ 64 = ((s mod 2 ^ 57) * 2 ^ 7) * 2 ^ (7 * n)"
proof -
  have "r * 2 ^ 57 * 2 ^ 7 = s * 2 ^ (7 * n) * 2 ^ 7" using assms by (simp add: power_add)
  then have *: "r * 2 ^ 57 = s * 2 ^ (7 * n)" by simp
  have "r div 2 ^ (7 * n) = (r * 2 ^ 57) div (2 ^ (7 * n) * 2 ^ 57)" by simp
  also have "\<dots> = (s * 2 ^ (7 * n)) div (2 ^ 57 * 2 ^ (7 * n))" by (simp only: * mult.commute)
  finally show "r div 2 ^ (7 * n) = s div 2 ^ 57" by simp
  have "(r mod 2 ^ (7 * n)) * 2 ^ 57 = (r * 2 ^ 57) mod (2 ^ (7 * n) * 2 ^ 57)"
    by (simp only: mod_mult_mult2)
  also have "\<dots> = (s * 2 ^ (7 * n)) mod (2 ^ 57 * 2 ^ (7 * n))" by (simp only: * mult.commute)
  also have "\<dots> = (s mod 2 ^ 57) * 2 ^ (7 * n)" by (simp only: mod_mult_mult2)
  finally show "(r mod 2 ^ (7 * n)) * 2 ^ 64 = ((s mod 2 ^ 57) * 2 ^ 7) * 2 ^ (7 * n)"
    by (simp add: mult.commute mult.left_commute)
qed


definition out_nat :: "u32 \<Rightarrow> nat \<Rightarrow> u8" where
  "out_nat inverter n = out_byte inverter (word_of_nat n)"

lemma stream_groups:
  assumes "r * 2 ^ 64 = unat sig * 2 ^ (7 * n)" "pos + n \<le> 10" "even b"
  shows "stream_significand inverter pos (word_of_nat b) sig =
    Some (map (out_nat inverter) (digit b 0 r (groups n r)))"
  using assms
proof (induction n arbitrary: r sig pos b)
  case 0
  then have "r * 2 ^ 64 < 1 * 2 ^ 64" using unsigned_less [of sig, where 'a = nat] by simp
  then have "r = 0" by simp
  with 0 show ?case
    by (simp add: stream_significand.simps digit_def out_nat_def unat_eq_0)
next
  case (Suc n)
  show ?case
  proof (cases "sig = 0")
    case True
    with Suc.prems show ?thesis by (simp add: stream_significand.simps digit_def out_nat_def)
  next
    case False
    then have "unat sig \<noteq> 0" by (simp add: unat_eq_0)
    then have r: "r \<noteq> 0" using Suc.prems(1) by (intro notI) simp
    define t where "t = r div 2 ^ (7 * n)"
    define q where "q = r mod 2 ^ (7 * n)"
    note st = group_step [OF Suc.prems(1), folded t_def q_def]
    have top: "top_significand_byte sig = word_of_nat (2 * t)"
      using st(1) by (simp add: top_significand_byte_eq)
    have "q * 2 ^ 64 = unat (push_bit 7 sig) * 2 ^ (7 * n)" using st(2) by (simp only: unat_push_7)
    then have IH: "stream_significand inverter (pos + 1) (word_of_nat (2 * t)) (push_bit 7 sig) =
        Some (map (out_nat inverter) (digit (2 * t) 0 q (groups n q)))"
      using Suc.prems(2) by (intro Suc.IH) auto
    have one: "(word_of_nat b :: u32) OR 1 = word_of_nat (b + 1)"
      using Suc.prems(3) or_one_word_of_nat [where t = "b div 2" and 'a = 32] by (auto elim!: evenE)
    have dd: "digit (2 * t) 0 q (groups n q) = groups (Suc n) r"
      by (simp add: digit_def t_def q_def Let_def)
    have "stream_significand inverter pos (word_of_nat b) sig =
        map_option (Cons (out_byte inverter (word_of_nat b OR 1)))
          (stream_significand inverter (pos + 1) (top_significand_byte sig) (push_bit 7 sig))"
      using False Suc.prems(2) by (subst stream_significand.simps) simp
    then show ?thesis unfolding top IH dd one
      using r by (simp only: option.map(2) list.map digit_def if_False out_nat_def One_nat_def)
        (simp add: out_nat_def)
  qed
qed

lemma stream_groups_Suc:
  assumes "r * 2 ^ 64 = unat sig * 2 ^ (7 * Suc n)" "pos + n \<le> 10"
  shows "stream_significand inverter pos (top_significand_byte sig) (push_bit 7 sig) =
    Some (map (out_nat inverter) (groups (Suc n) r))"
proof -
  note st = group_step [OF assms(1)]
  have "(r mod 2 ^ (7 * n)) * 2 ^ 64 = unat (push_bit 7 sig) * 2 ^ (7 * n)"
    using st(2) by (simp only: unat_push_7)
  from stream_groups [OF this assms(2), of "2 * (r div 2 ^ (7 * n))"] st(1)
  show ?thesis by (simp add: top_significand_byte_eq digit_def Let_def)
qed

section \<open>The whole encoding of a finite number\<close>

definition small_base :: "int \<Rightarrow> nat" where
  "small_base e =
     (if e = -3 then 0xA0 else if e = -2 then 0xB0 else if e = -1 then 0xB8
      else 0xC0 + 2 ^ (nat e + 1))"

definition spec_bytes :: "int \<Rightarrow> nat \<Rightarrow> nat list" where
  "spec_bytes e s =
     (let n = nat \<bar>e\<bar>
      in if n < 4 then
           (let q = s mod 2 ^ (64 - n)
            in digit (small_base e) (s div 2 ^ (64 - n)) q (groups 10 (q * 2 ^ (n + 6))))
         else if n < 20 then
           (if e < 0 then 0x9F - (n - 4) else 0xE0 + (n - 4)) # groups 10 (s * 64)
         else if n < 148 then
           (if e < 0 then 0x8F - (n - 20) div 16 else 0xF0 + (n - 20) div 16)
           # ((if e < 0 then 15 - (n - 20) mod 16 else (n - 20) mod 16) * 16 + s div 2 ^ 60)
           # groups 9 (8 * (s mod 2 ^ 60))
         else
           (if e < 0 then 0x87 - (n - 148) div 256 else 0xF8 + (n - 148) div 256)
           # (if e < 0 then 255 - (n - 148) mod 256 else (n - 148) mod 256)
           # groups 9 (s div 2))"

text \<open>Header bytes, checked value by value.\<close>

lemma header_small:
  "list_all (\<lambda>n. list_all (\<lambda>x.
      (0xC0 OR push_bit (n + 1) 1) OR (word_of_nat x AND (push_bit (n + 1) 1 - 2))
        = (word_of_nat (0xC0 + 2 ^ (n + 1) + 2 * (x div 2)) :: u32)) [0..<2 ^ (n + 1)]) [0..<4]"
  by code_simp

lemma header_small_neg:
  "list_all (\<lambda>n. list_all (\<lambda>x.
      ((0xC0 OR push_bit (n + 1) 1) OR (word_of_nat x AND (push_bit (n + 1) 1 - 2)))
         XOR (push_bit (n + 1) (NOT 0) AND 126)
        = (word_of_nat (small_base (- int n) + 2 * (x div 2)) :: u32)) [0..<2 ^ (n + 1)]) [1..<4]"
  by code_simp

lemma header_byte2:
  "list_all (\<lambda>k. out_byte 0 ((0xE0 OR word_of_nat k) XOR (0x7F AND 0)) = byte (0xE0 + k) \<and>
      out_byte 0 ((0xE0 OR word_of_nat k) XOR (0x7F AND 0xFF)) = byte (0x9F - k)) [0..<16]"
  by code_simp

lemma header_byte3:
  "list_all (\<lambda>k. out_byte 0 ((0xF0 OR word_of_nat k) XOR (0x7F AND 0)) = byte (0xF0 + k) \<and>
      out_byte 0 ((0xF0 OR word_of_nat k) XOR (0x7F AND 0xFF)) = byte (0x8F - k)) [0..<8]"
  by code_simp

lemma header_byte4:
  "list_all (\<lambda>k. out_byte 0 ((0xF8 OR word_of_nat k) XOR (0x7F AND 0)) = byte (0xF8 + k) \<and>
      out_byte 0 ((0xF8 OR word_of_nat k) XOR (0x7F AND 0xFF)) = byte (0x87 - k)) [0..<4]"
  by code_simp

lemma header_nibbles:
  "list_all (\<lambda>k. list_all (\<lambda>x.
      out_byte 0 ((word_of_nat (16 * k) OR word_of_nat x) XOR (0xF0 AND 0)) = byte (k * 16 + x) \<and>
      out_byte 0 ((word_of_nat (16 * k) OR word_of_nat x) XOR (0xF0 AND 0xFF))
        = byte ((15 - k) * 16 + x)) [0..<16]) [0..<16]"
  by code_simp

lemma header_low_byte:
  "list_all (\<lambda>k.
      out_byte 0 (word_of_nat k XOR (0xFF AND 0)) = byte k \<and>
      out_byte 0 (word_of_nat k XOR (0xFF AND 0xFF)) = byte (255 - k)) [0..<256]"
  by code_simp

lemma push_nibble:
  "list_all (\<lambda>k. push_bit 4 (word_of_nat k :: u32) AND 0xF0 = word_of_nat (16 * (k mod 16))) [0..<128]"
  by code_simp

definition inv_byte :: "bool \<Rightarrow> u8 \<Rightarrow> u8" where
  "inv_byte neg b = (if neg then NOT b else b)"

lemma out_byte_0: "out_byte 0 (word_of_nat n) = byte n"
proof -
  have m: "(0xFF :: u32) = mask 8" by (simp add: mask_eq_exp_minus_1)
  show ?thesis unfolding out_byte_def byte_def m
    by (rule bit_word_eqI) (auto simp: bit_simps)
qed

lemma out_byte_inv: "out_byte (if neg then 0xFF else 0x00) x = inv_byte neg (out_byte 0 x)"
proof -
  have m: "(0xFF :: u32) = mask 8" by (simp add: mask_eq_exp_minus_1)
  show ?thesis unfolding out_byte_def inv_byte_def m
    by (auto intro!: bit_word_eqI simp: bit_simps)
qed

lemma out_nat_inv: "out_nat (if neg then 0xFF else 0x00) n = inv_byte neg (byte n)"
  unfolding out_nat_def out_byte_inv out_byte_0 ..

definition parts_ok :: "number_parts \<Rightarrow> bool" where
  "parts_ok p \<longleftrightarrow> \<bar>exponent p\<bar> < 1172 \<and> (148 \<le> \<bar>exponent p\<bar> \<longrightarrow> even (unat (significand p)))"

lemma list_all_upt: "list_all P [0..<m] \<Longrightarrow> k < m \<Longrightarrow> P k"
  by (simp add: list_all_iff)

lemma ucast_drop_bit: "(ucast (drop_bit k (sig :: u64)) :: u32) = word_of_nat (unat sig div 2 ^ k)"
  by (subst of_nat_unat [symmetric]) (simp only: unat_drop_bit_eq, simp only: drop_bit_eq_div)

lemma unat_sig_less: "unat (sig :: u64) < 2 ^ 64"
  using unsigned_less [of sig, where 'a = nat] by simp

lemma unat_push_bit: "n \<le> 64 \<Longrightarrow> unat (push_bit n (sig :: u64)) = (unat sig mod 2 ^ (64 - n)) * 2 ^ n"
proof -
  assume "n \<le> 64"
  then have "(2 :: nat) ^ 64 = 2 ^ (64 - n) * 2 ^ n" by (simp flip: power_add)
  then have "unat (push_bit n sig) = (unat sig * 2 ^ n) mod (2 ^ (64 - n) * 2 ^ n)"
    unfolding unsigned_push_bit_eq by (simp add: take_bit_eq_mod push_bit_eq_mult)
  then show ?thesis by (simp only: mod_mult_mult2)
qed

lemma drop_bit_word_of_nat:
  assumes "k < 2 ^ 32"
  shows "drop_bit m (word_of_nat k :: u32) = word_of_nat (k div 2 ^ m)"
proof -
  have "k div 2 ^ m < 2 ^ 32" using assms by (meson div_le_dividend le_less_trans)
  then show ?thesis using assms
    by (simp only: word_unat_eq_iff unat_drop_bit_eq) (simp add: drop_bit_eq_div unat_of_nat)
qed

lemma encode_small:
  assumes e: "\<bar>e\<bar> < 4"
  shows "encode_number \<lparr>negative = neg, exponent = e, significand = sig\<rparr> =
    Some (map (inv_byte neg) (bytes_of (spec_bytes e (unat sig))))"
proof -
  define n where "n = nat \<bar>e\<bar>"
  have n: "n < 4" using e by (simp add: n_def)
  define x where "x = unat sig div 2 ^ (63 - n)"
  define q where "q = unat sig mod 2 ^ (64 - n)"
  have "(2::nat) ^ (n + 1) * 2 ^ (63 - n) = 2 ^ 64"
    using n by (simp only: power_add [symmetric]) simp
  then have "unat sig < 2 ^ (n + 1) * 2 ^ (63 - n)"
    using unat_sig_less [of sig] by (simp only:)
  then have x: "x < 2 ^ (n + 1)" by (simp add: x_def less_mult_imp_div_less)
  have "x div 2 = unat sig div (2 ^ (63 - n) * 2)" by (simp only: x_def div_mult2_eq)
  moreover have "(2::nat) ^ (63 - n) * 2 = 2 ^ (64 - n)" 
    using n power_Suc2 [of "2::nat" "63 - n"] by (simp add: Suc_diff_le [symmetric])
  ultimately have t: "x div 2 = unat sig div 2 ^ (64 - n)" by simp
  define b where "b = small_base e + 2 * (x div 2)"
  have base: "small_base e = (if e < 0 then small_base (- int n) else 0xC0 + 2 ^ (n + 1))"
    using e by (auto simp: small_base_def n_def)
  have hdr: "(let w = (0xC0 OR push_bit (n + 1) 1)
                OR (ucast (drop_bit (64 - (n + 1)) sig) AND (push_bit (n + 1) 1 - 2))
              in if e < 0 then w XOR (push_bit (n + 1) (NOT 0) AND 126) else w)
      = (word_of_nat b :: u32)"
  proof -
    have u: "ucast (drop_bit (64 - (n + 1)) sig) = (word_of_nat x :: u32)"
      by (simp add: ucast_drop_bit x_def)
    note p = list_all_upt [OF list_all_upt [OF header_small n] x]
    show ?thesis
    proof (cases "e < 0")
      case True
      then have "1 \<le> n" by (simp add: n_def)
      then have "list_all (\<lambda>x.
          ((0xC0 OR push_bit (n + 1) 1) OR (word_of_nat x AND (push_bit (n + 1) 1 - 2)))
             XOR (push_bit (n + 1) (NOT 0) AND 126)
          = (word_of_nat (small_base (- int n) + 2 * (x div 2)) :: u32)) [0..<2 ^ (n + 1)]"
        using header_small_neg n by (simp add: list_all_iff)
      from list_all_upt [OF this x] True show ?thesis by (simp only: Let_def u if_True b_def base)
    next
      case False
      then show ?thesis using p by (simp only: Let_def u if_False b_def base)
    qed
  qed
  have even: "even b"
    using e by (auto simp: b_def small_base_def)
  have rq: "(q * 2 ^ (n + 6)) * 2 ^ 64 = unat (push_bit n sig) * 2 ^ (7 * 10)"
    using n by (simp only: unat_push_bit q_def less_imp_le_nat) (simp add: power_add)
  have spec: "spec_bytes e (unat sig) = digit b 0 (q * 2 ^ (n + 6)) (groups 10 (q * 2 ^ (n + 6)))"
    using n t by (simp add: spec_bytes_def Let_def n_def [symmetric] q_def [symmetric] digit_def b_def
        del: groups.simps)
  have "stream_significand (if neg then 0xFF else 0x00) 0 (word_of_nat b) (push_bit n sig) =
      Some (map (inv_byte neg) (bytes_of (spec_bytes e (unat sig))))"
    unfolding spec using stream_groups [OF rq _ even, of 0] by (simp add: out_nat_inv comp_def)
  moreover have "((if e < 0 then 0xFF else 0x00 :: u32) \<noteq> 0) = (e < 0)" by simp
  moreover have "\<not> parts_is_zero p" "\<not> parts_is_nan p" "\<not> parts_is_infinite p"
    if "p = \<lparr>negative = neg, exponent = e, significand = sig\<rparr>" for p
    using e that by (auto simp: parts_is_zero_def parts_is_nan_def parts_is_infinite_def)
  ultimately show ?thesis
    unfolding encode_number_def Let_def hdr [unfolded Let_def, symmetric]
    by (simp only: n_def [symmetric] n number_parts.select_convs if_True if_False not_False_eq_True)
qed

lemma encode_e20:
  assumes e: "4 \<le> \<bar>e\<bar>" "\<bar>e\<bar> < 20"
  shows "encode_number \<lparr>negative = neg, exponent = e, significand = sig\<rparr> =
    Some (map (inv_byte neg) (bytes_of (spec_bytes e (unat sig))))"
proof -
  define n where "n = nat \<bar>e\<bar>"
  have n: "4 \<le> n" "n < 20" using e by (auto simp: n_def)
  have "n - 4 < 16" using n by simp
  note h = list_all_upt [OF header_byte2 this]
  have rq: "(unat sig * 64) * 2 ^ 64 = unat sig * 2 ^ (7 * Suc 9)" by simp
  note st = stream_groups_Suc [OF rq, of 1 "if neg then 0xFF else 0x00"]
  show ?thesis
    using e n h st
    by (auto simp: encode_number_def parts_is_zero_def parts_is_nan_def parts_is_infinite_def
        spec_bytes_def Let_def n_def [symmetric] out_byte_inv out_nat_inv comp_def
        simp del: groups.simps push_bit_numeral)
qed

lemma encode_e148:
  assumes e: "20 \<le> \<bar>e\<bar>" "\<bar>e\<bar> < 148"
  shows "encode_number \<lparr>negative = neg, exponent = e, significand = sig\<rparr> =
    Some (map (inv_byte neg) (bytes_of (spec_bytes e (unat sig))))"
proof -
  define n where "n = nat \<bar>e\<bar>"
  have n: "20 \<le> n" "n < 148" using e by (auto simp: n_def)
  define k where "k = n - 20"
  have k: "k < 128" "k div 16 < 8" "k mod 16 < 16" using n by (auto simp: k_def)
  define x where "x = unat sig div 2 ^ 60"
  have x: "x < 16" using unat_sig_less [of sig] by (simp add: x_def)
  have top: "ucast (drop_bit 60 sig) = (word_of_nat x :: u32)" by (simp only: ucast_drop_bit x_def)
  have xe: "unat sig div 1152921504606846976 = x" by (simp add: x_def)
  have hi: "drop_bit 4 (word_of_nat k :: u32) = word_of_nat (k div 16)"
    using k(1) drop_bit_word_of_nat [of k 4] by simp
  note h = list_all_upt [OF header_byte3 k(2)] and p = list_all_upt [OF push_nibble k(1)]
    and nib = list_all_upt [OF list_all_upt [OF header_nibbles k(3)] x]
  have rq: "(8 * (unat sig mod 2 ^ 60)) * 2 ^ 64 = unat (push_bit 4 sig) * 2 ^ (7 * Suc 8)"
    using unat_push_bit [of 4 sig] by simp
  note st = stream_groups_Suc [OF rq, of 2 "if neg then 0xFF else 0x00"]
  show ?thesis
    using e n h st nib
    by (auto simp: encode_number_def parts_is_zero_def parts_is_nan_def parts_is_infinite_def
        spec_bytes_def Let_def n_def [symmetric] k_def [symmetric] xe hi p top
        out_byte_inv out_nat_inv comp_def simp del: groups.simps push_bit_numeral)
qed

lemma encode_e1172:
  assumes e: "148 \<le> \<bar>e\<bar>" "\<bar>e\<bar> < 1172" and even: "even (unat sig)"
  shows "encode_number \<lparr>negative = neg, exponent = e, significand = sig\<rparr> =
    Some (map (inv_byte neg) (bytes_of (spec_bytes e (unat sig))))"
proof -
  define n where "n = nat \<bar>e\<bar>"
  have n: "148 \<le> n" "n < 1172" using e by (auto simp: n_def)
  define k where "k = n - 148"
  have k: "k < 1024" "k div 256 < 4" "k mod 256 < 256" using n by (auto simp: k_def)
  have hi: "drop_bit 8 (word_of_nat k :: u32) = word_of_nat (k div 256)"
    using k(1) drop_bit_word_of_nat [of k 8] by simp
  have "(word_of_nat k :: u32) AND mask 8 = word_of_nat (k mod 2 ^ 8)"
    using k(1) by (simp only: take_bit_eq_mask [symmetric] word_unat_eq_iff unsigned_take_bit_eq)
      (simp add: unat_of_nat take_bit_eq_mod)
  then have lo: "(word_of_nat k :: u32) AND 0xFF = word_of_nat (k mod 256)"
    by (simp add: mask_eq_exp_minus_1)
  note h = list_all_upt [OF header_byte4 k(2)] and l = list_all_upt [OF header_low_byte k(3)]
  have rq: "(unat sig div 2) * 2 ^ 64 = unat sig * 2 ^ (7 * Suc 8)" using even by (auto elim!: evenE)
  note st = stream_groups_Suc [OF rq, of 2 "if neg then 0xFF else 0x00"]
  show ?thesis
    using e n h st l
    by (auto simp: encode_number_def parts_is_zero_def parts_is_nan_def parts_is_infinite_def
        spec_bytes_def Let_def n_def [symmetric] k_def [symmetric] hi lo
        out_byte_inv out_nat_inv comp_def simp del: groups.simps push_bit_numeral)
qed

lemma encode_number_spec:
  "parts_ok p \<Longrightarrow> encode_number p =
    Some (map (inv_byte (negative p)) (bytes_of (spec_bytes (exponent p) (unat (significand p)))))"
  using encode_small [of "exponent p" "negative p" "significand p"]
    encode_e20 [of "exponent p" "negative p" "significand p"]
    encode_e148 [of "exponent p" "negative p" "significand p"]
    encode_e1172 [of "exponent p" "significand p" "negative p"]
  by (cases p) (fastforce simp: parts_ok_def)

end
