(* ===== verification/EncodingOrder.thy ===== *)
theory EncodingOrder
  imports EncodingSpec
begin

section \<open>Order of the arithmetic form\<close>

lemma key_ok_Less_trans: "key_ok Less xs ys \<Longrightarrow> key_ok Less ys zs \<Longrightarrow> key_ok Less xs zs"
  unfolding key_ok_def then_ord_simps by (metis lex_cmp_trans append_Nil2)

text \<open>
  In the two regions with a second header byte the header is the two-digit form of one linear
  code of the exponent.
\<close>

lemma split_less:
  fixes c d m :: nat
  assumes "c < d" "0 < m"
  shows "c div m < d div m \<or> c div m = d div m \<and> c mod m < d mod m"
  using assms ord_cmp_div_mod [of m c d] by (auto simp: then_ord_LessD dest: sym)

lemma key_ok_two_Less:
  assumes "x < x' \<or> x = x' \<and> y < y'" "x' < 256" "y' < 256"
  shows "key_ok Less (bytes_of (x # y # xs)) (bytes_of (x' # y' # ys))"
  using assms(1)
proof
  assume "x < x'"
  then show ?thesis unfolding list.map using assms(2) by (rule key_ok_byte_less)
next
  assume "x = x' \<and> y < y'"
  then show ?thesis using assms(3) by (simp add: key_ok_byte_less)
qed

lemma two_bytes_less:
  assumes "c < d" "d < 65536"
  shows "key_ok Less (bytes_of (c div 256 # c mod 256 # xs)) (bytes_of (d div 256 # d mod 256 # ys))"
  using assms split_less [of c d 256] by (intro key_ok_two_Less) auto

lemma nibbles_less:
  assumes "c < d" "d < 4096" "x < 16" "y < 16"
  shows "key_ok Less (bytes_of (c div 16 # (c mod 16 * 16 + x) # xs)) (bytes_of (d div 16 # (d mod 16 * 16 + y) # ys))"
proof (rule key_ok_two_Less)
  show "c div 16 < d div 16 \<or> c div 16 = d div 16 \<and> c mod 16 * 16 + x < d mod 16 * 16 + y"
    using split_less [of c d 16] assms by auto
  show "d div 16 < 256" using assms by simp
  have "d mod 16 < 16" by simp
  then show "d mod 16 * 16 + y < 256" using assms by linarith
qed

lemma complement_digits:
  fixes a b k m :: nat
  assumes "k div m \<le> a" "0 < m"
  shows "(a * m + (m - 1) - k) div m = a - k div m" "(a * m + (m - 1) - k) mod m = m - 1 - k mod m"
proof -
  have k: "k = k div m * m + k mod m" by simp
  have "a * m + (m - 1) - k = (a - k div m) * m + (m - 1 - k mod m)"
  proof -
    have "k div m * m \<le> a * m" using assms by simp
    moreover have "k mod m \<le> m - 1" using assms by (simp add: less_Suc_eq_le flip: less_Suc_eq_le)
    ultimately show ?thesis using k unfolding diff_mult_distrib by linarith
  qed
  moreover have "m - 1 - k mod m < m" using assms by simp
  ultimately show "(a * m + (m - 1) - k) div m = a - k div m"
    "(a * m + (m - 1) - k) mod m = m - 1 - k mod m"
    by (simp_all)
qed

definition code_12 :: "int \<Rightarrow> nat" where
  "code_12 e = (if e < 0 then 0x8FF - (nat (- e) - 20) else 0xF00 + (nat e - 20))"

definition code_16 :: "int \<Rightarrow> nat" where
  "code_16 e = (if e < 0 then 0x87FF - (nat (- e) - 148) else 0xF800 + (nat e - 148))"

lemma spec_12:
  assumes "20 \<le> \<bar>e\<bar>" "\<bar>e\<bar> < 148"
  shows "spec_bytes e s = code_12 e div 16 # (code_12 e mod 16 * 16 + s div 2 ^ 60)
    # groups 9 (8 * (s mod 2 ^ 60))"
proof -
  define n where "n = nat \<bar>e\<bar>"
  have n: "\<not> n < 4" "\<not> n < 20" "n < 148" using assms by (auto simp: n_def)
  have k: "n - 20 < 128" using n by simp
  have s: "spec_bytes e s =
      (if e < 0 then 0x8F - (n - 20) div 16 else 0xF0 + (n - 20) div 16)
      # ((if e < 0 then 15 - (n - 20) mod 16 else (n - 20) mod 16) * 16 + s div 2 ^ 60)
      # groups 9 (8 * (s mod 2 ^ 60))"
    by (simp only: spec_bytes_def Let_def n_def [symmetric] n if_False if_True)
  have e: "code_12 e = (if e < 0 then 0x8F * 16 + (16 - 1) - (n - 20) else 0xF0 * 16 + (n - 20))"
    by (simp add: code_12_def n_def)
  have "(n - 20) div 16 \<le> 0x8F" using k by simp
  note c = complement_digits [where m = 16, OF this]
  show ?thesis
  proof (cases "e < 0")
    case True
    then show ?thesis using c(1) c(2) by (simp only: s e if_True) simp
  next
    case False
    then show ?thesis
      by (simp only: s e if_False mod_mult_self3) (simp only: div_mult_self3 zero_neq_numeral not_False_eq_True)
  qed
qed

lemma spec_16:
  assumes "148 \<le> \<bar>e\<bar>" "\<bar>e\<bar> < 1172"
  shows "spec_bytes e s = code_16 e div 256 # code_16 e mod 256 # groups 9 (s div 2)"
proof -
  define n where "n = nat \<bar>e\<bar>"
  have n: "\<not> n < 4" "\<not> n < 20" "\<not> n < 148" "n < 1172" using assms by (auto simp: n_def)
  have k: "n - 148 < 1024" using n by simp
  have s: "spec_bytes e s =
      (if e < 0 then 0x87 - (n - 148) div 256 else 0xF8 + (n - 148) div 256)
      # (if e < 0 then 255 - (n - 148) mod 256 else (n - 148) mod 256)
      # groups 9 (s div 2)"
    by (simp only: spec_bytes_def Let_def n_def [symmetric] n if_False if_True)
  have e: "code_16 e = (if e < 0 then 0x87 * 256 + (256 - 1) - (n - 148) else 0xF8 * 256 + (n - 148))"
    by (simp add: code_16_def n_def)
  have "(n - 148) div 256 \<le> 0x87" using k by simp
  note c = complement_digits [where m = 256, OF this]
  show ?thesis
  proof (cases "e < 0")
    case True
    then show ?thesis using c(1) c(2) by (simp only: s e if_True) simp
  next
    case False
    then show ?thesis
      by (simp only: s e if_False mod_mult_self3) (simp only: div_mult_self3 zero_neq_numeral not_False_eq_True)
  qed
qed

lemma spec_8:
  assumes "4 \<le> \<bar>e\<bar>" "\<bar>e\<bar> < 20"
  shows "spec_bytes e s = nat (if e < 0 then 0xA3 + e else 0xDC + e) # groups 10 (s * 64)"
  using assms by (auto simp: spec_bytes_def Let_def nat_less_iff simp del: groups.simps)

lemma digit_bounds:
  "t < m \<Longrightarrow> \<exists>x xs. digit b t q zs = x # xs \<and> b \<le> x \<and> x < b + 2 * m"
  by (auto simp: digit_def)

lemma spec_small:
  assumes "s < 2 ^ 64" "\<bar>e\<bar> < 4"
  shows "\<exists>x xs. spec_bytes e s = x # xs \<and> small_base e \<le> x \<and> x < small_base e + 2 * 2 ^ nat \<bar>e\<bar>"
proof -
  define n where "n = nat \<bar>e\<bar>"
  have "(2::nat) ^ n * 2 ^ (64 - n) = 2 ^ 64"
    using assms(2) by (simp only: power_add [symmetric] n_def) simp
  then have "s div 2 ^ (64 - n) < 2 ^ n" using assms(1) by (metis less_mult_imp_div_less)
  note b = digit_bounds [OF this]
  have "n < 4" using assms(2) by (simp add: n_def)
  then show ?thesis by (simp only: spec_bytes_def Let_def n_def [symmetric] if_True b)
qed

section \<open>Exponents are compared first\<close>

lemma spec_step_small:
  assumes "s < 2 ^ 64" "s' < 2 ^ 64" "-3 \<le> e" "e < 3"
  shows "key_ok Less (bytes_of (spec_bytes e s)) (bytes_of (spec_bytes (e + 1) s'))"
proof -
  obtain x xs where x: "spec_bytes e s = x # xs" "x < small_base e + 2 * 2 ^ nat \<bar>e\<bar>"
    using spec_small [OF assms(1), of e] assms(3,4) by (auto simp: abs_less_iff)
  obtain y ys where y: "spec_bytes (e + 1) s' = y # ys" "small_base (e + 1) \<le> y"
      "y < small_base (e + 1) + 2 * 2 ^ nat \<bar>e + 1\<bar>"
    using spec_small [OF assms(2), of "e + 1"] assms(3,4) by (auto simp: abs_less_iff)
  have e: "e = -3 \<or> e = -2 \<or> e = -1 \<or> e = 0 \<or> e = 1 \<or> e = 2" using assms by auto
  then have "x < y" "y < 256" using x(2) y(2,3) by (auto simp: small_base_def)
  then show ?thesis using x y by (simp add: key_ok_byte_less)
qed

lemma spec_step_joint:
  assumes "s < 2 ^ 64" "s' < 2 ^ 64" "e \<in> {-148, -20, -4, 3, 19, 147}"
  shows "key_ok Less (bytes_of (spec_bytes e s)) (bytes_of (spec_bytes (e + 1) s'))"
proof -
  obtain x xs where x: "spec_bytes 3 s = x # xs" "x < small_base 3 + 2 * 2 ^ nat \<bar>3\<bar>"
    using spec_small [OF assms(1), of 3] by auto
  obtain y ys where y: "spec_bytes (-3) s' = y # ys" "small_base (-3) \<le> y" "y < small_base (-3) + 2 * 2 ^ 3"
    using spec_small [OF assms(2), of "-3"] by auto
  consider "e = -148" | "e = -20" | "e = -4" | "e = 3" | "e = 19" | "e = 147" using assms(3) by auto
  then show ?thesis
  proof cases
    case 1 then show ?thesis
      by (simp add: spec_16 spec_12 code_16_def code_12_def key_ok_byte_less del: groups.simps)
  next
    case 2 then show ?thesis
      by (simp add: spec_12 spec_8 code_12_def key_ok_byte_less del: groups.simps)
  next
    case 3 then show ?thesis using y
      by (simp add: spec_8 small_base_def key_ok_byte_less del: groups.simps)
  next
    case 4 then show ?thesis using x
      by (simp add: spec_8 small_base_def key_ok_byte_less del: groups.simps)
  next
    case 5 then show ?thesis
      by (simp add: spec_12 spec_8 code_12_def key_ok_byte_less del: groups.simps)
  next
    case 6 then show ?thesis
      by (simp add: spec_16 spec_12 code_16_def code_12_def key_ok_byte_less del: groups.simps)
  qed
qed

lemma spec_step:
  assumes "s < 2 ^ 64" "s' < 2 ^ 64" "-1171 \<le> e" "e < 1171"
  shows "key_ok Less (bytes_of (spec_bytes e s)) (bytes_of (spec_bytes (e + 1) s'))"
proof -
  have top: "s div 2 ^ 60 < 16" "s' div 2 ^ 60 < 16" using assms(1,2) by simp_all
  have "(e < -148 \<or> 148 \<le> e) \<or> (-148 < e \<and> e < -20 \<or> 20 \<le> e \<and> e < 147)
      \<or> (-20 < e \<and> e < -4 \<or> 4 \<le> e \<and> e < 19) \<or> (-3 \<le> e \<and> e < 3)
      \<or> e \<in> {-148, -20, -4, 3, 19, 147}"
    unfolding insert_iff empty_iff by presburger
  then consider "e < -148 \<or> 148 \<le> e" | "-148 < e \<and> e < -20 \<or> 20 \<le> e \<and> e < 147"
    | "-20 < e \<and> e < -4 \<or> 4 \<le> e \<and> e < 19" | "-3 \<le> e \<and> e < 3"
    | "e \<in> {-148, -20, -4, 3, 19, 147}" by blast
  then show ?thesis
  proof cases
    case 1
    then have b: "148 \<le> \<bar>e\<bar>" "\<bar>e\<bar> < 1172" "148 \<le> \<bar>e + 1\<bar>" "\<bar>e + 1\<bar> < 1172"
      using assms by auto
    have "code_16 e < code_16 (e + 1)" "code_16 (e + 1) < 65536"
      using 1 assms by (auto simp: code_16_def)
    then show ?thesis unfolding spec_16 [OF b(1,2)] spec_16 [OF b(3,4)] by (rule two_bytes_less)
  next
    case 2
    then have b: "20 \<le> \<bar>e\<bar>" "\<bar>e\<bar> < 148" "20 \<le> \<bar>e + 1\<bar>" "\<bar>e + 1\<bar> < 148" by auto
    have "code_12 e < code_12 (e + 1)" "code_12 (e + 1) < 4096"
      using 2 by (auto simp: code_12_def)
    then show ?thesis unfolding spec_12 [OF b(1,2)] spec_12 [OF b(3,4)] by (rule nibbles_less [OF _ _ top])
  next
    case 3
    then have b: "4 \<le> \<bar>e\<bar>" "\<bar>e\<bar> < 20" "4 \<le> \<bar>e + 1\<bar>" "\<bar>e + 1\<bar> < 20" by auto
    show ?thesis unfolding spec_8 [OF b(1,2)] spec_8 [OF b(3,4)] list.map
      by (rule key_ok_byte_less) (use 3 in auto)
  next
    case 4
    then show ?thesis using assms spec_step_small by simp
  next
    case 5
    then show ?thesis using assms spec_step_joint by simp
  qed
qed

lemma spec_exponent_less:
  assumes "s < 2 ^ 64" "s' < 2 ^ 64" "-1171 \<le> e" "e + 1 + int k \<le> 1171"
  shows "key_ok Less (bytes_of (spec_bytes e s)) (bytes_of (spec_bytes (e + 1 + int k) s'))"
  using assms
proof (induction k arbitrary: s')
  case 0
  then show ?case using spec_step [of s s' e] by simp
next
  case (Suc k)
  have "key_ok Less (bytes_of (spec_bytes (e + 1 + int k) 0)) (bytes_of (spec_bytes (e + 1 + int k + 1) s'))"
    using Suc.prems by (intro spec_step) auto
  moreover have "key_ok Less (bytes_of (spec_bytes e s)) (bytes_of (spec_bytes (e + 1 + int k) 0))"
    using Suc.prems by (intro Suc.IH) auto
  ultimately show ?case by (auto intro: key_ok_Less_trans simp: add.assoc add.commute)
qed

section \<open>Then significands\<close>

lemma ord_cmp_mult: "0 < (m::nat) \<Longrightarrow> ord_cmp (x * m) (y * m) = ord_cmp x y"
  by (auto simp: ord_cmp_def)

lemma ord_cmp_add: "ord_cmp (m + x) (m + y :: nat) = ord_cmp x y"
  by (auto simp: ord_cmp_def)

lemma key_ok_byte:
  "x < 256 \<Longrightarrow> y < 256 \<Longrightarrow> (x = y \<Longrightarrow> key_ok c (bytes_of xs) (bytes_of ys)) \<Longrightarrow>
   key_ok (then_ord (ord_cmp x y) c) (bytes_of (x # xs)) (bytes_of (y # ys))"
  by (cases x y rule: linorder_cases) (auto intro: key_ok_byte_less key_ok_byte_greater)

lemma spec_same_exponent:
  assumes "s < 2 ^ 64" "s' < 2 ^ 64" "\<bar>e\<bar> < 1172" "148 \<le> \<bar>e\<bar> \<Longrightarrow> even s \<and> even s'"
  shows "key_ok (ord_cmp s s') (bytes_of (spec_bytes e s)) (bytes_of (spec_bytes e s'))"
proof -
  define n where "n = nat \<bar>e\<bar>"
  consider "\<bar>e\<bar> < 4" | "4 \<le> \<bar>e\<bar>" "\<bar>e\<bar> < 20" | "20 \<le> \<bar>e\<bar>" "\<bar>e\<bar> < 148" | "148 \<le> \<bar>e\<bar>" by linarith
  then show ?thesis
  proof cases
    case 1
    then have n: "n < 4" by (simp add: n_def)
    have p: "(2::nat) ^ n * 2 ^ (64 - n) = 2 ^ 64" "2 ^ (64 - n) * 2 ^ (n + 6) = (2::nat) ^ (7 * 10)"
      using n by (simp_all only: power_add [symmetric]) simp_all
    have t: "s div 2 ^ (64 - n) < 2 ^ n" "s' div 2 ^ (64 - n) < 2 ^ n"
      using assms(1,2) p(1) by (metis less_mult_imp_div_less)+
    have b: "small_base e + 2 * 2 ^ n \<le> 256"
    proof -
      have "e = -3 \<or> e = -2 \<or> e = -1 \<or> e = 0 \<or> e = 1 \<or> e = 2 \<or> e = 3" using 1 by auto
      then show ?thesis by (auto simp: small_base_def n_def)
    qed
    have g: "key_ok (ord_cmp q q') (bytes_of (groups 10 (q * 2 ^ (n + 6)))) (bytes_of (groups 10 (q' * 2 ^ (n + 6))))"
      if "q < 2 ^ (64 - n)" "q' < 2 ^ (64 - n)" for q q'
    proof -
      have "q * 2 ^ (n + 6) < 2 ^ (7 * 10)" "q' * 2 ^ (n + 6) < 2 ^ (7 * 10)"
        using that by (simp_all only: p(2) [symmetric] mult_less_cancel2) simp_all
      from groups_key [OF this] show ?thesis by (simp only: ord_cmp_mult zero_less_power zero_less_numeral)
    qed
    have "key_ok (then_ord (ord_cmp (s div 2 ^ (64 - n)) (s' div 2 ^ (64 - n)))
        (ord_cmp (s mod 2 ^ (64 - n)) (s' mod 2 ^ (64 - n))))
      (bytes_of (spec_bytes e s)) (bytes_of (spec_bytes e s'))"
      unfolding spec_bytes_def Let_def n_def [symmetric] if_P [OF n]
      by (rule key_ok_digit) (use t b g in \<open>auto simp del: groups.simps\<close>)
    then show ?thesis using ord_cmp_div_mod [of "2 ^ (64 - n)" s s'] by simp
  next
    case 2
    have "s * 64 < 2 ^ (7 * 10)" "s' * 64 < 2 ^ (7 * 10)" using assms(1,2) by simp_all
    from groups_key [OF this] show ?thesis
      using spec_8 [OF 2] by (simp add: ord_cmp_mult del: groups.simps)
  next
    case 3
    define c where "c = code_12 e"
    have "c < 4096" using 3 by (auto simp: c_def code_12_def)
    have g: "key_ok (ord_cmp (s mod 2 ^ 60) (s' mod 2 ^ 60)) (bytes_of (groups 9 (8 * (s mod 2 ^ 60))))
        (bytes_of (groups 9 (8 * (s' mod 2 ^ 60))))"
      using groups_key [of "8 * (s mod 2 ^ 60)" 9 "8 * (s' mod 2 ^ 60)"] ord_cmp_mult [of 8 "s mod 2 ^ 60" "s' mod 2 ^ 60"]
      by (simp add: mult.commute del: groups.simps)
    have "c mod 16 * 16 + s div 2 ^ 60 < 256" "c mod 16 * 16 + s' div 2 ^ 60 < 256"
    proof -
      have "c mod 16 < 16" "s div 2 ^ 60 < 16" "s' div 2 ^ 60 < 16" using assms(1,2) by simp_all
      then show "c mod 16 * 16 + s div 2 ^ 60 < 256" "c mod 16 * 16 + s' div 2 ^ 60 < 256" by linarith+
    qed
    from key_ok_byte [OF this, of "ord_cmp (s mod 2 ^ 60) (s' mod 2 ^ 60)"] g
    have "key_ok (then_ord (ord_cmp (s div 2 ^ 60) (s' div 2 ^ 60)) (ord_cmp (s mod 2 ^ 60) (s' mod 2 ^ 60)))
      (bytes_of ((c mod 16 * 16 + s div 2 ^ 60) # groups 9 (8 * (s mod 2 ^ 60))))
      (bytes_of ((c mod 16 * 16 + s' div 2 ^ 60) # groups 9 (8 * (s' mod 2 ^ 60))))"
      by (simp only: ord_cmp_add add_left_cancel)
    then show ?thesis
      by (simp only: spec_12 [OF 3] c_def [symmetric] list.map key_ok_Cons_same)
        (simp only: ord_cmp_div_mod [of "2 ^ 60" s s'] zero_less_power zero_less_numeral)
  next
    case 4
    then have "even s" "even s'" using assms(4) by auto
    then have o: "ord_cmp s s' = ord_cmp (s div 2) (s' div 2)" by (auto elim!: evenE simp: ord_cmp_def)
    have "s div 2 < 2 ^ (7 * 9)" "s' div 2 < 2 ^ (7 * 9)" using assms(1,2) by simp_all
    from groups_key [OF this] show ?thesis
      using spec_16 [OF 4 assms(3)] o by (simp del: groups.simps)
  qed
qed

lemma spec_key:
  assumes "s < 2 ^ 64" "s' < 2 ^ 64" "\<bar>e\<bar> < 1172" "\<bar>e'\<bar> < 1172"
    and "148 \<le> \<bar>e\<bar> \<Longrightarrow> even s" "148 \<le> \<bar>e'\<bar> \<Longrightarrow> even s'"
  shows "key_ok (then_ord (ord_cmp e e') (ord_cmp s s')) (bytes_of (spec_bytes e s)) (bytes_of (spec_bytes e' s'))"
proof (cases e e' rule: linorder_cases)
  case less
  then have "e' = e + 1 + int (nat (e' - e - 1))" by simp
  then show ?thesis using spec_exponent_less [of s s' e "nat (e' - e - 1)"] assms less by simp
next
  case greater
  then have "e = e' + 1 + int (nat (e - e' - 1))" by simp
  then have "key_ok Less (bytes_of (spec_bytes e' s')) (bytes_of (spec_bytes e s))"
    using spec_exponent_less [of s' s e' "nat (e - e' - 1)"] assms greater by simp
  from key_ok_reverse [OF this] show ?thesis using greater by simp
next
  case equal
  then show ?thesis using spec_same_exponent [of s s' e] assms by simp
qed

end
