(* ===== verification/Values.thy ===== *)
theory Values
  imports Strings F64 "HOL-Library.AList" "HOL-Library.Multiset"
begin

text \<open>
  Firestore values as the protobuf crate generates them from \<open>document.proto\<close>: the
  \<open>Value\<close> message (\<open>fvalue\<close>) with its \<open>value_type\<close> oneof.  \<open>Unset\<close> is a message with no oneof
  case, \<open>ExprValue\<close> stands for the pipeline-expression cases, which no stored document
  holds.  A \<open>HashMap<String, Value>\<close> is an association list with distinct keys; nothing
  depends on the order of its entries.
\<close>

datatype fvalue =
    Unset
  | NullValue
  | BooleanValue bool
  | IntegerValue i64
  | DoubleValue f64
  | TimestampValue i64 i32
  | StringValue string
  | BytesValue "u8 list"
  | ReferenceValue string
  | GeoPointValue f64 f64
  | ArrayValue "fvalue list"
  | MapValue "(string \<times> fvalue) list"
  | ExprValue nat

type_synonym fields = "(string \<times> fvalue) list"

section \<open>HashMap operations\<close>

abbreviation hm_get :: "('k \<times> 'v) list \<Rightarrow> 'k \<Rightarrow> 'v option" where
  "hm_get m k \<equiv> map_of m k"

abbreviation hm_insert :: "'k \<Rightarrow> 'v \<Rightarrow> ('k \<times> 'v) list \<Rightarrow> ('k \<times> 'v) list" where
  "hm_insert \<equiv> AList.update"

abbreviation hm_remove :: "'k \<Rightarrow> ('k \<times> 'v) list \<Rightarrow> ('k \<times> 'v) list" where
  "hm_remove \<equiv> AList.delete"

abbreviation hm_wf :: "('k \<times> 'v) list \<Rightarrow> bool" where
  "hm_wf m \<equiv> distinct (map fst m)"

section \<open>Values a document can hold\<close>

text \<open>
  Distinct keys in every map, nanoseconds validated to \<open>[0, 10\<^sup>9)\<close>, no pipeline
  expression, and arrays of a length that \<open>Vec\<close> can have (below \<open>2 ^ 63\<close>).
\<close>

definition nanos_ok :: "i32 \<Rightarrow> bool" where
  "nanos_ok n \<longleftrightarrow> 0 \<le> sint n \<and> sint n < 1000000000"

fun storable :: "fvalue \<Rightarrow> bool" where
  "storable (TimestampValue s n) = nanos_ok n"
| "storable (ArrayValue vs) = (length vs < 2 ^ 63 \<and> list_all storable vs)"
| "storable (MapValue m) = (hm_wf m \<and> list_all (\<lambda>(k, v). storable v) m)"
| "storable (ExprValue _) = False"
| "storable v = True"

abbreviation storable_fields :: "fields \<Rightarrow> bool" where
  "storable_fields m \<equiv> hm_wf m \<and> (\<forall>(k, v) \<in> set m. storable v)"

lemma storable_MapValue: "storable (MapValue m) \<longleftrightarrow> storable_fields m"
  by (auto simp: list_all_iff)

definition is_null :: "fvalue \<Rightarrow> bool" where
  "is_null v = (case v of Unset \<Rightarrow> True | NullValue \<Rightarrow> True | _ \<Rightarrow> False)"

definition is_nan :: "fvalue \<Rightarrow> bool" where
  "is_nan v = (case v of DoubleValue d \<Rightarrow> f64_is_nan d | _ \<Rightarrow> False)"

section \<open>A size for recursion through sorted entries\<close>

fun vsize :: "fvalue \<Rightarrow> nat" where
  "vsize (ArrayValue vs) = Suc (sum_list (map (\<lambda>v. Suc (vsize v)) vs))"
| "vsize (MapValue m) = Suc (sum_list (map (\<lambda>(k, v). Suc (vsize v)) m))"
| "vsize v = 1"

abbreviation slice_size :: "fvalue list \<Rightarrow> nat" where
  "slice_size vs \<equiv> sum_list (map (\<lambda>v. Suc (vsize v)) vs)"

abbreviation entries_size :: "(string \<times> fvalue) list \<Rightarrow> nat" where
  "entries_size m \<equiv> sum_list (map (\<lambda>(k, v). Suc (vsize v)) m)"

definition sort_entries :: "(string \<times> 'v) list \<Rightarrow> (string \<times> 'v) list" where
  "sort_entries m = sort_key fst m"

lemma set_sort_entries [simp]: "set (sort_entries m) = set m"
  by (simp add: sort_entries_def)

lemma length_sort_entries [simp]: "length (sort_entries m) = length m"
  by (simp add: sort_entries_def)

lemma entries_size_sort [simp]: "entries_size (sort_entries m) = entries_size m"
proof -
  have "mset (map f (sort_entries m)) = mset (map f m)" for f :: "string \<times> fvalue \<Rightarrow> nat"
    by (simp only: sort_entries_def mset_map mset_sort)
  then show ?thesis by (metis sum_mset_sum_list)
qed

lemma hm_wf_sort_entries [simp]: "hm_wf (sort_entries m) \<longleftrightarrow> hm_wf m"
  by (metis distinct_card length_map length_sort_entries set_map set_sort_entries card_distinct)

text \<open>The vector sentinel shape.\<close>

definition vector_values :: "fields \<Rightarrow> fvalue list option" where
  "vector_values m =
     (case hm_get m ''__type__'' of
        Some (StringValue s) \<Rightarrow>
          if s = ''__vector__''
          then (case hm_get m ''value'' of Some (ArrayValue a) \<Rightarrow> Some a | _ \<Rightarrow> None)
          else None
      | _ \<Rightarrow> None)"

lemma vector_values_Some: "vector_values m = Some a \<Longrightarrow> (''value'', ArrayValue a) \<in> set m"
  by (auto simp: vector_values_def split: option.splits fvalue.splits if_splits dest: map_of_SomeD)

lemma vector_values_size: "vector_values m = Some a \<Longrightarrow> slice_size a < entries_size m"
proof -
  assume "vector_values m = Some a"
  then have "(''value'', ArrayValue a) \<in> set m" by (rule vector_values_Some)
  then have "(\<lambda>(k, v). Suc (vsize v)) (''value'', ArrayValue a)
      \<in> set (map (\<lambda>(k, v). Suc (vsize v)) m)" by (simp only: set_map imageI)
  then show ?thesis using member_le_sum_list by fastforce
qed

end
