(* ===== verification/Order.thy ===== *)
theory Order
  imports Values
begin

text \<open>
  \<open>order.rs\<close>: Firestore's total order over values, the order in which the server sorts and
  to which its index keys must be faithful.
\<close>

section \<open>Cross-type rank\<close>

datatype type_rank =
    RNull | RBoolean | RNumber | RTimestamp | RString | RBytes | RReference | RGeoPoint
  | RArray | RVector | RMap

text \<open>The enum's discriminants; the derived \<open>Ord\<close> compares them.\<close>

fun rank_discriminant :: "type_rank \<Rightarrow> nat" where
  "rank_discriminant RNull = 0"
| "rank_discriminant RBoolean = 2"
| "rank_discriminant RNumber = 3"
| "rank_discriminant RTimestamp = 4"
| "rank_discriminant RString = 6"
| "rank_discriminant RBytes = 7"
| "rank_discriminant RReference = 9"
| "rank_discriminant RGeoPoint = 11"
| "rank_discriminant RArray = 13"
| "rank_discriminant RVector = 14"
| "rank_discriminant RMap = 15"

lemma rank_discriminant_inject: "rank_discriminant a = rank_discriminant b \<longleftrightarrow> a = b"
  by (cases a; cases b) auto

instantiation type_rank :: linorder
begin
definition less_eq_type_rank :: "type_rank \<Rightarrow> type_rank \<Rightarrow> bool" where
  "less_eq_type_rank a b \<longleftrightarrow> rank_discriminant a \<le> rank_discriminant b"
definition less_type_rank :: "type_rank \<Rightarrow> type_rank \<Rightarrow> bool" where
  "less_type_rank a b \<longleftrightarrow> rank_discriminant a < rank_discriminant b"
instance
  by standard (auto simp: less_eq_type_rank_def less_type_rank_def simp flip: rank_discriminant_inject)
end

definition rank :: "fvalue \<Rightarrow> type_rank" where
  "rank v = (case v of
      Unset \<Rightarrow> RNull | NullValue \<Rightarrow> RNull
    | BooleanValue _ \<Rightarrow> RBoolean
    | IntegerValue _ \<Rightarrow> RNumber | DoubleValue _ \<Rightarrow> RNumber
    | TimestampValue _ _ \<Rightarrow> RTimestamp
    | StringValue _ \<Rightarrow> RString
    | BytesValue _ \<Rightarrow> RBytes
    | ReferenceValue _ \<Rightarrow> RReference
    | GeoPointValue _ _ \<Rightarrow> RGeoPoint
    | ArrayValue _ \<Rightarrow> RArray
    | MapValue m \<Rightarrow> (if vector_values m \<noteq> None then RVector else RMap)
    | ExprValue _ \<Rightarrow> RMap)"

definition same_type_rank :: "fvalue \<Rightarrow> fvalue \<Rightarrow> bool" where
  "same_type_rank a b \<longleftrightarrow> rank a = rank b"

section \<open>Numbers\<close>

definition cmp_doubles :: "f64 \<Rightarrow> f64 \<Rightarrow> ordering" where
  "cmp_doubles x y =
     (case (f64_is_nan x, f64_is_nan y) of
        (True, True) \<Rightarrow> Equal
      | (True, False) \<Rightarrow> Less
      | (False, True) \<Rightarrow> Greater
      | (False, False) \<Rightarrow> the (f64_partial_cmp x y))"

text \<open>\<open>2 ^ 63\<close> as a double, exactly representable: biased exponent \<open>1023 + 63\<close>.\<close>

definition two_63 :: f64 where "two_63 = f64_of_mag False (1086 * 2 ^ 52)"

definition cmp_int_double :: "i64 \<Rightarrow> f64 \<Rightarrow> ordering" where
  "cmp_int_double i d =
     (if f64_is_nan d then Greater
      else if f64_lt two_63 d \<or> f64_eq two_63 d then Less
      else if f64_lt d (f64_neg two_63) then Greater
      else let t = f64_to_i64 (f64_trunc d)
           in then_ord (ord_cmp (sint i) (sint t))
                (let fract = f64_sub d (f64_of_i64 t) in cmp_doubles 0 fract))"

section \<open>References\<close>

fun cmp_segments :: "string list \<Rightarrow> string list \<Rightarrow> ordering" where
  "cmp_segments (a # xs) (b # ys) = then_ord (str_cmp a b) (cmp_segments xs ys)"
| "cmp_segments [] [] = Equal"
| "cmp_segments [] (_ # _) = Less"
| "cmp_segments (_ # _) [] = Greater"

definition cmp_references :: "string \<Rightarrow> string \<Rightarrow> ordering" where
  "cmp_references x y = cmp_segments (split_on CHR ''/'' x) (split_on CHR ''/'' y)"

section \<open>The total order\<close>

text \<open>
  \<open>cmp_value_slices\<close> is the element loop followed by the length comparison;
  \<open>cmp_entries\<close> is the loop of \<open>cmp_maps\<close> over the entries in sorted key order.
\<close>

function (sequential)
  compare_values :: "fvalue \<Rightarrow> fvalue \<Rightarrow> ordering" and
  cmp_value_slices :: "fvalue list \<Rightarrow> fvalue list \<Rightarrow> ordering" and
  cmp_entries :: "(string \<times> fvalue) list \<Rightarrow> (string \<times> fvalue) list \<Rightarrow> ordering"
where
  "compare_values a b =
     (if rank a \<noteq> rank b then ord_cmp (rank a) (rank b)
      else case (a, b) of
        (Unset, _) \<Rightarrow> Equal
      | (NullValue, _) \<Rightarrow> Equal
      | (BooleanValue x, BooleanValue y) \<Rightarrow> ord_cmp x y
      | (IntegerValue x, IntegerValue y) \<Rightarrow> ord_cmp (sint x) (sint y)
      | (DoubleValue x, DoubleValue y) \<Rightarrow> cmp_doubles x y
      | (IntegerValue x, DoubleValue y) \<Rightarrow> cmp_int_double x y
      | (DoubleValue x, IntegerValue y) \<Rightarrow> reverse_ord (cmp_int_double y x)
      | (TimestampValue s n, TimestampValue s' n') \<Rightarrow>
          then_ord (ord_cmp (sint s) (sint s')) (ord_cmp (sint n) (sint n'))
      | (StringValue x, StringValue y) \<Rightarrow> str_cmp x y
      | (BytesValue x, BytesValue y) \<Rightarrow> lex_cmp x y
      | (ReferenceValue x, ReferenceValue y) \<Rightarrow> cmp_references x y
      | (GeoPointValue lat lng, GeoPointValue lat' lng') \<Rightarrow>
          then_ord (cmp_doubles lat lat') (cmp_doubles lng lng')
      | (ArrayValue x, ArrayValue y) \<Rightarrow> cmp_value_slices x y
      | (MapValue x, MapValue y) \<Rightarrow>
          (case (vector_values x, vector_values y) of
             (Some vx, Some vy) \<Rightarrow>
               then_ord (ord_cmp (length vx) (length vy)) (cmp_value_slices vx vy)
           | _ \<Rightarrow> cmp_entries (sort_entries x) (sort_entries y))
      | _ \<Rightarrow> Equal)"
| "cmp_value_slices (a # xs) (b # ys) = then_ord (compare_values a b) (cmp_value_slices xs ys)"
| "cmp_value_slices [] [] = Equal"
| "cmp_value_slices [] (_ # _) = Less"
| "cmp_value_slices (_ # _) [] = Greater"
| "cmp_entries ((ka, va) # xs) ((kb, vb) # ys) =
     then_ord (str_cmp ka kb) (then_ord (compare_values va vb) (cmp_entries xs ys))"
| "cmp_entries [] [] = Equal"
| "cmp_entries [] (_ # _) = Less"
| "cmp_entries (_ # _) [] = Greater"
  by pat_completeness auto
termination
  by (relation "measure (\<lambda>x. case x of
        Inl (a, b) \<Rightarrow> vsize a
      | Inr (Inl (xs, ys)) \<Rightarrow> slice_size xs
      | Inr (Inr (xs, ys)) \<Rightarrow> entries_size xs)")
     (auto dest!: sym [of "Some _"] dest: vector_values_size less_SucI)

declare compare_values.simps [simp del]

definition cmp_maps :: "fields \<Rightarrow> fields \<Rightarrow> ordering" where
  "cmp_maps x y = cmp_entries (sort_entries x) (sort_entries y)"

end
