(* ===== verification/NumberOrder.thy ===== *)
theory NumberOrder
  imports EncodingOrder Order
begin

text \<open>
  What a number's index key means: the exact value of a \<open>number_parts\<close> as an integer, the
  order of the encodings as the order of these values, and the agreement of \<open>from_i64\<close>,
  \<open>from_f64\<close> and the numeric comparisons of \<open>order.rs\<close> with them.
\<close>

section \<open>The value of number parts\<close>

text \<open>
  In units of \<open>2 ^ -1138\<close>: the smallest double is \<open>2 ^ 64\<close> of them.  The infinities
  are above and NaN is below every other value, as in Firestore's order.
\<close>

definition inf_val :: int where "inf_val = 2 ^ 2098 * 2 ^ 64"
definition nan_val :: int where "nan_val = 2 * inf_val"

lemma inf_val_pos [simp]: "0 < inf_val" "inf_val < nan_val" "0 < nan_val" "inf_val \<noteq> 0" "nan_val \<noteq> 0"
    "- nan_val < inf_val" "- inf_val < inf_val"
  by (simp_all add: inf_val_def nan_val_def)

definition parts_val :: "number_parts \<Rightarrow> int" where
  "parts_val p =
     (if parts_is_zero p then 0
      else if parts_is_nan p then - nan_val
      else (if negative p then - 1 else 1) *
        (if parts_is_infinite p then inf_val
         else (2 ^ 64 + int (unat (significand p))) * 2 ^ nat (exponent p + 1074)))"

definition number_ok :: "number_parts \<Rightarrow> bool" where
  "number_ok p \<longleftrightarrow> parts_is_zero p \<or> parts_is_nan p \<or> parts_is_infinite p
     \<or> (parts_ok p \<and> - 1074 \<le> exponent p \<and> exponent p < 1024)"

definition finite_val :: "int \<Rightarrow> nat \<Rightarrow> int" where
  "finite_val e s = (2 ^ 64 + int s) * 2 ^ nat (e + 1074)"

lemma finite_val_bounds:
  assumes "- 1074 \<le> e" "e < 1024" "s < 2 ^ 64"
  shows "0 < finite_val e s" "finite_val e s < inf_val"
proof -
  show "0 < finite_val e s" by (simp add: finite_val_def)
  have "(2 ^ 64 + int s) < 2 ^ 65" using assms(3) by simp
  moreover have "(2::int) ^ nat (e + 1074) \<le> 2 ^ 2097" using assms by (intro power_increasing) auto
  ultimately have "finite_val e s < 2 ^ 65 * 2 ^ 2097"
    unfolding finite_val_def by (intro mult_less_le_imp_less) auto
  also have "(2::int) ^ 65 * 2 ^ 2097 = 2 ^ 2162" by (simp only: power_add [symmetric]) simp
  also have "(2::int) ^ 2162 = 2 ^ 2098 * 2 ^ 64" by (simp only: power_add [symmetric]) simp
  finally show "finite_val e s < inf_val" by (simp only: inf_val_def)
qed

lemma value_order:
  assumes "- 1074 \<le> e" "- 1074 \<le> e'" "s < 2 ^ 64" "s' < 2 ^ 64"
  shows "ord_cmp (finite_val e s) (finite_val e' s') = then_ord (ord_cmp e e') (ord_cmp s s')"
proof -
  have lt: "finite_val e s < finite_val e' s'"
    if "e < e'" "s < 2 ^ 64" "- 1074 \<le> e" for e e' s s'
  proof -
    have "(2 ^ 64 + int s) * 2 ^ nat (e + 1074) < (2 * 2 ^ 64) * (2 ^ nat (e + 1074) :: int)"
      using that by (intro mult_strict_right_mono) auto
    also have "\<dots> = 2 ^ 64 * 2 ^ Suc (nat (e + 1074))" by simp
    also have "\<dots> \<le> 2 ^ 64 * 2 ^ nat (e' + 1074)"
      using that by (intro mult_left_mono power_increasing) auto
    also have "\<dots> \<le> (2 ^ 64 + int s') * 2 ^ nat (e' + 1074)" by (intro mult_right_mono) auto
    finally show ?thesis by (simp only: finite_val_def)
  qed
  show ?thesis
  proof (cases e e' rule: linorder_cases)
    case less then show ?thesis using assms lt [of e e' s s'] by simp
  next
    case greater then show ?thesis using assms lt [of e' e s' s] by simp
  next
    case equal
    then show ?thesis by (auto simp: ord_cmp_def finite_val_def)
  qed
qed

text \<open>The first byte tells the classes apart; positive numbers start at \<open>0x84\<close>.\<close>

lemma spec_first:
  assumes "s < 2 ^ 64" "\<bar>e\<bar> < 1172"
  shows "\<exists>x xs. spec_bytes e s = x # xs \<and> 0x84 \<le> x \<and> x \<le> 0xFB"
proof -
  consider "\<bar>e\<bar> < 4" | "4 \<le> \<bar>e\<bar>" "\<bar>e\<bar> < 20" | "20 \<le> \<bar>e\<bar>" "\<bar>e\<bar> < 148" | "148 \<le> \<bar>e\<bar>" by linarith
  then show ?thesis
  proof cases
    case 1
    from spec_small [OF assms(1) 1] obtain x xs where
      x: "spec_bytes e s = x # xs" "small_base e \<le> x" "x < small_base e + 2 * 2 ^ nat \<bar>e\<bar>" by blast
    have "e = -3 \<or> e = -2 \<or> e = -1 \<or> e = 0 \<or> e = 1 \<or> e = 2 \<or> e = 3" using 1 by auto
    then show ?thesis using x by (auto simp: small_base_def)
  next
    case 2
    then show ?thesis by (auto simp: spec_8 simp del: groups.simps)
  next
    case 3
    then show ?thesis by (auto simp: spec_12 code_12_def simp del: groups.simps)
  next
    case 4
    then show ?thesis using assms by (auto simp: spec_16 code_16_def simp del: groups.simps)
  qed
qed

section \<open>Order of the encodings\<close>

text \<open>\<open>num_key k v\<close>: the bytes \<open>k\<close> encode a number of value \<open>v\<close>.\<close>

definition finite_ok :: "int \<Rightarrow> nat \<Rightarrow> bool" where
  "finite_ok e s \<longleftrightarrow> s < 2 ^ 64 \<and> - 1074 \<le> e \<and> e < 1024 \<and> (148 \<le> \<bar>e\<bar> \<longrightarrow> even s)"

inductive num_key :: "u8 list \<Rightarrow> int \<Rightarrow> bool" where
  nan: "num_key [0x00, 0x60] (- nan_val)"
| ninf: "num_key [0x00, 0x80] (- inf_val)"
| neg: "finite_ok e s \<Longrightarrow> num_key (map NOT (bytes_of (spec_bytes e s))) (- finite_val e s)"
| zero: "num_key [0x80] 0"
| pos: "finite_ok e s \<Longrightarrow> num_key (bytes_of (spec_bytes e s)) (finite_val e s)"
| inf: "num_key [0xFF] inf_val"

lemma finite_ok_val: "finite_ok e s \<Longrightarrow> 0 < finite_val e s \<and> finite_val e s < inf_val"
  using finite_val_bounds by (auto simp: finite_ok_def)

lemma finite_key:
  assumes "finite_ok e s" "finite_ok e' s'"
  shows "key_ok (ord_cmp (finite_val e s) (finite_val e' s')) (bytes_of (spec_bytes e s)) (bytes_of (spec_bytes e' s'))"
  using assms spec_key [of s s' e e'] value_order [of e e' s s'] by (auto simp: finite_ok_def)

lemma finite_first:
  assumes "finite_ok e s"
  obtains x xs where "bytes_of (spec_bytes e s) = x # xs" "0x80 < x" "x < 0xFF" "0 < NOT x" "NOT x < 0x80"
proof -
  obtain n ns where n: "spec_bytes e s = n # ns" "0x84 \<le> n" "n \<le> 0xFB"
    using spec_first [of s e] assms by (auto simp: finite_ok_def abs_less_iff)
  have "unat (byte n) = n" using n by (simp add: byte_def unat_of_nat)
  then have "0x80 < byte n" "byte n < 0xFF" "0 < NOT (byte n)" "NOT (byte n) < 0x80"
    using n by (simp_all add: word_less_nat_alt unat_not_u8)
  with n show ?thesis by (intro that [of "byte n" "bytes_of ns"]) auto
qed

lemma ord_cmp_uminus: "ord_cmp (- a) (- b :: int) = reverse_ord (ord_cmp a b)"
  by (auto simp: ord_cmp_def)

text \<open>Classes in increasing order, each with the range of its values and of its first byte.\<close>

lemma num_key_class:
  assumes "num_key k v"
  obtains (c0) x where "k = [0, x]" "(x = 0x60 \<and> v = - nan_val) \<or> (x = 0x80 \<and> v = - inf_val)"
      "v \<le> - inf_val" "v < 0" "v < inf_val"
  | (c1) e s x xs where "finite_ok e s" "k = map NOT (bytes_of (spec_bytes e s))" "v = - finite_val e s"
      "k = x # xs" "0 < x" "x < 0x80" "x < 0xFF" "- inf_val < v" "v < 0"
  | (c2) "k = [0x80]" "v = 0"
  | (c3) e s x xs where "finite_ok e s" "k = bytes_of (spec_bytes e s)" "v = finite_val e s"
      "k = x # xs" "0 < x" "0x80 < x" "x < 0xFF" "0 < v" "v < inf_val"
  | (c4) "k = [0xFF]" "v = inf_val"
  using assms
proof cases
  case (neg e s)
  obtain x xs where "bytes_of (spec_bytes e s) = x # xs" "0 < NOT x" "NOT x < 0x80"
    using finite_first [OF neg(3)] by metis
  moreover from this have "NOT x < 0xFF" by (auto intro: less_trans [of _ "0x80"])
  ultimately show ?thesis using neg finite_ok_val [OF neg(3)] by (intro c1 [of e s "NOT x" "map NOT xs"]) auto
next
  case (pos e s)
  obtain x xs where "bytes_of (spec_bytes e s) = x # xs" "0x80 < x" "x < 0xFF"
    using finite_first [OF pos(3)] by metis
  moreover from this have "0 < x" by (auto intro: less_trans [of 0 "0x80"])
  ultimately show ?thesis using pos finite_ok_val [OF pos(3)] by (intro c3 [of e s x xs]) auto
qed (use inf_val_pos in \<open>auto intro: c0 c2 c4\<close>)

definition num_rank :: "int \<Rightarrow> nat" where
  "num_rank v = (if v \<le> - inf_val then 0 else if v < 0 then 1 else if v = 0 then 2 else if v < inf_val then 3 else 4)"

lemma num_key_rank_less:
  assumes "num_key k v" "num_key k' v'" "num_rank v < num_rank v'"
  shows "key_ok Less k k' \<and> v < v'"
proof -
  have "\<exists>x xs y ys. k = x # xs \<and> k' = y # ys \<and> x < y \<and> v < v'"
    using assms(1)
  proof (cases rule: num_key_class)
    case c0
    from assms(2) show ?thesis
      by (cases rule: num_key_class) (use c0 assms(3) inf_val_pos in \<open>auto simp: num_rank_def\<close>)
  next
    case c1
    from assms(2) show ?thesis
      by (cases rule: num_key_class)
        (use c1 assms(3) inf_val_pos in \<open>auto simp: num_rank_def intro: less_trans\<close>)
  next
    case c2
    from assms(2) show ?thesis
      by (cases rule: num_key_class) (use c2 assms(3) inf_val_pos in \<open>auto simp: num_rank_def\<close>)
  next
    case c3
    from assms(2) show ?thesis
      by (cases rule: num_key_class) (use c3 assms(3) inf_val_pos in \<open>auto simp: num_rank_def\<close>)
  next
    case c4
    then show ?thesis using assms(3) inf_val_pos by (auto simp: num_rank_def split: if_splits)
  qed
  then show ?thesis by (auto intro: key_ok_first_less)
qed

lemma num_key_rank_same:
  assumes "num_key k v" "num_key k' v'" "num_rank v = num_rank v'"
  shows "key_ok (ord_cmp v v') k k'"
  using assms(1)
proof (cases rule: num_key_class)
  case (c0 x)
  from assms(2) show ?thesis
  proof (cases rule: num_key_class)
    case (c0 y)
    with \<open>k = [0, x]\<close> \<open>x = 0x60 \<and> v = - nan_val \<or> x = 0x80 \<and> v = - inf_val\<close> show ?thesis
      by (auto simp: ord_cmp_def inf_val_pos(2) less_imp_neq less_imp_neq [THEN not_sym]
          intro: key_ok_first_less key_ok_first_greater)
  qed (use c0 assms(3) inf_val_pos in \<open>auto simp: num_rank_def\<close>)
next
  case (c1 e s)
  from assms(2) show ?thesis
  proof (cases rule: num_key_class)
    case c1': (c1 e' s')
    from key_ok_not [OF finite_key [OF c1(1) c1'(1)]] show ?thesis
      unfolding c1(2,3) c1'(2,3) ord_cmp_uminus .
  qed (use c1 assms(3) inf_val_pos in \<open>auto simp: num_rank_def\<close>)
next
  case c2
  from assms(2) show ?thesis
    by (cases rule: num_key_class) (use c2 assms(3) inf_val_pos in \<open>auto simp: num_rank_def\<close>)
next
  case (c3 e s)
  from assms(2) show ?thesis
  proof (cases rule: num_key_class)
    case c3': (c3 e' s')
    from finite_key [OF c3(1) c3'(1)] show ?thesis unfolding c3(2,3) c3'(2,3) .
  qed (use c3 assms(3) inf_val_pos in \<open>auto simp: num_rank_def\<close>)
next
  case c4
  from assms(2) show ?thesis
    by (cases rule: num_key_class) (use c4 assms(3) inf_val_pos in \<open>auto simp: num_rank_def\<close>)
qed

lemma num_key_order:
  assumes "num_key k v" "num_key k' v'"
  shows "key_ok (ord_cmp v v') k k'"
proof (cases "num_rank v" "num_rank v'" rule: linorder_cases)
  case less
  with num_key_rank_less [OF assms] show ?thesis by simp
next
  case equal
  then show ?thesis by (rule num_key_rank_same [OF assms])
next
  case greater
  then have "key_ok Less k' k" "v' < v" using num_key_rank_less [OF assms(2,1)] by auto
  with key_ok_reverse [of Less k' k] show ?thesis by simp
qed

lemma encode_number_key:
  assumes "number_ok p"
  shows "\<exists>k. encode_number p = Some k \<and> num_key k (parts_val p)"
proof -
  consider "parts_is_zero p" | "parts_is_nan p" | "parts_is_infinite p"
    | "\<not> parts_is_zero p" "\<not> parts_is_nan p" "\<not> parts_is_infinite p" by blast
  then show ?thesis
  proof cases
    case 1 then show ?thesis by (simp add: encode_number_def parts_val_def num_key.zero)
  next
    case 2 then show ?thesis
      by (auto simp: encode_number_def parts_val_def parts_is_zero_def parts_is_nan_def num_key.nan)
  next
    case 3 then show ?thesis
      by (auto simp: encode_number_def parts_val_def parts_is_zero_def parts_is_nan_def
          parts_is_infinite_def num_key.ninf num_key.inf)
  next
    case 4
    then have ok: "parts_ok p" "finite_ok (exponent p) (unat (significand p))"
      using assms unsigned_less [of "significand p", where 'a = nat]
      by (auto simp: number_ok_def parts_ok_def finite_ok_def)
    have "inv_byte (negative p) = (if negative p then NOT else id)" by (auto simp: inv_byte_def)
    then show ?thesis
      using 4 num_key.neg [OF ok(2)] num_key.pos [OF ok(2)]
      by (cases "negative p") (simp_all add: encode_number_spec [OF ok(1)] parts_val_def finite_val_def)
  qed
qed

section \<open>Integers and doubles as number parts\<close>

text \<open>Normalisation: the leading one moves to bit 64, the rest is the significand.\<close>

lemma normalize:
  fixes m :: u64
  assumes "m \<noteq> 0"
  defines "be \<equiv> 63 - leading_zeros m"
  defines "sig \<equiv> (if leading_zeros m = 63 then 0
    else push_bit (leading_zeros m + 1) (m AND NOT (push_bit be 1)))"
  shows "be < 64" "be + leading_zeros m = 63" "2 ^ be \<le> unat m" "unat m < 2 ^ Suc be"
    "2 ^ 64 + unat sig = unat m * 2 ^ (64 - be)"
proof -
  have m0: "0 < unat m" using assms(1) by (simp add: unat_gt_0)
  have ml: "unat m < 2 ^ 64" by (rule unat_sig_less)
  note b = bit_len_bounds [OF m0]
  have l64: "bit_len (unat m) \<le> 64" by (rule bit_len_le [OF ml])
  have l1: "1 \<le> bit_len (unat m)" using m0 by (simp add: bit_len.simps [of "unat m"])
  have be: "be = bit_len (unat m) - 1" using l64 l1 by (simp add: be_def leading_zeros_def)
  then show be64: "be < 64" and lz: "be + leading_zeros m = 63"
    using l64 l1 by (auto simp: leading_zeros_def)
  show lo: "2 ^ be \<le> unat m" using b by (simp add: be)
  show hi: "unat m < 2 ^ Suc be" using b l1 by (simp add: be)
  have frac: "unat (m AND NOT (push_bit be 1)) = unat m - 2 ^ be"
  proof -
    have "m AND NOT (push_bit be 1) = take_bit be m"
    proof (rule bit_word_eqI)
      fix n assume n: "n < LENGTH(64)"
      have "bit m n \<Longrightarrow> n \<le> be"
      proof (rule ccontr)
        assume "bit m n" "\<not> n \<le> be"
        then have "bit (unat m) n" "Suc be \<le> n" by (simp_all add: bit_unsigned_iff)
        then have "2 ^ Suc be \<le> unat m"
          by (metis bit_iff_odd div_less even_zero linorder_not_le order.strict_trans2 power_increasing
              one_le_numeral)
        with hi show False by simp
      qed
      then show "bit (m AND NOT (push_bit be 1)) n = bit (take_bit be m) n"
        using n by (auto simp: bit_simps)
    qed
    then have "unat (m AND NOT (push_bit be 1)) = unat m mod 2 ^ be"
      by (simp only: unsigned_take_bit_eq) (simp add: take_bit_eq_mod)
    also have "\<dots> = unat m - 2 ^ be" using lo hi by (simp add: mod_if [of "unat m"])
    finally show ?thesis .
  qed
  have k: "64 - be = Suc (leading_zeros m)" using lz by simp
  show "2 ^ 64 + unat sig = unat m * 2 ^ (64 - be)"
  proof (cases "leading_zeros m = 63")
    case True
    then have "be = 0" using lz by simp
    then have "unat m = 1" using lo hi by simp
    with True \<open>be = 0\<close> show ?thesis by (simp add: sig_def)
  next
    case False
    have p: "(2::nat) ^ be * 2 ^ (64 - be) = 2 ^ 64"
      using be64 by (simp only: power_add [symmetric]) simp
    have "unat m - 2 ^ be < 2 ^ be" using hi by simp
    moreover have "64 - (64 - be) = be" using be64 by simp
    ultimately have "unat sig = (unat m - 2 ^ be) * 2 ^ (64 - be)"
      using unat_push_bit [of "64 - be" "m AND NOT (push_bit be 1)"] False frac k
      by (simp add: sig_def)
    then have "unat sig + 2 ^ be * 2 ^ (64 - be) = (unat m - 2 ^ be + 2 ^ be) * 2 ^ (64 - be)"
      by (simp only: add_mult_distrib)
    then show ?thesis using lo p by simp
  qed
qed

lemma parts_class_simps:
  assumes "\<bar>e\<bar> < 2000"
  shows "\<not> parts_is_zero \<lparr>negative = n, exponent = e, significand = s\<rparr>"
    "\<not> parts_is_nan \<lparr>negative = n, exponent = e, significand = s\<rparr>"
    "\<not> parts_is_infinite \<lparr>negative = n, exponent = e, significand = s\<rparr>"
  using assms by (auto simp: parts_is_zero_def parts_is_nan_def parts_is_infinite_def)

lemma parts_val_finite:
  assumes "- 1074 \<le> e" "e < 1024"
  shows "parts_val \<lparr>negative = n, exponent = e, significand = s\<rparr> = (if n then - 1 else 1) * finite_val e (unat s)"
  using assms by (simp add: parts_val_def parts_class_simps finite_val_def)

lemma abs_sint_unat: "unat (if sint v < 0 then - v else v :: i64) = nat \<bar>sint v\<bar>"
proof -
  have r: "- (2 ^ 63) \<le> sint v" "sint v < 2 ^ 63" using sint_i64_range [of v] by (auto simp: in_i64_def)
  have *: "(if sint v < 0 then - v else v) = word_of_nat (nat \<bar>sint v\<bar>)" by simp
  show ?thesis unfolding * unat_of_nat using r by (simp add: nat_less_iff)
qed

lemma from_i64_value:
  "number_ok (from_i64 v)" "parts_val (from_i64 v) = sint v * 2 ^ 1138"
proof -
  have "number_ok (from_i64 v) \<and> parts_val (from_i64 v) = sint v * 2 ^ 1138"
  proof (cases "v = 0")
    case True
    then show ?thesis by (simp add: from_i64_def number_ok_def parts_val_def parts_is_zero_def ZERO_def)
  next
    case False
    define m where "m = (if sint v < 0 then - v else v)"
    have m0: "m \<noteq> 0" using False by (simp add: m_def)
    note n = normalize [OF m0]
    define be where "be = 63 - leading_zeros m"
    define sig where "sig = (if leading_zeros m = 63 then 0
      else push_bit (leading_zeros m + 1) (m AND NOT (push_bit be 1)))"
    note n = n [folded be_def, folded sig_def]
    have f: "from_i64 v = \<lparr>negative = (sint v < 0), exponent = int be, significand = sig\<rparr>"
      using False by (simp add: from_i64_def Let_def m_def [symmetric] be_def sig_def)
    have "finite_val (int be) (unat sig) = int (2 ^ 64 + unat sig) * 2 ^ (be + 1074)"
      by (simp add: finite_val_def nat_add_distrib)
    also have "\<dots> = int (unat m) * (2 ^ (64 - be) * 2 ^ (be + 1074))" by (simp only: n(5)) simp
    also have "\<dots> = int (unat m) * 2 ^ 1138" using n(1) by (simp only: power_add [symmetric]) simp
    finally have fv: "finite_val (int be) (unat sig) = \<bar>sint v\<bar> * 2 ^ 1138"
      by (simp add: m_def abs_sint_unat)
    have "parts_val (from_i64 v) = sint v * 2 ^ 1138"
      unfolding f by (subst parts_val_finite) (use n(1) fv in auto)
    moreover have "number_ok (from_i64 v)" unfolding f using n(1) by (simp add: number_ok_def parts_ok_def)
    ultimately show ?thesis by simp
  qed
  then show "number_ok (from_i64 v)" "parts_val (from_i64 v) = sint v * 2 ^ 1138" by auto
qed

lemma f64_fields:
  "unat (drop_bit 52 (v :: f64) AND 0x7FF) = f64_mag v div 2 ^ 52"
  "unat ((v :: f64) AND 0x000FFFFFFFFFFFFF) = f64_mag v mod 2 ^ 52"
proof -
  have a: "(0x7FF :: 64 word) = mask 11" "(0x000FFFFFFFFFFFFF :: 64 word) = mask 52"
    by (simp_all add: mask_eq_exp_minus_1)
  have "unat (drop_bit 52 v AND 0x7FF) = (unat v div 2 ^ 52) mod 2 ^ 11"
    unfolding a(1) take_bit_eq_mask [symmetric]
    by (simp only: unsigned_take_bit_eq unat_drop_bit_eq) (simp add: take_bit_eq_mod drop_bit_eq_div)
  also have "\<dots> = (unat v mod (2 ^ 52 * 2 ^ 11)) div 2 ^ 52" 
    by (simp only: mod_mult2_eq div_mult_self2 power_eq_0_iff) simp
  finally show "unat (drop_bit 52 v AND 0x7FF) = f64_mag v div 2 ^ 52" by (simp add: f64_mag_def)
  have "unat (v AND 0x000FFFFFFFFFFFFF) = unat v mod 2 ^ 52"
    unfolding a(2) take_bit_eq_mask [symmetric]
    by (simp only: unsigned_take_bit_eq) (simp add: take_bit_eq_mod)
  also have "\<dots> = f64_mag v mod 2 ^ 52"
    using mod_mod_cancel [of "2 ^ 52 :: nat" "2 ^ 63" "unat v"] by (simp add: f64_mag_def le_imp_power_dvd)
  finally show "unat (v AND 0x000FFFFFFFFFFFFF) = f64_mag v mod 2 ^ 52" .
qed

lemma even_unat_push_bit: "0 < k \<Longrightarrow> k \<le> 64 \<Longrightarrow> even (unat (push_bit k (w :: u64)))"
  by (subst unat_push_bit) simp_all

lemma f64_neg_test: "\<not> f64_is_nan v \<Longrightarrow> f64_mag v \<noteq> 0 \<Longrightarrow> f64_lt v 0 = f64_negative_bit v"
proof -
  assume "\<not> f64_is_nan v" "f64_mag v \<noteq> 0"
  moreover have "f64_scaled 0 = 0" "\<not> f64_is_nan 0"
    by (simp_all add: f64_scaled_def f64_mag_def f64_is_nan_def)
  moreover have "0 < scaled_mag (f64_mag v)" using \<open>f64_mag v \<noteq> 0\<close> scaled_mag_less [of 0 "f64_mag v"] by simp
  ultimately show ?thesis by (simp only: f64_lt_def) (simp add: f64_scaled_def)
qed

lemma from_f64_normal:
  fixes v :: f64
  assumes b: "f64_mag v div 2 ^ 52 = b" "0 < b" "b < 0x7FF"
  shows "number_ok (from_f64 v)" "parts_val (from_f64 v) = f64_scaled v * 2 ^ 64"
proof -
  define r where "r = f64_mag v mod 2 ^ 52"
  have r: "r < 2 ^ 52" "f64_mag v = b * 2 ^ 52 + r" using b by (auto simp: r_def)
  have nn: "\<not> f64_is_nan v" "f64_mag v \<noteq> 0" using r b by (auto simp: f64_is_nan_def)
  define sig where "sig = push_bit 12 (v AND 0x000FFFFFFFFFFFFF)"
  have f: "from_f64 v = \<lparr>negative = f64_negative_bit v, exponent = int b - 1023, significand = sig\<rparr>"
  proof -
    have c: "int b \<noteq> 0" "int b \<noteq> 0x7FF" using b by auto
    show ?thesis
      by (simp only: from_f64_def Let_def f64_fields b(1) c if_False f64_neg_test [OF nn] sig_def)
  qed
  have "unat sig = r * 2 ^ 12"
  proof -
    have "unat sig = (r mod 2 ^ (64 - 12)) * 2 ^ 12"
      unfolding sig_def r_def by (subst unat_push_bit) (simp, simp only: f64_fields)
    then show ?thesis using r(1) by simp
  qed
  then have "finite_val (int b - 1023) (unat sig) = (2 ^ 52 + int r) * 2 ^ 12 * 2 ^ nat (int b + 51)"
  proof -
    have "2 ^ 64 + int (r * 2 ^ 12) = (2 ^ 52 + int r) * 2 ^ 12" by simp
    then show ?thesis unfolding finite_val_def \<open>unat sig = r * 2 ^ 12\<close> by simp
  qed
  also have "nat (int b + 51) = (b - 1) + 52" using b by simp
  also have "(2 ^ 52 + int r) * 2 ^ 12 * 2 ^ (b - 1 + 52) = (2 ^ 52 + int r) * 2 ^ (b - 1) * (2 ^ 64 :: int)"
    by (simp add: power_add)
  also have "(2 ^ 52 + int r) * 2 ^ (b - 1) = int (scaled_mag (f64_mag v))"
    using b r by (simp add: scaled_mag_def r_def [symmetric])
  finally have fv: "finite_val (int b - 1023) (unat sig) = int (scaled_mag (f64_mag v)) * 2 ^ 64" .
  show "parts_val (from_f64 v) = f64_scaled v * 2 ^ 64"
    unfolding f by (subst parts_val_finite) (use b fv in \<open>auto simp: f64_scaled_def\<close>)
  show "number_ok (from_f64 v)"
  proof -
    have "even (unat sig)" unfolding sig_def by (rule even_unat_push_bit) simp_all
    then show ?thesis unfolding f using b by (auto simp: number_ok_def parts_ok_def)
  qed
qed

lemma from_f64_subnormal:
  fixes v :: f64
  assumes b: "f64_mag v < 2 ^ 52" "f64_mag v \<noteq> 0"
  shows "number_ok (from_f64 v)" "parts_val (from_f64 v) = f64_scaled v * 2 ^ 64"
proof -
  have nn: "\<not> f64_is_nan v" using b by (simp add: f64_is_nan_def)
  define m where "m = v AND 0x000FFFFFFFFFFFFF"
  have um: "unat m = f64_mag v" using b f64_fields(2) [of v] by (simp add: m_def)
  then have m0: "m \<noteq> 0" using b by auto
  define be where "be = 63 - leading_zeros m"
  define sig where "sig = (if leading_zeros m = 63 then 0
    else push_bit (leading_zeros m + 1) (m AND NOT (push_bit be 1)))"
  note n = normalize [OF m0, folded be_def, folded sig_def]
  have "(2::nat) ^ be < 2 ^ 52" using n(3) um b by simp
  then have be: "be < 52" by (rule power_less_imp_less_exp [rotated]) simp
  have e: "- 1023 - (int (leading_zeros m) - 12) = int be - 1074" using n(2) by simp
  have f: "from_f64 v = \<lparr>negative = f64_negative_bit v, exponent = int be - 1074, significand = sig\<rparr>"
  proof -
    have z: "f64_mag v div 2 ^ 52 = 0" using b by simp
    show ?thesis
      by (simp only: from_f64_def Let_def f64_fields(1) z of_nat_0 if_True m_def [symmetric] m0 if_False
          f64_neg_test [OF nn b(2)] be_def [symmetric] sig_def [symmetric] e) simp
  qed
  have "finite_val (int be - 1074) (unat sig) = int (2 ^ 64 + unat sig) * 2 ^ be"
    by (simp add: finite_val_def)
  also have "\<dots> = int (unat m) * (2 ^ (64 - be) * 2 ^ be)" by (simp only: n(5)) simp
  also have "\<dots> = int (scaled_mag (f64_mag v)) * 2 ^ 64"
    using n(1) b um by (simp only: power_add [symmetric]) (simp add: scaled_mag_def)
  finally have fv: "finite_val (int be - 1074) (unat sig) = int (scaled_mag (f64_mag v)) * 2 ^ 64" .
  show "parts_val (from_f64 v) = f64_scaled v * 2 ^ 64"
    unfolding f by (subst parts_val_finite) (use be fv in \<open>auto simp: f64_scaled_def\<close>)
  show "number_ok (from_f64 v)"
  proof -
    have "leading_zeros m + 1 \<le> 64" using n(2) by simp
    then have "even (unat sig)" unfolding sig_def by (simp only: even_unat_push_bit split: if_split) simp
    then show ?thesis unfolding f using be by (simp add: number_ok_def parts_ok_def)
  qed
qed

lemma from_f64_value:
  "number_ok (from_f64 v)"
  "parts_val (from_f64 v) = (if f64_is_nan v then - nan_val else f64_scaled v * 2 ^ 64)"
proof -
  have m: "f64_mag v < 2 ^ 63" by (rule f64_mag_less)
  then have "f64_mag v div 2 ^ 52 \<le> 0x7FF" by simp
  then consider "f64_mag v = 0" | "f64_mag v < 2 ^ 52" "f64_mag v \<noteq> 0"
    | "0 < f64_mag v div 2 ^ 52" "f64_mag v div 2 ^ 52 < 0x7FF"
    | "f64_mag v div 2 ^ 52 = 0x7FF" by fastforce
  then have "number_ok (from_f64 v) \<and>
    parts_val (from_f64 v) = (if f64_is_nan v then - nan_val else f64_scaled v * 2 ^ 64)"
  proof cases
    case 1
    then have "from_f64 v = ZERO" using f64_fields [of v]
      by (simp add: from_f64_def Let_def unat_eq_0)
    then show ?thesis using 1 by (simp add: number_ok_def parts_val_def parts_is_zero_def ZERO_def
        f64_is_nan_def f64_scaled_def)
  next
    case 2
    then show ?thesis using from_f64_subnormal [OF 2] by (simp add: f64_is_nan_def)
  next
    case 3
    then have "f64_mag v \<le> inf_mag" by (simp add: div_less_iff_less_mult)
    then show ?thesis using from_f64_normal [OF refl 3] by (simp add: f64_is_nan_def)
  next
    case 4
    define r where "r = f64_mag v mod 2 ^ 52"
    have r: "f64_mag v = inf_mag + r" using 4 div_mult_mod_eq [of "f64_mag v" "2 ^ 52"] by (simp add: r_def)
    show ?thesis
    proof (cases "r = 0")
      case True
      then have mag: "f64_mag v = inf_mag" using r by simp
      then have nn: "\<not> f64_is_nan v" by (simp add: f64_is_nan_def)
      have "from_f64 v = \<lparr>negative = f64_negative_bit v, exponent = i32_max, significand = 0\<rparr>"
        using 4 f64_fields [of v] mag True r_def f64_neg_test [OF nn]
        by (simp add: from_f64_def Let_def unat_eq_0)
      then show ?thesis using nn
        by (simp add: number_ok_def parts_val_def parts_is_zero_def parts_is_nan_def parts_is_infinite_def
            inf_val_def f64_scaled_def mag scaled_mag_inf [simplified])
    next
      case False
      then have "f64_is_nan v" using r by (simp add: f64_is_nan_def)
      moreover have "from_f64 v = NAN"
        using 4 f64_fields [of v] r_def False by (auto simp: from_f64_def Let_def)
      ultimately show ?thesis
        by (simp add: number_ok_def parts_val_def parts_is_zero_def parts_is_nan_def NAN_def)
    qed
  qed
  then show "number_ok (from_f64 v)"
    "parts_val (from_f64 v) = (if f64_is_nan v then - nan_val else f64_scaled v * 2 ^ 64)" by auto
qed

section \<open>The numeric comparisons\<close>

definition int_val :: "i64 \<Rightarrow> int" where "int_val i = parts_val (from_i64 i)"
definition dbl_val :: "f64 \<Rightarrow> int" where "dbl_val d = parts_val (from_f64 d)"

lemma dbl_val: "dbl_val d = (if f64_is_nan d then - nan_val else f64_scaled d * 2 ^ 64)"
  by (simp add: dbl_val_def from_f64_value)

lemma int_val: "int_val i = sint i * 2 ^ 1138"
  by (simp add: int_val_def from_i64_value)

lemma f64_scaled_le_inf: "\<not> f64_is_nan d \<Longrightarrow> \<bar>f64_scaled d\<bar> \<le> 2 ^ 2098"
proof -
  assume "\<not> f64_is_nan d"
  then have "f64_mag d \<le> inf_mag" by (simp add: f64_is_nan_def)
  then have "scaled_mag (f64_mag d) \<le> scaled_mag inf_mag"
    using scaled_mag_less [of inf_mag "f64_mag d"] by linarith
  then have "int (scaled_mag (f64_mag d)) \<le> int (2 ^ 2098)"
    unfolding scaled_mag_inf by (simp only: of_nat_le_iff)
  then show ?thesis by (simp add: f64_scaled_def)
qed

lemma nan_val_less: "\<not> f64_is_nan d \<Longrightarrow> - nan_val < f64_scaled d * 2 ^ 64"
proof -
  assume "\<not> f64_is_nan d"
  from f64_scaled_le_inf [OF this] have "- (2 ^ 2098) * 2 ^ 64 \<le> f64_scaled d * 2 ^ 64"
    by (intro mult_right_mono) auto
  then have "- inf_val \<le> f64_scaled d * 2 ^ 64" unfolding inf_val_def by linarith
  then show ?thesis using inf_val_pos(2) by linarith
qed

lemma ord_cmp_int_mult: "0 < (m::int) \<Longrightarrow> ord_cmp (x * m) (y * m) = ord_cmp x y"
  by (auto simp: ord_cmp_def)

lemma cmp_doubles_val: "cmp_doubles x y = ord_cmp (dbl_val x) (dbl_val y)"
  using nan_val_less [of x] nan_val_less [of y]
  by (auto simp: cmp_doubles_def dbl_val f64_partial_cmp_def ord_cmp_int_mult simp del: inf_val_pos)

text \<open>A finite double has at most 53 significant bits, and so has its integral part.\<close>

lemma f64_scaled_form:
  "\<not> f64_is_nan d \<Longrightarrow> \<exists>a j. \<bar>f64_scaled d\<bar> = int (a * 2 ^ j) \<and> a < 2 ^ 53"
proof -
  let ?m = "f64_mag d"
  have "\<exists>a j. scaled_mag ?m = a * 2 ^ j \<and> a < 2 ^ 53"
  proof (cases "?m < 2 ^ 52")
    case True
    then have "scaled_mag ?m = ?m * 2 ^ 0 \<and> ?m < 2 ^ 53" by (simp add: scaled_mag_def)
    then show ?thesis by blast
  next
    case False
    then have "scaled_mag ?m = (2 ^ 52 + ?m mod 2 ^ 52) * 2 ^ (?m div 2 ^ 52 - 1)"
      by (simp add: scaled_mag_def)
    moreover have "2 ^ 52 + ?m mod 2 ^ 52 < (2 ^ 53 :: nat)" by simp
    ultimately show ?thesis by blast
  qed
  moreover have "\<bar>f64_scaled d\<bar> = int (scaled_mag (f64_mag d))" by (simp add: f64_scaled_def)
  ultimately show ?thesis by metis
qed

lemma trunc_form:
  fixes v :: int
  assumes "\<bar>v\<bar> = int (a * 2 ^ j)" "a < 2 ^ 53"
  shows "\<exists>a' j'. \<bar>trunc_units v * 2 ^ 1074\<bar> = int (a' * 2 ^ j') \<and> a' < 2 ^ 53"
proof -
  have abs: "\<bar>trunc_units v * 2 ^ 1074\<bar> = (\<bar>v\<bar> div 2 ^ 1074) * 2 ^ 1074"
    by (simp add: trunc_units_def abs_mult sgn_if pos_imp_zdiv_nonneg_iff)
  show ?thesis
  proof (cases "1074 \<le> j")
    case True
    then have "a * 2 ^ j = a * 2 ^ (j - 1074) * 2 ^ 1074" by (simp only: mult.assoc power_add [symmetric]) simp
    then have "\<bar>v\<bar> = int (a * 2 ^ (j - 1074) * 2 ^ 1074)" using assms(1) by (simp only:)
    then have "\<bar>v\<bar> = int (a * 2 ^ (j - 1074)) * 2 ^ 1074" by (simp only: of_nat_mult of_nat_power of_nat_numeral)
    then have "(\<bar>v\<bar> div 2 ^ 1074) * 2 ^ 1074 = int (a * 2 ^ j)"
      using assms(1) by (simp only: nonzero_mult_div_cancel_right power_not_zero zero_neq_numeral not_False_eq_True)
    then show ?thesis using abs assms(2) by metis
  next
    case False
    have "\<bar>v\<bar> div 2 ^ 1074 = int (a * 2 ^ j div 2 ^ 1074)" unfolding assms(1) by (simp add: zdiv_int)
    moreover have "a * 2 ^ j div 2 ^ 1074 \<le> a"
    proof -
      have "(2::nat) ^ j \<le> 2 ^ 1074" using False by (intro power_increasing) auto
      then have "a * 2 ^ j \<le> a * 2 ^ 1074" by simp
      from div_le_mono [OF this, of "2 ^ 1074"] show ?thesis
        by (simp only: nonzero_mult_div_cancel_right power_not_zero zero_neq_numeral not_False_eq_True)
    qed
    then have "a * 2 ^ j div 2 ^ 1074 < 2 ^ 53" using assms(2) by (rule le_less_trans)
    moreover have "(\<bar>v\<bar> div 2 ^ 1074) * 2 ^ 1074 = int ((a * 2 ^ j div 2 ^ 1074) * 2 ^ 1074)"
      using calculation(1) by simp
    ultimately show ?thesis using abs by metis
  qed
qed

lemma trunc_units_bounds:
  fixes v :: int
  defines "u \<equiv> 2 ^ 1074"
  shows "0 \<le> v \<Longrightarrow> trunc_units v * u \<le> v \<and> v < (trunc_units v + 1) * u"
    "v \<le> 0 \<Longrightarrow> v \<le> trunc_units v * u \<and> (trunc_units v - 1) * u < v"
proof -
  have u: "0 < u" by (simp add: u_def)
  have *: "w div u * u \<le> w" "w < (w div u + 1) * u" for w
  proof -
    have e: "w = w div u * u + w mod u" by simp
    have m: "0 \<le> w mod u" "w mod u < u" using u by simp_all
    show "w div u * u \<le> w" using e m(1) by linarith
    show "w < (w div u + 1) * u" unfolding distrib_right using e m(2) by linarith
  qed
  have t: "trunc_units v = sgn v * (\<bar>v\<bar> div u)" by (simp only: trunc_units_def u_def)
  show "trunc_units v * u \<le> v \<and> v < (trunc_units v + 1) * u" if "0 \<le> v"
    using * [of v] that u unfolding t by (cases "v = 0") (auto simp: sgn_if)
  show "v \<le> trunc_units v * u \<and> (trunc_units v - 1) * u < v" if "v \<le> 0"
    using * [of "- v"] that u unfolding t by (cases "v = 0") (auto simp: sgn_if algebra_simps)
qed

lemma ord_cmp_trunc:
  fixes i v u T :: int
  assumes "0 < u" "0 \<le> v \<Longrightarrow> T * u \<le> v \<and> v < (T + 1) * u" "v \<le> 0 \<Longrightarrow> v \<le> T * u \<and> (T - 1) * u < v"
  shows "ord_cmp (i * u) v = then_ord (ord_cmp i T) (ord_cmp 0 (v - T * u))"
proof (cases i T rule: linorder_cases)
  case equal
  then show ?thesis by (auto simp: ord_cmp_def)
next
  case less
  then have "i * u \<le> (T - 1) * u" using assms(1) by (intro mult_right_mono) auto
  moreover have "(T - 1) * u < T * u" using assms(1) by simp
  ultimately have "i * u < v" using assms(2,3) by (cases "0 \<le> v") auto
  then show ?thesis using less by simp
next
  case greater
  then have "(T + 1) * u \<le> i * u" using assms(1) by (intro mult_right_mono) auto
  moreover have "T * u < (T + 1) * u" using assms(1) by simp
  ultimately have "v < i * u" using assms(2,3) by (cases "0 \<le> v") auto
  then show ?thesis using greater by simp
qed

lemma f64_negative_bit_iff: "f64_negative_bit x \<longleftrightarrow> bit x 63"
proof -
  have l: "unat x div 2 ^ 63 < 2" using unat_sig_less [of x] by simp
  have o: "odd q \<longleftrightarrow> q \<noteq> 0" if "q < 2" for q :: nat using that by presburger
  have "bit x 63 \<longleftrightarrow> bit (unat x) 63" by (simp add: bit_unsigned_iff)
  also have "\<dots> \<longleftrightarrow> unat x div 2 ^ 63 \<noteq> 0" unfolding bit_iff_odd using o [OF l] .
  also have "\<dots> \<longleftrightarrow> f64_negative_bit x" by (simp add: f64_negative_bit_def div_eq_0_iff not_less)
  finally show ?thesis by simp
qed

lemma f64_neg_simps [simp]:
  "f64_mag (f64_neg x) = f64_mag x" "f64_negative_bit (f64_neg x) = (\<not> f64_negative_bit x)"
  "f64_scaled (f64_neg x) = - f64_scaled x" "f64_is_nan (f64_neg x) = f64_is_nan x"
  "f64_is_infinite (f64_neg x) = f64_is_infinite x"
proof -
  show m: "f64_mag (f64_neg x) = f64_mag x"
  proof -
    have "take_bit 63 (f64_neg x) = take_bit 63 x"
      unfolding f64_neg_def by (rule bit_word_eqI) (auto simp: bit_simps simp del: push_bit_numeral)
    then have "unat (take_bit 63 (f64_neg x)) = unat (take_bit 63 x)" by (rule arg_cong)
    then show ?thesis by (simp only: unsigned_take_bit_eq) (simp add: take_bit_eq_mod f64_mag_def)
  qed
  show n: "f64_negative_bit (f64_neg x) = (\<not> f64_negative_bit x)"
    unfolding f64_negative_bit_iff f64_neg_def by (simp add: bit_simps del: push_bit_numeral)
  show "f64_scaled (f64_neg x) = - f64_scaled x" using m n by (simp add: f64_scaled_def)
  show "f64_is_nan (f64_neg x) = f64_is_nan x" "f64_is_infinite (f64_neg x) = f64_is_infinite x"
    using m by (simp_all add: f64_is_nan_def f64_is_infinite_def)
qed

lemma f64_infinite_scaled: "f64_is_infinite x \<Longrightarrow> \<bar>f64_scaled x\<bar> = 2 ^ 2098"
  unfolding f64_is_infinite_def f64_scaled_def using arg_cong [OF scaled_mag_inf, of int] by simp

lemma f64_sub_sgn:
  assumes "\<not> f64_is_nan x" "\<not> f64_is_nan y" "\<not> f64_is_infinite x" "\<not> f64_is_infinite y"
  shows "sgn (f64_scaled (f64_sub x y)) = sgn (f64_scaled x - f64_scaled y)" "\<not> f64_is_nan (f64_sub x y)"
  using assms f64_of_scaled_sgn f64_of_scaled_not_nan by (simp_all add: f64_sub_def f64_add_def)

lemma two_63: "f64_scaled two_63 = 2 ^ 63 * 2 ^ 1074" "\<not> f64_is_nan two_63"
proof -
  have "(1086 * 2 ^ 52 :: nat) < 2 ^ 63" by simp
  then show "f64_scaled two_63 = 2 ^ 63 * 2 ^ 1074" "\<not> f64_is_nan two_63"
    unfolding two_63_def by (simp_all only: f64_scaled_of_mag f64_is_nan_def f64_of_mag_simps) (simp_all add: scaled_mag_def)
qed

lemma trunc_in_i64:
  fixes v :: int
  assumes "- (2 ^ 63) * 2 ^ 1074 \<le> v" "v < 2 ^ 63 * 2 ^ 1074"
  shows "in_i64 (trunc_units v)"
proof -
  let ?u = "2 ^ 1074 :: int"
  note tb = trunc_units_bounds [of v]
  have l: "- (2 ^ 63) \<le> trunc_units v"
  proof (rule ccontr)
    assume "\<not> - (2 ^ 63) \<le> trunc_units v"
    then have "trunc_units v + 1 \<le> - (2 ^ 63)" by linarith
    then have *: "(trunc_units v + 1) * ?u \<le> - (2 ^ 63) * ?u" "trunc_units v * ?u < - (2 ^ 63) * ?u"
      by (intro mult_right_mono mult_strict_right_mono; simp)+
    then show False using tb assms by (cases "0 \<le> v") linarith+
  qed
  have "trunc_units v < 2 ^ 63"
  proof (rule ccontr)
    assume "\<not> trunc_units v < 2 ^ 63"
    then have "2 ^ 63 \<le> trunc_units v" "2 ^ 63 - 1 \<le> trunc_units v - 1" by linarith+
    then have *: "2 ^ 63 * ?u \<le> trunc_units v * ?u" "(2 ^ 63 - 1) * ?u \<le> (trunc_units v - 1) * ?u"
      by (intro mult_right_mono; simp)+
    have "0 \<le> (2 ^ 63 - 1) * ?u" by simp
    then show False using tb assms * by (cases "0 \<le> v") linarith+
  qed
  with l show ?thesis by (simp add: in_i64_def)
qed

lemma i64_units_less: "in_i64 n \<Longrightarrow> \<bar>n * 2 ^ 1074\<bar> < (2 ^ 2098 :: int)"
proof -
  assume "in_i64 n"
  then have "\<bar>n\<bar> \<le> 2 ^ 63" by (auto simp: in_i64_def)
  then have "\<bar>n * 2 ^ 1074\<bar> \<le> 2 ^ 63 * 2 ^ 1074" unfolding abs_mult by (intro mult_mono) auto
  also have "\<dots> < (2 ^ 2098 :: int)" by (simp only: power_add [symmetric]) (rule power_strict_increasing; simp)
  finally show ?thesis .
qed

lemma f64_trunc_exact:
  assumes "\<not> f64_is_nan d" "\<not> f64_is_infinite d" "in_i64 (trunc_units (f64_scaled d))"
    "\<bar>trunc_units (f64_scaled d) * 2 ^ 1074\<bar> = int (a * 2 ^ j)" "a < 2 ^ 53"
  shows "f64_scaled (f64_trunc d) = trunc_units (f64_scaled d) * 2 ^ 1074" "\<not> f64_is_nan (f64_trunc d)"
  unfolding f64_trunc_def using f64_of_scaled_exact [OF assms(4,5) i64_units_less [OF assms(3)]] assms(1,2)
  by (simp_all only: simp_thms if_False)

lemma trunc_units_mult: "trunc_units (T * 2 ^ 1074) = T"
proof -
  have "\<bar>T * 2 ^ 1074\<bar> = \<bar>T\<bar> * 2 ^ 1074" by (simp add: abs_mult)
  then have "\<bar>T * 2 ^ 1074\<bar> div 2 ^ 1074 = \<bar>T\<bar>"
    by (simp only: nonzero_mult_div_cancel_right power_not_zero zero_neq_numeral not_False_eq_True)
  moreover have "sgn (T * 2 ^ 1074) = sgn T" by (simp add: sgn_mult)
  ultimately show ?thesis unfolding trunc_units_def by (simp add: sgn_mult_abs)
qed

lemma f64_of_i64_exact:
  assumes "\<bar>sint t * 2 ^ 1074\<bar> = int (a * 2 ^ j)" "a < 2 ^ 53"
  shows "f64_scaled (f64_of_i64 t) = sint t * 2 ^ 1074" "\<not> f64_is_nan (f64_of_i64 t)"
    "\<not> f64_is_infinite (f64_of_i64 t)"
  unfolding f64_of_i64_def
  using f64_of_scaled_exact [OF assms i64_units_less [OF sint_i64_range]] by auto

text \<open>
  \<open>cmp_int_double\<close> compares the exact values although it works in rounded doubles: the
  truncation and its image are exact, and the difference has the right sign.
\<close>

lemma cmp_zero_sgn:
  assumes "\<not> f64_is_nan x" "sgn (f64_scaled x) = sgn v"
  shows "cmp_doubles 0 x = ord_cmp 0 v"
proof -
  have "f64_scaled 0 = 0" "\<not> f64_is_nan 0" by (simp_all add: f64_scaled_def f64_mag_def f64_is_nan_def)
  then have "cmp_doubles 0 x = ord_cmp 0 (f64_scaled x)"
    using assms(1) by (simp add: cmp_doubles_def f64_partial_cmp_def)
  also have "\<dots> = ord_cmp 0 v" using assms(2) by (auto simp: ord_cmp_def sgn_if split: if_splits)
  finally show ?thesis .
qed

lemma cmp_int_double_val: "cmp_int_double i d = ord_cmp (int_val i) (dbl_val d)"
proof (cases "f64_is_nan d")
  case True
  have "- (2 ^ 63) \<le> sint i" using sint_i64_range [of i] by (auto simp: in_i64_def)
  then have "- (2 ^ 63) * 2 ^ 1138 \<le> sint i * 2 ^ 1138" by (intro mult_right_mono) auto
  moreover have "(2 ^ 63 * 2 ^ 1138 :: int) \<le> inf_val" unfolding inf_val_def by simp
  ultimately have "- nan_val < sint i * 2 ^ 1138" using inf_val_pos(2) by linarith
  then show ?thesis using True by (simp add: cmp_int_double_def int_val dbl_val)
next
  case nn: False
  let ?v = "f64_scaled d"
  let ?u = "2 ^ 1074 :: int"
  have i: "- (2 ^ 63) \<le> sint i" "sint i < 2 ^ 63" using sint_i64_range [of i] by (auto simp: in_i64_def)
  have "ord_cmp (int_val i) (dbl_val d) = ord_cmp (sint i * ?u * 2 ^ 64) (?v * 2 ^ 64)"
  proof -
    have "sint i * 2 ^ 1138 = sint i * ?u * 2 ^ 64" by simp
    then show ?thesis using nn by (simp only: int_val dbl_val if_False)
  qed
  then have goal: "ord_cmp (int_val i) (dbl_val d) = ord_cmp (sint i * ?u) ?v"
    by (simp only: ord_cmp_int_mult zero_less_power zero_less_numeral)
  consider "2 ^ 63 * ?u \<le> ?v" | "?v < - (2 ^ 63) * ?u" | "- (2 ^ 63) * ?u \<le> ?v" "?v < 2 ^ 63 * ?u"
    by linarith
  then show ?thesis
  proof cases
    case 1
    have "sint i * ?u < 2 ^ 63 * ?u" using i by (intro mult_strict_right_mono) auto
    then have "sint i * ?u < ?v" using 1 by linarith
    then have "ord_cmp (sint i * ?u) ?v = Less" by (simp only: ord_cmp_simps)
    moreover have "f64_lt two_63 d \<or> f64_eq two_63 d"
      unfolding f64_lt_def f64_eq_def two_63 using nn 1 two_63(2) by auto
    ultimately show ?thesis unfolding goal cmp_int_double_def using nn by (simp only: if_False if_True)
  next
    case 2
    have "- (2 ^ 63) * ?u \<le> sint i * ?u" using i by (intro mult_right_mono) auto
    then have "?v < sint i * ?u" using 2 by linarith
    then have "ord_cmp (sint i * ?u) ?v = Greater" by (simp only: ord_cmp_simps)
    moreover have "\<not> (f64_lt two_63 d \<or> f64_eq two_63 d)" "f64_lt d (f64_neg two_63)"
      unfolding f64_lt_def f64_eq_def f64_neg_simps two_63 using nn 2 two_63(2) by auto
    ultimately show ?thesis unfolding goal cmp_int_double_def using nn by (simp only: if_False if_True)
  next
    case 3
    have fin: "\<not> f64_is_infinite d"
    proof
      assume "f64_is_infinite d"
      from f64_infinite_scaled [OF this] have "\<bar>?v\<bar> = 2 ^ 2098" .
      moreover have "(2 ^ 63 * ?u) < 2 ^ 2098"
        by (simp only: power_add [symmetric]) (rule power_strict_increasing; simp)
      ultimately show False using 3 by linarith
    qed
    obtain a j where "\<bar>?v\<bar> = int (a * 2 ^ j)" "a < 2 ^ 53" using f64_scaled_form [OF nn] by blast
    from trunc_form [OF this] obtain a' j' where
      f: "\<bar>trunc_units ?v * ?u\<bar> = int (a' * 2 ^ j')" "a' < 2 ^ 53" by blast
    have T: "in_i64 (trunc_units ?v)" by (rule trunc_in_i64 [OF 3])
    note ft = f64_trunc_exact [OF nn fin T f]
    define t where "t = f64_to_i64 (f64_trunc d)"
    have st: "sint t = trunc_units ?v"
      unfolding t_def f64_to_i64_def ft(1) trunc_units_mult using ft(2) T
      by (simp add: in_i64_def max_def min_def)
    note ex = f64_of_i64_exact [of t a' j', unfolded st, OF f]
    note sub = f64_sub_sgn [OF nn ex(2) fin ex(3)]
    note fract = cmp_zero_sgn [OF sub(2)]
    have "\<not> (f64_lt two_63 d \<or> f64_eq two_63 d)" "\<not> f64_lt d (f64_neg two_63)"
      unfolding f64_lt_def f64_eq_def f64_neg_simps two_63 using 3 by auto
    then have "cmp_int_double i d = then_ord (ord_cmp (sint i) (sint t)) (cmp_doubles 0 (f64_sub d (f64_of_i64 t)))"
      using nn by (simp only: cmp_int_double_def if_False Let_def t_def)
    also have "\<dots> = ord_cmp (sint i * ?u) ?v"
      unfolding st fract [OF sub(1) [unfolded ex(1)]] using ord_cmp_trunc [of ?u ?v "trunc_units ?v" "sint i"] trunc_units_bounds [of ?v] by simp
    finally show ?thesis unfolding goal .
  qed
qed

end
