(* ===== verification/IndexKey.thy ===== *)
theory IndexKey
  imports NumberOrder
begin

text \<open>
  \<open>index_key.rs\<close>: the order-preserving encoding of values into index keys.
  \<open>write_value\<close> returns the bytes the source appends; \<open>None\<close> is the panic of the
  number encoder, which storable values are shown never to meet.
\<close>

section \<open>Tags and markers\<close>

definition TAG_ABSENT :: u8 where "TAG_ABSENT = 0x04"
definition TAG_NULL :: u8 where "TAG_NULL = 0x08"
definition TAG_BOOLEAN :: u8 where "TAG_BOOLEAN = 0x10"
definition TAG_NUMBER :: u8 where "TAG_NUMBER = 0x18"
definition TAG_TIMESTAMP :: u8 where "TAG_TIMESTAMP = 0x20"
definition TAG_STRING :: u8 where "TAG_STRING = 0x28"
definition TAG_BYTES :: u8 where "TAG_BYTES = 0x30"
definition TAG_REFERENCE :: u8 where "TAG_REFERENCE = 0x38"
definition TAG_GEO_POINT :: u8 where "TAG_GEO_POINT = 0x40"
definition TAG_ARRAY :: u8 where "TAG_ARRAY = 0x48"
definition TAG_VECTOR :: u8 where "TAG_VECTOR = 0x50"
definition TAG_MAP :: u8 where "TAG_MAP = 0x58"
definition TAG_MAX :: u8 where "TAG_MAX = 0xF8"
definition END_MARK :: u8 where "END_MARK = 0x00"
definition ITEM :: u8 where "ITEM = 0x01"

lemmas tag_defs = TAG_ABSENT_def TAG_NULL_def TAG_BOOLEAN_def TAG_NUMBER_def TAG_TIMESTAMP_def
  TAG_STRING_def TAG_BYTES_def TAG_REFERENCE_def TAG_GEO_POINT_def TAG_ARRAY_def TAG_VECTOR_def
  TAG_MAP_def TAG_MAX_def

section \<open>Writing values\<close>

fun escape :: "u8 list \<Rightarrow> u8 list" where
  "escape [] = []"
| "escape (b # bs) = (if b = 0x00 then b # 0xFF # escape bs else b # escape bs)"

definition write_escaped :: "u8 list \<Rightarrow> u8 list" where
  "write_escaped bs = escape bs @ [0x00]"

text \<open>\<open>to_be_bytes\<close> of an \<open>n\<close>-byte word.\<close>

fun be_bytes :: "nat \<Rightarrow> 'a::len word \<Rightarrow> u8 list" where
  "be_bytes 0 w = []"
| "be_bytes (Suc n) w = ucast (drop_bit (8 * n) w) # be_bytes n w"

definition write_segments :: "string list \<Rightarrow> u8 list" where
  "write_segments ss = concat (map (\<lambda>s. ITEM # write_escaped (as_bytes s)) ss) @ [END_MARK]"

definition append_keys :: "u8 list option \<Rightarrow> u8 list option \<Rightarrow> u8 list option" where
  "append_keys a b = (case a of None \<Rightarrow> None | Some x \<Rightarrow> map_option ((@) x) b)"

function (sequential)
  write_value :: "fvalue \<Rightarrow> u8 list option" and
  write_items :: "fvalue list \<Rightarrow> u8 list option" and
  write_elements :: "fvalue list \<Rightarrow> u8 list option" and
  write_entries :: "(string \<times> fvalue) list \<Rightarrow> u8 list option"
where
  "write_value Unset = Some [TAG_NULL]"
| "write_value NullValue = Some [TAG_NULL]"
| "write_value (BooleanValue b) = Some [TAG_BOOLEAN, if b then 1 else 0]"
| "write_value (IntegerValue i) = append_keys (Some [TAG_NUMBER]) (encode_i64 i)"
| "write_value (DoubleValue d) = append_keys (Some [TAG_NUMBER]) (encode_f64 d)"
| "write_value (TimestampValue seconds nanos) =
     Some (TAG_TIMESTAMP # be_bytes 8 (seconds XOR push_bit 63 1) @ be_bytes 4 nanos)"
| "write_value (StringValue s) = Some (TAG_STRING # write_escaped (as_bytes s))"
| "write_value (BytesValue b) = Some (TAG_BYTES # write_escaped b)"
| "write_value (ReferenceValue r) = Some (TAG_REFERENCE # write_segments (split_on CHR ''/'' r))"
| "write_value (GeoPointValue lat lng) =
     append_keys (append_keys (Some [TAG_GEO_POINT]) (encode_f64 lat)) (encode_f64 lng)"
| "write_value (ArrayValue vs) = append_keys (Some [TAG_ARRAY]) (write_items vs)"
| "write_value (MapValue m) =
     (case vector_values m of
        Some elements \<Rightarrow>
          append_keys (append_keys (Some [TAG_VECTOR]) (encode_i64 (word_of_nat (length elements))))
            (write_elements elements)
      | None \<Rightarrow> append_keys (Some [TAG_MAP]) (write_entries (sort_entries m)))"
| "write_value (ExprValue _) = Some [TAG_MAP]"
| "write_items [] = Some [END_MARK]"
| "write_items (v # vs) = append_keys (Some [ITEM]) (append_keys (write_value v) (write_items vs))"
| "write_elements [] = Some []"
| "write_elements (v # vs) = append_keys (write_value v) (write_elements vs)"
| "write_entries [] = Some [END_MARK]"
| "write_entries ((k, v) # es) =
     append_keys (Some (ITEM # write_escaped (as_bytes k)))
       (append_keys (write_value v) (write_entries es))"
  by pat_completeness auto
termination
  by (relation "measure (\<lambda>x. case x of
        Inl (Inl v) \<Rightarrow> vsize v | Inl (Inr vs) \<Rightarrow> slice_size vs
      | Inr (Inl vs) \<Rightarrow> slice_size vs | Inr (Inr es) \<Rightarrow> entries_size es)")
     (auto dest: vector_values_size less_SucI)

definition encode_value :: "fvalue \<Rightarrow> u8 list option" where
  "encode_value v = write_value v"

definition encode_number_key :: "number_parts \<Rightarrow> u8 list option" where
  "encode_number_key p = append_keys (Some [TAG_NUMBER]) (encode_number p)"

section \<open>Hexadecimal storage form\<close>

definition hex_digit :: "nat \<Rightarrow> char" where
  "hex_digit n = (if n < 10 then char_of (48 + n) else char_of (87 + n))"

definition hex_byte :: "u8 \<Rightarrow> string" where
  "hex_byte b = [hex_digit (unat b div 16), hex_digit (unat b mod 16)]"

definition to_index_string :: "u8 list \<Rightarrow> string" where
  "to_index_string key = concat (map hex_byte key)"

section \<open>Keys of the parts\<close>

lemma append_keys_Some [simp]: "append_keys (Some x) (Some y) = Some (x @ y)"
  by (simp add: append_keys_def)

lemma append_keys_eq_Some:
  "append_keys a b = Some k \<longleftrightarrow> (\<exists>x y. a = Some x \<and> b = Some y \<and> k = x @ y)"
  by (auto simp: append_keys_def split: option.splits)

lemma lex_cmp_first: "x \<noteq> y \<Longrightarrow> lex_cmp (x # xs) (y # ys) = ord_cmp x y"
  by (auto simp: then_ord_def)

lemma key_sep_escape: "key_sep (lex_cmp xs ys) (escape xs @ [0]) (escape ys @ [0])"
proof (induction xs ys rule: lex_cmp.induct)
  case (2 y ys)
  have "lex_cmp s (0xFF # t) = Less" if "starts_low s" for s t
    using that by (cases s) (auto simp: ord_cmp_def)
  then show ?case by (auto simp: key_sep_def ord_cmp_def word_gt_0)
next
  case (3 x xs)
  have "lex_cmp (0xFF # t) s = Greater" if "starts_low s" for s t
    using that by (cases s) (auto simp: ord_cmp_def)
  then show ?case by (auto simp: key_sep_def ord_cmp_def word_gt_0)
next
  case (4 x xs y ys)
  show ?case
  proof (cases "x = y")
    case True with 4 show ?thesis by simp
  next
    case False
    then have "lex_cmp (x # xs) (y # ys) = ord_cmp x y" by (rule lex_cmp_first)
    with False show ?thesis by (auto intro: key_sep_first_neq)
  qed
qed simp

lemma key_sep_write_escaped: "key_sep (lex_cmp xs ys) (write_escaped xs) (write_escaped ys)"
  unfolding write_escaped_def by (rule key_sep_escape)

interpretation bytes_key: order_key lex_cmp write_escaped "\<lambda>_. True"
  by unfold_locales (rule key_sep_write_escaped)

lemma key_sep_write_string:
  "key_sep (str_cmp s t) (write_escaped (as_bytes s)) (write_escaped (as_bytes t))"
  unfolding str_cmp_def by (rule key_sep_write_escaped)

lemma starts_low_segments: "starts_low (write_segments ss)"
  by (cases ss) (auto simp: write_segments_def ITEM_def END_MARK_def)

lemma key_sep_segments: "key_sep (cmp_segments xs ys) (write_segments xs) (write_segments ys)"
proof (induction xs ys rule: cmp_segments.induct)
  case (1 a xs b ys)
  have "key_sep (then_ord (str_cmp a b) (cmp_segments xs ys))
      (write_escaped (as_bytes a) @ write_segments xs) (write_escaped (as_bytes b) @ write_segments ys)"
    by (intro key_sep_append starts_low_segments key_sep_write_string 1)
  then show ?case by (simp add: write_segments_def)
qed (auto simp: write_segments_def ITEM_def END_MARK_def
    intro: key_ok_sep [OF key_ok_first_less] key_ok_sep [OF key_ok_first_greater])

lemma unat_byte_at: "unat (ucast (drop_bit (8 * n) w) :: u8) = (unat w div 256 ^ n) mod 256"
proof -
  have "unat (ucast (drop_bit (8 * n) w) :: u8) = (unat w div 2 ^ (8 * n)) mod 2 ^ 8"
    unfolding unsigned_ucast_eq unat_drop_bit_eq by (simp add: drop_bit_eq_div take_bit_eq_mod)
  then show ?thesis by (simp add: power_mult)
qed

lemma be_bytes_order:
  "lex_cmp (be_bytes n x) (be_bytes n y) = ord_cmp (unat x mod 256 ^ n) (unat y mod 256 ^ n)"
proof (induction n)
  case (Suc n)
  have d: "(w mod 256 ^ Suc n) div 256 ^ n = (w div 256 ^ n) mod 256"
    "(w mod 256 ^ Suc n) mod 256 ^ n = w mod 256 ^ n" for w :: nat
    unfolding power_Suc2 mod_mult2_eq by simp_all
  have "ord_cmp (ucast (drop_bit (8 * n) x) :: u8) (ucast (drop_bit (8 * n) y))
      = ord_cmp ((unat x div 256 ^ n) mod 256) ((unat y div 256 ^ n) mod 256)"
    by (simp only: ord_cmp_def word_less_nat_alt word_unat_eq_iff unat_byte_at)
  then show ?case
    using Suc ord_cmp_div_mod [of "256 ^ n" "unat x mod 256 ^ Suc n" "unat y mod 256 ^ Suc n"]
    by (simp only: be_bytes.simps lex_cmp.simps d) simp
qed simp

lemma length_be_bytes [simp]: "length (be_bytes n w) = n"
  by (induction n) auto

lemma key_ok_be_bytes:
  "LENGTH('a) = 8 * n \<Longrightarrow> key_ok (ord_cmp (unat x) (unat y)) (be_bytes n (x :: 'a::len word)) (be_bytes n (y :: 'a word))"
proof -
  assume l: "LENGTH('a) = 8 * n"
  have "unat w < 256 ^ n" for w :: "'a word"
    using unsigned_less [of w, where 'a = nat] by (simp add: l power_mult)
  then have "unat w mod 256 ^ n = unat w" for w :: "'a word" by simp
  then show ?thesis
    using key_ok_same_length [of "be_bytes n x" "be_bytes n y"] by (simp only: be_bytes_order length_be_bytes)
qed

lemma sint_top: "sint x = (if f64_negative_bit x then - (2 ^ 63) else 0) + int (f64_mag x)"
proof -
  let ?v = "(if f64_negative_bit x then - (2 ^ 63) else 0) + int (f64_mag x)"
  have "in_i64 ?v" using f64_mag_less [of x] by (auto simp: in_i64_def)
  then have "sint (word_of_int ?v :: i64) = ?v" by (rule sint_word_of_int_i64)
  moreover have "(word_of_int ?v :: i64) = x"
  proof -
    have "(word_of_int (2 ^ 63) :: i64) = - word_of_int (2 ^ 63)" by simp
    then have "(word_of_int ?v :: i64) = word_of_nat (unat x)" by (simp add: unat_f64)
    then show ?thesis by simp
  qed
  ultimately show ?thesis by simp
qed

lemma key_ok_seconds:
  "key_ok (ord_cmp (sint x) (sint y)) (be_bytes 8 (x XOR push_bit 63 1 :: i64)) (be_bytes 8 (y XOR push_bit 63 1 :: i64))"
proof -
  have "ord_cmp (unat (f64_neg x)) (unat (f64_neg y)) = ord_cmp (sint x) (sint y)"
    using f64_mag_less [of x] f64_mag_less [of y]
    by (auto simp: ord_cmp_def sint_top unat_f64 [of "f64_neg x"] unat_f64 [of "f64_neg y"])
  then show ?thesis using key_ok_be_bytes [of 8 "f64_neg x" "f64_neg y"] by (simp add: f64_neg_def)
qed

lemma key_ok_nanos:
  assumes "nanos_ok x" "nanos_ok y"
  shows "key_ok (ord_cmp (sint x) (sint y)) (be_bytes 4 x) (be_bytes 4 y)"
proof -
  have "uint w = sint w" if "nanos_ok w" for w
    using that by (simp add: uint_sint nanos_ok_def take_bit_int_eq_self)
  then have "unat w = nat (sint w)" if "nanos_ok w" for w using that by (metis unat_eq_nat_uint)
  then have "ord_cmp (unat x) (unat y) = ord_cmp (sint x) (sint y)"
    using assms by (auto simp: ord_cmp_def nanos_ok_def)
  then show ?thesis using key_ok_be_bytes [of 4 x y] by simp
qed

section \<open>Keys of numbers\<close>

lemma encode_number_total:
  assumes "number_ok p"
  obtains k where "encode_number p = Some k" "num_key k (parts_val p)"
  using encode_number_key [OF assms] by blast

lemma encode_i64_total: "\<exists>k. encode_i64 i = Some k \<and> num_key k (int_val i)"
  unfolding encode_i64_def int_val_def by (rule encode_number_key [OF from_i64_value(1)])

lemma encode_f64_total: "\<exists>k. encode_f64 d = Some k \<and> num_key k (dbl_val d)"
  unfolding encode_f64_def dbl_val_def by (rule encode_number_key [OF from_f64_value(1)])

lemma encode_i64_num_key: "encode_i64 i = Some k \<Longrightarrow> num_key k (int_val i)"
  using encode_i64_total [of i] by auto

lemma encode_f64_num_key: "encode_f64 d = Some k \<Longrightarrow> num_key k (dbl_val d)"
  using encode_f64_total [of d] by auto

lemma number_keys:
  "encode_i64 i = Some k \<Longrightarrow> encode_i64 j = Some l \<Longrightarrow> key_ok (ord_cmp (int_val i) (int_val j)) k l"
  "encode_i64 i = Some k \<Longrightarrow> encode_f64 d = Some l \<Longrightarrow> key_ok (ord_cmp (int_val i) (dbl_val d)) k l"
  "encode_f64 d = Some k \<Longrightarrow> encode_i64 i = Some l \<Longrightarrow> key_ok (ord_cmp (dbl_val d) (int_val i)) k l"
  "encode_f64 d = Some k \<Longrightarrow> encode_f64 e = Some l \<Longrightarrow> key_ok (ord_cmp (dbl_val d) (dbl_val e)) k l"
  by (blast intro: num_key_order encode_i64_num_key encode_f64_num_key)+

lemma int_val_order: "ord_cmp (int_val i) (int_val j) = ord_cmp (sint i) (sint j)"
  by (simp add: int_val ord_cmp_int_mult)

interpretation number_key: tagged_key
    "\<lambda>p q. ord_cmp (parts_val p) (parts_val q)" "\<lambda>p. the (encode_number_key p)" number_ok
proof unfold_locales
  fix p q assume "number_ok p" "number_ok q"
  then obtain kp kq where "encode_number p = Some kp" "num_key kp (parts_val p)"
      "encode_number q = Some kq" "num_key kq (parts_val q)"
    by (metis encode_number_total)
  then show "key_sep (ord_cmp (parts_val p) (parts_val q)) (the (encode_number_key p)) (the (encode_number_key q))"
    by (simp add: encode_number_key_def key_ok_sep num_key_order)
next
  fix p assume "number_ok p"
  then obtain kp where "encode_number p = Some kp" by (metis encode_number_total)
  then show "starts_low (the (encode_number_key p))" by (simp add: encode_number_key_def TAG_NUMBER_def)
qed

section \<open>Keys of values\<close>

fun rank_tag :: "type_rank \<Rightarrow> u8" where
  "rank_tag RNull = TAG_NULL" | "rank_tag RBoolean = TAG_BOOLEAN" | "rank_tag RNumber = TAG_NUMBER"
| "rank_tag RTimestamp = TAG_TIMESTAMP" | "rank_tag RString = TAG_STRING" | "rank_tag RBytes = TAG_BYTES"
| "rank_tag RReference = TAG_REFERENCE" | "rank_tag RGeoPoint = TAG_GEO_POINT"
| "rank_tag RArray = TAG_ARRAY" | "rank_tag RVector = TAG_VECTOR" | "rank_tag RMap = TAG_MAP"

lemma rank_tag_order: "ord_cmp (rank_tag a) (rank_tag b) = ord_cmp a b"
  by (cases a; cases b) (simp_all add: ord_cmp_def tag_defs less_type_rank_def)

lemma rank_tag_bounds: "TAG_ABSENT < rank_tag r" "rank_tag r < TAG_MAX" "rank_tag r < 0xFF"
  by (cases r; simp add: tag_defs)+

lemma write_value_head: "write_value v = Some k \<Longrightarrow> \<exists>ks. k = rank_tag (rank v) # ks"
  by (cases v) (auto simp: rank_def append_keys_eq_Some split: option.splits)

lemma starts_low_value: "write_value v = Some k \<Longrightarrow> starts_low k"
  using write_value_head [of v k] rank_tag_bounds(3) by auto

lemma starts_low_items: "write_items vs = Some k \<Longrightarrow> starts_low k"
  by (cases vs) (auto simp: append_keys_eq_Some END_MARK_def ITEM_def)

lemma starts_low_entries: "write_entries es = Some k \<Longrightarrow> starts_low k"
  by (cases es rule: list.exhaust) (auto simp: append_keys_eq_Some END_MARK_def ITEM_def)

lemma starts_low_elements: "write_elements vs = Some k \<Longrightarrow> starts_low k"
  by (cases vs) (auto simp: append_keys_eq_Some starts_low_append starts_low_value dest: write_value_head)

lemma storable_vector: "storable (MapValue m) \<Longrightarrow> vector_values m = Some vs \<Longrightarrow> list_all storable vs \<and> length vs < 2 ^ 63"
  using vector_values_Some by (fastforce simp: list_all_iff)

abbreviation storable_entries :: "(string \<times> fvalue) list \<Rightarrow> bool" where
  "storable_entries \<equiv> list_all (\<lambda>(k, v). storable v)"

lemma storable_sorted: "storable (MapValue m) \<Longrightarrow> storable_entries (sort_entries m)"
  by (auto simp: list_all_iff)

text \<open>The number encoder accepts every integer and every double, so writing never panics.\<close>

lemma write_total:
  "\<exists>k. write_value v = Some k" "\<exists>k. write_items vs = Some k"
  "\<exists>k. write_elements us = Some k" "\<exists>k. write_entries es = Some k"
proof (induction v and vs and us and es rule: write_value_write_items_write_elements_write_entries.induct)
  case (4 i) then show ?case using encode_i64_total [of i] by auto
next
  case (5 d) then show ?case using encode_f64_total [of d] by auto
next
  case (10 lat lng) then show ?case using encode_f64_total [of lat] encode_f64_total [of lng] by auto
next
  case (12 m)
  then show ?case
  proof (cases "vector_values m")
    case (Some vs)
    then show ?thesis using 12 encode_i64_total [of "word_of_nat (length vs)"] by auto
  qed auto
qed auto

lemma rank_simps [simp]:
  "rank Unset = RNull" "rank NullValue = RNull" "rank (BooleanValue b) = RBoolean"
  "rank (IntegerValue i) = RNumber" "rank (DoubleValue d) = RNumber"
  "rank (TimestampValue s n) = RTimestamp" "rank (StringValue t) = RString"
  "rank (BytesValue bs) = RBytes" "rank (ReferenceValue r) = RReference"
  "rank (GeoPointValue lat lng) = RGeoPoint" "rank (ArrayValue vs) = RArray"
  "rank (MapValue m) = (if vector_values m \<noteq> None then RVector else RMap)"
  "rank (ExprValue e) = RMap"
  by (simp_all add: rank_def)

text \<open>Values of one rank, paired by shape.\<close>

lemma same_rank_cases:
  assumes "storable a" "storable b" "rank a = rank b"
  obtains (null) "a \<in> {Unset, NullValue}" "b \<in> {Unset, NullValue}"
  | (boolean) x y where "a = BooleanValue x" "b = BooleanValue y"
  | (ints) x y where "a = IntegerValue x" "b = IntegerValue y"
  | (int_dbl) x y where "a = IntegerValue x" "b = DoubleValue y"
  | (dbl_int) x y where "a = DoubleValue x" "b = IntegerValue y"
  | (dbls) x y where "a = DoubleValue x" "b = DoubleValue y"
  | (timestamp) s n t m where "a = TimestampValue s n" "b = TimestampValue t m"
  | (string) x y where "a = StringValue x" "b = StringValue y"
  | (bytes) x y where "a = BytesValue x" "b = BytesValue y"
  | (reference) x y where "a = ReferenceValue x" "b = ReferenceValue y"
  | (geo) lat lng lat' lng' where "a = GeoPointValue lat lng" "b = GeoPointValue lat' lng'"
  | (array) x y where "a = ArrayValue x" "b = ArrayValue y"
  | (vector) x y vx vy where "a = MapValue x" "b = MapValue y" "vector_values x = Some vx" "vector_values y = Some vy"
  | (map) x y where "a = MapValue x" "b = MapValue y" "vector_values x = None" "vector_values y = None"
  using assms by (cases a; cases b) (auto split: if_splits)

lemma compare_other_rank: "rank a \<noteq> rank b \<Longrightarrow> compare_values a b = ord_cmp (rank a) (rank b)"
  by (simp add: compare_values.simps)

lemma compare_simps:
  "a \<in> {Unset, NullValue} \<Longrightarrow> b \<in> {Unset, NullValue} \<Longrightarrow> compare_values a b = Equal"
  "compare_values (BooleanValue x) (BooleanValue y) = ord_cmp x y"
  "compare_values (IntegerValue i) (IntegerValue j) = ord_cmp (sint i) (sint j)"
  "compare_values (IntegerValue i) (DoubleValue d) = cmp_int_double i d"
  "compare_values (DoubleValue d) (IntegerValue i) = reverse_ord (cmp_int_double i d)"
  "compare_values (DoubleValue d) (DoubleValue e) = cmp_doubles d e"
  "compare_values (TimestampValue s n) (TimestampValue t m) =
     then_ord (ord_cmp (sint s) (sint t)) (ord_cmp (sint n) (sint m))"
  "compare_values (StringValue p) (StringValue q) = str_cmp p q"
  "compare_values (BytesValue bs) (BytesValue cs) = lex_cmp bs cs"
  "compare_values (ReferenceValue p) (ReferenceValue q) = cmp_references p q"
  "compare_values (GeoPointValue d e) (GeoPointValue d' e') = then_ord (cmp_doubles d d') (cmp_doubles e e')"
  "compare_values (ArrayValue us) (ArrayValue vs) = cmp_value_slices us vs"
  "vector_values f = Some us \<Longrightarrow> vector_values g = Some vs \<Longrightarrow> compare_values (MapValue f) (MapValue g) =
     then_ord (ord_cmp (length us) (length vs)) (cmp_value_slices us vs)"
  "vector_values f = None \<Longrightarrow> vector_values g = None \<Longrightarrow> compare_values (MapValue f) (MapValue g) = cmp_maps f g"
  by (auto simp: compare_values.simps cmp_maps_def)

lemma compare_numbers:
  "compare_values (IntegerValue i) (IntegerValue j) = ord_cmp (int_val i) (int_val j)"
  "compare_values (IntegerValue i) (DoubleValue d) = ord_cmp (int_val i) (dbl_val d)"
  "compare_values (DoubleValue d) (IntegerValue i) = ord_cmp (dbl_val d) (int_val i)"
  "compare_values (DoubleValue d) (DoubleValue e) = ord_cmp (dbl_val d) (dbl_val e)"
  by (simp_all add: compare_simps int_val_order cmp_int_double_val cmp_doubles_val ord_cmp_reverse)

lemma length_key:
  assumes "m < 2 ^ 63" "n < 2 ^ 63" "encode_i64 (word_of_nat m) = Some k" "encode_i64 (word_of_nat n) = Some l"
  shows "key_ok (ord_cmp m n) k l"
proof -
  have "sint (word_of_nat j :: i64) = int j" if "j < 2 ^ 63" for j
    using sint_word_of_int_i64 [of "int j"] that by (simp add: in_i64_def)
  then have "ord_cmp (int_val (word_of_nat m)) (int_val (word_of_nat n)) = ord_cmp m n"
    using assms(1,2) by (simp add: int_val_order) (simp add: ord_cmp_def)
  then show ?thesis
    using num_key_order [OF encode_i64_num_key [OF assms(3)] encode_i64_num_key [OF assms(4)]] by simp
qed

lemma key_ok_decided: "key_ok c xs ys \<Longrightarrow> c \<noteq> Equal \<Longrightarrow> key_ok c (xs @ us) (ys @ vs)"
  by (simp add: key_ok_def then_ord_def)

lemma key_sep_Cons: "key_sep c xs ys \<Longrightarrow> key_sep c ([t] @ xs) ([t] @ ys)"
  by simp

lemma cmp_slices_length: "cmp_value_slices xs ys = Equal \<Longrightarrow> length xs = length ys"
  by (induction xs arbitrary: ys; case_tac ys) auto

lemma bool_bytes: "key_sep Less [0] [1]" "key_sep Greater [1] [0]"
  by (intro key_ok_sep key_ok_first_less key_ok_first_greater; simp)+

lemma other_rank_key:
  assumes "write_value a = Some k" "write_value b = Some l" "rank a \<noteq> rank b"
  shows "key_sep (compare_values a b) k l"
proof -
  from write_value_head [OF assms(1)] write_value_head [OF assms(2)]
  obtain ks ls where kl: "k = rank_tag (rank a) # ks" "l = rank_tag (rank b) # ls" by blast
  have "rank_tag (rank a) \<noteq> rank_tag (rank b)"
    using assms(3) rank_tag_order [of "rank a" "rank b"] by (metis ord_cmp_simps(2))
  then show ?thesis
    using key_sep_first_neq [of "rank_tag (rank a)" "rank_tag (rank b)" ks ls] assms(3)
    by (simp add: kl compare_other_rank rank_tag_order)
qed

lemma scalar_key:
  assumes "storable a" "storable b" "rank a = rank b" "rank a \<notin> {RArray, RVector, RMap}"
    and kl: "write_value a = Some k" "write_value b = Some l"
  shows "key_sep (compare_values a b) k l"
  using assms(1,2,3)
proof (cases rule: same_rank_cases)
  case null
  then show ?thesis using kl by (auto simp: compare_simps)
next
  case (boolean x y)
  then show ?thesis using kl
    using bool_bytes by (cases x; cases y) (auto simp: compare_simps)
next
  case (ints x y)
  then show ?thesis using kl
    by (auto simp: compare_numbers append_keys_eq_Some number_keys key_ok_sep)
next
  case (int_dbl x y)
  then show ?thesis using kl
    by (auto simp: compare_numbers append_keys_eq_Some number_keys key_ok_sep)
next
  case (dbl_int x y)
  then show ?thesis using kl
    by (auto simp: compare_numbers append_keys_eq_Some number_keys key_ok_sep)
next
  case (dbls x y)
  then show ?thesis using kl
    by (auto simp: compare_numbers append_keys_eq_Some number_keys key_ok_sep)
next
  case (timestamp s n t m)
  then have "nanos_ok n" "nanos_ok m" using assms(1,2) by auto
  then show ?thesis using timestamp kl
    by (auto simp: compare_simps intro!: key_ok_sep key_ok_append key_ok_seconds [simplified] key_ok_nanos simp del: be_bytes.simps)
next
  case (string x y)
  then show ?thesis using kl by (auto simp: compare_simps intro: key_sep_write_string)
next
  case (bytes x y)
  then show ?thesis using kl by (auto simp: compare_simps intro: key_sep_write_escaped)
next
  case (reference x y)
  then show ?thesis using kl by (auto simp: compare_simps cmp_references_def intro: key_sep_segments)
next
  case (geo lat lng lat' lng')
  then show ?thesis using kl
    by (auto simp: compare_simps cmp_doubles_val append_keys_eq_Some number_keys
        intro!: key_ok_sep key_ok_append)
qed (use assms(4) in auto)

lemma vector_key:
  assumes s: "length us < 2 ^ 63" "length vs < 2 ^ 63"
    and n: "encode_i64 (word_of_nat (length us)) = Some n" "encode_i64 (word_of_nat (length vs)) = Some m"
    and e: "length us = length vs \<Longrightarrow> key_sep (cmp_value_slices us vs) k l"
  shows "key_sep (then_ord (ord_cmp (length us) (length vs)) (cmp_value_slices us vs)) (n @ k) (m @ l)"
proof (cases "length us = length vs")
  case True
  then show ?thesis using key_ok_sep_append [OF length_key [OF s n] e] by simp
next
  case False
  then have "then_ord (ord_cmp (length us) (length vs)) (cmp_value_slices us vs) = ord_cmp (length us) (length vs)"
    by (auto simp: then_ord_def)
  moreover have "key_ok (ord_cmp (length us) (length vs)) (n @ k) (m @ l)"
    using key_ok_decided [OF length_key [OF s n]] False by simp
  ultimately show ?thesis by (simp add: key_ok_sep)
qed

lemma value_key:
  "storable a \<Longrightarrow> storable b \<Longrightarrow> write_value a = Some k \<Longrightarrow> write_value b = Some l \<Longrightarrow>
     key_sep (compare_values a b) k l"
  "list_all storable xs \<Longrightarrow> list_all storable ys \<Longrightarrow>
     (\<forall>k l. write_items xs = Some k \<longrightarrow> write_items ys = Some l \<longrightarrow> key_sep (cmp_value_slices xs ys) k l)
   \<and> (\<forall>k l. length xs = length ys \<longrightarrow> write_elements xs = Some k \<longrightarrow> write_elements ys = Some l \<longrightarrow>
        key_sep (cmp_value_slices xs ys) k l)"
  "storable_entries es \<Longrightarrow> storable_entries fs \<Longrightarrow>
     write_entries es = Some k' \<Longrightarrow> write_entries fs = Some l' \<Longrightarrow> key_sep (cmp_entries es fs) k' l'"
proof (induction a b and xs ys and es fs arbitrary: k l and and k' l'
    rule: compare_values_cmp_value_slices_cmp_entries.induct)
  case (1 a b)
  note kl = "1.prems"(3,4)
  show ?case
  proof (cases "rank a = rank b \<and> rank a \<in> {RArray, RVector, RMap}")
    case False
    then show ?thesis using scalar_key [OF "1.prems"(1,2)] other_rank_key kl by blast
  next
    case True
    then have eq: "rank a = rank b" by simp
    from "1.prems"(1,2) eq show ?thesis
    proof (cases rule: same_rank_cases)
      case (array x y)
      then have "list_all storable x" "list_all storable y" using "1.prems"(1,2) by auto
      then show ?thesis using array kl "1.IH" eq by (auto simp: compare_simps append_keys_eq_Some)
    next
      case (vector x y vx vy)
      then have s: "list_all storable vx" "length vx < 2 ^ 63" "list_all storable vy" "length vy < 2 ^ 63"
        using "1.prems"(1,2) storable_vector by blast+
      obtain n m k' l' where w: "encode_i64 (word_of_nat (length vx)) = Some n" "write_elements vx = Some k'"
          "encode_i64 (word_of_nat (length vy)) = Some m" "write_elements vy = Some l'"
          "k = TAG_VECTOR # n @ k'" "l = TAG_VECTOR # m @ l'"
        using vector kl by (auto simp: append_keys_eq_Some)
      have "key_sep (cmp_value_slices vx vy) k' l'" if "length vx = length vy"
        using "1.IH" eq vector s w that by auto
      from vector_key [OF s(2,4) w(1,3) this] show ?thesis using vector w(5,6) by (simp add: compare_simps)
    next
      case (map x y)
      then have "storable_entries (sort_entries x)" "storable_entries (sort_entries y)"
        using "1.prems"(1,2) storable_sorted by auto
      then show ?thesis using map kl "1.IH" eq
        by (auto simp: compare_simps cmp_maps_def append_keys_eq_Some)
    qed (use True in auto)
  qed
next
  case (2 a xs b ys)
  then show ?case
    by (auto simp: append_keys_eq_Some intro!: key_sep_append dest: starts_low_items starts_low_elements)
next
  case (4 y ys)
  then show ?case by (auto simp: append_keys_eq_Some ITEM_def END_MARK_def intro: key_ok_sep [OF key_ok_first_less])
next
  case (5 x xs)
  then show ?case by (auto simp: append_keys_eq_Some ITEM_def END_MARK_def intro: key_ok_sep [OF key_ok_first_greater])
next
  case (6 ka va xs kb vb ys)
  then obtain v r v' r' where k: "write_value va = Some v" "write_entries xs = Some r"
      "write_value vb = Some v'" "write_entries ys = Some r'"
      "k' = ITEM # write_escaped (as_bytes ka) @ v @ r" "l' = ITEM # write_escaped (as_bytes kb) @ v' @ r'"
    by (auto simp: append_keys_eq_Some)
  have "starts_low (v @ r)" "starts_low (v' @ r')"
    using k starts_low_value starts_low_entries by (auto simp: starts_low_append)
  moreover have "key_sep (then_ord (compare_values va vb) (cmp_entries xs ys)) (v @ r) (v' @ r')"
    using 6 k by (auto intro!: key_sep_append starts_low_entries)
  ultimately show ?case unfolding k(5,6) by (auto intro!: key_sep_append key_sep_write_string)
next
  case (8 y ys)
  then show ?case by (cases y) (auto simp: append_keys_eq_Some ITEM_def END_MARK_def intro: key_ok_sep [OF key_ok_first_less])
next
  case (9 x xs)
  then show ?case by (cases x) (auto simp: append_keys_eq_Some ITEM_def END_MARK_def intro: key_ok_sep [OF key_ok_first_greater])
qed auto

text \<open>The contract of the index: its keys order as the values do.\<close>

interpretation value_key: tagged_key compare_values "\<lambda>v. the (encode_value v)" storable
proof unfold_locales
  fix a b assume s: "storable a" "storable b"
  then obtain k l where "write_value a = Some k" "write_value b = Some l" using write_total(1) by metis
  then show "key_sep (compare_values a b) (the (encode_value a)) (the (encode_value b))"
    using value_key(1) [OF s] by (simp add: encode_value_def)
next
  fix a assume "storable a"
  then obtain k where "write_value a = Some k" using write_total(1) by metis
  then show "starts_low (the (encode_value a))" by (simp add: encode_value_def starts_low_value)
qed

lemma encode_value_the: "encode_value v = Some (the (encode_value v))"
  using write_total(1) [of v] by (auto simp: encode_value_def)

section \<open>The hexadecimal form is monotone\<close>

lemma of_char_hex_digit: "n < 16 \<Longrightarrow> of_char (hex_digit n) = (if n < 10 then 48 + n else 87 + n)"
  by (simp add: hex_digit_def)

lemma ord_cmp_char: "ord_cmp c d = ord_cmp (of_char c :: nat) (of_char d)"
  by (auto simp: ord_cmp_def less_char_def)

lemma hex_digit_order: "m < 16 \<Longrightarrow> n < 16 \<Longrightarrow> ord_cmp (hex_digit m) (hex_digit n) = ord_cmp m n"
  unfolding ord_cmp_char [of "hex_digit m"]
  by (simp only: of_char_hex_digit) (simp add: ord_cmp_def)

lemma hex_byte_order: "lex_cmp (hex_byte a @ s) (hex_byte b @ t) = then_ord (ord_cmp a b) (lex_cmp s t)"
proof -
  have l: "unat a div 16 < 16" "unat b div 16 < 16" using unat_u8_less [of a] unat_u8_less [of b] by auto
  have "ord_cmp a b = ord_cmp (unat a) (unat b)" by (simp add: ord_cmp_def word_less_nat_alt word_unat_eq_iff)
  also have "\<dots> = then_ord (ord_cmp (unat a div 16) (unat b div 16)) (ord_cmp (unat a mod 16) (unat b mod 16))"
    by (rule ord_cmp_div_mod) simp
  finally show ?thesis using l by (simp add: hex_byte_def hex_digit_order then_ord_assoc)
qed

lemma to_index_string_order: "lex_cmp (to_index_string a) (to_index_string b) = lex_cmp a b"
proof (induction a b rule: lex_cmp.induct)
  case (4 x xs y ys)
  then show ?case by (simp add: to_index_string_def hex_byte_order)
qed (simp_all add: to_index_string_def hex_byte_def)

lemma map_zip_same:
  "length us = length vs \<Longrightarrow> map (\<lambda>p. f (fst p)) (zip us vs) = map f us"
  "length us = length vs \<Longrightarrow> map (\<lambda>p. f (snd p)) (zip us vs) = map f vs"
  by (induction us vs rule: list_induct2) auto

section \<open>Properties\<close>

text \<open>
  C1. Every storable value has an index key (the number encoder never panics on one), and the
  keys of any two compare byte by byte exactly as \<open>compare_values\<close> orders the values.
\<close>

theorem index_key_order:
  assumes "storable a" "storable b"
  shows "\<exists>ka kb. encode_value a = Some ka \<and> encode_value b = Some kb
    \<and> lex_cmp ka kb = compare_values a b"
  using encode_value_the [of a] encode_value_the [of b] value_key.key_order [OF assms] by blast

theorem index_key_order_witness:
  "\<exists>ka kb. encode_value (IntegerValue 3) = Some ka
    \<and> encode_value (MapValue [(''a'', StringValue ''x'')]) = Some kb
    \<and> lex_cmp ka kb = compare_values (IntegerValue 3) (MapValue [(''a'', StringValue ''x'')])"
  by (rule index_key_order) simp_all

definition composite_key :: "fvalue list \<Rightarrow> u8 list" where
  "composite_key vs = concat (map (\<lambda>v. the (encode_value v)) vs)"

text \<open>
  C10. Composite keys are plain concatenations: two rows of equally many values have
  concatenated keys that compare as the rows do, column by column, also in the hexadecimal
  form the keys are stored in.
\<close>

theorem composite_key_order:
  assumes "length us = length vs" "list_all storable us" "list_all storable vs"
  shows "str_cmp (to_index_string (composite_key us)) (to_index_string (composite_key vs))
    = cmp_value_slices us vs"
proof -
  have p: "\<forall>(x, y) \<in> set (zip us vs). storable x \<and> storable y"
    using assms by (auto simp: list_all_iff dest: set_zip_leftD set_zip_rightD)
  have c: "value_key.cmp_all (zip us vs) = cmp_value_slices us vs"
    using assms(1) by (induction us vs rule: list_induct2) auto
  have "str_cmp (to_index_string (composite_key us)) (to_index_string (composite_key vs))
      = lex_cmp (composite_key us) (composite_key vs)"
    by (simp only: str_cmp_ord_cmp lex_cmp_ord_cmp [symmetric] to_index_string_order)
  also have "\<dots> = cmp_value_slices us vs"
    using value_key.composite_all [OF p] by (simp only: composite_key_def map_zip_same [OF assms(1), of "\<lambda>v. the (encode_value v)"] c)
  finally show ?thesis .
qed

theorem composite_key_order_witness:
  "str_cmp (to_index_string (composite_key [StringValue [], IntegerValue 1]))
      (to_index_string (composite_key [StringValue [char_of (0 :: nat)], DoubleValue 0]))
    = cmp_value_slices [StringValue [], IntegerValue 1] [StringValue [char_of (0 :: nat)], DoubleValue 0]"
  by (rule composite_key_order) simp_all

text \<open>
  The scan bounds enclose every key: \<open>TAG_ABSENT\<close> sorts below and \<open>TAG_MAX\<close>
  above the key of every storable value, and the tag of a key is determined by the rank.
\<close>

theorem scan_bounds:
  assumes "encode_value v = Some k"
  shows "lex_cmp [TAG_ABSENT] k = Less \<and> lex_cmp k [TAG_MAX] = Less \<and> hd k = rank_tag (rank v)"
  using assms write_value_head [of v k] rank_tag_bounds [of "rank v"] by (auto simp: encode_value_def)

theorem scan_bounds_witness:
  "lex_cmp [TAG_ABSENT] [TAG_STRING, 0] = Less \<and> lex_cmp [TAG_STRING, 0] [TAG_MAX] = Less
    \<and> hd [TAG_STRING, 0] = rank_tag (rank (StringValue []))"
  by (rule scan_bounds) (simp add: encode_value_def write_escaped_def)

text \<open>
  C11. \<open>compare_values\<close> is a total preorder on storable values: reflexive, antisymmetric up
  to reversal, transitive, and values that compare equal are interchangeable.
\<close>

theorem compare_values_preorder:
  assumes "storable a" "storable b" "storable c"
  shows "compare_values a a = Equal
    \<and> compare_values b a = reverse_ord (compare_values a b)
    \<and> (compare_values a b = Less \<longrightarrow> compare_values b c = Less \<longrightarrow> compare_values a c = Less)
    \<and> (compare_values a b = Equal \<longrightarrow> compare_values a c = compare_values b c)"
  using value_key.cmp_refl value_key.cmp_reverse value_key.cmp_trans value_key.cmp_Equal_cong assms
  by blast

theorem compare_values_preorder_witness:
  "compare_values NullValue NullValue = Equal
    \<and> compare_values (BooleanValue True) NullValue = reverse_ord (compare_values NullValue (BooleanValue True))
    \<and> compare_values NullValue (StringValue ''s'') = Less"
proof -
  have "compare_values NullValue (BooleanValue True) = Less" "compare_values (BooleanValue True) (StringValue ''s'') = Less"
    by (simp_all add: compare_other_rank ord_cmp_def less_type_rank_def)
  then show ?thesis
    using compare_values_preorder [of NullValue "BooleanValue True" "StringValue ''s''"] by simp
qed

end
