(* ===== verification/Paths.thy ===== *)
theory Paths
  imports Strings
begin

text \<open>
  \<open>path.rs\<close> and \<open>error.rs\<close>: Firestore resource names, parsed from
  \<open>projects/{p}/databases/{d}/documents/{path}\<close> and printed back, and the engine's errors.
\<close>

section \<open>Errors\<close>

text \<open>
  \<open>EngineError\<close>.  The messages only describe; the model keeps the variant, on which
  clients act.  \<open>Mongo\<close> carries whether the driver labelled the error transient.
\<close>

datatype engine_error =
    NotFound
  | AlreadyExists
  | Aborted
  | FailedPrecondition
  | InvalidArgument
  | Unimplemented
  | Mongo bool

section \<open>Database names\<close>

record database_name =
  project_id :: string
  database_id :: string

definition parse_prefix :: "string \<Rightarrow> engine_error + (database_name \<times> string)" where
  "parse_prefix name =
     (case strip_prefix ''projects/'' name of
        None \<Rightarrow> Inl InvalidArgument
      | Some rest \<Rightarrow>
        (case split_once CHR ''/'' rest of
           None \<Rightarrow> Inl InvalidArgument
         | Some (proj, rest) \<Rightarrow>
           (case strip_prefix ''databases/'' rest of
              None \<Rightarrow> Inl InvalidArgument
            | Some rest \<Rightarrow>
              (let (db, remainder) =
                 (case split_once CHR ''/'' rest of Some (db, tail) \<Rightarrow> (db, tail) | None \<Rightarrow> (rest, []))
               in if proj = [] \<or> db = [] then Inl InvalidArgument
                  else Inr (\<lparr>project_id = proj, database_id = db\<rparr>, remainder)))))"

definition parse_database :: "string \<Rightarrow> engine_error + database_name" where
  "parse_database name =
     (case parse_prefix name of
        Inl e \<Rightarrow> Inl e
      | Inr (db, remainder) \<Rightarrow> if remainder = [] then Inr db else Inl InvalidArgument)"

definition show_database :: "database_name \<Rightarrow> string" where
  "show_database d = ''projects/'' @ project_id d @ ''/databases/'' @ database_id d"

definition documents_root :: "database_name \<Rightarrow> string" where
  "documents_root d = show_database d @ ''/documents''"

section \<open>Resource paths\<close>

text \<open>A path is its list of segments; a valid one has no empty segment.\<close>

type_synonym resource_path = "string list"

definition validate_segment :: "string \<Rightarrow> engine_error + unit" where
  "validate_segment seg = (if seg = [] then Inl InvalidArgument else Inr ())"

fun validate_segments :: "string list \<Rightarrow> engine_error + unit" where
  "validate_segments [] = Inr ()"
| "validate_segments (s # ss) =
     (case validate_segment s of Inl e \<Rightarrow> Inl e | Inr _ \<Rightarrow> validate_segments ss)"

definition from_segments :: "string list \<Rightarrow> engine_error + resource_path" where
  "from_segments ss = (case validate_segments ss of Inl e \<Rightarrow> Inl e | Inr _ \<Rightarrow> Inr ss)"

definition parse_path :: "string \<Rightarrow> engine_error + resource_path" where
  "parse_path s = (if s = [] then Inr [] else from_segments (split_on CHR ''/'' s))"

definition show_path :: "resource_path \<Rightarrow> string" where
  "show_path p = join ''/'' p"

definition is_document :: "resource_path \<Rightarrow> bool" where
  "is_document p \<longleftrightarrow> p \<noteq> [] \<and> length p mod 2 = 0"

definition is_collection :: "resource_path \<Rightarrow> bool" where
  "is_collection p \<longleftrightarrow> length p mod 2 = 1"

definition last_id :: "resource_path \<Rightarrow> string option" where
  "last_id p = (if p = [] then None else Some (last p))"

definition collection_id :: "resource_path \<Rightarrow> string option" where
  "collection_id p = (if is_document p then Some (p ! (length p - 2)) else last_id p)"

definition parent :: "resource_path \<Rightarrow> resource_path option" where
  "parent p = (if p = [] then None else Some (take (length p - 1) p))"

definition child :: "resource_path \<Rightarrow> string \<Rightarrow> engine_error + resource_path" where
  "child p seg = (case validate_segment seg of Inl e \<Rightarrow> Inl e | Inr _ \<Rightarrow> Inr (p @ [seg]))"

section \<open>Resource names\<close>

record resource_name =
  rn_database :: database_name
  rn_path :: resource_path

definition parse_name :: "string \<Rightarrow> engine_error + resource_name" where
  "parse_name name =
     (case parse_prefix name of
        Inl e \<Rightarrow> Inl e
      | Inr (db, remainder) \<Rightarrow>
        (case (if remainder = [] then Inl InvalidArgument
               else if remainder = ''documents'' then Inr []
               else case strip_prefix ''documents/'' remainder of
                      None \<Rightarrow> Inl InvalidArgument
                    | Some rel \<Rightarrow> parse_path rel) of
           Inl e \<Rightarrow> Inl e
         | Inr path \<Rightarrow> Inr \<lparr>rn_database = db, rn_path = path\<rparr>))"

definition parse_document :: "string \<Rightarrow> engine_error + resource_name" where
  "parse_document name =
     (case parse_name name of
        Inl e \<Rightarrow> Inl e
      | Inr n \<Rightarrow> if is_document (rn_path n) then Inr n else Inl InvalidArgument)"

definition show_name :: "resource_name \<Rightarrow> string" where
  "show_name n =
     (if rn_path n = [] then show_database (rn_database n) @ ''/documents''
      else show_database (rn_database n) @ ''/documents/'' @ show_path (rn_path n))"

definition is_reserved_id :: "string \<Rightarrow> bool" where
  "is_reserved_id i \<longleftrightarrow>
     4 \<le> length i \<and> strip_prefix ''__'' i \<noteq> None \<and> strip_suffix ''__'' i \<noteq> None"

section \<open>Well-formed names\<close>

definition db_wf :: "database_name \<Rightarrow> bool" where
  "db_wf d \<longleftrightarrow> project_id d \<noteq> [] \<and> CHR ''/'' \<notin> set (project_id d) \<and>
     database_id d \<noteq> [] \<and> CHR ''/'' \<notin> set (database_id d)"

definition path_wf :: "resource_path \<Rightarrow> bool" where
  "path_wf p \<longleftrightarrow> (\<forall>s \<in> set p. s \<noteq> [] \<and> CHR ''/'' \<notin> set s)"

definition name_wf :: "resource_name \<Rightarrow> bool" where
  "name_wf n \<longleftrightarrow> db_wf (rn_database n) \<and> path_wf (rn_path n)"

lemmas path_defs = parse_path_def from_segments_def show_path_def path_wf_def

lemma validate_segments_Inr: "validate_segments ss = Inr u \<longleftrightarrow> [] \<notin> set ss"
  by (induction ss) (auto simp: validate_segment_def)

lemma validate_segments_cases:
  "validate_segments ss = (if [] \<in> set ss then Inl InvalidArgument else Inr ())"
  by (induction ss) (auto simp: validate_segment_def)

lemma parse_path_show: "path_wf p \<Longrightarrow> parse_path (show_path p) = Inr p"
proof (cases "p = []")
  case False
  assume wf: "path_wf p"
  then have "split_on CHR ''/'' (join ''/'' p) = p"
    using False by (intro split_on_join) (auto simp: path_wf_def)
  moreover have "join ''/'' p \<noteq> []"
    using False wf by (cases p; cases "tl p") (auto simp: path_wf_def)
  ultimately show ?thesis using wf by (auto simp: path_defs validate_segments_cases)
qed (simp add: path_defs)

lemma parse_path_Inr: "parse_path s = Inr p \<Longrightarrow> path_wf p \<and> show_path p = s"
  by (auto simp: path_defs validate_segments_cases split_on_segments split: if_splits)

lemma show_path_inject: "path_wf p \<Longrightarrow> path_wf q \<Longrightarrow> show_path p = show_path q \<longleftrightarrow> p = q"
  using parse_path_show by (metis sum.inject(2))

lemma parse_path_cases: "parse_path s = Inl e \<Longrightarrow> e = InvalidArgument"
  by (auto simp: path_defs validate_segments_cases split: if_splits)

lemma parse_prefix_show:
  assumes "db_wf d" "rest = [] \<or> hd rest = CHR ''/''"
  shows "parse_prefix (show_database d @ rest) = Inr (d, tl rest)"
proof -
  have proj: "split_once CHR ''/'' (project_id d @ CHR ''/'' # t) = Some (project_id d, t)" for t
    using assms(1) by (simp add: split_once_Some db_wf_def)
  have db: "split_once CHR ''/'' (database_id d @ rest) =
      (if rest = [] then None else Some (database_id d, tl rest))"
  proof (cases rest)
    case Nil
    then show ?thesis using assms(1) by (simp add: split_once_None db_wf_def)
  next
    case (Cons c cs)
    then show ?thesis using assms by (simp add: split_once_Some db_wf_def)
  qed
  have p: "strip_prefix ''projects/'' (show_database d @ rest) =
      Some (project_id d @ CHR ''/'' # (''databases/'' @ database_id d @ rest))"
    by (simp add: strip_prefix_Some show_database_def)
  show ?thesis
    unfolding parse_prefix_def p option.case proj prod.case strip_prefix_append db
    using assms(1) by (auto simp: db_wf_def)
qed

lemma parse_prefix_wf: "parse_prefix s = Inr (d, rest) \<Longrightarrow> db_wf d"
  by (auto simp: parse_prefix_def db_wf_def split_once_Some split_once_None Let_def
      split: option.splits prod.splits if_splits)

lemma parse_name_show: "name_wf n \<Longrightarrow> parse_name (show_name n) = Inr n"
proof -
  assume wf: "name_wf n"
  then have d: "db_wf (rn_database n)" and p: "path_wf (rn_path n)" by (auto simp: name_wf_def)
  show ?thesis
  proof (cases "rn_path n = []")
    case True
    then show ?thesis using parse_prefix_show [OF d, of "''/documents''"]
      by (simp add: parse_name_def show_name_def)
  next
    case False
    have ne: "''documents/'' @ show_path (rn_path n) \<noteq> ''documents''" by simp
    have "parse_prefix (show_name n) = Inr (rn_database n, ''documents/'' @ show_path (rn_path n))"
      using parse_prefix_show [OF d, of "''/documents/'' @ show_path (rn_path n)"] False
      by (simp add: show_name_def)
    then show ?thesis using parse_path_show [OF p] ne
      by (simp add: parse_name_def del: append_Cons strip_prefix.simps)
  qed
qed


section \<open>Properties\<close>

text \<open>
  C40. Every well-formed resource name prints to a string that parses back to it.
\<close>

theorem resource_name_roundtrip:
  "name_wf n \<Longrightarrow> parse_name (show_name n) = Inr n"
  by (rule parse_name_show)

theorem resource_name_roundtrip_witness:
  "parse_name ''projects/p/databases/d/documents/users/a'' =
     Inr \<lparr>rn_database = \<lparr>project_id = ''p'', database_id = ''d''\<rparr>, rn_path = [''users'', ''a'']\<rparr>"
  using resource_name_roundtrip
    [of "\<lparr>rn_database = \<lparr>project_id = ''p'', database_id = ''d''\<rparr>, rn_path = [''users'', ''a'']\<rparr>"]
  by (simp add: name_wf_def db_wf_def path_wf_def show_name_def show_database_def show_path_def)

end
