(* ===== verification/FieldPaths.thy ===== *)
theory FieldPaths
  imports Values
begin

text \<open>
  \<open>fields.rs\<close>: dotted field paths into a document's nested field maps.  The source walks a
  mutable reference down the maps; here the recursion rebuilds the map it returns.
\<close>

section \<open>Operations\<close>

definition split_path :: "string \<Rightarrow> string list" where
  "split_path path = split_on CHR ''.'' path"

definition map_value :: "fields \<Rightarrow> fvalue" where
  "map_value fields = MapValue fields"

fun get_segments :: "fields \<Rightarrow> string list \<Rightarrow> fvalue option" where
  "get_segments m [] = None"
| "get_segments m [k] = hm_get m k"
| "get_segments m (k # k' # ks) =
     (case hm_get m k of Some (MapValue f) \<Rightarrow> get_segments f (k' # ks) | _ \<Rightarrow> None)"

definition get_field :: "fields \<Rightarrow> string \<Rightarrow> fvalue option" where
  "get_field m path = get_segments m (split_path path)"

text \<open>\<open>child_map\<close> is the entry the parent loop steps into: an existing map, or a fresh one.\<close>

definition child_map :: "fields \<Rightarrow> string \<Rightarrow> fields" where
  "child_map m k = (case hm_get m k of Some (MapValue f) \<Rightarrow> f | _ \<Rightarrow> [])"

fun set_segments :: "fields \<Rightarrow> string list \<Rightarrow> fvalue \<Rightarrow> fields" where
  "set_segments m [] v = m"
| "set_segments m [k] v = hm_insert k v m"
| "set_segments m (k # k' # ks) v =
     hm_insert k (map_value (set_segments (child_map m k) (k' # ks) v)) m"

definition set_field :: "fields \<Rightarrow> string \<Rightarrow> fvalue \<Rightarrow> fields" where
  "set_field m path v = set_segments m (split_path path) v"

fun delete_segments :: "fields \<Rightarrow> string list \<Rightarrow> fields" where
  "delete_segments m [] = m"
| "delete_segments m [k] = hm_remove k m"
| "delete_segments m (k # k' # ks) =
     (case hm_get m k of
        Some (MapValue f) \<Rightarrow> hm_insert k (MapValue (delete_segments f (k' # ks))) m
      | _ \<Rightarrow> m)"

definition delete_field :: "fields \<Rightarrow> string \<Rightarrow> fields" where
  "delete_field m path = delete_segments m (split_path path)"

lemma split_path_nonempty [simp]: "split_path p \<noteq> []"
  by (simp add: split_path_def)

lemma split_path_inject: "split_path p = split_path q \<longleftrightarrow> p = q"
  by (simp add: split_path_def split_on_inject)

section \<open>Laws on segments\<close>

lemma hm_get_insert: "hm_get (hm_insert k v m) k' = (if k' = k then Some v else hm_get m k')"
  by (simp add: update_conv')

lemma hm_get_remove: "hm_get (hm_remove k m) k' = (if k' = k then None else hm_get m k')"
  by (simp add: delete_conv')

lemma hm_wf_insert [simp]: "hm_wf m \<Longrightarrow> hm_wf (hm_insert k v m)"
  by (rule AList.distinct_update)

lemma hm_wf_remove [simp]: "hm_wf m \<Longrightarrow> hm_wf (hm_remove k m)"
  by (rule AList.distinct_delete)

lemma get_set_same: "ks \<noteq> [] \<Longrightarrow> get_segments (set_segments m ks v) ks = Some v"
  by (induction m ks v rule: set_segments.induct) (auto simp: hm_get_insert map_value_def)

lemma get_delete_same: "ks \<noteq> [] \<Longrightarrow> get_segments (delete_segments m ks) ks = None"
  by (induction m ks rule: delete_segments.induct)
     (auto simp: hm_get_insert hm_get_remove split: option.splits fvalue.splits)

text \<open>Paths neither of which is a prefix of the other name disjoint parts of a document.\<close>

definition disjoint_segments :: "string list \<Rightarrow> string list \<Rightarrow> bool" where
  "disjoint_segments ks ls \<longleftrightarrow> take (length ls) ks \<noteq> ls \<and> take (length ks) ls \<noteq> ks"

lemma disjoint_Cons:
  "ks \<noteq> [] \<Longrightarrow> ls \<noteq> [] \<Longrightarrow>
   disjoint_segments (k # ks) (l # ls) \<longleftrightarrow> k \<noteq> l \<or> disjoint_segments ks ls"
  by (auto simp: disjoint_segments_def)

lemma disjoint_single:
  "disjoint_segments [k] (l # ls) \<longleftrightarrow> k \<noteq> l"
  "disjoint_segments (k # ks) [l] \<longleftrightarrow> k \<noteq> l"
  by (auto simp: disjoint_segments_def)

definition value_map :: "fvalue \<Rightarrow> fields" where
  "value_map v = (case v of MapValue f \<Rightarrow> f | _ \<Rightarrow> [])"

lemma get_segments_Nil_map: "get_segments [] ks = None"
  by (cases ks; cases "tl ks") auto

lemma get_segments_Cons:
  "ks \<noteq> [] \<Longrightarrow> get_segments m (k # ks) = get_segments (child_map m k) ks"
  by (cases ks) (auto simp: child_map_def get_segments_Nil_map split: option.splits fvalue.splits)

lemma child_map_insert: "child_map (hm_insert k v m) l = (if l = k then value_map v else child_map m l)"
  by (simp add: child_map_def value_map_def hm_get_insert)

lemma get_insert:
  "get_segments (hm_insert k v m) (l # ls) =
     (if l = k then if ls = [] then Some v else get_segments (value_map v) ls else get_segments m (l # ls))"
  by (cases "ls = []") (auto simp: hm_get_insert get_segments_Cons child_map_insert)

lemma get_remove:
  "get_segments (hm_remove k m) (l # ls) = (if l = k then None else get_segments m (l # ls))"
proof -
  have "child_map (hm_remove k m) l = (if l = k then [] else child_map m l)"
    by (simp add: child_map_def hm_get_remove)
  then show ?thesis
    by (cases "ls = []") (auto simp: hm_get_remove get_segments_Cons get_segments_Nil_map)
qed

lemma value_map_MapValue [simp]: "value_map (MapValue f) = f" "value_map (map_value f) = f"
  by (simp_all add: value_map_def map_value_def)

lemma get_set_disjoint:
  "disjoint_segments ks ls \<Longrightarrow> get_segments (set_segments m ks v) ls = get_segments m ls"
proof (induction m ks v arbitrary: ls rule: set_segments.induct)
  case (2 m k v)
  then show ?case by (cases ls) (auto simp: disjoint_single get_insert)
next
  case (3 m k k' ks v)
  then show ?case
    by (cases ls; cases "tl ls")
       (auto simp: get_insert disjoint_single disjoint_Cons get_segments_Cons
         simp del: get_segments.simps(2,3))
qed (auto simp: disjoint_segments_def)

lemma get_delete_disjoint:
  "disjoint_segments ks ls \<Longrightarrow> get_segments (delete_segments m ks) ls = get_segments m ls"
proof (induction m ks arbitrary: ls rule: delete_segments.induct)
  case (2 m k)
  then show ?case by (cases ls) (auto simp: disjoint_single get_remove)
next
  case (3 m k k' ks)
  show ?case
  proof (cases "\<exists>f. hm_get m k = Some (MapValue f)")
    case True
    then obtain f where f: "hm_get m k = Some (MapValue f)" by blast
    then have c: "child_map m k = f" by (simp add: child_map_def)
    from 3 f c show ?thesis
      by (cases ls; cases "tl ls")
         (auto simp: get_insert disjoint_single disjoint_Cons get_segments_Cons simp del: get_segments.simps(2,3))
  next
    case False
    then show ?thesis by (auto split: option.splits fvalue.splits)
  qed
qed (auto simp: disjoint_segments_def)

section \<open>Storability is preserved\<close>

lemma hm_insert_entries: "(l, w) \<in> set (hm_insert k v m) \<Longrightarrow> hm_wf m \<Longrightarrow> (l, w) = (k, v) \<or> (l, w) \<in> set m"
  by (metis hm_get_insert hm_wf_insert map_of_eq_Some_iff option.inject)

lemma hm_remove_entries: "(l, w) \<in> set (hm_remove k m) \<Longrightarrow> (l, w) \<in> set m"
  by (auto simp: AList.delete_eq)

lemma storable_fields_insert:
  "storable_fields m \<Longrightarrow> storable v \<Longrightarrow> storable_fields (hm_insert k v m)"
  using hm_insert_entries [where m = m] by fastforce

lemma storable_fields_remove: "storable_fields m \<Longrightarrow> storable_fields (hm_remove k m)"
  using hm_remove_entries by fastforce

lemma storable_child: "storable_fields m \<Longrightarrow> storable_fields (child_map m k)"
  using storable_MapValue by (fastforce simp: child_map_def split: option.splits fvalue.splits dest: map_of_SomeD)

lemma storable_set_segments: "storable_fields m \<Longrightarrow> storable v \<Longrightarrow> storable_fields (set_segments m ks v)"
proof (induction m ks v rule: set_segments.induct)
  case (3 m k k' ks v)
  then have "storable (MapValue (set_segments (child_map m k) (k' # ks) v))"
    unfolding storable_MapValue by (intro "3.IH" storable_child)
  then show ?case using 3 unfolding set_segments.simps map_value_def by (intro storable_fields_insert)
next
  case (2 m k v)
  then show ?case unfolding set_segments.simps by (intro storable_fields_insert)
qed simp

lemma storable_delete_segments: "storable_fields m \<Longrightarrow> storable_fields (delete_segments m ks)"
proof (induction m ks rule: delete_segments.induct)
  case (2 m k)
  then show ?case unfolding delete_segments.simps by (rule storable_fields_remove)
next
  case (3 m k k' ks)
  show ?case
  proof (cases "\<exists>f. hm_get m k = Some (MapValue f)")
    case True
    then obtain f where f: "hm_get m k = Some (MapValue f)" by blast
    then have "storable_fields f" using storable_child [OF "3.prems", of k] by (simp add: child_map_def)
    then have "storable (MapValue (delete_segments f (k' # ks)))"
      unfolding storable_MapValue using "3.IH" f by blast
    then have "storable_fields (hm_insert k (MapValue (delete_segments f (k' # ks))) m)"
      using "3.prems" by (intro storable_fields_insert)
    then show ?thesis using f by simp
  next
    case False
    then show ?thesis using "3.prems" by (auto split: option.splits fvalue.splits)
  qed
qed simp

lemma storable_get_segments: "storable_fields m \<Longrightarrow> get_segments m ks = Some v \<Longrightarrow> storable v"
proof (induction m ks rule: get_segments.induct)
  case (2 m k)
  then show ?case by (auto dest: map_of_SomeD)
next
  case (3 m k k' ks)
  then show ?case using storable_child [of m k] by (auto simp: child_map_def split: option.splits fvalue.splits)
qed simp

lemma get_set_below:
  "ks \<noteq> [] \<Longrightarrow> ls \<noteq> [] \<Longrightarrow> get_segments (set_segments m ks v) (ks @ ls) = get_segments (value_map v) ls"
proof (induction m ks v rule: set_segments.induct)
  case (3 m k k' ks v)
  then show ?case by (auto simp: get_insert simp del: get_segments.simps(2,3))
qed (auto simp: get_insert simp del: get_segments.simps(2,3))

lemma get_set_above:
  "ks \<noteq> [] \<Longrightarrow> ls \<noteq> [] \<Longrightarrow> \<exists>f. get_segments (set_segments m (ks @ ls) v) ks = Some (MapValue f)"
proof (induction ks arbitrary: m)
  case (Cons k ks)
  obtain l ls' where "ks @ ls = l # ls'" using Cons.prems by (cases "ks @ ls") auto
  then have s: "set_segments m (k # ks @ ls) v = hm_insert k (map_value (set_segments (child_map m k) (ks @ ls) v)) m"
    by simp
  show ?case
  proof (cases "ks = []")
    case True
    then show ?thesis using s by (simp add: get_insert map_value_def del: get_segments.simps(2,3))
  next
    case False
    then show ?thesis using s Cons by (simp add: get_insert del: get_segments.simps(2,3))
  qed
qed simp

section \<open>The interface of field access\<close>

text \<open>
  What users of the module rely on: reading back what was written or deleted, and not seeing
  writes to disjoint paths.  The update-mask loop of the commit path is proved once here.
\<close>

locale field_access =
  fixes get :: "'m \<Rightarrow> 'p \<Rightarrow> 'v option"
    and put :: "'m \<Rightarrow> 'p \<Rightarrow> 'v \<Rightarrow> 'm"
    and del :: "'m \<Rightarrow> 'p \<Rightarrow> 'm"
    and disj :: "'p \<Rightarrow> 'p \<Rightarrow> bool"
  assumes get_put: "get (put m p v) p = Some v"
    and get_del: "get (del m p) p = None"
    and get_put_disj: "disj p q \<Longrightarrow> get (put m p v) q = get m q"
    and get_del_disj: "disj p q \<Longrightarrow> get (del m p) q = get m q"
    and disj_sym: "disj p q \<Longrightarrow> disj q p"
begin

definition copy :: "'m \<Rightarrow> 'p \<Rightarrow> 'm \<Rightarrow> 'm" where
  "copy src p m = (case get src p of Some v \<Rightarrow> put m p v | None \<Rightarrow> del m p)"

lemma get_copy: "get (copy src p m) p = get src p"
  by (simp add: copy_def get_put get_del split: option.split)

lemma get_copy_disj: "disj p q \<Longrightarrow> get (copy src p m) q = get m q"
  by (simp add: copy_def get_put_disj get_del_disj split: option.split)

lemma get_fold_disj: "\<forall>p \<in> set ps. disj p q \<Longrightarrow> get (fold (copy src) ps m) q = get m q"
  by (induction ps arbitrary: m) (auto simp: get_copy_disj)

lemma get_fold_copy:
  assumes "sorted_wrt disj ps" "p \<in> set ps"
  shows "get (fold (copy src) ps m) p = get src p"
  using assms
proof (induction ps arbitrary: m)
  case (Cons r ps)
  show ?case
  proof (cases "p \<in> set ps")
    case True
    then show ?thesis using Cons by simp
  next
    case False
    then have "p = r" "\<forall>q \<in> set ps. disj q p" using Cons.prems by (auto intro: disj_sym)
    then show ?thesis by (simp add: get_fold_disj get_copy)
  qed
qed simp

end

definition disjoint_paths :: "string \<Rightarrow> string \<Rightarrow> bool" where
  "disjoint_paths p q \<longleftrightarrow> disjoint_segments (split_path p) (split_path q)"

interpretation field_ops: field_access get_field set_field delete_field disjoint_paths
  by unfold_locales
     (auto simp: get_field_def set_field_def delete_field_def disjoint_paths_def disjoint_segments_def
       intro!: get_set_same get_delete_same get_set_disjoint get_delete_disjoint)

section \<open>Properties\<close>

text \<open>
  Reading a path after a write to it gives the value written, after a delete nothing, and
  writes and deletes leave every disjoint path (neither a prefix of the other) as it was.
\<close>

theorem field_path_laws:
  assumes "q = p \<or> disjoint_paths p q"
  shows "get_field (set_field m p v) q = (if q = p then Some v else get_field m q)
    \<and> get_field (delete_field m p) q = (if q = p then None else get_field m q)"
  using assms
  by (cases "q = p") (auto simp: field_ops.get_put field_ops.get_del field_ops.get_put_disj field_ops.get_del_disj)

lemma path_a: "split_path ''a.b'' = [''a'', ''b'']" "split_path ''a.c'' = [''a'', ''c'']"
  by (simp_all add: split_path_def)

theorem field_path_laws_witness:
  "get_field (set_field [(''a'', MapValue [(''c'', NullValue)])] ''a.b'' (BooleanValue True)) ''a.c''
     = (if ''a.c'' = ''a.b'' then Some (BooleanValue True)
        else get_field [(''a'', MapValue [(''c'', NullValue)])] ''a.c'')
   \<and> get_field (delete_field [(''a'', MapValue [(''c'', NullValue)])] ''a.b'') ''a.c''
     = (if ''a.c'' = ''a.b'' then None
        else get_field [(''a'', MapValue [(''c'', NullValue)])] ''a.c'')"
  by (rule field_path_laws) (simp add: disjoint_paths_def path_a disjoint_segments_def)

text \<open>
  A write below a path replaces whatever is there by a map: every proper prefix of the
  written path reads as a map afterwards, and reading below the written path reads inside the
  written value.
\<close>

theorem set_field_nesting:
  assumes "split_path q = split_path p @ ls" "ls \<noteq> []"
  shows "(\<exists>f. get_field (set_field m q v) p = Some (MapValue f))
    \<and> get_field (set_field m p v) q = get_segments (value_map v) ls"
  using get_set_above [of "split_path p" ls m v] get_set_below [of "split_path p" ls m v] assms
  by (simp add: get_field_def set_field_def)

theorem set_field_nesting_witness:
  "(\<exists>f. get_field (set_field [(''a'', NullValue)] ''a.b'' (BooleanValue True)) ''a'' = Some (MapValue f))
    \<and> get_field (set_field [(''a'', NullValue)] ''a'' (BooleanValue True)) ''a.b''
      = get_segments (value_map (BooleanValue True)) [''b'']"
  by (rule set_field_nesting) (simp_all add: split_path_def)

end
