(* ===== verification/Store.thy ===== *)
theory Store
  imports IndexKey Paths FieldPaths "HOL-Library.Countable"
begin

text \<open>
  \<open>store.rs\<close>: documents as rows of a MongoDB collection, with the index columns derived
  from their fields.  The MongoDB driver is a parameter: the record \<open>mongo\<close> of the calls
  the store makes, over a state \<open>'s\<close> of the session; the protobuf codec of the payload is a
  parameter too.  \<open>mongo_laws\<close> and \<open>codec_law\<close> state what the code relies on of them.
\<close>

section \<open>Rows and requests\<close>

definition VALUE_KEY :: string where "VALUE_KEY = ''__val__''"

datatype bson = BStr string | BDoc "(string \<times> bson) list" | BArr "bson list"

record index_entry =
  ie_path :: string
  ie_value :: string

record document_index =
  di_keys :: "(string \<times> bson) list"
  di_elements :: "index_entry list"
  di_name_key :: string

record stored_document =
  sd_path :: resource_path
  create_time_us :: i64
  update_time_us :: i64
  sd_fields :: fields

text \<open>The columns that \<open>$set\<close> writes; \<open>$setOnInsert\<close> adds the create time.\<close>

record row_set =
  rs_collection_path :: string
  rs_collection_id :: string
  rs_update_time_us :: i64
  rs_payload :: "u8 list"
  rs_index :: document_index

record doc_row =
  row_id :: string
  row_create_time_us :: i64
  row_set :: row_set

record commit_notice =
  cn_instance :: string
  cn_project_id :: string
  cn_database_id :: string
  cn_commit_us :: i64
  cn_paths :: "string list"

record 's mongo =
  find_one :: "'s \<Rightarrow> string \<Rightarrow> string \<Rightarrow> (engine_error + doc_row option) \<times> 's"
  find_one_and_update ::
    "'s \<Rightarrow> string \<Rightarrow> string \<Rightarrow> row_set \<Rightarrow> i64 \<Rightarrow> (engine_error + doc_row) \<times> 's"
  delete_one :: "'s \<Rightarrow> string \<Rightarrow> string \<Rightarrow> (engine_error + nat) \<times> 's"
  insert_notice :: "'s \<Rightarrow> commit_notice \<Rightarrow> (engine_error + unit) \<times> 's"

record codec =
  encode_document :: "fields \<Rightarrow> u8 list"
  decode_document :: "u8 list \<Rightarrow> fields option"

section \<open>Index columns\<close>

definition index_string :: "fvalue \<Rightarrow> string" where
  "index_string v = to_index_string (the (encode_value v))"

text \<open>
  One node of the \<open>keys\<close> mirror with the element entries it adds; \<open>key_children\<close> is the
  loop over a map's entries.
\<close>

fun key_node :: "fvalue \<Rightarrow> string \<Rightarrow> (string \<times> bson) list \<times> index_entry list"
  and key_children ::
    "(string \<times> fvalue) list \<Rightarrow> string \<Rightarrow> (string \<times> bson) list \<Rightarrow> (string \<times> bson) list \<times> index_entry list"
where
  "key_node (ArrayValue vs) path =
     ([(VALUE_KEY, BStr (index_string (ArrayValue vs)))],
      map (\<lambda>e. \<lparr>ie_path = path, ie_value = index_string e\<rparr>) vs)"
| "key_node (MapValue m) path =
     key_children m path [(VALUE_KEY, BStr (index_string (MapValue m)))]"
| "key_node v path = ([(VALUE_KEY, BStr (index_string v))], [])"
| "key_children [] path node = (node, [])"
| "key_children ((name, sub) # es) path node =
     (let (n, els) = key_node sub (path @ ''.'' @ name);
          (node', els') = key_children es path (hm_insert name (BDoc n) node)
      in (node', els @ els'))"

text \<open>The top-level loop of \<open>index_document\<close> over the fields.\<close>

fun index_fields :: "fields \<Rightarrow> (string \<times> bson) list \<Rightarrow> (string \<times> bson) list \<times> index_entry list" where
  "index_fields [] keys = (keys, [])"
| "index_fields ((field, v) # fs) keys =
     (let (n, els) = key_node v field;
          (keys', els') = index_fields fs (hm_insert field (BDoc n) keys)
      in (keys', els @ els'))"

definition document_name :: "database_name \<Rightarrow> resource_path \<Rightarrow> string" where
  "document_name database path = documents_root database @ ''/'' @ show_path path"

definition index_document :: "database_name \<Rightarrow> resource_path \<Rightarrow> fields \<Rightarrow> document_index" where
  "index_document database path fs =
     (let (keys, elements) = index_fields fs []
      in \<lparr>di_keys = keys, di_elements = elements,
          di_name_key = index_string (ReferenceValue (document_name database path))\<rparr>)"

section \<open>Store operations\<close>

definition collection_name :: "database_name \<Rightarrow> string" where
  "collection_name d = project_id d @ ''~'' @ database_id d"

definition decode_row :: "codec \<Rightarrow> doc_row \<Rightarrow> engine_error + stored_document" where
  "decode_row cd row =
     (case decode_document cd (rs_payload (row_set row)) of
        None \<Rightarrow> Inl InvalidArgument
      | Some fs \<Rightarrow>
        (case parse_path (row_id row) of
           Inl e \<Rightarrow> Inl e
         | Inr path \<Rightarrow> Inr \<lparr>sd_path = path, create_time_us = row_create_time_us row,
             update_time_us = rs_update_time_us (row_set row), sd_fields = fs\<rparr>))"

definition get_document ::
  "'s mongo \<Rightarrow> codec \<Rightarrow> database_name \<Rightarrow> resource_path \<Rightarrow> 's \<Rightarrow> (engine_error + stored_document option) \<times> 's"
where
  "get_document mg cd database path s =
     (case find_one mg s (collection_name database) (show_path path) of
        (Inl e, s') \<Rightarrow> (Inl e, s')
      | (Inr None, s') \<Rightarrow> (Inr None, s')
      | (Inr (Some row), s') \<Rightarrow> (map_sum id Some (decode_row cd row), s'))"

text \<open>
  \<open>set_document_opt\<close>.  Its assertion that \<open>path\<close> is a document path is the
  precondition under which the model is used: paths come out of \<open>parse_document\<close>.
\<close>

definition set_document ::
  "'s mongo \<Rightarrow> codec \<Rightarrow> database_name \<Rightarrow> resource_path \<Rightarrow> fields \<Rightarrow> i64 \<Rightarrow> 's
     \<Rightarrow> (engine_error + stored_document) \<times> 's"
where
  "set_document mg cd database path fs now_us s =
     (let collection_path = the (parent path);
          update = \<lparr>rs_collection_path = show_path collection_path,
            rs_collection_id = (case last_id collection_path of Some i \<Rightarrow> i | None \<Rightarrow> []),
            rs_update_time_us = now_us,
            rs_payload = encode_document cd fs,
            rs_index = index_document database path fs\<rparr>
      in case find_one_and_update mg s (collection_name database) (show_path path) update now_us of
           (Inl e, s') \<Rightarrow> (Inl e, s')
         | (Inr row, s') \<Rightarrow> (decode_row cd row, s'))"

definition delete_document ::
  "'s mongo \<Rightarrow> database_name \<Rightarrow> resource_path \<Rightarrow> 's \<Rightarrow> (engine_error + bool) \<times> 's"
where
  "delete_document mg database path s =
     (case delete_one mg s (collection_name database) (show_path path) of
        (Inl e, s') \<Rightarrow> (Inl e, s')
      | (Inr n, s') \<Rightarrow> (Inr (0 < n), s'))"

definition append_commit_notice ::
  "'s mongo \<Rightarrow> string \<Rightarrow> database_name \<Rightarrow> i64 \<Rightarrow> string list \<Rightarrow> 's \<Rightarrow> (engine_error + unit) \<times> 's"
where
  "append_commit_notice mg instance_id database commit_us paths s =
     insert_notice mg s \<lparr>cn_instance = instance_id, cn_project_id = project_id database,
       cn_database_id = database_id database, cn_commit_us = commit_us, cn_paths = paths\<rparr>"

text \<open>
  \<open>list_collection_ids\<close> over the distinct \<open>collection_path\<close> values the driver returns.
  \<open>Vec::dedup\<close> drops consecutive repetitions only.
\<close>

definition list_collection_ids :: "string list \<Rightarrow> resource_path \<Rightarrow> string list" where
  "list_collection_ids paths par =
     (let prefix = (if par = [] then [] else show_path par @ ''/'');
          ids = List.map_filter (\<lambda>p.
            case strip_prefix prefix p of
              None \<Rightarrow> None
            | Some rest \<Rightarrow> if rest \<noteq> [] \<and> CHR ''/'' \<notin> set rest then Some rest else None) paths
      in remdups_adj ids)"

section \<open>What the driver and the codec are relied on for\<close>

definition codec_law :: "codec \<Rightarrow> bool" where
  "codec_law cd \<longleftrightarrow> (\<forall>f. decode_document cd (encode_document cd f) = Some f)"

text \<open>
  MongoDB's documented behaviour inside one session: \<open>rows s c i\<close> is the row with
  \<open>_id = i\<close> in collection \<open>c\<close> as the session sees it.  An upsert sets the given columns,
  takes the create time only on insertion and returns the row after the update; a failing call
  changes no row.
\<close>

definition find_law :: "('s \<Rightarrow> string \<Rightarrow> string \<Rightarrow> doc_row option) \<Rightarrow> 's mongo \<Rightarrow> bool" where
  "find_law rows mg \<longleftrightarrow> (\<forall>s c i r s'. find_one mg s c i = (r, s') \<longrightarrow>
     rows s' = rows s \<and> (\<forall>x. r = Inr x \<longrightarrow> x = rows s c i))"

definition update_law :: "('s \<Rightarrow> string \<Rightarrow> string \<Rightarrow> doc_row option) \<Rightarrow> 's mongo \<Rightarrow> bool" where
  "update_law rows mg \<longleftrightarrow>
     (\<forall>s c i u t e s'. find_one_and_update mg s c i u t = (Inl e, s') \<longrightarrow> rows s' = rows s)
   \<and> (\<forall>s c i u t row s'. find_one_and_update mg s c i u t = (Inr row, s') \<longrightarrow>
        row = \<lparr>row_id = i,
          row_create_time_us = (case rows s c i of Some old \<Rightarrow> row_create_time_us old | None \<Rightarrow> t),
          row_set = u\<rparr>
        \<and> rows s' = (rows s)(c := (rows s c)(i \<mapsto> row)))"

definition delete_law :: "('s \<Rightarrow> string \<Rightarrow> string \<Rightarrow> doc_row option) \<Rightarrow> 's mongo \<Rightarrow> bool" where
  "delete_law rows mg \<longleftrightarrow>
     (\<forall>s c i e s'. delete_one mg s c i = (Inl e, s') \<longrightarrow> rows s' = rows s)
   \<and> (\<forall>s c i n s'. delete_one mg s c i = (Inr n, s') \<longrightarrow>
        n = (if rows s c i = None then 0 else 1) \<and> rows s' = (rows s)(c := (rows s c)(i := None)))"

definition notice_law :: "('s \<Rightarrow> string \<Rightarrow> string \<Rightarrow> doc_row option) \<Rightarrow> 's mongo \<Rightarrow> bool" where
  "notice_law rows mg \<longleftrightarrow> (\<forall>s n r s'. insert_notice mg s n = (r, s') \<longrightarrow> rows s' = rows s)"

definition mongo_laws :: "('s \<Rightarrow> string \<Rightarrow> string \<Rightarrow> doc_row option) \<Rightarrow> 's mongo \<Rightarrow> bool" where
  "mongo_laws rows mg \<longleftrightarrow> find_law rows mg \<and> update_law rows mg \<and> delete_law rows mg \<and> notice_law rows mg"

section \<open>The mirror reads as the document does\<close>

fun bson_at :: "(string \<times> bson) list \<Rightarrow> string list \<Rightarrow> bson option" where
  "bson_at d [] = None"
| "bson_at d [k] = hm_get d k"
| "bson_at d (k # k' # ks) = (case hm_get d k of Some (BDoc d') \<Rightarrow> bson_at d' (k' # ks) | _ \<Rightarrow> None)"

text \<open>Distinct keys and no field called \<open>__val__\<close>, at every depth.\<close>

fun mirrorable :: "fvalue \<Rightarrow> bool" where
  "mirrorable (MapValue m) =
     (hm_wf m \<and> list_all (\<lambda>(k, v). k \<noteq> VALUE_KEY \<and> mirrorable v) m)"
| "mirrorable v = True"

abbreviation mirrorable_fields :: "fields \<Rightarrow> bool" where
  "mirrorable_fields m \<equiv> mirrorable (MapValue m)"

lemma mirrorable_get: "mirrorable_fields m \<Longrightarrow> hm_get m k = Some v \<Longrightarrow> mirrorable v \<and> k \<noteq> VALUE_KEY"
  by (fastforce simp: list_all_iff dest: map_of_SomeD)

lemma bson_at_Cons:
  "ks \<noteq> [] \<Longrightarrow> bson_at d (k # ks) = (case hm_get d k of Some (BDoc d') \<Rightarrow> bson_at d' ks | _ \<Rightarrow> None)"
  by (cases ks) auto

lemma fst_key_children: "fst (key_children ((k, v) # es) path node) =
    fst (key_children es path (hm_insert k (BDoc (fst (key_node v (path @ ''.'' @ k)))) node))"
  by (simp add: case_prod_beta)

lemma fst_index_fields: "fst (index_fields ((k, v) # es) node) =
    fst (index_fields es (hm_insert k (BDoc (fst (key_node v k))) node))"
  by (simp add: case_prod_beta)

lemma key_children_get:
  "hm_wf es \<Longrightarrow> hm_get (fst (key_children es path node)) k =
     (case hm_get es k of
        Some v \<Rightarrow> Some (BDoc (fst (key_node v (path @ ''.'' @ k))))
      | None \<Rightarrow> hm_get node k)"
proof (induction es arbitrary: node)
  case (Cons e es)
  obtain l v where e: "e = (l, v)" by (cases e)
  have "hm_get es l = None" using Cons.prems e by (auto simp: map_of_eq_None_iff)
  then show ?case using Cons
    by (auto simp: e fst_key_children hm_get_insert simp del: key_children.simps split: option.splits)
qed simp

lemma index_fields_get:
  "hm_wf es \<Longrightarrow> hm_get (fst (index_fields es node)) k =
     (case hm_get es k of Some v \<Rightarrow> Some (BDoc (fst (key_node v k))) | None \<Rightarrow> hm_get node k)"
proof (induction es arbitrary: node)
  case (Cons e es)
  obtain l v where e: "e = (l, v)" by (cases e)
  have "hm_get es l = None" using Cons.prems e by (auto simp: map_of_eq_None_iff)
  then show ?case using Cons
    by (auto simp: e fst_index_fields hm_get_insert simp del: index_fields.simps split: option.splits)
qed simp

lemma key_node_self: "mirrorable v \<Longrightarrow> hm_get (fst (key_node v path)) VALUE_KEY = Some (BStr (index_string v))"
proof (cases v)
  case (MapValue m)
  assume "mirrorable v"
  moreover from this have "hm_get m VALUE_KEY = None"
    using mirrorable_get [of m VALUE_KEY] MapValue by (cases "hm_get m VALUE_KEY") auto
  ultimately show ?thesis using MapValue by (simp add: key_children_get)
qed auto

lemma key_node_child:
  "mirrorable v \<Longrightarrow> k \<noteq> VALUE_KEY \<Longrightarrow> hm_get (fst (key_node v path)) k =
     map_option (\<lambda>w. BDoc (fst (key_node w (path @ ''.'' @ k)))) (hm_get (value_map v) k)"
  by (cases v) (auto simp: key_children_get value_map_def split: option.splits)

lemma mirrorable_value_map: "mirrorable v \<Longrightarrow> mirrorable_fields (value_map v)"
  by (cases v) (auto simp: value_map_def)

lemma bson_at_node:
  "mirrorable v \<Longrightarrow> VALUE_KEY \<notin> set ks \<Longrightarrow>
   bson_at (fst (key_node v path)) (ks @ [VALUE_KEY]) =
     (if ks = [] then Some (BStr (index_string v))
      else map_option (\<lambda>w. BStr (index_string w)) (get_segments (value_map v) ks))"
proof (induction ks arbitrary: v path)
  case Nil
  then show ?case by (simp add: key_node_self)
next
  case (Cons k ks)
  then have kn: "k \<noteq> VALUE_KEY" by auto
  show ?case
  proof (cases "hm_get (value_map v) k")
    case None
    then have "get_segments (value_map v) (k # ks) = None" by (cases ks) auto
    then show ?thesis using Cons.prems None kn by (simp add: bson_at_Cons key_node_child)
  next
    case (Some w)
    then have w: "mirrorable w" using mirrorable_get mirrorable_value_map Cons.prems(1) by blast
    have "get_segments (value_map v) (k # ks) = (if ks = [] then Some w else get_segments (value_map w) ks)"
      using Some by (cases ks) (auto simp: value_map_def get_segments_Nil_map split: fvalue.splits)
    then show ?thesis using Cons.prems Some kn Cons.IH [OF w, of "path @ ''.'' @ k"]
      by (simp add: bson_at_Cons key_node_child)
  qed
qed

lemma bson_at_index:
  assumes "mirrorable_fields fs" "VALUE_KEY \<notin> set ks" "ks \<noteq> []"
  shows "bson_at (fst (index_fields fs [])) (ks @ [VALUE_KEY]) =
    map_option (\<lambda>w. BStr (index_string w)) (get_segments fs ks)"
proof (cases ks)
  case (Cons k ls)
  show ?thesis
  proof (cases "hm_get fs k")
    case None
    then have "get_segments fs (k # ls) = None" by (cases ls) auto
    then show ?thesis using assms None Cons by (simp add: bson_at_Cons index_fields_get)
  next
    case (Some w)
    then have w: "mirrorable w" using mirrorable_get assms(1) by blast
    have "get_segments fs (k # ls) = (if ls = [] then Some w else get_segments (value_map w) ls)"
      using Some by (cases ls) (auto simp: value_map_def get_segments_Nil_map split: fvalue.splits)
    then show ?thesis using assms Cons Some bson_at_node [OF w, of ls k]
      by (simp add: bson_at_Cons index_fields_get)
  qed
qed (use assms in simp)

text \<open>The element entries: one for each element of each array, at the array's path.\<close>

definition value_at :: "fvalue \<Rightarrow> string list \<Rightarrow> fvalue option" where
  "value_at v ks = (if ks = [] then Some v else get_segments (value_map v) ks)"

definition dotted :: "string list \<Rightarrow> string" where
  "dotted ks = concat (map ((#) CHR ''.'') ks)"

lemma value_at_simps:
  "value_at v [] = Some v"
  "value_at v (k # ks) = (case hm_get (value_map v) k of None \<Rightarrow> None | Some w \<Rightarrow> value_at w ks)"
  by (cases ks; auto simp: value_at_def value_map_def get_segments_Nil_map split: option.splits fvalue.splits)+

lemma set_key_children:
  "set (snd (key_children es path node)) = (\<Union>(k, v) \<in> set es. set (snd (key_node v (path @ ''.'' @ k))))"
  by (induction es arbitrary: node) (fastforce simp: case_prod_beta)+

lemma set_index_fields:
  "set (snd (index_fields es node)) = (\<Union>(k, v) \<in> set es. set (snd (key_node v k)))"
  by (induction es arbitrary: node) (fastforce simp: case_prod_beta)+

lemma vsize_entry: "(k, v) \<in> set m \<Longrightarrow> vsize v < vsize (MapValue m)"
proof -
  assume "(k, v) \<in> set m"
  then have "(\<lambda>(k, v). Suc (vsize v)) (k, v) \<in> set (map (\<lambda>(k, v). Suc (vsize v)) m)"
    by (simp only: set_map imageI)
  then show ?thesis using member_le_sum_list by fastforce
qed

lemma node_elements_iff:
  "mirrorable v \<Longrightarrow> x \<in> set (snd (key_node v path)) \<longleftrightarrow>
     (\<exists>ks vs e. value_at v ks = Some (ArrayValue vs) \<and> e \<in> set vs
       \<and> x = \<lparr>ie_path = path @ dotted ks, ie_value = index_string e\<rparr>)"
proof (induction v arbitrary: path rule: measure_induct_rule [of vsize])
  case (less v)
  show ?case
  proof (cases v)
    case (MapValue m)
    have wf: "hm_wf m" using less.prems MapValue by simp
    have ih: "x \<in> set (snd (key_node w (path @ ''.'' @ k))) \<longleftrightarrow>
        (\<exists>ks vs e. value_at w ks = Some (ArrayValue vs) \<and> e \<in> set vs
          \<and> x = \<lparr>ie_path = path @ dotted (k # ks), ie_value = index_string e\<rparr>)"
      if "hm_get m k = Some w" for k w
    proof -
      have "vsize w < vsize v" "mirrorable w"
        using vsize_entry [OF map_of_SomeD [OF that]] mirrorable_get [OF _ that] less.prems MapValue by auto
      moreover have "(path @ ''.'' @ k) @ dotted ks = path @ dotted (k # ks)" for ks
        by (simp add: dotted_def)
      ultimately show ?thesis using less.IH [of w "path @ ''.'' @ k"] by (simp only:)
    qed
    have "x \<in> set (snd (key_node v path)) \<longleftrightarrow>
        (\<exists>k w. hm_get m k = Some w \<and> x \<in> set (snd (key_node w (path @ ''.'' @ k))))"
      using MapValue wf by (auto simp: set_key_children)
    also have "\<dots> \<longleftrightarrow> (\<exists>ks vs e. value_at v ks = Some (ArrayValue vs) \<and> e \<in> set vs
       \<and> x = \<lparr>ie_path = path @ dotted ks, ie_value = index_string e\<rparr>)" (is "_ \<longleftrightarrow> ?r")
    proof
      assume "\<exists>k w. hm_get m k = Some w \<and> x \<in> set (snd (key_node w (path @ ''.'' @ k)))"
      then obtain k w ks vs e where "hm_get m k = Some w" "value_at w ks = Some (ArrayValue vs)" "e \<in> set vs"
          "x = \<lparr>ie_path = path @ dotted (k # ks), ie_value = index_string e\<rparr>"
        using ih by blast
      then show ?r using MapValue by (intro exI [of _ "k # ks"] exI [of _ vs] exI [of _ e]) (simp add: value_at_simps)
    next
      assume ?r
      then obtain ks vs e where r: "value_at v ks = Some (ArrayValue vs)" "e \<in> set vs"
          "x = \<lparr>ie_path = path @ dotted ks, ie_value = index_string e\<rparr>" by blast
      then obtain k ls where ks: "ks = k # ls" using MapValue by (cases ks) (auto simp: value_at_simps)
      then obtain w where "hm_get m k = Some w" "value_at w ls = Some (ArrayValue vs)"
        using r(1) MapValue by (auto simp: value_at_simps split: option.splits)
      then show "\<exists>k w. hm_get m k = Some w \<and> x \<in> set (snd (key_node w (path @ ''.'' @ k)))"
        using ih r ks by blast
    qed
    finally show ?thesis .
  next
    case (ArrayValue vs)
    have "value_at v ks = Some (ArrayValue us) \<longleftrightarrow> ks = [] \<and> us = vs" for ks us
      using ArrayValue by (cases ks) (auto simp: value_at_simps value_map_def)
    then show ?thesis using ArrayValue by (auto simp: dotted_def)
  qed (auto simp: value_at_def value_map_def get_segments_Nil_map split: if_splits)
qed

lemma join_dotted: "join ''.'' (k # ks) = k @ dotted ks"
  by (induction ks arbitrary: k) (auto simp: dotted_def)

text \<open>No field name holds a dot, at any depth: no component needs quoting.\<close>

fun dotless :: "fvalue \<Rightarrow> bool" where
  "dotless (MapValue m) = list_all (\<lambda>(k, v). CHR ''.'' \<notin> set k \<and> dotless v) m"
| "dotless v = True"

lemma dotless_value_at: "dotless v \<Longrightarrow> value_at v ks = Some w \<Longrightarrow> \<forall>k \<in> set ks. CHR ''.'' \<notin> set k"
proof (induction ks arbitrary: v)
  case (Cons k ks)
  then obtain u where u: "hm_get (value_map v) k = Some u" "value_at u ks = Some w"
    by (auto simp: value_at_simps split: option.splits)
  then have "dotless u \<and> CHR ''.'' \<notin> set k"
    using Cons.prems(1) by (cases v) (fastforce simp: value_map_def list_all_iff dest!: map_of_SomeD)+
  then show ?case using Cons.IH u by auto
qed simp

lemma index_elements_iff:
  assumes "mirrorable_fields fs" "dotless (MapValue fs)"
  shows "\<lparr>ie_path = p, ie_value = x\<rparr> \<in> set (snd (index_fields fs [])) \<longleftrightarrow>
    (\<exists>vs e. get_field fs p = Some (ArrayValue vs) \<and> e \<in> set vs \<and> x = index_string e)"
proof -
  have "\<lparr>ie_path = p, ie_value = x\<rparr> \<in> set (snd (index_fields fs [])) \<longleftrightarrow>
      (\<exists>k w ks vs e. hm_get fs k = Some w \<and> value_at w ks = Some (ArrayValue vs) \<and> e \<in> set vs
        \<and> p = join ''.'' (k # ks) \<and> x = index_string e)"
  proof -
    have "\<lparr>ie_path = p, ie_value = x\<rparr> \<in> set (snd (key_node w k)) \<longleftrightarrow>
        (\<exists>ks vs e. value_at w ks = Some (ArrayValue vs) \<and> e \<in> set vs \<and> p = join ''.'' (k # ks) \<and> x = index_string e)"
      if "hm_get fs k = Some w" for k w
      using node_elements_iff [of w _ k] mirrorable_get [OF assms(1) that] by (auto simp: join_dotted)
    moreover have "(k, w) \<in> set fs \<longleftrightarrow> hm_get fs k = Some w" for k w using assms(1) by simp
    ultimately show ?thesis unfolding set_index_fields by blast
  qed
  also have "\<dots> \<longleftrightarrow> (\<exists>ls vs e. ls \<noteq> [] \<and> value_at (MapValue fs) ls = Some (ArrayValue vs) \<and> e \<in> set vs
      \<and> p = join ''.'' ls \<and> x = index_string e)"
    (is "?l \<longleftrightarrow> ?m")
  proof
    assume ?l
    then obtain k w ks vs e where "hm_get fs k = Some w" "value_at w ks = Some (ArrayValue vs)" "e \<in> set vs"
        "p = join ''.'' (k # ks)" "x = index_string e" by blast
    then show ?m by (intro exI [of _ "k # ks"] exI [of _ vs] exI [of _ e]) (simp add: value_at_simps)
  next
    assume ?m
    then obtain k ks vs e where "value_at (MapValue fs) (k # ks) = Some (ArrayValue vs)" "e \<in> set vs"
        "p = join ''.'' (k # ks)" "x = index_string e" by (metis neq_Nil_conv)
    moreover from this(1) obtain w where "hm_get fs k = Some w" "value_at w ks = Some (ArrayValue vs)"
      by (auto simp: value_at_simps split: option.splits)
    ultimately show ?l by blast
  qed
  also have "\<dots> \<longleftrightarrow> (\<exists>vs e. get_field fs p = Some (ArrayValue vs) \<and> e \<in> set vs \<and> x = index_string e)"
  proof -
    have "ls = split_path p"
      if "ls \<noteq> []" "value_at (MapValue fs) ls = Some (ArrayValue vs)" "p = join ''.'' ls" for ls vs
      using dotless_value_at [OF assms(2) that(2)] that by (simp add: split_path_def split_on_join)
    moreover have "value_at (MapValue fs) (split_path p) = get_field fs p"
      by (simp add: value_at_def get_field_def)
    moreover have "join ''.'' (split_path p) = p" "split_path p \<noteq> []" by (simp_all add: split_path_def)
    ultimately show ?thesis by metis
  qed
  finally show ?thesis .
qed

section \<open>Reading back what was written\<close>

lemma mongo_laws_find:
  "mongo_laws rows mg \<Longrightarrow> find_one mg s c i = (r, s') \<Longrightarrow> rows s' = rows s \<and> (\<forall>x. r = Inr x \<longrightarrow> x = rows s c i)"
  unfolding mongo_laws_def find_law_def notice_law_def by blast

lemma mongo_laws_update:
  assumes "mongo_laws rows mg" "find_one_and_update mg s c i u t = (Inr row, s')"
  shows "row = \<lparr>row_id = i,
       row_create_time_us = (case rows s c i of Some old \<Rightarrow> row_create_time_us old | None \<Rightarrow> t),
       row_set = u\<rparr> \<and> rows s' = (rows s)(c := (rows s c)(i \<mapsto> row))"
proof -
  have "\<forall>s c i u t row s'. find_one_and_update mg s c i u t = (Inr row, s') \<longrightarrow>
        row = \<lparr>row_id = i,
          row_create_time_us = (case rows s c i of Some old \<Rightarrow> row_create_time_us old | None \<Rightarrow> t),
          row_set = u\<rparr>
        \<and> rows s' = (rows s)(c := (rows s c)(i \<mapsto> row))"
    using assms(1) unfolding mongo_laws_def update_law_def by (elim conjE)
  from this [rule_format, OF assms(2)] show ?thesis .
qed

lemma mongo_laws_update_error:
  "mongo_laws rows mg \<Longrightarrow> find_one_and_update mg s c i u t = (Inl e, s') \<Longrightarrow> rows s' = rows s"
  unfolding mongo_laws_def update_law_def delete_law_def by blast

lemma mongo_laws_delete:
  "mongo_laws rows mg \<Longrightarrow> delete_one mg s c i = (Inr n, s') \<Longrightarrow>
     n = (if rows s c i = None then 0 else 1) \<and> rows s' = (rows s)(c := (rows s c)(i := None))"
  unfolding mongo_laws_def update_law_def delete_law_def by blast

lemma mongo_laws_delete_error:
  "mongo_laws rows mg \<Longrightarrow> delete_one mg s c i = (Inl e, s') \<Longrightarrow> rows s' = rows s"
  unfolding mongo_laws_def update_law_def delete_law_def by blast

lemma mongo_laws_notice:
  "mongo_laws rows mg \<Longrightarrow> insert_notice mg s n = (r, s') \<Longrightarrow> rows s' = rows s"
  unfolding mongo_laws_def find_law_def notice_law_def by blast

text \<open>The document a row holds.\<close>

definition stored_at :: "codec \<Rightarrow> ('s \<Rightarrow> string \<Rightarrow> string \<Rightarrow> doc_row option) \<Rightarrow> 's \<Rightarrow> database_name \<Rightarrow> resource_path
    \<Rightarrow> (engine_error + stored_document) option" where
  "stored_at cd rows s database path = map_option (decode_row cd) (rows s (collection_name database) (show_path path))"

lemma set_document_effect:
  assumes "mongo_laws rows mg" "codec_law cd" "path_wf path"
    and "set_document mg cd database path fs now_us s = (r, s')"
  shows "case r of
      Inl e \<Rightarrow> rows s' = rows s
    | Inr d \<Rightarrow> sd_path d = path \<and> sd_fields d = fs \<and> update_time_us d = now_us
        \<and> create_time_us d = (case rows s (collection_name database) (show_path path) of
            Some old \<Rightarrow> row_create_time_us old | None \<Rightarrow> now_us)
        \<and> stored_at cd rows s' database path = Some (Inr d)
        \<and> (\<forall>c i. (c, i) \<noteq> (collection_name database, show_path path) \<longrightarrow> rows s' c i = rows s c i)"
proof -
  let ?c = "collection_name database" and ?i = "show_path path"
  let ?u = "\<lparr>rs_collection_path = show_path (the (parent path)),
      rs_collection_id = (case last_id (the (parent path)) of Some i \<Rightarrow> i | None \<Rightarrow> []),
      rs_update_time_us = now_us, rs_payload = encode_document cd fs,
      rs_index = index_document database path fs\<rparr>"
  obtain q t where q: "find_one_and_update mg s ?c ?i ?u now_us = (q, t)" by force
  show ?thesis
  proof (cases q)
    case (Inl e)
    then show ?thesis using assms(4) q mongo_laws_update_error [OF assms(1), of s ?c ?i ?u now_us]
      by (auto simp: set_document_def Let_def)
  next
    case (Inr row)
    note m = mongo_laws_update [OF assms(1) q [unfolded Inr]]
    have d: "decode_row cd row = Inr \<lparr>sd_path = path, create_time_us = row_create_time_us row,
        update_time_us = now_us, sd_fields = fs\<rparr>"
      using m assms(2) parse_path_show [OF assms(3)] by (simp add: decode_row_def codec_law_def)
    then have r: "r = decode_row cd row" "s' = t"
      using assms(4) q Inr by (auto simp: set_document_def Let_def)
    show ?thesis unfolding r d using m d by (auto simp: stored_at_def r)
  qed
qed

section \<open>An instance of the driver and the codec\<close>

text \<open>
  A collection held in memory that never fails, and a codec that numbers the field maps: they
  satisfy the laws, so the theorems that rest on them are not vacuous.
\<close>

instance "fvalue" :: countable
  by countable_datatype

definition map_mongo :: "(string \<Rightarrow> string \<Rightarrow> doc_row option) mongo" where
  "map_mongo = \<lparr>
     find_one = (\<lambda>s c i. (Inr (s c i), s)),
     find_one_and_update = (\<lambda>s c i u t.
       let row = \<lparr>row_id = i,
             row_create_time_us = (case s c i of Some old \<Rightarrow> row_create_time_us old | None \<Rightarrow> t),
             row_set = u\<rparr>
       in (Inr row, s(c := (s c)(i \<mapsto> row)))),
     delete_one = (\<lambda>s c i. (Inr (if s c i = None then 0 else 1), s(c := (s c)(i := None)))),
     insert_notice = (\<lambda>s n. (Inr (), s))\<rparr>"

definition numbering_codec :: codec where
  "numbering_codec = \<lparr>encode_document = (\<lambda>f. replicate (to_nat f) 0),
     decode_document = (\<lambda>bs. Some (from_nat (length bs)))\<rparr>"

lemma map_mongo_laws: "mongo_laws (\<lambda>s. s) map_mongo"
  by (auto simp: mongo_laws_def find_law_def update_law_def delete_law_def notice_law_def map_mongo_def Let_def)

lemma numbering_codec_law: "codec_law numbering_codec"
  by (simp add: codec_law_def numbering_codec_def)

section \<open>Properties\<close>

text \<open>
  C14. The index columns are exact: the \<open>keys\<close> mirror holds, at every field path, the index
  key of the value the document has there and nothing where it has none, and the element
  entries are those of the arrays of the document (for field names without dots).
\<close>

theorem index_document_exact:
  assumes "mirrorable_fields fs" "dotless (MapValue fs)" "VALUE_KEY \<notin> set (split_path p)"
  shows "bson_at (di_keys (index_document db path fs)) (split_path p @ [VALUE_KEY]) =
      map_option (\<lambda>v. BStr (index_string v)) (get_field fs p)
    \<and> (\<lparr>ie_path = p, ie_value = x\<rparr> \<in> set (di_elements (index_document db path fs)) \<longleftrightarrow>
       (\<exists>vs e. get_field fs p = Some (ArrayValue vs) \<and> e \<in> set vs \<and> x = index_string e))"
  using bson_at_index [OF assms(1,3)] index_elements_iff [OF assms(1,2), of p x]
  by (simp add: index_document_def case_prod_beta get_field_def)

definition sample_fields :: fields where
  "sample_fields = [(''m'', MapValue [(''a'', ArrayValue [IntegerValue 1])])]"

theorem index_document_exact_witness:
  "bson_at (di_keys (index_document \<lparr>project_id = ''p'', database_id = ''d''\<rparr> [''c'', ''x''] sample_fields))
      (split_path ''m.a'' @ [VALUE_KEY]) = map_option (\<lambda>v. BStr (index_string v)) (get_field sample_fields ''m.a'')
    \<and> \<lparr>ie_path = ''m.a'', ie_value = index_string (IntegerValue 1)\<rparr>
        \<in> set (di_elements (index_document \<lparr>project_id = ''p'', database_id = ''d''\<rparr> [''c'', ''x''] sample_fields))"
proof -
  have "mirrorable_fields sample_fields" "dotless (MapValue sample_fields)" "VALUE_KEY \<notin> set (split_path ''m.a'')"
    "get_field sample_fields ''m.a'' = Some (ArrayValue [IntegerValue 1])"
    by (simp_all add: sample_fields_def VALUE_KEY_def split_path_def get_field_def)
  then show ?thesis
    using index_document_exact [of sample_fields "''m.a''"
        "\<lparr>project_id = ''p'', database_id = ''d''\<rparr>" "[''c'', ''x'']" "index_string (IntegerValue 1)"]
    by simp
qed

text \<open>
  C23. Reading back what was written: after a successful \<open>set_document\<close> a successful read of
  the path in the same session gives the fields and the update time written, the create time of
  the row that was replaced or else the time of the write, and no other row has changed.
\<close>

theorem set_then_get_document:
  assumes "mongo_laws rows mg" "codec_law cd" "path_wf path"
    and "set_document mg cd database path fs now_us s = (Inr d, s1)"
    and "get_document mg cd database path s1 = (Inr r, s2)"
  shows "r = Some d \<and> sd_path d = path \<and> sd_fields d = fs \<and> update_time_us d = now_us
    \<and> create_time_us d = (case rows s (collection_name database) (show_path path) of
        Some old \<Rightarrow> row_create_time_us old | None \<Rightarrow> now_us)
    \<and> (\<forall>c i. (c, i) \<noteq> (collection_name database, show_path path) \<longrightarrow> rows s2 c i = rows s c i)"
proof -
  note e = set_document_effect [OF assms(1-4)]
  obtain q t where q: "find_one mg s1 (collection_name database) (show_path path) = (q, t)" by force
  note f = mongo_laws_find [OF assms(1) q]
  from e obtain row where row: "rows s1 (collection_name database) (show_path path) = Some row"
      "decode_row cd row = Inr d" by (auto simp: stored_at_def)
  from assms(5) q obtain x where x: "q = Inr x" by (cases q) (auto simp: get_document_def)
  with f row have "x = Some row" by simp
  with assms(5) q x row have "r = Some d" "s2 = t" by (auto simp: get_document_def)
  then show ?thesis using e f by simp
qed

theorem set_then_get_document_witness:
  "\<exists>d s1. set_document map_mongo numbering_codec \<lparr>project_id = ''p'', database_id = ''d''\<rparr>
        [''c'', ''x''] sample_fields 7 (\<lambda>_ _. None) = (Inr d, s1)
     \<and> sd_fields d = sample_fields \<and> update_time_us d = 7 \<and> create_time_us d = 7"
proof -
  let ?set = "set_document map_mongo numbering_codec \<lparr>project_id = ''p'', database_id = ''d''\<rparr>
        [''c'', ''x''] sample_fields 7 (\<lambda>_ _. None)"
  have wf: "path_wf [''c'', ''x'']" by (simp add: path_wf_def)
  obtain d s1 where set: "?set = (Inr d, s1)"
    by (force simp: set_document_def map_mongo_def Let_def decode_row_def numbering_codec_def
        parse_path_show [OF wf])
  obtain r s2 where get: "get_document map_mongo numbering_codec \<lparr>project_id = ''p'', database_id = ''d''\<rparr>
      [''c'', ''x''] s1 = (Inr r, s2)"
    using set_document_effect [OF map_mongo_laws numbering_codec_law wf set]
    by (force simp: get_document_def map_mongo_def stored_at_def)
  from set_then_get_document [OF map_mongo_laws numbering_codec_law wf set get] set show ?thesis by auto
qed

lemma strip_below_Some:
  "(case strip_prefix q p of None \<Rightarrow> None
    | Some rest \<Rightarrow> if rest \<noteq> [] \<and> CHR ''/'' \<notin> set rest then Some rest else None) = Some r
   \<longleftrightarrow> p = q @ r \<and> r \<noteq> [] \<and> CHR ''/'' \<notin> set r"
proof (cases "strip_prefix q p")
  case None
  then have "p \<noteq> q @ r" using strip_prefix_append [of q r] by auto
  then show ?thesis using None by simp
next
  case (Some t)
  then have "p = q @ t" by (simp only: strip_prefix_Some)
  then show ?thesis using Some by auto
qed

text \<open>
  \<open>list_collection_ids\<close> returns exactly the ids \<open>i\<close> for which some document's
  collection path is \<open>parent/i\<close>, each once when the driver's list is distinct.
\<close>

theorem list_collection_ids_exact:
  assumes "distinct paths"
  shows "distinct (list_collection_ids paths par)
    \<and> (i \<in> set (list_collection_ids paths par) \<longleftrightarrow>
        i \<noteq> [] \<and> CHR ''/'' \<notin> set i \<and> (if par = [] then i else show_path par @ ''/'' @ i) \<in> set paths)"
proof -
  let ?p = "if par = [] then [] else show_path par @ ''/''"
  let ?f = "\<lambda>p. case strip_prefix ?p p of None \<Rightarrow> None
    | Some rest \<Rightarrow> if rest \<noteq> [] \<and> CHR ''/'' \<notin> set rest then Some rest else None"
  note f = strip_below_Some [of ?p]
  have mem: "r \<in> set (List.map_filter ?f ps) \<longleftrightarrow> (\<exists>p \<in> set ps. ?f p = Some r)" for ps r
    by (force simp: map_filter_def)
  have "distinct (List.map_filter ?f paths)" using assms
  proof (induction paths)
    case (Cons p ps)
    show ?case
    proof (cases "?f p")
      case None
      then show ?thesis using Cons by (simp add: map_filter_simps)
    next
      case (Some r)
      then have "r \<notin> set (List.map_filter ?f ps)" using f mem Cons.prems by auto
      then show ?thesis using Cons Some by (simp add: map_filter_simps)
    qed
  qed (simp add: map_filter_simps)
  then have d: "distinct (list_collection_ids paths par)"
    by (simp add: list_collection_ids_def Let_def remdups_adj_distinct)
  have "i \<in> set (list_collection_ids paths par) \<longleftrightarrow> (\<exists>p \<in> set paths. ?f p = Some i)"
    by (simp only: list_collection_ids_def Let_def remdups_adj_set mem)
  also have "\<dots> \<longleftrightarrow> i \<noteq> [] \<and> CHR ''/'' \<notin> set i \<and> ?p @ i \<in> set paths" unfolding f by blast
  finally show ?thesis using d by auto
qed

theorem list_collection_ids_exact_witness:
  "distinct (list_collection_ids [''users'', ''users/alice/posts'', ''users/bob/posts''] [''users'', ''alice''])
    \<and> (''posts'' \<in> set (list_collection_ids [''users'', ''users/alice/posts'', ''users/bob/posts''] [''users'', ''alice'']) \<longleftrightarrow>
        ''posts'' \<noteq> [] \<and> CHR ''/'' \<notin> set ''posts''
        \<and> (if [''users'', ''alice''] = [] then ''posts'' else show_path [''users'', ''alice''] @ ''/'' @ ''posts'')
          \<in> set [''users'', ''users/alice/posts'', ''users/bob/posts''])"
  by (rule list_collection_ids_exact) simp

end
