(* ===== verification/Commit.thy ===== *)
theory Commit
  imports Store
begin

text \<open>
  \<open>commit.rs\<close>: preconditions, update masks and field transforms applied to the in-memory
  state of a document, and the commit of a batch of writes inside one MongoDB transaction.
\<close>

section \<open>Requests\<close>

datatype condition = Exists bool | UpdateTime i64 i32

datatype transform_type =
    SetToServerValue i32
  | Increment "fvalue"
  | Maximum "fvalue"
  | Minimum "fvalue"
  | AppendMissingElements "fvalue list"
  | RemoveAllFromArray "fvalue list"

record field_transform =
  field_path :: string
  transform :: "transform_type option"

record document =
  doc_name :: string
  doc_fields :: fields

record document_transform =
  dt_document :: string
  dt_field_transforms :: "field_transform list"

datatype operation =
    Update document
  | Delete string
  | Verify string
  | Transform document_transform

text \<open>\<open>current_document\<close> is the precondition message; its oneof may be unset too.\<close>

record write_req =
  operation :: "operation option"
  update_mask :: "string list option"
  update_transforms :: "field_transform list"
  current_document :: "condition option option"

section \<open>State of a document in a commit\<close>

record write_outcome =
  wo_update_time_us :: i64
  wo_transform_results :: "fvalue list"

text \<open>\<open>DocState\<close>: create time, update time and fields when the document exists.\<close>

record doc_state =
  current :: "(i64 \<times> i64 \<times> fields) option"
  before :: "stored_document option"
  dirty :: bool

section \<open>Numbers\<close>

datatype number = NumInt i64 | NumDouble f64

definition numeric :: "fvalue \<Rightarrow> number option" where
  "numeric v = (case v of
      IntegerValue i \<Rightarrow> Some (NumInt i) | DoubleValue d \<Rightarrow> Some (NumDouble d) | _ \<Rightarrow> None)"

definition increment :: "fvalue option \<Rightarrow> fvalue \<Rightarrow> engine_error + fvalue" where
  "increment cur operand =
     (case numeric operand of
        None \<Rightarrow> Inl InvalidArgument
      | Some p \<Rightarrow>
        (case Option.bind cur numeric of
           None \<Rightarrow> Inr operand
         | Some c \<Rightarrow> Inr (case (c, p) of
             (NumInt a, NumInt b) \<Rightarrow> IntegerValue (case checked_add_i64 a b of
                 Some n \<Rightarrow> n
               | None \<Rightarrow> if 0 \<le> sint b then word_of_int i64_max else word_of_int i64_min)
           | (NumInt a, NumDouble b) \<Rightarrow> DoubleValue (f64_add (f64_of_i64 a) b)
           | (NumDouble a, NumInt b) \<Rightarrow> DoubleValue (f64_add a (f64_of_i64 b))
           | (NumDouble a, NumDouble b) \<Rightarrow> DoubleValue (f64_add a b))))"

definition is_ge :: "ordering \<Rightarrow> bool" where "is_ge c \<longleftrightarrow> c \<noteq> Less"
definition is_le :: "ordering \<Rightarrow> bool" where "is_le c \<longleftrightarrow> c \<noteq> Greater"

definition max_min :: "fvalue option \<Rightarrow> fvalue \<Rightarrow> bool \<Rightarrow> engine_error + fvalue" where
  "max_min cur operand want_max =
     (case numeric operand of
        None \<Rightarrow> Inl InvalidArgument
      | Some p \<Rightarrow>
        (let operand_nan = (case p of NumDouble d \<Rightarrow> f64_is_nan d | _ \<Rightarrow> False)
         in case cur of
              None \<Rightarrow> Inr operand
            | Some c \<Rightarrow>
              (let cur_num = numeric c
               in if cur_num = None \<or> operand_nan then Inr operand
                  else if (case cur_num of Some (NumDouble d) \<Rightarrow> f64_is_nan d | _ \<Rightarrow> False) then Inr c
                  else let ord = compare_values c operand;
                           keep_current = (if want_max then is_ge ord else is_le ord)
                       in Inr (if keep_current then c else operand))))"

section \<open>Arrays\<close>

definition as_array_elements :: "fvalue option \<Rightarrow> fvalue list" where
  "as_array_elements v = (case v of Some (ArrayValue a) \<Rightarrow> a | _ \<Rightarrow> [])"

definition index_equal :: "fvalue \<Rightarrow> fvalue \<Rightarrow> bool" where
  "index_equal a b \<longleftrightarrow> encode_value a = encode_value b"

fun append_missing :: "fvalue list \<Rightarrow> fvalue list \<Rightarrow> fvalue list" where
  "append_missing elements [] = elements"
| "append_missing elements (p # ps) =
     (if \<not> list_ex (\<lambda>e. index_equal e p) elements then append_missing (elements @ [p]) ps
      else append_missing elements ps)"

definition remove_all :: "fvalue list \<Rightarrow> fvalue list \<Rightarrow> fvalue list" where
  "remove_all elements operands = filter (\<lambda>e. \<not> list_ex (\<lambda>p. index_equal e p) operands) elements"

section \<open>Transforms and writes\<close>

text \<open>\<open>div_euclid\<close> and \<open>rem_euclid\<close> by a positive divisor are \<open>div\<close> and \<open>mod\<close>.\<close>

definition server_timestamp :: "i64 \<Rightarrow> fvalue" where
  "server_timestamp now_us =
     TimestampValue (word_of_int (sint now_us div 1000000))
       (word_of_int (sint now_us mod 1000000 * 1000))"

text \<open>
  \<open>apply_transform\<close> on the fields of the current state, which its callers have set; the
  result is the transform result and the new fields.
\<close>

definition apply_transform :: "fields \<Rightarrow> field_transform \<Rightarrow> i64 \<Rightarrow> engine_error + (fvalue \<times> fields)" where
  "apply_transform fs t now_us =
     (let cur = get_field fs (field_path t);
          store = (\<lambda>result stored. Inr (result, set_field fs (field_path t) stored))
      in case transform t of
           Some (SetToServerValue _) \<Rightarrow>
             (let ts = server_timestamp now_us in store ts ts)
         | Some (Increment operand) \<Rightarrow>
             (case increment cur operand of Inl e \<Rightarrow> Inl e | Inr v \<Rightarrow> store v v)
         | Some (Maximum operand) \<Rightarrow>
             (case max_min cur operand True of Inl e \<Rightarrow> Inl e | Inr v \<Rightarrow> store v v)
         | Some (Minimum operand) \<Rightarrow>
             (case max_min cur operand False of Inl e \<Rightarrow> Inl e | Inr v \<Rightarrow> store v v)
         | Some (AppendMissingElements operands) \<Rightarrow>
             store NullValue (ArrayValue (append_missing (as_array_elements cur) operands))
         | Some (RemoveAllFromArray operands) \<Rightarrow>
             store NullValue (ArrayValue (remove_all (as_array_elements cur) operands))
         | None \<Rightarrow> Inl InvalidArgument)"

fun apply_transforms :: "fields \<Rightarrow> field_transform list \<Rightarrow> i64 \<Rightarrow> engine_error + (fvalue list \<times> fields)" where
  "apply_transforms fs [] now_us = Inr ([], fs)"
| "apply_transforms fs (t # ts) now_us =
     (case apply_transform fs t now_us of
        Inl e \<Rightarrow> Inl e
      | Inr (v, fs') \<Rightarrow>
        (case apply_transforms fs' ts now_us of
           Inl e \<Rightarrow> Inl e
         | Inr (vs, fs'') \<Rightarrow> Inr (v # vs, fs'')))"

text \<open>
  The \<open>UpdateTime\<close> arithmetic is on \<open>i64\<close> and wraps in a release build; integer division
  truncates towards zero.
\<close>

definition trunc_div :: "int \<Rightarrow> int \<Rightarrow> int" where
  "trunc_div a b = sgn a * sgn b * (\<bar>a\<bar> div \<bar>b\<bar>)"

definition expected_update_us :: "i64 \<Rightarrow> i32 \<Rightarrow> i64" where
  "expected_update_us seconds nanos = seconds * 1000000 + word_of_int (trunc_div (sint nanos) 1000)"

definition check_precondition :: "write_req \<Rightarrow> doc_state \<Rightarrow> engine_error + unit" where
  "check_precondition w st =
     (case current_document w of
        None \<Rightarrow> Inr ()
      | Some condition_type \<Rightarrow>
        (let exists = (current st \<noteq> None)
         in case condition_type of
              Some (Exists b) \<Rightarrow>
                if b \<and> \<not> exists then Inl NotFound
                else if \<not> b \<and> exists then Inl AlreadyExists
                else Inr ()
            | Some (UpdateTime seconds nanos) \<Rightarrow>
                (case current st of
                   Some (_, update_us, _) \<Rightarrow>
                     if update_us = expected_update_us seconds nanos then Inr () else Inl FailedPrecondition
                 | None \<Rightarrow> Inl NotFound)
            | None \<Rightarrow> Inr ()))"

text \<open>The mask loop: each path is set from the update document, or deleted when absent there.\<close>

definition merge_field :: "fields \<Rightarrow> string \<Rightarrow> fields \<Rightarrow> fields" where
  "merge_field src p fs =
     (case get_field src p of Some v \<Rightarrow> set_field fs p v | None \<Rightarrow> delete_field fs p)"

definition merge_mask :: "fields \<Rightarrow> string list \<Rightarrow> fields \<Rightarrow> fields" where
  "merge_mask src paths fs = fold (merge_field src) paths fs"

text \<open>
  \<open>apply_write\<close>; \<open>op\<close> is the operation, present since \<open>write_target\<close> has succeeded.
  The last step stamps the update time of whatever is there, whichever the operation was.
\<close>

definition apply_write :: "write_req \<Rightarrow> operation \<Rightarrow> doc_state \<Rightarrow> i64 \<Rightarrow> engine_error + (write_outcome \<times> doc_state)" where
  "apply_write w op st now_us =
     (let finish = (\<lambda>results st'. Inr (\<lparr>wo_update_time_us = now_us, wo_transform_results = results\<rparr>,
            st'\<lparr>current := map_option (\<lambda>(c, _, f). (c, now_us, f)) (current st')\<rparr>))
      in case check_precondition w st of
           Inl e \<Rightarrow> Inl e
         | Inr _ \<Rightarrow>
           (case op of
              Update doc \<Rightarrow>
                (let (create, fs) =
                   (case update_mask w of
                      None \<Rightarrow>
                        (case current st of Some (c, _) \<Rightarrow> c | None \<Rightarrow> now_us, doc_fields doc)
                    | Some paths \<Rightarrow>
                        (let (create, fs) =
                           (case current st of Some (c, _, f) \<Rightarrow> (c, f) | None \<Rightarrow> (now_us, []))
                         in (create, merge_mask (doc_fields doc) paths fs)))
                 in case apply_transforms fs (update_transforms w) now_us of
                      Inl e \<Rightarrow> Inl e
                    | Inr (results, fs') \<Rightarrow>
                        finish results (st\<lparr>current := Some (create, now_us, fs'), dirty := True\<rparr>))
            | Delete _ \<Rightarrow> finish [] (st\<lparr>current := None, dirty := True\<rparr>)
            | Verify _ \<Rightarrow> finish [] st
            | Transform t \<Rightarrow>
                (let (create, update, fs) =
                   (case current st of Some cur \<Rightarrow> cur | None \<Rightarrow> (now_us, now_us, []))
                 in case apply_transforms fs (dt_field_transforms t) now_us of
                      Inl e \<Rightarrow> Inl e
                    | Inr (results, fs') \<Rightarrow>
                        finish results (st\<lparr>current := Some (create, update, fs'), dirty := True\<rparr>))))"

definition write_target :: "database_name \<Rightarrow> write_req \<Rightarrow> engine_error + resource_path" where
  "write_target database w =
     (case operation w of
        None \<Rightarrow> Inl InvalidArgument
      | Some op \<Rightarrow>
        (case parse_document (case op of
             Update doc \<Rightarrow> doc_name doc | Delete n \<Rightarrow> n | Verify n \<Rightarrow> n | Transform t \<Rightarrow> dt_document t) of
           Inl e \<Rightarrow> Inl e
         | Inr parsed \<Rightarrow>
             if rn_database parsed \<noteq> database then Inl InvalidArgument else Inr (rn_path parsed)))"

section \<open>One attempt inside a transaction\<close>

record document_delta =
  dd_path :: resource_path
  dd_before :: "stored_document option"
  dd_after :: "stored_document option"

record commit_applied =
  outcomes :: "write_outcome list"
  changes :: "document_delta list"

text \<open>Load each distinct target once; the states are keyed by the printed path.\<close>

fun load_states ::
  "'s mongo \<Rightarrow> codec \<Rightarrow> database_name \<Rightarrow> write_req list \<Rightarrow> (string \<times> doc_state) list \<Rightarrow> 's
     \<Rightarrow> (engine_error + (string \<times> doc_state) list) \<times> 's"
where
  "load_states mg cd database [] states s = (Inr states, s)"
| "load_states mg cd database (w # ws) states s =
     (case write_target database w of
        Inl e \<Rightarrow> (Inl e, s)
      | Inr path \<Rightarrow>
        (case hm_get states (show_path path) of
           Some _ \<Rightarrow> load_states mg cd database ws states s
         | None \<Rightarrow>
           (case get_document mg cd database path s of
              (Inl e, s') \<Rightarrow> (Inl e, s')
            | (Inr loaded, s') \<Rightarrow>
              (let st = \<lparr>current = map_option (\<lambda>d. (create_time_us d, update_time_us d, sd_fields d)) loaded,
                     before = loaded, dirty = False\<rparr>
               in load_states mg cd database ws (hm_insert (show_path path) st states) s'))))"

text \<open>Apply the writes in order; the state of a target is there, since it was loaded.\<close>

fun apply_writes ::
  "database_name \<Rightarrow> i64 \<Rightarrow> write_req list \<Rightarrow> (string \<times> doc_state) list
     \<Rightarrow> engine_error + (write_outcome list \<times> (string \<times> doc_state) list)"
where
  "apply_writes database now_us [] states = Inr ([], states)"
| "apply_writes database now_us (w # ws) states =
     (case write_target database w of
        Inl e \<Rightarrow> Inl e
      | Inr path \<Rightarrow>
        (case apply_write w (the (operation w)) (the (hm_get states (show_path path))) now_us of
           Inl e \<Rightarrow> Inl e
         | Inr (outcome, st) \<Rightarrow>
           (case apply_writes database now_us ws (hm_insert (show_path path) st states) of
              Inl e \<Rightarrow> Inl e
            | Inr (os, states') \<Rightarrow> Inr (outcome # os, states'))))"

text \<open>Persist the final state of every dirty target, at its first write.\<close>

fun persist_states ::
  "'s mongo \<Rightarrow> codec \<Rightarrow> database_name \<Rightarrow> i64 \<Rightarrow> write_req list \<Rightarrow> (string \<times> doc_state) list \<Rightarrow> 's
     \<Rightarrow> (engine_error + document_delta list) \<times> 's"
where
  "persist_states mg cd database now_us [] states s = (Inr [], s)"
| "persist_states mg cd database now_us (w # ws) states s =
     (case write_target database w of
        Inl e \<Rightarrow> (Inl e, s)
      | Inr path \<Rightarrow>
        (let key = show_path path; st = the (hm_get states key)
         in if \<not> dirty st then persist_states mg cd database now_us ws states s
            else
              (let states' = hm_insert key (st\<lparr>dirty := False\<rparr>) states
               in case current st of
                    Some (_, _, fs) \<Rightarrow>
                      (case set_document mg cd database path fs now_us s of
                         (Inl e, s') \<Rightarrow> (Inl e, s')
                       | (Inr stored, s') \<Rightarrow>
                         (case persist_states mg cd database now_us ws states' s' of
                            (Inl e, s'') \<Rightarrow> (Inl e, s'')
                          | (Inr ds, s'') \<Rightarrow>
                              (Inr (\<lparr>dd_path = path, dd_before = before st, dd_after = Some stored\<rparr> # ds), s'')))
                  | None \<Rightarrow>
                      (case delete_document mg database path s of
                         (Inl e, s') \<Rightarrow> (Inl e, s')
                       | (Inr _, s') \<Rightarrow>
                         (case persist_states mg cd database now_us ws states' s' of
                            (Inl e, s'') \<Rightarrow> (Inl e, s'')
                          | (Inr ds, s'') \<Rightarrow>
                              (Inr (\<lparr>dd_path = path, dd_before = before st, dd_after = None\<rparr> # ds), s''))))))"

definition apply_in_transaction ::
  "'s mongo \<Rightarrow> codec \<Rightarrow> string \<Rightarrow> database_name \<Rightarrow> write_req list \<Rightarrow> i64 \<Rightarrow> 's
     \<Rightarrow> (engine_error + commit_applied) \<times> 's"
where
  "apply_in_transaction mg cd instance_id database ws now_us s =
     (case load_states mg cd database ws [] s of
        (Inl e, s1) \<Rightarrow> (Inl e, s1)
      | (Inr states, s1) \<Rightarrow>
        (case apply_writes database now_us ws states of
           Inl e \<Rightarrow> (Inl e, s1)
         | Inr (os, states') \<Rightarrow>
           (case persist_states mg cd database now_us ws states' s1 of
              (Inl e, s2) \<Rightarrow> (Inl e, s2)
            | (Inr ds, s2) \<Rightarrow>
              (let applied = \<lparr>outcomes = os, changes = ds\<rparr>
               in if ds \<noteq> [] then
                    (case append_commit_notice mg instance_id database now_us (map (\<lambda>d. show_path (dd_path d)) ds) s2 of
                       (Inl e, s3) \<Rightarrow> (Inl e, s3)
                     | (Inr _, s3) \<Rightarrow> (Inr applied, s3))
                  else (Inr applied, s2)))))"

section \<open>The retry loop\<close>

text \<open>
  The session's transaction calls are parameters: a session over a database state \<open>'d\<close>.
  \<open>commit_transaction\<close> of the driver answers with success or an error and whether the error
  is labelled as an unknown outcome.
\<close>

datatype commit_answer = Committed | UnknownResult engine_error | CommitFailed engine_error

record ('d, 's) session_ops =
  start_transaction :: "'d \<Rightarrow> (engine_error + 's) \<times> 'd"
  driver_commit :: "'s \<Rightarrow> 'd \<Rightarrow> commit_answer \<times> 'd"
  abort_transaction :: "'s \<Rightarrow> 'd \<Rightarrow> 'd"

definition MAX_TRANSACTION_ATTEMPTS :: nat where "MAX_TRANSACTION_ATTEMPTS = 10"
definition MAX_COMMIT_ATTEMPTS :: nat where "MAX_COMMIT_ATTEMPTS = 3"

definition is_transient :: "engine_error \<Rightarrow> bool" where
  "is_transient e \<longleftrightarrow> e = Mongo True"

text \<open>\<open>n\<close> attempts are left, \<open>prev\<close> is the last unknown outcome.\<close>

fun commit_loop :: "('d, 's) session_ops \<Rightarrow> 's \<Rightarrow> nat \<Rightarrow> engine_error option \<Rightarrow> 'd \<Rightarrow> (engine_error + unit) \<times> 'd" where
  "commit_loop ops sess 0 prev d = (Inl (case prev of Some e \<Rightarrow> e | None \<Rightarrow> Aborted), d)"
| "commit_loop ops sess (Suc n) prev d =
     (case driver_commit ops sess d of
        (Committed, d') \<Rightarrow> (Inr (), d')
      | (UnknownResult e, d') \<Rightarrow> commit_loop ops sess n (Some e) d'
      | (CommitFailed e, d') \<Rightarrow> (Inl e, d'))"

definition commit_transaction :: "('d, 's) session_ops \<Rightarrow> 's \<Rightarrow> 'd \<Rightarrow> (engine_error + unit) \<times> 'd" where
  "commit_transaction ops sess d = commit_loop ops sess MAX_COMMIT_ATTEMPTS None d"

fun commit_attempts ::
  "('d, 's) session_ops \<Rightarrow> ('s \<Rightarrow> (engine_error + commit_applied) \<times> 's) \<Rightarrow> nat \<Rightarrow> 'd
     \<Rightarrow> (engine_error + commit_applied) \<times> 'd"
where
  "commit_attempts ops attempt 0 d = (Inl Aborted, d)"
| "commit_attempts ops attempt (Suc n) d =
     (case start_transaction ops d of
        (Inl e, d1) \<Rightarrow> (Inl e, d1)
      | (Inr sess, d1) \<Rightarrow>
        (case attempt sess of
           (Inl e, sess') \<Rightarrow>
             (let d2 = abort_transaction ops sess' d1
              in if is_transient e then commit_attempts ops attempt n d2 else (Inl e, d2))
         | (Inr applied, sess') \<Rightarrow>
           (case commit_transaction ops sess' d1 of
              (Inr _, d2) \<Rightarrow> (Inr applied, d2)
            | (Inl e, d2) \<Rightarrow>
                if is_transient e then commit_attempts ops attempt n d2 else (Inl e, d2))))"

definition apply_commit ::
  "('d, 's) session_ops \<Rightarrow> 's mongo \<Rightarrow> codec \<Rightarrow> string \<Rightarrow> database_name \<Rightarrow> write_req list \<Rightarrow> i64 \<Rightarrow> 'd
     \<Rightarrow> (engine_error + commit_applied) \<times> 'd"
where
  "apply_commit ops mg cd instance_id database ws now_us d =
     commit_attempts ops (apply_in_transaction mg cd instance_id database ws now_us)
       MAX_TRANSACTION_ATTEMPTS d"

end
