(* ===== verification/Txn.thy ===== *)
theory Txn
  imports Commit
begin

text \<open>
  \<open>txn.rs\<close>: the table of server-side transactions and the validation of their read sets.
  \<open>Instant\<close> is a number of nanoseconds; the clock does not move during one call of the manager,
  so the instant and \<open>Instant::now().elapsed()\<close> are arguments.
\<close>

section \<open>The table of transactions\<close>

type_synonym token = "u8 list"

record txn_state =
  tx_database :: database_name
  tx_read_only :: bool
  read_versions :: "(string \<times> i64) list"
  expires_at :: nat

record txn_manager =
  counter :: u64
  active :: "(token \<times> txn_state) list"

definition TXN_LIFETIME :: nat where "TXN_LIFETIME = 60 * 10 ^ 9"

definition empty_manager :: txn_manager where
  "empty_manager = \<lparr>counter = 0, active = []\<rparr>"

text \<open>\<open>to_be_bytes\<close> of the identifier and the low eight bytes of the elapsed nanoseconds.\<close>

definition make_token :: "u64 \<Rightarrow> 128 word \<Rightarrow> token" where
  "make_token txn_id elapsed = be_bytes 8 txn_id @ drop 8 (be_bytes 16 elapsed)"

definition begin_txn :: "nat \<Rightarrow> 128 word \<Rightarrow> database_name \<Rightarrow> bool \<Rightarrow> txn_manager \<Rightarrow> token \<times> txn_manager" where
  "begin_txn now elapsed database read_only mgr =
     (let txn_id = counter mgr + 1;
          token = make_token txn_id elapsed;
          kept = filter (\<lambda>(_, t). now < expires_at t) (active mgr);
          state = \<lparr>tx_database = database, tx_read_only = read_only, read_versions = [],
                   expires_at = now + TXN_LIFETIME\<rparr>
      in (token, mgr\<lparr>counter := txn_id, active := hm_insert token state kept\<rparr>))"

definition record_read :: "token \<Rightarrow> string \<Rightarrow> i64 \<Rightarrow> txn_manager \<Rightarrow> txn_manager" where
  "record_read token path version_us mgr =
     (case hm_get (active mgr) token of
        None \<Rightarrow> mgr
      | Some state \<Rightarrow>
          if hm_get (read_versions state) path \<noteq> None then mgr
          else mgr\<lparr>active := hm_insert token
                     (state\<lparr>read_versions := hm_insert path version_us (read_versions state)\<rparr>) (active mgr)\<rparr>)"

text \<open>\<open>take\<close>: the transaction is removed before its expiry and database are looked at.\<close>

definition take_txn :: "nat \<Rightarrow> token \<Rightarrow> database_name \<Rightarrow> txn_manager \<Rightarrow> (engine_error + txn_state) \<times> txn_manager" where
  "take_txn now token database mgr =
     (case hm_get (active mgr) token of
        None \<Rightarrow> (Inl Aborted, mgr)
      | Some state \<Rightarrow>
          (let mgr = mgr\<lparr>active := hm_remove token (active mgr)\<rparr>
           in if expires_at state \<le> now then (Inl Aborted, mgr)
              else if tx_database state \<noteq> database then (Inl InvalidArgument, mgr)
              else (Inr state, mgr)))"

definition rollback_txn :: "token \<Rightarrow> txn_manager \<Rightarrow> txn_manager" where
  "rollback_txn token mgr = mgr\<lparr>active := hm_remove token (active mgr)\<rparr>"

section \<open>Read sets\<close>

definition observed_version :: "stored_document option \<Rightarrow> i64" where
  "observed_version found = (case found of Some d \<Rightarrow> update_time_us d | None \<Rightarrow> 0)"

text \<open>The source iterates over a \<open>HashMap\<close>: any order of the entries.\<close>

fun validate_read_set ::
  "'s mongo \<Rightarrow> codec \<Rightarrow> database_name \<Rightarrow> (string \<times> i64) list \<Rightarrow> 's \<Rightarrow> (engine_error + unit) \<times> 's" where
  "validate_read_set mg cd database [] s = (Inr (), s)"
| "validate_read_set mg cd database ((path, observed_us) # rest) s =
     (case parse_path path of
        Inl e \<Rightarrow> (Inl e, s)
      | Inr parsed \<Rightarrow>
          (case get_document mg cd database parsed s of
             (Inl e, s) \<Rightarrow> (Inl e, s)
           | (Inr found, s) \<Rightarrow>
               if observed_version found \<noteq> observed_us then (Inl Aborted, s)
               else validate_read_set mg cd database rest s))"

section \<open>Tokens\<close>

lemma be_bytes_inject:
  assumes "be_bytes 8 v = be_bytes 8 w"
  shows "v = (w :: u64)"
proof -
  have "ord_cmp (unat v mod 256 ^ 8) (unat w mod 256 ^ 8) = Equal"
    using be_bytes_order [of 8 v w] assms by simp
  then have "unat v mod 256 ^ 8 = unat w mod 256 ^ 8" by simp
  moreover have "unat x mod 256 ^ 8 = unat x" for x :: u64
  proof -
    have "unat x < 2 ^ LENGTH(64)" by (rule unsigned_less)
    then show ?thesis by simp
  qed
  ultimately have "unat v = unat w" by simp
  then show ?thesis by (rule unsigned_word_eqI)
qed

lemma make_token_inject: "make_token i e = make_token j e' \<Longrightarrow> i = j"
  unfolding make_token_def by (rule be_bytes_inject) (simp del: be_bytes.simps)

lemma unat_next: "c \<noteq> - 1 \<Longrightarrow> unat (c + 1) = unat c + 1" for c :: u64
proof -
  assume "c \<noteq> - 1"
  then have "c + 1 \<noteq> 0" by (metis add.inverse_unique add.commute)
  then show ?thesis by (simp add: unat_plus_simple [symmetric] unatSuc [of c] add.commute)
qed

section \<open>What a transaction keeps\<close>

text \<open>
  \<open>handed_out\<close>: the token has an identifier the counter has passed.  \<open>carries\<close> relates two
  tables in which such a token is still the same transaction: it kept its database, mode and
  expiry and every version it had recorded, and it is not active again once it was gone.
\<close>

definition txns_wf :: "txn_manager \<Rightarrow> bool" where
  "txns_wf mgr \<longleftrightarrow> distinct (map fst (active mgr))"

definition handed_out :: "token \<Rightarrow> txn_manager \<Rightarrow> bool" where
  "handed_out token mgr \<longleftrightarrow> (\<exists>i e. token = make_token i e \<and> unat i \<le> unat (counter mgr))"

definition same_txn :: "txn_state \<Rightarrow> txn_state \<Rightarrow> bool" where
  "same_txn t t' \<longleftrightarrow> tx_database t' = tx_database t \<and> tx_read_only t' = tx_read_only t
     \<and> expires_at t' = expires_at t \<and> map_of (read_versions t) \<subseteq>\<^sub>m map_of (read_versions t')"

definition carries :: "token \<Rightarrow> txn_manager \<Rightarrow> txn_manager \<Rightarrow> bool" where
  "carries token m m' \<longleftrightarrow>
     (txns_wf m \<and> handed_out token m \<longrightarrow>
        txns_wf m' \<and> handed_out token m'
        \<and> (\<forall>t'. hm_get (active m') token = Some t' \<longrightarrow> (\<exists>t. hm_get (active m) token = Some t \<and> same_txn t t')))"

lemma same_txn_refl [simp]: "same_txn t t"
  by (simp add: same_txn_def)

lemma same_txn_trans: "same_txn t t' \<Longrightarrow> same_txn t' t'' \<Longrightarrow> same_txn t t''"
  by (auto simp: same_txn_def intro: map_le_trans)

lemma carries_refl [simp]: "carries token m m"
  by (auto simp: carries_def)

lemma carries_trans: "carries token m m' \<Longrightarrow> carries token m' m'' \<Longrightarrow> carries token m m''"
  unfolding carries_def by (meson same_txn_trans)

lemma map_of_filter_Some:
  "distinct (map fst m) \<Longrightarrow> map_of (filter (\<lambda>(_, v). P v) m) k = Some v \<longleftrightarrow> map_of m k = Some v \<and> P v"
  by (induction m) (auto simp: rev_image_eqI dest: map_of_SomeD)

lemma begin_txn_result:
  assumes "begin_txn now elapsed database ro mgr = (token, mgr')"
  shows "token = make_token (counter mgr + 1) elapsed" "counter mgr' = counter mgr + 1"
    "active mgr' = hm_insert token
       \<lparr>tx_database = database, tx_read_only = ro, read_versions = [], expires_at = now + TXN_LIFETIME\<rparr>
       (filter (\<lambda>(_, s). now < expires_at s) (active mgr))"
  using assms by (auto simp: begin_txn_def Let_def)

lemma begin_txn_fresh:
  assumes "counter mgr \<noteq> - 1" "begin_txn now elapsed database ro mgr = (token, mgr')"
  shows "\<not> handed_out token mgr" "handed_out token mgr'"
  using make_token_inject begin_txn_result(1,2) [OF assms(2)] unat_next [OF assms(1)]
  by (auto simp: handed_out_def, fastforce+)

lemma begin_txn_carries:
  assumes "counter mgr \<noteq> - 1" "begin_txn now elapsed database ro mgr = (fresh, mgr')"
  shows "carries token mgr mgr'"
proof (cases "txns_wf mgr \<and> handed_out token mgr")
  case True
  then have ne: "token \<noteq> fresh" using begin_txn_fresh [OF assms] by blast
  have d: "distinct (map fst (active mgr))" using True by (simp add: txns_wf_def)
  then have "txns_wf mgr'" using begin_txn_result(3) [OF assms(2)]
    by (simp add: txns_wf_def distinct_update distinct_map_filter)
  moreover have "handed_out token mgr'"
    using True begin_txn_result(2) [OF assms(2)] unat_next [OF assms(1)] by (fastforce simp: handed_out_def)
  moreover have "hm_get (active mgr') token = Some t' \<Longrightarrow> hm_get (active mgr) token = Some t'" for t'
    using ne begin_txn_result(3) [OF assms(2)] by (simp add: update_conv map_of_filter_Some [OF d])
  ultimately show ?thesis by (auto simp: carries_def)
qed (auto simp: carries_def)

lemma record_read_carries: "carries token mgr (record_read tok path v mgr)"
proof (cases "hm_get (active mgr) tok")
  case (Some t)
  define t1 where "t1 = t\<lparr>read_versions := hm_insert path v (read_versions t)\<rparr>"
  show ?thesis
  proof (cases "hm_get (read_versions t) path")
    case None
    then have m: "record_read tok path v mgr = mgr\<lparr>active := hm_insert tok t1 (active mgr)\<rparr>"
      by (simp add: record_read_def Some t1_def)
    have "same_txn t t1" using None by (auto simp: same_txn_def t1_def map_le_def update_conv)
    then show ?thesis
      using Some by (auto simp: carries_def m txns_wf_def handed_out_def update_conv distinct_update
        simp del: map_of_eq_Some_iff split: if_splits)
  qed (simp add: record_read_def Some)
qed (simp add: record_read_def)

lemma remove_carries:
  "carries token mgr (mgr\<lparr>active := hm_remove tok (active mgr)\<rparr>)"
  by (auto simp: carries_def txns_wf_def handed_out_def delete_conv distinct_delete split: if_splits)

lemma take_txn_carries: "take_txn now tok database mgr = (r, mgr') \<Longrightarrow> carries token mgr mgr'"
  using remove_carries [of token mgr tok]
  by (auto simp: take_txn_def Let_def split: option.splits if_splits)

lemma rollback_txn_carries: "carries token mgr (rollback_txn tok mgr)"
  unfolding rollback_txn_def by (rule remove_carries)

lemma record_read_get:
  assumes "hm_get (active mgr) token = Some t"
  shows "\<exists>t'. hm_get (active (record_read token path v mgr)) token = Some t'
    \<and> same_txn t t' \<and> (hm_get (read_versions t) path = None \<longrightarrow> hm_get (read_versions t') path = Some v)"
  using assms by (auto simp: record_read_def same_txn_def update_conv map_le_def)

lemma take_txn_Inr:
  "take_txn now token database mgr = (Inr t, mgr') \<Longrightarrow>
     hm_get (active mgr) token = Some t \<and> tx_database t = database \<and> now < expires_at t
     \<and> hm_get (active mgr') token = None"
  by (auto simp: take_txn_def Let_def delete_conv split: option.splits if_splits)

section \<open>What a read set says of the store\<close>

text \<open>The version a transaction would observe now: none if the row does not decode.\<close>

definition version_at ::
  "codec \<Rightarrow> ('s \<Rightarrow> string \<Rightarrow> string \<Rightarrow> doc_row option) \<Rightarrow> 's \<Rightarrow> database_name \<Rightarrow> string \<Rightarrow> i64 option" where
  "version_at cd rows s database path =
     (case parse_path path of
        Inl _ \<Rightarrow> None
      | Inr parsed \<Rightarrow>
          (case stored_at cd rows s database parsed of
             None \<Rightarrow> Some 0 | Some (Inl _) \<Rightarrow> None | Some (Inr d) \<Rightarrow> Some (update_time_us d)))"

lemma get_document_rows:
  "find_law rows mg \<Longrightarrow> get_document mg cd database path s = (r, s') \<Longrightarrow> rows s' = rows s"
  by (auto simp: get_document_def find_law_def split: prod.splits sum.splits option.splits)

lemma validate_read_set_Inr:
  assumes "find_law rows mg" "validate_read_set mg cd database entries s = (Inr (), s')"
  shows "rows s' = rows s \<and> (\<forall>(path, v) \<in> set entries. version_at cd rows s database path = Some v)"
  using assms(2)
proof (induction entries arbitrary: s)
  case (Cons entry rest)
  obtain path v where e: "entry = (path, v)" by fastforce
  from Cons.prems obtain parsed where p: "parse_path path = Inr parsed" by (auto simp: e split: sum.splits)
  from Cons.prems obtain found s1 where g: "get_document mg cd database parsed s = (Inr found, s1)"
    and v: "observed_version found = v" and r: "validate_read_set mg cd database rest s1 = (Inr (), s')"
    by (auto simp: e p split: prod.splits sum.splits if_splits)
  have s1: "rows s1 = rows s" and f: "map_option (decode_row cd) (rows s (collection_name database) (show_path parsed))
      = map_option Inr found"
    using g assms(1) by (auto simp: get_document_def find_law_def map_sum_def split: prod.splits sum.splits option.splits)
  have "stored_at cd rows s database parsed = map_option Inr found" using f by (simp add: stored_at_def)
  then have "version_at cd rows s database path = Some v"
    using v by (cases found) (auto simp: version_at_def p observed_version_def)
  moreover have "version_at cd rows s1 database q = version_at cd rows s database q" for q
    unfolding version_at_def stored_at_def s1 ..
  ultimately show ?case using Cons.IH [OF r] by (simp add: e s1)
qed simp

lemma validate_read_set_rows:
  assumes "find_law rows mg"
  shows "rows (snd (validate_read_set mg cd database entries s)) = rows s"
proof (induction entries arbitrary: s)
  case (Cons entry rest)
  show ?case using Cons.IH get_document_rows [OF assms] by (cases entry) (auto split: sum.split prod.split)
qed simp

end
