(* ===== verification/Fanout.thy ===== *)
theory Fanout
  imports Commit
begin

text \<open>
  \<open>fanout.rs\<close> and the event types of \<open>watch.rs\<close>: what an instance publishes of the commit notices
  that the change stream delivers.  The stream itself, its resumption and the waits are the
  driver's; a run of it is the list of the documents it delivered.
\<close>

datatype event_origin = Local | Remote

record commit_event =
  ce_database :: database_name
  ce_changes :: "document_delta list"
  ce_commit_us :: i64
  ce_origin :: event_origin

text \<open>
  One path of a notice: a path that does not parse and a document that cannot be read are
  logged and skipped; a missing document was deleted.
\<close>

definition rebuild_change ::
  "'s mongo \<Rightarrow> codec \<Rightarrow> database_name \<Rightarrow> string \<Rightarrow> 's \<Rightarrow> document_delta option \<times> 's" where
  "rebuild_change mg cd database raw s =
     (case parse_path raw of
        Inl _ \<Rightarrow> (None, s)
      | Inr path \<Rightarrow>
          (case get_document mg cd database path s of
             (Inl _, s) \<Rightarrow> (None, s)
           | (Inr after, s) \<Rightarrow> (Some \<lparr>dd_path = path, dd_before = None, dd_after = after\<rparr>, s)))"

fun rebuild_changes ::
  "'s mongo \<Rightarrow> codec \<Rightarrow> database_name \<Rightarrow> string list \<Rightarrow> 's \<Rightarrow> document_delta list \<times> 's" where
  "rebuild_changes mg cd database [] s = ([], s)"
| "rebuild_changes mg cd database (raw # raws) s =
     (let (delta, s) = rebuild_change mg cd database raw s;
          (rest, s) = rebuild_changes mg cd database raws s
      in (case delta of Some d \<Rightarrow> d # rest | None \<Rightarrow> rest, s))"

definition rebuild :: "'s mongo \<Rightarrow> codec \<Rightarrow> commit_notice \<Rightarrow> 's \<Rightarrow> commit_event option \<times> 's" where
  "rebuild mg cd notice s =
     (let database = \<lparr>project_id = cn_project_id notice, database_id = cn_database_id notice\<rparr>;
          (deltas, s) = rebuild_changes mg cd database (cn_paths notice) s
      in (if deltas = [] then None
          else Some \<lparr>ce_database = database, ce_changes = deltas, ce_commit_us = cn_commit_us notice, ce_origin = Remote\<rparr>, s))"

text \<open>
  The loop over the stream; \<open>None\<close> is a change without a full document.  Notices of this
  instance went out when it committed.
\<close>

fun tail_notices ::
  "'s mongo \<Rightarrow> codec \<Rightarrow> string \<Rightarrow> commit_notice option list \<Rightarrow> 's \<Rightarrow> commit_event list \<times> 's" where
  "tail_notices mg cd instance_id [] s = ([], s)"
| "tail_notices mg cd instance_id (None # rest) s = tail_notices mg cd instance_id rest s"
| "tail_notices mg cd instance_id (Some notice # rest) s =
     (if cn_instance notice = instance_id then tail_notices mg cd instance_id rest s
      else
        (let (event, s) = rebuild mg cd notice s;
             (events, s) = tail_notices mg cd instance_id rest s
         in (case event of Some e \<Rightarrow> e # events | None \<Rightarrow> events, s)))"

end
