(* ===== verification/Decimal.thy ===== *)
theory Decimal
  imports Strings
begin

text \<open>
  Decimal notation as Rust's formatting writes it (\<open>to_string\<close>, \<open>format!\<close>) and as
  \<open>str::parse::<i64>\<close> reads it: an optional sign, at least one digit, no value outside the
  64-bit range.
\<close>

section \<open>Printing\<close>

definition digit_char :: "nat \<Rightarrow> char" where
  "digit_char n = char_of (48 + n)"

fun show_nat :: "nat \<Rightarrow> string" where
  "show_nat n = (if n < 10 then [digit_char n] else show_nat (n div 10) @ [digit_char (n mod 10)])"

declare show_nat.simps [simp del]

definition show_int :: "int \<Rightarrow> string" where
  "show_int i = (if i < 0 then CHR ''-'' # show_nat (nat (- i)) else show_nat (nat i))"

section \<open>Parsing\<close>

definition is_ascii_digit :: "char \<Rightarrow> bool" where
  "is_ascii_digit c \<longleftrightarrow> 48 \<le> (of_char c :: nat) \<and> (of_char c :: nat) \<le> 57"

definition digit_value :: "char \<Rightarrow> nat" where
  "digit_value c = of_char c - 48"

fun parse_digits :: "nat \<Rightarrow> string \<Rightarrow> nat option" where
  "parse_digits n [] = Some n"
| "parse_digits n (c # cs) = (if is_ascii_digit c then parse_digits (10 * n + digit_value c) cs else None)"

definition parse_nat :: "string \<Rightarrow> nat option" where
  "parse_nat s = (if s = [] then None else parse_digits 0 s)"

definition to_i64 :: "int \<Rightarrow> i64 option" where
  "to_i64 n = (if in_i64 n then Some (word_of_int n) else None)"

definition parse_i64 :: "string \<Rightarrow> i64 option" where
  "parse_i64 s =
     (case s of
        c # cs \<Rightarrow>
          if c = CHR ''-'' then Option.bind (parse_nat cs) (\<lambda>n. to_i64 (- int n))
          else if c = CHR ''+'' then Option.bind (parse_nat cs) (\<lambda>n. to_i64 (int n))
          else Option.bind (parse_nat s) (\<lambda>n. to_i64 (int n))
      | [] \<Rightarrow> None)"

section \<open>Round trip\<close>

lemma digit_char_digit: "n < 10 \<Longrightarrow> is_ascii_digit (digit_char n) \<and> digit_value (digit_char n) = n"
  by (simp add: is_ascii_digit_def digit_value_def digit_char_def)

lemma parse_digits_append:
  "parse_digits n (s @ t) = Option.bind (parse_digits n s) (\<lambda>m. parse_digits m t)"
  by (induction n s rule: parse_digits.induct) auto

lemma parse_digits_show: "parse_digits 0 (show_nat n) = Some n"
proof (induction n rule: show_nat.induct)
  case (1 n)
  show ?case
  proof (cases "n < 10")
    case True
    then show ?thesis by (simp add: show_nat.simps [of n] digit_char_digit)
  next
    case False
    then have "parse_digits 0 (show_nat (n div 10)) = Some (n div 10)" using 1 by simp
    then show ?thesis using False by (simp add: show_nat.simps [of n] parse_digits_append digit_char_digit)
  qed
qed

lemma show_nat_nonempty [simp]: "show_nat n \<noteq> []"
  by (simp add: show_nat.simps [of n])

lemma parse_nat_show: "parse_nat (show_nat n) = Some n"
  by (simp add: parse_nat_def parse_digits_show)

lemma show_nat_digits: "c \<in> set (show_nat n) \<Longrightarrow> is_ascii_digit c"
proof (induction n rule: show_nat.induct)
  case (1 n)
  then show ?case by (cases "n < 10") (auto simp: show_nat.simps [of n] digit_char_digit)
qed

lemma show_nat_head: "show_nat n = c # cs \<Longrightarrow> c \<noteq> CHR ''-'' \<and> c \<noteq> CHR ''+''"
  using show_nat_digits [of c n] by (auto simp: is_ascii_digit_def)

lemma show_nat_inject: "show_nat m = show_nat n \<longleftrightarrow> m = n"
  by (metis option.inject parse_nat_show)

lemma parse_show_i64: "parse_i64 (show_int (sint (i :: i64))) = Some i"
proof -
  have r: "to_i64 (sint i) = Some i" using sint_i64_range [of i] by (simp add: to_i64_def)
  show ?thesis
  proof (cases "sint i < 0")
    case True
    then show ?thesis using r by (simp add: show_int_def parse_i64_def parse_nat_show)
  next
    case False
    then obtain c cs where s: "show_nat (nat (sint i)) = c # cs" using show_nat_nonempty neq_Nil_conv by metis
    have "parse_nat (c # cs) = Some (nat (sint i))" by (metis s parse_nat_show)
    then show ?thesis using False r show_nat_head [OF s] by (simp add: show_int_def s parse_i64_def)
  qed
qed

end
