(* ===== verification/SortBy.thy ===== *)
theory SortBy
  imports Prelude
begin

text \<open>
  Rust's \<open>slice::sort_by\<close>, a stable sort with a three-way comparison, and the interface
  \<open>cmp_order\<close> that a comparison owes it: a total preorder on the elements compared.
  Comparisons are built by lexicographic composition, reversal and projection, which keep the
  interface.
\<close>

fun insert_by :: "('a \<Rightarrow> 'a \<Rightarrow> ordering) \<Rightarrow> 'a \<Rightarrow> 'a list \<Rightarrow> 'a list" where
  "insert_by cmp x [] = [x]"
| "insert_by cmp x (y # ys) = (if cmp x y = Greater then y # insert_by cmp x ys else x # y # ys)"

definition sort_by :: "('a \<Rightarrow> 'a \<Rightarrow> ordering) \<Rightarrow> 'a list \<Rightarrow> 'a list" where
  "sort_by cmp xs = foldr (insert_by cmp) xs []"

lemma sort_by_simps [simp]:
  "sort_by cmp [] = []" "sort_by cmp (x # xs) = insert_by cmp x (sort_by cmp xs)"
  by (simp_all add: sort_by_def)

lemma set_insert_by [simp]: "set (insert_by cmp x ys) = insert x (set ys)"
  by (induction ys) auto

lemma set_sort_by [simp]: "set (sort_by cmp xs) = set xs"
  by (induction xs) auto

lemma distinct_insert_by: "distinct (insert_by cmp x ys) \<longleftrightarrow> x \<notin> set ys \<and> distinct ys"
  by (induction ys) auto

lemma distinct_sort_by [simp]: "distinct (sort_by cmp xs) \<longleftrightarrow> distinct xs"
  by (induction xs) (auto simp: distinct_insert_by)

lemma length_insert_by [simp]: "length (insert_by cmp x ys) = Suc (length ys)"
  by (induction ys) auto

lemma length_sort_by [simp]: "length (sort_by cmp xs) = length xs"
  by (induction xs) auto

lemma sort_by_sorted_id: "sorted_wrt (\<lambda>a b. cmp a b \<noteq> Greater) xs \<Longrightarrow> sort_by cmp xs = xs"
proof (induction xs)
  case (Cons x xs)
  then show ?case by (cases xs) auto
qed simp

text \<open>Lists sorted by an asymmetric relation are determined by their elements.\<close>

lemma sorted_wrt_unique:
  assumes "sorted_wrt lt xs" "sorted_wrt lt ys" "set xs = set ys"
    and "\<And>x y. x \<in> set xs \<Longrightarrow> y \<in> set xs \<Longrightarrow> lt x y \<Longrightarrow> \<not> lt y x"
  shows "xs = ys"
  using assms
proof (induction xs arbitrary: ys)
  case (Cons x xs)
  have "ys \<noteq> []" using Cons.prems(3) by (metis list.set_intros(1) empty_iff empty_set)
  then obtain y zs where ys: "ys = y # zs" by (meson neq_Nil_conv)
  have "x = y"
  proof (rule ccontr)
    assume "x \<noteq> y"
    then have "y \<in> set xs" "x \<in> set zs" using Cons.prems(3) ys by auto
    then have "lt x y" "lt y x" using Cons.prems(1,2) ys by auto
    then show False using Cons.prems(4) [of x y] \<open>y \<in> set xs\<close> by simp
  qed
  have irr: "\<not> lt x x" using Cons.prems(4) [of x x] by (meson list.set_intros(1))
  have "\<forall>z \<in> set xs. lt x z" "\<forall>z \<in> set zs. lt x z" using Cons.prems(1,2) ys \<open>x = y\<close> by simp_all
  then have "x \<notin> set xs" "x \<notin> set zs" using irr by blast+
  moreover have "insert x (set xs) = insert x (set zs)" using Cons.prems(3) ys \<open>x = y\<close> by simp
  ultimately have "set xs = set zs" by (metis insert_ident)
  moreover have "sorted_wrt lt xs" "sorted_wrt lt zs" using Cons.prems(1,2) ys by simp_all
  ultimately have "xs = zs" using Cons.IH [of zs] Cons.prems(4) by (meson list.set_intros(2))
  then show ?case using ys \<open>x = y\<close> by simp
qed simp

section \<open>The interface of a comparison\<close>

locale cmp_order =
  fixes cmp :: "'a \<Rightarrow> 'a \<Rightarrow> ordering"
    and valid :: "'a \<Rightarrow> bool"
  assumes cmp_rev: "valid x \<Longrightarrow> valid y \<Longrightarrow> cmp y x = reverse_ord (cmp x y)"
    and le_trans: "valid x \<Longrightarrow> valid y \<Longrightarrow> valid z \<Longrightarrow> cmp x y \<noteq> Greater \<Longrightarrow> cmp y z \<noteq> Greater
      \<Longrightarrow> cmp x z \<noteq> Greater"
begin

lemma cmp_self: "valid x \<Longrightarrow> cmp x x = Equal"
  using cmp_rev [of x x] by (cases "cmp x x") auto

lemma less_le_trans:
  assumes "valid x" "valid y" "valid z" "cmp x y = Less" "cmp y z \<noteq> Greater"
  shows "cmp x z = Less"
proof (rule ccontr)
  assume "cmp x z \<noteq> Less"
  then have "cmp z x \<noteq> Greater" using cmp_rev [of x z] assms by simp
  then have "cmp y x \<noteq> Greater" using le_trans [of y z x] assms by blast
  then show False using cmp_rev [of x y] assms by simp
qed

lemma le_less_trans:
  assumes "valid x" "valid y" "valid z" "cmp x y \<noteq> Greater" "cmp y z = Less"
  shows "cmp x z = Less"
proof (rule ccontr)
  assume "cmp x z \<noteq> Less"
  then have "cmp z x \<noteq> Greater" using cmp_rev [of x z] assms by simp
  then have "cmp z y \<noteq> Greater" using le_trans [of z x y] assms by blast
  then show False using cmp_rev [of y z] assms by simp
qed

lemma equal_trans:
  assumes "valid x" "valid y" "valid z" "cmp x y = Equal" "cmp y z = Equal"
  shows "cmp x z = Equal"
proof -
  have "cmp x z \<noteq> Greater" using le_trans [of x y z] assms by simp
  moreover have "cmp z x \<noteq> Greater"
    using le_trans [of z y x] assms cmp_rev [of x y] cmp_rev [of y z] by simp
  ultimately show ?thesis using cmp_rev [of x z] assms by (cases "cmp x z") auto
qed

lemma sorted_insert_by:
  "valid x \<Longrightarrow> \<forall>y \<in> set ys. valid y \<Longrightarrow> sorted_wrt (\<lambda>a b. cmp a b \<noteq> Greater) ys \<Longrightarrow>
   sorted_wrt (\<lambda>a b. cmp a b \<noteq> Greater) (insert_by cmp x ys)"
proof (induction ys)
  case (Cons y ys)
  show ?case
  proof (cases "cmp x y = Greater")
    case True
    then have "cmp y x \<noteq> Greater" using cmp_rev [of x y] Cons.prems by simp
    then show ?thesis using True Cons by auto
  next
    case False
    then have "cmp x z \<noteq> Greater" if "z \<in> set ys" for z
      using le_trans [of x y z] Cons.prems that by auto
    then show ?thesis using False Cons.prems by auto
  qed
qed simp

lemma sorted_sort_by:
  "\<forall>x \<in> set xs. valid x \<Longrightarrow> sorted_wrt (\<lambda>a b. cmp a b \<noteq> Greater) (sort_by cmp xs)"
  by (induction xs) (auto intro: sorted_insert_by)

text \<open>Where only an element equals itself, sorting has one result.\<close>

lemma sorted_determined:
  assumes "sorted_wrt (\<lambda>a b. cmp a b \<noteq> Greater) xs" "sorted_wrt (\<lambda>a b. cmp a b \<noteq> Greater) ys"
    and "set xs = set ys" "distinct xs" "distinct ys" "\<forall>x \<in> set xs. valid x"
    and eq: "\<And>x y. x \<in> set xs \<Longrightarrow> y \<in> set xs \<Longrightarrow> cmp x y = Equal \<Longrightarrow> x = y"
  shows "xs = ys"
proof -
  have strict: "sorted_wrt (\<lambda>a b. cmp a b = Less) zs"
    if "sorted_wrt (\<lambda>a b. cmp a b \<noteq> Greater) zs" "distinct zs" "set zs \<subseteq> set xs" for zs
    using that
  proof (induction zs)
    case (Cons z zs)
    have "cmp z w = Less" if "w \<in> set zs" for w
      using Cons.prems that eq [of z w] by (cases "cmp z w") auto
    then show ?case using Cons by auto
  qed simp
  show ?thesis
  proof (rule sorted_wrt_unique)
    show "sorted_wrt (\<lambda>a b. cmp a b = Less) xs" "sorted_wrt (\<lambda>a b. cmp a b = Less) ys"
      using strict assms by auto
    show "\<not> cmp y x = Less" if "x \<in> set xs" "y \<in> set xs" "cmp x y = Less" for x y
      using that cmp_rev [of x y] assms(6) by simp
  qed fact
qed

end

section \<open>Comparisons that keep the interface\<close>

lemma cmp_order_Equal: "cmp_order (\<lambda>_ _. Equal) valid"
  by unfold_locales auto

lemma cmp_order_reverse:
  assumes "cmp_order f valid" shows "cmp_order (\<lambda>a b. reverse_ord (f a b)) valid"
proof
  show "reverse_ord (f y x) = reverse_ord (reverse_ord (f x y))" if "valid x" "valid y" for x y
    using cmp_order.cmp_rev [OF assms that] by simp
  show "reverse_ord (f x z) \<noteq> Greater"
    if "valid x" "valid y" "valid z" "reverse_ord (f x y) \<noteq> Greater" "reverse_ord (f y z) \<noteq> Greater" for x y z
    using that cmp_order.le_trans [OF assms, of z y x] cmp_order.cmp_rev [OF assms, of x y]
      cmp_order.cmp_rev [OF assms, of y z] cmp_order.cmp_rev [OF assms, of x z] by simp
qed

lemma cmp_order_lex:
  assumes f: "cmp_order f valid" and g: "cmp_order g valid"
  shows "cmp_order (\<lambda>a b. then_ord (f a b) (g a b)) valid"
proof
  show "then_ord (f y x) (g y x) = reverse_ord (then_ord (f x y) (g x y))" if "valid x" "valid y" for x y
    using cmp_order.cmp_rev [OF f that] cmp_order.cmp_rev [OF g that] by (simp add: reverse_then_ord)
  show "then_ord (f x z) (g x z) \<noteq> Greater"
    if v: "valid x" "valid y" "valid z"
      and le: "then_ord (f x y) (g x y) \<noteq> Greater" "then_ord (f y z) (g y z) \<noteq> Greater" for x y z
  proof -
    have fl: "f x y \<noteq> Greater" "f y z \<noteq> Greater" using le by (auto simp: then_ord_def split: if_splits)
    show ?thesis
    proof (cases "f x y = Equal \<and> f y z = Equal")
      case True
      then show ?thesis
        using cmp_order.equal_trans [OF f v] cmp_order.le_trans [OF g v] le by simp
    next
      case False
      then have "f x z = Less"
        using cmp_order.less_le_trans [OF f v _ fl(2)] cmp_order.le_less_trans [OF f v fl(1)] fl
        by (cases "f x y"; cases "f y z") auto
      then show ?thesis by simp
    qed
  qed
qed

lemma cmp_order_project:
  assumes "cmp_order f valid" "\<And>x. ok x \<Longrightarrow> valid (h x)"
  shows "cmp_order (\<lambda>a b. f (h a) (h b)) ok"
  using cmp_order.cmp_rev [OF assms(1)] cmp_order.le_trans [OF assms(1)] assms(2)
  by unfold_locales blast+

lemma cmp_order_cong:
  assumes "cmp_order f valid" "\<And>x y. valid x \<Longrightarrow> valid y \<Longrightarrow> g x y = f x y"
  shows "cmp_order g valid"
  using cmp_order.cmp_rev [OF assms(1)] cmp_order.le_trans [OF assms(1)] assms(2)
  by unfold_locales metis+

lemma cmp_order_weaken: "cmp_order f valid \<Longrightarrow> (\<And>x. ok x \<Longrightarrow> valid x) \<Longrightarrow> cmp_order f ok"
  using cmp_order_project [of f valid ok "\<lambda>x. x"] by simp

interpretation ord: cmp_order "ord_cmp :: 'a::linorder \<Rightarrow> _" "\<lambda>_. True"
  by unfold_locales (auto simp: ord_cmp_reverse)

end
