(* ===== verification/RulesValue.thy ===== *)
theory RulesValue
  imports Decimal F64 SortBy "HOL-Library.Signed_Division"
begin

text \<open>
  \<open>value.rs\<close> and \<open>ast.rs\<close> of the security-rules engine: runtime values, in which errors
  are the value \<open>VUndefined\<close>, their equality and ordering, and the syntax trees of rulesets.
  A \<open>BTreeMap<String, _>\<close> is an association list in ascending key order.
\<close>

section \<open>Ordered maps\<close>

fun bt_insert :: "string \<Rightarrow> 'v \<Rightarrow> (string \<times> 'v) list \<Rightarrow> (string \<times> 'v) list" where
  "bt_insert k v [] = [(k, v)]"
| "bt_insert k v ((l, w) # m) =
     (if k < l then (k, v) # (l, w) # m
      else if k = l then (k, v) # m
      else (l, w) # bt_insert k v m)"

abbreviation bt_get :: "(string \<times> 'v) list \<Rightarrow> string \<Rightarrow> 'v option" where
  "bt_get m k \<equiv> map_of m k"

definition bt_wf :: "(string \<times> 'v) list \<Rightarrow> bool" where
  "bt_wf m \<longleftrightarrow> sorted_wrt (<) (map fst m)"

definition bt_of_list :: "(string \<times> 'v) list \<Rightarrow> (string \<times> 'v) list" where
  "bt_of_list es = fold (\<lambda>(k, v) m. bt_insert k v m) es []"

lemma bt_wf_simps [simp]: "bt_wf []" "bt_wf ((k, v) # m) \<longleftrightarrow> (\<forall>l \<in> fst ` set m. k < l) \<and> bt_wf m"
  by (auto simp: bt_wf_def)

lemma fst_set_bt_insert [simp]: "fst ` set (bt_insert k v m) = insert k (fst ` set m)"
  by (induction k v m rule: bt_insert.induct) auto

lemma set_bt_insert: "set (bt_insert k v m) \<subseteq> insert (k, v) (set m)"
  by (induction k v m rule: bt_insert.induct) auto

lemma bt_wf_insert [simp]: "bt_wf m \<Longrightarrow> bt_wf (bt_insert k v m)"
  by (induction k v m rule: bt_insert.induct) auto

lemma bt_get_insert [simp]: "bt_wf m \<Longrightarrow> bt_get (bt_insert k v m) l = (if l = k then Some v else bt_get m l)"
proof (induction k v m rule: bt_insert.induct)
  case (2 k v l' w m)
  then have "k < l' \<Longrightarrow> bt_get m k = None" by (force simp: map_of_eq_None_iff)
  then show ?case using 2 by auto
qed auto

lemma bt_wf_distinct: "bt_wf m \<Longrightarrow> distinct (map fst m)"
  unfolding bt_wf_def by (simp add: strict_sorted_iff)

lemma bt_of_list_wf: "bt_wf (bt_of_list es)"
proof -
  have "bt_wf m \<Longrightarrow> bt_wf (fold (\<lambda>(k, v) m. bt_insert k v m) es m)" for m by (induction es arbitrary: m) auto
  then show ?thesis by (simp add: bt_of_list_def)
qed

section \<open>Values\<close>

datatype rvalue =
    VNull
  | VBool bool
  | VInt i64
  | VFloat f64
  | VStr string
  | VBytes "u8 list"
  | VTimestamp i64 u32
  | VDuration i64 u32
  | VLatLng f64 f64
  | VList "rvalue list"
  | VMap "(string \<times> rvalue) list"
  | VPath "string list"
  | VUndefined string

definition is_undefined :: "rvalue \<Rightarrow> bool" where
  "is_undefined v = (case v of VUndefined _ \<Rightarrow> True | _ \<Rightarrow> False)"

definition as_bool :: "rvalue \<Rightarrow> bool option" where
  "as_bool v = (case v of VBool b \<Rightarrow> Some b | _ \<Rightarrow> None)"

definition type_name :: "rvalue \<Rightarrow> string" where
  "type_name v = (case v of
      VNull \<Rightarrow> ''null'' | VBool _ \<Rightarrow> ''bool'' | VInt _ \<Rightarrow> ''int'' | VFloat _ \<Rightarrow> ''float''
    | VStr _ \<Rightarrow> ''string'' | VBytes _ \<Rightarrow> ''bytes'' | VTimestamp _ _ \<Rightarrow> ''timestamp''
    | VDuration _ _ \<Rightarrow> ''duration'' | VLatLng _ _ \<Rightarrow> ''latlng'' | VList _ \<Rightarrow> ''list''
    | VMap _ \<Rightarrow> ''map'' | VPath _ \<Rightarrow> ''path'' | VUndefined _ \<Rightarrow> ''undefined'')"

definition matches_type :: "rvalue \<Rightarrow> string \<Rightarrow> bool" where
  "matches_type v ty =
     (if ty = ''number'' then (case v of VInt _ \<Rightarrow> True | VFloat _ \<Rightarrow> True | _ \<Rightarrow> False)
      else type_name v = ty)"

text \<open>Equality; maps are compared entry by entry in key order.\<close>

fun equals :: "rvalue \<Rightarrow> rvalue \<Rightarrow> bool"
  and equals_list :: "rvalue list \<Rightarrow> rvalue list \<Rightarrow> bool"
  and equals_entries :: "(string \<times> rvalue) list \<Rightarrow> (string \<times> rvalue) list \<Rightarrow> bool"
where
  "equals VNull w = (w = VNull)"
| "equals (VBool a) w = (case w of VBool b \<Rightarrow> a = b | _ \<Rightarrow> False)"
| "equals (VInt a) w = (case w of VInt b \<Rightarrow> a = b | VFloat b \<Rightarrow> f64_eq (f64_of_i64 a) b | _ \<Rightarrow> False)"
| "equals (VFloat a) w = (case w of VFloat b \<Rightarrow> f64_eq a b | VInt b \<Rightarrow> f64_eq (f64_of_i64 b) a | _ \<Rightarrow> False)"
| "equals (VStr a) w = (case w of VStr b \<Rightarrow> a = b | _ \<Rightarrow> False)"
| "equals (VBytes a) w = (case w of VBytes b \<Rightarrow> a = b | _ \<Rightarrow> False)"
| "equals (VTimestamp s n) w = (case w of VTimestamp s' n' \<Rightarrow> s = s' \<and> n = n' | _ \<Rightarrow> False)"
| "equals (VDuration s n) w = (case w of VDuration s' n' \<Rightarrow> s = s' \<and> n = n' | _ \<Rightarrow> False)"
| "equals (VLatLng a b) w = (case w of VLatLng a' b' \<Rightarrow> f64_eq a a' \<and> f64_eq b b' | _ \<Rightarrow> False)"
| "equals (VList a) w = (case w of VList b \<Rightarrow> length a = length b \<and> equals_list a b | _ \<Rightarrow> False)"
| "equals (VMap a) w = (case w of VMap b \<Rightarrow> length a = length b \<and> equals_entries a b | _ \<Rightarrow> False)"
| "equals (VPath a) w = (case w of VPath b \<Rightarrow> a = b | _ \<Rightarrow> False)"
| "equals (VUndefined _) w = False"
| "equals_list (x # xs) (y # ys) = (equals x y \<and> equals_list xs ys)"
| "equals_list [] ys = True"
| "equals_list (x # xs) [] = True"
| "equals_entries ((k, x) # xs) ((l, y) # ys) = (k = l \<and> equals x y \<and> equals_entries xs ys)"
| "equals_entries [] ys = True"
| "equals_entries (x # xs) [] = True"

definition compare :: "rvalue \<Rightarrow> rvalue \<Rightarrow> ordering option" where
  "compare v w =
     (case (v, w) of
        (VInt a, VInt b) \<Rightarrow> Some (ord_cmp (sint a) (sint b))
      | (VFloat a, VFloat b) \<Rightarrow> f64_partial_cmp a b
      | (VInt a, VFloat b) \<Rightarrow> f64_partial_cmp (f64_of_i64 a) b
      | (VFloat a, VInt b) \<Rightarrow> f64_partial_cmp a (f64_of_i64 b)
      | (VStr a, VStr b) \<Rightarrow> Some (str_cmp a b)
      | (VTimestamp s n, VTimestamp s' n') \<Rightarrow> Some (then_ord (ord_cmp (sint s) (sint s')) (ord_cmp (unat n) (unat n')))
      | (VDuration s n, VDuration s' n') \<Rightarrow> Some (then_ord (ord_cmp (sint s) (sint s')) (ord_cmp (unat n) (unat n')))
      | _ \<Rightarrow> None)"

section \<open>Syntax trees\<close>

datatype bin_op = Add | Sub | Mul | Div | Mod | Eq | Ne | Lt | Le | Gt | Ge | And | Or | In
datatype un_op = NotOp | NegOp

text \<open>A part of a path literal holds an expression (\<open>PathPart::Splice(Box<Expr>)\<close>) and an expression
holds path parts, so the part takes the type of its expressions as a parameter; the syntax trees use
it at \<open>expr path_part\<close>.\<close>

datatype 'e path_part = Static string | Splice 'e

datatype expr =
    ENull
  | EBool bool
  | EInt i64
  | EFloat f64
  | EStr string
  | EList "expr list"
  | EMap "(string \<times> expr) list"
  | EPath "expr path_part list"
  | EIdent string
  | EMember expr string
  | EIndex expr expr
  | ERange expr "expr option" "expr option"
  | ECall "expr option" string "expr list"
  | EUnary un_op expr
  | EBinary bin_op expr expr
  | ETernary expr expr expr
  | EIs expr string

record function_decl =
  fd_name :: string
  fd_params :: "string list"
  fd_lets :: "(string \<times> expr) list"
  fd_body :: expr

datatype rules_version = V1 | V2

datatype match_seg = Literal string | Capture string | Glob string

record allow_rule =
  al_methods :: "string list"
  al_condition :: expr
  al_line :: u32

datatype match_rule = MatchRule
  (mr_path: "match_seg list") (mr_functions: "function_decl list")
  (mr_allows: "allow_rule list") (mr_children: "match_rule list")

record service_rules =
  sr_name :: string
  sr_functions :: "function_decl list"
  sr_matches :: "match_rule list"

record ruleset =
  rs_version :: rules_version
  rs_services :: "service_rules list"

section \<open>Laws of equality\<close>

lemma f64_eq_sym: "f64_eq a b = f64_eq b a"
  by (auto simp: f64_eq_def)

lemma equals_list_iff: "length xs = length ys \<Longrightarrow> equals_list xs ys = list_all2 equals xs ys"
  by (induction xs ys rule: list_induct2) auto

lemma equals_sym:
  "equals v w = equals w v"
  "length xs = length ys \<Longrightarrow> equals_list xs ys = equals_list ys xs"
  "length es = length fs \<Longrightarrow> equals_entries es fs = equals_entries fs es"
proof (induction v w and xs ys and es fs rule: equals_equals_list_equals_entries.induct)
  case (1 w) then show ?case by (cases w) auto
next
  case (13 m w) then show ?case by (cases w) auto
next
  case (10 a w) then show ?case by (cases w) auto
next
  case (11 a w) then show ?case by (cases w) auto
qed (auto simp: f64_eq_sym split: rvalue.splits)

end
