(* ===== verification/RulesStd.thy ===== *)
theory RulesStd
  imports RulesValue
begin

text \<open>
  \<open>stdlib.rs\<close> of the rules engine: the global functions and the methods of rule values.
  What the crate takes from elsewhere and Isabelle cannot compute from this repository is the
  record \<open>rules_lib\<close>: the \<open>regex\<close> crate, the Unicode case tables, the shortest decimal
  notation of a double and the transcendental functions, whose last bit Rust leaves to the
  platform.  Integer arithmetic the source does unchecked wraps, as the release profile compiles it.
\<close>

record rules_lib =
  lib_lower :: "string \<Rightarrow> string"
  lib_upper :: "string \<Rightarrow> string"
  lib_show_f64 :: "f64 \<Rightarrow> string"
  lib_powf :: "f64 \<Rightarrow> f64 \<Rightarrow> f64"
  lib_sin :: "f64 \<Rightarrow> f64"
  lib_cos :: "f64 \<Rightarrow> f64"
  lib_asin :: "f64 \<Rightarrow> f64"
  lib_rx_valid :: "string \<Rightarrow> bool"
  lib_rx_match :: "string \<Rightarrow> string \<Rightarrow> bool"
  lib_rx_split :: "string \<Rightarrow> string \<Rightarrow> string list"
  lib_rx_replace :: "string \<Rightarrow> string \<Rightarrow> string \<Rightarrow> string"

section \<open>Rust's standard library\<close>

text \<open>\<open>str::chars\<close>: a character is a byte that does not continue another, with its continuation.\<close>

definition continues :: "char \<Rightarrow> bool" where
  "continues c \<longleftrightarrow> 128 \<le> (of_char c :: nat) \<and> (of_char c :: nat) < 192"

fun chars :: "string \<Rightarrow> string list" where
  "chars [] = []"
| "chars (c # cs) =
     (case chars cs of
        (d # ds) # rest \<Rightarrow> if continues d then (c # d # ds) # rest else [c] # (d # ds) # rest
      | rest \<Rightarrow> [c] # rest)"

lemma concat_chars [simp]: "concat (chars s) = s"
  by (induction s) (auto split: list.splits)

text \<open>\<open>str::trim\<close>: characters with the property \<open>White_Space\<close>.\<close>

definition is_whitespace :: "string \<Rightarrow> bool" where
  "is_whitespace c =
     (case map of_char c of
        [b] \<Rightarrow> (9 \<le> b \<and> b \<le> 13) \<or> b = 32
      | [b, b'] \<Rightarrow> b = (0xC2 :: nat) \<and> (b' = 0x85 \<or> b' = 0xA0)
      | [b, b', b''] \<Rightarrow>
          (b = 0xE1 \<and> b' = 0x9A \<and> b'' = 0x80)
        \<or> (b = 0xE2 \<and> b' = 0x80 \<and> (b'' \<le> 0x8A \<or> b'' = 0xA8 \<or> b'' = 0xA9 \<or> b'' = 0xAF))
        \<or> (b = 0xE2 \<and> b' = 0x81 \<and> b'' = 0x9F)
        \<or> (b = 0xE3 \<and> b' = 0x80 \<and> b'' = 0x80)
      | _ \<Rightarrow> False)"

definition trim :: "string \<Rightarrow> string" where
  "trim s = concat (rev (dropWhile is_whitespace (rev (dropWhile is_whitespace (chars s)))))"

text \<open>\<open>f64\<close>: sign, integral parts, remainder, square root, angles.\<close>

definition f64_le :: "f64 \<Rightarrow> f64 \<Rightarrow> bool" where
  "f64_le x y \<longleftrightarrow> f64_lt x y \<or> f64_eq x y"

definition f64_abs :: "f64 \<Rightarrow> f64" where
  "f64_abs x = f64_of_mag False (f64_mag x)"

definition f64_integral :: "(int \<Rightarrow> int) \<Rightarrow> f64 \<Rightarrow> f64" where
  "f64_integral r x =
     (if f64_is_nan x \<or> f64_is_infinite x then x
      else f64_of_scaled (f64_negative_bit x) (r (f64_scaled x) * 2 ^ 1074))"

definition f64_floor :: "f64 \<Rightarrow> f64" where
  "f64_floor = f64_integral (\<lambda>v. v div 2 ^ 1074)"

definition f64_ceil :: "f64 \<Rightarrow> f64" where
  "f64_ceil = f64_integral (\<lambda>v. - ((- v) div 2 ^ 1074))"

definition f64_round :: "f64 \<Rightarrow> f64" where
  "f64_round = f64_integral (\<lambda>v. sgn v * ((2 * \<bar>v\<bar> + 2 ^ 1074) div 2 ^ 1075))"

definition f64_rem :: "f64 \<Rightarrow> f64 \<Rightarrow> f64" where
  "f64_rem x y =
     (if f64_is_nan x \<or> f64_is_nan y \<or> f64_is_infinite x \<or> f64_scaled y = 0 then f64_nan
      else if f64_is_infinite y then x
      else f64_of_scaled (f64_negative_bit x) (sgn (f64_scaled x) * (\<bar>f64_scaled x\<bar> mod \<bar>f64_scaled y\<bar>)))"

fun floor_sqrt_nat :: "nat \<Rightarrow> nat" where
  "floor_sqrt_nat n =
     (if n = 0 then 0
      else let r = 2 * floor_sqrt_nat (n div 4) in if (r + 1) * (r + 1) \<le> n then r + 1 else r)"

declare floor_sqrt_nat.simps [simp del]

definition f64_sqrt :: "f64 \<Rightarrow> f64" where
  "f64_sqrt x =
     (if f64_is_nan x then x
      else if f64_scaled x = 0 then x
      else if f64_negative_bit x then f64_nan
      else if f64_is_infinite x then x
      else let n = nat (f64_scaled x) * 2 ^ 1074; r = floor_sqrt_nat n
           in f64_of_units False (2 * r + (if r * r = n then 0 else 1)) 2)"

definition f64_to_radians :: "f64 \<Rightarrow> f64" where
  "f64_to_radians x = f64_mul x (f64_div 0x400921FB54442D18 (f64_of_i64 180))"

text \<open>\<open>str::parse::<f64>\<close>: the nearest double to the decimal number written.\<close>

definition ascii_lower :: "char \<Rightarrow> char" where
  "ascii_lower c = (if 65 \<le> (of_char c :: nat) \<and> (of_char c :: nat) \<le> 90 then char_of (of_char c + 32 :: nat) else c)"

definition to_ascii_lowercase :: "string \<Rightarrow> string" where
  "to_ascii_lowercase = map ascii_lower"

definition take_sign :: "string \<Rightarrow> bool \<times> string" where
  "take_sign s =
     (case s of
        c # cs \<Rightarrow> if c = CHR ''-'' then (True, cs) else if c = CHR ''+'' then (False, cs) else (False, s)
      | [] \<Rightarrow> (False, s))"

definition parse_exponent :: "string \<Rightarrow> int option" where
  "parse_exponent s =
     (case s of
        [] \<Rightarrow> Some 0
      | c # cs \<Rightarrow>
          if ascii_lower c = CHR ''e'' then
            (let (neg, ds) = take_sign cs in map_option (\<lambda>n. if neg then - int n else int n) (parse_nat ds))
          else None)"

definition f64_of_decimal :: "bool \<Rightarrow> nat \<Rightarrow> int \<Rightarrow> f64" where
  "f64_of_decimal neg m e =
     (if 0 \<le> e then f64_of_units neg (m * 10 ^ nat e * 2 ^ 1074) 1
      else f64_of_units neg (m * 2 ^ 1074) (10 ^ nat (- e)))"

definition parse_f64 :: "string \<Rightarrow> f64 option" where
  "parse_f64 s =
     (let (neg, t) = take_sign s; l = to_ascii_lowercase t
      in if l = ''inf'' \<or> l = ''infinity'' then Some (f64_infinity neg)
         else if l = ''nan'' then Some (if neg then f64_neg f64_nan else f64_nan)
         else
           let whole = takeWhile is_ascii_digit t; r = dropWhile is_ascii_digit t;
               frac = (case r of c # cs \<Rightarrow> if c = CHR ''.'' then takeWhile is_ascii_digit cs else [] | [] \<Rightarrow> []);
               r' = (case r of c # cs \<Rightarrow> if c = CHR ''.'' then dropWhile is_ascii_digit cs else r | [] \<Rightarrow> [])
           in case (parse_nat (whole @ frac), parse_exponent r') of
                (Some m, Some e) \<Rightarrow> Some (f64_of_decimal neg m (e - int (length frac)))
              | _ \<Rightarrow> None)"

section \<open>Civil dates\<close>

definition days_from_civil :: "int \<Rightarrow> int \<Rightarrow> int \<Rightarrow> int option" where
  "days_from_civil y m d =
     (if \<not> (1 \<le> y \<and> y \<le> 9999) \<or> \<not> (1 \<le> m \<and> m \<le> 12) \<or> \<not> (1 \<le> d \<and> d \<le> 31) then None
      else
        let y = (if m \<le> 2 then y - 1 else y);
            era = (if 0 \<le> y then y else y - 399) sdiv 400;
            yoe = y - era * 400;
            mp = (m + 9) smod 12;
            doy = (153 * mp + 2) sdiv 5 + d - 1;
            doe = yoe * 365 + yoe sdiv 4 - yoe sdiv 100 + doy
        in Some (era * 146097 + doe - 719468))"

definition civil_from_days :: "int \<Rightarrow> int \<times> int \<times> int" where
  "civil_from_days z =
     (let z = z + 719468;
          era = (if 0 \<le> z then z else z - 146096) sdiv 146097;
          doe = z - era * 146097;
          yoe = (doe - doe sdiv 1460 + doe sdiv 36524 - doe sdiv 146096) sdiv 365;
          y = yoe + era * 400;
          doy = doe - (365 * yoe + yoe sdiv 4 - yoe sdiv 100);
          mp = (5 * doy + 2) sdiv 153;
          d = doy - (153 * mp + 2) sdiv 5 + 1;
          m = (if mp < 10 then mp + 3 else mp - 9)
      in (if m \<le> 2 then y + 1 else y, m, d))"

definition timestamp_method :: "i64 \<Rightarrow> u32 \<Rightarrow> string \<Rightarrow> rvalue" where
  "timestamp_method seconds nanos name =
     (let days = sint seconds div 86400; secs_of_day = sint seconds mod 86400;
          (year, month, day) = civil_from_days days
      in if name = ''seconds'' then VInt (word_of_int (secs_of_day smod 60))
         else if name = ''minutes'' then VInt (word_of_int ((secs_of_day sdiv 60) smod 60))
         else if name = ''hours'' then VInt (word_of_int (secs_of_day sdiv 3600))
         else if name = ''nanos'' then VInt (ucast nanos)
         else if name = ''year'' then VInt (word_of_int year)
         else if name = ''month'' then VInt (word_of_int month)
         else if name = ''day'' then VInt (word_of_int day)
         else if name = ''dayOfWeek'' then VInt (word_of_int ((days + 3) mod 7 + 1))
         else if name = ''dayOfYear'' then
           (let jan1 = (case days_from_civil year 1 1 of Some j \<Rightarrow> j | None \<Rightarrow> 0)
            in VInt (word_of_int (days - jan1 + 1)))
         else if name = ''date'' then VTimestamp (word_of_int (days * 86400)) 0
         else if name = ''time'' then VDuration (word_of_int secs_of_day) nanos
         else if name = ''toMillis'' then
           VInt (seconds * 1000 + word_of_int (int (unat nanos) sdiv 1000000))
         else VUndefined (''method '' @ name @ '' is not defined on timestamp''))"

section \<open>Base 64\<close>

definition base64_table :: string where
  "base64_table = ''ABCDEFGHIJKLMNOPQRSTUVWXYZabcdefghijklmnopqrstuvwxyz0123456789+/''"

definition base64_char :: "u32 \<Rightarrow> nat \<Rightarrow> char" where
  "base64_char n k = base64_table ! unat (drop_bit k n AND 63)"

definition base64_chunk :: "u8 list \<Rightarrow> string" where
  "base64_chunk chunk =
     (let b0 = chunk ! 0; b1 = (if 1 < length chunk then chunk ! 1 else 0);
          b2 = (if 2 < length chunk then chunk ! 2 else 0);
          n = push_bit 16 (ucast b0) OR push_bit 8 (ucast b1) OR ucast b2
      in [base64_char n 18, base64_char n 12,
          if 1 < length chunk then base64_char n 6 else CHR ''='',
          if 2 < length chunk then base64_char n 0 else CHR ''=''])"

fun base64_encode :: "u8 list \<Rightarrow> string" where
  "base64_encode [] = []"
| "base64_encode (b0 # b1 # b2 # bs) = base64_chunk [b0, b1, b2] @ base64_encode bs"
| "base64_encode chunk = base64_chunk chunk"

section \<open>Global functions\<close>

definition numeric :: "rvalue \<Rightarrow> f64 option" where
  "numeric v = (case v of VInt i \<Rightarrow> Some (f64_of_i64 i) | VFloat f \<Rightarrow> Some f | _ \<Rightarrow> None)"

definition float_fn :: "rvalue \<Rightarrow> (f64 \<Rightarrow> f64) \<Rightarrow> rvalue" where
  "float_fn v f = (case numeric v of Some x \<Rightarrow> VFloat (f x) | None \<Rightarrow> VUndefined ''expected a number'')"

definition or_undefined :: "string \<Rightarrow> i64 option \<Rightarrow> rvalue" where
  "or_undefined msg r = (case r of Some i \<Rightarrow> VInt i | None \<Rightarrow> VUndefined msg)"

definition to_int :: "rvalue \<Rightarrow> rvalue" where
  "to_int v =
     (case v of
        VInt i \<Rightarrow> v
      | VFloat f \<Rightarrow> VInt (f64_to_i64 f)
      | VStr s \<Rightarrow> or_undefined ''cannot convert string to int'' (parse_i64 s)
      | VBool b \<Rightarrow> VInt (if b then 1 else 0)
      | _ \<Rightarrow> VUndefined (''cannot convert '' @ type_name v @ '' to int''))"

definition to_float :: "rvalue \<Rightarrow> rvalue" where
  "to_float v =
     (case v of
        VFloat _ \<Rightarrow> v
      | VInt i \<Rightarrow> VFloat (f64_of_i64 i)
      | VStr s \<Rightarrow> (case parse_f64 s of Some f \<Rightarrow> VFloat f | None \<Rightarrow> VUndefined ''cannot convert string to float'')
      | _ \<Rightarrow> VUndefined (''cannot convert '' @ type_name v @ '' to float''))"

definition to_str :: "rules_lib \<Rightarrow> rvalue \<Rightarrow> rvalue" where
  "to_str lib v =
     (case v of
        VStr s \<Rightarrow> v
      | VInt i \<Rightarrow> VStr (show_int (sint i))
      | VFloat f \<Rightarrow> VStr (lib_show_f64 lib f)
      | VBool b \<Rightarrow> VStr (if b then ''true'' else ''false'')
      | VNull \<Rightarrow> VStr ''null''
      | VPath p \<Rightarrow> VStr (CHR ''/'' # join ''/'' p)
      | _ \<Rightarrow> VUndefined (''cannot convert '' @ type_name v @ '' to string''))"

definition to_path :: "string \<Rightarrow> rvalue" where
  "to_path s =
     VPath (filter (\<lambda>p. p \<noteq> []) (split_on (CHR ''/'') (dropWhile (\<lambda>c. c = CHR ''/'') s)))"

definition math_abs :: "rvalue \<Rightarrow> rvalue" where
  "math_abs v =
     (case v of
        VInt i \<Rightarrow> or_undefined ''integer overflow'' (to_i64 \<bar>sint i\<bar>)
      | VFloat f \<Rightarrow> VFloat (f64_abs f)
      | _ \<Rightarrow> VUndefined ''math.abs expects a number'')"

definition duration_value :: "i64 \<Rightarrow> string \<Rightarrow> rvalue" where
  "duration_value n unit =
     (let scaled = (\<lambda>k. case to_i64 (sint n * k) of
                          Some s \<Rightarrow> VDuration s 0 | None \<Rightarrow> VUndefined ''duration overflow'')
      in if unit = ''w'' then scaled 604800
         else if unit = ''d'' then scaled 86400
         else if unit = ''h'' then scaled 3600
         else if unit = ''m'' then scaled 60
         else if unit = ''s'' then VDuration n 0
         else if unit = ''ms'' then
           VDuration (word_of_int (sint n div 1000)) (word_of_int (sint n mod 1000 * 1000000))
         else if unit = ''ns'' then
           VDuration (word_of_int (sint n div 1000000000)) (word_of_int (sint n mod 1000000000))
         else VUndefined (''unknown duration unit '' @ unit))"

definition latlng_value :: "rvalue \<Rightarrow> rvalue \<Rightarrow> rvalue" where
  "latlng_value a b =
     (case (numeric a, numeric b) of
        (Some lat, Some lng) \<Rightarrow>
          if f64_le (f64_of_i64 (- 90)) lat \<and> f64_le lat (f64_of_i64 90)
             \<and> f64_le (f64_of_i64 (- 180)) lng \<and> f64_le lng (f64_of_i64 180)
          then VLatLng lat lng else VUndefined ''latlng out of range''
      | _ \<Rightarrow> VUndefined ''latlng.value expects numbers'')"

definition not_a_function :: "string \<Rightarrow> rvalue" where
  "not_a_function name = VUndefined (''function '' @ name @ '' is not defined'')"

definition global1 :: "rules_lib \<Rightarrow> string \<Rightarrow> rvalue \<Rightarrow> rvalue" where
  "global1 lib name v =
     (if name = ''int'' then to_int v
      else if name = ''float'' then to_float v
      else if name = ''string'' then to_str lib v
      else if name = ''bool'' then
        (case v of
           VStr s \<Rightarrow> if s = ''true'' then VBool True else if s = ''false'' then VBool False
                     else VUndefined ''cannot convert string to bool''
         | _ \<Rightarrow> not_a_function name)
      else if name = ''path'' then (case v of VStr s \<Rightarrow> to_path s | _ \<Rightarrow> not_a_function name)
      else if name = ''math.abs'' then math_abs v
      else if name = ''math.ceil'' then float_fn v f64_ceil
      else if name = ''math.floor'' then float_fn v f64_floor
      else if name = ''math.round'' then
        (case numeric v of
           Some f \<Rightarrow> VInt (f64_to_i64 (f64_round f)) | None \<Rightarrow> VUndefined ''math.round expects a number'')
      else if name = ''math.sqrt'' then float_fn v f64_sqrt
      else if name = ''math.isNaN'' then VBool (case v of VFloat f \<Rightarrow> f64_is_nan f | _ \<Rightarrow> False)
      else if name = ''math.isInfinite'' \<or> name = ''math.isInfinity'' then
        VBool (case v of VFloat f \<Rightarrow> f64_is_infinite f | _ \<Rightarrow> False)
      else if name = ''timestamp.value'' then
        (case v of
           VInt ms \<Rightarrow> VTimestamp (word_of_int (sint ms div 1000)) (word_of_int (sint ms mod 1000 * 1000000))
         | _ \<Rightarrow> not_a_function name)
      else if name = ''debug'' then v
      else not_a_function name)"

definition global :: "rules_lib \<Rightarrow> string \<Rightarrow> rvalue list \<Rightarrow> rvalue" where
  "global lib name args =
     (case args of
        [v] \<Rightarrow> global1 lib name v
      | [a, b] \<Rightarrow>
          if name = ''math.pow'' then
            (case (numeric a, numeric b) of
               (Some x, Some y) \<Rightarrow> VFloat (lib_powf lib x y)
             | _ \<Rightarrow> VUndefined ''math.pow expects numbers'')
          else if name = ''duration.value'' then
            (case (a, b) of (VInt n, VStr unit) \<Rightarrow> duration_value n unit | _ \<Rightarrow> not_a_function name)
          else if name = ''latlng.value'' then latlng_value a b
          else not_a_function name
      | [a, b, c] \<Rightarrow>
          if name = ''timestamp.date'' then
            (case (a, b, c) of
               (VInt y, VInt mo, VInt d) \<Rightarrow>
                 (case days_from_civil (sint y) (sint mo) (sint d) of
                    Some days \<Rightarrow> VTimestamp (word_of_int (days * 86400)) 0
                  | None \<Rightarrow> VUndefined ''invalid date'')
             | _ \<Rightarrow> not_a_function name)
          else not_a_function name
      | [a, b, c, d] \<Rightarrow>
          if name = ''duration.time'' then
            (case (a, b, c, d) of
               (VInt h, VInt m, VInt s, VInt ns) \<Rightarrow> VDuration (h * 3600 + m * 60 + s) (ucast ns)
             | _ \<Rightarrow> not_a_function name)
          else not_a_function name
      | _ \<Rightarrow> not_a_function name)"

section \<open>Methods\<close>

definition not_a_method :: "rvalue \<Rightarrow> string \<Rightarrow> rvalue" where
  "not_a_method recv name = VUndefined (''method '' @ name @ '' is not defined on '' @ type_name recv)"

definition usize_value :: "nat \<Rightarrow> rvalue" where
  "usize_value n = VInt (word_of_nat n)"

definition string_method :: "rules_lib \<Rightarrow> string \<Rightarrow> string \<Rightarrow> rvalue list \<Rightarrow> rvalue" where
  "string_method lib s name args =
     (case args of
        [] \<Rightarrow>
          if name = ''size'' then usize_value (length (chars s))
          else if name = ''lower'' then VStr (lib_lower lib s)
          else if name = ''upper'' then VStr (lib_upper lib s)
          else if name = ''trim'' then VStr (trim s)
          else if name = ''toUtf8'' then VBytes (as_bytes s)
          else not_a_method (VStr s) name
      | [VStr p] \<Rightarrow>
          if name = ''split'' then
            (if lib_rx_valid lib p then VList (map VStr (lib_rx_split lib p s))
             else VUndefined ''invalid regular expression'')
          else if name = ''matches'' then
            (let q = ''^(?:'' @ p @ '')$''
             in if lib_rx_valid lib q then VBool (lib_rx_match lib q s)
                else VUndefined ''invalid regular expression'')
          else not_a_method (VStr s) name
      | [VStr p, VStr to] \<Rightarrow>
          if name = ''replace'' then
            (if lib_rx_valid lib p then VStr (lib_rx_replace lib p s to)
             else VUndefined ''invalid regular expression'')
          else not_a_method (VStr s) name
      | _ \<Rightarrow> not_a_method (VStr s) name)"

definition member_of :: "rvalue \<Rightarrow> rvalue list \<Rightarrow> bool" where
  "member_of v items = list_ex (\<lambda>i. equals i v) items"

fun join_strings :: "rvalue list \<Rightarrow> string list option" where
  "join_strings [] = Some []"
| "join_strings (v # vs) = (case v of VStr s \<Rightarrow> map_option (Cons s) (join_strings vs) | _ \<Rightarrow> None)"

definition to_set :: "rvalue list \<Rightarrow> rvalue list" where
  "to_set items = fold (\<lambda>item out. if member_of item out then out else out @ [item]) items []"

definition list_method :: "rvalue list \<Rightarrow> string \<Rightarrow> rvalue list \<Rightarrow> rvalue" where
  "list_method items name args =
     (case args of
        [] \<Rightarrow>
          if name = ''size'' then usize_value (length items)
          else if name = ''toSet'' then VList (to_set items)
          else not_a_method (VList items) name
      | [VList other] \<Rightarrow>
          if name = ''hasAll'' then VBool (list_all (\<lambda>v. member_of v items) other)
          else if name = ''hasAny'' then VBool (list_ex (\<lambda>v. member_of v items) other)
          else if name = ''hasOnly'' then VBool (list_all (\<lambda>v. member_of v other) items)
          else if name = ''concat'' then VList (items @ other)
          else if name = ''removeAll'' then VList (filter (\<lambda>v. \<not> member_of v other) items)
          else not_a_method (VList items) name
      | [VStr sep] \<Rightarrow>
          if name = ''join'' then
            (case join_strings items of
               Some ss \<Rightarrow> VStr (join sep ss) | None \<Rightarrow> VUndefined ''join requires a list of strings'')
          else not_a_method (VList items) name
      | _ \<Rightarrow> not_a_method (VList items) name)"

definition map_diff :: "(string \<times> rvalue) list \<Rightarrow> (string \<times> rvalue) list \<Rightarrow> (string \<times> rvalue) list" where
  "map_diff a b =
     (let gone = (\<lambda>(k, v). bt_get b k = None);
          altered = (\<lambda>(k, v). case bt_get b k of Some w \<Rightarrow> \<not> equals v w | None \<Rightarrow> False);
          fresh = (\<lambda>(k, w). bt_get a k = None);
          names = map (\<lambda>(k, v). VStr k)
      in bt_of_list
           [(''addedKeys'', VList (names (filter fresh b))),
            (''removedKeys'', VList (names (filter gone a))),
            (''changedKeys'', VList (names (filter altered a))),
            (''affectedKeys'', VList (names (filter (\<lambda>e. gone e \<or> altered e) a) @ names (filter fresh b)))])"

definition map_method :: "(string \<times> rvalue) list \<Rightarrow> string \<Rightarrow> rvalue list \<Rightarrow> rvalue" where
  "map_method m name args =
     (case args of
        [] \<Rightarrow>
          if name = ''size'' then usize_value (length m)
          else if name = ''keys'' then VList (map (\<lambda>(k, v). VStr k) m)
          else if name = ''values'' then VList (map snd m)
          else if name \<in> {''addedKeys'', ''removedKeys'', ''changedKeys'', ''affectedKeys''}
                  \<and> bt_get m ''affectedKeys'' \<noteq> None then
            (case bt_get m name of Some v \<Rightarrow> v | None \<Rightarrow> VList [])
          else not_a_method (VMap m) name
      | [a] \<Rightarrow>
          if name = ''diff'' then (case a of VMap b \<Rightarrow> VMap (map_diff m b) | _ \<Rightarrow> not_a_method (VMap m) name)
          else not_a_method (VMap m) name
      | [key, dflt] \<Rightarrow>
          if name = ''get'' then
            (case key of
               VStr k \<Rightarrow> (case bt_get m k of Some v \<Rightarrow> v | None \<Rightarrow> dflt)
             | _ \<Rightarrow> VUndefined ''map.get expects a string key'')
          else not_a_method (VMap m) name
      | _ \<Rightarrow> not_a_method (VMap m) name)"

definition bind_segment :: "(string \<times> rvalue) list \<Rightarrow> string \<Rightarrow> string" where
  "bind_segment bindings seg =
     (case Option.bind (strip_prefix ''{'' seg) (strip_suffix ''}'') of
        Some key \<Rightarrow> (case bt_get bindings key of Some (VStr v) \<Rightarrow> v | _ \<Rightarrow> seg)
      | None \<Rightarrow> seg)"

definition latlng_distance :: "rules_lib \<Rightarrow> f64 \<Rightarrow> f64 \<Rightarrow> f64 \<Rightarrow> f64 \<Rightarrow> f64" where
  "latlng_distance lib lat1 lng1 lat2 lng2 =
     (let r = f64_of_i64 6371009; two = f64_of_i64 2; square = (\<lambda>x. f64_mul x x);
          p1 = f64_to_radians lat1; p2 = f64_to_radians lat2;
          dp = f64_to_radians (f64_sub lat2 lat1); dl = f64_to_radians (f64_sub lng2 lng1);
          a = f64_add (square (lib_sin lib (f64_div dp two)))
                (f64_mul (f64_mul (lib_cos lib p1) (lib_cos lib p2)) (square (lib_sin lib (f64_div dl two))))
      in f64_mul (f64_mul two r) (lib_asin lib (f64_sqrt a)))"

definition call_method :: "rules_lib \<Rightarrow> rvalue \<Rightarrow> string \<Rightarrow> rvalue list \<Rightarrow> rvalue" where
  "call_method lib recv name args =
     (case recv of
        VStr s \<Rightarrow> string_method lib s name args
      | VBytes b \<Rightarrow>
          if args = [] \<and> name = ''size'' then usize_value (length b)
          else if args = [] \<and> name = ''toBase64'' then VStr (base64_encode b)
          else not_a_method recv name
      | VList items \<Rightarrow> list_method items name args
      | VMap m \<Rightarrow> map_method m name args
      | VPath p \<Rightarrow>
          if args = [] \<and> name = ''size'' then usize_value (length p)
          else (case args of
                  [VMap bindings] \<Rightarrow>
                    if name = ''bind'' then VPath (map (bind_segment bindings) p) else not_a_method recv name
                | _ \<Rightarrow> not_a_method recv name)
      | VTimestamp s n \<Rightarrow> if args = [] then timestamp_method s n name else not_a_method recv name
      | VDuration s n \<Rightarrow>
          if args = [] \<and> name = ''seconds'' then VInt s
          else if args = [] \<and> name = ''nanos'' then VInt (ucast n)
          else not_a_method recv name
      | VLatLng lat lng \<Rightarrow>
          (case args of
             [] \<Rightarrow> if name = ''latitude'' then VFloat lat
                   else if name = ''longitude'' then VFloat lng else not_a_method recv name
           | [VLatLng lat2 lng2] \<Rightarrow>
               if name = ''distance'' then VFloat (latlng_distance lib lat lng lat2 lng2)
               else not_a_method recv name
           | _ \<Rightarrow> not_a_method recv name)
      | _ \<Rightarrow> not_a_method recv name)"

end
