(* ===== verification/Auth.thy ===== *)
theory Auth
  imports RulesStd "HOL-Library.AList"
begin

text \<open>
  \<open>auth.rs\<close>: what the \<open>authorization\<close> header of a request grants.  Emulator mode
  decodes unsigned tokens; verified mode tries the shared secret, waldflam's own credentials and
  then the external issuer, whose signing keys are cached.  JSON, base64url, RSA verification,
  the HTTP fetch, the clock and the credential store are the record \<open>auth_world\<close>.
\<close>

section \<open>Identities\<close>

text \<open>\<open>serde_json::Value\<close>; a number answers \<open>as_i64\<close> and \<open>as_f64\<close>.\<close>

datatype json =
    JNull | JBool bool | JNumber "i64 option" "f64 option" | JString string
  | JArray "json list" | JObject "(string \<times> json) list"

type_synonym json_map = "(string \<times> json) list"

datatype status =
    Unauthenticated_status string | Invalid_argument string | Permission_denied string
  | Unavailable string | Internal string | Not_found string | Already_exists string
  | Aborted_status string | Failed_precondition string | Unimplemented_status string

record admin =
  ad_subject :: "string option"
  ad_project_id :: "string option"

record jwt_claims =
  jc_uid :: "string option"
  jc_payload :: json_map
  jc_project_id :: "string option"

datatype authorization = Unauthenticated | Admin admin | User jwt_claims

definition default_admin :: admin where
  "default_admin = \<lparr>ad_subject = None, ad_project_id = None\<rparr>"

definition for_project :: "string \<Rightarrow> authorization \<Rightarrow> authorization" where
  "for_project project auth =
     (let confined_elsewhere =
        (case auth of
           Admin a \<Rightarrow> (case ad_project_id a of Some p \<Rightarrow> p \<noteq> project | None \<Rightarrow> False)
         | User c \<Rightarrow> (case jc_project_id c of Some p \<Rightarrow> p \<noteq> project | None \<Rightarrow> False)
         | Unauthenticated \<Rightarrow> False)
      in if confined_elsewhere then Unauthenticated else auth)"

section \<open>The outside world\<close>

datatype resolved =
    ServiceAccount string string
  | ResolvedUser string string json_map

record jwt_header =
  jh_alg :: string
  jh_kid :: "string option"

record external_issuer =
  ei_issuer :: string
  ei_audience :: string
  ei_jwks_url :: string

record verify_config =
  vc_external :: "external_issuer option"
  vc_admin_token :: "string option"

record jwk =
  jwk_kid :: "string option"
  jwk_kty :: string
  jwk_n :: "string option"
  jwk_e :: "string option"

record 'k key_cache =
  by_kid :: "(string \<times> 'k) list"
  refreshed :: "nat option"

text \<open>
  \<open>aw_fetch\<close> is the whole request of \<open>refresh\<close>: the body of the key set, or the text of
  the failure; \<open>aw_verify\<close> is \<open>jsonwebtoken::decode\<close> with the validation the source
  sets up (RS256, issuer, audience, \<open>exp\<close>, the given leeway) under the key.
\<close>

record ('k, 's) auth_world =
  aw_base64url :: "string \<Rightarrow> u8 list option"
  aw_json_object :: "u8 list \<Rightarrow> json_map option"
  aw_resolve :: "(string \<Rightarrow> 's \<Rightarrow> (status + resolved option) \<times> 's) option"
  aw_decode_header :: "string \<Rightarrow> string + jwt_header"
  aw_verify :: "string \<Rightarrow> 'k \<Rightarrow> external_issuer \<Rightarrow> nat \<Rightarrow> 's \<Rightarrow> string + json_map"
  aw_fetch :: "string \<Rightarrow> 's \<Rightarrow> (status + string) \<times> 's"
  aw_parse_jwk_set :: "string \<Rightarrow> string + jwk list"
  aw_rsa_key :: "string \<Rightarrow> string \<Rightarrow> string + 'k"
  aw_now :: "'s \<Rightarrow> nat"

section \<open>Emulator mode\<close>

definition json_str :: "json option \<Rightarrow> string option" where
  "json_str v = (case v of Some (JString s) \<Rightarrow> Some s | _ \<Rightarrow> None)"

text \<open>
  The token after a scheme that is \<open>bearer \<close> in any case.  \<open>header.get(..7)\<close> is
  \<open>None\<close> when byte 7 is inside a character.
\<close>

definition bearer_token :: "string \<Rightarrow> string option" where
  "bearer_token header =
     (if 7 \<le> length header \<and> (7 < length header \<longrightarrow> \<not> continues (header ! 7))
         \<and> to_ascii_lowercase (take 7 header) = ''bearer ''
      then Some (drop 7 header) else None)"

definition trim_end_eq :: "string \<Rightarrow> string" where
  "trim_end_eq s = rev (dropWhile (\<lambda>c. c = CHR ''='') (rev s))"

definition decode_json_segment :: "('k, 's) auth_world \<Rightarrow> string \<Rightarrow> string + json_map" where
  "decode_json_segment w segment =
     (case aw_base64url w (trim_end_eq segment) of
        None \<Rightarrow> Inl ''invalid base64url''
      | Some bytes \<Rightarrow>
          (case aw_json_object w bytes of
             Some m \<Rightarrow> Inr m | None \<Rightarrow> Inl ''segment is not a JSON object''))"

definition emulator_refuses_signed :: string where
  "emulator_refuses_signed =
     ''this server is in emulator mode (WALDFLAM_AUTH=emulator), which ''
     @ ''accepts only unsigned `alg: none` tokens; set WALDFLAM_AUTH=verify ''
     @ ''to accept signed ones''"

definition parse_unsigned_jwt :: "('k, 's) auth_world \<Rightarrow> string \<Rightarrow> string + jwt_claims" where
  "parse_unsigned_jwt w token =
     (case split_on (CHR ''.'') token of
        [header, payload, signature] \<Rightarrow>
          if signature \<noteq> [] then Inl ''expected empty signature''
          else
            (case decode_json_segment w header of
               Inl e \<Rightarrow> Inl e
             | Inr h \<Rightarrow>
                 (case json_str (map_of h ''alg'') of
                    None \<Rightarrow> Inl (''expected alg '' @ [CHR 0x27] @ ''none'' @ [CHR 0x27])
                  | Some alg \<Rightarrow>
                      if alg \<noteq> ''none'' then Inl emulator_refuses_signed
                      else
                        (case decode_json_segment w payload of
                           Inl e \<Rightarrow> Inl e
                         | Inr m \<Rightarrow> Inr \<lparr>jc_uid = json_str (map_of m ''sub''), jc_payload = m, jc_project_id = None\<rparr>)))
      | _ \<Rightarrow> Inl ''expected three dot-separated segments'')"

definition from_header :: "('k, 's) auth_world \<Rightarrow> string option \<Rightarrow> status + authorization" where
  "from_header w header =
     (case header of
        None \<Rightarrow> Inr Unauthenticated
      | Some header \<Rightarrow>
          (case bearer_token header of
             None \<Rightarrow> Inl (Invalid_argument ''expected Bearer authorization'')
           | Some token \<Rightarrow>
               if to_ascii_lowercase token = ''owner'' then Inr (Admin default_admin)
               else (case parse_unsigned_jwt w token of
                       Inl reason \<Rightarrow> Inl (Invalid_argument (''invalid jwt: '' @ reason))
                     | Inr c \<Rightarrow> Inr (User c))))"

section \<open>Verified mode\<close>

definition secret_eq :: "string \<Rightarrow> string \<Rightarrow> bool" where
  "secret_eq candidate expected =
     (let c = as_bytes candidate; e = as_bytes expected
      in if length c \<noteq> length e then False
         else fold (\<lambda>(a, b) acc. acc OR (a XOR b)) (zip c e) (0 :: u8) = 0)"

fun collect_keys :: "('k, 's) auth_world \<Rightarrow> jwk list \<Rightarrow> (string \<times> 'k) list \<Rightarrow> string + (string \<times> 'k) list" where
  "collect_keys w [] out = Inr out"
| "collect_keys w (j # js) out =
     (case (jwk_kid j, jwk_n j, jwk_e j) of
        (Some kid, Some n, Some e) \<Rightarrow>
          if jwk_kty j \<noteq> ''RSA'' then collect_keys w js out
          else (case aw_rsa_key w n e of
                  Inl err \<Rightarrow> Inl (''key '' @ kid @ '': '' @ err)
                | Inr key \<Rightarrow> collect_keys w js (AList.update kid key out))
      | _ \<Rightarrow> collect_keys w js out)"

definition parse_jwks :: "('k, 's) auth_world \<Rightarrow> string \<Rightarrow> string + (string \<times> 'k) list" where
  "parse_jwks w body =
     (case aw_parse_jwk_set w body of
        Inl e \<Rightarrow> Inl e
      | Inr keys \<Rightarrow>
          (case collect_keys w keys [] of
             Inl e \<Rightarrow> Inl e
           | Inr out \<Rightarrow> if out = [] then Inl ''no usable RSA keys'' else Inr out))"

definition KEY_REFRESH_INTERVAL :: nat where "KEY_REFRESH_INTERVAL = 300"
definition CLOCK_LEEWAY_SECONDS :: nat where "CLOCK_LEEWAY_SECONDS = 60"

type_synonym ('k, 's, 'a) verifier = "'k key_cache \<times> 's \<Rightarrow> (status + 'a) \<times> 'k key_cache \<times> 's"

definition refresh :: "('k, 's) auth_world \<Rightarrow> verify_config \<Rightarrow> ('k, 's, unit) verifier" where
  "refresh w config st =
     (case st of (cache, s) \<Rightarrow>
        (case vc_external config of
           None \<Rightarrow> (Inl (Unauthenticated_status ''no external issuer is configured''), cache, s)
         | Some external \<Rightarrow>
             (case aw_fetch w (ei_jwks_url external) s of
                (Inl e, s) \<Rightarrow> (Inl e, cache, s)
              | (Inr body, s) \<Rightarrow>
                  (case parse_jwks w body of
                     Inl e \<Rightarrow> (Inl (Unavailable (''bad key set: '' @ e)), cache, s)
                   | Inr parsed \<Rightarrow> (Inr (), \<lparr>by_kid = parsed, refreshed = Some (aw_now w s)\<rparr>, s)))))"

definition key_for :: "('k, 's) auth_world \<Rightarrow> verify_config \<Rightarrow> string \<Rightarrow> ('k, 's, 'k) verifier" where
  "key_for w config kid st =
     (case st of (cache, s) \<Rightarrow>
        (case map_of (by_kid cache) kid of
           Some key \<Rightarrow> (Inr key, cache, s)
         | None \<Rightarrow>
             (let stale = (case refreshed cache of None \<Rightarrow> True | Some at \<Rightarrow> KEY_REFRESH_INTERVAL \<le> aw_now w s - at)
              in if \<not> stale then (Inl (Unauthenticated_status ''unknown token key id''), cache, s)
                 else
                   (case refresh w config (cache, s) of
                      (Inl e, st) \<Rightarrow> (Inl e, st)
                    | (Inr _, cache, s) \<Rightarrow>
                        (case map_of (by_kid cache) kid of
                           Some key \<Rightarrow> (Inr key, cache, s)
                         | None \<Rightarrow> (Inl (Unauthenticated_status ''unknown token key id''), cache, s))))))"

definition external_token ::
  "('k, 's) auth_world \<Rightarrow> verify_config \<Rightarrow> string \<Rightarrow> ('k, 's, authorization) verifier" where
  "external_token w config token st =
     (case vc_external config of
        None \<Rightarrow>
          (Inl (Unauthenticated_status
             ''token was not issued by this deployment and no external issuer is configured''), st)
      | Some external \<Rightarrow>
          (case aw_decode_header w token of
             Inl e \<Rightarrow> (Inl (Unauthenticated_status (''invalid token header: '' @ e)), st)
           | Inr header \<Rightarrow>
               if jh_alg header \<noteq> ''RS256'' then
                 (Inl (Unauthenticated_status ''token must be signed with RS256''), st)
               else
                 (case jh_kid header of
                    None \<Rightarrow> (Inl (Unauthenticated_status ''token header has no key id''), st)
                  | Some kid \<Rightarrow>
                      (case key_for w config kid st of
                         (Inl e, st) \<Rightarrow> (Inl e, st)
                       | (Inr key, cache, s) \<Rightarrow>
                           (case aw_verify w token key external CLOCK_LEEWAY_SECONDS s of
                              Inl e \<Rightarrow> (Inl (Unauthenticated_status (''token rejected: '' @ e)), cache, s)
                            | Inr payload \<Rightarrow>
                                (case json_str (map_of payload ''sub'') of
                                   None \<Rightarrow> (Inl (Unauthenticated_status ''token has no subject''), cache, s)
                                 | Some sub \<Rightarrow>
                                     if sub = [] then (Inl (Unauthenticated_status ''token has no subject''), cache, s)
                                     else (Inr (User \<lparr>jc_uid = Some sub, jc_payload = payload,
                                                      jc_project_id = Some (ei_audience external)\<rparr>), cache, s)))))))"

definition resolve_own ::
  "('k, 's) auth_world \<Rightarrow> string \<Rightarrow> 's \<Rightarrow> (status + resolved option) \<times> 's" where
  "resolve_own w token s = (case aw_resolve w of Some f \<Rightarrow> f token s | None \<Rightarrow> (Inr None, s))"

definition verify_authorize ::
  "('k, 's) auth_world \<Rightarrow> verify_config \<Rightarrow> string option \<Rightarrow> ('k, 's, authorization) verifier" where
  "verify_authorize w config header st =
     (case header of
        None \<Rightarrow> (Inr Unauthenticated, st)
      | Some header \<Rightarrow>
          (case bearer_token header of
             None \<Rightarrow> (Inl (Unauthenticated_status ''expected Bearer authorization''), st)
           | Some token \<Rightarrow>
               if (case vc_admin_token config of Some expected \<Rightarrow> secret_eq token expected | None \<Rightarrow> False)
               then (Inr (Admin default_admin), st)
               else
                 (case st of (cache, s) \<Rightarrow>
                    (case resolve_own w token s of
                       (Inl e, s) \<Rightarrow> (Inl e, cache, s)
                     | (Inr (Some (ServiceAccount email project)), s) \<Rightarrow>
                         (Inr (Admin \<lparr>ad_subject = Some email, ad_project_id = Some project\<rparr>), cache, s)
                     | (Inr (Some (ResolvedUser uid project claims)), s) \<Rightarrow>
                         (Inr (User \<lparr>jc_uid = Some uid, jc_payload = claims, jc_project_id = Some project\<rparr>), cache, s)
                     | (Inr None, s) \<Rightarrow> external_token w config token (cache, s)))))"

datatype auth_policy = Emulator | Verify_with verify_config

definition authorize ::
  "('k, 's) auth_world \<Rightarrow> auth_policy \<Rightarrow> string option \<Rightarrow> ('k, 's, authorization) verifier" where
  "authorize w policy header st =
     (case policy of
        Emulator \<Rightarrow> (from_header w header, st)
      | Verify_with config \<Rightarrow> verify_authorize w config header st)"

definition guards_admin_api :: "auth_policy \<Rightarrow> bool" where
  "guards_admin_api policy = (case policy of Verify_with _ \<Rightarrow> True | Emulator \<Rightarrow> False)"

section \<open>The constant-time comparison\<close>

lemma xor_zero_iff: "a XOR b = 0 \<longleftrightarrow> a = b" for a b :: u8
proof
  assume "a XOR b = 0"
  then have "(a XOR b) XOR b = 0 XOR b" by simp
  then show "a = b" by (simp add: xor.assoc)
qed simp

lemma fold_or_zero:
  fixes acc :: u8
  shows "fold (\<lambda>(a, b) acc. acc OR (a XOR b)) ps acc = 0 \<longleftrightarrow> acc = 0 \<and> (\<forall>(a, b) \<in> set ps. a = b)"
proof (induction ps arbitrary: acc)
  case (Cons p ps)
  obtain a b where p: "p = (a, b)" by fastforce
  have "acc OR (a XOR b) = 0 \<longleftrightarrow> acc = 0 \<and> a = b"
    by (simp add: or_eq_0_iff xor_zero_iff)
  with Cons show ?case by (simp add: p)
qed simp

lemma secret_eq_iff: "secret_eq candidate expected \<longleftrightarrow> candidate = expected"
proof -
  have "(\<forall>(a, b) \<in> set (zip c e). a = b) \<longleftrightarrow> c = e" if "length c = length e" for c e :: "u8 list"
    using that by (auto simp: list_eq_iff_zip_eq)
  from this [of "as_bytes candidate" "as_bytes expected"] show ?thesis
    by (cases "length candidate = length expected") (auto simp: secret_eq_def Let_def fold_or_zero)
qed

end
