(* ===== verification/RulesEval.thy ===== *)
theory RulesEval
  imports RulesStd
begin

text \<open>
  \<open>eval.rs\<close>: the evaluator of rule expressions.  Errors are values that \<open>&&\<close> and
  \<open>||\<close> can absorb; exhausted budgets (\<open>Fatal\<close>) are not.  An evaluation threads the
  host's state, the steps taken and the lookups made; the call depth is a parameter, since the
  source decrements it on every return that does not end the evaluation.
\<close>

definition MAX_STEPS :: nat where "MAX_STEPS = 10000"
definition MAX_CALL_DEPTH :: nat where "MAX_CALL_DEPTH = 20"

section \<open>Host, budget and scope\<close>

record 'h host =
  host_get :: "string list \<Rightarrow> bool \<Rightarrow> 'h \<Rightarrow> (string + rvalue option) \<times> 'h"
  host_exists :: "string list \<Rightarrow> bool \<Rightarrow> 'h \<Rightarrow> (string + bool) \<times> 'h"

record 'h evaluator =
  ev_host :: 'h
  steps :: nat
  lookups :: nat

record 'h rules_env =
  env_lib :: rules_lib
  env_host :: "'h host"
  env_functions :: "function_decl list"

type_synonym fatal = string
type_synonym ('h, 'a) ev = "'h evaluator \<Rightarrow> (fatal + 'a) \<times> 'h evaluator"
type_synonym scope = "(string \<times> rvalue) list"

definition new_evaluator :: "'h \<Rightarrow> 'h evaluator" where
  "new_evaluator h = \<lparr>ev_host = h, steps = 0, lookups = 0\<rparr>"

definition scope_bind :: "scope \<Rightarrow> string \<Rightarrow> rvalue \<Rightarrow> scope" where
  "scope_bind vars n v = vars @ [(n, v)]"

definition scope_lookup :: "scope \<Rightarrow> string \<Rightarrow> rvalue option" where
  "scope_lookup vars n = map_of (rev vars) n"

definition ret :: "'a \<Rightarrow> ('h, 'a) ev" where
  "ret a st = (Inr a, st)"

definition fatal :: "fatal \<Rightarrow> ('h, 'a) ev" where
  "fatal m st = (Inl m, st)"

definition bind :: "('h, 'a) ev \<Rightarrow> ('a \<Rightarrow> ('h, 'b) ev) \<Rightarrow> ('h, 'b) ev" where
  "bind m f st = (case m st of (Inl e, st') \<Rightarrow> (Inl e, st') | (Inr a, st') \<Rightarrow> f a st')"

text \<open>Evaluate, and return an undefined result as it is.\<close>

definition bind_defined :: "('h, rvalue) ev \<Rightarrow> (rvalue \<Rightarrow> ('h, rvalue) ev) \<Rightarrow> ('h, rvalue) ev" where
  "bind_defined m f = bind m (\<lambda>v. if is_undefined v then ret v else f v)"

definition bind_ok :: "('h, rvalue + 'a) ev \<Rightarrow> ('a \<Rightarrow> ('h, rvalue) ev) \<Rightarrow> ('h, rvalue) ev" where
  "bind_ok m f = bind m (\<lambda>r. case r of Inl u \<Rightarrow> ret u | Inr a \<Rightarrow> f a)"

definition step_then :: "('h, 'a) ev \<Rightarrow> ('h, 'a) ev" where
  "step_then m st =
     (let st' = st\<lparr>steps := steps st + 1\<rparr>
      in if MAX_STEPS < steps st' then fatal ''evaluation budget exhausted'' st' else m st')"

section \<open>Operators\<close>

definition add_timestamp :: "i64 \<Rightarrow> u32 \<Rightarrow> i64 \<Rightarrow> u32 \<Rightarrow> rvalue" where
  "add_timestamp s n ds dn =
     (let total = (s + ds) * 1000000000 + ucast n + ucast dn
      in VTimestamp (word_of_int (sint total div 1000000000)) (word_of_int (sint total mod 1000000000)))"

definition plus_nanos :: "rvalue \<Rightarrow> i64 \<Rightarrow> rvalue" where
  "plus_nanos v nanos =
     (case v of
        VTimestamp s n \<Rightarrow>
          (let total = s * 1000000000 + ucast n + nanos
           in VTimestamp (word_of_int (sint total div 1000000000)) (word_of_int (sint total mod 1000000000)))
      | _ \<Rightarrow> v)"

definition timestamp_difference :: "i64 \<Rightarrow> u32 \<Rightarrow> i64 \<Rightarrow> u32 \<Rightarrow> rvalue" where
  "timestamp_difference s1 n1 s2 n2 =
     (let total = (s1 - s2) * 1000000000 + (ucast n1 - ucast n2)
      in VDuration (word_of_int (sint total div 1000000000)) (word_of_int (sint total mod 1000000000)))"

definition int_arithmetic :: "bin_op \<Rightarrow> i64 \<Rightarrow> i64 \<Rightarrow> rvalue" where
  "int_arithmetic op a b =
     (let checked = or_undefined ''integer overflow''
      in case op of
           Add \<Rightarrow> checked (to_i64 (sint a + sint b))
         | Sub \<Rightarrow> checked (to_i64 (sint a - sint b))
         | Mul \<Rightarrow> checked (to_i64 (sint a * sint b))
         | Div \<Rightarrow> if b = 0 then VUndefined ''divide by zero'' else checked (to_i64 (sint a sdiv sint b))
         | _ \<Rightarrow> if b = 0 then VUndefined ''divide by zero''
                 else checked (if sint a = i64_min \<and> sint b = - 1 then None else to_i64 (sint a smod sint b)))"

definition float_arithmetic :: "bin_op \<Rightarrow> f64 \<Rightarrow> f64 \<Rightarrow> f64" where
  "float_arithmetic op a b =
     (case op of
        Add \<Rightarrow> f64_add a b | Sub \<Rightarrow> f64_sub a b | Mul \<Rightarrow> f64_mul a b | Div \<Rightarrow> f64_div a b
      | _ \<Rightarrow> f64_rem a b)"

definition number_arithmetic :: "bin_op \<Rightarrow> rvalue \<Rightarrow> rvalue \<Rightarrow> rvalue" where
  "number_arithmetic op l r =
     (let unsupported = VUndefined (''arithmetic not supported on '' @ type_name l @ '' and '' @ type_name r)
      in case (l, r) of
           (VInt a, VInt b) \<Rightarrow> int_arithmetic op a b
         | (VFloat _, _) \<Rightarrow>
             (case (numeric l, numeric r) of (Some a, Some b) \<Rightarrow> VFloat (float_arithmetic op a b) | _ \<Rightarrow> unsupported)
         | (_, VFloat _) \<Rightarrow>
             (case (numeric l, numeric r) of (Some a, Some b) \<Rightarrow> VFloat (float_arithmetic op a b) | _ \<Rightarrow> unsupported)
         | _ \<Rightarrow> unsupported)"

definition arithmetic :: "bin_op \<Rightarrow> rvalue \<Rightarrow> rvalue \<Rightarrow> rvalue" where
  "arithmetic op l r =
     (case (op, l, r) of
        (Add, VStr a, VStr b) \<Rightarrow> VStr (a @ b)
      | (Add, VList a, VList b) \<Rightarrow> VList (a @ b)
      | (Add, VTimestamp s n, VDuration ds dn) \<Rightarrow> add_timestamp s n ds dn
      | (Add, VDuration ds dn, VTimestamp s n) \<Rightarrow> add_timestamp s n ds dn
      | (Sub, VTimestamp s1 n1, VTimestamp s2 n2) \<Rightarrow> timestamp_difference s1 n1 s2 n2
      | (Sub, VTimestamp s n, VDuration ds dn) \<Rightarrow> plus_nanos (add_timestamp s n (- ds) 0) (- ucast dn)
      | _ \<Rightarrow> number_arithmetic op l r)"

definition comparison :: "(ordering \<Rightarrow> bool) \<Rightarrow> rvalue \<Rightarrow> rvalue \<Rightarrow> rvalue" where
  "comparison test l r =
     (case compare l r of
        Some ord \<Rightarrow> VBool (test ord)
      | None \<Rightarrow> VUndefined (''cannot compare '' @ type_name l @ '' with '' @ type_name r))"

definition contains :: "rvalue \<Rightarrow> rvalue \<Rightarrow> rvalue" where
  "contains l r =
     (case r of
        VList items \<Rightarrow> VBool (member_of l items)
      | VMap m \<Rightarrow>
          (case l of VStr k \<Rightarrow> VBool (bt_get m k \<noteq> None) | _ \<Rightarrow> VUndefined ''map membership requires a string key'')
      | _ \<Rightarrow> VUndefined ([CHR 0x27] @ ''in'' @ [CHR 0x27] @ '' not supported on '' @ type_name r))"

text \<open>\<open>&&\<close> and \<open>||\<close> never reach this function: \<open>unreachable!\<close>.\<close>

definition binary :: "bin_op \<Rightarrow> rvalue \<Rightarrow> rvalue \<Rightarrow> rvalue" where
  "binary op l r =
     (case op of
        Eq \<Rightarrow> VBool (equals l r)
      | Ne \<Rightarrow> VBool (\<not> equals l r)
      | Lt \<Rightarrow> comparison (\<lambda>ord. ord = Less) l r
      | Le \<Rightarrow> comparison (\<lambda>ord. ord \<noteq> Greater) l r
      | Gt \<Rightarrow> comparison (\<lambda>ord. ord = Greater) l r
      | Ge \<Rightarrow> comparison (\<lambda>ord. ord \<noteq> Less) l r
      | In \<Rightarrow> contains l r
      | And \<Rightarrow> VUndefined ''handled by logical()''
      | Or \<Rightarrow> VUndefined ''handled by logical()''
      | _ \<Rightarrow> arithmetic op l r)"

definition unary :: "un_op \<Rightarrow> rvalue \<Rightarrow> rvalue" where
  "unary op v =
     (case (op, v) of
        (NotOp, VBool b) \<Rightarrow> VBool (\<not> b)
      | (NegOp, VInt i) \<Rightarrow> or_undefined ''integer overflow'' (to_i64 (- sint i))
      | (NegOp, VFloat f) \<Rightarrow> VFloat (f64_neg f)
      | _ \<Rightarrow> VUndefined (''operator not supported on '' @ type_name v))"

text \<open>The result of \<open>&&\<close> (\<open>is_or = False\<close>) or \<open>||\<close> once both sides are known.\<close>

definition absorb :: "bool \<Rightarrow> rvalue \<Rightarrow> rvalue \<Rightarrow> rvalue" where
  "absorb is_or lv rv =
     (case (as_bool lv, as_bool rv) of
        (Some _, Some b) \<Rightarrow> VBool b
      | (None, Some b) \<Rightarrow> if b = is_or then VBool b else lv
      | (Some _, None) \<Rightarrow> rv
      | (None, None) \<Rightarrow> lv)"

definition member_value :: "rvalue \<Rightarrow> string \<Rightarrow> rvalue" where
  "member_value base field =
     (if is_undefined base then base
      else case base of
             VNull \<Rightarrow> VUndefined ''null value error''
           | VMap m \<Rightarrow>
               (case bt_get m field of Some v \<Rightarrow> v | None \<Rightarrow> VUndefined (''property '' @ field @ '' is undefined''))
           | _ \<Rightarrow> VUndefined (type_name base @ '' has no property '' @ field))"

text \<open>\<open>usize::try_from(i)\<close> and \<open>get\<close>: no element for a negative or too large index.\<close>

definition get_nth :: "'a list \<Rightarrow> i64 \<Rightarrow> 'a option" where
  "get_nth xs i = (if 0 \<le> sint i \<and> nat (sint i) < length xs then Some (xs ! nat (sint i)) else None)"

definition index_value :: "rvalue \<Rightarrow> rvalue \<Rightarrow> rvalue" where
  "index_value base index =
     (case (base, index) of
        (VList items, VInt i) \<Rightarrow> (case get_nth items i of Some v \<Rightarrow> v | None \<Rightarrow> VUndefined ''index out of bounds'')
      | (VStr s, VInt i) \<Rightarrow> (case get_nth (chars s) i of Some c \<Rightarrow> VStr c | None \<Rightarrow> VUndefined ''index out of bounds'')
      | (VMap m, VStr k) \<Rightarrow>
          (case bt_get m k of Some v \<Rightarrow> v | None \<Rightarrow> VUndefined (''property '' @ k @ '' is undefined''))
      | (VPath p, VInt i) \<Rightarrow> (case get_nth p i of Some s \<Rightarrow> VStr s | None \<Rightarrow> VUndefined ''index out of bounds'')
      | _ \<Rightarrow> VUndefined (''cannot index '' @ type_name base @ '' with '' @ type_name index))"

definition slice :: "'a list \<Rightarrow> nat \<Rightarrow> nat option \<Rightarrow> 'a list option" where
  "slice xs lo hi =
     (let hi = min (case hi of Some h \<Rightarrow> h | None \<Rightarrow> length xs) (length xs)
      in if hi < lo then None else Some (drop lo (take hi xs)))"

definition range_value :: "rvalue \<Rightarrow> nat \<Rightarrow> nat option \<Rightarrow> rvalue" where
  "range_value base lo hi =
     (case base of
        VList items \<Rightarrow> (case slice items lo hi of Some xs \<Rightarrow> VList xs | None \<Rightarrow> VUndefined ''illegal range'')
      | VStr s \<Rightarrow> (case slice (chars s) lo hi of Some cs \<Rightarrow> VStr (concat cs) | None \<Rightarrow> VUndefined ''illegal range'')
      | VPath p \<Rightarrow> (case slice p lo hi of Some q \<Rightarrow> VPath q | None \<Rightarrow> VUndefined ''illegal range'')
      | _ \<Rightarrow> VUndefined (''cannot slice '' @ type_name base))"

definition range_bound :: "rvalue \<Rightarrow> rvalue + nat" where
  "range_bound v =
     (case v of
        VInt i \<Rightarrow> Inr (nat (max 0 (sint i)))
      | _ \<Rightarrow> Inl (if is_undefined v then v else VUndefined ''range bound must be an int''))"

definition path_segments :: "rvalue \<Rightarrow> rvalue + string list" where
  "path_segments v =
     (case v of
        VStr s \<Rightarrow> Inr [s]
      | VPath p \<Rightarrow> Inr p
      | _ \<Rightarrow> Inl (if is_undefined v then v
                   else VUndefined (''path segment must be a string, got '' @ type_name v)))"

section \<open>Calls\<close>

definition namespaces :: "string list" where
  "namespaces = [''math'', ''duration'', ''latlng'', ''timestamp'', ''hashing'']"

definition namespaced :: "expr option \<Rightarrow> string \<Rightarrow> scope \<Rightarrow> string option" where
  "namespaced target name sc =
     (case target of
        Some (EIdent ns) \<Rightarrow>
          if ns \<in> set namespaces \<and> scope_lookup sc ns = None then Some (ns @ ''.'' @ name) else None
      | _ \<Rightarrow> None)"

definition call_scope :: "function_decl \<Rightarrow> rvalue list \<Rightarrow> scope \<Rightarrow> scope" where
  "call_scope decl argv vars =
     filter (\<lambda>(n, v). n \<notin> set (fd_params decl)) vars @ zip (fd_params decl) argv"

definition lookup_call :: "'h rules_env \<Rightarrow> string \<Rightarrow> string list \<Rightarrow> ('h, rvalue) ev" where
  "lookup_call env name path st =
     (let st = st\<lparr>lookups := lookups st + 1\<rparr>;
          after = (name = ''getAfter'' \<or> name = ''existsAfter'')
      in if 20 < lookups st then
           fatal ''Cannot call firestore functions more than 20 times during rules evaluation'' st
         else if name = ''get'' \<or> name = ''getAfter'' then
           (let (r, h) = host_get (env_host env) path after (ev_host st)
            in (Inr (case r of Inr (Some v) \<Rightarrow> v | Inr None \<Rightarrow> VNull | Inl e \<Rightarrow> VUndefined e), st\<lparr>ev_host := h\<rparr>))
         else
           (let (r, h) = host_exists (env_host env) path after (ev_host st)
            in (Inr (case r of Inr b \<Rightarrow> VBool b | Inl e \<Rightarrow> VUndefined e), st\<lparr>ev_host := h\<rparr>)))"

definition global_call :: "'h rules_env \<Rightarrow> string \<Rightarrow> rvalue list \<Rightarrow> ('h, rvalue) ev" where
  "global_call env name argv =
     (if name \<in> {''get'', ''getAfter'', ''exists'', ''existsAfter''} then
        (case argv of
           VPath path # _ \<Rightarrow> lookup_call env name path
         | _ \<Rightarrow> ret (VUndefined (name @ ''() expects a path'')))
      else ret (global (env_lib env) name argv))"

section \<open>Expressions\<close>

lemma size_list_snd: "size_list (size \<circ> snd) es \<le> size_list (size_prod (\<lambda>_. 0) size) es"
  by (induction es) auto

function (sequential)
  eval :: "'h rules_env \<Rightarrow> expr \<Rightarrow> scope \<Rightarrow> nat \<Rightarrow> ('h, rvalue) ev"
  and eval_list :: "'h rules_env \<Rightarrow> expr list \<Rightarrow> scope \<Rightarrow> nat \<Rightarrow> ('h, rvalue + rvalue list) ev"
  and eval_parts :: "'h rules_env \<Rightarrow> expr path_part list \<Rightarrow> scope \<Rightarrow> nat \<Rightarrow> ('h, rvalue + string list) ev"
  and eval_lets :: "'h rules_env \<Rightarrow> (string \<times> expr) list \<Rightarrow> scope \<Rightarrow> nat \<Rightarrow> ('h, scope) ev"
where
  "eval env ENull sc d = step_then (ret VNull)"
| "eval env (EBool b) sc d = step_then (ret (VBool b))"
| "eval env (EInt i) sc d = step_then (ret (VInt i))"
| "eval env (EFloat f) sc d = step_then (ret (VFloat f))"
| "eval env (EStr s) sc d = step_then (ret (VStr s))"
| "eval env (EList items) sc d =
     step_then (bind_ok (eval_list env items sc d) (\<lambda>out. ret (VList out)))"
| "eval env (EMap entries) sc d =
     step_then (bind_ok (eval_list env (map snd entries) sc d)
       (\<lambda>out. ret (VMap (bt_of_list (zip (map fst entries) out)))))"
| "eval env (EPath parts) sc d =
     step_then (bind_ok (eval_parts env parts sc d) (\<lambda>segments. ret (VPath segments)))"
| "eval env (EIdent name) sc d =
     step_then (ret (case scope_lookup sc name of
                       Some v \<Rightarrow> v | None \<Rightarrow> VUndefined (''undefined variable '' @ name)))"
| "eval env (EMember target field) sc d =
     step_then (bind (eval env target sc d) (\<lambda>base. ret (member_value base field)))"
| "eval env (EIndex target index) sc d =
     step_then (bind_defined (eval env target sc d) (\<lambda>base.
       bind_defined (eval env index sc d) (\<lambda>idx. ret (index_value base idx))))"
| "eval env (ERange target lo hi) sc d =
     step_then (bind_defined (eval env target sc d) (\<lambda>base.
       bind_ok (case lo of
                  Some e \<Rightarrow> bind (eval env e sc d) (\<lambda>v. ret (range_bound v))
                | None \<Rightarrow> ret (Inr 0)) (\<lambda>l.
       bind_ok (case hi of
                  Some e \<Rightarrow> bind (eval env e sc d) (\<lambda>v. ret (map_sum id Some (range_bound v)))
                | None \<Rightarrow> ret (Inr None)) (\<lambda>h.
       ret (range_value base l h)))))"
| "eval env (EUnary op inner) sc d =
     step_then (bind_defined (eval env inner sc d) (\<lambda>v. ret (unary op v)))"
| "eval env (EBinary op l r) sc d =
     step_then
       (if op = And \<or> op = Or then
          bind (eval env l sc d) (\<lambda>lv.
            if as_bool lv = Some (op = Or) then ret (VBool (op = Or))
            else bind (eval env r sc d) (\<lambda>rv. ret (absorb (op = Or) lv rv)))
        else
          bind_defined (eval env l sc d) (\<lambda>lv.
            bind_defined (eval env r sc d) (\<lambda>rv. ret (binary op lv rv))))"
| "eval env (ETernary cond thn els) sc d =
     step_then (bind (eval env cond sc d) (\<lambda>c.
       case as_bool c of
         Some True \<Rightarrow> eval env thn sc d
       | Some False \<Rightarrow> eval env els sc d
       | None \<Rightarrow> ret (if is_undefined c then c else VUndefined ''ternary condition must be a bool'')))"
| "eval env (EIs inner ty) sc d =
     step_then (bind_defined (eval env inner sc d) (\<lambda>v. ret (VBool (matches_type v ty))))"
| "eval env (ECall target name args) sc d =
     step_then
       (case namespaced target name sc of
          Some global_name \<Rightarrow>
            bind_ok (eval_list env args sc d) (\<lambda>argv. global_call env global_name argv)
        | None \<Rightarrow>
            (case target of
               Some t \<Rightarrow>
                 bind_defined (eval env t sc d) (\<lambda>recv.
                   bind_ok (eval_list env args sc d) (\<lambda>argv. ret (call_method (env_lib env) recv name argv)))
             | None \<Rightarrow>
                 bind_ok (eval_list env args sc d) (\<lambda>argv.
                   case find (\<lambda>f. fd_name f = name) (env_functions env) of
                     None \<Rightarrow> global_call env name argv
                   | Some decl \<Rightarrow>
                       if length (fd_params decl) \<noteq> length argv then
                         ret (VUndefined (''function '' @ name @ '' expects ''
                                          @ show_nat (length (fd_params decl)) @ '' arguments''))
                       else if MAX_CALL_DEPTH < d + 1 then
                         fatal ''maximum function call depth exceeded''
                       else
                         bind (eval_lets env (fd_lets decl) (call_scope decl argv sc) (d + 1))
                           (\<lambda>inner. eval env (fd_body decl) inner (d + 1)))))"
| "eval_list env [] sc d = ret (Inr [])"
| "eval_list env (e # es) sc d =
     bind (eval env e sc d) (\<lambda>v.
       if is_undefined v then ret (Inl v)
       else bind (eval_list env es sc d) (\<lambda>r. ret (map_sum id (Cons v) r)))"
| "eval_parts env [] sc d = ret (Inr [])"
| "eval_parts env (Static s # ps) sc d =
     bind (eval_parts env ps sc d) (\<lambda>r. ret (map_sum id (Cons s) r))"
| "eval_parts env (Splice e # ps) sc d =
     bind (eval env e sc d) (\<lambda>v.
       case path_segments v of
         Inl u \<Rightarrow> ret (Inl u)
       | Inr segs \<Rightarrow> bind (eval_parts env ps sc d) (\<lambda>r. ret (map_sum id (append segs) r)))"
| "eval_lets env [] sc d = ret sc"
| "eval_lets env ((n, e) # lets) sc d =
     bind (eval env e sc d) (\<lambda>v. eval_lets env lets (scope_bind sc n v) d)"
  by pat_completeness auto

termination
  by (relation "measures
        [\<lambda>x. case x of
              Inl (Inl (_, _, _, d)) \<Rightarrow> 21 - d | Inl (Inr (_, _, _, d)) \<Rightarrow> 21 - d
            | Inr (Inl (_, _, _, d)) \<Rightarrow> 21 - d | Inr (Inr (_, _, _, d)) \<Rightarrow> 21 - d,
         \<lambda>x. case x of
              Inl (Inl (_, e, _, _)) \<Rightarrow> size e
            | Inl (Inr (_, es, _, _)) \<Rightarrow> size_list size es
            | Inr (Inl (_, ps, _, _)) \<Rightarrow> size_list (size_path_part size) ps
            | Inr (Inr (_, ls, _, _)) \<Rightarrow> size_list (size_prod (\<lambda>_. 0) size) ls]")
     (auto simp: MAX_CALL_DEPTH_def le_imp_less_Suc size_list_snd)

declare eval.simps [simp del]

end
