(* ===== verification/RulesMatch.thy ===== *)
theory RulesMatch
  imports RulesEval
begin

text \<open>
  \<open>matcher.rs\<close>: matching a request path against \<open>match\<close> blocks, and the walk over a
  service's rules that evaluates the \<open>allow\<close> statements of every block consuming the whole
  path until one grants.  The vectors of captures and functions, which the source truncates on
  every return, are parameters; the flags \<open>granted\<close> and \<open>errored\<close> and the host are the
  state.
\<close>

definition WILDCARD_SEGMENT :: string where
  "WILDCARD_SEGMENT = [CHR 0x00, CHR ''*'']"

datatype rules_operation = OpGet | OpList | OpCreate | OpUpdate | OpDelete

datatype decision = Allow | Deny

definition operation_id :: "rules_operation \<Rightarrow> string" where
  "operation_id op =
     (case op of OpGet \<Rightarrow> ''get'' | OpList \<Rightarrow> ''list'' | OpCreate \<Rightarrow> ''create''
      | OpUpdate \<Rightarrow> ''update'' | OpDelete \<Rightarrow> ''delete'')"

definition covered_by :: "rules_operation \<Rightarrow> string \<Rightarrow> bool" where
  "covered_by op rule_method =
     (let m = to_ascii_lowercase rule_method
      in m = operation_id op
         \<or> (case op of OpGet \<Rightarrow> m = ''read'' | OpList \<Rightarrow> m = ''read'' | _ \<Rightarrow> m = ''write''))"

type_synonym captures = "(string \<times> rvalue) list"

definition bound_capture :: "string \<Rightarrow> rvalue" where
  "bound_capture value =
     (if value = WILDCARD_SEGMENT then VUndefined ''unbound path capture'' else VStr value)"

fun match_segments ::
  "rules_version \<Rightarrow> match_seg list \<Rightarrow> string list \<Rightarrow> nat \<Rightarrow> captures \<Rightarrow> (nat \<times> captures) option" where
  "match_segments version [] path i captures = Some (i, captures)"
| "match_segments version (Literal lit # segs) path i captures =
     (if i < length path \<and> path ! i = lit then match_segments version segs path (i + 1) captures else None)"
| "match_segments version (Capture name # segs) path i captures =
     (if i < length path
      then match_segments version segs path (i + 1) (captures @ [(name, bound_capture (path ! i))])
      else None)"
| "match_segments version (Glob name # segs) path i captures =
     (let remaining_after = length segs
      in if length path < i + remaining_after then None
         else
           let take_n = length path - remaining_after - i
           in if version = V1 \<and> take_n = 0 then None
              else match_segments version segs path (i + take_n)
                     (captures @ [(name, VPath (take take_n (drop i path)))]))"

section \<open>The walk\<close>

record 'h walk_state =
  ws_host :: 'h
  granted :: bool
  errored :: bool

record 'h rules_request =
  rq_lib :: rules_lib
  rq_host :: "'h host"
  rq_version :: rules_version
  rq_operation :: rules_operation
  rq_path :: "string list"
  rq_globals :: "(string \<times> rvalue) list"

type_synonym 'h walk = "'h walk_state \<Rightarrow> (fatal + unit) \<times> 'h walk_state"

definition request_env :: "'h rules_request \<Rightarrow> function_decl list \<Rightarrow> 'h rules_env" where
  "request_env rq functions = \<lparr>env_lib = rq_lib rq, env_host = rq_host rq, env_functions = functions\<rparr>"

definition allow_applies :: "rules_operation \<Rightarrow> allow_rule \<Rightarrow> bool" where
  "allow_applies op allow = list_ex (covered_by op) (al_methods allow)"

text \<open>One condition, with an evaluator of its own.\<close>

definition eval_allow ::
  "'h rules_request \<Rightarrow> function_decl list \<Rightarrow> scope \<Rightarrow> allow_rule \<Rightarrow> 'h \<Rightarrow> (fatal + rvalue) \<times> 'h" where
  "eval_allow rq functions sc allow h =
     (let (r, ev) = eval (request_env rq functions) (al_condition allow) sc 0 (new_evaluator h)
      in (r, ev_host ev))"

fun walk_allows ::
  "'h rules_request \<Rightarrow> function_decl list \<Rightarrow> scope \<Rightarrow> allow_rule list \<Rightarrow> 'h walk" where
  "walk_allows rq functions sc [] st = (Inr (), st)"
| "walk_allows rq functions sc (allow # allows) st =
     (if \<not> allow_applies (rq_operation rq) allow then walk_allows rq functions sc allows st
      else
        let (r, h) = eval_allow rq functions sc allow (ws_host st); st = st\<lparr>ws_host := h\<rparr>
        in case r of
             Inl e \<Rightarrow> (Inl e, st)
           | Inr v \<Rightarrow>
               (if v = VBool True then (Inr (), st\<lparr>granted := True\<rparr>)
                else if v = VBool False then walk_allows rq functions sc allows st
                else walk_allows rq functions sc allows (st\<lparr>errored := True\<rparr>)))"

fun walk :: "'h rules_request \<Rightarrow> match_rule \<Rightarrow> nat \<Rightarrow> captures \<Rightarrow> function_decl list \<Rightarrow> 'h walk"
  and walk_children :: "'h rules_request \<Rightarrow> match_rule list \<Rightarrow> nat \<Rightarrow> captures \<Rightarrow> function_decl list \<Rightarrow> 'h walk"
where
  "walk rq (MatchRule segs fns allows children) consumed captures functions st =
     (case match_segments (rq_version rq) segs (rq_path rq) consumed captures of
        None \<Rightarrow> (Inr (), st)
      | Some (after, captures) \<Rightarrow>
          (let functions = functions @ fns;
               (r, st) =
                 (if after = length (rq_path rq)
                  then walk_allows rq functions (rq_globals rq @ captures) allows st
                  else (Inr (), st))
           in case r of
                Inl e \<Rightarrow> (Inl e, st)
              | Inr _ \<Rightarrow>
                  (if granted st then (Inr (), st)
                   else walk_children rq children after captures functions st)))"
| "walk_children rq [] after captures functions st = (Inr (), st)"
| "walk_children rq (child # children) after captures functions st =
     (case walk rq child after captures functions st of
        (Inl e, st) \<Rightarrow> (Inl e, st)
      | (Inr _, st) \<Rightarrow>
          (if granted st then (Inr (), st) else walk_children rq children after captures functions st))"

fun evaluate_rules ::
  "'h rules_request \<Rightarrow> function_decl list \<Rightarrow> match_rule list \<Rightarrow> 'h walk_state \<Rightarrow> (fatal + decision) \<times> 'h walk_state" where
  "evaluate_rules rq functions [] st = (Inr Deny, st)"
| "evaluate_rules rq functions (rule # rules) st =
     (case walk rq rule 0 [] functions st of
        (Inl e, st) \<Rightarrow> (Inl e, st)
      | (Inr _, st) \<Rightarrow>
          (if granted st then (Inr Allow, st) else evaluate_rules rq functions rules st))"

definition evaluate ::
  "rules_lib \<Rightarrow> 'h host \<Rightarrow> ruleset \<Rightarrow> string \<Rightarrow> rules_operation \<Rightarrow> string list \<Rightarrow> (string \<times> rvalue) list \<Rightarrow> 'h
     \<Rightarrow> (fatal + decision) \<times> 'h" where
  "evaluate lib host ruleset service_name op path globals h =
     (case find (\<lambda>s. sr_name s = service_name) (rs_services ruleset) of
        None \<Rightarrow> (Inr Deny, h)
      | Some service \<Rightarrow>
          (let rq = \<lparr>rq_lib = lib, rq_host = host, rq_version = rs_version ruleset,
                     rq_operation = op, rq_path = path, rq_globals = globals\<rparr>;
               (r, st) = evaluate_rules rq (sr_functions service) (sr_matches service)
                           \<lparr>ws_host = h, granted = False, errored = False\<rparr>
           in (r, ws_host st)))"

text \<open>\<open>RequestBuilder::build\<close>.\<close>

record request_builder =
  rb_auth :: "rvalue option"
  rb_time :: rvalue
  rb_path :: "string list"
  rb_method :: rules_operation
  rb_resource :: "rvalue option"

definition build_request :: "request_builder \<Rightarrow> rvalue" where
  "build_request b =
     (let m = [];
          m = bt_insert ''auth'' (case rb_auth b of Some v \<Rightarrow> v | None \<Rightarrow> VNull) m;
          m = bt_insert ''time'' (rb_time b) m;
          m = bt_insert ''method'' (VStr (operation_id (rb_method b))) m;
          m = bt_insert ''path'' (VPath (rb_path b)) m;
          m = (case rb_resource b of Some r \<Rightarrow> bt_insert ''resource'' r m | None \<Rightarrow> m)
      in VMap m)"

end
