(* ===== verification/RulesRun.thy ===== *)
theory RulesRun
  imports RulesEval
begin

text \<open>
  The two ways the development reasons about an evaluation.  The locale \<open>run_contract\<close>
  is a Hoare logic: an invariant of the evaluator's state, the condition at a fatal end, and a
  condition on values kept by every operator.  The locale \<open>run_simulation\<close> relates the
  runs of two hosts.
\<close>

section \<open>Runs under an invariant\<close>

locale run_contract =
  fixes env :: "'h rules_env"
    and I J :: "'h evaluator \<Rightarrow> bool"
    and V :: "rvalue \<Rightarrow> bool"
  assumes weaken: "I st \<Longrightarrow> J st"
    and step_fatal: "I st \<Longrightarrow> J (st\<lparr>steps := steps st + 1\<rparr>)"
    and step_ok: "I st \<Longrightarrow> steps st + 1 \<le> MAX_STEPS \<Longrightarrow> I (st\<lparr>steps := steps st + 1\<rparr>)"
    and lookup_ok: "I st \<Longrightarrow>
      (case lookup_call env name path st of (Inl e, st') \<Rightarrow> J st' | (Inr v, st') \<Rightarrow> I st' \<and> V v)"
    and V_scalar: "V VNull" "V (VBool b)" "V (VInt i)" "V (VFloat f)" "V (VStr s)" "V (VPath p)" "V (VUndefined m)"
    and V_list: "(\<And>v. v \<in> set vs \<Longrightarrow> V v) \<Longrightarrow> V (VList vs)"
    and V_map: "(\<And>v. v \<in> set vs \<Longrightarrow> V v) \<Longrightarrow> V (VMap (bt_of_list (zip ks vs)))"
    and V_member: "V v \<Longrightarrow> V (member_value v field)"
    and V_index: "V v \<Longrightarrow> V w \<Longrightarrow> V (index_value v w)"
    and V_range: "V v \<Longrightarrow> V (range_value v lo hi)"
    and V_binary: "V v \<Longrightarrow> V w \<Longrightarrow> V (binary op v w)"
    and V_unary: "V v \<Longrightarrow> V (unary uop v)"
    and V_method: "V v \<Longrightarrow> (\<And>w. w \<in> set vs \<Longrightarrow> V w) \<Longrightarrow> V (call_method (env_lib env) v name vs)"
    and V_global: "(\<And>w. w \<in> set vs \<Longrightarrow> V w) \<Longrightarrow> V (global (env_lib env) name vs)"
begin

definition run_ok :: "('h, 'a) ev \<Rightarrow> ('a \<Rightarrow> bool) \<Rightarrow> bool" where
  "run_ok m P \<longleftrightarrow> (\<forall>st. I st \<longrightarrow> (case m st of (Inl e, st') \<Rightarrow> J st' | (Inr a, st') \<Rightarrow> I st' \<and> P a))"

definition scope_ok :: "scope \<Rightarrow> bool" where
  "scope_ok sc \<longleftrightarrow> (\<forall>v \<in> snd ` set sc. V v)"

lemma run_okI:
  assumes "\<And>st e st'. I st \<Longrightarrow> m st = (Inl e, st') \<Longrightarrow> J st'"
    and "\<And>st a st'. I st \<Longrightarrow> m st = (Inr a, st') \<Longrightarrow> I st' \<and> P a"
  shows "run_ok m P"
  unfolding run_ok_def using assms by (auto split: prod.splits sum.splits)

lemma run_okD:
  assumes "run_ok m P" "I st"
  shows "m st = (Inl e, st') \<Longrightarrow> J st'" "m st = (Inr a, st') \<Longrightarrow> I st' \<and> P a"
  using assms by (auto simp: run_ok_def)

lemma ok_ret: "P a \<Longrightarrow> run_ok (ret a) P"
  by (rule run_okI) (auto simp: ret_def)

lemma ok_fatal: "run_ok (fatal m) P"
  by (rule run_okI) (auto simp: fatal_def weaken)

lemma ok_bind:
  assumes m: "run_ok m P" and f: "\<And>a. P a \<Longrightarrow> run_ok (f a) Q"
  shows "run_ok (bind m f) Q"
proof (rule run_okI)
  fix st e st' assume st: "I st" "bind m f st = (Inl e, st')"
  then show "J st'"
    using run_okD [OF m st(1)] run_okD(1) [OF f] by (fastforce simp: bind_def split: prod.splits sum.splits)
next
  fix st a st' assume st: "I st" "bind m f st = (Inr a, st')"
  then obtain b st'' where b: "m st = (Inr b, st'')" "f b st'' = (Inr a, st')"
    by (auto simp: bind_def split: prod.splits sum.splits)
  show "I st' \<and> Q a" using run_okD(2) [OF m st(1) b(1)] run_okD(2) [OF f _ b(2)] by blast
qed

lemma ok_if: "(b \<Longrightarrow> run_ok m P) \<Longrightarrow> (\<not> b \<Longrightarrow> run_ok n P) \<Longrightarrow> run_ok (if b then m else n) P"
  by simp

lemma ok_sum:
  "case_sum P Q r \<Longrightarrow> (\<And>u. P u \<Longrightarrow> run_ok (f u) R) \<Longrightarrow> (\<And>a. Q a \<Longrightarrow> run_ok (g a) R)
     \<Longrightarrow> run_ok (case r of Inl u \<Rightarrow> f u | Inr a \<Rightarrow> g a) R"
  by (cases r) auto

lemma ok_bind_defined:
  "run_ok m V \<Longrightarrow> (\<And>v. V v \<Longrightarrow> run_ok (f v) V) \<Longrightarrow> run_ok (bind_defined m f) V"
  unfolding bind_defined_def by (erule ok_bind) (simp add: ok_ret)

lemma ok_bind_ok:
  "run_ok m (case_sum V P) \<Longrightarrow> (\<And>a. P a \<Longrightarrow> run_ok (f a) V) \<Longrightarrow> run_ok (bind_ok m f) V"
  unfolding bind_ok_def by (erule ok_bind, erule ok_sum) (simp_all add: ok_ret)

lemma ok_step: "run_ok m P \<Longrightarrow> run_ok (step_then m) P"
  unfolding run_ok_def step_then_def fatal_def Let_def
  using step_fatal step_ok by (simp add: not_less)

lemma ok_lookup: "run_ok (lookup_call env name path) V"
  unfolding run_ok_def by (intro allI impI) (erule lookup_ok)

lemma ok_global_call: "(\<And>w. w \<in> set vs \<Longrightarrow> V w) \<Longrightarrow> run_ok (global_call env name vs) V"
  unfolding global_call_def by (auto intro!: ok_lookup ok_ret V_scalar V_global split: list.splits rvalue.splits)

lemma scope_lookup_ok: "scope_ok sc \<Longrightarrow> scope_lookup sc n = Some v \<Longrightarrow> V v"
  unfolding scope_ok_def scope_lookup_def by (metis image_eqI map_of_SomeD set_rev snd_conv)

lemma scope_bind_ok: "scope_ok sc \<Longrightarrow> V v \<Longrightarrow> scope_ok (scope_bind sc n v)"
  by (auto simp: scope_ok_def scope_bind_def)

lemma call_scope_ok: "scope_ok sc \<Longrightarrow> (\<And>w. w \<in> set vs \<Longrightarrow> V w) \<Longrightarrow> scope_ok (call_scope decl vs sc)"
  by (fastforce simp: scope_ok_def call_scope_def dest: set_zip_rightD)

lemma V_absorb: "V v \<Longrightarrow> V w \<Longrightarrow> V (absorb b v w)"
  by (auto simp: absorb_def V_scalar split: option.splits)

lemma range_bound_ok: "V v \<Longrightarrow> case_sum V (\<lambda>_. True) (range_bound v)"
  by (auto simp: range_bound_def V_scalar split: rvalue.splits)

lemma path_segments_ok: "V v \<Longrightarrow> case_sum V (\<lambda>_. True) (path_segments v)"
  by (auto simp: path_segments_def V_scalar split: rvalue.splits)

lemmas ok_intros = ok_step ok_bind_defined ok_bind ok_bind_ok ok_ret ok_fatal ok_global_call

lemma ok_option:
  "(\<And>a. r = Some a \<Longrightarrow> run_ok (f a) P) \<Longrightarrow> (r = None \<Longrightarrow> run_ok m P)
     \<Longrightarrow> run_ok (case r of Some a \<Rightarrow> f a | None \<Rightarrow> m) P"
  by (cases r) auto

lemma range_bound_some_ok: "V v \<Longrightarrow> case_sum V (\<lambda>_. True) (map_sum id Some (range_bound v))"
  using range_bound_ok [of v] by (auto split: sum.splits simp: map_sum_def)

lemma run_eval:
  "e' = env \<Longrightarrow> scope_ok sc \<Longrightarrow> run_ok (eval e' e sc d) V"
  "e' = env \<Longrightarrow> scope_ok sc \<Longrightarrow> run_ok (eval_list e' es sc d) (case_sum V (\<lambda>vs. \<forall>v \<in> set vs. V v))"
  "e' = env \<Longrightarrow> scope_ok sc \<Longrightarrow> run_ok (eval_parts e' ps sc d) (case_sum V (\<lambda>_. True))"
  "e' = env \<Longrightarrow> scope_ok sc \<Longrightarrow> run_ok (eval_lets e' ls sc d) scope_ok"
proof (induction e' e sc d and e' es sc d and e' ps sc d and e' ls sc d
    rule: eval_eval_list_eval_parts_eval_lets.induct)
  case (6 e' items sc d)
  then show ?case by (auto simp: eval.simps intro!: ok_step ok_bind_ok [where P = "\<lambda>vs. \<forall>v \<in> set vs. V v"] ok_ret V_list)
next
  case (7 e' entries sc d)
  then show ?case by (auto simp: eval.simps intro!: ok_step ok_bind_ok [where P = "\<lambda>vs. \<forall>v \<in> set vs. V v"] ok_ret V_map)
next
  case (8 e' parts sc d)
  then show ?case by (auto simp: eval.simps intro!: ok_step ok_bind_ok [where P = "\<lambda>_. True"] ok_ret V_scalar)
next
  case (9 e' name sc d)
  then show ?case
    by (cases "scope_lookup sc name") (auto simp: eval.simps V_scalar scope_lookup_ok intro!: ok_step ok_ret)
next
  case (10 e' target field sc d)
  then show ?case by (auto simp: eval.simps intro!: ok_step ok_bind [where P = V] ok_ret V_member)
next
  case (11 e' target index sc d)
  then show ?case by (auto simp: eval.simps intro!: ok_step ok_bind_defined ok_ret V_index)
next
  case (12 e' target lo hi sc d)
  have target: "run_ok (eval e' target sc d) V" using 12 by blast
  have lower: "run_ok (case lo of Some e \<Rightarrow> bind (eval e' e sc d) (\<lambda>v. ret (range_bound v)) | None \<Rightarrow> ret (Inr 0))
      (case_sum V (\<lambda>_. True))"
    using 12 by (cases lo) (auto intro!: ok_ret range_bound_ok ok_bind [where P = V])
  have upper: "run_ok (case hi of Some e \<Rightarrow> bind (eval e' e sc d) (\<lambda>v. ret (map_sum id Some (range_bound v)))
      | None \<Rightarrow> ret (Inr None)) (case_sum V (\<lambda>_. True))"
    using 12 by (cases hi) (auto intro!: ok_ret range_bound_some_ok ok_bind [where P = V])
  show ?case unfolding eval.simps
    by (rule ok_step, rule ok_bind_defined [OF target], rule ok_bind_ok [OF lower], rule ok_bind_ok [OF upper])
      (rule ok_ret, erule V_range)
next
  case (13 e' op inner sc d)
  then show ?case by (auto simp: eval.simps intro!: ok_step ok_bind_defined ok_ret V_unary)
next
  case (14 e' op l r sc d)
  show ?case
  proof (cases "op = And \<or> op = Or")
    case True
    show ?thesis unfolding eval.simps if_P [OF True]
      by (intro ok_step ok_bind [where P = V] ok_if) (use True in \<open>auto intro!: 14(1,2) 14(5,6) ok_ret V_absorb V_scalar\<close>)
  next
    case False
    show ?thesis unfolding eval.simps if_not_P [OF False]
      by (intro ok_step ok_bind_defined) (use False in \<open>auto intro!: 14(3,4) 14(5,6) ok_ret V_binary\<close>)
  qed
next
  case (15 e' cond thn els sc d)
  show ?case unfolding eval.simps
    by (intro ok_step ok_bind [where P = V]) (auto intro!: 15 ok_ret V_scalar split: option.splits bool.splits)
next
  case (16 e' inner ty sc d)
  then show ?case by (auto simp: eval.simps intro!: ok_step ok_bind_defined ok_ret V_scalar)
next
  case (17 e' target name args sc d)
  note argv = ok_bind_ok [where P = "\<lambda>vs. \<forall>v \<in> set vs. V v"]
  have e: "e' = env" by fact
  show ?case
  proof (cases "namespaced target name sc")
    case (Some g)
    with 17 have "run_ok (eval_list env args sc d) (case_sum V (\<lambda>vs. \<forall>v \<in> set vs. V v))" by simp
    then show ?thesis unfolding eval.simps Some option.case e
      by (intro ok_step argv) (auto intro: ok_global_call)
  next
    case plain: None
    show ?thesis
    proof (cases target)
      case (Some t)
      with 17 plain have "run_ok (eval env t sc d) V"
        "run_ok (eval_list env args sc d) (case_sum V (\<lambda>vs. \<forall>v \<in> set vs. V v))" by auto
      then show ?thesis unfolding eval.simps plain option.case unfolding Some option.case e
        by (intro ok_step ok_bind_defined argv) (auto intro!: ok_ret V_method)
    next
      case None
      with 17 plain have args: "run_ok (eval_list env args sc d) (case_sum V (\<lambda>vs. \<forall>v \<in> set vs. V v))" by auto
      have body: "run_ok (bind (eval_lets env (fd_lets decl) (call_scope decl vs sc) (d + 1))
            (\<lambda>inner. eval env (fd_body decl) inner (d + 1))) V"
        if "find (\<lambda>f. fd_name f = name) (env_functions env) = Some decl" "length (fd_params decl) = length vs"
          "\<not> MAX_CALL_DEPTH < d + 1" "\<forall>v \<in> set vs. V v" for decl vs
      proof -
        have sc: "scope_ok (call_scope decl vs sc)" using that 17 by (simp add: call_scope_ok)
        with that 17 plain None e
        have "run_ok (eval_lets env (fd_lets decl) (call_scope decl vs sc) (d + 1)) scope_ok" by simp
        then show ?thesis by (rule ok_bind) (use that 17 plain None e sc in auto)
      qed
      show ?thesis unfolding eval.simps plain option.case unfolding None option.case e
        by (intro ok_step argv [OF args] ok_option ok_if ok_fatal body ok_global_call) (auto intro!: ok_ret V_scalar)
    qed
  qed
next
  case (19 e' e es sc d)
  show ?case unfolding eval_list.simps eval_parts.simps eval_lets.simps
    by (intro ok_bind [where P = V] ok_if ok_bind [where P = "case_sum V (\<lambda>vs. \<forall>v \<in> set vs. V v)"])
      (auto intro!: 19 ok_ret split: sum.splits)
next
  case (21 e' s ps sc d)
  show ?case unfolding eval_list.simps eval_parts.simps eval_lets.simps
    by (intro ok_bind [where P = "case_sum V (\<lambda>_. True)"]) (auto intro!: 21 ok_ret split: sum.splits)
next
  case (22 e' e ps sc d)
  have v: "run_ok (eval e' e sc d) V" using 22 by simp
  show ?case unfolding eval_parts.simps
  proof (rule ok_bind [OF v])
    fix v assume "V v"
    then have c: "case_sum V (\<lambda>_. True) (path_segments v)" by (rule path_segments_ok)
    show "run_ok (case path_segments v of Inl u \<Rightarrow> ret (Inl u)
          | Inr segs \<Rightarrow> bind (eval_parts e' ps sc d) (\<lambda>r. ret (map_sum id (append segs) r))) (case_sum V (\<lambda>_. True))"
    proof (cases "path_segments v")
      case (Inl u)
      with c show ?thesis by (simp add: ok_ret)
    next
      case (Inr segs)
      with 22 have "run_ok (eval_parts e' ps sc d) (case_sum V (\<lambda>_. True))" by simp
      then show ?thesis using Inr by (auto intro!: ok_ret ok_bind split: sum.splits)
    qed
  qed
next
  case (24 e' n e ls sc d)
  show ?case unfolding eval_list.simps eval_parts.simps eval_lets.simps
    by (rule ok_bind [where P = V]) (auto intro!: 24 scope_bind_ok)
qed (auto simp: eval.simps intro!: ok_step ok_ret V_scalar)

lemmas eval_ok = run_eval(1) [OF refl]

end

section \<open>Runs of two hosts\<close>

locale run_simulation =
  fixes env1 :: "'g rules_env" and env2 :: "'h rules_env" and rel :: "'g \<Rightarrow> 'h \<Rightarrow> bool"
  assumes same_lib: "env_lib env1 = env_lib env2"
    and same_functions: "env_functions env1 = env_functions env2"
    and get_sim: "rel g h \<Longrightarrow> fst (host_get (env_host env1) path after g) = fst (host_get (env_host env2) path after h)
      \<and> rel (snd (host_get (env_host env1) path after g)) (snd (host_get (env_host env2) path after h))"
    and exists_sim: "rel g h \<Longrightarrow> fst (host_exists (env_host env1) path after g) = fst (host_exists (env_host env2) path after h)
      \<and> rel (snd (host_exists (env_host env1) path after g)) (snd (host_exists (env_host env2) path after h))"
begin

definition agree :: "'g evaluator \<Rightarrow> 'h evaluator \<Rightarrow> bool" where
  "agree s t \<longleftrightarrow> rel (ev_host s) (ev_host t) \<and> steps s = steps t \<and> lookups s = lookups t"

definition sim :: "('g, 'a) ev \<Rightarrow> ('h, 'a) ev \<Rightarrow> bool" where
  "sim m n \<longleftrightarrow> (\<forall>s t. agree s t \<longrightarrow> fst (m s) = fst (n t) \<and> agree (snd (m s)) (snd (n t)))"

lemma sim_ret: "sim (ret a) (ret a)"
  by (simp add: sim_def ret_def)

lemma sim_fatal: "sim (fatal m) (fatal m)"
  by (simp add: sim_def fatal_def)

lemma sim_bind:
  assumes m: "sim m n" and f: "\<And>a. sim (f a) (g a)"
  shows "sim (bind m f) (bind n g)"
  unfolding sim_def
proof (intro allI impI)
  fix s t assume st: "agree s t"
  obtain r s' where s': "m s = (r, s')" by fastforce
  obtain q t' where t': "n t = (q, t')" by fastforce
  have "fst (m s) = fst (n t) \<and> agree (snd (m s)) (snd (n t))" using m st unfolding sim_def by blast
  then have "q = r" "agree s' t'" by (simp_all add: s' t')
  then show "fst (bind m f s) = fst (bind n g t) \<and> agree (snd (bind m f s)) (snd (bind n g t))"
    using f s' t' by (cases r) (auto simp: bind_def sim_def)
qed

lemma sim_if: "(b \<Longrightarrow> sim m n) \<Longrightarrow> (\<not> b \<Longrightarrow> sim m' n') \<Longrightarrow> sim (if b then m else m') (if b then n else n')"
  by simp

lemma sim_sum:
  "(\<And>u. r = Inl u \<Longrightarrow> sim (f u) (f' u)) \<Longrightarrow> (\<And>a. r = Inr a \<Longrightarrow> sim (g a) (g' a))
     \<Longrightarrow> sim (case r of Inl u \<Rightarrow> f u | Inr a \<Rightarrow> g a) (case r of Inl u \<Rightarrow> f' u | Inr a \<Rightarrow> g' a)"
  by (cases r) auto

lemma sim_option:
  "(\<And>a. r = Some a \<Longrightarrow> sim (f a) (f' a)) \<Longrightarrow> (r = None \<Longrightarrow> sim m n)
     \<Longrightarrow> sim (case r of Some a \<Rightarrow> f a | None \<Rightarrow> m) (case r of Some a \<Rightarrow> f' a | None \<Rightarrow> n)"
  by (cases r) auto

lemma sim_bind_defined: "sim m n \<Longrightarrow> (\<And>v. sim (f v) (g v)) \<Longrightarrow> sim (bind_defined m f) (bind_defined n g)"
  unfolding bind_defined_def by (erule sim_bind) (rule sim_if [OF sim_ret])

lemma sim_bind_ok: "sim m n \<Longrightarrow> (\<And>a. sim (f a) (g a)) \<Longrightarrow> sim (bind_ok m f) (bind_ok n g)"
  unfolding bind_ok_def by (erule sim_bind) (rule sim_sum [OF sim_ret])

lemma sim_step:
  assumes "sim m n" shows "sim (step_then m) (step_then n)"
  unfolding sim_def
proof (intro allI impI)
  fix s t assume "agree s t"
  then have "agree (s\<lparr>steps := steps s + 1\<rparr>) (t\<lparr>steps := steps t + 1\<rparr>)" "steps s = steps t" by (auto simp: agree_def)
  with assms show "fst (step_then m s) = fst (step_then n t) \<and> agree (snd (step_then m s)) (snd (step_then n t))"
    by (simp add: step_then_def sim_def fatal_def Let_def)
qed

lemma sim_lookup: "sim (lookup_call env1 name path) (lookup_call env2 name path)"
  unfolding sim_def
proof (intro allI impI)
  fix s t assume a: "agree s t"
  then have r: "rel (ev_host s) (ev_host t)" and c: "steps s = steps t" "lookups s = lookups t" by (auto simp: agree_def)
  show "fst (lookup_call env1 name path s) = fst (lookup_call env2 name path t)
      \<and> agree (snd (lookup_call env1 name path s)) (snd (lookup_call env2 name path t))"
    using get_sim [OF r] exists_sim [OF r] r c
    by (simp add: lookup_call_def Let_def fatal_def agree_def split_beta)
qed

lemma sim_global_call: "sim (global_call env1 name argv) (global_call env2 name argv)"
  unfolding global_call_def same_lib by (auto intro: sim_lookup sim_ret split: list.splits rvalue.splits)

lemmas sim_intros = sim_step sim_bind_defined sim_bind_ok sim_bind sim_if sim_ret sim_fatal sim_global_call

lemma run_sim:
  "e' = env1 \<Longrightarrow> sim (eval e' e sc d) (eval env2 e sc d)"
  "e' = env1 \<Longrightarrow> sim (eval_list e' es sc d) (eval_list env2 es sc d)"
  "e' = env1 \<Longrightarrow> sim (eval_parts e' ps sc d) (eval_parts env2 ps sc d)"
  "e' = env1 \<Longrightarrow> sim (eval_lets e' ls sc d) (eval_lets env2 ls sc d)"
proof (induction e' e sc d and e' es sc d and e' ps sc d and e' ls sc d
    rule: eval_eval_list_eval_parts_eval_lets.induct)
  case (12 e' target lo hi sc d)
  have target: "sim (eval e' target sc d) (eval env2 target sc d)" using 12 by blast
  have lower: "sim (case lo of Some e \<Rightarrow> bind (eval e' e sc d) (\<lambda>v. ret (range_bound v)) | None \<Rightarrow> ret (Inr 0))
      (case lo of Some e \<Rightarrow> bind (eval env2 e sc d) (\<lambda>v. ret (range_bound v)) | None \<Rightarrow> ret (Inr 0))"
    using 12 by (cases lo) (auto intro!: sim_ret sim_bind)
  have upper: "sim (case hi of Some e \<Rightarrow> bind (eval e' e sc d) (\<lambda>v. ret (map_sum id Some (range_bound v))) | None \<Rightarrow> ret (Inr None))
      (case hi of Some e \<Rightarrow> bind (eval env2 e sc d) (\<lambda>v. ret (map_sum id Some (range_bound v))) | None \<Rightarrow> ret (Inr None))"
    using 12 by (cases hi) (auto intro!: sim_ret sim_bind)
  show ?case unfolding eval.simps
    by (rule sim_step, rule sim_bind_defined [OF target], rule sim_bind_ok [OF lower], rule sim_bind_ok [OF upper], rule sim_ret)
next
  case (14 e' op l r sc d)
  show ?case
  proof (cases "op = And \<or> op = Or")
    case True
    show ?thesis unfolding eval.simps if_P [OF True]
      by (intro sim_intros) (use True in \<open>auto intro!: 14(1,2) 14(5)\<close>)
  next
    case False
    show ?thesis unfolding eval.simps if_not_P [OF False]
      by (intro sim_intros) (use False in \<open>auto intro!: 14(3,4) 14(5)\<close>)
  qed
next
  case (15 e' cond thn els sc d)
  then show ?case unfolding eval.simps
    by (intro sim_intros) (auto intro!: sim_intros split: option.splits bool.splits)
next
  case (17 e' target name args sc d)
  have e: "e' = env1" by fact
  show ?case
  proof (cases "namespaced target name sc")
    case (Some g)
    with 17 have "sim (eval_list env1 args sc d) (eval_list env2 args sc d)" by simp
    then show ?thesis unfolding eval.simps Some option.case e by (intro sim_intros)
  next
    case plain: None
    show ?thesis
    proof (cases target)
      case (Some t)
      with 17 plain have "sim (eval env1 t sc d) (eval env2 t sc d)"
        "sim (eval_list env1 args sc d) (eval_list env2 args sc d)" by auto
      then show ?thesis unfolding eval.simps plain option.case unfolding Some option.case e same_lib
        by (intro sim_intros)
    next
      case None
      with 17 plain have args: "sim (eval_list env1 args sc d) (eval_list env2 args sc d)" by auto
      have body: "sim (bind (eval_lets env1 (fd_lets decl) (call_scope decl vs sc) (d + 1))
            (\<lambda>inner. eval env1 (fd_body decl) inner (d + 1)))
          (bind (eval_lets env2 (fd_lets decl) (call_scope decl vs sc) (d + 1))
            (\<lambda>inner. eval env2 (fd_body decl) inner (d + 1)))"
        if "find (\<lambda>f. fd_name f = name) (env_functions env1) = Some decl" "\<not> length (fd_params decl) \<noteq> length vs"
          "\<not> MAX_CALL_DEPTH < d + 1" for decl vs
        using that 17 plain None e by (intro sim_bind) auto
      show ?thesis unfolding eval.simps plain option.case unfolding None option.case e same_functions [symmetric]
        by (intro sim_step sim_bind_ok [OF args] sim_option sim_if sim_ret sim_fatal sim_global_call body)
    qed
  qed
qed (auto simp: eval.simps intro!: sim_intros sim_sum)

lemmas eval_sim = run_sim(1) [OF refl]

end

end
