(* ===== verification/RulesSpec.thy ===== *)
theory RulesSpec
  imports RulesMatch RulesRun
begin

text \<open>
  What the matcher promises: \<open>pattern\<close> says which lists of path segments a \<open>match\<close>
  path describes, \<open>candidates\<close> lists the \<open>allow\<close> statements that apply to a request, in
  the order in which the walk reaches them, and \<open>run_candidates\<close> decides the request from
  that list.
\<close>

section \<open>Match paths\<close>

inductive pattern :: "rules_version \<Rightarrow> match_seg list \<Rightarrow> string list \<Rightarrow> captures \<Rightarrow> bool" for v where
  pattern_Nil: "pattern v [] [] []"
| pattern_Literal: "pattern v segs p cs \<Longrightarrow> pattern v (Literal s # segs) (s # p) cs"
| pattern_Capture: "pattern v segs p cs \<Longrightarrow> pattern v (Capture n # segs) (s # p) ((n, bound_capture s) # cs)"
| pattern_Glob: "pattern v segs p cs \<Longrightarrow> v = V1 \<longrightarrow> q \<noteq> [] \<Longrightarrow> pattern v (Glob n # segs) (q @ p) ((n, VPath q) # cs)"

inductive_cases pattern_NilE: "pattern v [] p cs"
inductive_cases pattern_LiteralE: "pattern v (Literal s # segs) p cs"
inductive_cases pattern_CaptureE: "pattern v (Capture n # segs) p cs"
inductive_cases pattern_GlobE: "pattern v (Glob n # segs) p cs"

lemmas pattern_elims = pattern_NilE pattern_LiteralE pattern_CaptureE pattern_GlobE

fun is_glob :: "match_seg \<Rightarrow> bool" where
  "is_glob (Glob n) = True"
| "is_glob _ = False"

lemma take_drop_Suc:
  "i < length xs \<Longrightarrow> i < j \<Longrightarrow> take (j - i) (drop i xs) = xs ! i # take (j - Suc i) (drop (Suc i) xs)"
  by (simp add: Cons_nth_drop_Suc [symmetric] Suc_diff_Suc [symmetric] del: Cons_nth_drop_Suc)

lemma drop_eq_ConsD:
  assumes "drop i xs = y # ys" shows "i < length xs \<and> xs ! i = y \<and> drop (Suc i) xs = ys"
proof -
  have i: "i < length xs" using assms by (metis drop_all linorder_not_less list.distinct(1))
  with assms show ?thesis by (simp add: Cons_nth_drop_Suc [symmetric])
qed

lemma match_segments_sound:
  "match_segments v segs path i caps = Some (j, caps') \<Longrightarrow> i \<le> length path \<Longrightarrow>
   i \<le> j \<and> j \<le> length path \<and> (\<exists>cs. caps' = caps @ cs \<and> pattern v segs (take (j - i) (drop i path)) cs)"
proof (induction v segs path i caps arbitrary: j rule: match_segments.induct)
  case (1 v path i caps)
  then show ?case by (auto intro: pattern_Nil)
next
  case (2 v lit segs path i caps)
  from "2.prems" have m: "i < length path" "path ! i = lit" "match_segments v segs path (i + 1) caps = Some (j, caps')"
    by (auto split: if_splits)
  with 2 obtain cs where "i + 1 \<le> j" "j \<le> length path" "caps' = caps @ cs"
    "pattern v segs (take (j - (i + 1)) (drop (i + 1) path)) cs" by fastforce
  then show ?case using m by (auto simp: take_drop_Suc intro: pattern_Literal)
next
  case (3 v name segs path i caps)
  from "3.prems" have m: "i < length path"
    "match_segments v segs path (i + 1) (caps @ [(name, bound_capture (path ! i))]) = Some (j, caps')"
    by (auto split: if_splits)
  with 3 obtain cs where "i + 1 \<le> j" "j \<le> length path" "caps' = (caps @ [(name, bound_capture (path ! i))]) @ cs"
    "pattern v segs (take (j - (i + 1)) (drop (i + 1) path)) cs" by fastforce
  then show ?case using m by (auto simp: take_drop_Suc intro: pattern_Capture)
next
  case (4 v name segs path i caps)
  define n where "n = length path - length segs - i"
  from "4.prems" have m: "i + length segs \<le> length path" "v = V1 \<longrightarrow> n \<noteq> 0"
    "match_segments v segs path (i + n) (caps @ [(name, VPath (take n (drop i path)))]) = Some (j, caps')"
    by (auto simp: Let_def n_def not_less split: if_splits)
  have "i + n \<le> length path" using m(1) by (simp add: n_def)
  from "4.IH" [of "length segs" n] m this obtain cs where cs: "i + n \<le> j" "j \<le> length path"
    "caps' = (caps @ [(name, VPath (take n (drop i path)))]) @ cs"
    "pattern v segs (take (j - (i + n)) (drop (i + n) path)) cs"
    by (auto simp: n_def not_less)
  have "take (j - i) (drop i path) = take n (drop i path) @ take (j - (i + n)) (drop (i + n) path)"
    using cs(1) take_add [of n "j - (i + n)" "drop i path"] by (simp add: add.commute)
  moreover have "v = V1 \<longrightarrow> take n (drop i path) \<noteq> []" using m(2) \<open>i + n \<le> length path\<close> by auto
  ultimately show ?case using cs by (auto intro!: pattern_Glob)
qed

lemma pattern_length: "pattern v segs p cs \<Longrightarrow> \<not> list_ex is_glob segs \<Longrightarrow> length p = length segs"
  by (induction rule: pattern.induct) auto

lemma match_segments_complete:
  "pattern v segs p cs \<Longrightarrow> length (filter is_glob segs) \<le> 1 \<Longrightarrow> i \<le> length path \<Longrightarrow> drop i path = p \<Longrightarrow>
   match_segments v segs path i caps = Some (length path, caps @ cs)"
proof (induction arbitrary: i caps rule: pattern.induct)
  case pattern_Nil
  then show ?case by simp
next
  case (pattern_Literal segs p cs s)
  then have "i < length path" "path ! i = s" "drop (Suc i) path = p"
    by (simp_all add: drop_eq_ConsD)
  with pattern_Literal show ?case by simp
next
  case (pattern_Capture segs p cs n s)
  then have "i < length path" "path ! i = s" "drop (Suc i) path = p"
    by (simp_all add: drop_eq_ConsD)
  with pattern_Capture show ?case by simp
next
  case (pattern_Glob segs p cs q n)
  have "length p = length segs"
    using pattern_Glob by (intro pattern_length) (auto simp: list_ex_iff filter_empty_conv)
  moreover have "length path - i = length (q @ p)" using pattern_Glob by (metis length_drop)
  ultimately have n: "length path - length segs - i = length q" "i + length q + length segs = length path"
    using pattern_Glob by auto
  moreover have "drop (i + length q) path = p"
    using pattern_Glob by (metis add.commute append_eq_conv_conj drop_drop)
  moreover have "take (length q) (drop i path) = q" using pattern_Glob by simp
  ultimately show ?case using pattern_Glob by (auto simp: Let_def)
qed

section \<open>Applicable statements\<close>

fun candidates ::
  "'h rules_request \<Rightarrow> match_rule \<Rightarrow> nat \<Rightarrow> captures \<Rightarrow> function_decl list
     \<Rightarrow> (function_decl list \<times> scope \<times> allow_rule) list" where
  "candidates rq (MatchRule segs fns allows children) consumed caps fs =
     (case match_segments (rq_version rq) segs (rq_path rq) consumed caps of
        None \<Rightarrow> []
      | Some (after, caps) \<Rightarrow>
          (if after = length (rq_path rq)
           then map (\<lambda>a. (fs @ fns, rq_globals rq @ caps, a)) (filter (allow_applies (rq_operation rq)) allows)
           else [])
          @ concat (map (\<lambda>child. candidates rq child after caps (fs @ fns)) children))"

fun run_candidates ::
  "'h rules_request \<Rightarrow> (function_decl list \<times> scope \<times> allow_rule) list \<Rightarrow> 'h \<Rightarrow> (fatal + decision) \<times> 'h" where
  "run_candidates rq [] h = (Inr Deny, h)"
| "run_candidates rq ((fs, sc, allow) # cands) h =
     (case eval_allow rq fs sc allow h of
        (Inl e, h) \<Rightarrow> (Inl e, h)
      | (Inr v, h) \<Rightarrow> if v = VBool True then (Inr Allow, h) else run_candidates rq cands h)"

definition run_summary :: "(fatal + unit) \<times> 'h walk_state \<Rightarrow> (fatal + decision) \<times> 'h" where
  "run_summary rs =
     (case rs of
        (Inl e, st) \<Rightarrow> (Inl e, ws_host st)
      | (Inr _, st) \<Rightarrow> (Inr (if granted st then Allow else Deny), ws_host st))"

lemma run_summary_simps [simp]:
  "run_summary (Inl e, st) = (Inl e, ws_host st)"
  "run_summary (Inr u, st) = (Inr (if granted st then Allow else Deny), ws_host st)"
  by (simp_all add: run_summary_def)

text \<open>Two stretches of candidates one after the other.\<close>

lemma run_candidates_append:
  "run_candidates rq (as @ bs) h =
     (case run_candidates rq as h of
        (Inr Deny, h') \<Rightarrow> run_candidates rq bs h'
      | r \<Rightarrow> r)"
proof (induction as arbitrary: h)
  case (Cons a as)
  obtain fs sc allow where a: "a = (fs, sc, allow)" by (cases a) auto
  obtain r h' where r: "eval_allow rq fs sc allow h = (r, h')" by fastforce
  show ?case using Cons by (cases r) (auto simp: a r)
qed simp

lemma walk_allows_run:
  "\<not> granted st \<Longrightarrow>
   run_summary (walk_allows rq fs sc allows st) =
     run_candidates rq (map (\<lambda>a. (fs, sc, a)) (filter (allow_applies (rq_operation rq)) allows)) (ws_host st)"
proof (induction allows arbitrary: st)
  case (Cons a allows)
  show ?case
  proof (cases "allow_applies (rq_operation rq) a")
    case True
    obtain r h where r: "eval_allow rq fs sc a (ws_host st) = (r, h)" by fastforce
    show ?thesis using Cons.IH Cons.prems True by (cases r) (simp_all add: r Let_def)
  qed (use Cons in simp)
qed simp

lemma run_summary_cases:
  assumes "run_summary rs = x"
  obtains e st where "rs = (Inl e, st)" "x = (Inl e, ws_host st)"
  | st where "rs = (Inr (), st)" "granted st" "x = (Inr Allow, ws_host st)"
  | st where "rs = (Inr (), st)" "\<not> granted st" "x = (Inr Deny, ws_host st)"
  using assms by (cases rs; cases "fst rs") (auto simp: run_summary_def split: if_splits)

lemma walk_run:
  "\<not> granted st \<Longrightarrow>
   run_summary (walk rq rule consumed caps fs st) =
     run_candidates rq (candidates rq rule consumed caps fs) (ws_host st)"
  "\<not> granted st \<Longrightarrow>
   run_summary (walk_children rq rules consumed caps fs st) =
     run_candidates rq (concat (map (\<lambda>r. candidates rq r consumed caps fs) rules)) (ws_host st)"
proof (induction rq rule consumed caps fs st and rq rules consumed caps fs st
    rule: walk_walk_children.induct)
  case (1 rq segs fns allows children consumed caps fs st)
  show ?case
  proof (cases "match_segments (rq_version rq) segs (rq_path rq) consumed caps")
    case (Some m)
    obtain after caps' where m: "m = (after, caps')" by (cases m) auto
    define allowed where "allowed = (if after = length (rq_path rq)
      then map (\<lambda>a. (fs @ fns, rq_globals rq @ caps', a)) (filter (allow_applies (rq_operation rq)) allows)
      else [])"
    define first where "first = (if after = length (rq_path rq)
      then walk_allows rq (fs @ fns) (rq_globals rq @ caps') allows st else (Inr (), st))"
    have "run_summary first = run_candidates rq allowed (ws_host st)"
      using walk_allows_run [of st rq "fs @ fns"] 1(2) by (simp add: first_def allowed_def)
    then show ?thesis
    proof (cases rule: run_summary_cases)
      case (1 e st') then show ?thesis
        by (simp add: Some m first_def [symmetric] allowed_def [symmetric] run_candidates_append)
    next
      case (2 st') then show ?thesis
        by (simp add: Some m first_def [symmetric] allowed_def [symmetric] run_candidates_append)
    next
      case (3 st')
      have "run_summary (walk_children rq children after caps' (fs @ fns) st') =
        run_candidates rq (concat (map (\<lambda>r. candidates rq r after caps' (fs @ fns)) children)) (ws_host st')"
        using 1 Some m 3 by (simp add: first_def)
      then show ?thesis using 3
        by (simp add: Some m first_def [symmetric] allowed_def [symmetric] run_candidates_append)
    qed
  qed (use 1(2) in simp)
next
  case (2 rq after caps fs st)
  then show ?case by simp
next
  case (3 rq child children after caps fs st)
  from 3(1) [OF 3(3)] show ?case
    by (cases rule: run_summary_cases) (use 3 in \<open>auto simp: run_candidates_append\<close>)
qed

lemma evaluate_rules_run:
  "\<not> granted st \<Longrightarrow>
   (let (r, st') = evaluate_rules rq fs rules st in (r, ws_host st')) =
     run_candidates rq (concat (map (\<lambda>r. candidates rq r 0 [] fs) rules)) (ws_host st)"
proof (induction rules arbitrary: st)
  case (Cons rule rules)
  from walk_run(1) [OF Cons.prems, of rq rule 0 "[]" fs] show ?case
    by (cases rule: run_summary_cases) (use Cons in \<open>auto simp: run_candidates_append\<close>)
qed simp

end
