(* ===== verification/RulesType.thy ===== *)
theory RulesType
  imports RulesRun
begin

text \<open>
  Well-formed rule values: every map, at any depth, is a map (its keys ascend and so are
  distinct).  Every operator, function and method keeps this, so \<open>BTreeMap\<close> iteration order
  is what \<open>equals\<close> may rely on.
\<close>

fun rvalue_wf :: "rvalue \<Rightarrow> bool" where
  "rvalue_wf (VList vs) = (\<forall>v \<in> set vs. rvalue_wf v)"
| "rvalue_wf (VMap m) = (bt_wf m \<and> (\<forall>e \<in> set m. rvalue_wf (snd e)))"
| "rvalue_wf _ = True"

lemma map_of_wf: "\<forall>e \<in> set m. rvalue_wf (snd e) \<Longrightarrow> bt_get m k = Some v \<Longrightarrow> rvalue_wf v"
  using map_of_SomeD by fastforce

lemma bt_of_list_set: "set (bt_of_list es) \<subseteq> set es"
proof -
  have "set (fold (\<lambda>(k, v) m. bt_insert k v m) es m) \<subseteq> set m \<union> set es" for m
  proof (induction es arbitrary: m)
    case (Cons e es)
    obtain k v where e: "e = (k, v)" by fastforce
    show ?case using Cons [of "bt_insert k v m"] set_bt_insert [of k v m] by (auto simp: e)
  qed simp
  from this [of "[]"] show ?thesis by (simp add: bt_of_list_def)
qed

lemma wf_bt_of_list: "(\<And>v. v \<in> snd ` set es \<Longrightarrow> rvalue_wf v) \<Longrightarrow> rvalue_wf (VMap (bt_of_list es))"
  using bt_of_list_set [of es] bt_of_list_wf [of es] by fastforce

named_theorems wf_values \<open>operations whose results are well-formed\<close>

lemma wf_or_undefined [wf_values]: "rvalue_wf (or_undefined m r)"
  by (simp add: or_undefined_def split: option.splits)

lemma wf_add_timestamp [wf_values]: "rvalue_wf (add_timestamp s n ds dn)"
  by (simp add: add_timestamp_def Let_def)

lemma wf_plus_nanos [wf_values]: "rvalue_wf v \<Longrightarrow> rvalue_wf (plus_nanos v n)"
  by (cases v) (auto simp: plus_nanos_def Let_def)

lemma wf_timestamp_difference [wf_values]: "rvalue_wf (timestamp_difference s n ds dn)"
  by (simp add: timestamp_difference_def Let_def)

lemma wf_int_arithmetic [wf_values]: "rvalue_wf (int_arithmetic op a b)"
  by (cases op) (simp_all add: int_arithmetic_def Let_def wf_or_undefined)

lemma wf_number_arithmetic [wf_values]: "rvalue_wf (number_arithmetic op l r)"
  by (simp add: number_arithmetic_def wf_int_arithmetic Let_def split: rvalue.splits option.splits)

lemma wf_arithmetic [wf_values]: "rvalue_wf l \<Longrightarrow> rvalue_wf r \<Longrightarrow> rvalue_wf (arithmetic op l r)"
  by (cases op; cases l; cases r) (auto simp: arithmetic_def wf_values)

lemma wf_comparison [wf_values]: "rvalue_wf (comparison t l r)"
  by (simp add: comparison_def split: option.splits)

lemma wf_contains [wf_values]: "rvalue_wf (contains l r)"
  by (simp add: contains_def split: rvalue.splits)

lemma wf_binary: "rvalue_wf l \<Longrightarrow> rvalue_wf r \<Longrightarrow> rvalue_wf (binary op l r)"
  by (cases op) (simp_all add: binary_def wf_values)

lemma wf_unary: "rvalue_wf (unary op v)"
  by (cases op; cases v) (simp_all add: unary_def wf_values)

lemma wf_member_value: "rvalue_wf v \<Longrightarrow> rvalue_wf (member_value v field)"
  by (auto simp: member_value_def dest: map_of_wf split: rvalue.splits option.splits)

lemma get_nth_in: "get_nth xs i = Some x \<Longrightarrow> x \<in> set xs"
  by (auto simp: get_nth_def split: if_splits)

lemma wf_index_value: "rvalue_wf v \<Longrightarrow> rvalue_wf (index_value v w)"
  by (cases v; cases w) (auto simp: index_value_def dest: map_of_wf get_nth_in split: option.splits)

lemma slice_subset: "slice xs lo hi = Some ys \<Longrightarrow> set ys \<subseteq> set xs"
  by (auto simp: slice_def Let_def dest!: in_set_dropD in_set_takeD split: if_splits)

lemma wf_range_value: "rvalue_wf v \<Longrightarrow> rvalue_wf (range_value v lo hi)"
  by (cases v) (use slice_subset in \<open>fastforce simp: range_value_def split: option.splits\<close>)+

lemma wf_timestamp_method [wf_values]: "rvalue_wf (timestamp_method s n name)"
  by (simp add: timestamp_method_def Let_def split: prod.splits)

lemma wf_string_method [wf_values]: "rvalue_wf (string_method lib s name args)"
  by (auto simp: string_method_def not_a_method_def usize_value_def Let_def split: list.splits rvalue.splits)

lemma set_to_set: "set (to_set items) \<subseteq> set items"
proof -
  have "set (fold (\<lambda>item out. if member_of item out then out else out @ [item]) items out) \<subseteq> set out \<union> set items" for out
  proof (induction items arbitrary: out)
    case (Cons i items)
    from Cons [of out] Cons [of "out @ [i]"] show ?case by auto
  qed simp
  from this [of "[]"] show ?thesis by (simp add: to_set_def)
qed

lemma wf_list_method [wf_values]:
  "\<forall>v \<in> set items. rvalue_wf v \<Longrightarrow> \<forall>v \<in> set args. rvalue_wf v \<Longrightarrow> rvalue_wf (list_method items name args)"
  using set_to_set [of items]
  by (auto simp: list_method_def not_a_method_def usize_value_def split: list.splits rvalue.splits option.splits)

lemma wf_map_diff: "rvalue_wf (VMap (map_diff a b))"
  unfolding map_diff_def Let_def by (rule wf_bt_of_list) auto

lemma wf_map_method [wf_values]:
  assumes m: "rvalue_wf (VMap m)" and args: "\<forall>v \<in> set args. rvalue_wf v"
  shows "rvalue_wf (map_method m name args)"
proof -
  have g: "rvalue_wf v" if "bt_get m k = Some v" for k v using m map_of_wf [OF _ that] by simp
  consider "args = []" | a where "args = [a]" | a b where "args = [a, b]" | a b c as where "args = a # b # c # as"
    by (metis list.exhaust)
  then show ?thesis
  proof cases
    case 1
    then show ?thesis using m
      by (simp add: map_method_def not_a_method_def usize_value_def g split_beta split: option.splits)
  next
    case (2 a)
    then show ?thesis by (cases a) (simp_all add: map_method_def not_a_method_def wf_map_diff del: rvalue_wf.simps(2))
  next
    case (3 a b)
    then show ?thesis using m args
      by (cases a) (simp_all add: map_method_def not_a_method_def g split: option.splits)
  next
    case (4 a b c as)
    then show ?thesis by (simp add: map_method_def not_a_method_def)
  qed
qed

lemma wf_call_method: "rvalue_wf v \<Longrightarrow> (\<And>w. w \<in> set args \<Longrightarrow> rvalue_wf w) \<Longrightarrow> rvalue_wf (call_method lib v name args)"
  by (cases v) (auto simp: call_method_def wf_values not_a_method_def usize_value_def split: list.splits rvalue.splits
      simp del: rvalue_wf.simps(2))

end
