(* ===== verification/RulesBind.thy ===== *)
theory RulesBind
  imports Auth Commit RulesSpec RulesType
begin

text \<open>
  \<open>rules.rs\<close> of the server: documents and claims as rule values, the host that answers
  \<open>get()\<close> and \<open>exists()\<close> from the store through a cache, and the checks that stand in
  front of reads and writes.  \<open>rc_now_us\<close> is the clock, and \<open>rc_error_text\<close> the text
  of an engine error.
\<close>

section \<open>Documents and claims as rule values\<close>

fun proto_value :: "fvalue \<Rightarrow> rvalue" where
  "proto_value Unset = VNull"
| "proto_value NullValue = VNull"
| "proto_value (BooleanValue b) = VBool b"
| "proto_value (IntegerValue i) = VInt i"
| "proto_value (DoubleValue d) = VFloat d"
| "proto_value (StringValue s) = VStr s"
| "proto_value (BytesValue b) = VBytes b"
| "proto_value (TimestampValue s n) = VTimestamp s n"
| "proto_value (GeoPointValue lat lng) = VLatLng lat lng"
| "proto_value (ReferenceValue r) = VPath (split_on (CHR ''/'') r)"
| "proto_value (ArrayValue vs) = VList (map proto_value vs)"
| "proto_value (MapValue m) = VMap (bt_of_list (map (\<lambda>(k, v). (k, proto_value v)) m))"
| "proto_value (ExprValue _) = VNull"

definition fields_value :: "fields \<Rightarrow> rvalue" where
  "fields_value fs = VMap (bt_of_list (map (\<lambda>(k, v). (k, proto_value v)) fs))"

definition document_value :: "stored_document \<Rightarrow> rvalue" where
  "document_value doc =
     (let m = bt_insert ''data'' (fields_value (sd_fields doc)) [];
          m = (case last_id (sd_path doc) of Some i \<Rightarrow> bt_insert ''id'' (VStr i) m | None \<Rightarrow> m)
      in VMap (bt_insert ''__name__'' (VPath (sd_path doc)) m))"

fun json_value :: "json \<Rightarrow> rvalue" where
  "json_value JNull = VNull"
| "json_value (JBool b) = VBool b"
| "json_value (JNumber i f) =
     (case i of Some i \<Rightarrow> VInt i | None \<Rightarrow> VFloat (case f of Some f \<Rightarrow> f | None \<Rightarrow> f64_nan))"
| "json_value (JString s) = VStr s"
| "json_value (JArray items) = VList (map json_value items)"
| "json_value (JObject m) = VMap (bt_of_list (map (\<lambda>(k, v). (k, json_value v)) m))"

section \<open>The registry\<close>

type_synonym registry = "(string \<times> ruleset) list"

definition registry_set :: "database_name \<Rightarrow> ruleset \<Rightarrow> registry \<Rightarrow> registry" where
  "registry_set database rules r = bt_insert (show_database database) rules r"

definition registry_get :: "registry \<Rightarrow> database_name \<Rightarrow> ruleset option" where
  "registry_get r database = bt_get r (show_database database)"

definition registry_clear :: "database_name \<Rightarrow> registry \<Rightarrow> registry" where
  "registry_clear database r = filter (\<lambda>(k, _). k \<noteq> show_database database) r"

section \<open>The host\<close>

record 's rules_context =
  rc_mongo :: "'s mongo"
  rc_codec :: codec
  rc_lib :: rules_lib
  rc_error_text :: "engine_error \<Rightarrow> string"
  rc_now_us :: "'s \<Rightarrow> i64"

record 's store_host =
  sh_store :: 's
  sh_cache :: "(string \<times> rvalue option) list"

definition relative_path :: "string list \<Rightarrow> string list" where
  "relative_path path = (case path of p # _ \<Rightarrow> if p = ''databases'' then drop 3 path else path | [] \<Rightarrow> path)"

text \<open>The read behind a cache miss.\<close>

definition read_document ::
  "'s rules_context \<Rightarrow> database_name \<Rightarrow> string \<Rightarrow> 's \<Rightarrow> (string + rvalue option) \<times> 's" where
  "read_document ctx database key s =
     (case parse_path key of
        Inl e \<Rightarrow> (Inl (rc_error_text ctx e), s)
      | Inr parsed \<Rightarrow>
          if \<not> is_document parsed then (Inl ''not a document path'', s)
          else
            (case get_document (rc_mongo ctx) (rc_codec ctx) database parsed s of
               (Inl e, s) \<Rightarrow> (Inl (rc_error_text ctx e), s)
             | (Inr found, s) \<Rightarrow> (Inr (map_option document_value found), s)))"

definition lookup_document ::
  "'s rules_context \<Rightarrow> database_name \<Rightarrow> string list \<Rightarrow> 's store_host \<Rightarrow> (string + rvalue option) \<times> 's store_host" where
  "lookup_document ctx database path h =
     (let key = join ''/'' (relative_path path)
      in case bt_get (sh_cache h) key of
           Some hit \<Rightarrow> (Inr hit, h)
         | None \<Rightarrow>
             (case read_document ctx database key (sh_store h) of
                (Inl e, s) \<Rightarrow> (Inl e, h\<lparr>sh_store := s\<rparr>)
              | (Inr value, s) \<Rightarrow>
                  (Inr value, h\<lparr>sh_store := s, sh_cache := bt_insert key value (sh_cache h)\<rparr>)))"

definition store_host :: "'s rules_context \<Rightarrow> database_name \<Rightarrow> 's store_host host" where
  "store_host ctx database =
     \<lparr>host_get = (\<lambda>path _. lookup_document ctx database path),
      host_exists = (\<lambda>path _ h.
        let (r, h) = lookup_document ctx database path h in (map_sum id (\<lambda>v. v \<noteq> None) r, h))\<rparr>"

section \<open>Access checks\<close>

record access_request =
  ar_database :: database_name
  ar_path :: resource_path
  ar_operation :: rules_operation
  ar_incoming :: "document option"
  ar_existing :: "stored_document option"

definition auth_value :: "authorization \<Rightarrow> rvalue" where
  "auth_value auth =
     (case auth of
        User claims \<Rightarrow>
          (let m = bt_insert ''uid'' (case jc_uid claims of Some u \<Rightarrow> VStr u | None \<Rightarrow> VNull) [];
               token = bt_of_list (map (\<lambda>(k, v). (k, json_value v)) (jc_payload claims))
           in VMap (bt_insert ''token'' (VMap token) m))
      | _ \<Rightarrow> VNull)"

definition rules_path :: "access_request \<Rightarrow> string list" where
  "rules_path req =
     [''databases'', database_id (ar_database req), ''documents''] @ ar_path req
     @ (if ar_operation req = OpList then [WILDCARD_SEGMENT] else [])"

definition request_value :: "authorization \<Rightarrow> access_request \<Rightarrow> i64 \<Rightarrow> rvalue" where
  "request_value auth req now =
     (let m = bt_insert ''auth'' (auth_value auth) [];
          m = bt_insert ''time''
                (VTimestamp (word_of_int (sint now div 1000000)) (word_of_int (sint now mod 1000000 * 1000))) m;
          m = bt_insert ''method'' (VStr (operation_id (ar_operation req))) m;
          m = bt_insert ''path'' (VPath (rules_path req)) m
      in VMap (case ar_incoming req of
                 None \<Rightarrow> m
               | Some incoming \<Rightarrow>
                   (let res = bt_insert ''data'' (fields_value (doc_fields incoming)) [];
                        res = (case last_id (ar_path req) of Some i \<Rightarrow> bt_insert ''id'' (VStr i) res | None \<Rightarrow> res)
                    in bt_insert ''resource'' (VMap res) m)))"

definition request_globals :: "authorization \<Rightarrow> access_request \<Rightarrow> i64 \<Rightarrow> scope" where
  "request_globals auth req now =
     [(''request'', request_value auth req now),
      (''resource'', case ar_existing req of Some doc \<Rightarrow> document_value doc | None \<Rightarrow> VNull)]"

definition denied :: status where
  "denied = Permission_denied ''Missing or insufficient permissions.''"

definition check ::
  "'s rules_context \<Rightarrow> registry \<Rightarrow> authorization \<Rightarrow> access_request \<Rightarrow> 's \<Rightarrow> (status + unit) \<times> 's" where
  "check ctx registry auth req s =
     (let auth = for_project (project_id (ar_database req)) auth
      in case auth of
           Admin _ \<Rightarrow> (Inr (), s)
         | _ \<Rightarrow>
             (case registry_get registry (ar_database req) of
                None \<Rightarrow> (Inr (), s)
              | Some rules \<Rightarrow>
                  (case evaluate (rc_lib ctx) (store_host ctx (ar_database req)) rules ''cloud.firestore''
                          (ar_operation req) (rules_path req) (request_globals auth req (rc_now_us ctx s))
                          \<lparr>sh_store = s, sh_cache = []\<rparr> of
                     (Inl f, h) \<Rightarrow> (Inl (Permission_denied f), sh_store h)
                   | (Inr Allow, h) \<Rightarrow> (Inr (), sh_store h)
                   | (Inr Deny, h) \<Rightarrow> (Inl denied, sh_store h))))"

text \<open>The name, the incoming document and the operation hint of a write.\<close>

definition write_access :: "Commit.operation \<Rightarrow> string \<times> document option \<times> rules_operation option" where
  "write_access op =
     (case op of
        Update doc \<Rightarrow> (doc_name doc, Some doc, None)
      | Delete name \<Rightarrow> (name, None, Some OpDelete)
      | Transform t \<Rightarrow> (dt_document t, None, None)
      | Verify name \<Rightarrow> (name, None, Some OpGet))"

fun check_each ::
  "'s rules_context \<Rightarrow> registry \<Rightarrow> authorization \<Rightarrow> database_name \<Rightarrow> write_req list \<Rightarrow> 's \<Rightarrow> (status + unit) \<times> 's" where
  "check_each ctx registry auth database [] s = (Inr (), s)"
| "check_each ctx registry auth database (w # ws) s =
     (case operation w of
        None \<Rightarrow> check_each ctx registry auth database ws s
      | Some op \<Rightarrow>
          (let (name, incoming, hint) = write_access op
           in case parse_document name of
                Inl e \<Rightarrow> (Inl (Invalid_argument (rc_error_text ctx e)), s)
              | Inr parsed \<Rightarrow>
                  (case get_document (rc_mongo ctx) (rc_codec ctx) database (rn_path parsed) s of
                     (Inl e, s) \<Rightarrow> (Inl (Internal (rc_error_text ctx e)), s)
                   | (Inr existing, s) \<Rightarrow>
                       (let op = (case hint of Some h \<Rightarrow> h
                                  | None \<Rightarrow> if existing \<noteq> None then OpUpdate else OpCreate)
                        in case check ctx registry auth
                                  \<lparr>ar_database = database, ar_path = rn_path parsed, ar_operation = op,
                                   ar_incoming = incoming, ar_existing = existing\<rparr> s of
                             (Inl e, s) \<Rightarrow> (Inl e, s)
                           | (Inr _, s) \<Rightarrow> check_each ctx registry auth database ws s))))"

definition check_writes ::
  "'s rules_context \<Rightarrow> registry \<Rightarrow> authorization \<Rightarrow> database_name \<Rightarrow> write_req list \<Rightarrow> 's \<Rightarrow> (status + unit) \<times> 's" where
  "check_writes ctx registry auth database writes s =
     (let auth = for_project (project_id database) auth
      in case auth of
           Admin _ \<Rightarrow> (Inr (), s)
         | _ \<Rightarrow>
             if registry_get registry database = None then (Inr (), s)
             else check_each ctx registry auth database writes s)"

end
