(* ===== verification/Query.thy ===== *)
theory Query
  imports Store Decimal SortBy
begin

text \<open>
  \<open>query.rs\<close>, the in-memory half: structured queries as the protobuf crate generates them,
  filters, the normalized order, cursors and aggregation over documents.  The half that talks
  to the index planner is in QueryRun.
\<close>

section \<open>Structured queries\<close>

datatype field_op =
    OpUnspecified | OpLessThan | OpLessThanOrEqual | OpGreaterThan | OpGreaterThanOrEqual
  | OpEqual | OpNotEqual | OpArrayContains | OpIn | OpArrayContainsAny | OpNotIn

datatype unary_op = UnaryUnspecified | IsNan | IsNull | IsNotNan | IsNotNull

datatype composite_op = CompositeUnspecified | CompositeAnd | CompositeOr

text \<open>A missing message field is \<open>None\<close>; an absent \<open>operand_type\<close> is too.\<close>

record field_filter =
  ff_field :: "string option"
  ff_op :: field_op
  ff_value :: "fvalue option"

record unary_filter =
  uf_field :: "string option"
  uf_op :: unary_op

datatype filter_type =
    FieldFilter field_filter
  | UnaryFilter unary_filter
  | CompositeFilter composite_op "filter_type option list"

record query_order =
  or_field :: "string option"
  or_direction :: i32

record query_cursor =
  cu_values :: "fvalue list"
  cu_before :: bool

record collection_selector =
  cs_collection_id :: string
  cs_all_descendants :: bool

record structured_query =
  sq_from :: "collection_selector list"
  sq_where :: "filter_type option option"
  sq_order_by :: "query_order list"
  sq_start_at :: "query_cursor option"
  sq_end_at :: "query_cursor option"
  sq_offset :: i32
  sq_limit :: "i32 option"

definition direction_ascending :: i32 where "direction_ascending = 1"
definition direction_descending :: i32 where "direction_descending = 2"

section \<open>Filters\<close>

fun flatten_and :: "filter_type option \<Rightarrow> filter_type list \<Rightarrow> engine_error + filter_type list"
  and flatten_all :: "filter_type option list \<Rightarrow> filter_type list \<Rightarrow> engine_error + filter_type list"
where
  "flatten_and None out = Inr out"
| "flatten_and (Some (CompositeFilter op fs)) out =
     (if op \<noteq> CompositeAnd then Inl Unimplemented else flatten_all fs out)"
| "flatten_and (Some f) out = Inr (out @ [f])"
| "flatten_all [] out = Inr out"
| "flatten_all (f # fs) out =
     (case flatten_and f out of Inl e \<Rightarrow> Inl e | Inr out' \<Rightarrow> flatten_all fs out')"

definition NAME_FIELD :: string where "NAME_FIELD = ''__name__''"

definition field_value :: "database_name \<Rightarrow> stored_document \<Rightarrow> string \<Rightarrow> fvalue option" where
  "field_value database doc path =
     (if path = NAME_FIELD then Some (ReferenceValue (document_name database (sd_path doc)))
      else get_field (sd_fields doc) path)"

definition query_eq :: "fvalue \<Rightarrow> fvalue \<Rightarrow> bool" where
  "query_eq v operand =
     (if is_null operand \<or> is_nan operand \<or> is_nan v then False
      else same_type_rank v operand \<and> compare_values v operand = Equal)"

definition inequality :: "fvalue \<Rightarrow> fvalue \<Rightarrow> ordering \<Rightarrow> bool \<Rightarrow> bool" where
  "inequality v operand want or_equal =
     (if is_nan v \<or> is_nan operand \<or> is_null operand \<or> \<not> same_type_rank v operand then False
      else let ord = compare_values v operand in ord = want \<or> (or_equal \<and> ord = Equal))"

definition array_elements :: "fvalue \<Rightarrow> fvalue list option" where
  "array_elements v = (case v of ArrayValue a \<Rightarrow> Some a | _ \<Rightarrow> None)"

definition matches_field_op :: "field_op \<Rightarrow> fvalue \<Rightarrow> fvalue \<Rightarrow> bool" where
  "matches_field_op op v operand =
     (case op of
        OpEqual \<Rightarrow> query_eq v operand
      | OpNotEqual \<Rightarrow> \<not> is_null v \<and> \<not> is_nan v \<and> \<not> is_null operand \<and> \<not> query_eq v operand
      | OpLessThan \<Rightarrow> inequality v operand Less False
      | OpLessThanOrEqual \<Rightarrow> inequality v operand Less True
      | OpGreaterThan \<Rightarrow> inequality v operand Greater False
      | OpGreaterThanOrEqual \<Rightarrow> inequality v operand Greater True
      | OpArrayContains \<Rightarrow>
          (case array_elements v of None \<Rightarrow> False | Some els \<Rightarrow> list_ex (\<lambda>e. query_eq e operand) els)
      | OpIn \<Rightarrow>
          (case array_elements operand of None \<Rightarrow> False | Some ops \<Rightarrow> list_ex (\<lambda>x. query_eq v x) ops)
      | OpArrayContainsAny \<Rightarrow>
          (case (array_elements v, array_elements operand) of
             (Some els, Some ops) \<Rightarrow> list_ex (\<lambda>e. list_ex (\<lambda>x. query_eq e x) ops) els
           | _ \<Rightarrow> False)
      | OpNotIn \<Rightarrow>
          \<not> is_null v \<and> \<not> is_nan v
          \<and> (case array_elements operand of
               None \<Rightarrow> False
             | Some ops \<Rightarrow> \<not> list_ex is_null ops \<and> \<not> list_ex (\<lambda>x. query_eq v x) ops)
      | OpUnspecified \<Rightarrow> False)"

definition matches_unary_op :: "unary_op \<Rightarrow> fvalue option \<Rightarrow> bool" where
  "matches_unary_op op v =
     (case op of
        IsNull \<Rightarrow> (case v of None \<Rightarrow> False | Some v \<Rightarrow> is_null v)
      | IsNan \<Rightarrow> (case v of None \<Rightarrow> False | Some v \<Rightarrow> is_nan v)
      | IsNotNull \<Rightarrow> (case v of None \<Rightarrow> False | Some v \<Rightarrow> \<not> is_null v)
      | IsNotNan \<Rightarrow> (case v of None \<Rightarrow> False | Some v \<Rightarrow> \<not> is_null v \<and> \<not> is_nan v)
      | UnaryUnspecified \<Rightarrow> False)"

text \<open>
  The composite case is \<open>unreachable!\<close> in the source: \<open>flatten_and\<close> never emits one
  (\<open>flatten_and_leaves\<close> below).
\<close>

fun matches_filter :: "database_name \<Rightarrow> stored_document \<Rightarrow> filter_type \<Rightarrow> bool" where
  "matches_filter database doc (FieldFilter f) =
     (case ff_field f of
        None \<Rightarrow> False
      | Some field \<Rightarrow>
        (case ff_value f of
           None \<Rightarrow> False
         | Some operand \<Rightarrow>
           (case field_value database doc field of
              None \<Rightarrow> False
            | Some v \<Rightarrow> matches_field_op (ff_op f) v operand)))"
| "matches_filter database doc (UnaryFilter u) =
     (case uf_field u of
        None \<Rightarrow> False
      | Some field \<Rightarrow> matches_unary_op (uf_op u) (field_value database doc field))"
| "matches_filter database doc (CompositeFilter op fs) = False"

section \<open>Order and cursors\<close>

definition order_path :: "query_order \<Rightarrow> string" where
  "order_path ord = (case or_field ord of Some p \<Rightarrow> p | None \<Rightarrow> [])"

definition is_inequality_op :: "field_op \<Rightarrow> bool" where
  "is_inequality_op op \<longleftrightarrow> op \<in> {OpLessThan, OpLessThanOrEqual, OpGreaterThan, OpGreaterThanOrEqual,
     OpNotEqual, OpNotIn}"

definition inequality_path :: "filter_type \<Rightarrow> string option" where
  "inequality_path f =
     (case f of FieldFilter ff \<Rightarrow> if is_inequality_op (ff_op ff) then ff_field ff else None | _ \<Rightarrow> None)"

text \<open>The \<open>BTreeSet\<close> of inequality paths iterates in ascending order without repetition.\<close>

definition inequality_paths :: "filter_type list \<Rightarrow> string list" where
  "inequality_paths filters = sort (remdups (List.map_filter inequality_path filters))"

definition normalize_orders :: "structured_query \<Rightarrow> filter_type list \<Rightarrow> query_order list" where
  "normalize_orders query filters =
     (let explicit = sq_order_by query;
          last_direction = (if explicit = [] then direction_ascending else or_direction (last explicit));
          present = map order_path explicit;
          added = map (\<lambda>p. \<lparr>or_field = Some p, or_direction = last_direction\<rparr>)
            (filter (\<lambda>p. p \<notin> set present \<and> p \<noteq> NAME_FIELD) (inequality_paths filters));
          orders = explicit @ added
      in if NAME_FIELD \<notin> set present \<and> \<not> list_ex (\<lambda>ord. order_path ord = NAME_FIELD) orders
         then orders @ [\<lparr>or_field = Some NAME_FIELD, or_direction = last_direction\<rparr>]
         else orders)"

definition apply_direction :: "ordering \<Rightarrow> i32 \<Rightarrow> ordering" where
  "apply_direction ord direction = (if direction = direction_descending then reverse_ord ord else ord)"

fun compare_docs :: "database_name \<Rightarrow> stored_document \<Rightarrow> stored_document \<Rightarrow> query_order list \<Rightarrow> ordering" where
  "compare_docs database a b [] = Equal"
| "compare_docs database a b (ord # orders) =
     (case (field_value database a (order_path ord), field_value database b (order_path ord)) of
        (Some va, Some vb) \<Rightarrow>
          (let c = apply_direction (compare_values va vb) (or_direction ord)
           in if c \<noteq> Equal then c else compare_docs database a b orders)
      | _ \<Rightarrow> compare_docs database a b orders)"

definition validate_cursor :: "query_cursor \<Rightarrow> query_order list \<Rightarrow> engine_error + query_cursor" where
  "validate_cursor cursor orders =
     (if length orders < length (cu_values cursor) then Inl InvalidArgument else Inr cursor)"

fun compare_to_values :: "database_name \<Rightarrow> stored_document \<Rightarrow> (fvalue \<times> query_order) list \<Rightarrow> ordering" where
  "compare_to_values database doc [] = Equal"
| "compare_to_values database doc ((cursor_value, ord) # rest) =
     (case field_value database doc (order_path ord) of
        None \<Rightarrow> compare_to_values database doc rest
      | Some v \<Rightarrow>
          (let c = apply_direction (compare_values v cursor_value) (or_direction ord)
           in if c \<noteq> Equal then c else compare_to_values database doc rest))"

definition compare_doc_to_cursor ::
  "database_name \<Rightarrow> stored_document \<Rightarrow> query_cursor \<Rightarrow> query_order list \<Rightarrow> ordering" where
  "compare_doc_to_cursor database doc cursor orders =
     compare_to_values database doc (zip (cu_values cursor) orders)"

section \<open>The in-memory pass\<close>

definition order_exists :: "query_order list \<Rightarrow> stored_document \<Rightarrow> bool" where
  "order_exists orders doc \<longleftrightarrow>
     list_all (\<lambda>ord. order_path ord = NAME_FIELD \<or> get_field (sd_fields doc) (order_path ord) \<noteq> None) orders"

definition keep_start :: "database_name \<Rightarrow> query_order list \<Rightarrow> query_cursor \<Rightarrow> stored_document \<Rightarrow> bool" where
  "keep_start database orders start doc \<longleftrightarrow>
     (let c = compare_doc_to_cursor database doc start orders
      in c = Greater \<or> (c = Equal \<and> cu_before start))"

definition keep_end :: "database_name \<Rightarrow> query_order list \<Rightarrow> query_cursor \<Rightarrow> stored_document \<Rightarrow> bool" where
  "keep_end database orders end_at doc \<longleftrightarrow>
     (let c = compare_doc_to_cursor database doc end_at orders
      in c = Less \<or> (c = Equal \<and> \<not> cu_before end_at))"

text \<open>One cursor: absent, rejected by \<open>validate_cursor\<close>, or a filter on the documents.\<close>

definition apply_cursor ::
  "(query_cursor \<Rightarrow> stored_document \<Rightarrow> bool) \<Rightarrow> query_cursor option \<Rightarrow> query_order list
     \<Rightarrow> stored_document list \<Rightarrow> engine_error + stored_document list" where
  "apply_cursor keep cursor orders docs =
     (case cursor of
        None \<Rightarrow> Inr docs
      | Some c \<Rightarrow>
        (case validate_cursor c orders of Inl e \<Rightarrow> Inl e | Inr c \<Rightarrow> Inr (filter (keep c) docs)))"

definition apply_window :: "structured_query \<Rightarrow> stored_document list \<Rightarrow> stored_document list" where
  "apply_window query docs =
     (let docs = (if 0 < sint (sq_offset query) then drop (nat (sint (sq_offset query))) docs else docs)
      in case sq_limit query of None \<Rightarrow> docs | Some limit \<Rightarrow> take (nat (max (sint limit) 0)) docs)"

text \<open>\<open>evaluate\<close> from the candidate documents on.\<close>

definition finish_query ::
  "database_name \<Rightarrow> structured_query \<Rightarrow> filter_type list \<Rightarrow> query_order list \<Rightarrow> bool
     \<Rightarrow> stored_document list \<Rightarrow> engine_error + stored_document list" where
  "finish_query database query filters orders paged_by_mongo docs =
     (let docs = filter (\<lambda>doc. list_all (matches_filter database doc) filters) docs;
          docs = filter (order_exists orders) docs;
          docs = sort_by (\<lambda>a b. compare_docs database a b orders) docs
      in case apply_cursor (keep_start database orders) (sq_start_at query) orders docs of
           Inl e \<Rightarrow> Inl e
         | Inr docs \<Rightarrow>
           (case apply_cursor (keep_end database orders) (sq_end_at query) orders docs of
              Inl e \<Rightarrow> Inl e
            | Inr docs \<Rightarrow> Inr (if paged_by_mongo then docs else apply_window query docs)))"

section \<open>Aggregation\<close>

datatype agg_operator = AggCount "i64 option" | AggSum "string option" | AggAvg "string option"

record aggregation =
  ag_alias :: string
  ag_operator :: "agg_operator option"

record fold_state =
  nf_int_sum :: "i64 option"
  nf_double_sum :: f64
  nf_count :: i64
  nf_seen_double :: bool

definition fold_document :: "string \<Rightarrow> fold_state \<Rightarrow> stored_document \<Rightarrow> fold_state" where
  "fold_document field st doc =
     (case get_field (sd_fields doc) field of
        Some (IntegerValue i) \<Rightarrow>
          st\<lparr>nf_count := nf_count st + 1, nf_double_sum := f64_add (nf_double_sum st) (f64_of_i64 i),
             nf_int_sum := Option.bind (nf_int_sum st) (\<lambda>s. checked_add_i64 s i)\<rparr>
      | Some (DoubleValue d) \<Rightarrow>
          st\<lparr>nf_count := nf_count st + 1, nf_seen_double := True,
             nf_double_sum := f64_add (nf_double_sum st) d\<rparr>
      | _ \<Rightarrow> st)"

definition numeric_fold :: "stored_document list \<Rightarrow> string \<Rightarrow> fold_state" where
  "numeric_fold docs field = foldl (fold_document field)
     \<lparr>nf_int_sum = Some 0, nf_double_sum = 0, nf_count = 0, nf_seen_double = False\<rparr> docs"

definition into_sum :: "fold_state \<Rightarrow> fvalue" where
  "into_sum st =
     (case (nf_seen_double st, nf_int_sum st) of
        (False, Some s) \<Rightarrow> IntegerValue s
      | _ \<Rightarrow> DoubleValue (nf_double_sum st))"

definition into_avg :: "fold_state \<Rightarrow> fvalue" where
  "into_avg st = (if nf_count st = 0 then NullValue
     else DoubleValue (f64_div (nf_double_sum st) (f64_of_i64 (nf_count st))))"

definition agg_field :: "string option \<Rightarrow> string" where
  "agg_field f = (case f of Some p \<Rightarrow> p | None \<Rightarrow> [])"

definition agg_value :: "stored_document list \<Rightarrow> agg_operator \<Rightarrow> fvalue" where
  "agg_value docs op =
     (case op of
        AggCount up_to \<Rightarrow>
          (let n = word_of_nat (length docs) :: i64
           in IntegerValue (case up_to of None \<Rightarrow> n | Some u \<Rightarrow> if sint n \<le> sint u then n else u))
      | AggSum field \<Rightarrow> into_sum (numeric_fold docs (agg_field field))
      | AggAvg field \<Rightarrow> into_avg (numeric_fold docs (agg_field field)))"

definition agg_name :: "nat \<Rightarrow> string \<Rightarrow> string" where
  "agg_name i given = (if given = [] then ''field_'' @ show_nat i else given)"

fun aggregate_from ::
  "nat \<Rightarrow> stored_document list \<Rightarrow> aggregation list \<Rightarrow> engine_error + (string \<times> fvalue) list" where
  "aggregate_from i docs [] = Inr []"
| "aggregate_from i docs (agg # aggs) =
     (case ag_operator agg of
        None \<Rightarrow> Inl InvalidArgument
      | Some op \<Rightarrow>
          map_sum id ((#) (agg_name i (ag_alias agg), agg_value docs op)) (aggregate_from (Suc i) docs aggs))"

definition aggregate :: "stored_document list \<Rightarrow> aggregation list \<Rightarrow> engine_error + (string \<times> fvalue) list" where
  "aggregate docs aggregations = aggregate_from 0 docs aggregations"

end
