(* ===== verification/Plan.thy ===== *)
theory Plan
  imports Query
begin

text \<open>
  \<open>plan.rs\<close>: query filters as a MongoDB predicate over the stored index columns.  A
  predicate is a BSON document, an association list whose entries keep their order, as
  \<open>bson::Document\<close> does.
\<close>

type_synonym bson_doc = "(string \<times> bson) list"

record query_plan =
  pl_predicate :: "bson_doc option"
  pl_exact :: bool

datatype bound = After | Before

section \<open>Clauses\<close>

definition key :: "fvalue \<Rightarrow> string" where
  "key v = index_string v"

definition sort_field :: "string \<Rightarrow> string" where
  "sort_field path = (if path = NAME_FIELD then ''name_key'' else ''keys.'' @ path @ ''.'' @ VALUE_KEY)"

definition value_clause :: "string \<Rightarrow> bson \<Rightarrow> bson_doc" where
  "value_clause path v = [(sort_field path, v)]"

definition element_clause :: "string \<Rightarrow> bson \<Rightarrow> bson_doc" where
  "element_clause path v =
     [(''elements'', BDoc [(''$elemMatch'', BDoc [(''p'', BStr path), (''v'', v)])])]"

definition exists_clause :: "string \<Rightarrow> bson_doc" where
  "exists_clause path = value_clause path (BDoc [(''$gte'', BStr [])])"

definition is_number :: "fvalue \<Rightarrow> bool" where
  "is_number v = (case v of IntegerValue _ \<Rightarrow> True | DoubleValue _ \<Rightarrow> True | _ \<Rightarrow> False)"

definition null_value :: fvalue where "null_value = NullValue"
definition nan_value :: fvalue where "nan_value = DoubleValue f64_nan"

definition plain_path :: "string \<Rightarrow> string option" where
  "plain_path path = (if CHR ''`'' \<notin> set path then Some path else None)"

definition is_plain_path :: "string \<Rightarrow> bool" where
  "is_plain_path path \<longleftrightarrow> plain_path path \<noteq> None"

definition reject_null_nan :: "fvalue \<Rightarrow> unit option" where
  "reject_null_nan v = (if \<not> is_null v \<and> \<not> is_nan v then Some () else None)"

definition key_set :: "fvalue \<Rightarrow> string list option" where
  "key_set operand =
     (case operand of
        ArrayValue vs \<Rightarrow>
          (let keys = map key (filter (\<lambda>v. \<not> is_null v \<and> \<not> is_nan v) vs)
           in if keys \<noteq> [] then Some keys else None)
      | _ \<Rightarrow> None)"

text \<open>\<open>u8::from_str_radix\<close> in base 16 on a two-character string without sign.\<close>

definition hex_char_value :: "char \<Rightarrow> nat option" where
  "hex_char_value c =
     (let n = of_char c :: nat
      in if 48 \<le> n \<and> n \<le> 57 then Some (n - 48)
         else if 97 \<le> n \<and> n \<le> 102 then Some (n - 87)
         else if 65 \<le> n \<and> n \<le> 70 then Some (n - 55)
         else None)"

definition parse_hex_byte :: "string \<Rightarrow> u8 option" where
  "parse_hex_byte s =
     (case s of
        [a, b] \<Rightarrow> (case (hex_char_value a, hex_char_value b) of
            (Some x, Some y) \<Rightarrow> Some (word_of_nat (16 * x + y))
          | _ \<Rightarrow> None)
      | _ \<Rightarrow> None)"

definition range_clause :: "string \<Rightarrow> fvalue \<Rightarrow> string \<Rightarrow> (bson_doc \<times> bool) option" where
  "range_clause path operand op =
     (case reject_null_nan operand of
        None \<Rightarrow> None
      | Some _ \<Rightarrow>
        (let bnd = key operand
         in if length bnd < 2 then None
            else
              (let tag = take 2 bnd; cond = [(op, BStr bnd)]
               in if op = ''$lt'' \<or> op = ''$lte''
                  then
                    (let cond = (if is_number operand
                         then hm_insert ''$gt'' (BStr (key nan_value)) cond
                         else hm_insert ''$gte'' (BStr tag) cond)
                     in Some (value_clause path (BDoc cond), True))
                  else
                    (case parse_hex_byte tag of
                       None \<Rightarrow> None
                     | Some t \<Rightarrow>
                         Some (value_clause path (BDoc (hm_insert ''$lt'' (BStr (hex_byte (t + 1))) cond)), True)))))"

definition field_clause :: "string \<Rightarrow> field_op \<Rightarrow> fvalue \<Rightarrow> (bson_doc \<times> bool) option" where
  "field_clause path op operand =
     (case op of
        OpEqual \<Rightarrow> map_option (\<lambda>_. (value_clause path (BStr (key operand)), True)) (reject_null_nan operand)
      | OpLessThan \<Rightarrow> range_clause path operand ''$lt''
      | OpLessThanOrEqual \<Rightarrow> range_clause path operand ''$lte''
      | OpGreaterThan \<Rightarrow> range_clause path operand ''$gt''
      | OpGreaterThanOrEqual \<Rightarrow> range_clause path operand ''$gte''
      | OpArrayContains \<Rightarrow>
          map_option (\<lambda>_. (element_clause path (BStr (key operand)), True)) (reject_null_nan operand)
      | OpArrayContainsAny \<Rightarrow>
          map_option (\<lambda>ks. (element_clause path (BDoc [(''$in'', BArr (map BStr ks))]), True)) (key_set operand)
      | OpIn \<Rightarrow>
          map_option (\<lambda>ks. (value_clause path (BDoc [(''$in'', BArr (map BStr ks))]), True)) (key_set operand)
      | OpNotEqual \<Rightarrow> Some (exists_clause path, False)
      | OpNotIn \<Rightarrow> Some (exists_clause path, False)
      | OpUnspecified \<Rightarrow> None)"

definition unary_clause :: "string \<Rightarrow> unary_op \<Rightarrow> (bson_doc \<times> bool) option" where
  "unary_clause path op =
     (case op of
        IsNull \<Rightarrow> Some (value_clause path (BStr (key null_value)), True)
      | IsNan \<Rightarrow> Some (value_clause path (BStr (key nan_value)), True)
      | IsNotNull \<Rightarrow> Some (exists_clause path, False)
      | IsNotNan \<Rightarrow> Some (exists_clause path, False)
      | UnaryUnspecified \<Rightarrow> None)"

fun clause_for :: "filter_type \<Rightarrow> (bson_doc \<times> bool) option" where
  "clause_for (FieldFilter f) =
     (case ff_field f of
        None \<Rightarrow> None
      | Some field \<Rightarrow>
        (case plain_path field of
           None \<Rightarrow> None
         | Some path \<Rightarrow>
           (case ff_value f of None \<Rightarrow> None | Some operand \<Rightarrow> field_clause path (ff_op f) operand)))"
| "clause_for (UnaryFilter u) =
     (case uf_field u of
        None \<Rightarrow> None
      | Some field \<Rightarrow>
        (case plain_path field of None \<Rightarrow> None | Some path \<Rightarrow> unary_clause path (uf_op u)))"
| "clause_for (CompositeFilter op fs) = None"

section \<open>Plans\<close>

text \<open>The two loops of \<open>plan\<close>, over the filters and over the order-by paths.\<close>

fun plan_filters :: "filter_type list \<Rightarrow> bson_doc list \<Rightarrow> bool \<Rightarrow> bson_doc list \<times> bool" where
  "plan_filters [] clauses exact = (clauses, exact)"
| "plan_filters (f # fs) clauses exact =
     (case clause_for f of
        Some (clause, clause_exact) \<Rightarrow> plan_filters fs (clauses @ [clause]) (exact \<and> clause_exact)
      | None \<Rightarrow> plan_filters fs clauses False)"

fun plan_orders :: "string list \<Rightarrow> bson_doc list \<Rightarrow> bool \<Rightarrow> bson_doc list \<times> bool" where
  "plan_orders [] clauses exact = (clauses, exact)"
| "plan_orders (path # paths) clauses exact =
     (if path \<noteq> NAME_FIELD \<and> plain_path path \<noteq> None
      then plan_orders paths (clauses @ [exists_clause path]) exact
      else if path \<noteq> NAME_FIELD then plan_orders paths clauses False
      else plan_orders paths clauses exact)"

definition and_clauses :: "bson_doc list \<Rightarrow> bson_doc" where
  "and_clauses clauses = [(''$and'', BArr (map BDoc clauses))]"

definition plan :: "filter_type list \<Rightarrow> string list \<Rightarrow> query_plan" where
  "plan filters order_paths =
     (let (clauses, exact) = plan_filters filters [] True;
          (clauses, exact) = plan_orders order_paths clauses exact
      in \<lparr>pl_predicate = (if clauses \<noteq> [] then Some (and_clauses clauses) else None), pl_exact = exact\<rparr>)"

definition mongo_predicate :: "filter_type list \<Rightarrow> bson_doc option" where
  "mongo_predicate filters = pl_predicate (plan filters [])"

definition as_documents :: "bson list \<Rightarrow> bson_doc list" where
  "as_documents xs = List.map_filter (\<lambda>x. case x of BDoc d \<Rightarrow> Some d | _ \<Rightarrow> None) xs"

definition conjoin :: "bson_doc option \<Rightarrow> bson_doc list \<Rightarrow> bson_doc option" where
  "conjoin predicate extra =
     (if extra = [] then predicate
      else
        (let clauses = (case predicate of
             None \<Rightarrow> []
           | Some existing \<Rightarrow>
             (case hm_get existing ''$and'' of Some (BArr items) \<Rightarrow> as_documents items | _ \<Rightarrow> [existing]))
         in Some (and_clauses (clauses @ extra))))"

section \<open>Cursor bounds\<close>

definition cursor_op :: "bool \<Rightarrow> bool \<Rightarrow> string" where
  "cursor_op is_gt incl =
     (case (is_gt, incl) of
        (True, False) \<Rightarrow> ''$gt'' | (True, True) \<Rightarrow> ''$gte''
      | (False, False) \<Rightarrow> ''$lt'' | (False, True) \<Rightarrow> ''$lte'')"

fun pin_columns :: "((string \<times> bool) \<times> fvalue) list \<Rightarrow> bson_doc \<Rightarrow> bson_doc" where
  "pin_columns [] branch = branch"
| "pin_columns ((column, v) # rest) branch = pin_columns rest (hm_insert (fst column) (BStr (key v)) branch)"

definition cursor_branch ::
  "((string \<times> bool) \<times> fvalue) list \<Rightarrow> nat \<Rightarrow> bool \<Rightarrow> bound \<Rightarrow> nat \<Rightarrow> bson_doc" where
  "cursor_branch pairs n incl bnd i =
     (let ((column, ascending), v) = pairs ! i;
          last_one = (Suc i = n);
          op = cursor_op ((bnd = After) = ascending) (last_one \<and> incl);
          branch = pin_columns (take i pairs) []
      in hm_insert column (BDoc [(op, BStr (key v))]) branch)"

definition cursor_bound ::
  "(string \<times> bool) list \<Rightarrow> fvalue list \<Rightarrow> bool \<Rightarrow> bound \<Rightarrow> bson_doc option" where
  "cursor_bound columns vs incl bnd =
     (if vs = [] \<or> length columns < length vs then None
      else
        (let branches = map (cursor_branch (zip columns vs) (length vs) incl bnd) [0..<length vs]
         in Some (if length branches = 1 then last branches
                  else [(''$or'', BArr (map BDoc branches))])))"

end
