(* ===== verification/QueryRun.thy ===== *)
theory QueryRun
  imports Plan
begin

text \<open>
  \<open>query.rs\<close> and the query half of \<open>store.rs\<close>: fetching candidates through the
  planner's predicate, or all of a collection, and evaluating the query over them.  The driver
  calls are a parameter, the record \<open>query_driver\<close>; the set of databases whose indexes
  this process has created is part of the state.
\<close>

section \<open>Driver calls\<close>

record sort_window =
  sw_order_by :: "(string \<times> bool) list"
  sw_skip :: i64
  sw_limit :: "i64 option"

record find_options =
  fo_sort :: "(string \<times> int) list option"
  fo_skip :: "nat option"
  fo_limit :: "i64 option"

record 's query_driver =
  create_indexes :: "'s \<Rightarrow> string \<Rightarrow> (string \<times> int) list list \<Rightarrow> (engine_error + unit) \<times> 's"
  find_rows :: "'s \<Rightarrow> string \<Rightarrow> bson_doc \<Rightarrow> find_options \<Rightarrow> (engine_error + doc_row list) \<times> 's"

record 's query_state =
  qs_session :: 's
  qs_indexed :: "string list"

section \<open>Fetching\<close>

definition query_indexes :: "(string \<times> int) list list" where
  "query_indexes =
     [[(''collection_path'', 1), (''keys.$**'', 1), (''name_key'', 1)],
      [(''collection_id'', 1), (''keys.$**'', 1), (''name_key'', 1)],
      [(''collection_path'', 1), (''elements.p'', 1), (''elements.v'', 1)],
      [(''collection_id'', 1), (''elements.p'', 1), (''elements.v'', 1)]]"

definition ensure_query_indexes ::
  "'s query_driver \<Rightarrow> database_name \<Rightarrow> 's query_state \<Rightarrow> (engine_error + unit) \<times> 's query_state" where
  "ensure_query_indexes qd database st =
     (let name = collection_name database
      in if name \<in> set (qs_indexed st) then (Inr (), st)
         else case create_indexes qd (qs_session st) name query_indexes of
             (Inl e, s) \<Rightarrow> (Inl e, st\<lparr>qs_session := s\<rparr>)
           | (Inr _, s) \<Rightarrow> (Inr (), st\<lparr>qs_session := s, qs_indexed := name # qs_indexed st\<rparr>))"

fun insert_all :: "bson_doc \<Rightarrow> bson_doc \<Rightarrow> bson_doc" where
  "insert_all [] base = base"
| "insert_all ((k, v) # rest) base = insert_all rest (hm_insert k v base)"

definition narrowed ::
  "'s query_driver \<Rightarrow> database_name \<Rightarrow> bson_doc \<Rightarrow> bson_doc option \<Rightarrow> 's query_state
     \<Rightarrow> (engine_error + bson_doc) \<times> 's query_state" where
  "narrowed qd database base predicate st =
     (case predicate of
        None \<Rightarrow> (Inr base, st)
      | Some p \<Rightarrow>
        (case ensure_query_indexes qd database st of
           (Inl e, st') \<Rightarrow> (Inl e, st')
         | (Inr _, st') \<Rightarrow> (Inr (insert_all p base), st')))"

fun sort_document :: "(string \<times> bool) list \<Rightarrow> (string \<times> int) list \<Rightarrow> (string \<times> int) list" where
  "sort_document [] d = d"
| "sort_document ((field, ascending) # rest) d =
     sort_document rest (hm_insert field (if ascending then 1 else - 1) d)"

definition window_options :: "sort_window option \<Rightarrow> find_options" where
  "window_options window =
     (case window of
        None \<Rightarrow> \<lparr>fo_sort = None, fo_skip = None, fo_limit = None\<rparr>
      | Some w \<Rightarrow> \<lparr>fo_sort = Some (sort_document (sw_order_by w) []),
          fo_skip = (if 0 < sint (sw_skip w) then Some (nat (sint (sw_skip w))) else None),
          fo_limit = sw_limit w\<rparr>)"

fun collect_rows :: "codec \<Rightarrow> doc_row list \<Rightarrow> engine_error + stored_document list" where
  "collect_rows cd [] = Inr []"
| "collect_rows cd (row # rows) =
     (case decode_row cd row of
        Inl e \<Rightarrow> Inl e
      | Inr d \<Rightarrow> map_sum id ((#) d) (collect_rows cd rows))"

definition fetch ::
  "'s query_driver \<Rightarrow> codec \<Rightarrow> database_name \<Rightarrow> bson_doc \<Rightarrow> sort_window option \<Rightarrow> 's query_state
     \<Rightarrow> (engine_error + stored_document list) \<times> 's query_state" where
  "fetch qd cd database flt window st =
     (case find_rows qd (qs_session st) (collection_name database) flt (window_options window) of
        (Inl e, s) \<Rightarrow> (Inl e, st\<lparr>qs_session := s\<rparr>)
      | (Inr rows, s) \<Rightarrow> (collect_rows cd rows, st\<lparr>qs_session := s\<rparr>))"

definition list_where ::
  "'s query_driver \<Rightarrow> codec \<Rightarrow> database_name \<Rightarrow> bson_doc \<Rightarrow> bson_doc option \<Rightarrow> sort_window option
     \<Rightarrow> 's query_state \<Rightarrow> (engine_error + stored_document list) \<times> 's query_state" where
  "list_where qd cd database base predicate window st =
     (case narrowed qd database base predicate st of
        (Inl e, st') \<Rightarrow> (Inl e, st')
      | (Inr flt, st') \<Rightarrow> fetch qd cd database flt window st')"

definition list_collection_where ::
  "'s query_driver \<Rightarrow> codec \<Rightarrow> database_name \<Rightarrow> resource_path \<Rightarrow> bson_doc option \<Rightarrow> sort_window option
     \<Rightarrow> 's query_state \<Rightarrow> (engine_error + stored_document list) \<times> 's query_state" where
  "list_collection_where qd cd database collection_path predicate window st =
     list_where qd cd database [(''collection_path'', BStr (show_path collection_path))] predicate window st"

definition list_collection_group_where ::
  "'s query_driver \<Rightarrow> codec \<Rightarrow> database_name \<Rightarrow> string \<Rightarrow> bson_doc option \<Rightarrow> sort_window option
     \<Rightarrow> 's query_state \<Rightarrow> (engine_error + stored_document list) \<times> 's query_state" where
  "list_collection_group_where qd cd database cid predicate window st =
     list_where qd cd database [(''collection_id'', BStr cid)] predicate window st"

section \<open>Planning a query\<close>

definition sort_columns :: "query_order list \<Rightarrow> (string \<times> bool) list" where
  "sort_columns orders =
     map (\<lambda>ord. (sort_field (order_path ord), or_direction ord \<noteq> direction_descending)) orders"

text \<open>
  The result is \<open>None\<close> when a cursor cannot be expressed, which bars the window.
\<close>

fun bound_clauses ::
  "(query_cursor option \<times> bound) list \<Rightarrow> (string \<times> bool) list \<Rightarrow> bson_doc list option" where
  "bound_clauses [] columns = Some []"
| "bound_clauses ((None, b) # rest) columns = bound_clauses rest columns"
| "bound_clauses ((Some cursor, b) # rest) columns =
     (let incl = (if b = After then cu_before cursor else \<not> cu_before cursor)
      in case cursor_bound columns (cu_values cursor) incl b of
           None \<Rightarrow> None
         | Some clause \<Rightarrow> map_option ((#) clause) (bound_clauses rest columns))"

definition cursor_clauses ::
  "structured_query \<Rightarrow> (string \<times> bool) list \<Rightarrow> query_order list \<Rightarrow> bson_doc list option" where
  "cursor_clauses query columns orders =
     (if sq_start_at query = None \<and> sq_end_at query = None then Some []
      else if \<not> list_all (\<lambda>ord. is_plain_path (order_path ord)) orders then None
      else bound_clauses [(sq_start_at query, After), (sq_end_at query, Before)] columns)"

definition pushdown_window ::
  "structured_query \<Rightarrow> (string \<times> bool) list \<Rightarrow> bool \<Rightarrow> sort_window option" where
  "pushdown_window query columns exact =
     (if \<not> exact then None
      else if (case sq_limit query of None \<Rightarrow> False | Some limit \<Rightarrow> sint limit \<le> 0) then None
      else if sq_limit query = None \<and> sint (sq_offset query) \<le> 0 then None
      else Some \<lparr>sw_order_by = columns,
        sw_skip = word_of_int (max (sint (sq_offset query)) 0),
        sw_limit = map_option (\<lambda>limit. scast limit) (sq_limit query)\<rparr>)"

definition plan_query ::
  "structured_query \<Rightarrow> filter_type list \<Rightarrow> query_order list \<Rightarrow> bool
     \<Rightarrow> bson_doc option \<times> sort_window option" where
  "plan_query query filters orders planned =
     (if planned then
        (let pl = plan filters (map order_path orders);
             columns = sort_columns orders;
             cursors = cursor_clauses query columns orders;
             window = (case cursors of Some _ \<Rightarrow> pushdown_window query columns (pl_exact pl) | None \<Rightarrow> None)
         in (conjoin (pl_predicate pl) (case cursors of Some cs \<Rightarrow> cs | None \<Rightarrow> []), window))
      else (None, None))"

section \<open>Evaluation\<close>

definition fetch_candidates ::
  "'s query_driver \<Rightarrow> codec \<Rightarrow> database_name \<Rightarrow> resource_path \<Rightarrow> collection_selector
     \<Rightarrow> bson_doc option \<Rightarrow> sort_window option \<Rightarrow> 's query_state
     \<Rightarrow> (engine_error + stored_document list) \<times> 's query_state" where
  "fetch_candidates qd cd database par selector predicate window st =
     (if cs_all_descendants selector then
        (if par \<noteq> [] then (Inl Unimplemented, st)
         else list_collection_group_where qd cd database (cs_collection_id selector) predicate window st)
      else case child par (cs_collection_id selector) of
          Inl e \<Rightarrow> (Inl e, st)
        | Inr collection \<Rightarrow> list_collection_where qd cd database collection predicate window st)"

definition query_filters :: "structured_query \<Rightarrow> engine_error + filter_type list" where
  "query_filters query = (case sq_where query of None \<Rightarrow> Inr [] | Some flt \<Rightarrow> flatten_and flt [])"

definition evaluate_query ::
  "'s query_driver \<Rightarrow> codec \<Rightarrow> database_name \<Rightarrow> resource_path \<Rightarrow> structured_query \<Rightarrow> bool
     \<Rightarrow> 's query_state \<Rightarrow> (engine_error + stored_document list) \<times> 's query_state" where
  "evaluate_query qd cd database par query planned st =
     (case sq_from query of
        [selector] \<Rightarrow>
          (case query_filters query of
             Inl e \<Rightarrow> (Inl e, st)
           | Inr filters \<Rightarrow>
             (let orders = normalize_orders query filters;
                  (predicate, window) = plan_query query filters orders planned
              in case fetch_candidates qd cd database par selector predicate window st of
                   (Inl e, st') \<Rightarrow> (Inl e, st')
                 | (Inr docs, st') \<Rightarrow>
                     (finish_query database query filters orders (window \<noteq> None) docs, st')))
      | _ \<Rightarrow> (Inl InvalidArgument, st))"

definition run_query where
  "run_query qd cd database par query st = evaluate_query qd cd database par query True st"

definition run_query_scanning where
  "run_query_scanning qd cd database par query st = evaluate_query qd cd database par query False st"

end
