(* ===== verification/Service.thy ===== *)
theory Service
  imports Txn Fanout RulesBind QueryRun
begin

text \<open>
  \<open>service.rs\<close>: the unary methods of the Firestore service.  The state of a server is the driver
  with the set of indexed databases, the cache of signing keys, the table of transactions and the
  events published on the hub; what does not change while requests are served is the record
  \<open>service\<close>.  The commit lock is a mutex of the process: it keeps the commits of this instance
  from each other, so a request is one step of this server, but not those of other instances, whose
  writes between the validation of a read set and the application of the writes are \<open>sv_others\<close>.
\<close>

section \<open>Messages\<close>

type_synonym timestamp = "i64 \<times> i32"

record wire_document =
  wd_name :: string
  wd_fields :: fields
  wd_create_time :: "timestamp option"
  wd_update_time :: "timestamp option"

text \<open>\<open>None\<close> is a mode that is not set.\<close>

datatype transaction_mode = ReadOnly | ReadWrite

type_synonym transaction_options = "transaction_mode option"

datatype consistency = In_transaction token | New_transaction transaction_options | Read_time timestamp

datatype get_result = Found wire_document | Missing string

record batch_get_response =
  bg_result :: get_result
  bg_read_time :: timestamp
  bg_transaction :: token

record query_response =
  qr_document :: "wire_document option"
  qr_read_time :: timestamp
  qr_transaction :: token

record write_result =
  wr_update_time :: timestamp
  wr_transform_results :: "fvalue list"

record commit_response =
  cr_write_results :: "write_result list"
  cr_commit_time :: timestamp

section \<open>The server\<close>

text \<open>
  \<open>sv_context\<close> holds the driver calls outside a session, \<open>sv_session_mongo\<close> those inside one;
  \<open>sv_message\<close> is the message of an engine error, \<open>sv_hash\<close> what the random hasher of
  \<open>generate_document_id\<close> answers after each round, \<open>sv_distinct\<close> the driver's \<open>distinct\<close>
  on collection paths, \<open>sv_others\<close> what other instances do to the database before the first attempt
  of a commit (what they do between its attempts is in the states the session calls return).
\<close>

record ('k, 'd, 's) service =
  sv_world :: "('k, 'd) auth_world"
  sv_policy :: auth_policy
  sv_registry :: registry
  sv_context :: "'d rules_context"
  sv_sessions :: "('d, 's) session_ops"
  sv_session_mongo :: "'s mongo"
  sv_query_driver :: "'d query_driver"
  sv_distinct :: "string \<Rightarrow> 'd \<Rightarrow> (engine_error + string list) \<times> 'd"
  sv_instance :: string
  sv_message :: "engine_error \<Rightarrow> string"
  sv_instant :: "'d \<Rightarrow> nat"
  sv_elapsed :: "'d \<Rightarrow> 128 word"
  sv_hash :: "'d \<Rightarrow> nat \<Rightarrow> u64"
  sv_others :: "'d \<Rightarrow> 'd"

record ('k, 'd) server =
  st_query :: "'d query_state"
  st_keys :: "'k key_cache"
  st_txns :: txn_manager
  st_events :: "commit_event list"

abbreviation st_driver :: "('k, 'd) server \<Rightarrow> 'd" where
  "st_driver st \<equiv> qs_session (st_query st)"

type_synonym ('k, 'd, 'a) handler = "('k, 'd) server \<Rightarrow> (status + 'a) \<times> ('k, 'd) server"

definition answer :: "'a \<Rightarrow> ('k, 'd, 'a) handler" where "answer a st = (Inr a, st)"
definition refuse :: "status \<Rightarrow> ('k, 'd, 'a) handler" where "refuse e st = (Inl e, st)"

definition and_then :: "('k, 'd, 'a) handler \<Rightarrow> ('a \<Rightarrow> ('k, 'd, 'b) handler) \<Rightarrow> ('k, 'd, 'b) handler" where
  "and_then m f st = (case m st of (Inl e, st) \<Rightarrow> (Inl e, st) | (Inr a, st) \<Rightarrow> f a st)"

definition engine_status :: "('k, 'd, 's) service \<Rightarrow> engine_error \<Rightarrow> status" where
  "engine_status sv e =
     (case e of
        NotFound \<Rightarrow> Not_found (sv_message sv e)
      | AlreadyExists \<Rightarrow> Already_exists (sv_message sv e)
      | Aborted \<Rightarrow> Aborted_status ''transaction contention''
      | FailedPrecondition \<Rightarrow> Failed_precondition (sv_message sv e)
      | InvalidArgument \<Rightarrow> Invalid_argument (sv_message sv e)
      | Unimplemented \<Rightarrow> Unimplemented_status (sv_message sv e)
      | Mongo _ \<Rightarrow> Internal (''storage: '' @ sv_message sv e))"

text \<open>The \<open>map_err(|e| Status::invalid_argument(e.to_string()))\<close> of the parsers.\<close>

definition parsed_as :: "('k, 'd, 's) service \<Rightarrow> engine_error + 'a \<Rightarrow> ('k, 'd, 'a) handler" where
  "parsed_as sv r =
     (case r of Inl e \<Rightarrow> refuse (Invalid_argument (rc_error_text (sv_context sv) e)) | Inr a \<Rightarrow> answer a)"

text \<open>Calls on the driver, on the store's queries, on the transactions, and of the authorization.\<close>

definition on_driver :: "('d \<Rightarrow> (status + 'a) \<times> 'd) \<Rightarrow> ('k, 'd, 'a) handler" where
  "on_driver f st = (let (r, d) = f (st_driver st) in (r, st\<lparr>st_query := (st_query st)\<lparr>qs_session := d\<rparr>\<rparr>))"

definition engine_call ::
  "('k, 'd, 's) service \<Rightarrow> ('d \<Rightarrow> (engine_error + 'a) \<times> 'd) \<Rightarrow> ('k, 'd, 'a) handler" where
  "engine_call sv f = on_driver (\<lambda>d. let (r, d) = f d in (map_sum (engine_status sv) id r, d))"

definition query_call ::
  "('k, 'd, 's) service \<Rightarrow> ('d query_state \<Rightarrow> (engine_error + 'a) \<times> 'd query_state) \<Rightarrow> ('k, 'd, 'a) handler" where
  "query_call sv f st = (let (r, q) = f (st_query st) in (map_sum (engine_status sv) id r, st\<lparr>st_query := q\<rparr>))"

definition txns_call :: "(txn_manager \<Rightarrow> 'a \<times> txn_manager) \<Rightarrow> ('k, 'd, 'a) handler" where
  "txns_call f st = (let (a, m) = f (st_txns st) in (Inr a, st\<lparr>st_txns := m\<rparr>))"

definition authorized :: "('k, 'd, 's) service \<Rightarrow> string option \<Rightarrow> ('k, 'd, authorization) handler" where
  "authorized sv header st =
     (let (r, keys, d) = authorize (sv_world sv) (sv_policy sv) header (st_keys st, st_driver st)
      in (r, st\<lparr>st_keys := keys, st_query := (st_query st)\<lparr>qs_session := d\<rparr>\<rparr>))"

definition publish :: "commit_event \<Rightarrow> ('k, 'd, unit) handler" where
  "publish event st = (Inr (), st\<lparr>st_events := st_events st @ [event]\<rparr>)"

definition now_us :: "('k, 'd, 's) service \<Rightarrow> ('k, 'd, i64) handler" where
  "now_us sv st = (Inr (rc_now_us (sv_context sv) (st_driver st)), st)"

definition check_access ::
  "('k, 'd, 's) service \<Rightarrow> authorization \<Rightarrow> access_request \<Rightarrow> ('k, 'd, unit) handler" where
  "check_access sv auth req = on_driver (check (sv_context sv) (sv_registry sv) auth req)"

definition read_one ::
  "('k, 'd, 's) service \<Rightarrow> database_name \<Rightarrow> resource_path \<Rightarrow> ('k, 'd, stored_document option) handler" where
  "read_one sv database path =
     engine_call sv (get_document (rc_mongo (sv_context sv)) (rc_codec (sv_context sv)) database path)"

section \<open>Conversions\<close>

definition timestamp_from_us :: "i64 \<Rightarrow> timestamp" where
  "timestamp_from_us us = (word_of_int (sint us div 1000000), word_of_int (sint us mod 1000000 * 1000))"

definition to_wire_document :: "resource_name \<Rightarrow> stored_document \<Rightarrow> wire_document" where
  "to_wire_document name doc =
     \<lparr>wd_name = show_name name, wd_fields = sd_fields doc,
      wd_create_time = Some (timestamp_from_us (create_time_us doc)),
      wd_update_time = Some (timestamp_from_us (update_time_us doc))\<rparr>"

text \<open>The loop of \<open>project_fields\<close> and \<open>mask_fields\<close>.\<close>

fun copy_fields :: "fields \<Rightarrow> string list \<Rightarrow> fields \<Rightarrow> fields" where
  "copy_fields src [] out = out"
| "copy_fields src (path # paths) out =
     (case get_field src path of
        Some v \<Rightarrow> copy_fields src paths (set_field out path v)
      | None \<Rightarrow> copy_fields src paths out)"

definition project_fields :: "fields \<Rightarrow> string list \<Rightarrow> fields" where
  "project_fields fs paths =
     (if paths = [] then fs else copy_fields fs (filter (\<lambda>p. p \<noteq> ''__name__'') paths) [])"

definition mask_fields :: "fields \<Rightarrow> string list \<Rightarrow> fields" where
  "mask_fields fs paths = copy_fields fs paths []"

definition id_alphabet :: string where
  "id_alphabet = ''ABCDEFGHIJKLMNOPQRSTUVWXYZabcdefghijklmnopqrstuvwxyz0123456789''"

definition generate_document_id :: "(nat \<Rightarrow> u64) \<Rightarrow> string" where
  "generate_document_id hash = map (\<lambda>i. id_alphabet ! (unat (hash i) mod length id_alphabet)) [0..<20]"

definition begin_transaction_with ::
  "('k, 'd, 's) service \<Rightarrow> database_name \<Rightarrow> transaction_options option \<Rightarrow> ('k, 'd, token) handler" where
  "begin_transaction_with sv database options st =
     txns_call (begin_txn (sv_instant sv (st_driver st)) (sv_elapsed sv (st_driver st)) database
                  (options = Some (Some ReadOnly))) st"

text \<open>A read inside a transaction is recorded, one outside is not.\<close>

definition observe :: "token option \<Rightarrow> string \<Rightarrow> i64 \<Rightarrow> ('k, 'd, unit) handler" where
  "observe token path version_us =
     (case token of
        None \<Rightarrow> answer ()
      | Some token \<Rightarrow> txns_call (\<lambda>m. ((), record_read token path version_us m)))"

text \<open>The transaction a selector names or begins: the token to record into and the new token.\<close>

definition select_transaction ::
  "('k, 'd, 's) service \<Rightarrow> database_name \<Rightarrow> consistency option \<Rightarrow> ('k, 'd, token option \<times> token option) handler" where
  "select_transaction sv database selector =
     (case selector of
        Some (In_transaction token) \<Rightarrow> answer (Some token, None)
      | Some (New_transaction options) \<Rightarrow>
          and_then (begin_transaction_with sv database (Some options)) (\<lambda>token. answer (Some token, Some token))
      | _ \<Rightarrow> answer (None, None))"

definition first_token :: "token option \<Rightarrow> bool \<Rightarrow> token" where
  "first_token new_txn first = (if first then (case new_txn of Some t \<Rightarrow> t | None \<Rightarrow> []) else [])"

section \<open>Reads\<close>

definition not_found :: "string \<Rightarrow> status" where
  "not_found name = Not_found (''Document ('' @ name @ '') not found.'')"

text \<open>The name of a \<open>GetDocument\<close>: what cannot be a document does not exist.\<close>

definition get_name :: "('k, 'd, 's) service \<Rightarrow> string \<Rightarrow> ('k, 'd, resource_name) handler" where
  "get_name sv name =
     (case parse_name name of
        Inr parsed \<Rightarrow> if is_document (rn_path parsed) then answer parsed else refuse (not_found name)
      | Inl e \<Rightarrow>
          (case parse_prefix name of
             Inr _ \<Rightarrow> refuse (not_found name)
           | Inl _ \<Rightarrow> refuse (Invalid_argument (rc_error_text (sv_context sv) e))))"

definition selector_token :: "consistency option \<Rightarrow> token option" where
  "selector_token selector = (case selector of Some (In_transaction t) \<Rightarrow> Some t | _ \<Rightarrow> None)"

definition read_access :: "database_name \<Rightarrow> resource_path \<Rightarrow> rules_operation \<Rightarrow> stored_document option \<Rightarrow> access_request" where
  "read_access database path op existing =
     \<lparr>ar_database = database, ar_path = path, ar_operation = op, ar_incoming = None, ar_existing = existing\<rparr>"

record get_request =
  gq_name :: string
  gq_selector :: "consistency option"

definition get_document_call ::
  "('k, 'd, 's) service \<Rightarrow> string option \<Rightarrow> get_request \<Rightarrow> ('k, 'd, wire_document) handler" where
  "get_document_call sv header req =
     and_then (authorized sv header) (\<lambda>auth.
     and_then (get_name sv (gq_name req)) (\<lambda>name.
     and_then (read_one sv (rn_database name) (rn_path name)) (\<lambda>found.
     and_then (observe (selector_token (gq_selector req)) (show_path (rn_path name)) (observed_version found)) (\<lambda>_.
     case found of
       None \<Rightarrow> refuse (not_found (gq_name req))
     | Some doc \<Rightarrow>
         and_then (check_access sv auth (read_access (rn_database name) (rn_path name) OpGet (Some doc))) (\<lambda>_.
         answer (to_wire_document name doc))))))"

record batch_get_request =
  bq_database :: string
  bq_documents :: "string list"
  bq_selector :: "consistency option"

text \<open>The loop over the names: \<open>seen\<close> has the names met so far, \<open>first\<close> says no answer is out yet.\<close>

fun batch_get_each ::
  "('k, 'd, 's) service \<Rightarrow> authorization \<Rightarrow> database_name \<Rightarrow> timestamp \<Rightarrow> token option \<Rightarrow> token option
     \<Rightarrow> string list \<Rightarrow> string list \<Rightarrow> bool \<Rightarrow> ('k, 'd, batch_get_response list) handler" where
  "batch_get_each sv auth database read_time txn new_txn [] seen first = answer []"
| "batch_get_each sv auth database read_time txn new_txn (name # names) seen first =
     (if name \<in> set seen then batch_get_each sv auth database read_time txn new_txn names seen first
      else
        and_then (parsed_as sv (parse_document name)) (\<lambda>parsed.
        and_then (read_one sv database (rn_path parsed)) (\<lambda>found.
        and_then (observe txn (show_path (rn_path parsed)) (observed_version found)) (\<lambda>_.
        and_then (if found = None then answer ()
                  else check_access sv auth (read_access database (rn_path parsed) OpGet found)) (\<lambda>_.
        and_then (batch_get_each sv auth database read_time txn new_txn names (name # seen) False) (\<lambda>rest.
        answer (\<lparr>bg_result = (case found of Some doc \<Rightarrow> Found (to_wire_document parsed doc) | None \<Rightarrow> Missing name),
                 bg_read_time = read_time, bg_transaction = first_token new_txn first\<rparr> # rest)))))))"

definition batch_get_documents ::
  "('k, 'd, 's) service \<Rightarrow> string option \<Rightarrow> batch_get_request \<Rightarrow> ('k, 'd, batch_get_response list) handler" where
  "batch_get_documents sv header req =
     and_then (authorized sv header) (\<lambda>auth.
     and_then (parsed_as sv (parse_database (bq_database req))) (\<lambda>database.
     and_then (now_us sv) (\<lambda>now.
     and_then (select_transaction sv database (bq_selector req)) (\<lambda>(txn, new_txn).
     batch_get_each sv auth database (timestamp_from_us now) txn new_txn (bq_documents req) [] True))))"

record list_request =
  lq_parent :: string
  lq_collection_id :: string
  lq_mask :: "string list option"

definition compare_paths :: "stored_document \<Rightarrow> stored_document \<Rightarrow> ordering" where
  "compare_paths a b = cmp_segments (sd_path a) (sd_path b)"

definition list_documents ::
  "('k, 'd, 's) service \<Rightarrow> list_request \<Rightarrow> ('k, 'd, wire_document list) handler" where
  "list_documents sv req =
     and_then (parsed_as sv (parse_name (lq_parent req))) (\<lambda>parent_name.
     if lq_collection_id req = [] then refuse (Invalid_argument ''missing collection_id'')
     else
       and_then (parsed_as sv (child (rn_path parent_name) (lq_collection_id req))) (\<lambda>collection.
       and_then (query_call sv (list_collection_where (sv_query_driver sv) (rc_codec (sv_context sv))
                   (rn_database parent_name) collection None None)) (\<lambda>docs.
       answer (map (\<lambda>doc.
                 let wire = to_wire_document \<lparr>rn_database = rn_database parent_name, rn_path = sd_path doc\<rparr> doc
                 in case lq_mask req of
                      None \<Rightarrow> wire
                    | Some mask_paths \<Rightarrow> wire\<lparr>wd_fields := mask_fields (wd_fields wire) mask_paths\<rparr>)
               (sort_by compare_paths docs)))))"

record query_request =
  rq_parent :: string
  rq_query :: "structured_query option"
  rq_select :: "string list option"
  rq_selector :: "consistency option"

text \<open>The recording of every returned document.\<close>

fun observe_all :: "token option \<Rightarrow> stored_document list \<Rightarrow> ('k, 'd, unit) handler" where
  "observe_all txn [] = answer ()"
| "observe_all txn (doc # docs) =
     and_then (observe txn (show_path (sd_path doc)) (update_time_us doc)) (\<lambda>_. observe_all txn docs)"

definition query_responses ::
  "database_name \<Rightarrow> timestamp \<Rightarrow> string list option \<Rightarrow> token option \<Rightarrow> stored_document list \<Rightarrow> query_response list" where
  "query_responses database read_time select new_txn docs =
     (if docs = [] then [\<lparr>qr_document = None, qr_read_time = read_time, qr_transaction = first_token new_txn True\<rparr>]
      else
        map (\<lambda>(i, doc).
          let wire = to_wire_document \<lparr>rn_database = database, rn_path = sd_path doc\<rparr> doc
          in \<lparr>qr_document = Some (case select of None \<Rightarrow> wire
                                  | Some paths \<Rightarrow> wire\<lparr>wd_fields := project_fields (wd_fields wire) paths\<rparr>),
              qr_read_time = read_time, qr_transaction = first_token new_txn (i = 0)\<rparr>) (enumerate 0 docs))"

definition run_query_call ::
  "('k, 'd, 's) service \<Rightarrow> string option \<Rightarrow> query_request \<Rightarrow> ('k, 'd, query_response list) handler" where
  "run_query_call sv header req =
     and_then (authorized sv header) (\<lambda>auth.
     and_then (parsed_as sv (parse_name (rq_parent req))) (\<lambda>parent_name.
     case rq_query req of
       None \<Rightarrow> refuse (Invalid_argument ''missing structured_query'')
     | Some query \<Rightarrow>
         and_then (select_transaction sv (rn_database parent_name) (rq_selector req)) (\<lambda>(txn, new_txn).
         and_then
           (case sq_from query of
              [] \<Rightarrow> answer ()
            | selector # _ \<Rightarrow>
                and_then (parsed_as sv (child (rn_path parent_name) (cs_collection_id selector))) (\<lambda>collection.
                check_access sv auth (read_access (rn_database parent_name) collection OpList None))) (\<lambda>_.
         and_then (query_call sv (run_query (sv_query_driver sv) (rc_codec (sv_context sv))
                     (rn_database parent_name) (rn_path parent_name) query)) (\<lambda>docs.
         and_then (observe_all txn docs) (\<lambda>_.
         and_then (now_us sv) (\<lambda>now.
         answer (query_responses (rn_database parent_name) (timestamp_from_us now) (rq_select req) new_txn docs))))))))"

record aggregation_request =
  aq_parent :: string
  aq_query :: "(structured_query option \<times> aggregation list) option"

definition run_aggregation_query ::
  "('k, 'd, 's) service \<Rightarrow> aggregation_request \<Rightarrow> ('k, 'd, (string \<times> fvalue) list \<times> timestamp) handler" where
  "run_aggregation_query sv req =
     and_then (parsed_as sv (parse_name (aq_parent req))) (\<lambda>parent_name.
     case aq_query req of
       None \<Rightarrow> refuse (Invalid_argument ''missing structured_aggregation_query'')
     | Some (None, _) \<Rightarrow> refuse (Invalid_argument ''missing underlying structured_query'')
     | Some (Some query, aggregations) \<Rightarrow>
         and_then (query_call sv (run_query (sv_query_driver sv) (rc_codec (sv_context sv))
                     (rn_database parent_name) (rn_path parent_name) query)) (\<lambda>docs.
         case aggregate docs aggregations of
           Inl e \<Rightarrow> refuse (engine_status sv e)
         | Inr results \<Rightarrow>
             and_then (now_us sv) (\<lambda>now.
             answer (fold (\<lambda>(alias, v). hm_insert alias v) results [], timestamp_from_us now))))"

definition list_collection_ids_call ::
  "('k, 'd, 's) service \<Rightarrow> string \<Rightarrow> ('k, 'd, string list) handler" where
  "list_collection_ids_call sv parent_text =
     and_then (parsed_as sv (parse_name parent_text)) (\<lambda>parent_name.
     and_then (engine_call sv (sv_distinct sv (collection_name (rn_database parent_name)))) (\<lambda>paths.
     answer (sort_by str_cmp (list_collection_ids paths (rn_path parent_name)))))"

section \<open>Writes\<close>

definition commit_call ::
  "('k, 'd, 's) service \<Rightarrow> database_name \<Rightarrow> write_req list \<Rightarrow> i64 \<Rightarrow> ('k, 'd, commit_applied) handler" where
  "commit_call sv database ws now =
     engine_call sv (\<lambda>d. apply_commit (sv_sessions sv) (sv_session_mongo sv) (rc_codec (sv_context sv)) (sv_instance sv)
                       database ws now (sv_others sv d))"

definition commit_published :: "database_name \<Rightarrow> commit_applied \<Rightarrow> i64 \<Rightarrow> ('k, 'd, unit) handler" where
  "commit_published database applied now =
     publish \<lparr>ce_database = database, ce_changes = changes applied, ce_commit_us = now, ce_origin = Local\<rparr>"

definition write_results :: "commit_applied \<Rightarrow> write_result list" where
  "write_results applied =
     map (\<lambda>outcome. \<lparr>wr_update_time = timestamp_from_us (wo_update_time_us outcome),
       wr_transform_results = wo_transform_results outcome\<rparr>) (outcomes applied)"

definition apply_single_write ::
  "('k, 'd, 's) service \<Rightarrow> resource_name \<Rightarrow> write_req \<Rightarrow> ('k, 'd, wire_document) handler" where
  "apply_single_write sv name w =
     and_then (now_us sv) (\<lambda>now.
     and_then (commit_call sv (rn_database name) [w] now) (\<lambda>applied.
     and_then (commit_published (rn_database name) applied now) (\<lambda>_.
     answer (case Option.bind (find (\<lambda>delta. dd_path delta = rn_path name) (changes applied)) dd_after of
               Some doc \<Rightarrow> to_wire_document name doc
             | None \<Rightarrow> \<lparr>wd_name = show_name name, wd_fields = [], wd_create_time = None, wd_update_time = None\<rparr>))))"

definition plain_write :: "operation \<Rightarrow> condition option option \<Rightarrow> write_req" where
  "plain_write op precondition =
     \<lparr>operation = Some op, update_mask = None, update_transforms = [], current_document = precondition\<rparr>"

record create_request =
  cq_parent :: string
  cq_collection_id :: string
  cq_document_id :: string
  cq_document :: "document option"

text \<open>\<open>unwrap_or_default\<close> of a missing document.\<close>

definition the_document :: "document option \<Rightarrow> document" where
  "the_document doc = (case doc of Some d \<Rightarrow> d | None \<Rightarrow> \<lparr>doc_name = [], doc_fields = []\<rparr>)"

definition create_document ::
  "('k, 'd, 's) service \<Rightarrow> create_request \<Rightarrow> ('k, 'd, wire_document) handler" where
  "create_document sv req st =
     and_then (parsed_as sv (parse_name (cq_parent req))) (\<lambda>parent_name.
     let document_id = (if cq_document_id req = [] then generate_document_id (sv_hash sv (st_driver st))
                        else cq_document_id req)
     in and_then (parsed_as sv (case child (rn_path parent_name) (cq_collection_id req) of
                                  Inl e \<Rightarrow> Inl e | Inr c \<Rightarrow> child c document_id)) (\<lambda>path.
        let name = \<lparr>rn_database = rn_database parent_name, rn_path = path\<rparr>;
            doc = (the_document (cq_document req))\<lparr>doc_name := show_name name\<rparr>
        in apply_single_write sv name (plain_write (Update doc) (Some (Some (Exists False)))))) st"

record update_request =
  uq_document :: "document option"
  uq_update_mask :: "string list option"
  uq_current_document :: "condition option option"

definition update_document ::
  "('k, 'd, 's) service \<Rightarrow> update_request \<Rightarrow> ('k, 'd, wire_document) handler" where
  "update_document sv req =
     (let doc = the_document (uq_document req)
      in and_then (parsed_as sv (parse_document (doc_name doc))) (\<lambda>name.
         apply_single_write sv name
           ((plain_write (Update doc) (uq_current_document req))\<lparr>update_mask := uq_update_mask req\<rparr>)))"

record delete_request =
  dq_name :: string
  dq_current_document :: "condition option option"

definition delete_document_call ::
  "('k, 'd, 's) service \<Rightarrow> delete_request \<Rightarrow> ('k, 'd, unit) handler" where
  "delete_document_call sv req =
     and_then (parsed_as sv (parse_document (dq_name req))) (\<lambda>name.
     and_then (apply_single_write sv name (plain_write (Delete (dq_name req)) (dq_current_document req))) (\<lambda>_.
     answer ()))"

section \<open>Transactions and commits\<close>

definition begin_transaction_call ::
  "('k, 'd, 's) service \<Rightarrow> string \<Rightarrow> transaction_options option \<Rightarrow> ('k, 'd, token) handler" where
  "begin_transaction_call sv database_text options =
     and_then (parsed_as sv (parse_database database_text)) (\<lambda>database.
     begin_transaction_with sv database options)"

definition rollback_call :: "token \<Rightarrow> ('k, 'd, unit) handler" where
  "rollback_call token = txns_call (\<lambda>m. ((), rollback_txn token m))"

record commit_request =
  mq_database :: string
  mq_writes :: "write_req list"
  mq_transaction :: token

text \<open>The part of \<open>commit\<close> for a request with a transaction.\<close>

definition finish_transaction ::
  "('k, 'd, 's) service \<Rightarrow> database_name \<Rightarrow> token \<Rightarrow> bool \<Rightarrow> ('k, 'd, unit) handler" where
  "finish_transaction sv database token has_writes st =
     and_then (txns_call (take_txn (sv_instant sv (st_driver st)) token database)) (\<lambda>taken.
     case taken of
       Inl e \<Rightarrow> refuse (engine_status sv e)
     | Inr txn \<Rightarrow>
         if tx_read_only txn \<and> has_writes then refuse (Invalid_argument ''read-only transaction cannot write'')
         else engine_call sv (validate_read_set (rc_mongo (sv_context sv)) (rc_codec (sv_context sv))
                                (tx_database txn) (read_versions txn))) st"

definition commit ::
  "('k, 'd, 's) service \<Rightarrow> string option \<Rightarrow> commit_request \<Rightarrow> ('k, 'd, commit_response) handler" where
  "commit sv header req =
     and_then (authorized sv header) (\<lambda>auth.
     and_then (parsed_as sv (parse_database (mq_database req))) (\<lambda>database.
     and_then (now_us sv) (\<lambda>now.
     and_then (on_driver (check_writes (sv_context sv) (sv_registry sv) auth database (mq_writes req))) (\<lambda>_.
     and_then (if mq_transaction req = [] then answer ()
               else finish_transaction sv database (mq_transaction req) (mq_writes req \<noteq> [])) (\<lambda>_.
     and_then (commit_call sv database (mq_writes req) now) (\<lambda>applied.
     and_then (commit_published database applied now) (\<lambda>_.
     answer \<lparr>cr_write_results = write_results applied, cr_commit_time = timestamp_from_us now\<rparr>)))))))"

section \<open>The Write stream\<close>

text \<open>
  \<open>write_stream.rs\<close>: the requests of one stream in order.  The database is that of the first
  request; every answer has the big-endian count of the requests so far as its token; the stream
  ends with the first error.
\<close>

record stream_request =
  sq_database_text :: string
  sq_writes :: "write_req list"

record stream_response =
  sr_stream_token :: "u8 list"
  sr_response :: "commit_response option"

definition write_stream_one ::
  "('k, 'd, 's) service \<Rightarrow> authorization \<Rightarrow> database_name \<Rightarrow> u64 \<Rightarrow> write_req list \<Rightarrow> ('k, 'd, stream_response) handler" where
  "write_stream_one sv auth database n ws =
     (if ws = [] then answer \<lparr>sr_stream_token = be_bytes 8 n, sr_response = None\<rparr>
      else
        and_then (on_driver (check_writes (sv_context sv) (sv_registry sv) auth database ws)) (\<lambda>_.
        and_then (now_us sv) (\<lambda>now.
        and_then (commit_call sv database ws now) (\<lambda>applied.
        and_then (commit_published database applied now) (\<lambda>_.
        answer \<lparr>sr_stream_token = be_bytes 8 n,
          sr_response = Some \<lparr>cr_write_results = write_results applied, cr_commit_time = timestamp_from_us now\<rparr>\<rparr>)))))"

text \<open>The answers sent, with the error that ended the stream, if any.\<close>

fun write_stream ::
  "('k, 'd, 's) service \<Rightarrow> authorization \<Rightarrow> database_name option \<Rightarrow> u64 \<Rightarrow> stream_request list
     \<Rightarrow> ('k, 'd) server \<Rightarrow> (stream_response list \<times> status option) \<times> ('k, 'd) server" where
  "write_stream sv auth database n [] st = (([], None), st)"
| "write_stream sv auth database n (req # reqs) st =
     (case (case database of Some d \<Rightarrow> Inr d | None \<Rightarrow> parse_database (sq_database_text req)) of
        Inl e \<Rightarrow> (([], Some (Invalid_argument (rc_error_text (sv_context sv) e))), st)
      | Inr d \<Rightarrow>
          (case write_stream_one sv auth d (n + 1) (sq_writes req) st of
             (Inl e, st) \<Rightarrow> (([], Some e), st)
           | (Inr response, st) \<Rightarrow>
               (let ((rest, e), st) = write_stream sv auth (Some d) (n + 1) reqs st
                in ((response # rest, e), st))))"

section \<open>Serving requests\<close>

text \<open>The methods of the service; a \<open>Write\<close> request is one message of a stream with its count.\<close>

datatype request =
    GetDocument "string option" get_request
  | ListDocuments list_request
  | CreateDocument create_request
  | UpdateDocument update_request
  | DeleteDocument delete_request
  | BatchGetDocuments "string option" batch_get_request
  | BeginTransaction string "transaction_options option"
  | CommitWrites "string option" commit_request
  | Rollback token
  | RunQuery "string option" query_request
  | RunAggregationQuery aggregation_request
  | WriteMessage authorization database_name u64 "write_req list"
  | ListCollectionIds string
  | ExecutePipeline | PartitionQuery | BatchWrite

text \<open>The server after a request, whatever it answered; the last three are not implemented.\<close>

definition serve :: "('k, 'd, 's) service \<Rightarrow> request \<Rightarrow> ('k, 'd) server \<Rightarrow> ('k, 'd) server" where
  "serve sv req st =
     (case req of
        GetDocument header r \<Rightarrow> snd (get_document_call sv header r st)
      | ListDocuments r \<Rightarrow> snd (list_documents sv r st)
      | CreateDocument r \<Rightarrow> snd (create_document sv r st)
      | UpdateDocument r \<Rightarrow> snd (update_document sv r st)
      | DeleteDocument r \<Rightarrow> snd (delete_document_call sv r st)
      | BatchGetDocuments header r \<Rightarrow> snd (batch_get_documents sv header r st)
      | BeginTransaction database options \<Rightarrow> snd (begin_transaction_call sv database options st)
      | CommitWrites header r \<Rightarrow> snd (commit sv header r st)
      | Rollback token \<Rightarrow> snd (rollback_call token st)
      | RunQuery header r \<Rightarrow> snd (run_query_call sv header r st)
      | RunAggregationQuery r \<Rightarrow> snd (run_aggregation_query sv r st)
      | WriteMessage auth database n ws \<Rightarrow> snd (write_stream_one sv auth database n ws st)
      | ListCollectionIds p \<Rightarrow> snd (list_collection_ids_call sv p st)
      | ExecutePipeline \<Rightarrow> st
      | PartitionQuery \<Rightarrow> st
      | BatchWrite \<Rightarrow> st)"

text \<open>
  A step of the server: a request while the counter of transactions is not at its last value,
  or anything that happens to the driver's world outside this server.
\<close>

inductive server_step :: "('k, 'd, 's) service \<Rightarrow> ('k, 'd) server \<Rightarrow> ('k, 'd) server \<Rightarrow> bool" for sv where
  request: "counter (st_txns st) \<noteq> - 1 \<Longrightarrow> server_step sv st (serve sv req st)"
| outside: "server_step sv st (st\<lparr>st_query := q\<rparr>)"

inductive server_run :: "('k, 'd, 's) service \<Rightarrow> ('k, 'd) server \<Rightarrow> ('k, 'd) server \<Rightarrow> bool" for sv where
  idle: "server_run sv st st"
| step: "server_run sv st st' \<Longrightarrow> server_step sv st' st'' \<Longrightarrow> server_run sv st st''"

inductive_cases server_stepE: "server_step sv st st'"

end
