(* ===== verification/ServiceRun.thy ===== *)
theory ServiceRun
  imports Service
begin

text \<open>
  What every request keeps.  The locale \<open>server_relation\<close> is the contract between the handlers and
  a relation of server states: it is reflexive and transitive and every primitive of the handlers
  is in it; then so is every request.
\<close>

lemma and_then_cases:
  "and_then m f st = (case m st of (Inl e, st) \<Rightarrow> (Inl e, st) | (Inr a, st) \<Rightarrow> f a st)"
  by (rule and_then_def)

lemma and_then_Inr:
  "and_then m f st = (Inr b, st') \<longleftrightarrow> (\<exists>a st1. m st = (Inr a, st1) \<and> f a st1 = (Inr b, st'))"
  by (auto simp: and_then_def split: prod.splits sum.splits)

text \<open>Handlers that leave the table of transactions alone.\<close>

definition quiet :: "('k, 'd, 'a) handler \<Rightarrow> bool" where
  "quiet h \<longleftrightarrow> (\<forall>st. st_txns (snd (h st)) = st_txns st)"

lemma quiet_simps [simp]:
  "quiet (answer a)" "quiet (refuse e)" "quiet (on_driver f)" "quiet (engine_call sv g)"
  "quiet (query_call sv q)" "quiet (authorized sv header)" "quiet (publish event)" "quiet (now_us sv)"
  by (simp_all add: quiet_def answer_def refuse_def on_driver_def engine_call_def query_call_def authorized_def
      publish_def now_us_def Let_def split: prod.splits)

lemma quiet_more [simp]: "quiet (check_access sv auth req)" "quiet (read_one sv database path)" "quiet (parsed_as sv r)"
  "quiet (commit_call sv database ws now)" "quiet (commit_published database applied now)"
  by (simp_all add: check_access_def read_one_def parsed_as_def commit_call_def commit_published_def split: sum.split)

locale server_relation =
  fixes R :: "('k, 'd) server \<Rightarrow> ('k, 'd) server \<Rightarrow> bool"
  assumes same: "R st st"
    and trans: "R st st' \<Longrightarrow> R st' st'' \<Longrightarrow> R st st''"
    and driver: "R st (st\<lparr>st_query := q\<rparr>)"
    and keys: "R st (st\<lparr>st_keys := k\<rparr>)"
    and event: "R st (st\<lparr>st_events := st_events st @ [event]\<rparr>)"
    and begins: "counter (st_txns st) \<noteq> - 1 \<Longrightarrow> R st (st\<lparr>st_txns := snd (begin_txn now elapsed database ro (st_txns st))\<rparr>)"
    and records: "R st (st\<lparr>st_txns := record_read token path v (st_txns st)\<rparr>)"
    and takes: "R st (st\<lparr>st_txns := snd (take_txn now token database (st_txns st))\<rparr>)"
    and rolls_back: "R st (st\<lparr>st_txns := rollback_txn token (st_txns st)\<rparr>)"
begin

text \<open>\<open>safe\<close>: always; \<open>safe_once\<close>: while a transaction can still begin.\<close>

definition safe :: "('k, 'd, 'a) handler \<Rightarrow> bool" where
  "safe h \<longleftrightarrow> (\<forall>st. R st (snd (h st)))"

definition safe_once :: "('k, 'd, 'a) handler \<Rightarrow> bool" where
  "safe_once h \<longleftrightarrow> (\<forall>st. counter (st_txns st) \<noteq> - 1 \<longrightarrow> R st (snd (h st)))"

lemma safe_and_then:
  assumes "safe m" "\<And>a. safe (f a)"
  shows "safe (and_then m f)"
  unfolding safe_def
proof
  fix st
  have m: "R st (snd (m st))" using assms(1) by (simp add: safe_def)
  show "R st (snd (and_then m f st))"
  proof (cases "m st")
    case (Pair r st1)
    then have "R st st1" using m by simp
    moreover have "R st1 (snd (f a st1))" for a using assms(2) by (simp add: safe_def)
    ultimately show ?thesis by (cases r) (auto simp: and_then_def Pair intro: trans)
  qed
qed

lemma once_safe: "safe m \<Longrightarrow> safe_once m"
  by (simp add: safe_def safe_once_def)

lemma once_first:
  assumes "quiet m" "safe m" "\<And>a. safe_once (f a)"
  shows "safe_once (and_then m f)"
  unfolding safe_once_def
proof (intro allI impI)
  fix st :: "('k, 'd) server"
  assume c: "counter (st_txns st) \<noteq> - 1"
  obtain r st1 where m: "m st = (r, st1)" by fastforce
  have "R st st1" using assms(2) m unfolding safe_def by (metis snd_conv)
  moreover have "st_txns st1 = st_txns st" using assms(1) m unfolding quiet_def by (metis snd_conv)
  then have "R st1 (snd (f a st1))" for a using assms(3) c by (simp add: safe_once_def)
  ultimately show "R st (snd (and_then m f st))"
    by (cases r) (auto simp: and_then_def m intro: trans)
qed

lemma once_then:
  assumes "safe_once m" "\<And>a. safe (f a)"
  shows "safe_once (and_then m f)"
  unfolding safe_once_def
proof (intro allI impI)
  fix st :: "('k, 'd) server"
  assume c: "counter (st_txns st) \<noteq> - 1"
  obtain r st1 where m: "m st = (r, st1)" by fastforce
  have "R st st1" using assms(1) m c unfolding safe_once_def by (metis snd_conv)
  moreover have "R st1 (snd (f a st1))" for a using assms(2) by (simp add: safe_def)
  ultimately show "R st (snd (and_then m f st))"
    by (cases r) (auto simp: and_then_def m intro: trans)
qed

lemma safe_simps [simp]:
  "safe (answer a)" "safe (refuse e)" "safe (on_driver f)" "safe (engine_call sv g)"
  "safe (query_call sv q)" "safe (publish ev)" "safe (now_us sv)"
  by (simp_all add: safe_def answer_def refuse_def on_driver_def engine_call_def query_call_def
      publish_def now_us_def Let_def same driver event split: prod.splits)

lemma safe_authorized [simp]: "safe (authorized sv header)"
  unfolding safe_def
proof
  fix st
  obtain r k d where a: "authorize (sv_world sv) (sv_policy sv) header (st_keys st, st_driver st) = (r, k, d)"
    by (cases "authorize (sv_world sv) (sv_policy sv) header (st_keys st, st_driver st)") auto
  have "R st ((st\<lparr>st_keys := k\<rparr>)\<lparr>st_query := (st_query st)\<lparr>qs_session := d\<rparr>\<rparr>)" by (rule trans [OF keys driver])
  then show "R st (snd (authorized sv header st))" by (simp add: authorized_def a)
qed

lemma safe_more [simp]: "safe (check_access sv auth req)" "safe (read_one sv database path)" "safe (parsed_as sv r)"
  "safe (commit_call sv database ws now)" "safe (commit_published database applied now)" "safe (get_name sv name)"
  by (simp_all add: check_access_def read_one_def parsed_as_def commit_call_def commit_published_def get_name_def
      split: sum.split)

lemma safe_txns [simp]: "safe (observe token path v)" "safe (rollback_call tok)"
  by (auto simp: safe_def observe_def rollback_call_def txns_call_def answer_def Let_def same records rolls_back
      split: option.split)

lemma safe_finish [simp]: "safe (finish_transaction sv database token has_writes)"
proof -
  have t: "safe (txns_call (take_txn now token database))" for now
    by (simp add: safe_def txns_call_def Let_def takes split: prod.split) (metis snd_conv takes)
  have "R st (snd (finish_transaction sv database token has_writes st))" for st
    unfolding finish_transaction_def
    by (rule safe_and_then [OF t, unfolded safe_def, THEN spec]) (simp add: safe_def [symmetric] split: sum.split)
  then show ?thesis by (simp add: safe_def)
qed

lemma safe_observe_all [simp]: "safe (observe_all txn docs)"
  by (induction docs) (auto intro: safe_and_then)

lemma once_begin: "safe_once (begin_transaction_with sv database options)"
  by (auto simp: safe_once_def begin_transaction_with_def txns_call_def Let_def split: prod.split) (metis begins snd_conv)

lemma once_select: "safe_once (select_transaction sv database selector)"
  by (auto simp: select_transaction_def intro: once_safe once_then once_begin split: option.split consistency.split)

lemma safe_get_document: "safe (get_document_call sv header req)"
  by (auto simp: get_document_call_def intro!: safe_and_then split: option.split)

lemma safe_batch_get_each: "safe (batch_get_each sv auth database read_time txn new_txn names seen first)"
  by (induction names arbitrary: seen first) (auto intro!: safe_and_then)

lemma once_batch_get: "safe_once (batch_get_documents sv header req)"
  unfolding batch_get_documents_def
  by (intro once_first once_then once_select) (auto simp: safe_batch_get_each)

lemma safe_single_write: "safe (apply_single_write sv name w)"
  by (auto simp: apply_single_write_def intro!: safe_and_then)

lemma safe_create: "safe (create_document sv req)"
proof -
  have "safe (and_then (parsed_as sv (parse_name (cq_parent req))) (\<lambda>parent_name.
     let document_id = i
     in and_then (parsed_as sv (case child (rn_path parent_name) (cq_collection_id req) of
                                  Inl e \<Rightarrow> Inl e | Inr c \<Rightarrow> child c document_id)) (\<lambda>path.
        let name = \<lparr>rn_database = rn_database parent_name, rn_path = path\<rparr>;
            doc = (the_document (cq_document req))\<lparr>doc_name := show_name name\<rparr>
        in apply_single_write sv name (plain_write (Update doc) (Some (Some (Exists False)))))))" for i
    by (auto simp: Let_def intro!: safe_and_then safe_single_write)
  then show ?thesis unfolding safe_def create_document_def by blast
qed

lemma safe_writes: "safe (update_document sv ur)" "safe (delete_document_call sv dr)"
  "safe (write_stream_one sv auth database n ws)" "safe (commit sv header cr)"
  by (auto simp: update_document_def delete_document_call_def write_stream_one_def commit_def Let_def
      intro!: safe_and_then safe_single_write)

lemma safe_lists: "safe (list_documents sv lr)" "safe (run_aggregation_query sv ar)" "safe (list_collection_ids_call sv p)"
  by (auto simp: list_documents_def run_aggregation_query_def list_collection_ids_call_def
      intro!: safe_and_then split: option.split sum.split)

lemma once_run_query: "safe_once (run_query_call sv header req)"
proof -
  have a: "safe_once (answer a)" "safe_once (refuse e)" for a e by (simp_all add: once_safe)
  show ?thesis unfolding run_query_call_def
    by (intro once_first; (simp; fail)?)
      (auto simp: a intro!: once_then once_select safe_and_then split: option.split list.split)
qed

lemma serve_related:
  assumes "counter (st_txns st) \<noteq> - 1"
  shows "R st (serve sv req st)"
proof -
  note once = once_batch_get [unfolded safe_once_def, THEN spec, THEN mp, OF assms]
    once_run_query [unfolded safe_once_def, THEN spec, THEN mp, OF assms]
  have "safe_once (begin_transaction_call sv d options)" for d options
    unfolding begin_transaction_call_def by (intro once_first once_begin) simp_all
  then have b: "R st (snd (begin_transaction_call sv d options st))" for d options
    using assms by (simp add: safe_once_def)
  note always = safe_get_document safe_create safe_writes safe_lists safe_txns(2)
  show ?thesis
    by (cases req) (simp_all add: serve_def same once b always [unfolded safe_def, rule_format])
qed

lemma server_run_related: "server_run sv st st' \<Longrightarrow> R st st'"
proof (induction rule: server_run.induct)
  case (step st st' st'')
  have "R st' st''" using step.hyps(2) by (rule server_stepE) (simp_all add: serve_related driver)
  with step.IH show ?case by (rule trans)
qed (rule same)

end

text \<open>Events are only ever appended, and a transaction stays what it is.\<close>

interpretation published: server_relation "\<lambda>st st'. \<exists>more. st_events st' = st_events st @ more"
  by unfold_locales auto

interpretation carried: server_relation "\<lambda>st st'. carries token (st_txns st) (st_txns st')" for token
proof unfold_locales
  fix st st' st'' :: "('a, 'b) server"
  assume "carries token (st_txns st) (st_txns st')" "carries token (st_txns st') (st_txns st'')"
  then show "carries token (st_txns st) (st_txns st'')" by (rule carries_trans)
qed (auto simp: record_read_carries rollback_txn_carries intro: begin_txn_carries take_txn_carries prod.collapse [symmetric])

end
