(* ===== verification/RulesLaws.thy ===== *)
theory RulesLaws
  imports RulesBind
begin

text \<open>
  The contracts of \<open>RulesRun\<close> on the program's own hosts: the budget of an evaluation, the
  values it can produce over the store, evaluations that leave the host alone, and the cache of
  the store's host against direct reads.
\<close>

section \<open>Budget\<close>

definition counts_calls :: "('h \<Rightarrow> nat) \<Rightarrow> 'h host \<Rightarrow> bool" where
  "counts_calls calls H \<longleftrightarrow>
     (\<forall>path after h. calls (snd (host_get H path after h)) \<le> calls h + 1
                   \<and> calls (snd (host_exists H path after h)) \<le> calls h + 1)"

definition within_budget :: "'h rules_env \<Rightarrow> ('h \<Rightarrow> nat) \<Rightarrow> nat \<Rightarrow> 'h evaluator \<Rightarrow> bool" where
  "within_budget env calls c st \<longleftrightarrow>
     steps st \<le> MAX_STEPS \<and> lookups st \<le> 20
     \<and> (counts_calls calls (env_host env) \<longrightarrow> calls (ev_host st) \<le> c + lookups st)"

definition budget_end :: "'h rules_env \<Rightarrow> ('h \<Rightarrow> nat) \<Rightarrow> nat \<Rightarrow> 'h evaluator \<Rightarrow> bool" where
  "budget_end env calls c st \<longleftrightarrow>
     steps st \<le> MAX_STEPS + 1 \<and> lookups st \<le> 21
     \<and> (counts_calls calls (env_host env) \<longrightarrow> calls (ev_host st) \<le> c + 20)"

lemma budget_lookup:
  assumes "within_budget env calls c st"
  shows "case lookup_call env name path st of
           (Inl e, st') \<Rightarrow> budget_end env calls c st' | (Inr v, st') \<Rightarrow> within_budget env calls c st' \<and> True"
proof -
  have g: "calls (snd (host_get (env_host env) path b (ev_host st))) \<le> c + Suc (lookups st)"
    "calls (snd (host_exists (env_host env) path b (ev_host st))) \<le> c + Suc (lookups st)"
    if "counts_calls calls (env_host env)" for b
  proof -
    have "calls (snd (host_get (env_host env) path b (ev_host st))) \<le> calls (ev_host st) + 1"
      "calls (snd (host_exists (env_host env) path b (ev_host st))) \<le> calls (ev_host st) + 1"
      "calls (ev_host st) \<le> c + lookups st"
      using assms that by (auto simp: counts_calls_def within_budget_def)
    then show "calls (snd (host_get (env_host env) path b (ev_host st))) \<le> c + Suc (lookups st)"
      "calls (snd (host_exists (env_host env) path b (ev_host st))) \<le> c + Suc (lookups st)" by linarith+
  qed
  show ?thesis
    using assms g by (auto simp: lookup_call_def Let_def fatal_def within_budget_def budget_end_def split_beta)
qed

interpretation budget: run_contract env "within_budget env calls c" "budget_end env calls c" "\<lambda>_. True"
  for env :: "'h rules_env" and calls c
  by (unfold_locales; (erule budget_lookup | auto simp: within_budget_def budget_end_def MAX_STEPS_def))

section \<open>Values read from the store\<close>

lemma wf_proto_value: "rvalue_wf (proto_value v)"
proof (induction v rule: proto_value.induct)
  case (12 m)
  then show ?case unfolding proto_value.simps by (intro wf_bt_of_list) auto
qed auto

lemma wf_fields_value: "rvalue_wf (fields_value fs)"
  unfolding fields_value_def by (rule wf_bt_of_list) (auto simp: wf_proto_value)

lemma wf_json_value: "rvalue_wf (json_value v)"
proof (induction v rule: json_value.induct)
  case (6 m)
  then show ?case unfolding json_value.simps by (intro wf_bt_of_list) auto
qed (auto split: option.splits)

lemma wf_map_insert: "rvalue_wf (VMap m) \<Longrightarrow> rvalue_wf v \<Longrightarrow> rvalue_wf (VMap (bt_insert k v m))"
  using set_bt_insert [of k v m] by fastforce

lemma wf_document_value: "rvalue_wf (document_value doc)"
proof -
  have e: "rvalue_wf (VMap [])" by simp
  show ?thesis unfolding document_value_def Let_def
    by (auto intro!: wf_map_insert e wf_fields_value split: option.split simp del: rvalue_wf.simps(2)) (simp_all add: wf_fields_value)
qed

lemma wf_auth_value: "rvalue_wf (auth_value auth)"
proof (cases auth)
  case (User claims)
  have "rvalue_wf (VMap (bt_of_list (map (\<lambda>(k, v). (k, json_value v)) (jc_payload claims))))"
    by (rule wf_bt_of_list) (auto simp: wf_json_value)
  then show ?thesis unfolding auth_value_def User authorization.case Let_def
    by (intro wf_map_insert) (auto split: option.splits simp del: rvalue_wf.simps(2) intro!: wf_map_insert, auto)
qed (simp_all add: auth_value_def)

definition globals_wf :: "scope \<Rightarrow> bool" where
  "globals_wf sc \<longleftrightarrow> (\<forall>v \<in> snd ` set sc. rvalue_wf v)"

lemma wf_request_globals: "globals_wf (request_globals auth req now)"
proof -
  have "rvalue_wf (request_value auth req now)"
    unfolding request_value_def Let_def
    by (auto intro!: wf_map_insert split: option.split simp del: rvalue_wf.simps(2)) (simp_all add: wf_auth_value wf_fields_value)
  then show ?thesis by (auto simp: globals_wf_def request_globals_def wf_document_value split: option.splits)
qed

definition cache_wf :: "'s store_host \<Rightarrow> bool" where
  "cache_wf h \<longleftrightarrow> bt_wf (sh_cache h) \<and> (\<forall>k v. bt_get (sh_cache h) k = Some (Some v) \<longrightarrow> rvalue_wf v)"

lemma read_document_wf: "read_document ctx db key s = (Inr (Some v), s') \<Longrightarrow> rvalue_wf v"
  by (auto simp: read_document_def wf_document_value split: sum.splits if_splits prod.splits)

lemma lookup_document_wf:
  assumes "cache_wf h" "lookup_document ctx db path h = (r, h')"
  shows "cache_wf h'" "r = Inr (Some v) \<Longrightarrow> rvalue_wf v"
proof -
  define key where "key = join ''/'' (relative_path path)"
  have l: "lookup_document ctx db path h = (case bt_get (sh_cache h) key of Some hit \<Rightarrow> (Inr hit, h)
         | None \<Rightarrow> (case read_document ctx db key (sh_store h) of
                (Inl e, s) \<Rightarrow> (Inl e, h\<lparr>sh_store := s\<rparr>)
              | (Inr value, s) \<Rightarrow> (Inr value, h\<lparr>sh_store := s, sh_cache := bt_insert key value (sh_cache h)\<rparr>)))"
    unfolding lookup_document_def key_def Let_def by (rule refl)
  obtain q s where q: "read_document ctx db key (sh_store h) = (q, s)" by fastforce
  note w = read_document_wf [of ctx db key "sh_store h" _ s]
  show "cache_wf h'"
    using assms w by (cases "bt_get (sh_cache h) key"; cases q) (auto simp: l q cache_wf_def split: if_splits)
  show "r = Inr (Some v) \<Longrightarrow> rvalue_wf v"
    using assms w by (cases "bt_get (sh_cache h) key"; cases q) (auto simp: l q cache_wf_def split: if_splits)
qed

definition store_env :: "rules_lib \<Rightarrow> 's rules_context \<Rightarrow> database_name \<Rightarrow> function_decl list \<Rightarrow> 's store_host rules_env" where
  "store_env lib ctx db fs = \<lparr>env_lib = lib, env_host = store_host ctx db, env_functions = fs\<rparr>"

lemma store_lookup_wf:
  assumes "cache_wf (ev_host st)"
  shows "case lookup_call (store_env lib ctx db fs) name path st of
           (Inl e, st') \<Rightarrow> True | (Inr v, st') \<Rightarrow> cache_wf (ev_host st') \<and> rvalue_wf v"
proof -
  obtain r h where l: "lookup_document ctx db path (ev_host st) = (r, h)" by fastforce
  note w = lookup_document_wf [OF assms l]
  show ?thesis using w
    by (cases r) (auto simp: lookup_call_def Let_def fatal_def store_env_def store_host_def l split: option.split)
qed

lemma wf_global1 [wf_values]: "rvalue_wf v \<Longrightarrow> rvalue_wf (global1 lib name v)"
  by (cases v) (simp_all add: global1_def to_int_def to_float_def to_str_def to_path_def math_abs_def float_fn_def
      not_a_function_def numeric_def wf_or_undefined split: option.split)

lemma wf_duration_value [wf_values]: "rvalue_wf (duration_value n unit)"
  by (simp add: duration_value_def Let_def split: option.split)

lemma wf_latlng_value [wf_values]: "rvalue_wf (latlng_value a b)"
  by (simp add: latlng_value_def split: option.split)

lemma wf_not_a_function [simp]: "rvalue_wf (not_a_function name)"
  by (simp add: not_a_function_def)

lemma wf_global:
  assumes args: "\<And>w. w \<in> set args \<Longrightarrow> rvalue_wf w"
  shows "rvalue_wf (global lib name args)"
proof -
  consider "args = []" | a where "args = [a]" | a b where "args = [a, b]" | a b c where "args = [a, b, c]"
    | a b c d where "args = [a, b, c, d]" | a b c d e as where "args = a # b # c # d # e # as"
    by (metis list.exhaust)
  then show ?thesis
  proof cases
    case (2 a)
    then show ?thesis using args by (simp add: global_def wf_global1)
  next
    case (3 a b)
    have "rvalue_wf (case (a, b) of (VInt n, VStr unit) \<Rightarrow> duration_value n unit | _ \<Rightarrow> not_a_function name)"
      by (cases a; cases b) (simp_all add: wf_duration_value not_a_function_def)
    then show ?thesis by (simp add: 3 global_def wf_latlng_value not_a_function_def split: option.split)
  next
    case (4 a b c)
    have "rvalue_wf (case (a, b, c) of (VInt y, VInt mo, VInt d) \<Rightarrow>
        (case days_from_civil (sint y) (sint mo) (sint d) of
           Some days \<Rightarrow> VTimestamp (word_of_int (days * 86400)) 0 | None \<Rightarrow> VUndefined ''invalid date'')
      | _ \<Rightarrow> not_a_function name)"
      by (cases a, simp_all, cases b, simp_all, cases c) (simp_all split: option.split)
    then show ?thesis by (simp add: 4 global_def not_a_function_def)
  next
    case (5 a b c d)
    have "rvalue_wf (case (a, b, c, d) of (VInt h, VInt m, VInt s, VInt ns) \<Rightarrow>
        VDuration (h * 3600 + m * 60 + s) (ucast ns) | _ \<Rightarrow> not_a_function name)"
      by (cases a, simp_all, cases b, simp_all, cases c, simp_all, cases d) simp_all
    then show ?thesis by (simp add: 5 global_def not_a_function_def)
  qed (simp_all add: global_def not_a_function_def)
qed

lemma wf_zip: "(\<And>v. v \<in> set vs \<Longrightarrow> rvalue_wf v) \<Longrightarrow> rvalue_wf (VMap (bt_of_list (zip ks vs)))"
  by (rule wf_bt_of_list) (auto dest: set_zip_rightD)

interpretation typed: run_contract "store_env lib ctx db fs" "\<lambda>st. cache_wf (ev_host st)" "\<lambda>_. True" rvalue_wf
  for lib and ctx :: "'s rules_context" and db fs
  by (unfold_locales; (erule store_lookup_wf | erule wf_zip | auto simp: wf_binary wf_unary wf_member_value
      wf_index_value wf_range_value wf_call_method wf_global))

end
