(* ===== verification/RulesCache.thy ===== *)
theory RulesCache
  imports RulesLaws
begin

text \<open>
  The store's host answers from its cache what a read of the store would answer: the runs of
  \<open>store_host\<close> and of \<open>direct_host\<close>, which reads every time, agree.  And a host that
  nothing changes is left alone by every evaluation.
\<close>

section \<open>Direct reads\<close>

definition direct_host :: "'s rules_context \<Rightarrow> database_name \<Rightarrow> 's host" where
  "direct_host ctx database =
     \<lparr>host_get = (\<lambda>path _. read_document ctx database (join ''/'' (relative_path path))),
      host_exists = (\<lambda>path _ s.
        let (r, s) = read_document ctx database (join ''/'' (relative_path path)) s
        in (map_sum id (\<lambda>v. v \<noteq> None) r, s))\<rparr>"

definition direct_env :: "rules_lib \<Rightarrow> 's rules_context \<Rightarrow> database_name \<Rightarrow> function_decl list \<Rightarrow> 's rules_env" where
  "direct_env lib ctx db fs = \<lparr>env_lib = lib, env_host = direct_host ctx db, env_functions = fs\<rparr>"

text \<open>Reading is only reading: the store is as it was.\<close>

definition reads_stable :: "'s rules_context \<Rightarrow> 's \<Rightarrow> bool" where
  "reads_stable ctx s \<longleftrightarrow> (\<forall>c k. snd (find_one (rc_mongo ctx) s c k) = s)"

definition cache_current :: "'s rules_context \<Rightarrow> database_name \<Rightarrow> 's store_host \<Rightarrow> 's \<Rightarrow> bool" where
  "cache_current ctx db h s \<longleftrightarrow>
     sh_store h = s \<and> reads_stable ctx s \<and> bt_wf (sh_cache h)
     \<and> (\<forall>k v. bt_get (sh_cache h) k = Some v \<longrightarrow> fst (read_document ctx db k s) = Inr v)"

lemma read_document_stable: "reads_stable ctx s \<Longrightarrow> snd (read_document ctx db key s) = s"
proof -
  assume r: "reads_stable ctx s"
  have "snd (get_document (rc_mongo ctx) (rc_codec ctx) db p s) = s" for p
    using r unfolding reads_stable_def get_document_def
    by (auto simp: split_beta split: sum.splits option.splits)
  then show ?thesis by (auto simp: read_document_def split: sum.splits prod.splits dest!: arg_cong [where f = snd])
qed

lemma lookup_current:
  assumes "cache_current ctx db h s"
  shows "fst (lookup_document ctx db path h) = fst (read_document ctx db (join ''/'' (relative_path path)) s)"
    and "cache_current ctx db (snd (lookup_document ctx db path h))
           (snd (read_document ctx db (join ''/'' (relative_path path)) s))"
proof -
  define key where "key = join ''/'' (relative_path path)"
  have l: "lookup_document ctx db path h = (case bt_get (sh_cache h) key of Some hit \<Rightarrow> (Inr hit, h)
         | None \<Rightarrow> (case read_document ctx db key (sh_store h) of
                (Inl e, s) \<Rightarrow> (Inl e, h\<lparr>sh_store := s\<rparr>)
              | (Inr value, s) \<Rightarrow> (Inr value, h\<lparr>sh_store := s, sh_cache := bt_insert key value (sh_cache h)\<rparr>)))"
    unfolding lookup_document_def key_def Let_def by (rule refl)
  obtain q where q: "read_document ctx db key s = (q, s)"
    using read_document_stable [of ctx s db key] assms by (metis cache_current_def prod.collapse)
  have "fst (lookup_document ctx db path h) = q \<and> cache_current ctx db (snd (lookup_document ctx db path h)) s"
  proof (cases "bt_get (sh_cache h) key")
    case None
    then show ?thesis using assms q by (cases q) (auto simp: l cache_current_def split: if_splits)
  next
    case (Some hit)
    then have "fst (read_document ctx db key s) = Inr hit" using assms unfolding cache_current_def by blast
    then show ?thesis using Some assms q by (simp add: l)
  qed
  then show "fst (lookup_document ctx db path h) = fst (read_document ctx db (join ''/'' (relative_path path)) s)"
    "cache_current ctx db (snd (lookup_document ctx db path h))
           (snd (read_document ctx db (join ''/'' (relative_path path)) s))"
    by (simp_all add: q key_def [symmetric])
qed

interpretation cached: run_simulation "store_env lib ctx db fs" "direct_env lib ctx db fs" "cache_current ctx db"
  for lib and ctx :: "'s rules_context" and db fs
  by unfold_locales (auto simp: store_env_def direct_env_def store_host_def direct_host_def lookup_current split_beta)

section \<open>Requests over the two hosts\<close>

lemma candidates_cong:
  assumes "rq_version rq = rq_version rq'" "rq_operation rq = rq_operation rq'"
    "rq_path rq = rq_path rq'" "rq_globals rq = rq_globals rq'"
  shows "candidates rq rule consumed caps fs = candidates rq' rule consumed caps fs"
  using assms
proof (induction rq rule consumed caps fs rule: candidates.induct)
  case (1 rq segs fns allows children consumed caps fs)
  show ?case
    using 1 by (auto split: option.split cong: map_cong intro!: arg_cong [where f = concat] map_cong)
qed

lemma eval_allow_cached:
  assumes "cache_current ctx db h s" "rq_lib rq = rq_lib rq'" "rq_host rq = store_host ctx db" "rq_host rq' = direct_host ctx db"
  shows "fst (eval_allow rq fs sc allow h) = fst (eval_allow rq' fs sc allow s)
    \<and> cache_current ctx db (snd (eval_allow rq fs sc allow h)) (snd (eval_allow rq' fs sc allow s))"
proof -
  have "cached.agree ctx db (new_evaluator h) (new_evaluator s)"
    using assms by (simp add: cached.agree_def new_evaluator_def)
  moreover have "cached.sim ctx db (eval (store_env (rq_lib rq') ctx db fs) (al_condition allow) sc 0)
      (eval (direct_env (rq_lib rq') ctx db fs) (al_condition allow) sc 0)"
    by (rule cached.eval_sim)
  ultimately show ?thesis
    using assms
    by (auto simp: cached.sim_def eval_allow_def request_env_def store_env_def direct_env_def split_beta cached.agree_def)
qed

lemma run_candidates_cached:
  assumes "rq_lib rq = rq_lib rq'" "rq_host rq = store_host ctx db" "rq_host rq' = direct_host ctx db"
  shows "cache_current ctx db h s \<Longrightarrow> fst (run_candidates rq cands h) = fst (run_candidates rq' cands s)"
proof (induction cands arbitrary: h s)
  case (Cons c cands)
  obtain fs sc allow where c: "c = (fs, sc, allow)" by (cases c) auto
  obtain r h' where r: "eval_allow rq fs sc allow h = (r, h')" by fastforce
  obtain q s' where q: "eval_allow rq' fs sc allow s = (q, s')" by fastforce
  have "q = r" "cache_current ctx db h' s'"
    using eval_allow_cached [OF Cons.prems assms, of fs sc allow] r q by auto
  then show ?case using Cons.IH by (cases r) (auto simp: c r q)
qed simp

section \<open>Hosts that reading does not change\<close>

definition unchanging :: "'h host \<Rightarrow> bool" where
  "unchanging H \<longleftrightarrow> (\<forall>path after h. snd (host_get H path after h) = h \<and> snd (host_exists H path after h) = h)"

text \<open>
  Lookups keep \<open>P\<close>.  The hypothesis is part of the invariant because an interpretation has
  no premises.
\<close>

definition host_keeps :: "'h host \<Rightarrow> ('h \<Rightarrow> bool) \<Rightarrow> bool" where
  "host_keeps H P \<longleftrightarrow> (\<forall>path after h. P h \<longrightarrow> P (snd (host_get H path after h)) \<and> P (snd (host_exists H path after h)))"

definition kept_in :: "'h rules_env \<Rightarrow> ('h \<Rightarrow> bool) \<Rightarrow> 'h evaluator \<Rightarrow> bool" where
  "kept_in env P st \<longleftrightarrow> (host_keeps (env_host env) P \<longrightarrow> P (ev_host st))"

lemma unchanging_keeps: "unchanging H \<Longrightarrow> host_keeps H P"
  by (simp add: unchanging_def host_keeps_def)

lemma kept_in_lookup:
  assumes "kept_in env P st"
  shows "case lookup_call env name path st of
           (Inl e, st') \<Rightarrow> kept_in env P st' | (Inr v, st') \<Rightarrow> kept_in env P st' \<and> True"
  using assms by (auto simp: lookup_call_def Let_def fatal_def kept_in_def host_keeps_def split_beta)

interpretation kept: run_contract env "kept_in env P" "kept_in env P" "\<lambda>_. True"
  for env :: "'h rules_env" and P
  by (unfold_locales; (erule kept_in_lookup | simp add: kept_in_def))

lemma eval_allow_keeps:
  assumes "host_keeps (rq_host rq) P" "P h"
  shows "P (snd (eval_allow rq fs sc allow h))"
proof -
  have R: "kept.run_ok (request_env rq fs) P (eval (request_env rq fs) (al_condition allow) sc 0) (\<lambda>_. True)"
    by (rule kept.eval_ok) (simp add: kept.scope_ok_def)
  have H: "kept_in (request_env rq fs) P (new_evaluator h)" using assms(2) by (simp add: kept_in_def new_evaluator_def)
  obtain r st where e: "eval (request_env rq fs) (al_condition allow) sc 0 (new_evaluator h) = (r, st)"
    by fastforce
  have "kept_in (request_env rq fs) P st"
  proof (cases r)
    case (Inl x)
    show ?thesis by (rule kept.run_okD(1) [OF R H]) (simp add: e Inl)
  next
    case (Inr x)
    have "kept_in (request_env rq fs) P st \<and> True" by (rule kept.run_okD(2) [OF R H]) (simp add: e Inr)
    then show ?thesis by simp
  qed
  then have "P (ev_host st)" using assms(1) by (simp add: kept_in_def request_env_def)
  then show ?thesis by (simp add: eval_allow_def e)
qed

lemma run_candidates_keeps:
  "host_keeps (rq_host rq) P \<Longrightarrow> P h \<Longrightarrow> P (snd (run_candidates rq cands h))"
proof (induction cands arbitrary: h)
  case (Cons c cands)
  obtain fs sc allow where c: "c = (fs, sc, allow)" by (cases c) auto
  obtain r h' where r: "eval_allow rq fs sc allow h = (r, h')" by fastforce
  have "P h'" using eval_allow_keeps [OF Cons.prems, of fs sc allow] r by simp
  then show ?case using Cons.IH [OF Cons.prems(1)] by (auto simp: c r split: sum.split)
qed simp

lemma eval_allow_unchanging:
  "unchanging (rq_host rq) \<Longrightarrow> snd (eval_allow rq fs sc allow h) = h"
  using eval_allow_keeps [OF unchanging_keeps, of rq "(=) h" h fs sc allow] by simp

lemma run_candidates_unchanging:
  assumes u: "unchanging (rq_host rq)"
    and ok: "\<And>fs sc allow. (fs, sc, allow) \<in> set cands \<Longrightarrow> \<exists>v. fst (eval_allow rq fs sc allow h) = Inr v"
  shows "fst (run_candidates rq cands h) =
    Inr (if \<exists>(fs, sc, allow) \<in> set cands. fst (eval_allow rq fs sc allow h) = Inr (VBool True) then Allow else Deny)"
  using ok
proof (induction cands)
  case (Cons c cands)
  obtain fs sc allow where c: "c = (fs, sc, allow)" by (cases c) auto
  obtain v where v: "eval_allow rq fs sc allow h = (Inr v, h)"
    using Cons.prems [of fs sc allow] eval_allow_unchanging [OF u, of fs sc allow h] by (metis c list.set_intros(1) prod.collapse)
  from Cons show ?case by (auto simp: c v)
qed simp

end
