(* ===== verification/RulesDate.thy ===== *)
theory RulesDate
  imports RulesStd
begin

text \<open>
  The proleptic Gregorian calendar, and the civil-date algorithms of \<open>stdlib.rs\<close> on its
  dates: a date survives the trip to a day number and back.
\<close>

section \<open>The calendar\<close>

definition leap_year :: "int \<Rightarrow> bool" where
  "leap_year y \<longleftrightarrow> 4 dvd y \<and> (\<not> 100 dvd y \<or> 400 dvd y)"

definition days_in_month :: "int \<Rightarrow> int \<Rightarrow> int" where
  "days_in_month y m =
     (if m = 2 then if leap_year y then 29 else 28
      else if m \<in> {4, 6, 9, 11} then 30 else 31)"

definition valid_date :: "int \<Rightarrow> int \<Rightarrow> int \<Rightarrow> bool" where
  "valid_date y m d \<longleftrightarrow> 1 \<le> y \<and> y \<le> 9999 \<and> 1 \<le> m \<and> m \<le> 12 \<and> 1 \<le> d \<and> d \<le> days_in_month y m"

section \<open>Truncating division of non-negative numbers\<close>

lemma sdiv_nonneg: "0 \<le> a \<Longrightarrow> 0 < b \<Longrightarrow> a sdiv b = a div b" for a b :: int
  by (cases "a = 0") (simp_all add: signed_divide_int_def)

lemma smod_nonneg: "0 \<le> a \<Longrightarrow> 0 < b \<Longrightarrow> a smod b = a mod b" for a b :: int
  by (cases "a = 0") (simp_all add: signed_modulo_int_def sdiv_nonneg minus_div_mult_eq_mod)

section \<open>Years of an era\<close>

text \<open>
  Years are counted from March.  A year of an era is \<open>100 c + 4 q + s\<close>; its day 365 is a
  leap day.
\<close>

lemma year_of_era:
  fixes c q s doy :: int
  assumes c: "0 \<le> c" "c \<le> 3" and q: "0 \<le> q" "q \<le> 24" and s: "0 \<le> s" "s \<le> 3" and doy: "0 \<le> doy" "doy \<le> 365"
    and leap: "doy = 365 \<Longrightarrow> s = 3 \<and> (q \<noteq> 24 \<or> c = 3)"
    and doe: "doe = 36524 * c + 1461 * q + 365 * s + doy"
  shows "(doe - doe div 1460 + doe div 36524 - doe div 146096) div 365 = 100 * c + 4 * q + s"
    and "0 \<le> doe" and "doe < 146097"
proof -
  define u where "u = 24 * c + q + 365 * s + doy"
  define \<delta> where "\<delta> = (if 1460 \<le> u then 1 else 0 :: int)"
  have u: "0 \<le> u" "u < 2920" using c q s doy by (auto simp: u_def)
  have "doe = 1460 * (25 * c + q) + u" by (simp add: doe u_def)
  then have A: "doe div 1460 = 25 * c + q + \<delta>" using u by (auto simp: \<delta>_def)
  have BC: "doe div 36524 - doe div 146096 = c"
  proof (cases "1461 * q + 365 * s + doy = 36524")
    case True
    have "1461 * q \<le> 35064" "365 * s \<le> 1095" using q s by simp_all
    with True q s doy have "1461 * q = 35064" "365 * s = 1095" "doy = 365" by linarith+
    then have e: "doy = 365" "s = 3" "q = 24" by simp_all
    then have "c = 3" using leap by blast
    then show ?thesis by (simp add: doe e)
  next
    case False
    have "1461 * q + 365 * s + doy \<le> 36524" using q s doy by linarith
    with False have t: "1461 * q + 365 * s + doy < 36524" by linarith
    then have "doe div 36524 = c" using q s doy by (simp add: doe)
    moreover have "doe div 146096 = 0" using t c q s doy by (simp add: doe)
    ultimately show ?thesis by simp
  qed
  have \<delta>: "0 \<le> doy - \<delta>" "doy - \<delta> \<le> 364"
    using c q s doy leap by (cases "doy = 365"; cases "doy = 0"; simp add: \<delta>_def u_def)+
  have "doe - doe div 1460 + doe div 36524 - doe div 146096 = (100 * c + 4 * q + s) * 365 + (doy - \<delta>)"
    using A BC by (simp add: doe)
  then show "(doe - doe div 1460 + doe div 36524 - doe div 146096) div 365 = 100 * c + 4 * q + s"
    using \<delta> by simp
  show "0 \<le> doe" "doe < 146097" using c q s doy by (auto simp: doe)
qed

lemma month_of_year:
  fixes m d :: int
  assumes "1 \<le> m" "m \<le> 12" "1 \<le> d" "d \<le> days_in_month y m" "mp = (m + 9) mod 12" "doy = (153 * mp + 2) div 5 + d - 1"
  shows "(5 * doy + 2) div 153 = mp" and "0 \<le> doy" and "doy \<le> 365" and "doy = 365 \<Longrightarrow> m = 2 \<and> leap_year y"
proof -
  from assms(1,2) have "m = 1 \<or> m = 2 \<or> m = 3 \<or> m = 4 \<or> m = 5 \<or> m = 6 \<or> m = 7 \<or> m = 8 \<or> m = 9
      \<or> m = 10 \<or> m = 11 \<or> m = 12" by arith
  then have "(5 * doy + 2) div 153 = mp \<and> 0 \<le> doy \<and> doy \<le> 365 \<and> (doy = 365 \<longrightarrow> m = 2 \<and> leap_year y)"
    using assms(3-6) by (elim disjE) (auto simp: days_in_month_def split: if_splits)
  then show "(5 * doy + 2) div 153 = mp" "0 \<le> doy" "doy \<le> 365" "doy = 365 \<Longrightarrow> m = 2 \<and> leap_year y" by auto
qed

lemma small_div:
  fixes a :: int
  shows "0 \<le> a \<Longrightarrow> a < 400 \<Longrightarrow> 0 \<le> a div 100 \<and> a div 100 \<le> 3"
    and "0 \<le> a \<Longrightarrow> a < 100 \<Longrightarrow> 0 \<le> a div 4 \<and> a div 4 \<le> 24"
  by presburger+

lemma year_quarters:
  fixes c q s :: int
  assumes "0 \<le> q" "q \<le> 24" "0 \<le> s" "s \<le> 3"
  shows "(100 * c + 4 * q + s) div 4 = 25 * c + q" "(100 * c + 4 * q + s) div 100 = c"
proof -
  have "100 * c + 4 * q + s = 4 * (25 * c + q) + s" by simp
  then show "(100 * c + 4 * q + s) div 4 = 25 * c + q" using assms by simp
  have "100 * c + 4 * q + s = 100 * c + (4 * q + s)" by simp
  then show "(100 * c + 4 * q + s) div 100 = c" using assms by simp
qed

section \<open>There and back\<close>

lemma date_encoded:
  assumes "valid_date y m d"
  obtains era c q s doy mp where
    "days_from_civil y m d = Some (era * 146097 + (36524 * c + 1461 * q + 365 * s + doy) - 719468)"
    "(if m \<le> 2 then y - 1 else y) = 400 * era + (100 * c + 4 * q + s)" "0 \<le> era"
    "0 \<le> c" "c \<le> 3" "0 \<le> q" "q \<le> 24" "0 \<le> s" "s \<le> 3" "mp = (m + 9) mod 12" "doy = (153 * mp + 2) div 5 + d - 1"
    "doy = 365 \<Longrightarrow> s = 3 \<and> (q \<noteq> 24 \<or> c = 3)"
proof -
  note v = assms [unfolded valid_date_def]
  define Y where "Y = (if m \<le> 2 then y - 1 else y)"
  define era c q s where "era = Y div 400" and "c = Y mod 400 div 100" and "q = Y mod 100 div 4" and "s = Y mod 4"
  define mp doy where "mp = (m + 9) mod 12" and "doy = (153 * mp + 2) div 5 + d - 1"
  have Y: "0 \<le> Y" using v by (auto simp: Y_def)
  have r: "0 \<le> era" "0 \<le> c" "c \<le> 3" "0 \<le> q" "q \<le> 24" "0 \<le> s" "s \<le> 3"
    using Y small_div(1) [of "Y mod 400"] small_div(2) [of "Y mod 100"] pos_mod_bound [of 4 Y]
    by (simp_all add: era_def c_def q_def s_def)
  have dec: "Y = 400 * era + (100 * c + 4 * q + s)"
  proof -
    have "Y mod 400 mod 100 = Y mod 100" "Y mod 100 mod 4 = Y mod 4" by (simp_all add: mod_mod_cancel)
    then show ?thesis
      using div_mult_mod_eq [of Y 400] div_mult_mod_eq [of "Y mod 400" 100] div_mult_mod_eq [of "Y mod 100" 4]
      unfolding era_def c_def q_def s_def by linarith
  qed
  have mp: "0 \<le> mp" "0 \<le> 153 * mp + 2" using v by (simp_all add: mp_def)
  have d31: "d \<le> 31" using v by (auto simp: days_in_month_def split: if_splits)
  define yoe where "yoe = 100 * c + 4 * q + s"
  have yoe: "0 \<le> yoe" "yoe div 4 = 25 * c + q" "yoe div 100 = c"
    using r year_quarters [OF r(4-7), of c] unfolding yoe_def by simp_all
  have e1: "Y sdiv 400 = era" using Y by (simp add: sdiv_nonneg era_def)
  have e2: "Y - era * 400 = yoe" using dec by (simp add: yoe_def)
  have e3: "(m + 9) smod 12 = mp" using v by (simp add: smod_nonneg mp_def)
  have "days_from_civil y m d = Some (era * 146097 + (yoe * 365 + yoe sdiv 4 - yoe sdiv 100 + doy) - 719468)"
    using v d31 Y unfolding days_from_civil_def Y_def [symmetric] Let_def
    by (simp add: Y_def [symmetric] e1 e2 e3 sdiv_nonneg mp doy_def)
  also have "yoe * 365 + yoe sdiv 4 - yoe sdiv 100 + doy = 36524 * c + 1461 * q + 365 * s + doy"
    using yoe by (simp add: sdiv_nonneg) (simp add: yoe_def)
  finally have days: "days_from_civil y m d = Some (era * 146097 + (36524 * c + 1461 * q + 365 * s + doy) - 719468)" .
  have leap: "s = 3 \<and> (q \<noteq> 24 \<or> c = 3)" if "doy = 365"
  proof -
    have l: "m = 2" "leap_year y" using month_of_year(4) [of m d y mp doy] v that by (simp_all add: mp_def doy_def)
    then have y: "y = 400 * era + (100 * c + 4 * q + s) + 1" using dec by (simp add: Y_def)
    have "4 dvd 4 * (100 * era + 25 * c + q) + (s + 1)"
      using l(2) by (simp add: leap_year_def y algebra_simps)
    then have "4 dvd s + 1" by (subst (asm) dvd_add_right_iff) simp_all
    then have s: "s = 3" using r by presburger
    have "c = 3" if "q = 24"
    proof -
      have "y = 100 * (4 * era + c + 1)" using y s that by simp
      then have "400 dvd 100 * (4 * era + c + 1)" using l(2) by (simp add: leap_year_def)
      then have "4 dvd 4 * era + (c + 1)" by presburger
      then have "4 dvd c + 1" by (subst (asm) dvd_add_right_iff) simp_all
      then show "c = 3" using r by presburger
    qed
    with s show ?thesis by blast
  qed
  show thesis by (rule that [OF days _ r mp_def doy_def leap]) (use dec Y_def in auto)
qed

lemma civil_of_days:
  assumes v: "valid_date y m d" and z: "days_from_civil y m d = Some z"
  shows "civil_from_days z = (y, m, d)"
proof -
  obtain era c q s doy mp where
    days: "days_from_civil y m d = Some (era * 146097 + (36524 * c + 1461 * q + 365 * s + doy) - 719468)" and
    Y: "(if m \<le> 2 then y - 1 else y) = 400 * era + (100 * c + 4 * q + s)" and
    r: "0 \<le> era" "0 \<le> c" "c \<le> 3" "0 \<le> q" "q \<le> 24" "0 \<le> s" "s \<le> 3" and
    mp: "mp = (m + 9) mod 12" and doy: "doy = (153 * mp + 2) div 5 + d - 1" and
    leap: "doy = 365 \<Longrightarrow> s = 3 \<and> (q \<noteq> 24 \<or> c = 3)"
    using date_encoded [OF v] by blast
  have m: "1 \<le> m" "m \<le> 12" "1 \<le> d" "d \<le> days_in_month y m" using v by (auto simp: valid_date_def)
  note month = month_of_year [OF m mp doy]
  define doe where "doe = 36524 * c + 1461 * q + 365 * s + doy"
  define yoe where "yoe = 100 * c + 4 * q + s"
  note year = year_of_era [OF r(2-7) month(2,3) leap doe_def]
  have yoe: "0 \<le> yoe" "yoe div 4 = 25 * c + q" "yoe div 100 = c"
    using r year_quarters [OF r(4-7), of c] unfolding yoe_def by simp_all
  have z': "z + 719468 = era * 146097 + doe" using z days by (simp add: doe_def)
  have e: "(era * 146097 + doe) sdiv 146097 = era" "0 \<le> era * 146097 + doe"
    using year(2,3) r(1) by (simp_all add: sdiv_nonneg)
  have n: "0 \<le> doe - doe div 1460 + doe div 36524 - doe div 146096"
    using year(1) yoe(1) pos_imp_zdiv_nonneg_iff [of 365 "doe - doe div 1460 + doe div 36524 - doe div 146096"]
    by (simp add: yoe_def)
  have f1: "(doe - doe sdiv 1460 + doe sdiv 36524 - doe sdiv 146096) sdiv 365 = yoe"
    using year(1) year(2) n by (simp add: sdiv_nonneg yoe_def)
  have f2: "doe - (365 * yoe + yoe sdiv 4 - yoe sdiv 100) = doy"
    using yoe by (simp add: sdiv_nonneg) (simp add: yoe_def doe_def)
  have f3: "(5 * doy + 2) sdiv 153 = mp" using month(1,2) by (simp add: sdiv_nonneg)
  have f4: "doy - (153 * mp + 2) sdiv 5 + 1 = d" using mp m by (simp add: doy sdiv_nonneg)
  have f5: "(if mp < 10 then mp + 3 else mp - 9) = m" using mp m by presburger
  have f6: "(if m \<le> 2 then yoe + era * 400 + 1 else yoe + era * 400) = y" using Y by (auto simp: yoe_def split: if_splits)
  show ?thesis
    by (simp only: civil_from_days_def Let_def z' e add_diff_cancel_left' f1 f2 f3 f4 f5 f6 if_True)
qed

lemma days_from_civil_range:
  assumes v: "valid_date y m d" and z: "days_from_civil y m d = Some z"
  shows "- 719468 \<le> z \<and> z < 3000000"
proof -
  obtain era c q s doy mp where
    days: "days_from_civil y m d = Some (era * 146097 + (36524 * c + 1461 * q + 365 * s + doy) - 719468)" and
    Y: "(if m \<le> 2 then y - 1 else y) = 400 * era + (100 * c + 4 * q + s)" and
    r: "0 \<le> era" "0 \<le> c" "c \<le> 3" "0 \<le> q" "q \<le> 24" "0 \<le> s" "s \<le> 3" and
    mp: "mp = (m + 9) mod 12" and doy: "doy = (153 * mp + 2) div 5 + d - 1" and
    leap: "doy = 365 \<Longrightarrow> s = 3 \<and> (q \<noteq> 24 \<or> c = 3)"
    using date_encoded [OF v] by blast
  have m: "1 \<le> m" "m \<le> 12" "1 \<le> d" "d \<le> days_in_month y m" "y \<le> 9999" using v by (auto simp: valid_date_def)
  note month = month_of_year(2,3) [OF m(1-4) mp doy]
  have "400 * era \<le> 9999" using Y m(5) r by (auto split: if_splits)
  then have "era \<le> 24" by presburger
  moreover have "z = era * 146097 + (36524 * c + 1461 * q + 365 * s + doy) - 719468" using z days by simp
  ultimately show ?thesis using r month by (intro conjI) linarith+
qed

text \<open>The day is only checked against 31: the 31st of February is the third of March.\<close>

lemma february_31: "days_from_civil 2023 2 31 = days_from_civil 2023 3 3" "days_from_civil 2023 2 31 \<noteq> None"
  by code_simp+

end
