(* ===== verification/RulesProps.thy ===== *)
theory RulesProps
  imports RulesCache RulesDate
begin

text \<open>
  Properties of the rules engine: what decides a request, what an evaluation may cost and
  produce, and the laws of its operators.
\<close>

section \<open>Auxiliary facts\<close>

lemma candidates_apply: "(fs, sc, allow) \<in> set (candidates rq rule consumed caps fs0) \<Longrightarrow> allow_applies (rq_operation rq) allow"
proof (induction rq rule consumed caps fs0 rule: candidates.induct)
  case (1 rq segs fns allows children consumed caps fs0)
  then show ?case
    by (cases "match_segments (rq_version rq) segs (rq_path rq) consumed caps") (auto split: if_splits)
qed

lemma run_candidates_Allow:
  "run_candidates rq cands h = (Inr Allow, h') \<Longrightarrow>
   \<exists>(fs, sc, allow) \<in> set cands. \<exists>h1. eval_allow rq fs sc allow h1 = (Inr (VBool True), h')"
  by (induction rq cands h rule: run_candidates.induct) (auto split: prod.splits sum.splits if_splits)

lemma match_captures_wf:
  "match_segments v segs path i caps = Some (j, caps') \<Longrightarrow> globals_wf caps \<Longrightarrow> globals_wf caps'"
  by (induction v segs path i caps rule: match_segments.induct)
    (auto simp: globals_wf_def bound_capture_def Let_def split: if_splits)

lemma globals_wf_append: "globals_wf (a @ b) \<longleftrightarrow> globals_wf a \<and> globals_wf b"
  by (auto simp: globals_wf_def)

lemma candidates_wf:
  "(fs, sc, allow) \<in> set (candidates rq rule consumed caps fs0) \<Longrightarrow> globals_wf (rq_globals rq) \<Longrightarrow> globals_wf caps
     \<Longrightarrow> globals_wf sc"
proof (induction rq rule consumed caps fs0 rule: candidates.induct)
  case (1 rq segs fns allows children consumed caps fs0)
  then obtain after caps' where m: "match_segments (rq_version rq) segs (rq_path rq) consumed caps = Some (after, caps')"
    by (cases "match_segments (rq_version rq) segs (rq_path rq) consumed caps") auto
  have "globals_wf caps'" using match_captures_wf [OF m] 1 by simp
  with 1 m show ?case by (auto simp: globals_wf_append split: if_splits)
qed

text \<open>The claim-free part of \<open>evaluate\<close>: it runs the candidates of the service in order.\<close>

definition service_candidates ::
  "'h rules_request \<Rightarrow> service_rules \<Rightarrow> (function_decl list \<times> scope \<times> allow_rule) list" where
  "service_candidates rq service =
     concat (map (\<lambda>rule. candidates rq rule 0 [] (sr_functions service)) (sr_matches service))"

lemma evaluate_run:
  "evaluate lib host rules svc op path globals h =
     (case find (\<lambda>s. sr_name s = svc) (rs_services rules) of
        None \<Rightarrow> (Inr Deny, h)
      | Some service \<Rightarrow>
          (let rq = \<lparr>rq_lib = lib, rq_host = host, rq_version = rs_version rules,
                     rq_operation = op, rq_path = path, rq_globals = globals\<rparr>
           in run_candidates rq (service_candidates rq service) h))"
proof (cases "find (\<lambda>s. sr_name s = svc) (rs_services rules)")
  case (Some service)
  define rq where "rq = \<lparr>rq_lib = lib, rq_host = host, rq_version = rs_version rules,
    rq_operation = op, rq_path = path, rq_globals = globals\<rparr>"
  have "evaluate lib host rules svc op path globals h =
    (let (r, st) = evaluate_rules rq (sr_functions service) (sr_matches service)
        \<lparr>ws_host = h, granted = False, errored = False\<rparr> in (r, ws_host st))"
    by (simp add: evaluate_def Some rq_def)
  also have "\<dots> = run_candidates rq (service_candidates rq service) h"
    by (subst evaluate_rules_run) (simp_all add: service_candidates_def)
  finally show ?thesis by (simp add: Some rq_def Let_def)
qed (simp add: evaluate_def)

section \<open>Decisions\<close>

text \<open>
  C4. The walk over a ruleset decides a request by the list of \<open>allow\<close> statements that apply to
  it: those of the blocks that consume the whole path and whose methods cover the operation, in
  source order, each under the captures and functions in force there.  They are evaluated one
  after the other, the first that yields \<open>true\<close> allows, a fatal error ends the evaluation, and
  a list that is used up, or a service that is not there, denies.
\<close>

theorem walk_runs_candidates:
  "evaluate lib host rules svc op path globals h =
     (case find (\<lambda>s. sr_name s = svc) (rs_services rules) of
        None \<Rightarrow> (Inr Deny, h)
      | Some service \<Rightarrow>
          (let rq = \<lparr>rq_lib = lib, rq_host = host, rq_version = rs_version rules,
                     rq_operation = op, rq_path = path, rq_globals = globals\<rparr>
           in run_candidates rq
                (concat (map (\<lambda>rule. candidates rq rule 0 [] (sr_functions service)) (sr_matches service))) h))"
  by (simp only: evaluate_run service_candidates_def)

text \<open>The walk that \<open>check\<close> starts.\<close>

definition check_request :: "'s rules_context \<Rightarrow> ruleset \<Rightarrow> authorization \<Rightarrow> access_request \<Rightarrow> 's \<Rightarrow> 's store_host rules_request" where
  "check_request ctx rules auth req s =
     \<lparr>rq_lib = rc_lib ctx, rq_host = store_host ctx (ar_database req), rq_version = rs_version rules,
      rq_operation = ar_operation req, rq_path = rules_path req,
      rq_globals = request_globals (for_project (project_id (ar_database req)) auth) req (rc_now_us ctx s)\<rparr>"

text \<open>
  C8. Access is granted by a rule or not at all: when a check lets through somebody who is not an
  admin of the project, in a database with rules, then some \<open>allow\<close> statement of its Firestore
  service applies to the request's operation and full path, and its condition evaluated to
  exactly \<open>true\<close>; an error, a value that is no boolean or an exhausted budget never grants.
\<close>

theorem access_needs_true_rule:
  assumes "check ctx registry auth req s = (Inr (), s')"
    and "registry_get registry (ar_database req) = Some rules"
    and "\<And>a. for_project (project_id (ar_database req)) auth \<noteq> Admin a"
  shows "\<exists>service fs sc allow h h'.
    find (\<lambda>sv. sr_name sv = ''cloud.firestore'') (rs_services rules) = Some service
    \<and> (fs, sc, allow) \<in> set (service_candidates (check_request ctx rules auth req s) service)
    \<and> allow_applies (ar_operation req) allow
    \<and> eval_allow (check_request ctx rules auth req s) fs sc allow h = (Inr (VBool True), h')"
proof -
  define rq where "rq = check_request ctx rules auth req s"
  obtain h where e: "evaluate (rc_lib ctx) (store_host ctx (ar_database req)) rules ''cloud.firestore''
      (ar_operation req) (rules_path req)
      (request_globals (for_project (project_id (ar_database req)) auth) req (rc_now_us ctx s)) \<lparr>sh_store = s, sh_cache = []\<rparr>
    = (Inr Allow, h)"
    using assms by (cases "for_project (project_id (ar_database req)) auth")
      (auto simp: check_def Let_def denied_def split: prod.splits sum.splits decision.splits)
  obtain service where service: "find (\<lambda>sv. sr_name sv = ''cloud.firestore'') (rs_services rules) = Some service"
    using e by (auto simp: evaluate_run split: option.splits)
  have "run_candidates rq (service_candidates rq service) \<lparr>sh_store = s, sh_cache = []\<rparr> = (Inr Allow, h)"
    using e service by (simp add: evaluate_run rq_def check_request_def Let_def)
  from run_candidates_Allow [OF this] obtain fs sc allow h1 where
    c: "(fs, sc, allow) \<in> set (service_candidates rq service)" "eval_allow rq fs sc allow h1 = (Inr (VBool True), h)" by auto
  moreover have "allow_applies (ar_operation req) allow"
    using c(1) candidates_apply [of fs sc allow rq] by (auto simp: service_candidates_def rq_def check_request_def)
  ultimately show ?thesis using service unfolding rq_def by blast
qed

text \<open>A database whose every document may be read by anyone.\<close>

definition open_rules :: ruleset where
  "open_rules = \<lparr>rs_version = V2, rs_services =
     [\<lparr>sr_name = ''cloud.firestore'', sr_functions = [], sr_matches =
        [MatchRule [Literal ''databases'', Capture ''db'', Literal ''documents''] []
           [] [MatchRule [Glob ''doc''] [] [\<lparr>al_methods = [''Read''], al_condition = EBool True, al_line = 3\<rparr>] []]]\<rparr>]\<rparr>"

definition quiet_mongo :: "nat mongo" where
  "quiet_mongo = \<lparr>find_one = (\<lambda>s c i. (Inr None, s)), find_one_and_update = (\<lambda>s c i r t. (Inl Aborted, s)),
     delete_one = (\<lambda>s c i. (Inr 0, s)), insert_notice = (\<lambda>s n. (Inr (), s))\<rparr>"

definition sample_lib :: rules_lib where
  "sample_lib = \<lparr>lib_lower = to_ascii_lowercase, lib_upper = (\<lambda>s. s), lib_show_f64 = (\<lambda>_. ''0''),
     lib_powf = (\<lambda>x _. x), lib_sin = (\<lambda>x. x), lib_cos = (\<lambda>_. 0), lib_asin = (\<lambda>x. x),
     lib_rx_valid = (\<lambda>_. True), lib_rx_match = (\<lambda>p s. p = s), lib_rx_split = (\<lambda>_ s. [s]), lib_rx_replace = (\<lambda>_ s _. s)\<rparr>"

definition sample_context :: "nat rules_context" where
  "sample_context = \<lparr>rc_mongo = quiet_mongo, rc_codec = \<lparr>encode_document = (\<lambda>_. []), decode_document = (\<lambda>_. None)\<rparr>,
     rc_lib = sample_lib, rc_error_text = (\<lambda>_. ''error''), rc_now_us = (\<lambda>_. 7)\<rparr>"

definition sample_database :: database_name where
  "sample_database = \<lparr>project_id = ''p'', database_id = ''d''\<rparr>"

definition sample_read :: access_request where
  "sample_read = \<lparr>ar_database = sample_database, ar_path = [''c'', ''x''], ar_operation = OpGet,
     ar_incoming = None, ar_existing = None\<rparr>"

lemma sample_covered: "covered_by OpGet ''Read''"
  by code_simp

lemma sample_check: "check sample_context (registry_set sample_database open_rules []) Unauthenticated sample_read 0 = (Inr (), 0)"
  by (simp add: check_def registry_set_def registry_get_def for_project_def sample_read_def evaluate_def open_rules_def
      rules_path_def allow_applies_def sample_covered
      eval_allow_def eval.simps step_then_def new_evaluator_def MAX_STEPS_def ret_def Let_def)

theorem access_needs_true_rule_witness:
  "\<exists>service fs sc allow h h'.
    find (\<lambda>sv. sr_name sv = ''cloud.firestore'') (rs_services open_rules) = Some service
    \<and> (fs, sc, allow) \<in> set (service_candidates (check_request sample_context open_rules Unauthenticated sample_read 0) service)
    \<and> allow_applies (ar_operation sample_read) allow
    \<and> eval_allow (check_request sample_context open_rules Unauthenticated sample_read 0) fs sc allow h = (Inr (VBool True), h')"
  by (rule access_needs_true_rule [OF sample_check])
    (simp_all add: registry_set_def registry_get_def sample_read_def for_project_def)

text \<open>
  C24. When no applicable condition runs out of budget and lookups change nothing in the host, the
  order of the \<open>allow\<close> statements is immaterial: the request is allowed exactly when one of
  the applicable conditions is \<open>true\<close> on its own, whatever the others evaluate to, errors
  included, and denied otherwise.
\<close>

theorem allowed_iff_some_rule_true:
  assumes "unchanging host" "find (\<lambda>s. sr_name s = svc) (rs_services rules) = Some service"
    and "rq = \<lparr>rq_lib = lib, rq_host = host, rq_version = rs_version rules,
                rq_operation = op, rq_path = path, rq_globals = globals\<rparr>"
    and "\<And>fs sc allow. (fs, sc, allow) \<in> set (service_candidates rq service) \<Longrightarrow>
           \<exists>v. fst (eval_allow rq fs sc allow h) = Inr v"
  shows "fst (evaluate lib host rules svc op path globals h) =
    Inr (if \<exists>(fs, sc, allow) \<in> set (service_candidates rq service). fst (eval_allow rq fs sc allow h) = Inr (VBool True)
         then Allow else Deny)"
proof -
  have "unchanging (rq_host rq)" using assms(1,3) by simp
  from run_candidates_unchanging [OF this assms(4)] show ?thesis
    using assms(2,3) by (simp add: evaluate_run Let_def)
qed

lemma direct_sample_unchanging: "unchanging (direct_host sample_context db)"
  by (auto simp: unchanging_def direct_host_def read_document_def get_document_def sample_context_def quiet_mongo_def
      split_beta split: sum.splits)

theorem allowed_iff_some_rule_true_witness:
  "fst (evaluate sample_lib (direct_host sample_context sample_database) open_rules ''cloud.firestore'' OpGet
      (rules_path sample_read) [] 0) = Inr Allow"
proof -
  let ?rq = "\<lparr>rq_lib = sample_lib, rq_host = direct_host sample_context sample_database, rq_version = rs_version open_rules,
     rq_operation = OpGet, rq_path = rules_path sample_read, rq_globals = []\<rparr>"
  let ?service = "hd (rs_services open_rules)"
  have f: "find (\<lambda>s. sr_name s = ''cloud.firestore'') (rs_services open_rules) = Some ?service"
    by (simp add: open_rules_def)
  have c: "service_candidates ?rq ?service = [([],
      [(''db'', VStr ''d''), (''doc'', VPath [''c'', ''x''])], \<lparr>al_methods = [''Read''], al_condition = EBool True, al_line = 3\<rparr>)]"
    by (simp add: service_candidates_def open_rules_def rules_path_def sample_read_def sample_database_def
        allow_applies_def sample_covered bound_capture_def WILDCARD_SEGMENT_def)
  have v: "fst (eval_allow ?rq fs sc \<lparr>al_methods = [''Read''], al_condition = EBool True, al_line = 3\<rparr> 0) = Inr (VBool True)" for fs sc
    by (simp add: eval_allow_def eval.simps step_then_def new_evaluator_def MAX_STEPS_def ret_def Let_def)
  show ?thesis
    by (subst allowed_iff_some_rule_true [OF direct_sample_unchanging f refl]) (simp_all add: c v)
qed

end
