(* ===== verification/RulesOps.thy ===== *)
theory RulesOps
  imports RulesProps
begin

text \<open>
  Properties of evaluations: matching of paths, absorption of errors, budgets and the cache.
\<close>

section \<open>Matching\<close>

text \<open>
  C29. A \<open>match\<close> path with at most one recursive wildcard consumes the rest of a path exactly when
  the rest is one that the path describes: the literals in place, one segment per capture, and for
  the wildcard any stretch of segments, not empty in version 1; the captures are those the
  description binds.
\<close>

theorem match_path_exact:
  assumes "length (filter is_glob segs) \<le> 1" "i \<le> length path"
  shows "match_segments v segs path i caps = Some (length path, caps @ cs) \<longleftrightarrow> pattern v segs (drop i path) cs"
proof
  assume "match_segments v segs path i caps = Some (length path, caps @ cs)"
  from match_segments_sound [OF this assms(2)] show "pattern v segs (drop i path) cs" by simp
next
  assume "pattern v segs (drop i path) cs"
  from match_segments_complete [OF this assms refl]
  show "match_segments v segs path i caps = Some (length path, caps @ cs)" .
qed

theorem match_path_exact_witness:
  "match_segments V2 [Literal ''users'', Glob ''rest'', Capture ''id''] [''users'', ''a'', ''b'', ''c''] 0 [] =
     Some (4, [] @ [(''rest'', VPath [''a'', ''b'']), (''id'', VStr ''c'')])
   \<longleftrightarrow> pattern V2 [Literal ''users'', Glob ''rest'', Capture ''id''] (drop 0 [''users'', ''a'', ''b'', ''c''])
     [(''rest'', VPath [''a'', ''b'']), (''id'', VStr ''c'')]"
  using match_path_exact [of "[Literal ''users'', Glob ''rest'', Capture ''id'']" 0 "[''users'', ''a'', ''b'', ''c'']" V2 "[]"
      "[(''rest'', VPath [''a'', ''b'']), (''id'', VStr ''c'')]"] by simp

section \<open>Absorption\<close>

text \<open>Strong Kleene logic, with errors and values that are no booleans as the third value.\<close>

definition kleene :: "bool \<Rightarrow> bool option \<Rightarrow> bool option \<Rightarrow> bool option" where
  "kleene is_or a b =
     (if a = Some is_or \<or> b = Some is_or then Some is_or
      else if a = None \<or> b = None then None else Some (\<not> is_or))"

lemma as_bool_VBool [simp]: "as_bool (VBool b) = Some b"
  by (simp add: as_bool_def)

lemma absorb_kleene:
  "as_bool lv \<noteq> Some is_or \<Longrightarrow> as_bool (absorb is_or lv rv) = kleene is_or (as_bool lv) (as_bool rv)"
  by (cases "as_bool lv"; cases "as_bool rv") (auto simp: absorb_def kleene_def)

lemma kleene_commutes: "kleene is_or a b = kleene is_or b a"
  by (auto simp: kleene_def)

text \<open>
  C30. \<open>&&\<close> and \<open>||\<close> compute strong Kleene logic on results, with an error as the unknown
  value: an erring side is absorbed when the other decides the result, on either side, and the
  result is an error otherwise.  The right side is not evaluated, and no lookup of it happens, when
  the left side alone decides.
\<close>

theorem logical_absorption:
  assumes "op \<in> {And, Or}" "steps st < MAX_STEPS"
    and "eval env l sc d (st\<lparr>steps := steps st + 1\<rparr>) = (Inr lv, st1)"
    and "eval env r sc d st1 = (Inr rv, st2)"
  shows "\<exists>v. eval env (EBinary op l r) sc d st = (Inr v, if as_bool lv = Some (op = Or) then st1 else st2)
    \<and> as_bool v = kleene (op = Or) (as_bool lv) (as_bool rv)"
proof (cases "as_bool lv = Some (op = Or)")
  case True
  then show ?thesis
    using assms by (auto simp: eval.simps step_then_def bind_def ret_def kleene_def as_bool_def)
next
  case False
  then show ?thesis
    using assms by (auto simp: eval.simps step_then_def bind_def ret_def absorb_kleene)
qed

definition plain_env :: "nat rules_env" where
  "plain_env = \<lparr>env_lib = sample_lib, env_host = direct_host sample_context sample_database, env_functions = []\<rparr>"

theorem logical_absorption_witness:
  "\<exists>v st. eval plain_env (EBinary Or (EIdent ''nobody'') (EBool True)) [] 0 (new_evaluator 0) = (Inr v, st)
    \<and> as_bool v = kleene True None (Some True)"
proof -
  have "\<exists>v. eval plain_env (EBinary Or (EIdent ''nobody'') (EBool True)) [] 0 (new_evaluator 0) =
      (Inr v, if as_bool (VUndefined ''undefined variable nobody'') = Some (Or = Or)
              then \<lparr>ev_host = 0, steps = 2, lookups = 0\<rparr> else \<lparr>ev_host = 0, steps = 3, lookups = 0\<rparr>)
    \<and> as_bool v = kleene (Or = Or) (as_bool (VUndefined ''undefined variable nobody'')) (as_bool (VBool True))"
    by (rule logical_absorption) (simp_all add: eval.simps step_then_def ret_def new_evaluator_def MAX_STEPS_def scope_lookup_def)
  then show ?thesis by (auto simp: as_bool_def)
qed

section \<open>Budgets\<close>

text \<open>
  C25. An evaluation ends within its budget: whatever the expression, the functions and the host,
  it takes at most ten thousand steps before the one that ends it, and asks the host for at most
  twenty documents.
\<close>

theorem evaluation_budget:
  assumes "counts_calls calls (env_host env)" "eval env e sc 0 (new_evaluator h) = (r, st)"
  shows "steps st \<le> 10001 \<and> lookups st \<le> 21 \<and> calls (ev_host st) \<le> calls h + 20"
proof -
  have R: "budget.run_ok env calls (calls h) (eval env e sc 0) (\<lambda>_. True)"
    by (rule budget.eval_ok) (simp add: budget.scope_ok_def)
  have I: "within_budget env calls (calls h) (new_evaluator h)" by (simp add: within_budget_def new_evaluator_def)
  have "budget_end env calls (calls h) st"
  proof (cases r)
    case (Inl x)
    show ?thesis by (rule budget.run_okD(1) [OF R I]) (simp add: assms Inl)
  next
    case (Inr x)
    have "within_budget env calls (calls h) st \<and> True" by (rule budget.run_okD(2) [OF R I]) (simp add: assms Inr)
    then show ?thesis by (auto simp: within_budget_def budget_end_def)
  qed
  then show ?thesis using assms(1) by (simp add: budget_end_def MAX_STEPS_def)
qed

text \<open>A host that counts the requests it gets, and a function that calls itself.\<close>

definition counting_host :: "nat host" where
  "counting_host = \<lparr>host_get = (\<lambda>path after h. (Inr None, h + 1)), host_exists = (\<lambda>path after h. (Inr True, h + 1))\<rparr>"

definition counting_env :: "nat rules_env" where
  "counting_env = \<lparr>env_lib = sample_lib, env_host = counting_host, env_functions =
     [\<lparr>fd_name = ''f'', fd_params = [], fd_lets = [(''x'', ECall None ''exists'' [EPath [Static ''a'']])],
       fd_body = ECall None ''f'' []\<rparr>]\<rparr>"

theorem evaluation_budget_witness:
  "\<exists>st. eval counting_env (ECall None ''exists'' [EPath [Static ''a'']]) [] 0 (new_evaluator 0) = (Inr (VBool True), st)
     \<and> steps st \<le> 10001 \<and> lookups st \<le> 21 \<and> ev_host st \<le> 0 + 20"
proof -
  have e: "eval counting_env (ECall None ''exists'' [EPath [Static ''a'']]) [] 0 (new_evaluator 0) =
      (Inr (VBool True), \<lparr>ev_host = 1, steps = 2, lookups = 1\<rparr>)"
    by (simp add: eval.simps step_then_def bind_def bind_ok_def ret_def new_evaluator_def MAX_STEPS_def namespaced_def
        counting_env_def global_call_def lookup_call_def counting_host_def is_undefined_def)
  have "counts_calls (\<lambda>h. h) (env_host counting_env)" by (simp add: counts_calls_def counting_env_def counting_host_def)
  from evaluation_budget [OF this e] e show ?thesis by simp
qed

section \<open>The cache\<close>

text \<open>
  C12. The cache of the store's host changes no decision: as long as reading leaves the store as it
  is, evaluating a request through the cache and evaluating it with a read for every
  \<open>get()\<close> and \<open>exists()\<close> end the same way, fatal errors included.
\<close>

theorem cache_changes_no_decision:
  assumes "reads_stable ctx s"
  shows "fst (evaluate lib (store_host ctx db) rules svc op path globals \<lparr>sh_store = s, sh_cache = []\<rparr>) =
    fst (evaluate lib (direct_host ctx db) rules svc op path globals s)"
proof (cases "find (\<lambda>s. sr_name s = svc) (rs_services rules)")
  case (Some service)
  let ?rq = "\<lambda>host. \<lparr>rq_lib = lib, rq_host = host, rq_version = rs_version rules,
    rq_operation = op, rq_path = path, rq_globals = globals\<rparr>"
  have "service_candidates (?rq (store_host ctx db)) service = service_candidates (?rq (direct_host ctx db)) service"
    unfolding service_candidates_def by (intro arg_cong [where f = concat] map_cong refl candidates_cong) simp_all
  moreover have c: "cache_current ctx db \<lparr>sh_store = s, sh_cache = []\<rparr> s" using assms by (simp add: cache_current_def)
  have "fst (run_candidates (?rq (store_host ctx db)) cands \<lparr>sh_store = s, sh_cache = []\<rparr>) =
      fst (run_candidates (?rq (direct_host ctx db)) cands s)" for cands
    by (rule run_candidates_cached [OF _ _ _ c]) simp_all
  ultimately show ?thesis by (simp add: evaluate_run Some Let_def)
qed (simp add: evaluate_def)

theorem cache_changes_no_decision_witness:
  "fst (evaluate sample_lib (store_host sample_context sample_database) open_rules ''cloud.firestore'' OpGet
      (rules_path sample_read) [] \<lparr>sh_store = 0, sh_cache = []\<rparr>) =
    fst (evaluate sample_lib (direct_host sample_context sample_database) open_rules ''cloud.firestore'' OpGet
      (rules_path sample_read) [] 0)"
  by (rule cache_changes_no_decision) (simp add: reads_stable_def sample_context_def quiet_mongo_def)

end
