(* ===== verification/RulesChecks.thy ===== *)
theory RulesChecks
  imports RulesOps
begin

text \<open>
  Properties of checks and operators: the values conditions can produce, batches of writes, and
  integer arithmetic.
\<close>

section \<open>Types\<close>

text \<open>
  The association lists of the model stand for maps: whatever document, claims and captures a check
  puts in scope, every value an applicable condition evaluates to over the store has, at every
  depth, maps with strictly ascending keys, and the cache keeps holding such values.
\<close>

theorem condition_values_typed:
  assumes "rq = check_request ctx rules auth req s"
    and "(fs, sc, allow) \<in> set (service_candidates rq service)"
    and "cache_wf h" "eval_allow rq fs sc allow h = (Inr v, h')"
  shows "rvalue_wf v \<and> cache_wf h'"
proof -
  have "globals_wf (rq_globals rq)" using wf_request_globals by (simp add: assms(1) check_request_def)
  moreover have "globals_wf []" by (simp add: globals_wf_def)
  ultimately have "globals_wf sc" using assms(2) candidates_wf by (force simp: service_candidates_def)
  then have R: "typed.run_ok
      (eval (store_env (rc_lib ctx) ctx (ar_database req) fs) (al_condition allow) sc 0) rvalue_wf"
    by (intro typed.eval_ok) (simp add: typed.scope_ok_def globals_wf_def)
  have I: "cache_wf (ev_host (new_evaluator h))" using assms(3) by (simp add: new_evaluator_def)
  obtain st where "eval (store_env (rc_lib ctx) ctx (ar_database req) fs) (al_condition allow) sc 0 (new_evaluator h) = (Inr v, st)"
    "h' = ev_host st"
    using assms(4) by (auto simp: eval_allow_def request_env_def store_env_def assms(1) check_request_def split: prod.splits)
  then show ?thesis using typed.run_okD(2) [OF R I] by blast
qed

theorem condition_values_typed_witness:
  "rvalue_wf (VBool True) \<and> cache_wf \<lparr>sh_store = 0 :: nat, sh_cache = []\<rparr>"
proof (rule condition_values_typed [OF refl])
  let ?allow = "\<lparr>al_methods = [''Read''], al_condition = EBool True, al_line = 3\<rparr>"
  let ?rq = "check_request sample_context open_rules Unauthenticated sample_read 0"
  show "([], rq_globals ?rq @ [(''db'', VStr ''d''), (''doc'', VPath [''c'', ''x''])], ?allow)
      \<in> set (service_candidates ?rq (hd (rs_services open_rules)))"
    by (simp add: service_candidates_def open_rules_def rules_path_def sample_read_def sample_database_def check_request_def
        allow_applies_def sample_covered bound_capture_def WILDCARD_SEGMENT_def)
  show "eval_allow ?rq [] (rq_globals ?rq @ [(''db'', VStr ''d''), (''doc'', VPath [''c'', ''x''])]) ?allow
      \<lparr>sh_store = 0, sh_cache = []\<rparr> = (Inr (VBool True), \<lparr>sh_store = 0, sh_cache = []\<rparr>)"
    by (simp add: eval_allow_def eval.simps step_then_def new_evaluator_def MAX_STEPS_def ret_def Let_def)
qed (simp add: cache_wf_def)

section \<open>Batches\<close>

lemma for_project_idem: "for_project p (for_project p auth) = for_project p auth"
  by (auto simp: for_project_def Let_def split: authorization.splits option.splits)

lemma check_for_project:
  "check ctx registry (for_project (project_id (ar_database req)) auth) req s = check ctx registry auth req s"
  by (simp add: check_def for_project_idem)

text \<open>The request that \<open>check_writes\<close> makes of one write.\<close>

definition write_request ::
  "'s rules_context \<Rightarrow> database_name \<Rightarrow> Commit.operation \<Rightarrow> resource_path \<Rightarrow> stored_document option \<Rightarrow> access_request" where
  "write_request ctx db op path existing =
     \<lparr>ar_database = db, ar_path = path,
      ar_operation = (case op of Delete _ \<Rightarrow> OpDelete | Verify _ \<Rightarrow> OpGet
                      | _ \<Rightarrow> if existing = None then OpCreate else OpUpdate),
      ar_incoming = (case op of Update doc \<Rightarrow> Some doc | _ \<Rightarrow> None),
      ar_existing = existing\<rparr>"

definition operation_target :: "Commit.operation \<Rightarrow> string" where
  "operation_target op =
     (case op of Update doc \<Rightarrow> doc_name doc | Delete name \<Rightarrow> name | Verify name \<Rightarrow> name | Transform t \<Rightarrow> dt_document t)"

lemma check_write_request:
  "check ctx registry (for_project (project_id db) auth) (write_request ctx db op p e) s =
     check ctx registry auth (write_request ctx db op p e) s"
  using check_for_project [of ctx registry "write_request ctx db op p e" auth s] by (simp add: write_request_def)

text \<open>A write was checked, and let through, against the document found at its target.\<close>

definition write_checked ::
  "'s rules_context \<Rightarrow> registry \<Rightarrow> authorization \<Rightarrow> database_name \<Rightarrow> Commit.operation \<Rightarrow> bool" where
  "write_checked ctx registry auth db op \<longleftrightarrow>
     (\<exists>name existing s s' t'. parse_document (operation_target op) = Inr name
        \<and> get_document (rc_mongo ctx) (rc_codec ctx) db (rn_path name) s = (Inr existing, s')
        \<and> check ctx registry auth (write_request ctx db op (rn_path name) existing) s' = (Inr (), t'))"

lemma check_each_checked:
  "check_each ctx registry auth db ws s = (Inr (), s') \<Longrightarrow> w \<in> set ws \<Longrightarrow> operation w = Some op
     \<Longrightarrow> write_checked ctx registry auth db op"
proof (induction ctx registry auth db ws s rule: check_each.induct)
  case (2 ctx registry auth db v ws s)
  show ?case
  proof (cases "operation v")
    case None
    then show ?thesis using 2 by auto
  next
    case (Some op')
    obtain name incoming hint where a: "write_access op' = (name, incoming, hint)" by (cases "write_access op'") auto
    obtain parsed where p: "parse_document name = Inr parsed"
      using "2.prems"(1) Some a by (auto split: sum.splits)
    obtain existing s1 where g: "get_document (rc_mongo ctx) (rc_codec ctx) db (rn_path parsed) s = (Inr existing, s1)"
      using "2.prems"(1) Some a p by (auto split: prod.splits sum.splits)
    define req where "req = \<lparr>ar_database = db, ar_path = rn_path parsed,
      ar_operation = (case hint of Some h \<Rightarrow> h | None \<Rightarrow> if existing \<noteq> None then OpUpdate else OpCreate),
      ar_incoming = incoming, ar_existing = existing\<rparr>"
    obtain s2 where c: "check ctx registry auth req s1 = (Inr (), s2)" "check_each ctx registry auth db ws s2 = (Inr (), s')"
      using "2.prems"(1) Some a p g by (auto simp: req_def Let_def split: prod.splits sum.splits)
    have "write_checked ctx registry auth db op'"
    proof -
      have "req = write_request ctx db op' (rn_path parsed) existing" "operation_target op' = name"
        using a by (auto simp: req_def write_request_def write_access_def operation_target_def split: Commit.operation.splits)
      then show ?thesis using p g c(1) unfolding write_checked_def by blast
    qed
    moreover have "write_checked ctx registry auth db op" if "w \<in> set ws"
      using 2 that Some a p g c(2) c(1) unfolding req_def by (metis (no_types, lifting) surj_pair)
    ultimately show ?thesis using "2.prems"(2,3) Some by auto
  qed
qed simp

text \<open>
  C31. A batch passes only if every write in it does: when \<open>check_writes\<close> accepts a batch of
  somebody who is not an admin, in a database with rules, each write that carries an operation
  had a target that parsed and was checked against the document read there, as a creation or an
  update by that document's existence, and the rules let it through.
\<close>

theorem accepted_batch_checked:
  assumes "check_writes ctx registry auth db ws s = (Inr (), s')"
    and "registry_get registry db \<noteq> None" and "\<And>a. for_project (project_id db) auth \<noteq> Admin a"
    and "w \<in> set ws" "operation w = Some op"
  shows "write_checked ctx registry auth db op"
proof -
  have "check_each ctx registry (for_project (project_id db) auth) db ws s = (Inr (), s')"
    using assms(1-3) by (cases "for_project (project_id db) auth") (auto simp: check_writes_def Let_def)
  from check_each_checked [OF this assms(4,5)] show ?thesis
    unfolding write_checked_def check_write_request .
qed

text \<open>Rules under which anyone may delete anything.\<close>

definition delete_rules :: ruleset where
  "delete_rules = \<lparr>rs_version = V2, rs_services =
     [\<lparr>sr_name = ''cloud.firestore'', sr_functions = [], sr_matches =
        [MatchRule [Literal ''databases'', Capture ''db'', Literal ''documents'', Glob ''doc''] []
           [\<lparr>al_methods = [''delete''], al_condition = EBool True, al_line = 3\<rparr>] []]\<rparr>]\<rparr>"

definition delete_write :: write_req where
  "delete_write = \<lparr>operation = Some (Delete ''projects/p/databases/d/documents/c/x''), update_mask = None,
     update_transforms = [], current_document = None\<rparr>"

lemma delete_covered: "covered_by OpDelete ''delete''"
  by code_simp

lemma delete_parses: "parse_document ''projects/p/databases/d/documents/c/x'' =
    Inr \<lparr>rn_database = sample_database, rn_path = [''c'', ''x'']\<rparr>"
  by code_simp

theorem accepted_batch_checked_witness:
  "write_checked sample_context (registry_set sample_database delete_rules []) Unauthenticated sample_database
     (Delete ''projects/p/databases/d/documents/c/x'')"
proof (rule accepted_batch_checked [where w = delete_write])
  show "check_writes sample_context (registry_set sample_database delete_rules []) Unauthenticated sample_database
      [delete_write] 0 = (Inr (), 0)"
    by (simp add: check_writes_def delete_write_def write_access_def delete_parses sample_context_def quiet_mongo_def
        get_document_def check_def registry_set_def registry_get_def for_project_def evaluate_def delete_rules_def
        rules_path_def allow_applies_def delete_covered eval_allow_def eval.simps step_then_def new_evaluator_def
        MAX_STEPS_def ret_def Let_def)
qed (simp_all add: registry_set_def registry_get_def for_project_def delete_write_def)

section \<open>Integers\<close>

definition exact_result :: "bin_op \<Rightarrow> int \<Rightarrow> int \<Rightarrow> int" where
  "exact_result op x y = (case op of Add \<Rightarrow> x + y | Sub \<Rightarrow> x - y | _ \<Rightarrow> x * y)"

lemma checked_result:
  "in_i64 n \<Longrightarrow> \<exists>r. or_undefined m (to_i64 n) = VInt r \<and> sint r = n"
  "\<not> in_i64 n \<Longrightarrow> is_undefined (or_undefined m (to_i64 n))"
  using sint_word_of_int_i64 [of n] by (auto simp: or_undefined_def to_i64_def is_undefined_def)

lemma sdiv_in_range:
  assumes "in_i64 x" "y \<noteq> 0" "\<not> (x = i64_min \<and> y = - 1)"
  shows "in_i64 (x sdiv y)"
proof -
  have q: "\<bar>x sdiv y\<bar> = \<bar>x\<bar> div \<bar>y\<bar>"
    using pos_imp_zdiv_nonneg_iff [of "\<bar>y\<bar>" "\<bar>x\<bar>"] assms(2)
    by (auto simp: signed_divide_int_def abs_mult abs_sgn_eq)
  have x: "\<bar>x\<bar> \<le> 2 ^ 63" using assms(1) by (auto simp: in_i64_def)
  consider "y = 1" | "y = - 1" | "2 \<le> \<bar>y\<bar>" using assms(2) by arith
  then show ?thesis
  proof cases
    case 1
    then show ?thesis using assms(1) by (auto simp: signed_divide_int_def sgn_if)
  next
    case 2
    then show ?thesis using assms by (auto simp: signed_divide_int_def sgn_if in_i64_def)
  next
    case 3
    have "\<bar>x\<bar> div \<bar>y\<bar> \<le> \<bar>x\<bar> div 2" using 3 by (intro zdiv_mono2) simp_all
    also have "\<dots> \<le> 2 ^ 62" using x by simp
    finally show ?thesis using q by (auto simp: in_i64_def)
  qed
qed

lemma smod_laws:
  fixes x y :: int
  assumes "y \<noteq> 0"
  shows "x = (x sdiv y) * y + x smod y" "\<bar>x smod y\<bar> < \<bar>y\<bar>" "x smod y = 0 \<or> sgn (x smod y) = sgn x"
proof -
  have m: "x smod y = sgn x * (\<bar>x\<bar> mod \<bar>y\<bar>)" by (simp add: signed_modulo_int_def)
  show "x = (x sdiv y) * y + x smod y" by (simp add: signed_division_class.sdiv_mult_smod_eq)
  have b: "0 \<le> \<bar>x\<bar> mod \<bar>y\<bar>" "\<bar>x\<bar> mod \<bar>y\<bar> < \<bar>y\<bar>" using assms by simp_all
  then show "\<bar>x smod y\<bar> < \<bar>y\<bar>" unfolding m by (cases x "0 :: int" rule: linorder_cases) simp_all
  show "x smod y = 0 \<or> sgn (x smod y) = sgn x"
    unfolding m using b(1) by (cases "\<bar>x\<bar> mod \<bar>y\<bar> = 0") (simp_all add: sgn_mult)
qed

lemma smod_in_range: "in_i64 y \<Longrightarrow> y \<noteq> 0 \<Longrightarrow> in_i64 (x smod y)"
  using smod_laws(2) [of y x] by (auto simp: in_i64_def)

lemmas int_ops = binary_def arithmetic_def number_arithmetic_def int_arithmetic_def Let_def

text \<open>
  C34. Integer arithmetic is exact or an error, and never wraps.  A sum, difference or product is the
  exact one when it fits in 64 bits and undefined otherwise.  Division and remainder are undefined
  exactly for a zero divisor and for the least integer by minus one, and otherwise satisfy the
  division law with a remainder smaller than the divisor and with the sign of the dividend.
\<close>

theorem integer_arithmetic_exact:
  shows "if op \<in> {Add, Sub, Mul}
    then (if in_i64 (exact_result op (sint a) (sint b))
          then \<exists>r. binary op (VInt a) (VInt b) = VInt r \<and> sint r = exact_result op (sint a) (sint b)
          else is_undefined (binary op (VInt a) (VInt b)))
    else (if b = 0 \<or> sint a = i64_min \<and> sint b = - 1
          then is_undefined (binary Div (VInt a) (VInt b)) \<and> is_undefined (binary Mod (VInt a) (VInt b))
          else \<exists>q r. binary Div (VInt a) (VInt b) = VInt q \<and> binary Mod (VInt a) (VInt b) = VInt r
            \<and> sint a = sint q * sint b + sint r \<and> \<bar>sint r\<bar> < \<bar>sint b\<bar> \<and> (sint r = 0 \<or> sgn (sint r) = sgn (sint a)))"
proof (cases "op \<in> {Add, Sub, Mul}")
  case True
  have "binary op (VInt a) (VInt b) = or_undefined ''integer overflow'' (to_i64 (exact_result op (sint a) (sint b)))"
    using True by (auto simp: int_ops exact_result_def)
  then show ?thesis using True checked_result by auto
next
  case False
  have zero: "sint b = 0 \<longleftrightarrow> b = 0" by (metis sint_0 sint_i64_inject)
  show ?thesis
  proof (cases "b = 0 \<or> sint a = i64_min \<and> sint b = - 1")
    case True
    have "\<not> in_i64 (i64_min sdiv - 1)" by (simp add: in_i64_def signed_divide_int_def)
    with True have "is_undefined (binary Div (VInt a) (VInt b)) \<and> is_undefined (binary Mod (VInt a) (VInt b))"
      using checked_result(2) by (auto simp: int_ops or_undefined_def is_undefined_def)
    with True False show ?thesis by simp
  next
    case ok: False
    then have b: "b \<noteq> 0" "sint b \<noteq> 0" using zero by auto
    obtain q where q: "or_undefined ''integer overflow'' (to_i64 (sint a sdiv sint b)) = VInt q" "sint q = sint a sdiv sint b"
      using checked_result(1) [OF sdiv_in_range] sint_i64_range b ok by blast
    obtain r where r: "or_undefined ''integer overflow'' (to_i64 (sint a smod sint b)) = VInt r" "sint r = sint a smod sint b"
      using checked_result(1) [OF smod_in_range] sint_i64_range b by blast
    have "binary Div (VInt a) (VInt b) = VInt q" "binary Mod (VInt a) (VInt b) = VInt r"
      using b ok q(1) r(1) by (auto simp: int_ops)
    then show ?thesis using ok False smod_laws [OF b(2), of "sint a"] q(2) r(2) by auto
  qed
qed

end
