(* ===== verification/CommitProps.thy ===== *)
theory CommitProps
  imports Commit
begin

text \<open>
  What the commit path promises: saturating increments, extremes by the value order, array
  transforms as sets up to index equality, masks, timestamps, and a batch that lands as the
  in-order effect of its writes on each document or not at all.
\<close>

section \<open>Increment and extremes\<close>

text \<open>
  Incrementing an integer by an integer gives the exact sum clamped to the 64-bit range.
\<close>

theorem increment_saturates:
  "\<exists>r. increment (Some (IntegerValue a)) (IntegerValue b) = Inr (IntegerValue r)
     \<and> sint r = max i64_min (min i64_max (sint a + sint b))"
proof -
  have r: "in_i64 (sint a)" "in_i64 (sint b)" by (rule sint_i64_range)+
  show ?thesis
  proof (cases "in_i64 (sint a + sint b)")
    case True
    then show ?thesis by (auto simp: increment_def numeric_def checked_add_i64_def in_i64_def max_def min_def simp del: of_int_add)
  next
    case False
    have "in_i64 i64_max" "in_i64 i64_min" by (simp_all add: in_i64_def)
    then have s: "sint (word_of_int i64_max :: i64) = i64_max" "sint (word_of_int i64_min :: i64) = i64_min"
      by (blast intro: sint_word_of_int_i64)+
    show ?thesis
    proof (cases "0 \<le> sint b")
      case True
      then have "i64_max < sint a + sint b" using False r by (auto simp: in_i64_def)
      then show ?thesis using True False s
        by (simp add: increment_def numeric_def checked_add_i64_def max_def min_def del: of_int_diff)
    next
      case neg: False
      then have "sint a + sint b < i64_min" using False r by (auto simp: in_i64_def)
      then show ?thesis using neg False s
        by (simp add: increment_def numeric_def checked_add_i64_def max_def min_def)
    qed
  qed
qed

definition is_number :: "fvalue \<Rightarrow> bool" where
  "is_number v \<longleftrightarrow> numeric v \<noteq> None \<and> \<not> is_nan v"

lemma is_number_cases:
  assumes "is_number v"
  obtains i where "v = IntegerValue i" | d where "v = DoubleValue d" "\<not> f64_is_nan d"
  using assms by (cases v) (auto simp: is_number_def numeric_def is_nan_def)

lemma is_number_storable: "is_number v \<Longrightarrow> storable v"
  by (erule is_number_cases) auto

text \<open>
  \<open>maximum\<close> and \<open>minimum\<close> of two numbers give one of them, an upper or lower bound of
  both in the value order, and keep the current value on a tie (so its integer or double form).
\<close>

theorem max_min_extreme:
  assumes "is_number c" "is_number p"
  shows "\<exists>r. max_min (Some c) p want_max = Inr r \<and> r \<in> {c, p}
    \<and> (\<forall>x \<in> {c, p}. compare_values r x \<noteq> (if want_max then Less else Greater))
    \<and> (compare_values c p = Equal \<longrightarrow> r = c)"
proof -
  have n: "numeric c \<noteq> None" "numeric p \<noteq> None" "\<not> is_nan c" "\<not> is_nan p"
    using assms by (auto simp: is_number_def)
  have nan: "(case the (numeric p) of NumDouble d \<Rightarrow> f64_is_nan d | _ \<Rightarrow> False) = False"
    "(case numeric c of Some (NumDouble d) \<Rightarrow> f64_is_nan d | _ \<Rightarrow> False) = False"
    using n by (auto simp: numeric_def is_nan_def split: fvalue.splits)
  let ?keep = "if want_max then is_ge (compare_values c p) else is_le (compare_values c p)"
  have m: "max_min (Some c) p want_max = Inr (if ?keep then c else p)"
    using n nan by (auto simp: max_min_def Let_def split: option.splits)
  have s: "storable c" "storable p" using assms by (auto intro: is_number_storable)
  have "compare_values c c = Equal" "compare_values p p = Equal"
    "compare_values p c = reverse_ord (compare_values c p)"
    using value_key.cmp_refl value_key.cmp_reverse s by blast+
  then show ?thesis unfolding m by (cases "compare_values c p") (auto simp: is_ge_def is_le_def)
qed

theorem max_min_extreme_witness:
  "\<exists>r. max_min (Some (IntegerValue 1)) (IntegerValue 5) True = Inr r \<and> r \<in> {IntegerValue 1, IntegerValue 5}
    \<and> compare_values r (IntegerValue 1) \<noteq> Less \<and> compare_values r (IntegerValue 5) \<noteq> Less"
proof -
  have "is_number (IntegerValue 1)" "is_number (IntegerValue 5)"
    by (simp_all add: is_number_def numeric_def is_nan_def)
  from max_min_extreme [OF this, of True] show ?thesis by auto
qed

section \<open>Array transforms\<close>

lemma index_equal_compare:
  assumes "storable a" "storable b"
  shows "index_equal a b \<longleftrightarrow> compare_values a b = Equal"
  using value_key.cmp_Equal_iff [OF assms] encode_value_the [of a] encode_value_the [of b]
  by (auto simp: index_equal_def)

lemma index_equal_equiv:
  "index_equal a a" "index_equal a b \<Longrightarrow> index_equal b a"
  "index_equal a b \<Longrightarrow> index_equal b c \<Longrightarrow> index_equal a c"
  by (simp_all add: index_equal_def)

abbreviation has_equal :: "fvalue list \<Rightarrow> fvalue \<Rightarrow> bool" where
  "has_equal es v \<equiv> list_ex (\<lambda>e. index_equal e v) es"

lemma append_missing_prefix: "\<exists>added. append_missing es ps = es @ added \<and> set added \<subseteq> set ps"
proof (induction es ps rule: append_missing.induct)
  case (2 es p ps)
  show ?case
  proof (cases "has_equal es p")
    case True
    then show ?thesis using 2 by fastforce
  next
    case False
    then obtain added where "append_missing (es @ [p]) ps = (es @ [p]) @ added" "set added \<subseteq> set ps"
      using 2 by blast
    then show ?thesis using False by (intro exI [of _ "p # added"]) auto
  qed
qed simp

lemma append_missing_has: "has_equal (append_missing es ps) v \<longleftrightarrow> has_equal es v \<or> has_equal ps v"
proof (induction es ps rule: append_missing.induct)
  case (2 es p ps)
  show ?case
  proof (cases "has_equal es p")
    case True
    then have "index_equal p v \<Longrightarrow> has_equal es v" by (auto simp: list_ex_iff intro: index_equal_equiv)
    then show ?thesis using 2 True by auto
  qed (use 2 in auto)
qed simp

lemma append_missing_id: "\<forall>p \<in> set ps. has_equal es p \<Longrightarrow> append_missing es ps = es"
  by (induction ps) auto

lemma append_missing_distinct:
  "sorted_wrt (\<lambda>a b. \<not> index_equal a b) es \<Longrightarrow> sorted_wrt (\<lambda>a b. \<not> index_equal a b) (append_missing es ps)"
  by (induction es ps rule: append_missing.induct) (auto simp: sorted_wrt_append list_ex_iff)

text \<open>
  Array union: the current elements stay in place and in front, only operands are added,
  exactly the current elements and the operands have an equal in the result, no two equal
  elements are added, and a second union with the same operands changes nothing.
\<close>

theorem append_missing_union:
  "\<exists>added. append_missing es ps = es @ added \<and> set added \<subseteq> set ps
     \<and> (\<forall>v. has_equal (append_missing es ps) v \<longleftrightarrow> has_equal es v \<or> has_equal ps v)
     \<and> (sorted_wrt (\<lambda>a b. \<not> index_equal a b) es \<longrightarrow>
          sorted_wrt (\<lambda>a b. \<not> index_equal a b) (append_missing es ps))
     \<and> append_missing (append_missing es ps) ps = append_missing es ps"
proof -
  have "\<forall>p \<in> set ps. has_equal (append_missing es ps) p"
  proof
    fix p assume "p \<in> set ps"
    then have "has_equal ps p" by (auto simp: list_ex_iff intro: index_equal_equiv)
    then show "has_equal (append_missing es ps) p" by (simp only: append_missing_has simp_thms)
  qed
  then show ?thesis
    using append_missing_prefix [of es ps] append_missing_has append_missing_distinct append_missing_id
    by blast
qed

theorem append_missing_union_witness:
  "\<exists>added. append_missing [IntegerValue 1] [DoubleValue 0] = [IntegerValue 1] @ added
     \<and> has_equal (append_missing [IntegerValue 1] [DoubleValue 0]) (IntegerValue 1)
     \<and> sorted_wrt (\<lambda>a b. \<not> index_equal a b) (append_missing [IntegerValue 1] [DoubleValue 0])
     \<and> append_missing (append_missing [IntegerValue 1] [DoubleValue 0]) [DoubleValue 0]
        = append_missing [IntegerValue 1] [DoubleValue 0]"
proof -
  have "has_equal [IntegerValue 1] (IntegerValue 1)" "sorted_wrt (\<lambda>a b. \<not> index_equal a b) [IntegerValue 1]"
    by (simp_all add: index_equal_def)
  then show ?thesis using append_missing_union [of "[IntegerValue 1]" "[DoubleValue 0]"] by blast
qed

text \<open>
  Array removal keeps, in order, exactly the elements that compare equal to no operand in
  the value order, so \<open>1\<close> removes \<open>1.0\<close> and NaN removes NaN; removing what a union
  added from an array that had none of it gives the array back.
\<close>

theorem remove_all_exact:
  assumes "list_all storable es" "list_all storable ps"
  shows "remove_all es ps = filter (\<lambda>e. \<forall>p \<in> set ps. compare_values e p \<noteq> Equal) es
    \<and> ((\<forall>e \<in> set es. \<forall>p \<in> set ps. compare_values e p \<noteq> Equal) \<longrightarrow>
         remove_all (append_missing es ps) ps = es)"
proof -
  have f: "(\<not> list_ex (\<lambda>p. index_equal e p) ps) = (\<forall>p \<in> set ps. compare_values e p \<noteq> Equal)"
    if "storable e" for e
    using that assms(2) by (auto simp: list_ex_iff list_all_iff index_equal_compare)
  have eq: "remove_all es ps = filter (\<lambda>e. \<forall>p \<in> set ps. compare_values e p \<noteq> Equal) es"
    unfolding remove_all_def using assms(1) f by (intro filter_cong) (auto simp: list_all_iff)
  obtain added where a: "append_missing es ps = es @ added" "set added \<subseteq> set ps"
    using append_missing_prefix by blast
  have "remove_all added ps = []"
    using a(2) by (auto simp: remove_all_def filter_empty_conv list_ex_iff intro: index_equal_equiv)
  then have "remove_all (append_missing es ps) ps = remove_all es ps"
    unfolding a(1) by (simp add: remove_all_def)
  then show ?thesis using eq by (simp add: filter_id_conv)
qed

theorem remove_all_exact_witness:
  "remove_all [NullValue, BooleanValue True] [NullValue] = [BooleanValue True]"
proof -
  have "compare_values NullValue NullValue = Equal" "compare_values (BooleanValue True) NullValue \<noteq> Equal"
    by (simp_all add: compare_simps compare_other_rank ord_cmp_def less_type_rank_def)
  then show ?thesis using remove_all_exact [of "[NullValue, BooleanValue True]" "[NullValue]"] by simp
qed

section \<open>Server timestamps and version preconditions\<close>

lemma sint_i32_of_int:
  assumes "0 \<le> n" "n < 2 ^ 31"
  shows "sint (word_of_int n :: i32) = n"
  unfolding sint_sbintrunc' by (rule signed_take_bit_int_eq_self) (use assms in auto)

lemma trunc_div_nonneg: "0 \<le> a \<Longrightarrow> 0 < b \<Longrightarrow> trunc_div a b = a div b"
  by (cases "a = 0") (auto simp: trunc_div_def)

text \<open>
  The server timestamp of a commit is the commit time exactly: valid nanoseconds, and a
  client that sends it back as an \<open>update_time\<close> precondition passes it iff the document
  still has that version; the arithmetic does not overflow for any 64-bit commit time.
\<close>

theorem server_timestamp_roundtrip:
  "\<exists>seconds nanos. server_timestamp now_us = TimestampValue seconds nanos \<and> nanos_ok nanos
    \<and> sint seconds * 1000000 + trunc_div (sint nanos) 1000 = sint now_us
    \<and> expected_update_us seconds nanos = now_us"
proof -
  let ?n = "sint now_us"
  have r: "in_i64 ?n" by (rule sint_i64_range)
  have "in_i64 (?n div 1000000)" using r by (auto simp: in_i64_def)
  then have s: "sint (word_of_int (?n div 1000000) :: i64) = ?n div 1000000" by (rule sint_word_of_int_i64)
  have m: "0 \<le> ?n mod 1000000" "?n mod 1000000 < 1000000" by simp_all
  have n: "sint (word_of_int (?n mod 1000000 * 1000) :: i32) = ?n mod 1000000 * 1000"
  proof (rule sint_i32_of_int)
    have "(2 :: int) ^ 31 = 2147483648" by simp
    then show "?n mod 1000000 * 1000 < 2 ^ 31" using m by linarith
  qed (use m in simp)
  have t: "trunc_div (?n mod 1000000 * 1000) 1000 = ?n mod 1000000"
    using m by (simp add: trunc_div_nonneg)
  have sum: "?n div 1000000 * 1000000 + ?n mod 1000000 = ?n" by simp
  have "expected_update_us (word_of_int (?n div 1000000)) (word_of_int (?n mod 1000000 * 1000))
      = word_of_int (?n div 1000000 * 1000000 + ?n mod 1000000)"
    unfolding expected_update_us_def n t by (simp only: of_int_add of_int_mult of_int_numeral)
  also have "\<dots> = now_us" unfolding sum by simp
  finally have e: "expected_update_us (word_of_int (?n div 1000000)) (word_of_int (?n mod 1000000 * 1000)) = now_us" .
  have "nanos_ok (word_of_int (?n mod 1000000 * 1000))"
    unfolding nanos_ok_def n using m by linarith
  then show ?thesis unfolding server_timestamp_def using s n t e sum by auto
qed

section \<open>Masks\<close>

lemma merge_field_copy: "merge_field = field_ops.copy"
  by (intro ext) (simp add: merge_field_def field_ops.copy_def)

text \<open>
  C22. An update with a mask of pairwise disjoint paths (and no transforms) makes every masked
  path read as in the update document, whether it sets or deletes it, leaves every path disjoint
  from the mask as it was, keeps the create time and stamps the commit time.
\<close>

theorem masked_update:
  assumes "sorted_wrt disjoint_paths paths"
    and "update_mask w = Some paths" "update_transforms w = []"
    and "current st = Some (create, update, fs)"
    and "apply_write w (Update doc) st now_us = Inr (outcome, st')"
  shows "\<exists>fs'. current st' = Some (create, now_us, fs') \<and> dirty st'
    \<and> (\<forall>p \<in> set paths. get_field fs' p = get_field (doc_fields doc) p)
    \<and> (\<forall>q. (\<forall>p \<in> set paths. disjoint_paths p q) \<longrightarrow> get_field fs' q = get_field fs q)"
proof -
  have st': "current st' = Some (create, now_us, merge_mask (doc_fields doc) paths fs)" "dirty st'"
    using assms(2-5) by (auto simp: apply_write_def Let_def split: sum.splits)
  show ?thesis
    using st' field_ops.get_fold_copy [OF assms(1)] field_ops.get_fold_disj
    by (simp add: merge_mask_def merge_field_copy)
qed

definition sample_write :: write_req where
  "sample_write = \<lparr>operation = Some (Update \<lparr>doc_name = ''x'', doc_fields = [(''a'', NullValue)]\<rparr>),
     update_mask = Some [''a'', ''b''], update_transforms = [], current_document = None\<rparr>"

definition sample_state :: doc_state where
  "sample_state = \<lparr>current = Some (1, 2, [(''b'', BooleanValue True), (''c'', NullValue)]),
     before = None, dirty = False\<rparr>"

theorem masked_update_witness:
  "\<exists>outcome st' fs'. apply_write sample_write (Update \<lparr>doc_name = ''x'', doc_fields = [(''a'', NullValue)]\<rparr>)
      sample_state 9 = Inr (outcome, st')
    \<and> current st' = Some (1, 9, fs') \<and> dirty st'
    \<and> get_field fs' ''b'' = None \<and> get_field fs' ''c'' = Some NullValue"
proof -
  let ?doc = "\<lparr>doc_name = ''x'', doc_fields = [(''a'', NullValue)]\<rparr>"
  have sp: "split_path ''a'' = [''a'']" "split_path ''b'' = [''b'']" "split_path ''c'' = [''c'']"
    by (simp_all add: split_path_def)
  obtain o' st' where r: "apply_write sample_write (Update ?doc) sample_state 9 = Inr (o', st')"
    by (simp add: apply_write_def check_precondition_def sample_write_def sample_state_def Let_def)
  have d: "sorted_wrt disjoint_paths [''a'', ''b'']" "\<forall>p \<in> set [''a'', ''b'']. disjoint_paths p ''c''"
    by (auto simp: disjoint_paths_def sp disjoint_segments_def)
  have "\<exists>fs'. current st' = Some (1, 9, fs') \<and> dirty st'
    \<and> (\<forall>p \<in> set [''a'', ''b'']. get_field fs' p = get_field (doc_fields ?doc) p)
    \<and> (\<forall>q. (\<forall>p \<in> set [''a'', ''b'']. disjoint_paths p q) \<longrightarrow>
         get_field fs' q = get_field [(''b'', BooleanValue True), (''c'', NullValue)] q)"
    by (rule masked_update [OF d(1) _ _ _ r]) (simp_all add: sample_write_def sample_state_def)
  then obtain fs' where "current st' = Some (1, 9, fs')" "dirty st'"
      "get_field fs' ''b'' = get_field (doc_fields ?doc) ''b''"
      "get_field fs' ''c'' = get_field [(''b'', BooleanValue True), (''c'', NullValue)] ''c''"
    using d(2) by auto
  then show ?thesis using r by (auto simp: get_field_def sp)
qed

end
