(* ===== verification/CommitBatch.thy ===== *)
theory CommitBatch
  imports CommitProps
begin

text \<open>
  A batch of writes as one transaction attempt applies it: on each document its effect is that
  of the batch's writes to that document, in order, from the stored state; what is dirty is
  persisted once, and a batch that fails a check has written nothing.
\<close>

section \<open>Targets\<close>

lemma parse_name_wf: "parse_name n = Inr r \<Longrightarrow> path_wf (rn_path r)"
  by (auto simp: parse_name_def path_wf_def split: sum.splits if_splits option.splits dest: parse_path_Inr [THEN conjunct1])
    (auto simp: path_wf_def dest!: parse_path_Inr)

lemma write_target_wf: "write_target db w = Inr p \<Longrightarrow> path_wf p \<and> is_document p"
  by (auto simp: write_target_def parse_document_def Let_def split: option.splits sum.splits if_splits
      dest: parse_name_wf)

definition target_key :: "database_name \<Rightarrow> write_req \<Rightarrow> string option" where
  "target_key db w = (case write_target db w of Inl _ \<Rightarrow> None | Inr p \<Rightarrow> Some (show_path p))"

lemma target_key_Some: "target_key db w = Some k \<longleftrightarrow> (\<exists>p. write_target db w = Inr p \<and> show_path p = k)"
  by (auto simp: target_key_def split: sum.splits)

section \<open>The abstract effect on one document\<close>

text \<open>The writes of the batch that target \<open>k\<close>, in order, on its state.\<close>

fun run_target :: "database_name \<Rightarrow> i64 \<Rightarrow> string \<Rightarrow> write_req list \<Rightarrow> doc_state \<Rightarrow> engine_error + doc_state" where
  "run_target db now_us k [] st = Inr st"
| "run_target db now_us k (w # ws) st =
     (if target_key db w = Some k
      then case apply_write w (the (operation w)) st now_us of
             Inl e \<Rightarrow> Inl e
           | Inr (_, st') \<Rightarrow> run_target db now_us k ws st'
      else run_target db now_us k ws st)"

lemma apply_write_before: "apply_write w op st now_us = Inr (oc, st') \<Longrightarrow> before st' = before st"
  by (auto simp: apply_write_def Let_def split: sum.splits operation.splits option.splits)

lemma run_target_before: "run_target db now_us k ws st = Inr st' \<Longrightarrow> before st' = before st"
  by (induction ws arbitrary: st) (auto split: if_splits sum.splits dest: apply_write_before)

lemma apply_writes_run:
  assumes "apply_writes db now_us ws states = Inr (os, states')" "hm_get states k = Some st"
  shows "\<exists>st'. hm_get states' k = Some st' \<and> run_target db now_us k ws st = Inr st'"
  using assms
proof (induction ws arbitrary: states st os)
  case (Cons w ws)
  obtain path where t: "write_target db w = Inr path"
    using Cons.prems(1) by (auto split: sum.splits)
  obtain oc st1 os' where a: "apply_write w (the (operation w)) (the (hm_get states (show_path path))) now_us = Inr (oc, st1)"
      "apply_writes db now_us ws (hm_insert (show_path path) st1 states) = Inr (os', states')"
    using Cons.prems(1) t by (auto split: sum.splits)
  show ?case
  proof (cases "show_path path = k")
    case True
    then show ?thesis
      using Cons.IH [OF a(2), of st1] Cons.prems(2) a(1) t by (simp add: hm_get_insert target_key_def)
  next
    case False
    then show ?thesis
      using Cons.IH [OF a(2), of st] Cons.prems(2) t by (simp add: hm_get_insert target_key_def)
  qed
qed simp

lemma apply_writes_length: "apply_writes db now_us ws states = Inr (os, states') \<Longrightarrow> length os = length ws"
  by (induction ws arbitrary: states os) (auto split: sum.splits prod.splits)

lemma apply_writes_targets:
  "apply_writes db now_us ws states = Inr (os, states') \<Longrightarrow> w \<in> set ws \<Longrightarrow> target_key db w \<noteq> None"
  by (induction ws arbitrary: states os) (auto simp: target_key_def split: sum.splits prod.splits)

section \<open>Loading\<close>

definition initial_state :: "(engine_error + stored_document) option \<Rightarrow> doc_state \<Rightarrow> bool" where
  "initial_state stored st \<longleftrightarrow> \<not> dirty st \<and>
     (case stored of
        None \<Rightarrow> current st = None \<and> before st = None
      | Some r \<Rightarrow> \<exists>d. r = Inr d \<and> before st = Some d
          \<and> current st = Some (create_time_us d, update_time_us d, sd_fields d))"

lemma map_sum_Inr: "map_sum id Some r = Inr l \<Longrightarrow> \<exists>d. r = Inr d \<and> l = Some d"
  by (cases r) auto

lemma get_document_effect:
  assumes "mongo_laws rows mg" "get_document mg cd db path s = (r, s')"
  shows "rows s' = rows s"
    "r = Inr loaded \<Longrightarrow> stored_at cd rows s db path = map_option Inr loaded"
proof -
  obtain q t where q: "find_one mg s (collection_name db) (show_path path) = (q, t)" by force
  note f = mongo_laws_find [OF assms(1) q]
  have "s' = t" using assms(2) q by (auto simp: get_document_def split: sum.splits option.splits)
  then show "rows s' = rows s" using f by simp
  show "stored_at cd rows s db path = map_option Inr loaded" if "r = Inr loaded"
    using assms(2) q f that
    by (auto simp: get_document_def stored_at_def split: sum.splits option.splits dest!: map_sum_Inr)
qed

lemma load_states_effect:
  assumes "mongo_laws rows mg"
  shows "load_states mg cd db ws states s = (r, s') \<Longrightarrow> rows s' = rows s"
proof (induction ws arbitrary: states s)
  case (Cons w ws)
  show ?case
  proof (cases "write_target db w")
    case (Inr path)
    show ?thesis
    proof (cases "hm_get states (show_path path)")
      case None
      obtain q t where q: "get_document mg cd db path s = (q, t)" by force
      note e = get_document_effect(1) [OF assms q]
      show ?thesis using Cons.prems Inr None q Cons.IH [of _ t] e
        by (cases q) (auto simp: Let_def)
    qed (use Cons Inr in auto)
  qed (use Cons in auto)
qed simp

text \<open>The loaded states: every target has one, and each is the stored state of its path.\<close>

definition states_loaded ::
  "codec \<Rightarrow> (string \<Rightarrow> string \<Rightarrow> doc_row option) \<Rightarrow> database_name \<Rightarrow> (string \<times> doc_state) list \<Rightarrow> bool" where
  "states_loaded cd table db states \<longleftrightarrow>
     (\<forall>p st. path_wf p \<longrightarrow> hm_get states (show_path p) = Some st \<longrightarrow>
        initial_state (stored_at cd (\<lambda>_. table) () db p) st)"

lemma stored_at_rows: "stored_at cd rows s db p = stored_at cd (\<lambda>_. rows s) () db p"
  by (simp add: stored_at_def)

lemma load_states_loaded:
  assumes "mongo_laws rows mg"
  shows "load_states mg cd db ws states s = (Inr states', s') \<Longrightarrow> states_loaded cd (rows s) db states \<Longrightarrow>
    states_loaded cd (rows s) db states'
    \<and> (\<forall>w \<in> set ws. \<exists>k st. target_key db w = Some k \<and> hm_get states' k = Some st)
    \<and> (\<forall>k st. hm_get states k = Some st \<longrightarrow> hm_get states' k = Some st)"
proof (induction ws arbitrary: states s)
  case (Cons w ws)
  obtain path where t: "write_target db w = Inr path"
    using Cons.prems(1) by (auto split: sum.splits)
  note wf = write_target_wf [OF t]
  show ?case
  proof (cases "hm_get states (show_path path)")
    case (Some st)
    then show ?thesis using Cons.IH [of states s] Cons.prems t by (auto simp: target_key_def)
  next
    case None
    obtain q s1 where q: "get_document mg cd db path s = (q, s1)" by force
    then obtain loaded where l: "q = Inr loaded" using Cons.prems(1) t None by (cases q) auto
    define st where "st = \<lparr>current = map_option (\<lambda>d. (create_time_us d, update_time_us d, sd_fields d)) loaded,
        before = loaded, dirty = False\<rparr>"
    note e = get_document_effect [OF assms q]
    have init: "initial_state (stored_at cd (\<lambda>_. rows s) () db path) st"
      using e(2) [OF l] by (cases loaded) (auto simp: initial_state_def st_def stored_at_rows [of cd rows])
    have next1: "load_states mg cd db ws (hm_insert (show_path path) st states) s1 = (Inr states', s')"
      using Cons.prems(1) t None q l by (simp add: Let_def st_def)
    have "states_loaded cd (rows s1) db (hm_insert (show_path path) st states)"
      using Cons.prems(2) init wf show_path_inject
      by (auto simp: states_loaded_def hm_get_insert e(1))
    note ih = Cons.IH [OF next1 this]
    have new: "hm_get (hm_insert (show_path path) st states) k = Some x" if "hm_get states k = Some x" for k x
      using None that by (auto simp: hm_get_insert)
    have "target_key db w = Some (show_path path)" using t by (simp add: target_key_def)
    moreover have "hm_get states' (show_path path) = Some st" using ih by (auto simp: hm_get_insert)
    ultimately show ?thesis using ih new by (auto simp: e(1))
  qed
qed simp

section \<open>Persisting\<close>

text \<open>
  \<open>persisted cd rows rows' now db p st\<close>: the row of \<open>p\<close> in \<open>rows'\<close> holds the state
  \<open>st\<close>, written at \<open>now\<close> over what \<open>rows\<close> had.
\<close>

definition persisted ::
  "codec \<Rightarrow> (string \<Rightarrow> string \<Rightarrow> doc_row option) \<Rightarrow> (string \<Rightarrow> string \<Rightarrow> doc_row option) \<Rightarrow> i64
     \<Rightarrow> database_name \<Rightarrow> resource_path \<Rightarrow> doc_state \<Rightarrow> bool" where
  "persisted cd old new now_us db p st \<longleftrightarrow>
     (case current st of
        None \<Rightarrow> new (collection_name db) (show_path p) = None
      | Some (_, _, fs) \<Rightarrow> \<exists>d. stored_at cd (\<lambda>_. new) () db p = Some (Inr d)
          \<and> sd_path d = p \<and> sd_fields d = fs \<and> update_time_us d = now_us
          \<and> create_time_us d = (case old (collection_name db) (show_path p) of
              Some row \<Rightarrow> row_create_time_us row | None \<Rightarrow> now_us))"

lemma persist_step:
  assumes "mongo_laws rows mg" "codec_law cd" "path_wf path"
  shows "set_document mg cd db path fs now_us s = (Inr d, s') \<Longrightarrow> current st = Some (c, u, fs) \<Longrightarrow>
      persisted cd (rows s) (rows s') now_us db path st
      \<and> (\<forall>k. k \<noteq> show_path path \<longrightarrow> rows s' (collection_name db) k = rows s (collection_name db) k)"
    "delete_document mg db path s = (Inr b, s') \<Longrightarrow> current st = None \<Longrightarrow>
      persisted cd (rows s) (rows s') now_us db path st
      \<and> (\<forall>k. k \<noteq> show_path path \<longrightarrow> rows s' (collection_name db) k = rows s (collection_name db) k)"
proof -
  assume "set_document mg cd db path fs now_us s = (Inr d, s')" "current st = Some (c, u, fs)"
  then show "persisted cd (rows s) (rows s') now_us db path st
      \<and> (\<forall>k. k \<noteq> show_path path \<longrightarrow> rows s' (collection_name db) k = rows s (collection_name db) k)"
    using set_document_effect [OF assms, of db fs now_us s "Inr d" s']
    by (simp add: persisted_def stored_at_rows [of cd rows])
next
  assume d: "delete_document mg db path s = (Inr b, s')" "current st = None"
  obtain q t where q: "delete_one mg s (collection_name db) (show_path path) = (q, t)" by force
  then obtain n where n: "q = Inr n" "t = s'" using d(1) by (cases q) (auto simp: delete_document_def)
  show "persisted cd (rows s) (rows s') now_us db path st
      \<and> (\<forall>k. k \<noteq> show_path path \<longrightarrow> rows s' (collection_name db) k = rows s (collection_name db) k)"
    using mongo_laws_delete [OF assms(1) q [unfolded n]] d(2) by (simp add: persisted_def)
qed

text \<open>
  One step of the persist loop, whichever branch it takes: nothing for a clean state; for a
  dirty one a row write, the rest of the loop with the state clean, and a delta in front.
\<close>

lemma persist_Cons_cases:
  assumes "mongo_laws rows mg" "codec_law cd"
    and "persist_states mg cd db now_us (w # ws) states s = (Inr ds, s')"
    and "write_target db w = Inr path" "hm_get states (show_path path) = Some st"
  obtains (clean) "\<not> dirty st" "persist_states mg cd db now_us ws states s = (Inr ds, s')"
  | (dirty) s1 dl ds' where "dirty st" "ds = dl # ds'" "dd_path dl = path" "dd_before dl = before st"
      "persist_states mg cd db now_us ws (hm_insert (show_path path) (st\<lparr>dirty := False\<rparr>) states) s1 = (Inr ds', s')"
      "persisted cd (rows s) (rows s1) now_us db path st"
      "\<forall>k. k \<noteq> show_path path \<longrightarrow> rows s1 (collection_name db) k = rows s (collection_name db) k"
      "stored_at cd rows s1 db path = map_option Inr (dd_after dl)"
proof (cases "dirty st")
  case False
  then show ?thesis using assms(3-5) by (intro clean) (simp_all add: Let_def)
next
  case True
  have wf: "path_wf path" using write_target_wf [OF assms(4)] by simp
  let ?sts = "hm_insert (show_path path) (st\<lparr>dirty := False\<rparr>) states"
  show ?thesis
  proof (cases "current st")
    case None
    obtain q s1 where q: "delete_document mg db path s = (q, s1)" by force
    then obtain b where b: "q = Inr b"
      using assms(3-5) True None by (cases q) (auto simp: Let_def)
    obtain r s2 where r: "persist_states mg cd db now_us ws ?sts s1 = (r, s2)" by force
    then obtain ds' where "r = Inr ds'" "s2 = s'" "ds = \<lparr>dd_path = path, dd_before = before st, dd_after = None\<rparr> # ds'"
      using assms(3-5) True None q b by (cases r) (auto simp: Let_def)
    moreover have "stored_at cd rows s1 db path = None"
      using persist_step(2) [OF assms(1,2) wf q [unfolded b] None, of now_us] None by (simp add: persisted_def stored_at_def)
    ultimately show ?thesis
      using True r persist_step(2) [OF assms(1,2) wf q [unfolded b] None, of now_us]
      by (intro dirty [of "\<lparr>dd_path = path, dd_before = before st, dd_after = None\<rparr>" ds' s1]) simp_all
  next
    case (Some cur)
    then obtain c u fs where cur: "current st = Some (c, u, fs)" by (cases cur) auto
    obtain q s1 where q: "set_document mg cd db path fs now_us s = (q, s1)" by force
    then obtain d where d: "q = Inr d"
      using assms(3-5) True cur by (cases q) (auto simp: Let_def)
    obtain r s2 where r: "persist_states mg cd db now_us ws ?sts s1 = (r, s2)" by force
    then obtain ds' where "r = Inr ds'" "s2 = s'" "ds = \<lparr>dd_path = path, dd_before = before st, dd_after = Some d\<rparr> # ds'"
      using assms(3-5) True cur q d by (cases r) (auto simp: Let_def)
    moreover have "stored_at cd rows s1 db path = Some (Inr d)"
      using set_document_effect [OF assms(1,2) wf q] d by simp
    ultimately show ?thesis
      using True r persist_step(1) [OF assms(1,2) wf q [unfolded d] cur]
      by (intro dirty [of "\<lparr>dd_path = path, dd_before = before st, dd_after = Some d\<rparr>" ds' s1]) simp_all
  qed
qed

lemma persisted_cong:
  "new (collection_name db) (show_path p) = new' (collection_name db) (show_path p) \<Longrightarrow>
   old (collection_name db) (show_path p) = old' (collection_name db) (show_path p) \<Longrightarrow>
   persisted cd old new now_us db p st = persisted cd old' new' now_us db p st"
  by (simp only: persisted_def stored_at_def)

definition all_loaded :: "database_name \<Rightarrow> write_req list \<Rightarrow> (string \<times> doc_state) list \<Rightarrow> bool" where
  "all_loaded db ws states \<longleftrightarrow> (\<forall>w \<in> set ws. \<exists>k. target_key db w = Some k \<and> hm_get states k \<noteq> None)"

lemma all_loaded_insert: "all_loaded db ws states \<Longrightarrow> all_loaded db ws (hm_insert k st states)"
  unfolding all_loaded_def by (metis hm_get_insert option.distinct(1))

lemma all_loaded_Cons: "all_loaded db (w # ws) states \<Longrightarrow> all_loaded db ws states"
  by (simp add: all_loaded_def)

definition targeted :: "database_name \<Rightarrow> write_req list \<Rightarrow> string \<Rightarrow> bool" where
  "targeted db ws k \<longleftrightarrow> (\<exists>w \<in> set ws. target_key db w = Some k)"

lemma persist_states_effect:
  assumes "mongo_laws rows mg" "codec_law cd"
  shows "persist_states mg cd db now_us ws states s = (Inr ds, s') \<Longrightarrow>
    all_loaded db ws states \<Longrightarrow>
    path_wf p \<Longrightarrow> hm_get states (show_path p) = Some st \<Longrightarrow>
    (if targeted db ws (show_path p) \<and> dirty st
     then persisted cd (rows s) (rows s') now_us db p st
       \<and> (\<exists>dl \<in> set ds. dd_path dl = p \<and> dd_before dl = before st)
     else rows s' (collection_name db) (show_path p) = rows s (collection_name db) (show_path p)
       \<and> (\<forall>dl \<in> set ds. dd_path dl \<noteq> p))"
proof (induction ws arbitrary: states s ds st)
  case (Cons w ws)
  obtain path where t: "write_target db w = Inr path"
    using Cons.prems(1) by (auto split: sum.splits)
  then obtain stw where stw: "hm_get states (show_path path) = Some stw"
    using Cons.prems(2) by (auto simp: target_key_def all_loaded_def)
  have tk: "targeted db (w # ws) k \<longleftrightarrow> k = show_path path \<or> targeted db ws k" for k
    using t by (auto simp: targeted_def target_key_def)
  have wf: "path_wf path" using write_target_wf [OF t] by simp
  have inj: "show_path p = show_path path \<longleftrightarrow> p = path" using Cons.prems(3) wf show_path_inject by blast
  from assms Cons.prems(1) t stw show ?case
  proof (cases rule: persist_Cons_cases)
    case clean
    from Cons.IH [OF clean(2) all_loaded_Cons [OF Cons.prems(2)] Cons.prems(3,4)] show ?thesis
      using clean(1) stw Cons.prems(4) by (auto simp: tk inj)
  next
    case (dirty s1 dl ds')
    let ?sts = "hm_insert (show_path path) (stw\<lparr>dirty := False\<rparr>) states"
    note dom = all_loaded_insert [OF all_loaded_Cons [OF Cons.prems(2)]]
    show ?thesis
    proof (cases "p = path")
      case True
      then have "st = stw" using stw Cons.prems(4) by simp
      have "hm_get ?sts (show_path p) = Some (stw\<lparr>dirty := False\<rparr>)" using True by (simp add: hm_get_insert)
      from Cons.IH [OF dirty(5) dom Cons.prems(3) this]
      have same: "rows s' (collection_name db) (show_path p) = rows s1 (collection_name db) (show_path p)" by simp
      have "persisted cd (rows s) (rows s') now_us db p st"
        using dirty(6) True \<open>st = stw\<close> persisted_cong [of "rows s'" db p "rows s1" "rows s" "rows s"] same by simp
      then show ?thesis using True dirty \<open>st = stw\<close> by (simp add: tk)
    next
      case False
      then have "hm_get ?sts (show_path p) = Some st" using inj Cons.prems(4) by (simp add: hm_get_insert)
      note ih = Cons.IH [OF dirty(5) dom Cons.prems(3) this]
      have same: "rows s1 (collection_name db) (show_path p) = rows s (collection_name db) (show_path p)"
        using dirty(7) inj False by simp
      show ?thesis
        using ih False dirty(2,3) inj same persisted_cong [of "rows s'" db p "rows s'" "rows s1" "rows s"]
        by (auto simp: tk)
    qed
  qed
qed (simp add: targeted_def)

lemma persist_states_distinct:
  assumes "mongo_laws rows mg" "codec_law cd"
  shows "persist_states mg cd db now_us ws states s = (Inr ds, s') \<Longrightarrow>
    all_loaded db ws states \<Longrightarrow>
    distinct (map dd_path ds)"
proof (induction ws arbitrary: states s ds)
  case (Cons w ws)
  obtain path where t: "write_target db w = Inr path"
    using Cons.prems(1) by (auto split: sum.splits)
  then obtain stw where stw: "hm_get states (show_path path) = Some stw"
    using Cons.prems(2) by (auto simp: target_key_def all_loaded_def)
  from assms Cons.prems(1) t stw show ?case
  proof (cases rule: persist_Cons_cases)
    case clean
    then show ?thesis using Cons.IH all_loaded_Cons [OF Cons.prems(2)] by auto
  next
    case (dirty s1 dl ds')
    let ?sts = "hm_insert (show_path path) (stw\<lparr>dirty := False\<rparr>) states"
    note dom = all_loaded_insert [OF all_loaded_Cons [OF Cons.prems(2)]]
    have "hm_get ?sts (show_path path) = Some (stw\<lparr>dirty := False\<rparr>)" by (simp add: hm_get_insert)
    from persist_states_effect [OF assms dirty(5) dom _ this] write_target_wf [OF t]
    have "\<forall>dl \<in> set ds'. dd_path dl \<noteq> path" by simp
    then show ?thesis using Cons.IH [OF dirty(5) dom] dirty(2,3) by auto
  qed
qed simp

text \<open>A delta shows the document as the loop leaves it.\<close>

lemma persist_states_deltas:
  assumes "mongo_laws rows mg" "codec_law cd"
  shows "persist_states mg cd db now_us ws states s = (Inr ds, s') \<Longrightarrow> all_loaded db ws states \<Longrightarrow> dl \<in> set ds \<Longrightarrow>
    path_wf (dd_path dl) \<and> stored_at cd rows s' db (dd_path dl) = map_option Inr (dd_after dl)"
proof (induction ws arbitrary: states s ds)
  case (Cons w ws)
  obtain path where t: "write_target db w = Inr path"
    using Cons.prems(1) by (auto split: sum.splits)
  then obtain stw where stw: "hm_get states (show_path path) = Some stw"
    using Cons.prems(2) by (auto simp: target_key_def all_loaded_def)
  from assms Cons.prems(1) t stw show ?case
  proof (cases rule: persist_Cons_cases)
    case clean
    then show ?thesis using Cons.IH all_loaded_Cons [OF Cons.prems(2)] Cons.prems(3) by blast
  next
    case (dirty s1 dl' ds')
    let ?sts = "hm_insert (show_path path) (stw\<lparr>dirty := False\<rparr>) states"
    note dom = all_loaded_insert [OF all_loaded_Cons [OF Cons.prems(2)]]
    have "hm_get ?sts (show_path path) = Some (stw\<lparr>dirty := False\<rparr>)" by (simp add: hm_get_insert)
    from persist_states_effect [OF assms dirty(5) dom _ this] write_target_wf [OF t]
    have "rows s' (collection_name db) (show_path path) = rows s1 (collection_name db) (show_path path)" by simp
    then show ?thesis
      using Cons.IH [OF dirty(5) dom] Cons.prems(3) dirty(2,3,8) write_target_wf [OF t] by (auto simp: stored_at_def)
  qed
qed simp

section \<open>The whole attempt\<close>

lemma load_all_loaded:
  assumes "mongo_laws rows mg" "load_states mg cd db ws [] s = (Inr states, s')"
  shows "all_loaded db ws states" "states_loaded cd (rows s) db states" "rows s' = rows s"
proof -
  have "states_loaded cd (rows s) db []" by (simp add: states_loaded_def)
  note l = load_states_loaded [OF assms this]
  show "all_loaded db ws states" using l by (fastforce simp: all_loaded_def)
  show "states_loaded cd (rows s) db states" using l by simp
  show "rows s' = rows s" by (rule load_states_effect [OF assms])
qed

lemma apply_in_transaction_cases:
  assumes "apply_in_transaction mg cd inst db ws now_us s = (Inr applied, s')"
  obtains states s1 states' s2 where "load_states mg cd db ws [] s = (Inr states, s1)"
    "apply_writes db now_us ws states = Inr (outcomes applied, states')"
    "persist_states mg cd db now_us ws states' s1 = (Inr (changes applied), s2)"
    "(changes applied = [] \<and> s' = s2)
     \<or> append_commit_notice mg inst db now_us (map (\<lambda>d. show_path (dd_path d)) (changes applied)) s2 = (Inr (), s')"
proof -
  obtain l s1 where l: "load_states mg cd db ws [] s = (l, s1)" by force
  then obtain states where l': "l = Inr states" using assms by (cases l) (auto simp: apply_in_transaction_def)
  obtain os states' where a: "apply_writes db now_us ws states = Inr (os, states')"
    using assms l l' by (cases "apply_writes db now_us ws states") (auto simp: apply_in_transaction_def)
  obtain q s2 where q: "persist_states mg cd db now_us ws states' s1 = (q, s2)" by force
  then obtain ds where ds: "q = Inr ds" using assms l l' a by (cases q) (auto simp: apply_in_transaction_def)
  have "outcomes applied = os \<and> changes applied = ds \<and> ((ds = [] \<and> s' = s2)
     \<or> append_commit_notice mg inst db now_us (map (\<lambda>d. show_path (dd_path d)) ds) s2 = (Inr (), s'))"
    using assms l l' a q ds
    by (auto simp: apply_in_transaction_def Let_def split: if_splits sum.splits prod.splits)
  then show ?thesis using that l l' a q ds by auto
qed

section \<open>Properties\<close>

text \<open>
  C2. A committed batch refines the in-order effect of its writes on each document: the writes
  that target a path, run in order from the stored state, all succeed; if they left it dirty the
  stored document is the state they produced (its create time that of the replaced row), else
  it is untouched; there is one outcome per write, and one delta for each persisted path, with
  the stored state before the commit and the document stored after it.
\<close>

theorem batch_refines_writes_in_order:
  assumes "mongo_laws rows mg" "codec_law cd" "path_wf p" "targeted db ws (show_path p)"
    and "apply_in_transaction mg cd inst db ws now_us s = (Inr applied, s')"
  shows "\<exists>st st'. initial_state (stored_at cd rows s db p) st
    \<and> run_target db now_us (show_path p) ws st = Inr st'
    \<and> (if dirty st' then persisted cd (rows s) (rows s') now_us db p st'
         \<and> (\<exists>dl \<in> set (changes applied). dd_path dl = p \<and> dd_before dl = before st
              \<and> stored_at cd rows s' db p = map_option Inr (dd_after dl))
       else rows s' (collection_name db) (show_path p) = rows s (collection_name db) (show_path p)
         \<and> p \<notin> set (map dd_path (changes applied)))
    \<and> length (outcomes applied) = length ws \<and> distinct (map dd_path (changes applied))"
proof -
  obtain states s1 states' s2 where
    load: "load_states mg cd db ws [] s = (Inr states, s1)" and
    app: "apply_writes db now_us ws states = Inr (outcomes applied, states')" and
    per: "persist_states mg cd db now_us ws states' s1 = (Inr (changes applied), s2)" and
    fin: "(changes applied = [] \<and> s' = s2)
     \<or> append_commit_notice mg inst db now_us (map (\<lambda>d. show_path (dd_path d)) (changes applied)) s2 = (Inr (), s')"
    using apply_in_transaction_cases [OF assms(5)] by blast
  note l = load_all_loaded [OF assms(1) load]
  obtain st where st: "hm_get states (show_path p) = Some st"
    using l(1) assms(4) by (auto simp: all_loaded_def targeted_def)
  obtain st' where st': "hm_get states' (show_path p) = Some st'" "run_target db now_us (show_path p) ws st = Inr st'"
    using apply_writes_run [OF app st] by blast
  have all': "all_loaded db ws states'"
    using l(1) apply_writes_run [OF app] unfolding all_loaded_def by (metis not_Some_eq)
  have rows': "rows s' = rows s2"
    using fin mongo_laws_notice [OF assms(1)] by (auto simp: append_commit_notice_def)
  note e = persist_states_effect [OF assms(1,2) per all' assms(3) st'(1), unfolded l(3)]
  have "initial_state (stored_at cd rows s db p) st"
    using l(2) st assms(3) by (auto simp: states_loaded_def stored_at_rows [of cd rows])
  then show ?thesis
    using st'(2) e assms(4) rows' run_target_before [OF st'(2)] apply_writes_length [OF app]
      persist_states_distinct [OF assms(1,2) per all'] persist_states_deltas [OF assms(1,2) per all']
    by (intro exI [of _ st] exI [of _ st']) (auto simp: stored_at_def split: if_splits)
qed

text \<open>What the changes of a batch say of the rows it leaves.\<close>

lemma apply_in_transaction_deltas:
  assumes "mongo_laws rows mg" "codec_law cd"
    and "apply_in_transaction mg cd inst db ws now_us s = (Inr applied, s')" "dl \<in> set (changes applied)"
  shows "path_wf (dd_path dl) \<and> stored_at cd rows s' db (dd_path dl) = map_option Inr (dd_after dl)"
proof -
  obtain states s1 states' s2 where
    load: "load_states mg cd db ws [] s = (Inr states, s1)" and
    app: "apply_writes db now_us ws states = Inr (outcomes applied, states')" and
    per: "persist_states mg cd db now_us ws states' s1 = (Inr (changes applied), s2)" and
    fin: "(changes applied = [] \<and> s' = s2)
     \<or> append_commit_notice mg inst db now_us (map (\<lambda>d. show_path (dd_path d)) (changes applied)) s2 = (Inr (), s')"
    using apply_in_transaction_cases [OF assms(3)] by blast
  have "all_loaded db ws states'"
    using load_all_loaded(1) [OF assms(1) load] apply_writes_run [OF app] unfolding all_loaded_def by (metis not_Some_eq)
  moreover have "rows s' = rows s2"
    using fin mongo_laws_notice [OF assms(1)] by (auto simp: append_commit_notice_def)
  ultimately show ?thesis using persist_states_deltas [OF assms(1,2) per _ assms(4)] by (simp add: stored_at_def)
qed

definition sample_db :: database_name where
  "sample_db = \<lparr>project_id = ''p'', database_id = ''d''\<rparr>"

definition sample_batch :: "write_req list" where
  "sample_batch = [\<lparr>operation = Some (Update \<lparr>doc_name = ''projects/p/databases/d/documents/c/x'',
       doc_fields = [(''a'', NullValue)]\<rparr>),
     update_mask = None, update_transforms = [], current_document = Some (Some (Exists False))\<rparr>]"

lemma sample_target:
  "write_target sample_db (hd sample_batch) = Inr [''c'', ''x'']" "show_path [''c'', ''x''] = ''c/x''"
  by (simp_all add: write_target_def sample_batch_def sample_db_def parse_document_def parse_name_def
      parse_prefix_def parse_path_def from_segments_def validate_segment_def is_document_def show_path_def
      Let_def)

lemma sample_runs_on:
  assumes "\<And>c i. find_one mg s c i = (Inr None, s)"
    and "\<And>c i u now_us. \<exists>s1. find_one_and_update mg s c i u now_us = (Inr \<lparr>row_id = i, row_create_time_us = now_us, row_set = u\<rparr>, s1)"
    and "\<And>s n. \<exists>s1. insert_notice mg s n = (Inr (), s1)"
  shows "\<exists>applied s'. apply_in_transaction mg numbering_codec ''i'' sample_db sample_batch 5 s = (Inr applied, s')
    \<and> changes applied \<noteq> []"
proof -
  define w where "w = hd sample_batch"
  have b: "sample_batch = [w]" by (simp add: sample_batch_def w_def)
  have t: "write_target sample_db w = Inr [''c'', ''x'']" using sample_target(1) by (simp add: w_def)
  have wf: "path_wf [''c'', ''x'']" by (simp add: path_wf_def)
  let ?k = "show_path [''c'', ''x'']"
  have load: "load_states mg numbering_codec sample_db [w] [] s =
      (Inr [(?k, \<lparr>current = None, before = None, dirty = False\<rparr>)], s)"
    by (simp add: t get_document_def assms(1))
  have "\<exists>os st. apply_writes sample_db 5 [w] [(?k, \<lparr>current = None, before = None, dirty = False\<rparr>)] =
      Inr (os, [(?k, st)]) \<and> dirty st \<and> current st = Some (5, 5, [(''a'', NullValue)])"
    by (simp add: t) (simp add: w_def sample_batch_def apply_write_def check_precondition_def Let_def)
  then obtain os st where app: "apply_writes sample_db 5 [w] [(?k, \<lparr>current = None, before = None, dirty = False\<rparr>)] =
      Inr (os, [(?k, st)])" "dirty st" "current st = Some (5, 5, [(''a'', NullValue)])" by blast
  let ?u = "\<lparr>rs_collection_path = show_path (the (parent [''c'', ''x''])),
      rs_collection_id = (case last_id (the (parent [''c'', ''x''])) of Some i \<Rightarrow> i | None \<Rightarrow> []),
      rs_update_time_us = 5, rs_payload = encode_document numbering_codec [(''a'', NullValue)],
      rs_index = index_document sample_db [''c'', ''x''] [(''a'', NullValue)]\<rparr>"
  obtain s1 where u: "find_one_and_update mg s (collection_name sample_db) ?k ?u 5
      = (Inr \<lparr>row_id = ?k, row_create_time_us = 5, row_set = ?u\<rparr>, s1)" using assms(2) by blast
  obtain d where set: "set_document mg numbering_codec sample_db [''c'', ''x''] [(''a'', NullValue)] 5 s = (Inr d, s1)"
    by (simp add: set_document_def u Let_def) (simp add: decode_row_def numbering_codec_def parse_path_show [OF wf])
  have per: "persist_states mg numbering_codec sample_db 5 [w] [(?k, st)] s =
      (Inr [\<lparr>dd_path = [''c'', ''x''], dd_before = before st, dd_after = Some d\<rparr>], s1)"
    by (simp add: t app set Let_def)
  obtain s2 where "insert_notice mg s1 \<lparr>cn_instance = ''i'', cn_project_id = project_id sample_db,
      cn_database_id = database_id sample_db, cn_commit_us = 5, cn_paths = [?k]\<rparr> = (Inr (), s2)" using assms(3) by blast
  then show ?thesis
    unfolding apply_in_transaction_def b load prod.case sum.case app(1) per
    by (simp add: Let_def append_commit_notice_def)
qed

lemma sample_runs:
  "\<exists>applied s'. apply_in_transaction map_mongo numbering_codec ''i'' sample_db sample_batch 5 (\<lambda>_ _. None)
     = (Inr applied, s')"
proof -
  have "\<exists>applied s'. apply_in_transaction map_mongo numbering_codec ''i'' sample_db sample_batch 5 (\<lambda>_ _. None) = (Inr applied, s')
    \<and> changes applied \<noteq> []"
    by (rule sample_runs_on) (simp_all add: map_mongo_def Let_def)
  then show ?thesis by blast
qed

theorem batch_refines_writes_in_order_witness:
  "\<exists>applied s' st st'. apply_in_transaction map_mongo numbering_codec ''i'' sample_db sample_batch 5 (\<lambda>_ _. None)
      = (Inr applied, s')
    \<and> run_target sample_db 5 ''c/x'' sample_batch st = Inr st' \<and> length (outcomes applied) = 1"
proof -
  obtain applied s' where a: "apply_in_transaction map_mongo numbering_codec ''i'' sample_db sample_batch 5 (\<lambda>_ _. None)
      = (Inr applied, s')" using sample_runs by blast
  have tg: "targeted sample_db sample_batch (show_path [''c'', ''x''])"
    using sample_target by (auto simp: targeted_def target_key_def sample_batch_def)
  have wf: "path_wf [''c'', ''x'']" by (simp add: path_wf_def)
  from batch_refines_writes_in_order [OF map_mongo_laws numbering_codec_law wf tg a] obtain st st' where
    "run_target sample_db 5 ''c/x'' sample_batch st = Inr st'" "length (outcomes applied) = length sample_batch"
    unfolding sample_target(2) by blast
  moreover have "length sample_batch = 1" by (simp add: sample_batch_def)
  ultimately show ?thesis using a by auto
qed

text \<open>
  C21. A batch that cannot be applied has written nothing: when a target is invalid, a read
  fails, or any write of the batch fails its precondition or a transform, no row has changed
  when the attempt returns the error.
\<close>

theorem failed_batch_writes_nothing:
  assumes "mongo_laws rows mg"
    and "load_states mg cd db ws [] s = (l, s1)"
    and "\<And>states. l = Inr states \<Longrightarrow> \<exists>e. apply_writes db now_us ws states = Inl e"
  shows "\<exists>e s'. apply_in_transaction mg cd inst db ws now_us s = (Inl e, s') \<and> rows s' = rows s"
proof (cases l)
  case (Inl e)
  then show ?thesis using assms(2) load_states_effect [OF assms(1,2)] by (simp add: apply_in_transaction_def)
next
  case (Inr states)
  then obtain e where "apply_writes db now_us ws states = Inl e" using assms(3) by blast
  then show ?thesis using Inr assms(2) load_states_effect [OF assms(1,2)] by (simp add: apply_in_transaction_def)
qed

theorem failed_batch_writes_nothing_witness:
  "\<exists>e s'. apply_in_transaction map_mongo numbering_codec ''i'' sample_db
      [\<lparr>operation = None, update_mask = None, update_transforms = [], current_document = None\<rparr>] 5 (\<lambda>_ _. None)
    = (Inl e, s') \<and> s' = (\<lambda>_ _. None)"
proof -
  have l: "load_states map_mongo numbering_codec sample_db
      [\<lparr>operation = None, update_mask = None, update_transforms = [], current_document = None\<rparr>] [] (\<lambda>_ _. None)
    = (Inl InvalidArgument, \<lambda>_ _. None)" by (simp add: write_target_def)
  from failed_batch_writes_nothing [OF map_mongo_laws l] show ?thesis by simp
qed

definition sample_ops :: "(string \<Rightarrow> string \<Rightarrow> doc_row option, string \<Rightarrow> string \<Rightarrow> doc_row option) session_ops" where
  "sample_ops = \<lparr>start_transaction = (\<lambda>d. (Inr d, d)), driver_commit = (\<lambda>s d. (Committed, s)),
     abort_transaction = (\<lambda>s d. d)\<rparr>"

text \<open>
  Contention is bounded and reported as \<open>Aborted\<close>: when every attempt fails with a
  transient error, the loop stops after its ten attempts with the error clients retry on; any
  other error of an attempt is returned at once, after an abort.
\<close>

theorem commit_contention_aborts:
  assumes "\<And>d. \<exists>sess d'. start_transaction ops d = (Inr sess, d')"
    and "\<And>sess. \<exists>e sess'. apply_in_transaction mg cd inst db ws now_us sess = (Inl e, sess')
           \<and> is_transient e = transient \<and> (\<not> transient \<longrightarrow> e = err)"
  shows "\<exists>d'. apply_commit ops mg cd inst db ws now_us d = (Inl (if transient then Aborted else err), d')"
proof -
  have "\<exists>d'. commit_attempts ops attempt (Suc n) d = (Inl (if transient then Aborted else err), d')"
    if att: "\<And>sess. \<exists>e sess'. attempt sess = (Inl e, sess') \<and> is_transient e = transient \<and> (\<not> transient \<longrightarrow> e = err)"
    for attempt n
  proof (induction n arbitrary: d)
    case 0
    obtain sess d1 where "start_transaction ops d = (Inr sess, d1)" using assms(1) by blast
    moreover obtain e sess' where "attempt sess = (Inl e, sess')" "is_transient e = transient" "\<not> transient \<longrightarrow> e = err"
      using att by blast
    ultimately show ?case by (simp add: Let_def)
  next
    case (Suc n)
    obtain sess d1 where "start_transaction ops d = (Inr sess, d1)" using assms(1) by blast
    moreover obtain e sess' where "attempt sess = (Inl e, sess')" "is_transient e = transient" "\<not> transient \<longrightarrow> e = err"
      using att by blast
    ultimately show ?case using Suc
      by (cases transient) (simp_all add: Let_def commit_attempts.simps(2) [of _ _ "Suc n"] del: commit_attempts.simps(2))
  qed
  from this [OF assms(2), where n = 9] show ?thesis
    unfolding apply_commit_def MAX_TRANSACTION_ATTEMPTS_def by simp
qed

theorem commit_contention_aborts_witness:
  "\<exists>d'. apply_commit sample_ops (map_mongo\<lparr>find_one := \<lambda>s c i. (Inl (Mongo True), s)\<rparr>) numbering_codec ''i''
      sample_db sample_batch 5 (\<lambda>_ _. None) = (Inl (if True then Aborted else Aborted), d')"
proof (rule commit_contention_aborts)
  show "\<exists>sess d'. start_transaction sample_ops d = (Inr sess, d')" for d by (simp add: sample_ops_def)
  have "write_target sample_db (hd sample_batch) = Inr [''c'', ''x'']" by (rule sample_target)
  then show "\<exists>e sess'. apply_in_transaction (map_mongo\<lparr>find_one := \<lambda>s c i. (Inl (Mongo True), s)\<rparr>) numbering_codec ''i''
      sample_db sample_batch 5 sess = (Inl e, sess') \<and> is_transient e = True \<and> (\<not> True \<longrightarrow> e = Aborted)" for sess
    by (simp add: apply_in_transaction_def sample_batch_def get_document_def is_transient_def)
qed

end
