(* ===== verification/CommitLive.thy ===== *)
theory CommitLive
  imports CommitBatch
begin

text \<open>
  The retry loop of \<open>apply_commit\<close> gets there: fewer than ten transient failures do not keep
  a commit from succeeding.
\<close>

text \<open>An attempt at \<open>d\<close> that ends with a transient error, leaving the database in \<open>d'\<close>.\<close>

definition retries ::
  "('d, 's) session_ops \<Rightarrow> ('s \<Rightarrow> (engine_error + commit_applied) \<times> 's) \<Rightarrow> 'd \<Rightarrow> 'd \<Rightarrow> bool" where
  "retries ops attempt d d' \<longleftrightarrow>
     (\<exists>sess d1 e. start_transaction ops d = (Inr sess, d1) \<and> is_transient e
        \<and> ((\<exists>sess'. attempt sess = (Inl e, sess') \<and> d' = abort_transaction ops sess' d1)
         \<or> (\<exists>sess' a. attempt sess = (Inr a, sess') \<and> commit_transaction ops sess' d1 = (Inl e, d'))))"

definition succeeds ::
  "('d, 's) session_ops \<Rightarrow> ('s \<Rightarrow> (engine_error + commit_applied) \<times> 's) \<Rightarrow> 'd \<Rightarrow> commit_applied \<Rightarrow> 'd \<Rightarrow> bool" where
  "succeeds ops attempt d a d' \<longleftrightarrow>
     (\<exists>sess d1 sess'. start_transaction ops d = (Inr sess, d1) \<and> attempt sess = (Inr a, sess')
        \<and> commit_transaction ops sess' d1 = (Inr (), d'))"

lemma attempts_retry: "retries ops attempt d d' \<Longrightarrow> commit_attempts ops attempt (Suc n) d = commit_attempts ops attempt n d'"
  by (auto simp: retries_def Let_def)

lemma attempts_succeed: "succeeds ops attempt d a d' \<Longrightarrow> commit_attempts ops attempt (Suc n) d = (Inr a, d')"
  by (auto simp: succeeds_def Let_def)

lemma attempts_retry_then_succeed:
  "(retries ops attempt ^^ k) d d1 \<Longrightarrow> k \<le> n \<Longrightarrow> succeeds ops attempt d1 a d2
     \<Longrightarrow> commit_attempts ops attempt (Suc n) d = (Inr a, d2)"
proof (induction k arbitrary: d n)
  case (Suc k)
  from Suc.prems(1) obtain d' where d': "retries ops attempt d d'" "(retries ops attempt ^^ k) d' d1"
    by (blast elim: relpowp_Suc_E2)
  obtain m where n: "n = Suc m" using Suc.prems(2) by (cases n) auto
  have "commit_attempts ops attempt (Suc n) d = commit_attempts ops attempt n d'" by (rule attempts_retry [OF d'(1)])
  also have "\<dots> = (Inr a, d2)" unfolding n using Suc.IH [OF d'(2) _ Suc.prems(3), of m] Suc.prems(2) n by simp
  finally show ?case .
qed (simp only: relpowp.simps attempts_succeed)

text \<open>A commit call of a session that left the outcome unknown.\<close>

definition unanswered :: "('d, 's) session_ops \<Rightarrow> 's \<Rightarrow> 'd \<Rightarrow> 'd \<Rightarrow> bool" where
  "unanswered ops sess d d' \<longleftrightarrow> (\<exists>e. driver_commit ops sess d = (UnknownResult e, d'))"

lemma commit_loop_success:
  "commit_loop ops sess n prev d = (Inr (), d') \<Longrightarrow>
     \<exists>k d2. k < n \<and> (unanswered ops sess ^^ k) d d2 \<and> driver_commit ops sess d2 = (Committed, d')"
proof (induction n arbitrary: prev d)
  case (Suc n)
  show ?case
  proof (cases "fst (driver_commit ops sess d)")
    case Committed
    then have "driver_commit ops sess d = (Committed, d')" using Suc.prems by (auto split: prod.splits)
    then show ?thesis by (intro exI [of _ 0] exI [of _ d]) simp
  next
    case (UnknownResult e)
    then obtain d1 where d1: "driver_commit ops sess d = (UnknownResult e, d1)" by (metis prod.collapse)
    then obtain k d2 where k: "k < n" "(unanswered ops sess ^^ k) d1 d2" "driver_commit ops sess d2 = (Committed, d')"
      using Suc by fastforce
    have "unanswered ops sess d d1" using d1 by (auto simp: unanswered_def)
    then have "(unanswered ops sess ^^ Suc k) d d2" using k(2) by (rule relpowp_Suc_I2)
    then show ?thesis using k by (intro exI [of _ "Suc k"] exI [of _ d2]) auto
  next
    case (CommitFailed e)
    then show ?thesis using Suc.prems by (auto split: prod.splits)
  qed
qed simp

lemma attempts_success:
  "commit_attempts ops attempt n d = (Inr a, d') \<Longrightarrow>
     \<exists>j d0. j < n \<and> (retries ops attempt ^^ j) d d0 \<and> succeeds ops attempt d0 a d'"
proof (induction n arbitrary: d)
  case (Suc n)
  have "succeeds ops attempt d a d' \<or> (\<exists>d1. retries ops attempt d d1 \<and> commit_attempts ops attempt n d1 = (Inr a, d'))"
    using Suc.prems unfolding succeeds_def retries_def
    by (fastforce simp: Let_def split: prod.splits sum.splits if_splits)
  then show ?case
  proof
    assume "succeeds ops attempt d a d'"
    then show ?thesis by (intro exI [of _ 0] exI [of _ d]) simp
  next
    assume "\<exists>d1. retries ops attempt d d1 \<and> commit_attempts ops attempt n d1 = (Inr a, d')"
    then obtain d1 j d0 where j: "retries ops attempt d d1" "j < n" "(retries ops attempt ^^ j) d1 d0" "succeeds ops attempt d0 a d'"
      using Suc.IH by blast
    from relpowp_Suc_I2 [OF j(1,3)] j(2,4) show ?thesis by (intro exI [of _ "Suc j"] exI [of _ d0]) auto
  qed
qed simp

text \<open>
  C27. A commit gets through transient contention: when fewer than ten attempts in a row end in
  transient errors, whether in the transaction or at its commit, and the next attempt and its
  commit succeed, the request returns that attempt's outcomes.
\<close>

theorem commit_survives_contention:
  assumes "(retries ops (apply_in_transaction mg cd inst db ws now_us) ^^ k) d d1" "k < 10"
    and "succeeds ops (apply_in_transaction mg cd inst db ws now_us) d1 applied d2"
  shows "apply_commit ops mg cd inst db ws now_us d = (Inr applied, d2)"
  unfolding apply_commit_def MAX_TRANSACTION_ATTEMPTS_def
  using attempts_retry_then_succeed [OF assms(1) _ assms(3), of 9] assms(2) by (simp add: numeral_eq_Suc)

text \<open>A session whose first commit loses to another transaction.\<close>

definition contended_ops :: "(nat, string \<Rightarrow> string \<Rightarrow> doc_row option) session_ops" where
  "contended_ops = \<lparr>start_transaction = (\<lambda>d. (Inr (\<lambda>_ _. None), d)),
     driver_commit = (\<lambda>s d. if d = 0 then (CommitFailed (Mongo True), 1) else (Committed, d + 1)),
     abort_transaction = (\<lambda>s d. d)\<rparr>"

theorem commit_survives_contention_witness:
  "apply_commit contended_ops map_mongo numbering_codec ''i'' sample_db [] 5 0 = (Inr \<lparr>outcomes = [], changes = []\<rparr>, 2)"
proof (rule commit_survives_contention)
  let ?a = "apply_in_transaction map_mongo numbering_codec ''i'' sample_db [] 5"
  have a: "?a s = (Inr \<lparr>outcomes = [], changes = []\<rparr>, s)" for s by (simp add: apply_in_transaction_def)
  have "retries contended_ops ?a 0 1"
    by (simp add: retries_def contended_ops_def a commit_transaction_def MAX_COMMIT_ATTEMPTS_def numeral_eq_Suc is_transient_def)
  then show "(retries contended_ops ?a ^^ 1) 0 1" unfolding relpowp_1 .
  show "succeeds contended_ops ?a 1 \<lparr>outcomes = [], changes = []\<rparr> 2"
    by (simp add: succeeds_def contended_ops_def a commit_transaction_def MAX_COMMIT_ATTEMPTS_def numeral_eq_Suc)
qed simp

text \<open>
  C39. The retry loop reports success only for a commit the driver acknowledged.  A commit that
  succeeds went through fewer than ten attempts that ended in transient errors; then its
  transaction started, all its writes were applied in it, the driver left fewer than three commit
  calls of that session unanswered (an unknown result), and the call after those, the last thing
  the loop did, was answered with \<open>Committed\<close>.
\<close>

theorem commit_success_was_acknowledged:
  assumes "apply_commit ops mg cd inst db ws now_us d = (Inr applied, d')"
  shows "\<exists>j k d0 d1 d2 sess sess'. j < 10 \<and> (retries ops (apply_in_transaction mg cd inst db ws now_us) ^^ j) d d0
    \<and> start_transaction ops d0 = (Inr sess, d1)
    \<and> apply_in_transaction mg cd inst db ws now_us sess = (Inr applied, sess')
    \<and> k < 3 \<and> (unanswered ops sess' ^^ k) d1 d2
    \<and> driver_commit ops sess' d2 = (Committed, d')"
proof -
  obtain j d0 where j: "j < 10" "(retries ops (apply_in_transaction mg cd inst db ws now_us) ^^ j) d d0"
      "succeeds ops (apply_in_transaction mg cd inst db ws now_us) d0 applied d'"
    using attempts_success [OF assms [unfolded apply_commit_def]] by (auto simp: MAX_TRANSACTION_ATTEMPTS_def)
  then obtain sess d1 sess' where s: "start_transaction ops d0 = (Inr sess, d1)"
      "apply_in_transaction mg cd inst db ws now_us sess = (Inr applied, sess')"
      "commit_transaction ops sess' d1 = (Inr (), d')" unfolding succeeds_def by blast
  from commit_loop_success [OF s(3) [unfolded commit_transaction_def]] obtain k d2 where
    "k < 3" "(unanswered ops sess' ^^ k) d1 d2" "driver_commit ops sess' d2 = (Committed, d')"
    by (auto simp: MAX_COMMIT_ATTEMPTS_def)
  with j s show ?thesis by blast
qed

text \<open>A session whose commit is answered at the second call only.\<close>

definition slow_ops :: "(nat, string \<Rightarrow> string \<Rightarrow> doc_row option) session_ops" where
  "slow_ops = contended_ops\<lparr>driver_commit := (\<lambda>s d. if d = 0 then (UnknownResult (Mongo False), 1) else (Committed, d + 1))\<rparr>"

theorem commit_success_was_acknowledged_witness:
  "\<exists>k d2 sess'. apply_commit slow_ops map_mongo numbering_codec ''i'' sample_db [] 5 0 = (Inr \<lparr>outcomes = [], changes = []\<rparr>, 2)
    \<and> k < 3 \<and> (unanswered slow_ops sess' ^^ k) 0 d2 \<and> driver_commit slow_ops sess' d2 = (Committed, 2)"
proof -
  let ?a = "apply_in_transaction map_mongo numbering_codec ''i'' sample_db [] 5"
  have a: "?a s = (Inr \<lparr>outcomes = [], changes = []\<rparr>, s)" for s by (simp add: apply_in_transaction_def)
  have s: "start_transaction slow_ops d = (Inr (\<lambda>_ _. None), d)" for d by (simp add: slow_ops_def contended_ops_def)
  have c: "commit_transaction slow_ops sess 0 = (Inr (), 2)" for sess
    by (simp add: slow_ops_def contended_ops_def commit_transaction_def MAX_COMMIT_ATTEMPTS_def numeral_eq_Suc)
  have e: "apply_commit slow_ops map_mongo numbering_codec ''i'' sample_db [] 5 0 = (Inr \<lparr>outcomes = [], changes = []\<rparr>, 2)"
    using attempts_succeed [of slow_ops ?a 0 "\<lparr>outcomes = [], changes = []\<rparr>" 2 9] by (simp add: apply_commit_def MAX_TRANSACTION_ATTEMPTS_def succeeds_def s a c)
  have no_retry: "\<not> retries slow_ops ?a 0 d" for d by (auto simp: retries_def s a c)
  from commit_success_was_acknowledged [OF e] obtain j k d0 d1 d2 sess sess' where
    r: "(retries slow_ops ?a ^^ j) 0 d0" "start_transaction slow_ops d0 = (Inr sess, d1)" "k < 3"
      "(unanswered slow_ops sess' ^^ k) d1 d2" "driver_commit slow_ops sess' d2 = (Committed, 2)" by blast
  have "d0 = 0"
  proof (cases j)
    case (Suc i)
    with r(1) show ?thesis using no_retry by (blast elim: relpowp_Suc_E2)
  qed (use r(1) in simp)
  then have "d1 = 0" using r(2) by (simp add: s)
  with r e show ?thesis by blast
qed

end
