(* ===== verification/ServiceProps.thy ===== *)
theory ServiceProps
  imports ServiceRun RulesChecks CommitLive
begin

text \<open>
  The properties of the service: what a transaction's commit says of its reads, that what a read
  answers was permitted, and which events are published.
\<close>

section \<open>Checks only read\<close>

lemma read_document_rows:
  "find_law rows (rc_mongo ctx) \<Longrightarrow> rows (snd (read_document ctx db k s)) = rows s"
  using get_document_rows [of rows "rc_mongo ctx" "rc_codec ctx" db _ s]
  by (auto simp: read_document_def split: sum.split prod.split)

lemma lookup_document_rows:
  "find_law rows (rc_mongo ctx) \<Longrightarrow> rows (sh_store (snd (lookup_document ctx db path h))) = rows (sh_store h)"
  using read_document_rows [of rows ctx db _ "sh_store h"]
  by (auto simp: lookup_document_def Let_def split: option.split sum.split prod.split) (metis snd_conv)+

lemma store_host_keeps_rows:
  "find_law rows (rc_mongo ctx) \<Longrightarrow> host_keeps (store_host ctx db) (\<lambda>h. rows (sh_store h) = r)"
  using lookup_document_rows [of rows ctx db]
  by (auto simp: host_keeps_def store_host_def Let_def split: prod.split) (metis snd_conv)+

lemma check_rows:
  assumes "find_law rows (rc_mongo ctx)" "check ctx registry auth req s = (r, s')"
  shows "rows s' = rows s"
proof -
  have e: "rows (sh_store (snd (evaluate lib (store_host ctx db) rules svc op path globals \<lparr>sh_store = s, sh_cache = []\<rparr>))) = rows s"
    for lib db rules svc op path globals
    by (auto simp: evaluate_run Let_def split: option.split
        intro!: run_candidates_keeps [where P = "\<lambda>h. rows (sh_store h) = rows s"] store_host_keeps_rows [OF assms(1)])
  show ?thesis
    using assms(2) e [of "rc_lib ctx" "ar_database req"]
    by (auto simp: check_def Let_def split: authorization.splits option.splits prod.splits sum.splits decision.splits)
      (metis snd_conv)+
qed

lemma check_writes_rows:
  assumes "find_law rows (rc_mongo ctx)" "check_writes ctx registry auth db ws s = (r, s')"
  shows "rows s' = rows s"
proof -
  have "check_each ctx registry a db ws s = (r, s') \<Longrightarrow> rows s' = rows s" for a s
  proof (induction ws arbitrary: s)
    case (Cons w ws)
    then show ?case using get_document_rows [OF assms(1)] check_rows [OF assms(1)]
      by (auto simp: Let_def split: option.splits prod.splits sum.splits)
  qed simp
  with assms(2) show ?thesis by (auto simp: check_writes_def Let_def split: authorization.splits if_splits)
qed

section \<open>What answers mean\<close>

lemma engine_call_Inr:
  "engine_call sv f st = (Inr a, st') \<longleftrightarrow>
     (\<exists>d. f (st_driver st) = (Inr a, d) \<and> st' = st\<lparr>st_query := (st_query st)\<lparr>qs_session := d\<rparr>\<rparr>)"
  by (auto simp: engine_call_def on_driver_def Let_def map_sum_def split: prod.splits sum.splits)

lemma on_driver_Inr:
  "on_driver f st = (Inr a, st') \<longleftrightarrow>
     (\<exists>d. f (st_driver st) = (Inr a, d) \<and> st' = st\<lparr>st_query := (st_query st)\<lparr>qs_session := d\<rparr>\<rparr>)"
  by (auto simp: on_driver_def Let_def split: prod.splits)

lemma parsed_as_Inr: "parsed_as sv r st = (Inr a, st') \<longleftrightarrow> r = Inr a \<and> st' = st"
  by (auto simp: parsed_as_def refuse_def answer_def split: sum.split)

lemma and_then_InrE:
  assumes "and_then m f st = (Inr b, st')"
  obtains a st1 where "m st = (Inr a, st1)" "f a st1 = (Inr b, st')"
  using assms unfolding and_then_Inr by blast

lemma get_name_Inr: "get_name sv name st = (Inr parsed, st') \<longleftrightarrow> parse_name name = Inr parsed \<and> is_document (rn_path parsed) \<and> st' = st"
  by (cases "parse_name name"; cases "parse_prefix name") (auto simp: get_name_def refuse_def answer_def)

lemma authorized_txns: "authorized sv header st = (r, st') \<Longrightarrow> st_txns st' = st_txns st \<and> st_events st' = st_events st"
  by (auto simp: authorized_def Let_def split: prod.splits)

text \<open>A document was checked for reading and is what the answer shows.\<close>

definition read_permitted ::
  "('k, 'd, 's) service \<Rightarrow> authorization \<Rightarrow> database_name \<Rightarrow> resource_path \<Rightarrow> stored_document \<Rightarrow> bool" where
  "read_permitted sv auth database path doc \<longleftrightarrow>
     (\<exists>d0 d d'. get_document (rc_mongo (sv_context sv)) (rc_codec (sv_context sv)) database path d0 = (Inr (Some doc), d)
        \<and> check (sv_context sv) (sv_registry sv) auth (read_access database path OpGet (Some doc)) d = (Inr (), d'))"

lemma get_document_answer:
  assumes "get_document_call sv header req st = (Inr wire, st')"
  shows "\<exists>auth st1 name doc. authorized sv header st = (Inr auth, st1) \<and> parse_name (gq_name req) = Inr name
    \<and> wire = to_wire_document name doc \<and> read_permitted sv auth (rn_database name) (rn_path name) doc
    \<and> st_txns st' = (case selector_token (gq_selector req) of None \<Rightarrow> st_txns st
        | Some token \<Rightarrow> record_read token (show_path (rn_path name)) (update_time_us doc) (st_txns st))"
proof -
  from assms obtain auth st1 name st2 found st3 st4 where a: "authorized sv header st = (Inr auth, st1)"
    and n: "get_name sv (gq_name req) st1 = (Inr name, st2)"
    and r: "read_one sv (rn_database name) (rn_path name) st2 = (Inr found, st3)"
    and o: "observe (selector_token (gq_selector req)) (show_path (rn_path name)) (observed_version found) st3 = (Inr (), st4)"
    and c: "(case found of None \<Rightarrow> refuse (not_found (gq_name req))
     | Some doc \<Rightarrow>
         and_then (check_access sv auth (read_access (rn_database name) (rn_path name) OpGet (Some doc))) (\<lambda>_.
         answer (to_wire_document name doc))) st4 = (Inr wire, st')"
    unfolding get_document_call_def by (elim and_then_InrE) simp
  have n: "parse_name (gq_name req) = Inr name" "st2 = st1"
    using n by (simp_all add: get_name_Inr)
  from c obtain doc where f: "found = Some doc" by (cases found) (auto simp: refuse_def)
  from c f have k: "check_access sv auth (read_access (rn_database name) (rn_path name) OpGet (Some doc)) st4 = (Inr (), st')"
    "wire = to_wire_document name doc"
    by (auto simp: and_then_Inr answer_def)
  have d: "st_driver st4 = st_driver st3"
    "st_txns st4 = (case selector_token (gq_selector req) of None \<Rightarrow> st_txns st3
        | Some token \<Rightarrow> record_read token (show_path (rn_path name)) (update_time_us doc) (st_txns st3))"
    using o f by (auto simp: observe_def txns_call_def answer_def observed_version_def Let_def split: option.splits)
  have "read_permitted sv auth (rn_database name) (rn_path name) doc"
    using r k(1) d(1) f unfolding read_permitted_def read_one_def check_access_def engine_call_Inr on_driver_Inr by auto blast
  moreover have "st_txns st' = st_txns st4" using k(1) by (auto simp: check_access_def on_driver_Inr)
  moreover have "st_txns st3 = st_txns st"
    using r n(2) authorized_txns [OF a] by (auto simp: read_one_def engine_call_Inr)
  note d(2) [unfolded this]
  ultimately show ?thesis using a n(1) k(2) by metis
qed

lemma finish_transaction_answer:
  assumes "finish_transaction sv database token has_writes st = (Inr (), st')"
  shows "\<exists>txn. hm_get (active (st_txns st)) token = Some txn \<and> tx_database txn = database
    \<and> sv_instant sv (st_driver st) < expires_at txn \<and> (tx_read_only txn \<longrightarrow> \<not> has_writes)
    \<and> hm_get (active (st_txns st')) token = None
    \<and> validate_read_set (rc_mongo (sv_context sv)) (rc_codec (sv_context sv)) database (read_versions txn) (st_driver st)
        = (Inr (), st_driver st')"
proof -
  obtain r m where t: "take_txn (sv_instant sv (st_driver st)) token database (st_txns st) = (r, m)" by fastforce
  with assms obtain txn where r: "r = Inr txn"
    by (cases r) (auto simp: finish_transaction_def and_then_Inr txns_call_def refuse_def Let_def)
  note t = take_txn_Inr [OF t [unfolded r]] t [unfolded r]
  show ?thesis
    using assms t by (auto simp: finish_transaction_def and_then_Inr txns_call_def refuse_def Let_def engine_call_Inr
        split: if_splits)
qed

lemma commit_answer:
  assumes "commit sv header req st = (Inr response, st')"
  shows "\<exists>auth database st1 st2 st3 applied.
    authorized sv header st = (Inr auth, st1) \<and> parse_database (mq_database req) = Inr database
    \<and> on_driver (check_writes (sv_context sv) (sv_registry sv) auth database (mq_writes req)) st1 = (Inr (), st2)
    \<and> (if mq_transaction req = [] then st3 = st2
       else finish_transaction sv database (mq_transaction req) (mq_writes req \<noteq> []) st2 = (Inr (), st3))
    \<and> apply_commit (sv_sessions sv) (sv_session_mongo sv) (rc_codec (sv_context sv)) (sv_instance sv) database
        (mq_writes req) (rc_now_us (sv_context sv) (st_driver st1)) (sv_others sv (st_driver st3)) = (Inr applied, st_driver st')
    \<and> st_txns st' = st_txns st3
    \<and> st_events st' = st_events st3 @ [\<lparr>ce_database = database, ce_changes = changes applied,
        ce_commit_us = rc_now_us (sv_context sv) (st_driver st1), ce_origin = Local\<rparr>]
    \<and> response = \<lparr>cr_write_results = write_results applied,
        cr_commit_time = timestamp_from_us (rc_now_us (sv_context sv) (st_driver st1))\<rparr>"
proof -
  from assms obtain auth st1 database now st2 st3 applied st4 where
    "authorized sv header st = (Inr auth, st1)" "parse_database (mq_database req) = Inr database"
    "now = rc_now_us (sv_context sv) (st_driver st1)"
    "on_driver (check_writes (sv_context sv) (sv_registry sv) auth database (mq_writes req)) st1 = (Inr (), st2)"
    "(if mq_transaction req = [] then answer ()
      else finish_transaction sv database (mq_transaction req) (mq_writes req \<noteq> [])) st2 = (Inr (), st3)"
    "commit_call sv database (mq_writes req) now st3 = (Inr applied, st4)"
    "commit_published database applied now st4 = (Inr (), st')"
    "response = \<lparr>cr_write_results = write_results applied, cr_commit_time = timestamp_from_us now\<rparr>"
    unfolding commit_def
    by (elim and_then_InrE) (auto simp: parsed_as_Inr now_us_def answer_def)
  note c = this
  have a: "apply_commit (sv_sessions sv) (sv_session_mongo sv) (rc_codec (sv_context sv)) (sv_instance sv) database
      (mq_writes req) now (sv_others sv (st_driver st3)) = (Inr applied, st_driver st')" "st_txns st' = st_txns st3"
    "st_events st' = st_events st3 @ [\<lparr>ce_database = database, ce_changes = changes applied, ce_commit_us = now, ce_origin = Local\<rparr>]"
    using c(6,7) by (auto simp: commit_call_def engine_call_Inr commit_published_def publish_def)
  have t: "if mq_transaction req = [] then st3 = st2
     else finish_transaction sv database (mq_transaction req) (mq_writes req \<noteq> []) st2 = (Inr (), st3)"
    using c(5) by (auto simp: answer_def split: if_splits)
  show ?thesis
    by (rule exI [of _ auth], rule exI [of _ database], rule exI [of _ st1], rule exI [of _ st2], rule exI [of _ st3],
        rule exI [of _ applied], intro conjI; fact c(1) c(2) c(4) c(8) [unfolded c(3)] t a [unfolded c(3)])
qed

section \<open>Transactions\<close>

text \<open>Active tokens have been handed out, and no key occurs twice.\<close>

definition txns_issued :: "txn_manager \<Rightarrow> bool" where
  "txns_issued mgr \<longleftrightarrow> txns_wf mgr \<and> (\<forall>token t. hm_get (active mgr) token = Some t \<longrightarrow> handed_out token mgr)"

lemma txns_issued_record: "txns_issued mgr \<Longrightarrow> txns_issued (record_read token path v mgr)"
  by (auto simp: txns_issued_def record_read_def txns_wf_def handed_out_def distinct_update update_conv
      simp del: map_of_eq_Some_iff split: option.splits if_splits)

lemma txns_issued_remove: "txns_issued mgr \<Longrightarrow> txns_issued (mgr\<lparr>active := hm_remove token (active mgr)\<rparr>)"
  by (auto simp: txns_issued_def txns_wf_def handed_out_def distinct_delete delete_conv
      simp del: map_of_eq_Some_iff split: if_splits)

lemma txns_issued_begin:
  assumes "txns_issued mgr" "counter mgr \<noteq> - 1"
  shows "txns_issued (snd (begin_txn now elapsed database ro mgr))"
proof -
  obtain token mgr' where b: "begin_txn now elapsed database ro mgr = (token, mgr')" by fastforce
  have d: "distinct (map fst (active mgr))" using assms(1) by (simp add: txns_issued_def txns_wf_def)
  have h: "handed_out t mgr \<Longrightarrow> handed_out t mgr'" for t
    using begin_txn_result(2) [OF b] unat_next [OF assms(2)] by (fastforce simp: handed_out_def)
  show ?thesis
    using assms(1) h begin_txn_fresh(2) [OF assms(2) b] begin_txn_result(3) [OF b] d
    by (auto simp: b txns_issued_def txns_wf_def distinct_update distinct_map_filter update_conv map_of_filter_Some
        simp del: map_of_eq_Some_iff split: if_splits)
qed

lemma txns_issued_empty: "txns_issued empty_manager"
  by (simp add: txns_issued_def txns_wf_def empty_manager_def)

interpretation issued: server_relation "\<lambda>st st'. txns_issued (st_txns st) \<longrightarrow> txns_issued (st_txns st')"
  by unfold_locales (auto simp: txns_issued_record txns_issued_begin rollback_txn_def txns_issued_remove take_txn_def Let_def
      split: option.split)

lemma observe_first:
  assumes "hm_get (active mgr) token = Some txn" "hm_get (read_versions txn) path = None"
  shows "\<exists>txn'. hm_get (active (record_read token path v mgr)) token = Some txn'
    \<and> tx_database txn' = tx_database txn \<and> hm_get (read_versions txn') path = Some v"
  using record_read_get [OF assms(1), of path v] assms(2) unfolding same_txn_def by auto

lemma version_at_rows: "rows s' = rows s \<Longrightarrow> version_at cd rows s' database p = version_at cd rows s database p"
  unfolding version_at_def stored_at_def by (rule subst [of "rows s'" "rows s"]) auto

lemma carried_version:
  assumes "txns_issued m" "hm_get (active m) token = Some t" "carries token m m'"
    "hm_get (active m') token = Some t'" "hm_get (read_versions t) path = Some v"
  shows "tx_database t' = tx_database t" "hm_get (read_versions t') path = Some v"
proof -
  have "same_txn t t'" using assms(1-4) unfolding txns_issued_def carries_def by auto
  then show "tx_database t' = tx_database t" "hm_get (read_versions t') path = Some v"
    using assms(5) by (auto simp: same_txn_def map_le_def dom_def)
qed

text \<open>
  C3. Optimistic concurrency: a transaction's commit checks what the transaction read.  Suppose a
  \<open>GetDocument\<close> in a transaction answers a document of the transaction's database that it had not
  read before, the server then serves any requests of any clients while other instances write to
  the same database, and finally a commit of that transaction succeeds.  Then the commit names
  that database and found the document there with the update time that was answered, at a state
  after all of those requests; no other request of this server comes between that state and
  the writes, which are applied to what other instances made of it (the commit lock does not
  stop them, and the read set is not looked at again), and the transaction is over.
\<close>

theorem transaction_reads_current:
  assumes "find_law rows (rc_mongo (sv_context sv))" "server_run sv start st0" "st_txns start = empty_manager"
    and "hm_get (active (st_txns st0)) token = Some txn" "token \<noteq> []"
    and "parse_name text = Inr name" "tx_database txn = rn_database name"
    and "hm_get (read_versions txn) (show_path (rn_path name)) = None"
    and "get_document_call sv header \<lparr>gq_name = text, gq_selector = Some (In_transaction token)\<rparr> st0 = (Inr wire, st1)"
    and "server_run sv st1 st2"
    and "commit sv header' \<lparr>mq_database = db_text, mq_writes = ws, mq_transaction = token\<rparr> st2 = (Inr response, st3)"
  shows "\<exists>doc auth s1 d now applied. wire = to_wire_document name doc \<and> parse_database db_text = Inr (rn_database name)
    \<and> authorized sv header' st2 = (Inr auth, s1) \<and> rows d = rows (st_driver s1)
    \<and> version_at (rc_codec (sv_context sv)) rows d (rn_database name) (show_path (rn_path name)) = Some (update_time_us doc)
    \<and> apply_commit (sv_sessions sv) (sv_session_mongo sv) (rc_codec (sv_context sv)) (sv_instance sv) (rn_database name) ws now
        (sv_others sv d) = (Inr applied, st_driver st3)
    \<and> hm_get (active (st_txns st3)) token = None"
proof -
  let ?path = "show_path (rn_path name)"
  obtain doc where doc: "wire = to_wire_document name doc"
    and m1: "st_txns st1 = record_read token ?path (update_time_us doc) (st_txns st0)"
    using get_document_answer [OF assms(9)] assms(6) by (auto simp: selector_token_def)
  obtain t1 where t1: "hm_get (active (st_txns st1)) token = Some t1" "tx_database t1 = rn_database name"
      "hm_get (read_versions t1) ?path = Some (update_time_us doc)"
    using observe_first [OF assms(4,8)] m1 assms(7) by auto
  have i1: "txns_issued (st_txns st1)" using issued.server_run_related [OF assms(2)] txns_issued_empty txns_issued_record m1 assms(3) by auto
  have c: "carries token (st_txns st1) (st_txns st2)" by (rule carried.server_run_related [OF assms(10)])
  obtain auth database s1 s2 s3 applied where k: "authorized sv header' st2 = (Inr auth, s1)"
      "parse_database db_text = Inr database"
      "on_driver (check_writes (sv_context sv) (sv_registry sv) auth database ws) s1 = (Inr (), s2)"
      "finish_transaction sv database token (ws \<noteq> []) s2 = (Inr (), s3)"
    and a: "apply_commit (sv_sessions sv) (sv_session_mongo sv) (rc_codec (sv_context sv)) (sv_instance sv) database
        ws (rc_now_us (sv_context sv) (st_driver s1)) (sv_others sv (st_driver s3)) = (Inr applied, st_driver st3)"
    and m3: "st_txns st3 = st_txns s3"
    using commit_answer [OF assms(11)] assms(5) by auto
  obtain t2 where t2: "hm_get (active (st_txns s2)) token = Some t2" "tx_database t2 = database" "hm_get (active (st_txns s3)) token = None"
    and v: "validate_read_set (rc_mongo (sv_context sv)) (rc_codec (sv_context sv)) database (read_versions t2) (st_driver s2)
        = (Inr (), st_driver s3)"
    using finish_transaction_answer [OF k(4)] by blast
  have "st_txns s2 = st_txns st2" using k(3) authorized_txns [OF k(1)] by (auto simp: on_driver_Inr)
  then have "tx_database t2 = rn_database name" "hm_get (read_versions t2) ?path = Some (update_time_us doc)"
    using carried_version [OF i1 t1(1) c _ t1(3)] t1(2) t2(1) by simp_all
  then have "database = rn_database name" "(?path, update_time_us doc) \<in> set (read_versions t2)"
    using t2(2) by (auto dest: map_of_SomeD)
  moreover have "rows (st_driver s2) = rows (st_driver s1)"
    using k(3) check_writes_rows [OF assms(1)] by (auto simp: on_driver_Inr)
  ultimately show ?thesis
    using validate_read_set_Inr [OF assms(1) v] version_at_rows [of rows "st_driver s3" "st_driver s2"] doc k(1,2) a m3 t2(3)
    by (intro exI [of _ doc] exI [of _ auth] exI [of _ s1] exI [of _ "st_driver s3"] exI [of _ "rc_now_us (sv_context sv) (st_driver s1)"]
        exI [of _ applied]) auto
qed

lemma finish_stale:
  assumes "find_law rows (rc_mongo (sv_context sv))" "finish_transaction sv database token has_writes st = (r, st')"
    and "hm_get (active (st_txns st)) token = Some txn" "(path, v) \<in> set (read_versions txn)"
    and "version_at (rc_codec (sv_context sv)) rows (st_driver st) (tx_database txn) path \<noteq> Some v"
  shows "\<exists>e. r = Inl e" "rows (st_driver st') = rows (st_driver st)" "st_events st' = st_events st"
proof -
  have "r \<noteq> Inr ()"
  proof
    assume "r = Inr ()"
    from finish_transaction_answer [OF assms(2) [unfolded this]] assms(3)
    have "tx_database txn = database" "validate_read_set (rc_mongo (sv_context sv)) (rc_codec (sv_context sv)) database
        (read_versions txn) (st_driver st) = (Inr (), st_driver st')" by auto
    with validate_read_set_Inr [OF assms(1) this(2)] assms(4,5) show False by auto
  qed
  then show "\<exists>e. r = Inl e" by (cases r) auto
  show "rows (st_driver st') = rows (st_driver st)" "st_events st' = st_events st"
    using assms(2) validate_read_set_rows [OF assms(1), of "rc_codec (sv_context sv)" _ _ "st_driver st"]
    by (auto simp: finish_transaction_def and_then_def txns_call_def refuse_def engine_call_def on_driver_def Let_def
        split: prod.splits sum.splits if_splits) (metis snd_conv)+
qed

text \<open>
  C16. A transaction that read a version which is no longer current is refused, and refused
  whole: the commit answers an error, changes no row, publishes no event and ends the
  transaction.
\<close>

theorem stale_transaction_refused:
  assumes "find_law rows (rc_mongo (sv_context sv))"
    and "hm_get (active (st_txns st)) token = Some txn" "token \<noteq> []"
    and "(path, v) \<in> set (read_versions txn)" "authorized sv header st = (Inr auth, st1)"
    and "version_at (rc_codec (sv_context sv)) rows (st_driver st1) (tx_database txn) path \<noteq> Some v"
  shows "\<exists>e st'. commit sv header \<lparr>mq_database = db_text, mq_writes = ws, mq_transaction = token\<rparr> st = (Inl e, st')
    \<and> rows (st_driver st') = rows (st_driver st1) \<and> st_events st' = st_events st"
proof -
  let ?req = "\<lparr>mq_database = db_text, mq_writes = ws, mq_transaction = token\<rparr>"
  obtain r st' where c: "commit sv header ?req st = (r, st')" by fastforce
  show ?thesis
  proof (cases "parse_database db_text")
    case (Inl e)
    then show ?thesis using assms(5) authorized_txns [OF assms(5)]
      by (simp add: commit_def and_then_def parsed_as_def refuse_def)
  next
    case (Inr database)
    obtain r2 d2 where w: "check_writes (sv_context sv) (sv_registry sv) auth database ws (st_driver st1) = (r2, d2)"
      by fastforce
    define st2 where "st2 = st1\<lparr>st_query := (st_query st1)\<lparr>qs_session := d2\<rparr>\<rparr>"
    have rows2: "rows d2 = rows (st_driver st1)" by (rule check_writes_rows [OF assms(1) w])
    have st2: "st_txns st2 = st_txns st" "st_events st2 = st_events st" "st_driver st2 = d2"
      using authorized_txns [OF assms(5)] by (simp_all add: st2_def)
    obtain r3 st3 where f: "finish_transaction sv database token (ws \<noteq> []) st2 = (r3, st3)" by fastforce
    have "\<exists>e. r3 = Inl e" and rows3: "rows (st_driver st3) = rows d2" "st_events st3 = st_events st2"
      using finish_stale [OF assms(1) f _ assms(4)] assms(2,6) st2 rows2 version_at_rows [of rows d2 "st_driver st1"] by auto
    then obtain e where e: "r3 = Inl e" by blast
    have "\<exists>e st'. commit sv header ?req st = (Inl e, st') \<and> (st' = st2 \<or> st' = st3)"
      using assms(3,5) w f e
      by (cases r2) (simp_all add: commit_def and_then_def parsed_as_def answer_def Inr now_us_def on_driver_def st2_def)
    then show ?thesis using rows2 rows3 st2 by auto
  qed
qed

section \<open>A server\<close>

type_synonym row_map = "string \<Rightarrow> string \<Rightarrow> doc_row option"

definition empty_codec :: codec where
  "empty_codec = \<lparr>encode_document = (\<lambda>_. []), decode_document = (\<lambda>_. Some [])\<rparr>"

definition map_context :: "row_map rules_context" where
  "map_context = \<lparr>rc_mongo = map_mongo, rc_codec = empty_codec, rc_lib = sample_lib,
     rc_error_text = (\<lambda>_. ''error''), rc_now_us = (\<lambda>_. 7)\<rparr>"

definition closed_world :: "(unit, row_map) auth_world" where
  "closed_world = \<lparr>aw_base64url = (\<lambda>_. None), aw_json_object = (\<lambda>_. None), aw_resolve = None,
     aw_decode_header = Inl, aw_verify = (\<lambda>_ _ _ _ _. Inl ''no''), aw_fetch = (\<lambda>_ s. (Inl (Unavailable ''no''), s)),
     aw_parse_jwk_set = Inl, aw_rsa_key = (\<lambda>_ _. Inl ''no''), aw_now = (\<lambda>_. 0)\<rparr>"

definition map_service :: "(unit, row_map, row_map) service" where
  "map_service = \<lparr>sv_world = closed_world, sv_policy = Emulator, sv_registry = [], sv_context = map_context,
     sv_sessions = sample_ops, sv_session_mongo = map_mongo,
     sv_query_driver = \<lparr>create_indexes = (\<lambda>s _ _. (Inr (), s)), find_rows = (\<lambda>s _ _ _. (Inr [], s))\<rparr>,
     sv_distinct = (\<lambda>_ s. (Inr [], s)), sv_instance = ''i'', sv_message = (\<lambda>_. []), sv_instant = (\<lambda>_. 0),
     sv_elapsed = (\<lambda>_. 0), sv_hash = (\<lambda>_ _. 0), sv_others = (\<lambda>d. d)\<rparr>"

text \<open>One document, \<open>c/x\<close>, stored at time 5.\<close>

definition one_document :: row_map where
  "one_document c i =
     (if c = ''p~d'' \<and> i = ''c/x''
      then Some \<lparr>row_id = ''c/x'', row_create_time_us = 5,
             row_set = \<lparr>rs_collection_path = ''c'', rs_collection_id = ''c'', rs_update_time_us = 5, rs_payload = [],
               rs_index = index_document sample_db [''c'', ''x''] []\<rparr>\<rparr>
      else None)"

definition fresh_server :: "(unit, row_map) server" where
  "fresh_server = \<lparr>st_query = \<lparr>qs_session = one_document, qs_indexed = []\<rparr>,
     st_keys = \<lparr>by_kid = [], refreshed = None\<rparr>, st_txns = empty_manager, st_events = []\<rparr>"

definition sample_token :: token where "sample_token = make_token 1 0"

definition open_txn :: txn_state where
  "open_txn = \<lparr>tx_database = sample_db, tx_read_only = False, read_versions = [], expires_at = TXN_LIFETIME\<rparr>"

definition begun_server :: "(unit, row_map) server" where
  "begun_server = fresh_server\<lparr>st_txns := \<lparr>counter = 1, active = [(sample_token, open_txn)]\<rparr>\<rparr>"

definition reading_server :: "i64 \<Rightarrow> (unit, row_map) server" where
  "reading_server v = fresh_server\<lparr>st_txns := \<lparr>counter = 1, active = [(sample_token, open_txn\<lparr>read_versions := [(''c/x'', v)]\<rparr>)]\<rparr>\<rparr>"

lemma sample_database_text: "parse_database ''projects/p/databases/d'' = Inr sample_db"
  unfolding sample_db_def by code_simp

lemma sample_name_text: "parse_name ''projects/p/databases/d/documents/c/x'' = Inr \<lparr>rn_database = sample_db, rn_path = [''c'', ''x'']\<rparr>"
  unfolding sample_db_def by code_simp

lemma begun: "serve map_service (BeginTransaction ''projects/p/databases/d'' None) fresh_server = begun_server"
  by (simp add: serve_def begin_transaction_call_def and_then_def parsed_as_def answer_def sample_database_text
      begin_transaction_with_def txns_call_def begin_txn_def Let_def fresh_server_def begun_server_def empty_manager_def
      map_service_def sample_token_def open_txn_def)

lemma begun_run: "server_run map_service fresh_server begun_server"
proof -
  have "counter (st_txns fresh_server) \<noteq> - 1" by (simp add: fresh_server_def empty_manager_def)
  from server_step.request [OF this, of map_service "BeginTransaction ''projects/p/databases/d'' None"]
  show ?thesis unfolding begun by (rule server_run.step [OF server_run.idle])
qed

lemma sample_path: "parse_path ''c/x'' = Inr [''c'', ''x'']" "show_path [''c'', ''x''] = ''c/x''"
    "collection_name sample_db = ''p~d''" "is_document [''c'', ''x'']"
  by code_simp+

definition sample_stored :: stored_document where
  "sample_stored = \<lparr>sd_path = [''c'', ''x''], create_time_us = 5, update_time_us = 5, sd_fields = []\<rparr>"

lemma sample_get: "get_document map_mongo empty_codec sample_db [''c'', ''x''] one_document = (Inr (Some sample_stored), one_document)"
  by (simp add: get_document_def map_mongo_def sample_path one_document_def decode_row_def empty_codec_def sample_stored_def)

lemma sample_authorized: "authorized map_service None st = (Inr Unauthenticated, st)"
  by (simp add: authorized_def map_service_def authorize_def from_header_def)

lemma map_service_simps: "rc_mongo (sv_context map_service) = map_mongo" "rc_codec (sv_context map_service) = empty_codec"
    "sv_registry map_service = []" "sv_sessions map_service = sample_ops" "sv_session_mongo map_service = map_mongo"
    "sv_instance map_service = ''i''" "sv_instant map_service d = 0" "rc_now_us (sv_context map_service) d = 7"
  by (simp_all add: map_service_def map_context_def)

lemma open_check: "check ctx [] Unauthenticated req d = (Inr (), d)"
  by (simp add: check_def for_project_def registry_get_def)

lemma sample_read_answer:
  "get_document_call map_service None \<lparr>gq_name = ''projects/p/databases/d/documents/c/x'', gq_selector = Some (In_transaction sample_token)\<rparr>
     begun_server = (Inr (to_wire_document \<lparr>rn_database = sample_db, rn_path = [''c'', ''x'']\<rparr> sample_stored), reading_server 5)"
proof -
  have d: "st_driver begun_server = one_document" by (simp add: begun_server_def fresh_server_def)
  show ?thesis
    by (simp add: get_document_call_def and_then_def sample_authorized get_name_def sample_name_text sample_path answer_def
        read_one_def engine_call_def on_driver_def map_service_simps d sample_get observe_def selector_token_def txns_call_def
        check_access_def open_check)
      (simp add: begun_server_def reading_server_def fresh_server_def record_read_def sample_stored_def open_txn_def
        observed_version_def)
qed

lemma sample_version: "version_at empty_codec (\<lambda>s. s) one_document sample_db ''c/x'' = Some 5"
  by (simp add: version_at_def sample_path stored_at_def one_document_def decode_row_def empty_codec_def)

lemma sample_commit: "apply_commit sample_ops map_mongo empty_codec ''i'' sample_db [] 7 d = (Inr \<lparr>outcomes = [], changes = []\<rparr>, d)"
  by (simp add: apply_commit_def MAX_TRANSACTION_ATTEMPTS_def numeral_eq_Suc sample_ops_def apply_in_transaction_def
      commit_transaction_def MAX_COMMIT_ATTEMPTS_def)

lemma sample_take:
  "take_txn 0 sample_token sample_db (st_txns (reading_server v))
     = (Inr (open_txn\<lparr>read_versions := [(''c/x'', v)]\<rparr>), \<lparr>counter = 1, active = []\<rparr>)"
  by (simp add: reading_server_def take_txn_def open_txn_def TXN_LIFETIME_def Let_def)

lemma sample_driver: "st_driver (reading_server v) = one_document"
  by (simp add: reading_server_def fresh_server_def)

lemma other_instances:
  "engine_call (sv\<lparr>sv_others := f\<rparr>) = engine_call sv" "authorized (sv\<lparr>sv_others := f\<rparr>) = authorized sv"
proof -
  have "engine_status (sv\<lparr>sv_others := f\<rparr>) = engine_status sv" by (simp add: fun_eq_iff engine_status_def split: engine_error.split)
  then show "engine_call (sv\<lparr>sv_others := f\<rparr>) = engine_call sv" by (intro ext) (simp add: engine_call_def)
  show "authorized (sv\<lparr>sv_others := f\<rparr>) = authorized sv" by (simp add: fun_eq_iff authorized_def)
qed

text \<open>The commit of the transaction that read the document, whatever other instances do meanwhile.\<close>

lemma sample_commit_others:
  "\<exists>st. commit (map_service\<lparr>sv_others := f\<rparr>) None
      \<lparr>mq_database = ''projects/p/databases/d'', mq_writes = [], mq_transaction = sample_token\<rparr> (reading_server 5)
      = (Inr \<lparr>cr_write_results = [], cr_commit_time = timestamp_from_us 7\<rparr>, st) \<and> st_driver st = f one_document"
proof -
  have "sample_token \<noteq> []" by (simp add: sample_token_def make_token_def)
  then show ?thesis
    by (simp add: commit_def and_then_def other_instances sample_authorized parsed_as_def sample_database_text answer_def now_us_def
        on_driver_def check_writes_def for_project_def registry_get_def finish_transaction_def txns_call_def map_service_simps
        sample_take sample_driver open_txn_def engine_call_def sample_path sample_get sample_stored_def observed_version_def
        commit_call_def sample_commit commit_published_def publish_def write_results_def Let_def)
qed

lemma sample_commit_answer:
  "\<exists>st. commit map_service None \<lparr>mq_database = ''projects/p/databases/d'', mq_writes = [], mq_transaction = sample_token\<rparr>
     (reading_server 5) = (Inr \<lparr>cr_write_results = [], cr_commit_time = timestamp_from_us 7\<rparr>, st)"
proof -
  have "map_service\<lparr>sv_others := \<lambda>d. d\<rparr> = map_service" by (simp add: map_service_def)
  with sample_commit_others [of "\<lambda>d. d"] show ?thesis by auto
qed

theorem transaction_reads_current_witness:
  "\<exists>doc (st :: (unit, row_map) server). to_wire_document \<lparr>rn_database = sample_db, rn_path = [''c'', ''x'']\<rparr> sample_stored
      = to_wire_document \<lparr>rn_database = sample_db, rn_path = [''c'', ''x'']\<rparr> doc
    \<and> version_at empty_codec (\<lambda>s. s) one_document sample_db ''c/x'' = Some (update_time_us doc)
    \<and> hm_get (active (st_txns st)) sample_token = None"
proof -
  have l: "find_law (\<lambda>s. s) (rc_mongo (sv_context map_service))"
    using map_mongo_laws by (simp add: map_service_simps mongo_laws_def)
  have t: "hm_get (active (st_txns begun_server)) sample_token = Some open_txn" "st_txns fresh_server = empty_manager"
    "sample_token \<noteq> []" "hm_get (read_versions open_txn) (show_path [''c'', ''x'']) = None" "tx_database open_txn = sample_db"
    by (simp_all add: begun_server_def fresh_server_def sample_token_def make_token_def open_txn_def)
  obtain st where c: "commit map_service None
      \<lparr>mq_database = ''projects/p/databases/d'', mq_writes = [], mq_transaction = sample_token\<rparr> (reading_server 5)
      = (Inr \<lparr>cr_write_results = [], cr_commit_time = timestamp_from_us 7\<rparr>, st)" using sample_commit_answer by blast
  have dr: "st_driver (reading_server 5) = one_document" by (rule sample_driver)
  from transaction_reads_current [OF l begun_run t(2,1,3) sample_name_text _ _ sample_read_answer server_run.idle c] t(4,5)
  obtain doc d s1 auth where w: "to_wire_document \<lparr>rn_database = sample_db, rn_path = [''c'', ''x'']\<rparr> sample_stored
      = to_wire_document \<lparr>rn_database = sample_db, rn_path = [''c'', ''x'']\<rparr> doc"
    and s: "authorized map_service None (reading_server 5) = (Inr auth, s1)" "d = st_driver s1"
    and v: "version_at empty_codec (\<lambda>s. s) d sample_db ''c/x'' = Some (update_time_us doc)"
    and n: "hm_get (active (st_txns st)) sample_token = None"
    by (auto simp: sample_path map_service_simps sample_database_text)
  have "s1 = reading_server 5" using s(1) by (simp add: sample_authorized)
  then have "d = one_document" using s(2) dr by simp
  then show ?thesis using w v n by blast
qed

text \<open>
  What the commit lock does not stop: another instance deletes the document after the read set was
  validated, and the commit of the transaction that read it succeeds.
\<close>

lemma commit_over_changed_read:
  "\<exists>st. commit (map_service\<lparr>sv_others := \<lambda>_ _ _. None\<rparr>) None
      \<lparr>mq_database = ''projects/p/databases/d'', mq_writes = [], mq_transaction = sample_token\<rparr> (reading_server 5)
      = (Inr \<lparr>cr_write_results = [], cr_commit_time = timestamp_from_us 7\<rparr>, st)
    \<and> version_at empty_codec (\<lambda>s. s) (st_driver st) sample_db ''c/x'' = Some 0"
proof -
  have "version_at empty_codec (\<lambda>s. s) (\<lambda>_ _. None) sample_db ''c/x'' = Some 0"
    by (simp add: version_at_def sample_path stored_at_def)
  then show ?thesis using sample_commit_others [of "\<lambda>_ _ _. None"] by metis
qed

theorem stale_transaction_refused_witness:
  "\<exists>e st'. commit map_service None \<lparr>mq_database = ''projects/p/databases/d'', mq_writes = [], mq_transaction = sample_token\<rparr>
      (reading_server 4) = (Inl e, st')
    \<and> st_driver st' = one_document \<and> st_events st' = []"
proof -
  have l: "find_law (\<lambda>s. s) (rc_mongo (sv_context map_service))"
    using map_mongo_laws by (simp add: map_service_simps mongo_laws_def)
  have "\<exists>e st'. commit map_service None \<lparr>mq_database = ''projects/p/databases/d'', mq_writes = [], mq_transaction = sample_token\<rparr>
      (reading_server 4) = (Inl e, st')
    \<and> st_driver st' = st_driver (reading_server 4) \<and> st_events st' = st_events (reading_server 4)"
    by (rule stale_transaction_refused [OF l, where txn = "open_txn\<lparr>read_versions := [(''c/x'', 4)]\<rparr>" and path = "''c/x''" and v = 4
          and auth = Unauthenticated])
      (simp_all add: sample_authorized map_service_simps sample_driver sample_version open_txn_def,
       simp_all add: reading_server_def sample_token_def make_token_def open_txn_def)
  then show ?thesis by (simp add: sample_driver) (simp add: reading_server_def fresh_server_def)
qed

section \<open>Reads are checked\<close>

text \<open>
  What an answer of a batch says of the name it answers: a document that was found is the one
  read, and the rules let it be read; a missing one was not found.
\<close>

definition answers_name ::
  "('k, 'd, 's) service \<Rightarrow> authorization \<Rightarrow> database_name \<Rightarrow> string \<Rightarrow> batch_get_response \<Rightarrow> bool" where
  "answers_name sv auth database name response \<longleftrightarrow>
     (\<exists>parsed. parse_document name = Inr parsed
        \<and> (case bg_result response of
             Found wire \<Rightarrow> (\<exists>doc. wire = to_wire_document parsed doc \<and> read_permitted sv auth database (rn_path parsed) doc)
           | Missing n \<Rightarrow> n = name
               \<and> (\<exists>d d'. get_document (rc_mongo (sv_context sv)) (rc_codec (sv_context sv)) database (rn_path parsed) d
                         = (Inr None, d'))))"

fun unseen :: "string list \<Rightarrow> string list \<Rightarrow> string list" where
  "unseen [] seen = []"
| "unseen (name # names) seen = (if name \<in> set seen then unseen names seen else name # unseen names (name # seen))"

lemma unseen_set: "set (unseen names seen) = set names - set seen" "distinct (unseen names seen)"
proof (induction names seen rule: unseen.induct)
  case (2 name names seen)
  case 1
  show ?case using 2 by auto
  case 2
  show ?case using "2.IH" by auto
qed simp_all

lemma batch_get_each_answers:
  "batch_get_each sv auth database read_time txn new_txn names seen first st = (Inr responses, st')
     \<Longrightarrow> list_all2 (answers_name sv auth database) (unseen names seen) responses"
proof (induction names arbitrary: seen first st responses)
  case (Cons name names)
  show ?case
  proof (cases "name \<in> set seen")
    case True
    then show ?thesis using Cons by simp
  next
    case False
    with Cons.prems obtain parsed st1 found st2 st3 rest where p: "parse_document name = Inr parsed"
      and r: "read_one sv database (rn_path parsed) st = (Inr found, st1)"
      and o: "observe txn (show_path (rn_path parsed)) (observed_version found) st1 = (Inr (), st2)"
      and k: "(if found = None then answer ()
               else check_access sv auth (read_access database (rn_path parsed) OpGet found)) st2 = (Inr (), st3)"
      and rest: "batch_get_each sv auth database read_time txn new_txn names (name # seen) False st3 = (Inr rest, st')"
      and resp: "responses = \<lparr>bg_result = (case found of Some doc \<Rightarrow> Found (to_wire_document parsed doc) | None \<Rightarrow> Missing name),
                 bg_read_time = read_time, bg_transaction = first_token new_txn first\<rparr> # rest"
      by (simp, elim and_then_InrE) (simp add: parsed_as_Inr answer_def)
    have d: "st_driver st2 = st_driver st1"
      using o by (auto simp: observe_def txns_call_def answer_def Let_def split: option.splits)
    have "answers_name sv auth database name (hd responses)"
    proof (cases found)
      case None
      then show ?thesis using r p unfolding answers_name_def resp read_one_def engine_call_Inr by auto
    next
      case (Some doc)
      then have "check_access sv auth (read_access database (rn_path parsed) OpGet (Some doc)) st2 = (Inr (), st3)"
        using k by simp
      then have "read_permitted sv auth database (rn_path parsed) doc"
        using r d Some unfolding read_permitted_def read_one_def check_access_def engine_call_Inr on_driver_Inr by auto blast
      then show ?thesis using p Some unfolding answers_name_def resp by auto
    qed
    then show ?thesis using Cons.IH [OF rest] False by (simp add: resp)
  qed
qed (simp add: answer_def)

text \<open>
  C9. A batch of reads answers every distinct name exactly once and shows a document only if the rules allow its reading: each document answered
  was read under its name, and the check of a \<open>get\<close> of it passed for the caller.
\<close>

theorem batch_get_checked:
  assumes "batch_get_documents sv header req st = (Inr responses, st')"
  shows "\<exists>auth st1 database order. authorized sv header st = (Inr auth, st1)
    \<and> parse_database (bq_database req) = Inr database
    \<and> distinct order \<and> set order = set (bq_documents req)
    \<and> list_all2 (answers_name sv auth database) order responses"
proof -
  from assms obtain auth st1 database now txns st2 where a: "authorized sv header st = (Inr auth, st1)"
    "parse_database (bq_database req) = Inr database"
    "(case txns of (txn, new_txn) \<Rightarrow> batch_get_each sv auth database (timestamp_from_us now) txn new_txn (bq_documents req) [] True) st2
       = (Inr responses, st')"
    unfolding batch_get_documents_def by (elim and_then_InrE) (simp add: parsed_as_Inr now_us_def)
  then show ?thesis
    using batch_get_each_answers [of sv auth database "timestamp_from_us now" "fst txns" "snd txns" "bq_documents req" "[]" True st2]
      unseen_set [of "bq_documents req" "[]"] by (auto simp: split_beta)
qed

theorem batch_get_checked_witness:
  "\<exists>order. distinct order \<and> set order = {''projects/p/databases/d/documents/c/x''}
    \<and> (\<exists>auth responses. list_all2 (answers_name map_service auth sample_db) order responses)"
proof -
  let ?name = "''projects/p/databases/d/documents/c/x''"
  have p: "parse_document ?name = Inr \<lparr>rn_database = sample_db, rn_path = [''c'', ''x'']\<rparr>"
    unfolding sample_db_def by code_simp
  have d: "st_driver fresh_server = one_document" by (simp add: fresh_server_def)
  have "\<exists>responses st'. batch_get_documents map_service None
      \<lparr>bq_database = ''projects/p/databases/d'', bq_documents = [?name, ?name], bq_selector = None\<rparr> fresh_server
      = (Inr responses, st')"
    by (simp add: batch_get_documents_def and_then_def sample_authorized parsed_as_def sample_database_text answer_def
        select_transaction_def now_us_def p read_one_def engine_call_def on_driver_def map_service_simps d sample_get observe_def
        check_access_def open_check)
  then obtain responses st' where "batch_get_documents map_service None
      \<lparr>bq_database = ''projects/p/databases/d'', bq_documents = [?name, ?name], bq_selector = None\<rparr> fresh_server
      = (Inr responses, st')" by blast
  from batch_get_checked [OF this] show ?thesis by (auto simp: sample_database_text)
qed

section \<open>Methods without a check\<close>

text \<open>The ruleset has no influence on these methods, nor on whom they answer: they take no header.\<close>

lemma unchecked_methods:
  fixes sv :: "('k, 'd, 's) service" and st :: "('k, 'd) server"
  shows "create_document (sv\<lparr>sv_registry := r\<rparr>) cr st = create_document sv cr st"
    "update_document (sv\<lparr>sv_registry := r\<rparr>) ur st = update_document sv ur st"
    "delete_document_call (sv\<lparr>sv_registry := r\<rparr>) dr st = delete_document_call sv dr st"
    "list_documents (sv\<lparr>sv_registry := r\<rparr>) lr st = list_documents sv lr st"
    "run_aggregation_query (sv\<lparr>sv_registry := r\<rparr>) ar st = run_aggregation_query sv ar st"
proof -
  have e: "engine_status (sv\<lparr>sv_registry := r\<rparr>) = engine_status sv" by (rule ext) (simp add: engine_status_def split: engine_error.split)
  have p: "parsed_as (sv\<lparr>sv_registry := r\<rparr>) x = parsed_as sv x" for x :: "engine_error + 'y" by (simp add: parsed_as_def split: sum.split)
  have n: "now_us (sv\<lparr>sv_registry := r\<rparr>) = now_us sv" by (simp add: now_us_def fun_eq_iff)
  have c: "commit_call (sv\<lparr>sv_registry := r\<rparr>) = commit_call sv" by (simp add: commit_call_def engine_call_def e fun_eq_iff)
  have q: "query_call (sv\<lparr>sv_registry := r\<rparr>) f = query_call sv f" for f :: "'d query_state \<Rightarrow> (engine_error + 'y) \<times> 'd query_state"
    by (simp add: query_call_def e fun_eq_iff)
  have w: "apply_single_write (sv\<lparr>sv_registry := r\<rparr>) = apply_single_write sv"
    by (simp add: apply_single_write_def n c fun_eq_iff)
  show "create_document (sv\<lparr>sv_registry := r\<rparr>) cr st = create_document sv cr st"
    by (simp add: create_document_def p w cong: sum.case_cong)
  show "update_document (sv\<lparr>sv_registry := r\<rparr>) ur st = update_document sv ur st"
    by (simp add: update_document_def p w)
  show "delete_document_call (sv\<lparr>sv_registry := r\<rparr>) dr st = delete_document_call sv dr st"
    by (simp add: delete_document_call_def p w)
  show "list_documents (sv\<lparr>sv_registry := r\<rparr>) lr st = list_documents sv lr st"
    by (simp add: list_documents_def p q cong: if_cong option.case_cong)
  show "run_aggregation_query (sv\<lparr>sv_registry := r\<rparr>) ar st = run_aggregation_query sv ar st"
    by (simp add: run_aggregation_query_def p q e n cong: option.case_cong sum.case_cong prod.case_cong)
qed

end
