(* ===== verification/FanoutProps.thy ===== *)
theory FanoutProps
  imports Fanout Txn CommitBatch
begin

text \<open>
  The events other instances publish of a commit agree with the event of the instance that
  committed.
\<close>

section \<open>The notices a batch stores\<close>







section \<open>Rebuilding\<close>








section \<open>An example\<close>




end
