(* ===== verification/Listen.thy ===== *)
theory Listen
  imports Service
begin

text \<open>
  \<open>listen.rs\<close>: a session of the Listen stream.  Its state is threaded beside that of the server;
  what it sends is appended to \<open>ls_out\<close>, sending being assumed to succeed.  The \<open>select\<close> between
  requests and events takes them in any order, and the server may change in between.
\<close>

section \<open>Messages\<close>

datatype change_kind = No_change | Add_change | Remove_change | Current_change | Reset_change

record target_change =
  tc_kind :: change_kind
  tc_ids :: "i32 list"
  tc_cause :: "status option"
  tc_resume_token :: "u8 list"
  tc_read_time :: "timestamp option"

datatype listen_response =
    Target_change target_change
  | Document_change wire_document "i32 list"
  | Document_delete string "i32 list" timestamp
  | Document_remove string "i32 list" timestamp

text \<open>A query target without a structured query has \<open>None\<close> for it.\<close>

datatype target_type = Documents_type "string list" | Query_type string "structured_query option"

record listen_target =
  lt_target_id :: i32
  lt_type :: "target_type option"
  lt_resume :: bool

datatype listen_change = Add_target listen_target | Remove_target i32

record listen_request =
  lr_database :: string
  lr_change :: "listen_change option"

section \<open>The session\<close>

datatype target_kind = Documents_target "resource_path list" | Query_target resource_path structured_query

record target_state =
  ts_kind :: target_kind
  ts_members :: "(string \<times> i64) list"

record listen_session =
  ls_database :: "database_name option"
  ls_targets :: "(i32 \<times> target_state) list"
  ls_next_id :: i32
  ls_last_read :: i64
  ls_out :: "listen_response list"

definition new_session :: listen_session where
  "new_session = \<lparr>ls_database = None, ls_targets = [], ls_next_id = 1000000, ls_last_read = 0, ls_out = []\<rparr>"

text \<open>The stream ends with a status; an \<open>expect\<close> that fails panics.\<close>

datatype listen_failure = Ended status | Listen_panic

type_synonym ('k, 'd, 'a) listen =
  "listen_session \<Rightarrow> ('k, 'd) server \<Rightarrow> (listen_failure + 'a) \<times> listen_session \<times> ('k, 'd) server"

definition returns :: "'a \<Rightarrow> ('k, 'd, 'a) listen" where "returns a ls st = (Inr a, ls, st)"

definition ends :: "listen_failure \<Rightarrow> ('k, 'd, 'a) listen" where "ends e ls st = (Inl e, ls, st)"

definition next_do :: "('k, 'd, 'a) listen \<Rightarrow> ('a \<Rightarrow> ('k, 'd, 'b) listen) \<Rightarrow> ('k, 'd, 'b) listen" where
  "next_do m f ls st = (case m ls st of (Inl e, ls, st) \<Rightarrow> (Inl e, ls, st) | (Inr a, ls, st) \<Rightarrow> f a ls st)"

text \<open>A call of the server, whose answer is looked at.\<close>

definition asks :: "('k, 'd, 'a) handler \<Rightarrow> ('k, 'd, status + 'a) listen" where
  "asks h ls st = (let (r, st) = h st in (Inr r, ls, st))"

definition session :: "('k, 'd, listen_session) listen" where "session ls st = (Inr ls, ls, st)"

definition modify :: "(listen_session \<Rightarrow> listen_session) \<Rightarrow> ('k, 'd, unit) listen" where
  "modify f ls st = (Inr (), f ls, st)"

definition send :: "listen_response \<Rightarrow> ('k, 'd, unit) listen" where
  "send response = modify (\<lambda>ls. ls\<lparr>ls_out := ls_out ls @ [response]\<rparr>)"

definition read_time :: "i64 \<Rightarrow> ('k, 'd, i64) listen" where
  "read_time us ls st =
     (let t = (if sint (ls_last_read ls + 1) \<le> sint us then us else ls_last_read ls + 1)
      in (Inr t, ls\<lparr>ls_last_read := t\<rparr>, st))"

definition send_target_change ::
  "change_kind \<Rightarrow> i32 list \<Rightarrow> i64 option \<Rightarrow> u8 list \<Rightarrow> ('k, 'd, unit) listen" where
  "send_target_change kind ids read_us token =
     send (Target_change \<lparr>tc_kind = kind, tc_ids = ids, tc_cause = None, tc_resume_token = token,
       tc_read_time = map_option timestamp_from_us read_us\<rparr>)"

definition send_snapshot_marker :: "i64 \<Rightarrow> ('k, 'd, unit) listen" where
  "send_snapshot_marker us =
     next_do (read_time us) (\<lambda>read_us. send_target_change No_change [] (Some read_us) (be_bytes 8 (read_us :: u64)))"

definition full_name :: "database_name \<Rightarrow> resource_path \<Rightarrow> string" where
  "full_name database path = documents_root database @ ''/'' @ show_path path"

definition send_document_change :: "database_name \<Rightarrow> stored_document \<Rightarrow> i32 \<Rightarrow> ('k, 'd, unit) listen" where
  "send_document_change database doc i =
     send (Document_change (to_wire_document \<lparr>rn_database = database, rn_path = sd_path doc\<rparr> doc) [i])"

text \<open>The loops that send a document, a deletion or a removal for each element.\<close>

fun send_documents :: "database_name \<Rightarrow> stored_document list \<Rightarrow> i32 \<Rightarrow> ('k, 'd, unit) listen" where
  "send_documents database [] i = returns ()"
| "send_documents database (doc # docs) i =
     next_do (send_document_change database doc i) (\<lambda>_. send_documents database docs i)"

fun send_deletes :: "database_name \<Rightarrow> resource_path list \<Rightarrow> i32 \<Rightarrow> i64 \<Rightarrow> ('k, 'd, unit) listen" where
  "send_deletes database [] i read_us = returns ()"
| "send_deletes database (path # paths) i read_us =
     next_do (send (Document_delete (full_name database path) [i] (timestamp_from_us read_us)))
       (\<lambda>_. send_deletes database paths i read_us)"

fun send_removes :: "database_name \<Rightarrow> string list \<Rightarrow> i32 \<Rightarrow> i64 \<Rightarrow> ('k, 'd, unit) listen" where
  "send_removes database [] i read_us = returns ()"
| "send_removes database (path # paths) i read_us =
     next_do (send (Document_remove (documents_root database @ ''/'' @ path) [i] (timestamp_from_us read_us)))
       (\<lambda>_. send_removes database paths i read_us)"

section \<open>Targets\<close>

definition the_target :: "i32 \<Rightarrow> ('k, 'd, target_state) listen" where
  "the_target i ls st = (case hm_get (ls_targets ls) i of None \<Rightarrow> (Inl Listen_panic, ls, st) | Some t \<Rightarrow> (Inr t, ls, st))"

text \<open>\<open>get_mut(&id).expect(..).members\<close>, updated.\<close>

definition update_members ::
  "i32 \<Rightarrow> ((string \<times> i64) list \<Rightarrow> (string \<times> i64) list) \<Rightarrow> ('k, 'd, unit) listen" where
  "update_members i f =
     next_do (the_target i) (\<lambda>t. modify (\<lambda>ls. ls\<lparr>ls_targets := hm_insert i (t\<lparr>ts_members := f (ts_members t)\<rparr>) (ls_targets ls)\<rparr>))"

definition may_read ::
  "('k, 'd, 's) service \<Rightarrow> authorization \<Rightarrow> database_name \<Rightarrow> resource_path \<Rightarrow> stored_document option \<Rightarrow> ('k, 'd, bool) listen" where
  "may_read sv auth database path doc =
     next_do (asks (check_access sv auth (read_access database path OpGet doc))) (\<lambda>r. returns (r = Inr ()))"

definition deny_target :: "i32 \<Rightarrow> ('k, 'd, unit) listen" where
  "deny_target i =
     next_do (modify (\<lambda>ls. ls\<lparr>ls_targets := hm_remove i (ls_targets ls)\<rparr>)) (\<lambda>_.
     send (Target_change \<lparr>tc_kind = Remove_change, tc_ids = [i],
       tc_cause = Some (Permission_denied ''Missing or insufficient permissions.''), tc_resume_token = [], tc_read_time = None\<rparr>))"

text \<open>The documents of a target, read and checked one after the other; \<open>None\<close> is a denial.\<close>

fun read_documents ::
  "('k, 'd, 's) service \<Rightarrow> authorization \<Rightarrow> database_name \<Rightarrow> resource_path list
     \<Rightarrow> ('k, 'd, (stored_document list \<times> resource_path list) option) listen" where
  "read_documents sv auth database [] = returns (Some ([], []))"
| "read_documents sv auth database (path # paths) =
     next_do (asks (on_driver (\<lambda>d. let (r, d) = get_document (rc_mongo (sv_context sv)) (rc_codec (sv_context sv)) database path d
                                   in (map_sum (\<lambda>e. Internal (rc_error_text (sv_context sv) e)) id r, d)))) (\<lambda>found.
     case found of
       Inl status \<Rightarrow> ends (Ended status)
     | Inr doc \<Rightarrow>
         next_do (may_read sv auth database path doc) (\<lambda>allowed.
         if \<not> allowed then returns None
         else
           next_do (read_documents sv auth database paths) (\<lambda>rest.
           returns (map_option (\<lambda>(found, missing).
             case doc of Some d \<Rightarrow> (d # found, missing) | None \<Rightarrow> (found, path # missing)) rest))))"

text \<open>A query of a session; its errors become statuses of the given kind.\<close>

definition run_target_query ::
  "('k, 'd, 's) service \<Rightarrow> (string \<Rightarrow> status) \<Rightarrow> database_name \<Rightarrow> resource_path \<Rightarrow> structured_query
     \<Rightarrow> ('k, 'd, stored_document list) listen" where
  "run_target_query sv kind database par query ls st =
     (let (r, q) = run_query (sv_query_driver sv) (rc_codec (sv_context sv)) database par query (st_query st)
      in (map_sum (\<lambda>e. Ended (kind (rc_error_text (sv_context sv) e))) id r, ls, st\<lparr>st_query := q\<rparr>))"

text \<open>The check of a query target, for listing the collection of its first selector.\<close>

definition may_list ::
  "('k, 'd, 's) service \<Rightarrow> authorization \<Rightarrow> database_name \<Rightarrow> resource_path \<Rightarrow> structured_query \<Rightarrow> ('k, 'd, bool) listen" where
  "may_list sv auth database par query =
     (case sq_from query of
        [] \<Rightarrow> returns True
      | selector # _ \<Rightarrow>
          (case child par (cs_collection_id selector) of
             Inl _ \<Rightarrow> returns True
           | Inr collection \<Rightarrow>
               next_do (asks (check_access sv auth (read_access database collection OpList None))) (\<lambda>r.
               returns (r = Inr ()))))"

definition initial_documents ::
  "('k, 'd, 's) service \<Rightarrow> authorization \<Rightarrow> database_name \<Rightarrow> target_kind
     \<Rightarrow> ('k, 'd, (stored_document list \<times> resource_path list) option) listen" where
  "initial_documents sv auth database kind =
     (case kind of
        Documents_target paths \<Rightarrow> read_documents sv auth database paths
      | Query_target par query \<Rightarrow>
          next_do (may_list sv auth database par query) (\<lambda>allowed.
          if \<not> allowed then returns None
          else
            next_do (run_target_query sv Invalid_argument database par query) (\<lambda>docs. returns (Some (docs, [])))))"

definition members_of :: "stored_document list \<Rightarrow> (string \<times> i64) list" where
  "members_of docs = fold (\<lambda>doc. hm_insert (show_path (sd_path doc)) (update_time_us doc)) docs []"

definition the_database :: "('k, 'd, database_name) listen" where
  "the_database ls st = (case ls_database ls of None \<Rightarrow> (Inl Listen_panic, ls, st) | Some d \<Rightarrow> (Inr d, ls, st))"

definition server_now :: "('k, 'd, 's) service \<Rightarrow> ('k, 'd, i64) listen" where
  "server_now sv ls st = (Inr (rc_now_us (sv_context sv) (st_driver st)), ls, st)"

definition send_initial_state ::
  "('k, 'd, 's) service \<Rightarrow> authorization \<Rightarrow> i32 \<Rightarrow> ('k, 'd, unit) listen" where
  "send_initial_state sv auth i =
     next_do the_database (\<lambda>database.
     next_do (the_target i) (\<lambda>t.
     next_do (initial_documents sv auth database (ts_kind t)) (\<lambda>docs.
     case docs of
       None \<Rightarrow> deny_target i
     | Some (found, missing) \<Rightarrow>
         next_do (server_now sv) (\<lambda>now.
         next_do (send_documents database found i) (\<lambda>_.
         next_do (read_time now) (\<lambda>read_us.
         next_do (send_deletes database missing i read_us) (\<lambda>_.
         next_do (update_members i (\<lambda>_. members_of found)) (\<lambda>_.
         next_do (send_target_change Current_change [i] (Some read_us) []) (\<lambda>_.
         send_snapshot_marker now)))))))))"

section \<open>Requests\<close>

definition parsed :: "('k, 'd, 's) service \<Rightarrow> engine_error + 'a \<Rightarrow> ('k, 'd, 'a) listen" where
  "parsed sv r =
     (case r of Inl e \<Rightarrow> ends (Ended (Invalid_argument (rc_error_text (sv_context sv) e))) | Inr a \<Rightarrow> returns a)"

fun document_paths :: "('k, 'd, 's) service \<Rightarrow> string list \<Rightarrow> ('k, 'd, resource_path list) listen" where
  "document_paths sv [] = returns []"
| "document_paths sv (name # names) =
     next_do (parsed sv (parse_document name)) (\<lambda>n.
     next_do (document_paths sv names) (\<lambda>paths. returns (rn_path n # paths)))"

definition kind_of_target :: "('k, 'd, 's) service \<Rightarrow> listen_target \<Rightarrow> ('k, 'd, target_kind) listen" where
  "kind_of_target sv target =
     (case lt_type target of
        Some (Documents_type names) \<Rightarrow> next_do (document_paths sv names) (\<lambda>paths. returns (Documents_target paths))
      | Some (Query_type parent_text query) \<Rightarrow>
          next_do (parsed sv (parse_name parent_text)) (\<lambda>par.
          case query of
            None \<Rightarrow> ends (Ended (Invalid_argument ''missing structured_query''))
          | Some query \<Rightarrow> returns (Query_target (rn_path par) query))
      | None \<Rightarrow> ends (Ended (Invalid_argument ''missing target type'')))"

definition choose_id :: "i32 \<Rightarrow> ('k, 'd, i32) listen" where
  "choose_id i ls st =
     (if i \<noteq> 0 then (Inr i, ls, st) else (Inr (ls_next_id ls + 1), ls\<lparr>ls_next_id := ls_next_id ls + 1\<rparr>, st))"

definition add_target ::
  "('k, 'd, 's) service \<Rightarrow> authorization \<Rightarrow> listen_target \<Rightarrow> ('k, 'd, unit) listen" where
  "add_target sv auth target =
     next_do (choose_id (lt_target_id target)) (\<lambda>i.
     next_do session (\<lambda>ls.
     if hm_get (ls_targets ls) i \<noteq> None then ends (Ended (Invalid_argument ''duplicate target id''))
     else
       next_do (kind_of_target sv target) (\<lambda>kind.
       next_do (if lt_resume target then send_target_change Reset_change [i] None [] else returns ()) (\<lambda>_.
       next_do (send_target_change Add_change [i] None []) (\<lambda>_.
       next_do (modify (\<lambda>ls. ls\<lparr>ls_targets := hm_insert i \<lparr>ts_kind = kind, ts_members = []\<rparr> (ls_targets ls)\<rparr>)) (\<lambda>_.
       send_initial_state sv auth i))))))"

definition pin_database :: "database_name \<Rightarrow> ('k, 'd, unit) listen" where
  "pin_database database =
     next_do session (\<lambda>ls.
     case ls_database ls of
       None \<Rightarrow> modify (\<lambda>ls. ls\<lparr>ls_database := Some database\<rparr>)
     | Some existing \<Rightarrow>
         if existing \<noteq> database then ends (Ended (Invalid_argument ''listen stream spans databases'')) else returns ())"

definition handle_request ::
  "('k, 'd, 's) service \<Rightarrow> authorization \<Rightarrow> listen_request \<Rightarrow> ('k, 'd, unit) listen" where
  "handle_request sv auth req =
     next_do (parsed sv (parse_database (lr_database req))) (\<lambda>database.
     next_do (pin_database database) (\<lambda>_.
     case lr_change req of
       Some (Add_target target) \<Rightarrow> add_target sv auth target
     | Some (Remove_target i) \<Rightarrow> modify (\<lambda>ls. ls\<lparr>ls_targets := hm_remove i (ls_targets ls)\<rparr>)
     | None \<Rightarrow> returns ()))"

section \<open>Events\<close>

definition query_may_cover :: "resource_path \<Rightarrow> structured_query \<Rightarrow> resource_path \<Rightarrow> bool" where
  "query_may_cover par query path =
     (case sq_from query of
        [] \<Rightarrow> False
      | selector # _ \<Rightarrow>
          (case parent path of
             None \<Rightarrow> False
           | Some collection \<Rightarrow>
               if cs_all_descendants selector then last_id collection = Some (cs_collection_id selector)
               else (case child par (cs_collection_id selector) of Inr target \<Rightarrow> collection = target | Inl _ \<Rightarrow> False)))"

fun document_events :: "database_name \<Rightarrow> i64 \<Rightarrow> i32 \<Rightarrow> document_delta list \<Rightarrow> ('k, 'd, unit) listen" where
  "document_events database commit_us i [] = returns ()"
| "document_events database commit_us i (delta # deltas) =
     next_do
       (case dd_after delta of
          Some doc \<Rightarrow>
            next_do (update_members i (hm_insert (show_path (dd_path delta)) (update_time_us doc))) (\<lambda>_.
            send_document_change database doc i)
        | None \<Rightarrow>
            next_do (update_members i (hm_remove (show_path (dd_path delta)))) (\<lambda>_.
            next_do (read_time commit_us) (\<lambda>read_us.
            send (Document_delete (full_name database (dd_path delta)) [i] (timestamp_from_us read_us)))))
       (\<lambda>_. document_events database commit_us i deltas)"

definition entered :: "(string \<times> i64) list \<Rightarrow> stored_document list \<Rightarrow> stored_document list" where
  "entered members docs = filter (\<lambda>doc. hm_get members (show_path (sd_path doc)) \<noteq> Some (update_time_us doc)) docs"

definition departed :: "(string \<times> i64) list \<Rightarrow> (string \<times> i64) list \<Rightarrow> string list" where
  "departed members new_members = filter (\<lambda>k. hm_get new_members k = None) (map fst members)"

text \<open>The answer says whether the target changed.\<close>

definition query_event ::
  "('k, 'd, 's) service \<Rightarrow> database_name \<Rightarrow> commit_event \<Rightarrow> i32 \<Rightarrow> target_state \<Rightarrow> resource_path \<Rightarrow> structured_query
     \<Rightarrow> ('k, 'd, bool) listen" where
  "query_event sv database event i t par query =
     (if \<not> list_ex (\<lambda>delta. query_may_cover par query (dd_path delta)) (ce_changes event) then returns False
      else
        next_do (run_target_query sv Internal database par query) (\<lambda>docs.
        let new_members = members_of docs;
            news = entered (ts_members t) docs;
            gone = departed (ts_members t) new_members
        in if news = [] \<and> gone = [] then returns False
           else
             next_do (update_members i (\<lambda>_. new_members)) (\<lambda>_.
             next_do (send_documents database news i) (\<lambda>_.
             next_do (read_time (ce_commit_us event)) (\<lambda>read_us.
             next_do (send_removes database gone i read_us) (\<lambda>_. returns True))))))"

definition target_event ::
  "('k, 'd, 's) service \<Rightarrow> database_name \<Rightarrow> commit_event \<Rightarrow> i32 \<Rightarrow> ('k, 'd, bool) listen" where
  "target_event sv database event i =
     next_do (the_target i) (\<lambda>t.
     case ts_kind t of
       Documents_target paths \<Rightarrow>
         (let watched = filter (\<lambda>delta. dd_path delta \<in> set paths) (ce_changes event)
          in next_do (document_events database (ce_commit_us event) i watched) (\<lambda>_. returns (watched \<noteq> [])))
     | Query_target par query \<Rightarrow> query_event sv database event i t par query)"

fun target_events ::
  "('k, 'd, 's) service \<Rightarrow> database_name \<Rightarrow> commit_event \<Rightarrow> i32 list \<Rightarrow> ('k, 'd, bool) listen" where
  "target_events sv database event [] = returns False"
| "target_events sv database event (i # ids) =
     next_do (target_event sv database event i) (\<lambda>change.
     next_do (target_events sv database event ids) (\<lambda>more. returns (change \<or> more)))"

definition handle_event :: "('k, 'd, 's) service \<Rightarrow> commit_event \<Rightarrow> ('k, 'd, unit) listen" where
  "handle_event sv event =
     next_do session (\<lambda>ls.
     if ls_database ls \<noteq> Some (ce_database event) then returns ()
     else
       next_do (target_events sv (ce_database event) event (map fst (ls_targets ls))) (\<lambda>any_change.
       if any_change then send_snapshot_marker (ce_commit_us event) else returns ()))"

text \<open>After a lag every target starts over.\<close>

definition clear_members :: "i32 \<Rightarrow> ('k, 'd, unit) listen" where
  "clear_members i =
     modify (\<lambda>ls. case hm_get (ls_targets ls) i of
       None \<Rightarrow> ls
     | Some t \<Rightarrow> ls\<lparr>ls_targets := hm_insert i (t\<lparr>ts_members := []\<rparr>) (ls_targets ls)\<rparr>)"

fun resync :: "('k, 'd, 's) service \<Rightarrow> authorization \<Rightarrow> i32 list \<Rightarrow> ('k, 'd, unit) listen" where
  "resync sv auth [] = returns ()"
| "resync sv auth (i # ids) =
     next_do (send_target_change Reset_change [i] None []) (\<lambda>_.
     next_do (clear_members i) (\<lambda>_.
     next_do (send_initial_state sv auth i) (\<lambda>_.
     resync sv auth ids)))"

definition resync_all :: "('k, 'd, 's) service \<Rightarrow> authorization \<Rightarrow> ('k, 'd, unit) listen" where
  "resync_all sv auth = next_do session (\<lambda>ls. resync sv auth (map fst (ls_targets ls)))"

section \<open>The loop of the stream\<close>

datatype listen_input = Request_input listen_request | Event_input commit_event | Lagged_input

definition handle_input ::
  "('k, 'd, 's) service \<Rightarrow> authorization \<Rightarrow> listen_input \<Rightarrow> ('k, 'd, unit) listen" where
  "handle_input sv auth i =
     (case i of
        Request_input req \<Rightarrow> handle_request sv auth req
      | Event_input event \<Rightarrow> handle_event sv event
      | Lagged_input \<Rightarrow> resync_all sv auth)"

text \<open>
  Inputs as they come: a document of an event is at the path of its change, as in the events that
  commits publish, and a target names no document twice (a document that is created between two
  reads of one target would be sent and then deleted).
\<close>

definition event_ok :: "commit_event \<Rightarrow> bool" where
  "event_ok event \<longleftrightarrow> (\<forall>delta \<in> set (ce_changes event). \<forall>doc. dd_after delta = Some doc \<longrightarrow> sd_path doc = dd_path delta)"

definition target_ok :: "listen_target \<Rightarrow> bool" where
  "target_ok target \<longleftrightarrow>
     (case lt_type target of
        Some (Documents_type names) \<Rightarrow> distinct (map (\<lambda>name. map_sum id rn_path (parse_document name)) names)
      | _ \<Rightarrow> True)"

definition input_ok :: "listen_input \<Rightarrow> bool" where
  "input_ok i \<longleftrightarrow>
     (case i of
        Request_input req \<Rightarrow> (case lr_change req of Some (Add_target target) \<Rightarrow> target_ok target | _ \<Rightarrow> True)
      | Event_input event \<Rightarrow> event_ok event
      | Lagged_input \<Rightarrow> True)"

text \<open>The sessions that are still open after some inputs, over whatever state of the server each meets.\<close>

inductive listening :: "('k, 'd, 's) service \<Rightarrow> authorization \<Rightarrow> listen_input list \<Rightarrow> listen_session \<Rightarrow> bool" for sv auth where
  start: "listening sv auth [] new_session"
| input: "listening sv auth inputs ls \<Longrightarrow> input_ok i \<Longrightarrow> handle_input sv auth i ls st = (Inr (), ls', st') \<Longrightarrow>
    listening sv auth (inputs @ [i]) ls'"

end
