(* ===== verification/QuerySpec.thy ===== *)
theory QuerySpec
  imports QueryRun
begin

text \<open>
  What the query path relies on of MongoDB, and the columns of the stored rows: the documented
  meaning of the query operators the planner emits, on a row as the BSON document it is stored
  as; the law \<open>query_laws\<close> of the driver calls; and the invariant \<open>rows_indexed\<close>, under
  which every row carries the index columns of its own fields.
\<close>

section \<open>Rows as BSON documents\<close>

definition entry_document :: "index_entry \<Rightarrow> bson" where
  "entry_document e = BDoc [(''p'', BStr (ie_path e)), (''v'', BStr (ie_value e))]"

definition row_document :: "doc_row \<Rightarrow> bson_doc" where
  "row_document row =
     (let u = row_set row; ix = rs_index u
      in [(''_id'', BStr (row_id row)),
          (''collection_path'', BStr (rs_collection_path u)),
          (''collection_id'', BStr (rs_collection_id u)),
          (''keys'', BDoc (di_keys ix)),
          (''elements'', BArr (map entry_document (di_elements ix))),
          (''name_key'', BStr (di_name_key ix))])"

definition column_at :: "doc_row \<Rightarrow> string \<Rightarrow> bson option" where
  "column_at row column = bson_at (row_document row) (split_on CHR ''.'' column)"

section \<open>Query operators\<close>

text \<open>
  The fragment of the query language in use, at the nesting in use: equality of a column with a
  string, comparison operators (which match values of the operand's type only, strings by their
  bytes), \<open>$in\<close> of strings, \<open>$elemMatch\<close>, \<open>$or\<close> of documents of such conditions,
  and \<open>$and\<close> of documents that may hold an \<open>$or\<close>.
\<close>

definition match_op :: "string \<Rightarrow> bson \<Rightarrow> bson option \<Rightarrow> bool" where
  "match_op op b x =
     (case (b, x) of
        (BStr s, Some (BStr y)) \<Rightarrow>
          (op = ''$gt'' \<and> s < y) \<or> (op = ''$gte'' \<and> s \<le> y)
        \<or> (op = ''$lt'' \<and> y < s) \<or> (op = ''$lte'' \<and> y \<le> s)
      | (BArr vs, Some y) \<Rightarrow> op = ''$in'' \<and> y \<in> set vs
      | _ \<Rightarrow> False)"

definition match_leaf :: "bson \<Rightarrow> bson option \<Rightarrow> bool" where
  "match_leaf c x =
     (case c of
        BDoc ops \<Rightarrow> list_all (\<lambda>(op, b). match_op op b x) ops
      | _ \<Rightarrow> x = Some c)"

definition match_element :: "bson_doc \<Rightarrow> bson \<Rightarrow> bool" where
  "match_element q e =
     (case e of BDoc d \<Rightarrow> list_all (\<lambda>(k, c). match_leaf c (hm_get d k)) q | _ \<Rightarrow> False)"

definition match_column :: "bson_doc \<Rightarrow> string \<times> bson \<Rightarrow> bool" where
  "match_column d kc =
     (let x = bson_at d (split_on CHR ''.'' (fst kc))
      in case snd kc of
           BDoc [(op, BDoc q)] \<Rightarrow>
             op = ''$elemMatch'' \<and> (case x of Some (BArr es) \<Rightarrow> list_ex (match_element q) es | _ \<Rightarrow> False)
         | c \<Rightarrow> match_leaf c x)"

definition match_columns :: "bson_doc \<Rightarrow> bson \<Rightarrow> bool" where
  "match_columns d q = (case q of BDoc cs \<Rightarrow> list_all (match_column d) cs | _ \<Rightarrow> False)"

definition match_clause :: "bson_doc \<Rightarrow> bson \<Rightarrow> bool" where
  "match_clause d q =
     (case q of
        BDoc cs \<Rightarrow> list_all (\<lambda>(k, c).
          if k = ''$or'' then (case c of BArr qs \<Rightarrow> list_ex (match_columns d) qs | _ \<Rightarrow> False)
          else match_column d (k, c)) cs
      | _ \<Rightarrow> False)"

definition match_doc :: "bson_doc \<Rightarrow> bson_doc \<Rightarrow> bool" where
  "match_doc q d =
     list_all (\<lambda>(k, c).
       if k = ''$and'' then (case c of BArr qs \<Rightarrow> list_all (match_clause d) qs | _ \<Rightarrow> False)
       else match_column d (k, c)) q"

section \<open>Sorting\<close>

text \<open>Ascending order puts a missing column first.\<close>

definition column_cmp :: "bson option \<Rightarrow> bson option \<Rightarrow> ordering" where
  "column_cmp x y =
     (case (x, y) of
        (Some (BStr a), Some (BStr b)) \<Rightarrow> str_cmp a b
      | (None, Some _) \<Rightarrow> Less
      | (Some _, None) \<Rightarrow> Greater
      | _ \<Rightarrow> Equal)"

fun cmp_rows :: "(string \<times> int) list \<Rightarrow> doc_row \<Rightarrow> doc_row \<Rightarrow> ordering" where
  "cmp_rows [] a b = Equal"
| "cmp_rows ((column, dir) # rest) a b =
     (let c = column_cmp (column_at a column) (column_at b column)
      in then_ord (if dir < 0 then reverse_ord c else c) (cmp_rows rest a b))"

section \<open>The driver\<close>

text \<open>
  \<open>rows s c i\<close> is the row with \<open>_id = i\<close> of collection \<open>c\<close>.  A find returns the
  matching rows, each once, in the order asked for, with the skip applied before a positive
  limit; no call changes a row.
\<close>

definition find_result ::
  "(string \<Rightarrow> doc_row option) \<Rightarrow> bson_doc \<Rightarrow> find_options \<Rightarrow> doc_row list \<Rightarrow> bool" where
  "find_result rws flt opts rs \<longleftrightarrow>
     (\<exists>matched. distinct matched
      \<and> set matched = {row. \<exists>i. rws i = Some row \<and> match_doc flt (row_document row)}
      \<and> (case fo_sort opts of None \<Rightarrow> True
         | Some sd \<Rightarrow> sorted_wrt (\<lambda>a b. cmp_rows sd a b \<noteq> Greater) matched)
      \<and> rs = (case fo_limit opts of None \<Rightarrow> \<lambda>xs. xs | Some l \<Rightarrow> take (nat (sint l)))
               ((case fo_skip opts of None \<Rightarrow> \<lambda>xs. xs | Some n \<Rightarrow> drop n) matched))"

definition query_laws ::
  "('s \<Rightarrow> string \<Rightarrow> string \<Rightarrow> doc_row option) \<Rightarrow> 's query_driver \<Rightarrow> bool" where
  "query_laws rows qd \<longleftrightarrow>
     (\<forall>s c ms r s'. create_indexes qd s c ms = (r, s') \<longrightarrow> rows s' = rows s)
   \<and> (\<forall>s c flt opts r s'. find_rows qd s c flt opts = (r, s') \<longrightarrow> rows s' = rows s)
   \<and> (\<forall>s c flt opts rs s'. (\<forall>l. fo_limit opts = Some l \<longrightarrow> 0 < sint l) \<longrightarrow>
        find_rows qd s c flt opts = (Inr rs, s') \<longrightarrow> find_result (rows s c) flt opts rs)"

section \<open>Indexed rows\<close>

text \<open>
  Documents the index mirrors faithfully: storable values, no field name with a dot, no field
  called \<open>__val__\<close> and no top-level field called \<open>__name__\<close>.
\<close>

definition plain_fields :: "fields \<Rightarrow> bool" where
  "plain_fields fs \<longleftrightarrow> storable_fields fs \<and> mirrorable_fields fs \<and> dotless (MapValue fs)
     \<and> hm_get fs NAME_FIELD = None"

definition row_indexed :: "codec \<Rightarrow> database_name \<Rightarrow> doc_row \<Rightarrow> stored_document \<Rightarrow> bool" where
  "row_indexed cd database row d \<longleftrightarrow>
     decode_row cd row = Inr d
   \<and> rs_index (row_set row) = index_document database (sd_path d) (sd_fields d)
   \<and> plain_fields (sd_fields d)"

definition rows_indexed :: "codec \<Rightarrow> database_name \<Rightarrow> (string \<Rightarrow> doc_row option) \<Rightarrow> bool" where
  "rows_indexed cd database rws \<longleftrightarrow>
     (\<forall>i row. rws i = Some row \<longrightarrow> row_id row = i \<and> (\<exists>d. row_indexed cd database row d))"

lemma row_indexed_path: "row_indexed cd database row d \<Longrightarrow> path_wf (sd_path d) \<and> show_path (sd_path d) = row_id row"
  using parse_path_Inr [of "row_id row"]
  by (auto simp: row_indexed_def decode_row_def split: option.splits sum.splits)

section \<open>The columns of an indexed row\<close>

lemma split_on_append: "split_on c (s @ c # t) = split_on c s @ split_on c t"
  by (induction s) (auto split: list.splits)

lemma split_sort_field:
  "split_on CHR ''.'' (sort_field p) =
     (if p = NAME_FIELD then [''name_key''] else ''keys'' # split_path p @ [VALUE_KEY])"
proof -
  have k: "split_on CHR ''.'' (''keys.'' @ t) = ''keys'' # split_on CHR ''.'' t" for t
    using split_on_append_sep [of "CHR ''.''" "''keys''" t] by simp
  have v: "split_on CHR ''.'' VALUE_KEY = [VALUE_KEY]" by (simp add: VALUE_KEY_def)
  have "split_on CHR ''.'' (''keys.'' @ p @ ''.'' @ VALUE_KEY) = ''keys'' # split_path p @ [VALUE_KEY]"
    unfolding k using split_on_append [of "CHR ''.''" p VALUE_KEY] v by (simp add: split_path_def)
  then show ?thesis by (simp add: sort_field_def)
qed

lemma get_segments_reserved:
  "mirrorable_fields m \<Longrightarrow> VALUE_KEY \<in> set ks \<Longrightarrow> get_segments m ks = None"
proof (induction m ks rule: get_segments.induct)
  case (2 m k)
  then have "k = VALUE_KEY" by simp
  then have "hm_get m k = None"
    using conjunct2 [OF mirrorable_get [OF "2.prems"(1)]] by (metis not_None_eq)
  then show ?case by (simp only: get_segments.simps)
next
  case (3 m k k' ks)
  show ?case
  proof (cases "hm_get m k")
    case (Some v)
    then have v: "mirrorable v" "k \<noteq> VALUE_KEY" using mirrorable_get [OF "3.prems"(1)] by blast+
    then have ks: "VALUE_KEY \<in> set (k' # ks)" using "3.prems"(2) by simp
    have "get_segments f (k' # ks) = None" if "v = MapValue f" for f
      using "3.IH" [OF Some that _ ks] v(1) that by (simp only:)
    then show ?thesis using Some by (cases v) (simp_all only: get_segments.simps option.case fvalue.case)
  qed simp
qed simp

lemma bson_at_node_reserved:
  "mirrorable v \<Longrightarrow> VALUE_KEY \<in> set ks \<Longrightarrow> bson_at (fst (key_node v path)) (ks @ [VALUE_KEY]) = None"
proof (induction ks arbitrary: v path)
  case (Cons k ks)
  show ?case
  proof (cases "k = VALUE_KEY")
    case True
    then show ?thesis using key_node_self [OF Cons.prems(1)] by (simp add: bson_at_Cons)
  next
    case False
    then have m: "VALUE_KEY \<in> set ks" using Cons.prems by simp
    show ?thesis
    proof (cases "hm_get (value_map v) k")
      case None
      then show ?thesis using False Cons.prems by (simp add: bson_at_Cons key_node_child)
    next
      case (Some w)
      then have "mirrorable w" using mirrorable_get mirrorable_value_map Cons.prems by blast
      then show ?thesis using False Cons.prems Some Cons.IH m by (simp add: bson_at_Cons key_node_child)
    qed
  qed
qed simp

end
