(* ===== verification/QueryClause.thy ===== *)
theory QueryClause
  imports QuerySpec
begin

text \<open>
  The planner's clauses against the rows they select: the column of a path holds the key of the
  document's value there, a clause holds of every row whose document passes the filter, and a
  clause claimed exact holds of no other.
\<close>

section \<open>Columns\<close>

lemma bson_at_index_all:
  assumes "mirrorable_fields fs" "ks \<noteq> []"
  shows "bson_at (fst (index_fields fs [])) (ks @ [VALUE_KEY]) =
    map_option (\<lambda>w. BStr (index_string w)) (get_segments fs ks)"
proof (cases "VALUE_KEY \<in> set ks")
  case True
  obtain k ls where ks: "ks = k # ls" using assms(2) by (cases ks) auto
  have "bson_at (fst (index_fields fs [])) (k # ls @ [VALUE_KEY]) = None"
  proof (cases "hm_get fs k")
    case None
    then show ?thesis using assms(1) by (simp add: bson_at_Cons index_fields_get)
  next
    case (Some w)
    then have w: "mirrorable w" "k \<noteq> VALUE_KEY" using mirrorable_get [OF assms(1)] by blast+
    then have "bson_at (fst (key_node w k)) (ls @ [VALUE_KEY]) = None"
      using True ks by (intro bson_at_node_reserved) auto
    then show ?thesis using assms(1) Some by (simp add: bson_at_Cons index_fields_get)
  qed
  then show ?thesis using ks get_segments_reserved [OF assms(1) True] by simp
qed (use assms bson_at_index in blast)

lemma row_document_simps:
  "hm_get (row_document row) ''name_key'' = Some (BStr (di_name_key (rs_index (row_set row))))"
  "hm_get (row_document row) ''collection_path'' = Some (BStr (rs_collection_path (row_set row)))"
  "hm_get (row_document row) ''collection_id'' = Some (BStr (rs_collection_id (row_set row)))"
  "hm_get (row_document row) ''elements'' = Some (BArr (map entry_document (di_elements (rs_index (row_set row)))))"
  "ks \<noteq> [] \<Longrightarrow> bson_at (row_document row) (''keys'' # ks) = bson_at (di_keys (rs_index (row_set row))) ks"
  by (simp_all add: row_document_def Let_def bson_at_Cons)

lemma row_indexed_column:
  assumes "row_indexed cd database row d"
  shows "column_at row (sort_field p) = map_option (\<lambda>v. BStr (index_string v)) (field_value database d p)"
proof -
  have ix: "rs_index (row_set row) = index_document database (sd_path d) (sd_fields d)"
    "mirrorable_fields (sd_fields d)" using assms by (simp_all add: row_indexed_def plain_fields_def)
  show ?thesis
  proof (cases "p = NAME_FIELD")
    case True
    then show ?thesis
      by (simp add: column_at_def split_sort_field row_document_simps field_value_def ix(1) index_document_def case_prod_beta)
  next
    case False
    then show ?thesis using bson_at_index_all [OF ix(2), of "split_path p"]
      by (simp add: column_at_def split_sort_field row_document_simps field_value_def ix(1)
          index_document_def case_prod_beta get_field_def)
  qed
qed

lemma row_indexed_element:
  assumes "row_indexed cd database row d"
  shows "entry_document \<lparr>ie_path = p, ie_value = x\<rparr> \<in> set (map entry_document (di_elements (rs_index (row_set row)))) \<longleftrightarrow>
    (\<exists>vs e. get_field (sd_fields d) p = Some (ArrayValue vs) \<and> e \<in> set vs \<and> x = index_string e)"
proof -
  have inj: "entry_document a = entry_document b \<longleftrightarrow> a = b" for a b
    by (cases a; cases b) (simp add: entry_document_def)
  have "mirrorable_fields (sd_fields d)" "dotless (MapValue (sd_fields d))"
    using assms by (simp_all add: row_indexed_def plain_fields_def)
  from index_elements_iff [OF this, of p x] show ?thesis
    using assms by (auto simp: row_indexed_def index_document_def case_prod_beta inj)
qed

section \<open>Keys order as values do\<close>

lemma index_string_cmp:
  "storable a \<Longrightarrow> storable b \<Longrightarrow> ord_cmp (index_string a) (index_string b) = compare_values a b"
  using value_key.key_order [of a b] to_index_string_order [of "the (encode_value a)" "the (encode_value b)"]
  by (simp add: index_string_def lex_cmp_ord_cmp)

lemma index_string_less:
  assumes "storable a" "storable b"
  shows "index_string a < index_string b \<longleftrightarrow> compare_values a b = Less"
    "index_string a = index_string b \<longleftrightarrow> compare_values a b = Equal"
    "index_string b < index_string a \<longleftrightarrow> compare_values a b = Greater"
    "index_string a \<le> index_string b \<longleftrightarrow> compare_values a b \<noteq> Greater"
    "index_string b \<le> index_string a \<longleftrightarrow> compare_values a b \<noteq> Less"
  using index_string_cmp [OF assms] by (auto simp: ord_cmp_def not_le split: if_splits)

lemma compare_Equal_rank: "storable a \<Longrightarrow> storable b \<Longrightarrow> compare_values a b = Equal \<Longrightarrow> rank a = rank b"
  using compare_other_rank [of a b] by (cases "rank a = rank b") auto

lemma index_string_tag: "\<exists>rest. index_string v = hex_byte (rank_tag (rank v)) @ rest"
  using write_total(1) [of v] write_value_head [of v]
  by (fastforce simp: index_string_def encode_value_def to_index_string_def)

lemma take2_hex_byte [simp]: "take 2 (hex_byte t @ s) = hex_byte t"
  by (simp add: hex_byte_def)

lemma index_string_take2: "take 2 (index_string v) = hex_byte (rank_tag (rank v))" "2 \<le> length (index_string v)"
  using index_string_tag [of v] by (auto simp: hex_byte_def)

lemma hex_char_value_digit: "n < 16 \<Longrightarrow> hex_char_value (hex_digit n) = Some n"
  by (simp add: hex_char_value_def hex_digit_def Let_def)

lemma parse_hex_byte_hex: "parse_hex_byte (hex_byte t) = Some t"
proof -
  have "unat t div 16 < 16" using unat_u8_less [of t] by auto
  then show ?thesis by (simp add: parse_hex_byte_def hex_byte_def hex_char_value_digit)
qed

lemma hex_byte_less: "hex_byte a @ s < hex_byte b @ t \<longleftrightarrow> a < b \<or> (a = b \<and> s < t)"
proof -
  have "ord_cmp (hex_byte a @ s) (hex_byte b @ t) = then_ord (ord_cmp a b) (ord_cmp s t)"
    using hex_byte_order [of a s b t] by (simp add: lex_cmp_ord_cmp)
  then show ?thesis by (auto simp: then_ord_def ord_cmp_def split: if_splits)
qed

lemma tag_span:
  "hex_byte (rank_tag r) \<le> index_string v \<and> index_string v < hex_byte (rank_tag r + 1) \<longleftrightarrow> rank v = r"
proof -
  obtain rest where s: "index_string v = hex_byte (rank_tag (rank v)) @ rest" using index_string_tag by blast
  have "hex_byte (rank_tag r) @ [] \<le> index_string v \<longleftrightarrow> rank_tag r \<le> rank_tag (rank v)"
    unfolding s not_less [symmetric] hex_byte_less by auto
  moreover have "index_string v < hex_byte (rank_tag r + 1) @ [] \<longleftrightarrow> rank_tag (rank v) < rank_tag r + 1"
    unfolding s hex_byte_less by auto
  moreover have "rank_tag r \<le> rank_tag (rank v) \<and> rank_tag (rank v) < rank_tag r + 1 \<longleftrightarrow> rank v = r"
    by (cases r; cases "rank v") (simp_all add: tag_defs)
  ultimately show ?thesis by simp
qed

section \<open>Values of a plain document\<close>

lemma field_value_storable:
  assumes "row_indexed cd database row d" "field_value database d p = Some v"
  shows "storable v"
  using assms storable_get_segments [of "sd_fields d" "split_path p" v]
  by (auto simp: row_indexed_def plain_fields_def field_value_def get_field_def split: if_splits)

lemma get_field_name: "plain_fields fs \<Longrightarrow> get_field fs NAME_FIELD = None"
  by (simp add: plain_fields_def get_field_def split_path_def NAME_FIELD_def)

lemma field_array:
  assumes "row_indexed cd database row d"
  shows "get_field (sd_fields d) p = Some (ArrayValue vs) \<longleftrightarrow>
    (\<exists>v. field_value database d p = Some v \<and> array_elements v = Some vs)"
proof -
  have e: "array_elements v = Some vs \<longleftrightarrow> v = ArrayValue vs" for v
    by (cases v) (auto simp: array_elements_def)
  show ?thesis using assms get_field_name [of "sd_fields d"]
    by (auto simp: row_indexed_def field_value_def e)
qed

section \<open>Query comparisons read off the keys\<close>

lemma compare_Null: "storable v \<Longrightarrow> compare_values v NullValue = Equal \<longleftrightarrow> is_null v"
  by (cases "rank v = RNull")
     (cases v; auto simp: compare_other_rank is_null_def compare_simps split: if_splits)+

lemma f64_nan_is_nan [simp]: "f64_is_nan f64_nan"
  by (simp add: f64_is_nan_def f64_nan_def)

lemma compare_nan:
  "rank v = RNumber \<Longrightarrow> storable v \<Longrightarrow> f64_is_nan x \<Longrightarrow>
   compare_values (DoubleValue x) v = (if is_nan v then Equal else Less)"
  by (cases v) (auto simp: compare_simps is_nan_def cmp_doubles_def cmp_int_double_def split: if_splits)

lemma is_nan_cases: "is_nan v \<Longrightarrow> \<exists>x. v = DoubleValue x \<and> f64_is_nan x"
  by (cases v) (auto simp: is_nan_def)

lemma is_null_rank: "is_null v \<Longrightarrow> rank v = RNull"
  by (cases v) (auto simp: is_null_def)

lemma is_nan_rank: "is_nan v \<Longrightarrow> rank v = RNumber"
  by (cases v) (auto simp: is_nan_def)

lemma is_number_rank: "storable v \<Longrightarrow> is_number v \<longleftrightarrow> rank v = RNumber"
  by (cases v) (auto simp: is_number_def)

lemma compare_swap: "storable a \<Longrightarrow> storable b \<Longrightarrow> compare_values b a = reverse_ord (compare_values a b)"
  by (rule value_key.cmp_reverse)

lemma is_nan_compare: "storable v \<Longrightarrow> is_nan v \<longleftrightarrow> compare_values v nan_value = Equal"
proof (cases "rank v = RNumber")
  case True
  assume s: "storable v"
  then show ?thesis using compare_nan [OF True s f64_nan_is_nan] compare_swap [of "DoubleValue f64_nan" v] True
    by (simp add: nan_value_def split: if_splits)
next
  case False
  assume "storable v"
  then show ?thesis using False is_nan_rank [of v] by (auto simp: compare_other_rank nan_value_def)
qed

lemma query_eq_key:
  assumes "storable v" "storable x"
  shows "query_eq v x \<longleftrightarrow> \<not> is_null x \<and> \<not> is_nan x \<and> index_string v = index_string x"
proof -
  have "is_nan x" if "is_nan v" "compare_values v x = Equal"
  proof -
    obtain y where v: "v = DoubleValue y" "f64_is_nan y" using is_nan_cases [OF \<open>is_nan v\<close>] by blast
    have "rank x = RNumber" using compare_Equal_rank [OF assms that(2)] v(1) by simp
    then show ?thesis using compare_nan [of x y] v that(2) assms(2) by (auto split: if_splits)
  qed
  then show ?thesis using compare_Equal_rank [OF assms]
    by (auto simp: query_eq_def same_type_rank_def index_string_less(2) [OF assms])
qed

section \<open>Clauses\<close>

definition column_is :: "doc_row \<Rightarrow> string \<Rightarrow> bson \<Rightarrow> bool" where
  "column_is row p c \<longleftrightarrow> match_leaf c (column_at row (sort_field p))"

definition leaf_cond :: "bson \<Rightarrow> bool" where
  "leaf_cond c \<longleftrightarrow> (case c of BDoc ops \<Rightarrow> list_all (\<lambda>(op, b). (case b of BDoc _ \<Rightarrow> False | _ \<Rightarrow> True)) ops | _ \<Rightarrow> True)"

lemma match_column_leaf:
  "leaf_cond c \<Longrightarrow> match_column (row_document row) (k, c) = match_leaf c (column_at row k)"
  by (cases c) (auto simp: match_column_def leaf_cond_def column_at_def Let_def split: list.splits bson.splits)

lemma sort_field_not_operator [simp]: "sort_field p \<noteq> ''$or''" "sort_field p \<noteq> ''$and''"
  by (simp_all add: sort_field_def)

lemma match_value_clause:
  "leaf_cond c \<Longrightarrow> match_clause (row_document row) (BDoc (value_clause p c)) = column_is row p c"
  by (simp add: match_clause_def value_clause_def match_column_leaf column_is_def)

lemma match_element_clause:
  assumes "row_indexed cd database row d"
  shows "match_clause (row_document row) (BDoc (element_clause p c)) \<longleftrightarrow>
    (\<exists>vs e. get_field (sd_fields d) p = Some (ArrayValue vs) \<and> e \<in> set vs
      \<and> match_leaf c (Some (BStr (index_string e))))"
proof -
  have "match_clause (row_document row) (BDoc (element_clause p c)) \<longleftrightarrow>
      (\<exists>e \<in> set (di_elements (rs_index (row_set row))). ie_path e = p \<and> match_leaf c (Some (BStr (ie_value e))))"
    by (auto simp: match_clause_def element_clause_def match_column_def row_document_simps match_element_def
        match_leaf_def [of "BStr p"] entry_document_def list_ex_iff)
  also have "\<dots> \<longleftrightarrow> (\<exists>x. entry_document \<lparr>ie_path = p, ie_value = x\<rparr>
        \<in> set (map entry_document (di_elements (rs_index (row_set row)))) \<and> match_leaf c (Some (BStr x)))"
    (is "?l \<longleftrightarrow> ?r")
  proof
    assume ?l
    then obtain e where e: "e \<in> set (di_elements (rs_index (row_set row)))" "ie_path e = p"
        "match_leaf c (Some (BStr (ie_value e)))" by blast
    then show ?r by (intro exI [of _ "ie_value e"]) (cases e, auto)
  next
    assume ?r
    then obtain x e where "match_leaf c (Some (BStr x))" "e \<in> set (di_elements (rs_index (row_set row)))"
        "entry_document e = entry_document \<lparr>ie_path = p, ie_value = x\<rparr>" by fastforce
    then show ?l by (intro bexI [of _ e]) (auto simp: entry_document_def)
  qed
  also have "\<dots> \<longleftrightarrow> (\<exists>vs e. get_field (sd_fields d) p = Some (ArrayValue vs) \<and> e \<in> set vs
      \<and> match_leaf c (Some (BStr (index_string e))))"
    unfolding row_indexed_element [OF assms] by blast
  finally show ?thesis .
qed

lemma column_is_iff:
  assumes "row_indexed cd database row d"
  shows "column_is row p c \<longleftrightarrow> match_leaf c (map_option (\<lambda>v. BStr (index_string v)) (field_value database d p))"
  by (simp add: column_is_def row_indexed_column [OF assms])

lemma match_leaf_simps:
  "match_leaf (BStr s) x \<longleftrightarrow> x = Some (BStr s)"
  "\<not> match_leaf (BDoc ((op, b) # ops)) None"
  "match_leaf (BDoc [(''$in'', BArr (map BStr ks))]) (Some (BStr y)) \<longleftrightarrow> y \<in> set ks"
  "match_leaf (BDoc [(''$gte'', BStr [])]) (Some (BStr y))"
  by (auto simp: match_leaf_def match_op_def split: bson.splits)

lemma match_exists:
  assumes "row_indexed cd database row d"
  shows "match_clause (row_document row) (BDoc (exists_clause p)) \<longleftrightarrow> field_value database d p \<noteq> None"
  using assms
  by (cases "field_value database d p")
     (simp_all add: exists_clause_def match_value_clause leaf_cond_def column_is_iff match_leaf_simps)

text \<open>Ranges, on the key of the value found.\<close>

definition range_cond :: "fvalue \<Rightarrow> string \<Rightarrow> bson_doc" where
  "range_cond operand op =
     (op, BStr (index_string operand)) #
     (if op = ''$lt'' \<or> op = ''$lte''
      then (if is_number operand then [(''$gt'', BStr (index_string nan_value))]
            else [(''$gte'', BStr (hex_byte (rank_tag (rank operand))))])
      else [(''$lt'', BStr (hex_byte (rank_tag (rank operand) + 1)))])"

lemma range_clause_eq:
  assumes "op \<in> {''$lt'', ''$lte'', ''$gt'', ''$gte''}"
  shows "range_clause p operand op =
    (if is_null operand \<or> is_nan operand then None
     else Some (value_clause p (BDoc (range_cond operand op)), True))"
  using assms index_string_take2 [of operand]
  by (auto simp: range_clause_def reject_null_nan_def key_def range_cond_def Let_def parse_hex_byte_hex)

lemma inequality_iff:
  "\<not> is_null x \<Longrightarrow> \<not> is_nan x \<Longrightarrow> inequality v x want incl \<longleftrightarrow>
    rank v = rank x \<and> \<not> is_nan v \<and> (compare_values v x = want \<or> (incl \<and> compare_values v x = Equal))"
  by (auto simp: inequality_def same_type_rank_def Let_def)

lemma nan_below:
  "storable v \<Longrightarrow> storable x \<Longrightarrow> is_nan v \<Longrightarrow> \<not> is_nan x \<Longrightarrow> rank v = rank x \<Longrightarrow> compare_values v x = Less"
  using compare_nan [of x] is_nan_cases [of v] is_nan_rank [of v] by auto

lemma above_nan:
  assumes "storable v" "rank v = RNumber"
  shows "index_string nan_value < index_string v \<longleftrightarrow> \<not> is_nan v"
  using index_string_less(1) [of nan_value v] compare_nan [OF assms(2,1) f64_nan_is_nan] assms
  by (simp add: nan_value_def)

lemma rank_of_bounds:
  assumes "storable v" "storable x"
  shows "compare_values v x \<noteq> Greater \<Longrightarrow> rank v \<le> rank x"
    "compare_values v x \<noteq> Less \<Longrightarrow> rank x \<le> rank v"
  using compare_other_rank [of v x] by (cases "rank v = rank x"; auto simp: ord_cmp_def split: if_splits)+

lemma range_cond_match:
  assumes s: "storable v" "storable x" and x: "\<not> is_null x" "\<not> is_nan x"
  shows
   "match_leaf (BDoc (range_cond x ''$lt'')) (Some (BStr (index_string v))) \<longleftrightarrow> inequality v x Less False"
   "match_leaf (BDoc (range_cond x ''$lte'')) (Some (BStr (index_string v))) \<longleftrightarrow> inequality v x Less True"
   "match_leaf (BDoc (range_cond x ''$gt'')) (Some (BStr (index_string v))) \<longleftrightarrow> inequality v x Greater False"
   "match_leaf (BDoc (range_cond x ''$gte'')) (Some (BStr (index_string v))) \<longleftrightarrow> inequality v x Greater True"
proof -
  note k = index_string_less [OF s]
  let ?t = "hex_byte (rank_tag (rank x))" and ?n = "hex_byte (rank_tag (rank x) + 1)"
  have vt: "?t \<le> index_string v \<and> index_string v < ?n \<longleftrightarrow> rank v = rank x" by (rule tag_span)
  have xt: "?t \<le> index_string x" "index_string x < ?n" using tag_span [of "rank x" x] by auto
  have nan: "is_nan v \<Longrightarrow> rank v = rank x \<Longrightarrow> compare_values v x = Less" using nan_below s x by blast
  have low: "(if is_number x then index_string nan_value < index_string v else ?t \<le> index_string v)
      \<longleftrightarrow> rank v = rank x \<and> \<not> is_nan v" if "compare_values v x \<noteq> Greater"
  proof (cases "is_number x")
    case True
    then have rx: "rank x = RNumber" using is_number_rank s by blast
    show ?thesis
    proof (cases "rank v = RNumber")
      case True
      then show ?thesis using above_nan [OF s(1)] rx \<open>is_number x\<close> by simp
    next
      case False
      have "rank v \<le> RNumber" using rank_of_bounds(1) [OF s that] rx by simp
      moreover have "compare_values nan_value v = ord_cmp RNumber (rank v)"
        using False by (simp add: compare_other_rank nan_value_def)
      ultimately show ?thesis using False rx \<open>is_number x\<close> index_string_less(1) [of nan_value v] s
        by (auto simp: nan_value_def)
    qed
  next
    case False
    then have nr: "rank x \<noteq> RNumber" using is_number_rank s by blast
    have "index_string v \<le> index_string x" using k(4) that by simp
    then have "index_string v < ?n" using xt(2) by simp
    then show ?thesis using vt False nr is_nan_rank [of v] by auto
  qed
  have high: "index_string v < ?n \<longleftrightarrow> rank v = rank x \<and> \<not> is_nan v" if "compare_values v x \<noteq> Less"
  proof -
    have "index_string x \<le> index_string v" using k(5) that by simp
    then have "?t \<le> index_string v" using xt(1) by simp
    then show ?thesis using vt nan that by auto
  qed
  note d = match_leaf_def match_op_def range_cond_def inequality_iff [OF x]
  show "match_leaf (BDoc (range_cond x ''$lt'')) (Some (BStr (index_string v))) \<longleftrightarrow> inequality v x Less False"
    using low k(1) by (auto simp: d)
  show "match_leaf (BDoc (range_cond x ''$lte'')) (Some (BStr (index_string v))) \<longleftrightarrow> inequality v x Less True"
    using low k(4) by (cases "compare_values v x") (auto simp: d)
  show "match_leaf (BDoc (range_cond x ''$gt'')) (Some (BStr (index_string v))) \<longleftrightarrow> inequality v x Greater False"
    using high k(3) by (auto simp: d)
  show "match_leaf (BDoc (range_cond x ''$gte'')) (Some (BStr (index_string v))) \<longleftrightarrow> inequality v x Greater True"
    using high k(5) by (cases "compare_values v x") (auto simp: d)
qed

text \<open>Sets of keys.\<close>

lemma key_set_Some:
  "key_set operand = Some ks \<longleftrightarrow>
    (\<exists>ops. operand = ArrayValue ops \<and> ks \<noteq> []
      \<and> ks = map index_string (filter (\<lambda>v. \<not> is_null v \<and> \<not> is_nan v) ops))"
  by (cases operand) (auto simp: key_set_def key_def [abs_def] Let_def)

lemma key_set_query_eq:
  assumes "storable v" "storable (ArrayValue ops)"
  shows "index_string v \<in> set (map index_string (filter (\<lambda>v. \<not> is_null v \<and> \<not> is_nan v) ops))
    \<longleftrightarrow> list_ex (query_eq v) ops"
proof -
  have "query_eq v x \<longleftrightarrow> \<not> is_null x \<and> \<not> is_nan x \<and> index_string v = index_string x" if "x \<in> set ops" for x
    using query_eq_key [OF assms(1), of x] that assms(2) by (auto simp: list_all_iff)
  then show ?thesis by (fastforce simp: list_ex_iff)
qed

section \<open>Filters\<close>

fun filter_storable :: "filter_type \<Rightarrow> bool" where
  "filter_storable (FieldFilter f) = (case ff_value f of None \<Rightarrow> True | Some x \<Rightarrow> storable x)"
| "filter_storable _ = True"

lemma field_clause_sound:
  assumes r: "row_indexed cd database row d" and x: "storable x"
    and c: "field_clause p op x = Some (c, exact)"
  defines "passes \<equiv> (case field_value database d p of None \<Rightarrow> False | Some v \<Rightarrow> matches_field_op op v x)"
  shows "(passes \<longrightarrow> match_clause (row_document row) (BDoc c))
    \<and> (exact \<longrightarrow> match_clause (row_document row) (BDoc c) \<longrightarrow> passes)"
proof -
  note fs = field_value_storable [OF r]
  note ci = column_is_iff [OF r, of p] match_value_clause leaf_cond_def
  have rng: "(\<exists>v. field_value database d p = Some v \<and> inequality v x want incl)
      \<longleftrightarrow> match_clause (row_document row) (BDoc c)"
    if "range_clause p x o' = Some (c, exact)" "(want, incl, o') \<in> {(Less, False, ''$lt''), (Less, True, ''$lte''),
      (Greater, False, ''$gt''), (Greater, True, ''$gte'')}" for want incl o'
  proof -
    have nn: "\<not> is_null x" "\<not> is_nan x" and c: "c = value_clause p (BDoc (range_cond x o'))"
      using that by (auto simp: range_clause_eq split: if_splits)
    have "leaf_cond (BDoc (range_cond x o'))" by (simp add: leaf_cond_def range_cond_def)
    then have "match_clause (row_document row) (BDoc c) \<longleftrightarrow>
        match_leaf (BDoc (range_cond x o')) (map_option (\<lambda>v. BStr (index_string v)) (field_value database d p))"
      by (simp add: c ci)
    also have "\<dots> \<longleftrightarrow> (\<exists>v. field_value database d p = Some v \<and> inequality v x want incl)"
    proof (cases "field_value database d p")
      case None
      then show ?thesis by (simp add: range_cond_def match_leaf_simps)
    next
      case (Some v)
      then show ?thesis using range_cond_match [OF fs [OF Some] x nn] that(2) by auto
    qed
    finally show ?thesis by simp
  qed
  have eqs: "query_eq v x \<longleftrightarrow> index_string v = index_string x" if "storable v" "\<not> is_null x" "\<not> is_nan x" for v
    using query_eq_key [OF that(1) x] that by simp
  have arr: "match_clause (row_document row) (BDoc (element_clause p b)) \<longleftrightarrow>
      (\<exists>v els e. field_value database d p = Some v \<and> array_elements v = Some els \<and> e \<in> set els
        \<and> match_leaf b (Some (BStr (index_string e))))" for b
    unfolding match_element_clause [OF r] field_array [OF r] by blast
  have els: "storable e" if "field_value database d p = Some v" "array_elements v = Some els" "e \<in> set els" for v els e
    using fs [OF that(1)] that(2,3) by (cases v) (auto simp: array_elements_def list_all_iff)
  show ?thesis
  proof (cases op)
    case OpEqual
    then have nn: "\<not> is_null x" "\<not> is_nan x" "c = value_clause p (BStr (index_string x))"
      using c by (auto simp: field_clause_def reject_null_nan_def key_def split: if_splits)
    then show ?thesis using OpEqual eqs fs
      by (auto simp: passes_def matches_field_op_def ci match_leaf_simps split: option.splits)
  next
    case OpArrayContains
    then have nn: "\<not> is_null x" "\<not> is_nan x" "c = element_clause p (BStr (index_string x))"
      using c by (auto simp: field_clause_def reject_null_nan_def key_def split: if_splits)
    show ?thesis unfolding nn(3) arr using OpArrayContains eqs [OF _ nn(1,2)] els
      by (fastforce simp: passes_def matches_field_op_def match_leaf_simps list_ex_iff split: option.splits)
  next
    case OpIn
    then obtain ks where "key_set x = Some ks" and cl: "c = value_clause p (BDoc [(''$in'', BArr (map BStr ks))])"
      using c by (auto simp: field_clause_def)
    then obtain ops where ks: "x = ArrayValue ops"
        "ks = map index_string (filter (\<lambda>v. \<not> is_null v \<and> \<not> is_nan v) ops)"
      by (auto simp: key_set_Some)
    have "leaf_cond (BDoc [(''$in'', BArr (map BStr ks))])" by (simp add: leaf_cond_def)
    then have m: "match_clause (row_document row) (BDoc c) \<longleftrightarrow>
        (\<exists>v. field_value database d p = Some v \<and> index_string v \<in> set ks)"
      unfolding cl by (cases "field_value database d p") (auto simp: ci match_leaf_simps simp del: set_map)
    show ?thesis using OpIn m key_set_query_eq [OF fs x [unfolded ks(1)]]
      by (auto simp: passes_def matches_field_op_def array_elements_def ks(1,2) simp del: set_map split: option.splits)
  next
    case OpArrayContainsAny
    then obtain ks where "key_set x = Some ks" and cl: "c = element_clause p (BDoc [(''$in'', BArr (map BStr ks))])"
      using c by (auto simp: field_clause_def)
    then obtain ops where ks: "x = ArrayValue ops"
        "ks = map index_string (filter (\<lambda>v. \<not> is_null v \<and> \<not> is_nan v) ops)"
      by (auto simp: key_set_Some)
    show ?thesis unfolding cl arr match_leaf_simps
      using OpArrayContainsAny key_set_query_eq [OF els x [unfolded ks(1)]]
      by (fastforce simp: passes_def matches_field_op_def array_elements_def [of "ArrayValue ops"] ks(1,2) list_ex_iff
          simp del: set_map split: option.splits)
  next
    case OpLessThan
    then show ?thesis using c rng [of "''$lt''" Less False]
      by (auto simp: field_clause_def passes_def matches_field_op_def split: option.splits)
  next
    case OpLessThanOrEqual
    then show ?thesis using c rng [of "''$lte''" Less True]
      by (auto simp: field_clause_def passes_def matches_field_op_def split: option.splits)
  next
    case OpGreaterThan
    then show ?thesis using c rng [of "''$gt''" Greater False]
      by (auto simp: field_clause_def passes_def matches_field_op_def split: option.splits)
  next
    case OpGreaterThanOrEqual
    then show ?thesis using c rng [of "''$gte''" Greater True]
      by (auto simp: field_clause_def passes_def matches_field_op_def split: option.splits)
  qed (use c match_exists [OF r] in \<open>auto simp: field_clause_def passes_def split: option.splits\<close>)
qed

end
