(* ===== verification/QueryPlan.thy ===== *)
theory QueryPlan
  imports QueryClause
begin

text \<open>
  The planner is a pure optimisation: the predicate it builds holds of every document the query
  returns, a predicate claimed exact of no other, cursor bounds select what the in-memory
  cursors keep, the index columns sort as the documents do, and so a planned query returns the
  list that evaluating it over the whole collection returns.
\<close>

section \<open>Plans\<close>

lemma clause_for_sound:
  assumes r: "row_indexed cd database row d" and f: "filter_storable f" "clause_for f = Some (c, exact)"
  shows "(matches_filter database d f \<longrightarrow> match_clause (row_document row) (BDoc c))
    \<and> (exact \<longrightarrow> match_clause (row_document row) (BDoc c) \<longrightarrow> matches_filter database d f)"
proof (cases f)
  case (FieldFilter ff)
  then obtain p x where "ff_field ff = Some p" "ff_value ff = Some x" "storable x"
      "field_clause p (ff_op ff) x = Some (c, exact)"
    using f by (auto simp: plain_path_def split: option.splits if_splits)
  then show ?thesis using field_clause_sound [OF r, of x p "ff_op ff" c exact] FieldFilter by simp
next
  case (UnaryFilter u)
  then obtain p where p: "uf_field u = Some p" "unary_clause p (uf_op u) = Some (c, exact)"
    using f by (auto simp: plain_path_def split: option.splits if_splits)
  have eq: "match_clause (row_document row) (BDoc (value_clause p (BStr (index_string x)))) \<longleftrightarrow>
      (\<exists>v. field_value database d p = Some v \<and> compare_values v x = Equal)" if "storable x" for x
    using index_string_less(2) [OF field_value_storable [OF r] that]
    by (auto simp: match_value_clause leaf_cond_def column_is_iff [OF r] match_leaf_simps)
  have null: "is_null v \<longleftrightarrow> compare_values v NullValue = Equal" if "field_value database d p = Some v" for v
    using compare_Null field_value_storable [OF r that] by blast
  have nan: "is_nan v \<longleftrightarrow> compare_values v nan_value = Equal" if "field_value database d p = Some v" for v
    using is_nan_compare field_value_storable [OF r that] by blast
  have "storable nan_value" by (simp add: nan_value_def)
  then show ?thesis
    using p eq [of NullValue] eq [of nan_value] match_exists [OF r, of p] null nan UnaryFilter
    by (cases "uf_op u")
       (auto simp: unary_clause_def matches_unary_op_def key_def null_value_def split: option.splits)
qed (use f in auto)

definition plan_clauses :: "filter_type list \<Rightarrow> string list \<Rightarrow> bson_doc list" where
  "plan_clauses filters paths =
     List.map_filter (\<lambda>f. map_option fst (clause_for f)) filters
     @ map exists_clause (filter (\<lambda>p. p \<noteq> NAME_FIELD \<and> plain_path p \<noteq> None) paths)"

definition plan_exact :: "filter_type list \<Rightarrow> string list \<Rightarrow> bool" where
  "plan_exact filters paths \<longleftrightarrow>
     (\<forall>f \<in> set filters. \<exists>c. clause_for f = Some (c, True)) \<and> (\<forall>p \<in> set paths. p = NAME_FIELD \<or> plain_path p \<noteq> None)"

lemma plan_filters_eq: "plan_filters fs cs ex =
    (cs @ List.map_filter (\<lambda>f. map_option fst (clause_for f)) fs,
     ex \<and> (\<forall>f \<in> set fs. \<exists>c. clause_for f = Some (c, True)))"
  by (induction fs arbitrary: cs ex) (auto simp: map_filter_simps split: option.splits)

lemma plan_orders_eq: "plan_orders ps cs ex =
    (cs @ map exists_clause (filter (\<lambda>p. p \<noteq> NAME_FIELD \<and> plain_path p \<noteq> None) ps),
     ex \<and> (\<forall>p \<in> set ps. p = NAME_FIELD \<or> plain_path p \<noteq> None))"
  by (induction ps arbitrary: cs ex) auto

lemma plan_eq: "plan filters paths =
    \<lparr>pl_predicate = (if plan_clauses filters paths \<noteq> [] then Some (and_clauses (plan_clauses filters paths)) else None),
     pl_exact = plan_exact filters paths\<rparr>"
  by (simp add: plan_def plan_filters_eq plan_orders_eq plan_clauses_def plan_exact_def)

lemma pl_exact_plan: "pl_exact (plan filters paths) = plan_exact filters paths"
  by (simp add: plan_eq)

lemma as_documents_map [simp]: "as_documents (map BDoc cs) = cs"
  by (induction cs) (auto simp: as_documents_def map_filter_simps)

lemma conjoin_plan:
  "conjoin (pl_predicate (plan filters paths)) extra =
    (if plan_clauses filters paths @ extra = [] then None
     else Some (and_clauses (plan_clauses filters paths @ extra)))"
  by (simp add: conjoin_def plan_eq and_clauses_def)

text \<open>What the query asks of a document before its cursors.\<close>

definition passes :: "database_name \<Rightarrow> filter_type list \<Rightarrow> query_order list \<Rightarrow> stored_document \<Rightarrow> bool" where
  "passes database filters orders d \<longleftrightarrow> list_all (matches_filter database d) filters \<and> order_exists orders d"

lemma order_exists_field:
  "order_exists orders d \<longleftrightarrow> (\<forall>p \<in> order_path ` set orders. field_value database d p \<noteq> None)"
  by (auto simp: order_exists_def list_all_iff field_value_def)

lemma plan_clauses_sound:
  fixes orders :: "query_order list"
  assumes r: "row_indexed cd database row d" and f: "list_all filter_storable filters"
  defines "paths \<equiv> map order_path orders"
  shows "passes database filters orders d \<Longrightarrow> c \<in> set (plan_clauses filters paths) \<Longrightarrow>
      match_clause (row_document row) (BDoc c)"
    and "plan_exact filters paths \<Longrightarrow> \<forall>c \<in> set (plan_clauses filters paths). match_clause (row_document row) (BDoc c)
      \<Longrightarrow> passes database filters orders d"
proof -
  have fl: "(matches_filter database d flt \<longrightarrow> match_clause (row_document row) (BDoc c))
    \<and> (exact \<longrightarrow> match_clause (row_document row) (BDoc c) \<longrightarrow> matches_filter database d flt)"
    if "flt \<in> set filters" "clause_for flt = Some (c, exact)" for flt c exact
    using clause_for_sound [OF r _ that(2)] f that(1) by (auto simp: list_all_iff)
  show "match_clause (row_document row) (BDoc c)"
    if p: "passes database filters orders d" and c: "c \<in> set (plan_clauses filters paths)"
  proof -
    from c consider (filter) flt exact where "flt \<in> set filters" "clause_for flt = Some (c, exact)"
      | (order) p where "p \<in> set paths" "p \<noteq> NAME_FIELD" "c = exists_clause p"
      by (auto simp: plan_clauses_def map_filter_def)
    then show ?thesis
    proof cases
      case filter
      then show ?thesis using fl [OF filter] p by (auto simp: passes_def list_all_iff)
    next
      case order
      then show ?thesis using p match_exists [OF r]
        by (auto simp: passes_def paths_def order_exists_field [where database = database])
    qed
  qed
  show "passes database filters orders d"
    if e: "plan_exact filters paths" and m: "\<forall>c \<in> set (plan_clauses filters paths). match_clause (row_document row) (BDoc c)"
  proof -
    have "matches_filter database d flt" if "flt \<in> set filters" for flt
    proof -
      obtain c where c: "clause_for flt = Some (c, True)" using e \<open>flt \<in> set filters\<close> by (auto simp: plan_exact_def)
      then have "c \<in> set (plan_clauses filters paths)"
        using that by (force simp: plan_clauses_def map_filter_def)
      then show ?thesis using fl [OF that c] m by blast
    qed
    moreover have "field_value database d p \<noteq> None" if "p \<in> order_path ` set orders" for p
    proof (cases "p = NAME_FIELD")
      case False
      then have "exists_clause p \<in> set (plan_clauses filters paths)"
        using that e by (auto simp: plan_clauses_def plan_exact_def paths_def)
      then show ?thesis using m match_exists [OF r] by blast
    qed (simp add: field_value_def)
    ultimately show ?thesis by (auto simp: passes_def list_all_iff order_exists_field [where database = database])
  qed
qed

section \<open>Cursors\<close>

lemma sort_field_inject [simp]: "sort_field p = sort_field q \<longleftrightarrow> p = q"
  by (auto simp: sort_field_def NAME_FIELD_def split: if_splits)

fun lex_all :: "ordering list \<Rightarrow> ordering" where
  "lex_all [] = Equal"
| "lex_all (c # cs) = then_ord c (lex_all cs)"

text \<open>A tuple lies beyond another iff some component does while all before it agree.\<close>

lemma lex_all_branches:
  "cs \<noteq> [] \<Longrightarrow> want \<noteq> Equal \<Longrightarrow>
   (\<exists>i < length cs. (\<forall>j < i. cs ! j = Equal) \<and> (cs ! i = want \<or> (Suc i = length cs \<and> incl \<and> cs ! i = Equal)))
   \<longleftrightarrow> lex_all cs = want \<or> (incl \<and> lex_all cs = Equal)"
proof (induction cs)
  case (Cons c cs)
  have ex: "(\<exists>i < Suc n. P i) \<longleftrightarrow> P 0 \<or> (\<exists>i < n. P (Suc i))" for n and P :: "nat \<Rightarrow> bool"
    using Ex_less_Suc2 by simp
  have all: "(\<forall>j < Suc i. P j) \<longleftrightarrow> P 0 \<and> (\<forall>j < i. P (Suc j))" for i and P :: "nat \<Rightarrow> bool"
    using All_less_Suc2 by simp
  show ?case
  proof (cases "cs = []")
    case True
    then show ?thesis by auto
  next
    case False
    then show ?thesis using Cons.IH [OF False Cons.prems(2)] Cons.prems(2)
      by (auto simp: ex all then_ord_def)
  qed
qed simp

lemma compare_to_values_lex:
  "\<forall>(x, ord) \<in> set ps. field_value database d (order_path ord) \<noteq> None \<Longrightarrow>
   compare_to_values database d ps =
     lex_all (map (\<lambda>(x, ord). apply_direction
       (compare_values (the (field_value database d (order_path ord))) x) (or_direction ord)) ps)"
  by (induction ps) (auto simp: then_ord_def Let_def)

lemma hm_insert_new: "k \<notin> fst ` set m \<Longrightarrow> hm_insert k v m = m @ [(k, v)]"
  by (induction m) auto

lemma pin_columns_eq:
  "distinct (map (\<lambda>p. fst (fst p)) ps) \<Longrightarrow> fst ` set m \<inter> (\<lambda>p. fst (fst p)) ` set ps = {} \<Longrightarrow>
   pin_columns ps m = m @ map (\<lambda>p. (fst (fst p), BStr (key (snd p)))) ps"
proof (induction ps arbitrary: m)
  case (Cons p ps)
  obtain c a v where p: "p = ((c, a), v)" by (metis surj_pair)
  have "hm_insert c (BStr (key v)) m = m @ [(c, BStr (key v))]"
    using Cons.prems p by (intro hm_insert_new) auto
  then show ?case using Cons.IH [of "m @ [(c, BStr (key v))]"] Cons.prems p by auto
qed simp

definition directed :: "database_name \<Rightarrow> stored_document \<Rightarrow> query_order \<Rightarrow> fvalue \<Rightarrow> ordering" where
  "directed database d ord x =
     apply_direction (compare_values (the (field_value database d (order_path ord))) x) (or_direction ord)"

definition bound_side :: "bound \<Rightarrow> ordering" where
  "bound_side b = (if b = After then Greater else Less)"

lemma column_op_match:
  assumes r: "row_indexed cd database row d" and x: "storable x"
    and v: "field_value database d (order_path ord) \<noteq> None"
  shows "match_column (row_document row) (sort_field (order_path ord),
      BDoc [(cursor_op ((b = After) = (or_direction ord \<noteq> direction_descending)) incl, BStr (index_string x))])
    \<longleftrightarrow> directed database d ord x = bound_side b \<or> (incl \<and> directed database d ord x = Equal)"
proof -
  obtain w where w: "field_value database d (order_path ord) = Some w" using v by auto
  note k = index_string_less [OF field_value_storable [OF r w] x]
  have eq: "match_column (row_document row) (sort_field (order_path ord), BDoc [(o', BStr (index_string x))])
      = match_op o' (BStr (index_string x)) (Some (BStr (index_string w)))" for o'
    by (subst match_column_leaf) (simp_all add: leaf_cond_def row_indexed_column [OF r] w match_leaf_def)
  show ?thesis unfolding eq
    using k by (cases "compare_values w x"; cases b; cases incl)
      (auto simp: directed_def w apply_direction_def bound_side_def cursor_op_def match_op_def)
qed

lemma column_pin_match:
  assumes r: "row_indexed cd database row d" and x: "storable x"
    and v: "field_value database d (order_path ord) \<noteq> None"
  shows "match_column (row_document row) (sort_field (order_path ord), BStr (index_string x))
    \<longleftrightarrow> directed database d ord x = Equal"
proof -
  obtain w where w: "field_value database d (order_path ord) = Some w" using v by auto
  then show ?thesis using index_string_less(2) [OF field_value_storable [OF r w] x]
    by (subst match_column_leaf)
       (simp_all add: leaf_cond_def row_indexed_column [OF r] w match_leaf_simps directed_def apply_direction_def)
qed

lemma cursor_branch_eq:
  assumes d: "distinct (map order_path orders)" and i: "i < length vs" "length vs \<le> length orders"
  shows "cursor_branch (zip (sort_columns orders) vs) n incl b i =
    map (\<lambda>j. (sort_field (order_path (orders ! j)), BStr (index_string (vs ! j)))) [0..<i]
    @ [(sort_field (order_path (orders ! i)),
        BDoc [(cursor_op ((b = After) = (or_direction (orders ! i) \<noteq> direction_descending)) (Suc i = n \<and> incl),
               BStr (index_string (vs ! i)))])]"
proof -
  let ?ps = "zip (sort_columns orders) vs"
  have nth: "?ps ! j = ((sort_field (order_path (orders ! j)), or_direction (orders ! j) \<noteq> direction_descending), vs ! j)"
    if "j < length vs" for j
    using that i by (simp add: sort_columns_def)
  have tk: "take i ?ps = map (\<lambda>j. ?ps ! j) [0..<i]"
    using i by (intro nth_equalityI) (auto simp: sort_columns_def)
  have inj: "order_path (orders ! j) = order_path (orders ! l) \<longleftrightarrow> j = l" if "j < length vs" "l < length vs" for j l
    using nth_eq_iff_index_eq [OF d, of j l] that i by simp
  have pins: "pin_columns (take i ?ps) [] =
      map (\<lambda>j. (sort_field (order_path (orders ! j)), BStr (index_string (vs ! j)))) [0..<i]"
  proof -
    have "distinct (map (\<lambda>p. fst (fst p)) (take i ?ps))"
      unfolding tk using i inj by (auto simp: distinct_conv_nth nth)
    then have "pin_columns (take i ?ps) [] = map (\<lambda>p. (fst (fst p), BStr (key (snd p)))) (take i ?ps)"
      using pin_columns_eq [of "take i ?ps" "[]"] by simp
    also have "\<dots> = map (\<lambda>j. (sort_field (order_path (orders ! j)), BStr (index_string (vs ! j)))) [0..<i]"
      unfolding tk using i by (simp add: nth key_def)
    finally show ?thesis .
  qed
  have "sort_field (order_path (orders ! i)) \<notin> fst ` set (map (\<lambda>j. (sort_field (order_path (orders ! j)), BStr (index_string (vs ! j)))) [0..<i])"
    using inj i by auto
  from hm_insert_new [OF this] show ?thesis
    by (simp add: cursor_branch_def nth i(1) pins key_def Let_def)
qed

lemma cursor_bound_match:
  assumes r: "row_indexed cd database row d" and o: "distinct (map order_path orders)" "order_exists orders d"
    and vs: "list_all storable vs" and c: "cursor_bound (sort_columns orders) vs incl b = Some c"
  shows "match_clause (row_document row) (BDoc c) \<longleftrightarrow>
    (let cmp = compare_to_values database d (zip vs orders) in cmp = bound_side b \<or> (incl \<and> cmp = Equal))"
proof -
  have n: "vs \<noteq> []" "length vs \<le> length orders" using c by (auto simp: cursor_bound_def sort_columns_def split: if_splits)
  define br where "br = map (cursor_branch (zip (sort_columns orders) vs) (length vs) incl b) [0..<length vs]"
  have ceq: "c = (if length br = 1 then last br else [(''$or'', BArr (map BDoc br))])"
  proof -
    have "\<not> (vs = [] \<or> length (sort_columns orders) < length vs)" using n by (simp add: sort_columns_def)
    then show ?thesis using c unfolding cursor_bound_def br_def [symmetric] Let_def by (simp only: if_False option.inject)
  qed
  have ex: "field_value database d (order_path ord) \<noteq> None" if "ord \<in> set orders" for ord
    using o(2) that by (auto simp: order_exists_field [where database = database])
  let ?c = "\<lambda>j. directed database d (orders ! j) (vs ! j)"
  have branch: "match_columns (row_document row) (BDoc (cursor_branch (zip (sort_columns orders) vs) (length vs) incl b i)) \<longleftrightarrow>
      (\<forall>j < i. ?c j = Equal) \<and> (?c i = bound_side b \<or> (Suc i = length vs \<and> incl \<and> ?c i = Equal))"
    if i: "i < length vs" for i
  proof -
    have s: "storable (vs ! j)" if "j < length vs" for j using vs that by (simp add: list_all_length)
    have pin: "match_column (row_document row) (sort_field (order_path (orders ! j)), BStr (index_string (vs ! j)))
        \<longleftrightarrow> ?c j = Equal" if "j < length vs" for j
      using column_pin_match [OF r s ex] that n by simp
    have op: "match_column (row_document row) (sort_field (order_path (orders ! i)),
        BDoc [(cursor_op ((b = After) = (or_direction (orders ! i) \<noteq> direction_descending)) (Suc i = length vs \<and> incl),
          BStr (index_string (vs ! i)))])
        \<longleftrightarrow> ?c i = bound_side b \<or> (Suc i = length vs \<and> incl) \<and> ?c i = Equal"
      using column_op_match [OF r s ex, of i "orders ! i" b "Suc i = length vs \<and> incl"] i n by simp
    show ?thesis
      unfolding match_columns_def cursor_branch_eq [OF o(1) i n(2)] using pin op i
      by (auto simp: list_all_iff)
  qed
  have "match_clause (row_document row) (BDoc c) \<longleftrightarrow> (\<exists>i < length vs. match_columns (row_document row) (BDoc (br ! i)))"
  proof (cases "length vs = 1")
    case True
    then have "length br = 1" "last br = br ! 0" by (simp_all add: br_def)
    with ceq True have b: "c = cursor_branch (zip (sort_columns orders) vs) 1 incl b 0" "br ! 0 = c"
      by (simp_all add: br_def)
    have "match_clause (row_document row) (BDoc c) = match_columns (row_document row) (BDoc c)"
      using n True unfolding b(1) by (simp add: cursor_branch_eq [OF o(1)] match_clause_def match_columns_def)
    then show ?thesis using True b(2) by simp
  next
    case False
    then have "c = [(''$or'', BArr (map BDoc br))]"
      using ceq by (simp add: br_def)
    then show ?thesis by (auto simp: match_clause_def list_ex_iff br_def)
  qed
  also have "\<dots> \<longleftrightarrow> (\<exists>i < length vs. (\<forall>j < i. ?c j = Equal) \<and> (?c i = bound_side b \<or> (Suc i = length vs \<and> incl \<and> ?c i = Equal)))"
    using branch by (auto simp: br_def)
  also have "\<dots> \<longleftrightarrow> (let cmp = lex_all (map ?c [0..<length vs]) in cmp = bound_side b \<or> (incl \<and> cmp = Equal))"
    using lex_all_branches [of "map ?c [0..<length vs]" "bound_side b" incl] n(1)
    by (simp add: bound_side_def Let_def cong: conj_cong)
  also have "lex_all (map ?c [0..<length vs]) = compare_to_values database d (zip vs orders)"
  proof -
    have "map ?c [0..<length vs] = map (\<lambda>(x, ord). directed database d ord x) (zip vs orders)"
      using n(2) by (intro nth_equalityI) auto
    moreover have "\<forall>(x, ord) \<in> set (zip vs orders). field_value database d (order_path ord) \<noteq> None"
      using ex by (auto dest: set_zip_rightD)
    ultimately show ?thesis by (simp add: compare_to_values_lex directed_def [abs_def])
  qed
  finally show ?thesis .
qed

section \<open>The order of documents\<close>

lemma compare_values_cmp_order: "cmp_order compare_values storable"
proof (rule cmp_order_cong)
  show "cmp_order (\<lambda>a b. ord_cmp (index_string a) (index_string b)) storable"
    using cmp_order_project [OF ord.cmp_order_axioms, of storable index_string] by simp
qed (simp add: index_string_cmp)

interpretation value_order: cmp_order compare_values storable
  by (rule compare_values_cmp_order)

definition doc_valid :: "database_name \<Rightarrow> query_order list \<Rightarrow> stored_document \<Rightarrow> bool" where
  "doc_valid database orders d \<longleftrightarrow>
     (\<forall>p \<in> order_path ` set orders. \<exists>v. field_value database d p = Some v \<and> storable v)"

lemma compare_docs_order: "cmp_order (\<lambda>a b. compare_docs database a b orders) (doc_valid database orders)"
proof (induction orders)
  case Nil
  show ?case using cmp_order_Equal by simp
next
  case (Cons ord orders)
  let ?v = "\<lambda>d. the (field_value database d (order_path ord))"
  let ?valid = "doc_valid database (ord # orders)"
  have v: "?valid d \<Longrightarrow> storable (?v d)" for d by (auto simp: doc_valid_def)
  have up: "cmp_order (\<lambda>a b. compare_values (?v a) (?v b)) ?valid"
    by (rule cmp_order_project [OF compare_values_cmp_order v])
  have dir: "cmp_order (\<lambda>a b. apply_direction (compare_values (?v a) (?v b)) (or_direction ord)) ?valid"
    using up cmp_order_reverse [OF up]
    by (cases "or_direction ord = direction_descending") (simp_all add: apply_direction_def)
  have rest: "cmp_order (\<lambda>a b. compare_docs database a b orders) ?valid"
    by (rule cmp_order_weaken [OF Cons.IH]) (auto simp: doc_valid_def)
  show ?case
  proof (rule cmp_order_cong [OF cmp_order_lex [OF dir rest]])
    show "compare_docs database a b (ord # orders) =
        then_ord (apply_direction (compare_values (?v a) (?v b)) (or_direction ord)) (compare_docs database a b orders)"
      if "?valid a" "?valid b" for a b
      using that by (auto simp: doc_valid_def then_ord_def Let_def)
  qed
qed

interpretation docs_order: cmp_order "\<lambda>a b. compare_docs database a b orders" "doc_valid database orders"
  for database orders
  by (rule compare_docs_order)

lemma cmp_segments_Equal: "cmp_segments xs ys = Equal \<longleftrightarrow> xs = ys"
  by (induction xs ys rule: cmp_segments.induct) (auto simp: str_cmp_ord_cmp)

lemma compare_docs_Equal:
  assumes "NAME_FIELD \<in> order_path ` set orders" "doc_valid database orders a" "doc_valid database orders b"
    and "path_wf (sd_path a)" "path_wf (sd_path b)" "compare_docs database a b orders = Equal"
  shows "sd_path a = sd_path b"
  using assms
proof (induction orders)
  case (Cons ord orders)
  obtain va vb where v: "field_value database a (order_path ord) = Some va" "field_value database b (order_path ord) = Some vb"
    using Cons.prems(2,3) by (auto simp: doc_valid_def)
  then have eq: "compare_values va vb = Equal" "compare_docs database a b orders = Equal"
    using Cons.prems(6) by (auto simp: apply_direction_def Let_def split: if_splits)
  show ?case
  proof (cases "order_path ord = NAME_FIELD")
    case True
    then have "cmp_references (document_name database (sd_path a)) (document_name database (sd_path b)) = Equal"
      using v eq by (auto simp: field_value_def compare_simps)
    then have "document_name database (sd_path a) = document_name database (sd_path b)"
      by (simp add: cmp_references_def cmp_segments_Equal split_on_inject)
    then show ?thesis using show_path_inject Cons.prems by (simp add: document_name_def)
  next
    case False
    then show ?thesis using Cons eq by (auto simp: doc_valid_def)
  qed
qed simp

text \<open>The orders before the implicit name is appended.\<close>

definition base_orders :: "structured_query \<Rightarrow> filter_type list \<Rightarrow> query_order list" where
  "base_orders query filters =
     sq_order_by query @ map (\<lambda>p. \<lparr>or_field = Some p, or_direction =
         (if sq_order_by query = [] then direction_ascending else or_direction (last (sq_order_by query)))\<rparr>)
       (filter (\<lambda>p. p \<notin> set (map order_path (sq_order_by query)) \<and> p \<noteq> NAME_FIELD) (inequality_paths filters))"

lemma order_path_simp [simp]: "order_path \<lparr>or_field = Some p, or_direction = dir\<rparr> = p"
  by (simp add: order_path_def)

lemma normalize_orders_cases:
  "(NAME_FIELD \<in> order_path ` set (base_orders query filters) \<and> normalize_orders query filters = base_orders query filters)
   \<or> (NAME_FIELD \<notin> order_path ` set (base_orders query filters)
      \<and> (\<exists>dir. normalize_orders query filters =
          base_orders query filters @ [\<lparr>or_field = Some NAME_FIELD, or_direction = dir\<rparr>]))"
proof -
  let ?present = "set (map order_path (sq_order_by query))"
  have sub: "?present \<subseteq> order_path ` set (base_orders query filters)" by (auto simp: base_orders_def)
  have n: "normalize_orders query filters =
      (if NAME_FIELD \<notin> ?present \<and> \<not> list_ex (\<lambda>ord. order_path ord = NAME_FIELD) (base_orders query filters)
       then base_orders query filters @ [\<lparr>or_field = Some NAME_FIELD, or_direction =
         (if sq_order_by query = [] then direction_ascending else or_direction (last (sq_order_by query)))\<rparr>]
       else base_orders query filters)"
    by (simp only: normalize_orders_def Let_def base_orders_def)
  have ex: "list_ex (\<lambda>ord. order_path ord = NAME_FIELD) (base_orders query filters)
      \<longleftrightarrow> NAME_FIELD \<in> order_path ` set (base_orders query filters)"
    unfolding list_ex_iff by force
  show ?thesis
  proof (cases "NAME_FIELD \<in> order_path ` set (base_orders query filters)")
    case True
    then show ?thesis unfolding n ex by simp
  next
    case False
    then have "NAME_FIELD \<notin> ?present" using sub by blast
    then show ?thesis using False unfolding n ex by (simp only: simp_thms if_True) blast
  qed
qed

lemma normalize_orders_name: "NAME_FIELD \<in> order_path ` set (normalize_orders query filters)"
  using normalize_orders_cases [of query filters] by auto

lemma normalize_orders_distinct:
  assumes "distinct (map order_path (sq_order_by query))"
  shows "distinct (map order_path (normalize_orders query filters))"
proof -
  have "distinct (inequality_paths filters)" by (simp add: inequality_paths_def)
  then have "distinct (map order_path (base_orders query filters))"
    using assms by (auto simp: base_orders_def comp_def)
  then show ?thesis using normalize_orders_cases [of query filters] by auto
qed

text \<open>The sort columns order rows as the documents order.\<close>

lemma sort_document_eq:
  "distinct (map fst cols) \<Longrightarrow> fst ` set m \<inter> fst ` set cols = {} \<Longrightarrow>
   sort_document cols m = m @ map (\<lambda>(c, asc). (c, if asc then 1 else - 1)) cols"
proof (induction cols arbitrary: m)
  case (Cons p cols)
  obtain c a where p: "p = (c, a)" by (cases p)
  have "hm_insert c (if a then 1 else - 1 :: int) m = m @ [(c, if a then 1 else - 1)]"
    using Cons.prems p by (intro hm_insert_new) auto
  then show ?case using Cons.IH [of "m @ [(c, if a then 1 else - 1)]"] Cons.prems p by auto
qed simp

lemma cmp_rows_docs:
  assumes "row_indexed cd database ra a" "row_indexed cd database rb b"
    and "doc_valid database orders a" "doc_valid database orders b"
  shows "cmp_rows (map (\<lambda>ord. (sort_field (order_path ord), if or_direction ord \<noteq> direction_descending then 1 else - 1)) orders) ra rb
    = compare_docs database a b orders"
  using assms(3,4)
proof (induction orders)
  case (Cons ord orders)
  obtain va vb where v: "field_value database a (order_path ord) = Some va" "field_value database b (order_path ord) = Some vb"
    "storable va" "storable vb"
    using Cons.prems by (auto simp: doc_valid_def)
  have "column_cmp (column_at ra (sort_field (order_path ord))) (column_at rb (sort_field (order_path ord)))
      = compare_values va vb"
    by (simp add: row_indexed_column [OF assms(1)] row_indexed_column [OF assms(2)] v column_cmp_def str_cmp_ord_cmp
        index_string_cmp)
  then show ?case using Cons v by (auto simp: doc_valid_def apply_direction_def then_ord_def Let_def)
qed simp

end
