(* ===== verification/QueryEquiv.thy ===== *)
theory QueryEquiv
  imports QueryPlan
begin

text \<open>
  A planned query returns what the scanning reference returns, and what a query returns: the
  matching documents in query order, page by page.
\<close>

section \<open>The in-memory pass\<close>

definition keeps :: "database_name \<Rightarrow> structured_query \<Rightarrow> query_order list \<Rightarrow> stored_document \<Rightarrow> bool" where
  "keeps database query orders d \<longleftrightarrow>
     (case sq_start_at query of None \<Rightarrow> True | Some c \<Rightarrow> keep_start database orders c d)
   \<and> (case sq_end_at query of None \<Rightarrow> True | Some c \<Rightarrow> keep_end database orders c d)"

definition ordered_matches ::
  "database_name \<Rightarrow> structured_query \<Rightarrow> filter_type list \<Rightarrow> query_order list \<Rightarrow> stored_document list \<Rightarrow> stored_document list" where
  "ordered_matches database query filters orders docs =
     filter (keeps database query orders)
       (sort_by (\<lambda>a b. compare_docs database a b orders) (filter (passes database filters orders) docs))"

lemma apply_cursor_Inr:
  "apply_cursor keep c orders docs = Inr r \<Longrightarrow>
   r = filter (\<lambda>d. case c of None \<Rightarrow> True | Some c \<Rightarrow> keep c d) docs"
  by (auto simp: apply_cursor_def validate_cursor_def split: option.splits if_splits)

lemma finish_query_Inr:
  assumes "finish_query database query filters orders paged docs = Inr r"
  shows "r = (if paged then ordered_matches database query filters orders docs
        else apply_window query (ordered_matches database query filters orders docs))"
proof -
  have p: "filter (order_exists orders) (filter (\<lambda>doc. list_all (matches_filter database doc) filters) docs)
      = filter (passes database filters orders) docs"
    by (simp add: passes_def [abs_def] conj_commute)
  let ?docs = "sort_by (\<lambda>a b. compare_docs database a b orders) (filter (passes database filters orders) docs)"
  obtain d1 d2 where d: "apply_cursor (keep_start database orders) (sq_start_at query) orders ?docs = Inr d1"
      "apply_cursor (keep_end database orders) (sq_end_at query) orders d1 = Inr d2"
      "r = (if paged then d2 else apply_window query d2)"
    using assms unfolding finish_query_def Let_def p by (auto split: sum.splits)
  have "d2 = ordered_matches database query filters orders docs"
    unfolding apply_cursor_Inr [OF d(2)] apply_cursor_Inr [OF d(1)] ordered_matches_def
    by (simp add: keeps_def [abs_def] conj_commute)
  then show ?thesis using d(3) by simp
qed

text \<open>Documents of one collection: valid for the order, told apart by their paths.\<close>

definition docs_ok :: "database_name \<Rightarrow> stored_document list \<Rightarrow> bool" where
  "docs_ok database docs \<longleftrightarrow> distinct docs
   \<and> (\<forall>a \<in> set docs. \<forall>b \<in> set docs. sd_path a = sd_path b \<longrightarrow> a = b)
   \<and> (\<forall>d \<in> set docs. path_wf (sd_path d) \<and> (\<forall>p v. field_value database d p = Some v \<longrightarrow> storable v))"

lemma docs_ok_valid: "docs_ok database docs \<Longrightarrow> d \<in> set docs \<Longrightarrow> order_exists orders d \<Longrightarrow> doc_valid database orders d"
  by (fastforce simp: docs_ok_def doc_valid_def order_exists_field [where database = database])

lemma ordered_matches_set:
  "set (ordered_matches database query filters orders docs) =
    {d \<in> set docs. passes database filters orders d \<and> keeps database query orders d}"
  by (auto simp: ordered_matches_def)

lemma ordered_matches_sorted:
  assumes "docs_ok database docs"
  shows "distinct (ordered_matches database query filters orders docs)"
    "sorted_wrt (\<lambda>a b. compare_docs database a b orders \<noteq> Greater) (ordered_matches database query filters orders docs)"
proof -
  show "distinct (ordered_matches database query filters orders docs)"
    using assms by (simp add: ordered_matches_def docs_ok_def)
  have "doc_valid database orders d" if "d \<in> set docs" "passes database filters orders d" for d
    using docs_ok_valid [OF assms that(1)] that(2) by (simp add: passes_def)
  then have "sorted_wrt (\<lambda>a b. compare_docs database a b orders \<noteq> Greater)
      (sort_by (\<lambda>a b. compare_docs database a b orders) (filter (passes database filters orders) docs))"
    by (intro docs_order.sorted_sort_by) auto
  then show "sorted_wrt (\<lambda>a b. compare_docs database a b orders \<noteq> Greater) (ordered_matches database query filters orders docs)"
    by (simp add: ordered_matches_def sorted_wrt_filter)
qed

text \<open>The order is total on a collection, so a sorted list of documents is determined.\<close>

lemma sorted_docs_determined:
  assumes n: "NAME_FIELD \<in> order_path ` set orders"
    and s: "sorted_wrt (\<lambda>a b. compare_docs database a b orders \<noteq> Greater) xs"
      "sorted_wrt (\<lambda>a b. compare_docs database a b orders \<noteq> Greater) ys"
    and e: "set xs = set ys" "distinct xs" "distinct ys"
    and ok: "docs_ok database docs" "set xs \<subseteq> set docs" "\<forall>d \<in> set xs. order_exists orders d"
  shows "xs = ys"
proof (rule docs_order.sorted_determined [OF s e])
  have v: "d \<in> set xs \<Longrightarrow> doc_valid database orders d" for d using docs_ok_valid [OF ok(1)] ok(2,3) by blast
  then show "\<forall>d \<in> set xs. doc_valid database orders d" by blast
  show "a = b" if "a \<in> set xs" "b \<in> set xs" "compare_docs database a b orders = Equal" for a b
  proof -
    have "a \<in> set docs" "b \<in> set docs" using that ok(2) by auto
    then show ?thesis using compare_docs_Equal [OF n v v _ _ that(3)] that ok(1) unfolding docs_ok_def by blast
  qed
qed

lemma ordered_matches_id:
  assumes "docs_ok database docs" "set xs \<subseteq> set docs" "distinct xs"
    and "sorted_wrt (\<lambda>a b. compare_docs database a b orders \<noteq> Greater) xs"
    and "\<forall>d \<in> set xs. passes database filters orders d \<and> keeps database query orders d"
  shows "ordered_matches database query filters orders xs = xs"
proof -
  have "filter (passes database filters orders) xs = xs" "filter (keeps database query orders) xs = xs"
    using assms(5) by (simp_all add: filter_id_conv)
  then show ?thesis
    using sort_by_sorted_id [OF assms(4)] unfolding ordered_matches_def by (simp only:)
qed

section \<open>Cursor clauses select what the cursors keep\<close>

definition cursor_storable :: "query_cursor option \<Rightarrow> bool" where
  "cursor_storable c \<longleftrightarrow> (case c of None \<Rightarrow> True | Some c \<Rightarrow> list_all storable (cu_values c))"

lemma cursor_clauses_match:
  assumes r: "row_indexed cd database row d" and o: "distinct (map order_path orders)" "order_exists orders d"
    and cs: "cursor_storable (sq_start_at query)" "cursor_storable (sq_end_at query)"
    and c: "cursor_clauses query (sort_columns orders) orders = Some clauses"
  shows "(\<forall>c \<in> set clauses. match_clause (row_document row) (BDoc c)) \<longleftrightarrow> keeps database query orders d"
proof -
  have start: "match_clause (row_document row) (BDoc c) \<longleftrightarrow> keep_start database orders cur d"
    if "sq_start_at query = Some cur" "cursor_bound (sort_columns orders) (cu_values cur) (cu_before cur) After = Some c" for cur c
    using cursor_bound_match [OF r o _ that(2)] that(1) cs(1)
    by (auto simp: keep_start_def compare_doc_to_cursor_def bound_side_def cursor_storable_def Let_def)
  have end_at: "match_clause (row_document row) (BDoc c) \<longleftrightarrow> keep_end database orders cur d"
    if "sq_end_at query = Some cur" "cursor_bound (sort_columns orders) (cu_values cur) (\<not> cu_before cur) Before = Some c" for cur c
    using cursor_bound_match [OF r o _ that(2)] that(1) cs(2)
    by (auto simp: keep_end_def compare_doc_to_cursor_def bound_side_def cursor_storable_def Let_def)
  show ?thesis
    using c start end_at
    by (cases "sq_start_at query"; cases "sq_end_at query")
       (auto simp: cursor_clauses_def keeps_def split: if_splits option.splits)
qed

section \<open>Fetching candidates\<close>

definition doc_of :: "codec \<Rightarrow> doc_row \<Rightarrow> stored_document" where
  "doc_of cd row = projr (decode_row cd row)"

lemma doc_of_indexed: "row_indexed cd database row d \<Longrightarrow> doc_of cd row = d"
  by (simp add: doc_of_def row_indexed_def)

lemma rows_indexed_doc: "rows_indexed cd database rws \<Longrightarrow> rws i = Some row \<Longrightarrow> row_indexed cd database row (doc_of cd row)"
  using doc_of_indexed by (fastforce simp: rows_indexed_def)

lemma collect_rows_indexed:
  "\<forall>row \<in> set rs. row_indexed cd database row (doc_of cd row) \<Longrightarrow> collect_rows cd rs = Inr (map (doc_of cd) rs)"
  by (induction rs) (auto simp: row_indexed_def)

lemma docs_ok_rows:
  assumes "rows_indexed cd database rws" "distinct matched" "\<forall>row \<in> set matched. \<exists>i. rws i = Some row"
  shows "docs_ok database (map (doc_of cd) matched)"
proof -
  have ix: "row_indexed cd database row (doc_of cd row)" if "row \<in> set matched" for row
    using rows_indexed_doc [OF assms(1)] assms(3) that by blast
  have id: "row = row'" if "row \<in> set matched" "row' \<in> set matched" "sd_path (doc_of cd row) = sd_path (doc_of cd row')" for row row'
  proof -
    have "row_id row = row_id row'" using row_indexed_path [OF ix] that by metis
    then show ?thesis using assms(1,3) that(1,2) unfolding rows_indexed_def by (metis option.inject)
  qed
  then have "inj_on (doc_of cd) (set matched)" by (intro inj_onI) metis
  then show ?thesis using assms(2) id row_indexed_path [OF ix] field_value_storable [OF ix]
    by (auto simp: docs_ok_def distinct_map)
qed

definition window_rows :: "sort_window option \<Rightarrow> 'a list \<Rightarrow> 'a list" where
  "window_rows window xs =
     (case fo_limit (window_options window) of None \<Rightarrow> \<lambda>xs. xs | Some l \<Rightarrow> take (nat (sint l)))
       ((case fo_skip (window_options window) of None \<Rightarrow> \<lambda>xs. xs | Some n \<Rightarrow> drop n) xs)"

lemma map_window_rows: "map f (window_rows window xs) = window_rows window (map f xs)"
  by (simp add: window_rows_def take_map drop_map split: option.splits)

lemma set_window_rows: "set (window_rows window xs) \<subseteq> set xs"
  using set_take_subset set_drop_subset by (fastforce simp: window_rows_def split: option.splits)

lemma insert_all_and: "k \<noteq> ''$and'' \<Longrightarrow> insert_all (and_clauses cs) [(k, x)] = [(k, x), (''$and'', BArr (map BDoc cs))]"
  by (simp add: and_clauses_def)

lemma narrowed_keeps_rows:
  assumes "query_laws rows qd" "narrowed qd database base predicate st = (Inr flt, st')"
  shows "rows (qs_session st') = rows (qs_session st)
    \<and> flt = (case predicate of None \<Rightarrow> base | Some p \<Rightarrow> insert_all p base)"
  using assms
  by (auto simp: narrowed_def ensure_query_indexes_def query_laws_def Let_def split: option.splits if_splits prod.splits sum.splits)

lemma list_where_rows:
  assumes laws: "query_laws rows qd" and ix: "rows_indexed cd database (rows (qs_session st) (collection_name database))"
    and k: "k \<noteq> ''$and''"
    and w: "\<forall>l. fo_limit (window_options window) = Some l \<longrightarrow> 0 < sint l"
    and q: "list_where qd cd database [(k, BStr x)] (if cs = [] then None else Some (and_clauses cs)) window st = (Inr docs, st')"
  obtains matched where "distinct matched"
    "set matched = {row. \<exists>i. rows (qs_session st) (collection_name database) i = Some row
      \<and> match_column (row_document row) (k, BStr x) \<and> (\<forall>c \<in> set cs. match_clause (row_document row) (BDoc c))}"
    "case fo_sort (window_options window) of None \<Rightarrow> True | Some sd \<Rightarrow> sorted_wrt (\<lambda>a b. cmp_rows sd a b \<noteq> Greater) matched"
    "docs = map (doc_of cd) (window_rows window matched)"
proof -
  let ?p = "if cs = [] then None else Some (and_clauses cs)"
  from q obtain flt st1 where n: "narrowed qd database [(k, BStr x)] ?p st = (Inr flt, st1)"
      and f: "fetch qd cd database flt window st1 = (Inr docs, st')"
    by (auto simp: list_where_def split: prod.splits sum.splits)
  note nk = narrowed_keeps_rows [OF laws n]
  from f obtain rs s' where fr: "find_rows qd (qs_session st1) (collection_name database) flt (window_options window) = (Inr rs, s')"
      and c: "collect_rows cd rs = Inr docs"
    by (auto simp: fetch_def split: prod.splits sum.splits)
  have "find_result (rows (qs_session st1) (collection_name database)) flt (window_options window) rs"
    using laws w fr unfolding query_laws_def by blast
  then obtain matched where m: "distinct matched"
      "set matched = {row. \<exists>i. rows (qs_session st1) (collection_name database) i = Some row \<and> match_doc flt (row_document row)}"
      "case fo_sort (window_options window) of None \<Rightarrow> True | Some sd \<Rightarrow> sorted_wrt (\<lambda>a b. cmp_rows sd a b \<noteq> Greater) matched"
      "rs = window_rows window matched"
    by (auto simp: find_result_def window_rows_def)
  have "match_doc flt (row_document row) \<longleftrightarrow> match_column (row_document row) (k, BStr x)
      \<and> (\<forall>c \<in> set cs. match_clause (row_document row) (BDoc c))" for row
    using nk k by (auto simp: match_doc_def insert_all_and list_all_iff)
  then have set: "set matched = {row. \<exists>i. rows (qs_session st) (collection_name database) i = Some row
      \<and> match_column (row_document row) (k, BStr x) \<and> (\<forall>c \<in> set cs. match_clause (row_document row) (BDoc c))}"
    using m(2) nk by auto
  have "row_indexed cd database row (doc_of cd row)" if "row \<in> set rs" for row
    using rows_indexed_doc [OF ix] set_window_rows [of window matched] that set m(4) by auto
  then have "docs = map (doc_of cd) (window_rows window matched)"
    using collect_rows_indexed [of rs cd database] c m(4) by simp
  then show thesis using that m(1,3) set by blast
qed

section \<open>The window\<close>

lemma sint_i32_range: "- (2 ^ 31) \<le> sint (x :: i32) \<and> sint x < 2 ^ 31"
  using sint_range_size [of x] by (simp add: word_size)

lemma sint_widen_i32: "sint (scast (x :: i32) :: i64) = sint x"
  "sint (word_of_int (max (sint (x :: i32)) 0) :: i64) = max (sint x) 0"
proof -
  have "in_i64 (sint x)" "in_i64 (max (sint x) 0)" using sint_i32_range [of x] by (auto simp: in_i64_def)
  then show "sint (scast x :: i64) = sint x" "sint (word_of_int (max (sint x) 0) :: i64) = max (sint x) 0"
    using sint_word_of_int_i64 [of "sint x"] sint_word_of_int_i64 [of "max (sint x) 0"] by simp_all
qed

lemma window_rows_apply:
  assumes "pushdown_window query columns exact = Some w"
  shows "window_rows (Some w) xs = apply_window query xs"
    "\<forall>l. fo_limit (window_options (Some w)) = Some l \<longrightarrow> 0 < sint l"
    "exact" "fo_sort (window_options (Some w)) = Some (sort_document columns [])"
proof -
  have e: "exact" and l: "\<And>l. sq_limit query = Some l \<Longrightarrow> 0 < sint l" and w: "w = \<lparr>sw_order_by = columns,
        sw_skip = word_of_int (max (sint (sq_offset query)) 0),
        sw_limit = map_option (\<lambda>limit. scast limit) (sq_limit query)\<rparr>"
    using assms by (auto simp: pushdown_window_def split: if_splits option.splits)
  show "exact" by (rule e)
  show "fo_sort (window_options (Some w)) = Some (sort_document columns [])" by (simp add: window_options_def w)
  show "\<forall>l. fo_limit (window_options (Some w)) = Some l \<longrightarrow> 0 < sint l"
    using l by (auto simp: window_options_def w sint_widen_i32)
  have m: "max (sint n) 0 = sint n" if "sq_limit query = Some n" for n using l [OF that] by simp
  show "window_rows (Some w) xs = apply_window query xs"
    using m by (auto simp: window_rows_def window_options_def w apply_window_def sint_widen_i32 Let_def split: option.splits)
qed

section \<open>Planned and scanning evaluation\<close>

definition query_plain :: "structured_query \<Rightarrow> bool" where
  "query_plain query \<longleftrightarrow> distinct (map order_path (sq_order_by query))
     \<and> cursor_storable (sq_start_at query) \<and> cursor_storable (sq_end_at query)
     \<and> (case query_filters query of Inl e \<Rightarrow> True | Inr fs \<Rightarrow> list_all filter_storable fs)"

text \<open>The documents of the collection a base filter \<open>k = x\<close> selects.\<close>

definition scope_rows :: "(string \<Rightarrow> doc_row option) \<Rightarrow> string \<Rightarrow> string \<Rightarrow> doc_row set" where
  "scope_rows rws k x = {row. \<exists>i. rws i = Some row \<and> match_column (row_document row) (k, BStr x)}"

lemma evaluate_scan_eq:
  assumes laws: "query_laws rows qd" and ix: "rows_indexed cd database (rows (qs_session st) (collection_name database))"
    and k: "k \<noteq> ''$and''"
    and q: "list_where qd cd database [(k, BStr x)] None None st = (Inr docs, st')"
    and f: "finish_query database query filters orders False docs = Inr r"
  obtains all where "distinct all" "set all = scope_rows (rows (qs_session st) (collection_name database)) k x"
    "r = apply_window query (ordered_matches database query filters orders (map (doc_of cd) all))"
proof -
  obtain matched where m: "distinct matched"
      "set matched = scope_rows (rows (qs_session st) (collection_name database)) k x"
      "docs = map (doc_of cd) (window_rows None matched)"
    using list_where_rows [OF laws ix k, of None x "[]"] q
    by (auto simp: window_options_def scope_rows_def)
  then show thesis using that finish_query_Inr [OF f]
    by (simp add: window_rows_def window_options_def)
qed

lemma evaluate_planned_eq:
  fixes database query filters
  defines "orders \<equiv> normalize_orders query filters"
  assumes laws: "query_laws rows qd" and ix: "rows_indexed cd database (rows (qs_session st) (collection_name database))"
    and k: "k \<noteq> ''$and''"
    and plain: "query_plain query" "list_all filter_storable filters"
    and p: "plan_query query filters orders True = (predicate, window)"
    and q: "list_where qd cd database [(k, BStr x)] predicate window st = (Inr docs, st')"
    and f: "finish_query database query filters orders (window \<noteq> None) docs = Inr r"
    and all: "distinct all" "set all = scope_rows (rows (qs_session st) (collection_name database)) k x"
  shows "r = apply_window query (ordered_matches database query filters orders (map (doc_of cd) all))"
proof -
  let ?rws = "rows (qs_session st) (collection_name database)"
  let ?paths = "map order_path orders" and ?cols = "sort_columns orders"
  let ?L = "ordered_matches database query filters orders"
  define cursors where "cursors = cursor_clauses query ?cols orders"
  define cs where "cs = plan_clauses filters ?paths @ (case cursors of Some cs \<Rightarrow> cs | None \<Rightarrow> [])"
  have pred: "predicate = (if cs = [] then None else Some (and_clauses cs))"
    and win: "window = (case cursors of Some _ \<Rightarrow> pushdown_window query ?cols (plan_exact filters ?paths) | None \<Rightarrow> None)"
    using p unfolding plan_query_def if_True Let_def conjoin_plan pl_exact_plan cursors_def cs_def prod.inject
    by blast+
  have pos: "\<forall>l. fo_limit (window_options window) = Some l \<longrightarrow> 0 < sint l"
    using win window_rows_apply(2) [of query ?cols "plan_exact filters ?paths"]
    by (cases window) (auto simp: window_options_def split: option.splits)
  obtain matched where m: "distinct matched"
      "set matched = {row. \<exists>i. ?rws i = Some row
        \<and> match_column (row_document row) (k, BStr x) \<and> (\<forall>c \<in> set cs. match_clause (row_document row) (BDoc c))}"
      "case fo_sort (window_options window) of None \<Rightarrow> True | Some sd \<Rightarrow> sorted_wrt (\<lambda>a b. cmp_rows sd a b \<noteq> Greater) matched"
      "docs = map (doc_of cd) (window_rows window matched)"
    by (rule list_where_rows [OF laws ix k pos q [unfolded pred]])
  have od: "distinct ?paths" using plain(1) by (simp add: orders_def query_plain_def normalize_orders_distinct)
  have on: "NAME_FIELD \<in> order_path ` set orders" by (simp add: orders_def normalize_orders_name)
  have cst: "cursor_storable (sq_start_at query)" "cursor_storable (sq_end_at query)"
    using plain(1) by (simp_all add: query_plain_def)
  have sub: "set matched \<subseteq> set all" using m(2) all(2) by (auto simp: scope_rows_def)
  have ixr: "row_indexed cd database row (doc_of cd row)" if "row \<in> set all" for row
    using rows_indexed_doc [OF ix] that all(2) by (auto simp: scope_rows_def)
  have ok: "docs_ok database (map (doc_of cd) all)" "docs_ok database (map (doc_of cd) matched)"
    using docs_ok_rows [OF ix] m(1,2) all by (auto simp: scope_rows_def)
  let ?want = "\<lambda>d. passes database filters orders d \<and> keeps database query orders d"
  have sound: "row \<in> set matched" if "row \<in> set all" "?want (doc_of cd row)" for row
  proof -
    have "match_clause (row_document row) (BDoc c)" if c: "c \<in> set cs" for c
    proof (cases "c \<in> set (plan_clauses filters ?paths)")
      case True
      then show ?thesis using plan_clauses_sound(1) [OF ixr plain(2)] \<open>row \<in> set all\<close> \<open>?want (doc_of cd row)\<close> by blast
    next
      case False
      then obtain ccs where "cursors = Some ccs" "c \<in> set ccs" using c by (auto simp: cs_def split: option.splits)
      then show ?thesis
        using cursor_clauses_match [OF ixr od _ cst] \<open>row \<in> set all\<close> \<open>?want (doc_of cd row)\<close>
        unfolding cursors_def passes_def by blast
    qed
    then show ?thesis using that(1) m(2) all(2) by (auto simp: scope_rows_def)
  qed
  have sets: "set (?L (map (doc_of cd) matched)) = set (?L (map (doc_of cd) all))"
    using sub sound by (auto simp: ordered_matches_set)
  have ex: "\<forall>d \<in> set (?L docs). order_exists orders d" for docs by (auto simp: ordered_matches_set passes_def)
  have L: "?L (map (doc_of cd) matched) = ?L (map (doc_of cd) all)"
    by (rule sorted_docs_determined [OF on ordered_matches_sorted(2) [OF ok(2)] ordered_matches_sorted(2) [OF ok(1)] sets
          ordered_matches_sorted(1) [OF ok(2)] ordered_matches_sorted(1) [OF ok(1)] ok(2) _ ex])
       (auto simp: ordered_matches_set)
  show ?thesis
  proof (cases window)
    case None
    then have "docs = map (doc_of cd) matched" using m(4) by (simp add: window_rows_def window_options_def)
    then show ?thesis using finish_query_Inr [OF f] None L by simp
  next
    case (Some w)
    then obtain ccs where cur: "cursors = Some ccs" "pushdown_window query ?cols (plan_exact filters ?paths) = Some w"
      using win by (auto split: option.splits)
    note wr = window_rows_apply [OF cur(2)]
    let ?D = "map (doc_of cd) matched"
    have all_want: "?want (doc_of cd row)" if "row \<in> set matched" for row
    proof -
      have c: "\<forall>c \<in> set cs. match_clause (row_document row) (BDoc c)" using that m(2) by blast
      have r: "row_indexed cd database row (doc_of cd row)" using ixr sub that by blast
      have "passes database filters orders (doc_of cd row)"
        using plan_clauses_sound(2) [OF r plain(2) wr(3)] c by (auto simp: cs_def)
      then show ?thesis
        using cursor_clauses_match [OF r od _ cst, of ccs] c cur(1) by (auto simp: cs_def cursors_def passes_def)
    qed
    have valid: "doc_valid database orders (doc_of cd row)" if "row \<in> set matched" for row
      using docs_ok_valid [OF ok(2)] all_want [OF that] that by (auto simp: passes_def)
    have "sort_document ?cols [] = map (\<lambda>ord. (sort_field (order_path ord), if or_direction ord \<noteq> direction_descending then 1 else - 1)) orders"
      using sort_document_eq [of ?cols "[]"] od by (simp add: sort_columns_def comp_def distinct_map inj_on_def)
    then have cmp: "cmp_rows (sort_document ?cols []) a b = compare_docs database (doc_of cd a) (doc_of cd b) orders"
      if "a \<in> set matched" "b \<in> set matched" for a b
      using cmp_rows_docs [OF ixr ixr valid valid] sub that by (metis subsetD)
    have "sorted_wrt (\<lambda>a b. cmp_rows (sort_document ?cols []) a b \<noteq> Greater) matched"
      using m(3) wr(4) Some by simp
    then have "sorted_wrt (\<lambda>a b. compare_docs database (doc_of cd a) (doc_of cd b) orders \<noteq> Greater) matched"
      by (rule sorted_wrt_mono_rel [rotated]) (simp add: cmp)
    then have sorted: "sorted_wrt (\<lambda>a b. compare_docs database a b orders \<noteq> Greater) ?D" by (simp add: sorted_wrt_map)
    have "?L ?D = ?D"
      using ordered_matches_id [OF ok(2) _ _ sorted] all_want ok(2) by (auto simp: docs_ok_def)
    then have D: "?D = ?L (map (doc_of cd) all)" using L by simp
    have docs: "docs = apply_window query ?D" using m(4) wr(1) [of ?D] Some by (simp add: map_window_rows)
    have sw: "set docs \<subseteq> set ?D" "distinct docs" "sorted_wrt (\<lambda>a b. compare_docs database a b orders \<noteq> Greater) docs"
      using sorted ok(2) set_take_subset set_drop_subset unfolding docs
      by (auto simp: apply_window_def docs_ok_def Let_def sorted_wrt_take sorted_wrt_drop split: option.splits
          dest!: in_set_takeD in_set_dropD simp del: distinct_map)
    have "?L docs = docs"
      using ordered_matches_id [OF ok(2) sw] sw(1) all_want by auto
    then show ?thesis using finish_query_Inr [OF f] Some D docs by simp
  qed
qed

end
