(* ===== verification/QueryProps.thy ===== *)
theory QueryProps
  imports QueryEquiv
begin

text \<open>
  Properties of queries: planned evaluation against the scanning reference, writes keep the rows
  indexed, what a result list contains, paging by cursor, the comparison filters and the
  aggregations.
\<close>

section \<open>An instance of the driver\<close>

text \<open>A database that holds at most one row and never fails.\<close>

definition one_row :: "doc_row option query_driver" where
  "one_row = \<lparr>
     create_indexes = (\<lambda>s c models. (Inr (), s)),
     find_rows = (\<lambda>s c flt opts.
       (Inr ((case fo_limit opts of None \<Rightarrow> \<lambda>xs. xs | Some l \<Rightarrow> take (nat (sint l)))
          ((case fo_skip opts of None \<Rightarrow> \<lambda>xs. xs | Some n \<Rightarrow> drop n)
             (case s of None \<Rightarrow> [] | Some row \<Rightarrow> if match_doc flt (row_document row) then [row] else []))), s))\<rparr>"

definition one_row_rows :: "doc_row option \<Rightarrow> string \<Rightarrow> string \<Rightarrow> doc_row option" where
  "one_row_rows s c i = (case s of None \<Rightarrow> None | Some row \<Rightarrow> if row_id row = i then Some row else None)"

lemma one_row_laws: "query_laws one_row_rows one_row"
proof -
  have "find_result (one_row_rows s c) flt opts rs" if "find_rows one_row s c flt opts = (Inr rs, s')" for s c flt opts rs s'
    using that unfolding find_result_def
    by (intro exI [of _ "case s of None \<Rightarrow> [] | Some row \<Rightarrow> if match_doc flt (row_document row) then [row] else []"])
       (auto simp: one_row_def one_row_rows_def split: option.splits)
  then show ?thesis by (auto simp: query_laws_def one_row_def)
qed

definition sample_db :: database_name where
  "sample_db = \<lparr>project_id = ''p'', database_id = ''d''\<rparr>"

definition sample_row :: doc_row where
  "sample_row = \<lparr>row_id = ''c/x'', row_create_time_us = 1, row_set =
     \<lparr>rs_collection_path = ''c'', rs_collection_id = ''c'', rs_update_time_us = 1,
      rs_payload = encode_document numbering_codec sample_fields,
      rs_index = index_document sample_db [''c'', ''x''] sample_fields\<rparr>\<rparr>"

lemma plain_sample: "plain_fields sample_fields"
  by (simp add: plain_fields_def sample_fields_def VALUE_KEY_def NAME_FIELD_def)

lemma sample_indexed: "rows_indexed numbering_codec sample_db (one_row_rows (Some sample_row) c)"
proof -
  have "parse_path ''c/x'' = Inr [''c'', ''x'']" by (simp add: parse_path_def from_segments_def validate_segment_def)
  then have "row_indexed numbering_codec sample_db sample_row
      \<lparr>sd_path = [''c'', ''x''], create_time_us = 1, update_time_us = 1, sd_fields = sample_fields\<rparr>"
    by (simp add: row_indexed_def decode_row_def sample_row_def numbering_codec_def plain_sample)
  then show ?thesis by (auto simp: rows_indexed_def one_row_rows_def split: if_splits)
qed

section \<open>Results\<close>

lemma fetch_candidates_cases:
  assumes "fetch_candidates qd cd database par selector predicate window st = (Inr docs, st')"
  obtains k x where "k \<noteq> ''$and''"
    "\<And>p w s. fetch_candidates qd cd database par selector p w s = list_where qd cd database [(k, BStr x)] p w s"
proof (cases "cs_all_descendants selector")
  case True
  then show thesis using assms that [of "''collection_id''" "cs_collection_id selector"]
    by (auto simp: fetch_candidates_def list_collection_group_where_def split: if_splits)
next
  case False
  then obtain coll where "child par (cs_collection_id selector) = Inr coll"
    using assms by (auto simp: fetch_candidates_def split: sum.splits)
  then show thesis using False that [of "''collection_path''" "show_path coll"]
    by (auto simp: fetch_candidates_def list_collection_where_def)
qed

lemma evaluate_query_parts:
  assumes "evaluate_query qd cd database par query planned st = (Inr r, st')"
  obtains selector filters predicate window docs where "sq_from query = [selector]" "query_filters query = Inr filters"
    "plan_query query filters (normalize_orders query filters) planned = (predicate, window)"
    "fetch_candidates qd cd database par selector predicate window st = (Inr docs, st')"
    "finish_query database query filters (normalize_orders query filters) (window \<noteq> None) docs = Inr r"
  using assms that
  by (auto simp: evaluate_query_def Let_def split: list.splits sum.splits prod.splits)

lemma planned_scan_agree:
  assumes laws: "query_laws rows qd" and ix: "rows_indexed cd database (rows (qs_session st) (collection_name database))"
    and plain: "query_plain query"
    and p: "run_query qd cd database par query st = (Inr r1, st1)"
    and s: "run_query_scanning qd cd database par query st = (Inr r2, st2)"
  shows "r1 = r2"
proof -
  from p obtain selector filters predicate window docs where
    p: "sq_from query = [selector]" "query_filters query = Inr filters"
      "plan_query query filters (normalize_orders query filters) True = (predicate, window)"
      "fetch_candidates qd cd database par selector predicate window st = (Inr docs, st1)"
      "finish_query database query filters (normalize_orders query filters) (window \<noteq> None) docs = Inr r1"
    unfolding run_query_def by (elim evaluate_query_parts)
  from s p(1,2) obtain docs2 where
    s: "fetch_candidates qd cd database par selector None None st = (Inr docs2, st2)"
      "finish_query database query filters (normalize_orders query filters) False docs2 = Inr r2"
    unfolding run_query_scanning_def by (elim evaluate_query_parts) (auto simp: plan_query_def)
  obtain k x where k: "k \<noteq> ''$and''"
    "\<And>p w s. fetch_candidates qd cd database par selector p w s = list_where qd cd database [(k, BStr x)] p w s"
    by (rule fetch_candidates_cases [OF p(4)]) blast
  obtain all where all: "distinct all" "set all = scope_rows (rows (qs_session st) (collection_name database)) k x"
      "r2 = apply_window query (ordered_matches database query filters (normalize_orders query filters) (map (doc_of cd) all))"
    by (rule evaluate_scan_eq [OF laws ix k(1) _ s(2)]) (use s(1) k(2) in auto)
  have "list_all filter_storable filters" using plain p(2) by (simp add: query_plain_def)
  from evaluate_planned_eq [OF laws ix k(1) plain this p(3) _ p(5) all(1,2)] p(4) k(2) all(3)
  show ?thesis by simp
qed

text \<open>
  C5. Query planning is a pure optimisation: over rows that carry their index columns, a
  planned query (index predicate, cursor bounds, sorting, skipping and limiting in the database)
  returns the very list that evaluating the query over the whole collection returns.
\<close>

theorem planned_query_equals_scan:
  assumes "query_laws rows qd" "rows_indexed cd database (rows (qs_session st) (collection_name database))"
    and "query_plain query"
    and "run_query qd cd database par query st = (Inr r1, st1)"
    and "run_query_scanning qd cd database par query st = (Inr r2, st2)"
  shows "r1 = r2"
  using assms by (rule planned_scan_agree)

definition sample_query :: structured_query where
  "sample_query = \<lparr>sq_from = [\<lparr>cs_collection_id = ''c'', cs_all_descendants = False\<rparr>],
     sq_where = Some (Some (FieldFilter \<lparr>ff_field = Some ''m.a'', ff_op = OpArrayContains, ff_value = Some (IntegerValue 1)\<rparr>)),
     sq_order_by = [\<lparr>or_field = Some ''m'', or_direction = 2\<rparr>], sq_start_at = None, sq_end_at = None,
     sq_offset = 0, sq_limit = Some 5\<rparr>"

abbreviation sample_state :: "doc_row option query_state" where
  "sample_state \<equiv> \<lparr>qs_session = Some sample_row, qs_indexed = []\<rparr>"

lemma sample_query_runs: "\<exists>r st1. evaluate_query one_row numbering_codec sample_db [] sample_query planned sample_state = (Inr r, st1)"
proof -
  let ?fs = "[FieldFilter \<lparr>ff_field = Some ''m.a'', ff_op = OpArrayContains, ff_value = Some (IntegerValue 1)\<rparr>]"
  have sel: "sq_from sample_query = [\<lparr>cs_collection_id = ''c'', cs_all_descendants = False\<rparr>]"
    by (simp add: sample_query_def)
  have flt: "query_filters sample_query = Inr ?fs" by (simp add: query_filters_def sample_query_def)
  obtain p w where pw: "plan_query sample_query ?fs (normalize_orders sample_query ?fs) planned = (p, w)" by force
  obtain flt s1 where n: "narrowed one_row sample_db [(''collection_path'', BStr ''c'')] p sample_state = (Inr flt, s1)"
    by (cases p) (auto simp: narrowed_def ensure_query_indexes_def one_row_def Let_def)
  have s1: "qs_session s1 = Some sample_row"
    using n by (cases p) (auto simp: narrowed_def ensure_query_indexes_def one_row_def Let_def)
  have ok: "row_indexed numbering_codec sample_db row (doc_of numbering_codec row)" if "row = sample_row" for row
    using rows_indexed_doc [OF sample_indexed] that
    by (auto simp: one_row_rows_def)
  obtain rs s2 where f: "find_rows one_row (qs_session s1) (collection_name sample_db) flt (window_options w) = (Inr rs, s2)"
      "set rs \<subseteq> {sample_row}"
  proof -
    have "set (find_window xs) \<subseteq> {sample_row}" if "set xs \<subseteq> {sample_row}"
        "find_window xs = (case fo_limit (window_options w) of None \<Rightarrow> \<lambda>xs. xs | Some l \<Rightarrow> take (nat (sint l)))
          ((case fo_skip (window_options w) of None \<Rightarrow> \<lambda>xs. xs | Some n \<Rightarrow> drop n) xs)" for find_window xs
      using that by (auto split: option.splits dest!: in_set_takeD in_set_dropD)
    then show thesis using that s1 by (auto simp: one_row_def)
  qed
  have "collect_rows numbering_codec rs = Inr (map (doc_of numbering_codec) rs)"
    using f(2) ok by (intro collect_rows_indexed [where database = sample_db]) auto
  then have "fetch one_row numbering_codec sample_db flt w s1 = (Inr (map (doc_of numbering_codec) rs), s1\<lparr>qs_session := s2\<rparr>)"
    using f(1) by (simp add: fetch_def)
  then have c: "fetch_candidates one_row numbering_codec sample_db [] \<lparr>cs_collection_id = ''c'', cs_all_descendants = False\<rparr> p w sample_state
      = (Inr (map (doc_of numbering_codec) rs), s1\<lparr>qs_session := s2\<rparr>)"
    using n by (simp add: fetch_candidates_def child_def validate_segment_def list_collection_where_def list_where_def show_path_def)
  have "\<exists>r. finish_query sample_db sample_query ?fs (normalize_orders sample_query ?fs) paged docs = Inr r" for paged docs
    by (simp add: finish_query_def apply_cursor_def sample_query_def Let_def)
  then show ?thesis using c by (simp add: evaluate_query_def sel flt pw Let_def)
qed

theorem planned_query_equals_scan_witness:
  "\<exists>r st1 st2. run_query one_row numbering_codec sample_db [] sample_query sample_state = (Inr r, st1)
     \<and> run_query_scanning one_row numbering_codec sample_db [] sample_query sample_state = (Inr r, st2)"
proof -
  obtain r1 st1 r2 st2 where
    r1: "run_query one_row numbering_codec sample_db [] sample_query sample_state = (Inr r1, st1)" and
    r2: "run_query_scanning one_row numbering_codec sample_db [] sample_query sample_state = (Inr r2, st2)"
    using sample_query_runs unfolding run_query_def run_query_scanning_def by blast
  have "query_plain sample_query"
    by (simp add: query_plain_def sample_query_def cursor_storable_def query_filters_def)
  with planned_query_equals_scan [OF one_row_laws _ _ r1 r2] sample_indexed have "r1 = r2" by simp
  with r1 r2 show ?thesis by blast
qed

text \<open>
  C33. Writing keeps the index: if every row of the collection carries the index columns of its
  own fields, so it does after a successful \<open>set_document\<close> of a plain document.
\<close>

theorem set_document_keeps_index:
  assumes "mongo_laws rows mg" "codec_law cd" "path_wf path" "plain_fields fs"
    and "rows_indexed cd database (rows s (collection_name database))"
    and "set_document mg cd database path fs now_us s = (Inr d, s1)"
  shows "rows_indexed cd database (rows s1 (collection_name database))"
proof -
  obtain q t where q: "find_one_and_update mg s (collection_name database) (show_path path)
      \<lparr>rs_collection_path = show_path (the (parent path)),
        rs_collection_id = (case last_id (the (parent path)) of Some i \<Rightarrow> i | None \<Rightarrow> []),
        rs_update_time_us = now_us, rs_payload = encode_document cd fs,
        rs_index = index_document database path fs\<rparr> now_us = (q, t)" by force
  with assms(6) obtain row where row: "q = Inr row" "s1 = t"
    by (cases q) (auto simp: set_document_def Let_def)
  note m = mongo_laws_update [OF assms(1) q [unfolded row(1)]]
  have "row_indexed cd database row \<lparr>sd_path = path, create_time_us = row_create_time_us row,
      update_time_us = now_us, sd_fields = fs\<rparr>"
    using m assms(2,4) parse_path_show [OF assms(3)] by (simp add: row_indexed_def decode_row_def codec_law_def)
  moreover have "row_id row = show_path path" using m by simp
  ultimately show ?thesis using m assms(5) row(2) unfolding rows_indexed_def by (auto split: if_splits)
qed

theorem set_document_keeps_index_witness:
  "\<exists>d s1. set_document map_mongo numbering_codec sample_db [''c'', ''x''] sample_fields 7 (\<lambda>_ _. None) = (Inr d, s1)
     \<and> rows_indexed numbering_codec sample_db (s1 (collection_name sample_db))"
proof -
  have wf: "path_wf [''c'', ''x'']" by (simp add: path_wf_def)
  obtain d s1 where set: "set_document map_mongo numbering_codec sample_db [''c'', ''x''] sample_fields 7 (\<lambda>_ _. None) = (Inr d, s1)"
    by (force simp: set_document_def map_mongo_def Let_def decode_row_def numbering_codec_def parse_path_show [OF wf])
  have "rows_indexed numbering_codec sample_db ((\<lambda>_ _. None) (collection_name sample_db))" by (simp add: rows_indexed_def)
  from set_document_keeps_index [OF map_mongo_laws numbering_codec_law wf plain_sample this set] set show ?thesis by blast
qed

text \<open>
  C28. What a query returns: the documents of the collection that pass every filter, have every
  order-by field and lie within the cursors, each once, sorted by the normalized order; then the
  offset and the limit cut a window out of that list.
\<close>

theorem query_results:
  assumes "query_laws rows qd" "rows_indexed cd database (rows (qs_session st) (collection_name database))"
    and "sq_from query = [\<lparr>cs_collection_id = cid, cs_all_descendants = False\<rparr>]" "child par cid = Inr coll"
    and "query_filters query = Inr filters"
    and "run_query_scanning qd cd database par query st = (Inr r, st')"
    and orders_def: "orders = normalize_orders query filters"
  shows "\<exists>full. r = apply_window query full \<and> distinct full
    \<and> sorted_wrt (\<lambda>a b. compare_docs database a b orders \<noteq> Greater) full
    \<and> set full = {d. \<exists>i row. rows (qs_session st) (collection_name database) i = Some row
        \<and> rs_collection_path (row_set row) = show_path coll \<and> decode_row cd row = Inr d
        \<and> list_all (matches_filter database d) filters \<and> order_exists orders d \<and> keeps database query orders d}"
proof -
  let ?rws = "rows (qs_session st) (collection_name database)"
  obtain docs where q: "list_where qd cd database [(''collection_path'', BStr (show_path coll))] None None st = (Inr docs, st')"
      "finish_query database query filters orders False docs = Inr r"
    using assms(3-6) unfolding run_query_scanning_def orders_def
    by (elim evaluate_query_parts) (auto simp: plan_query_def fetch_candidates_def list_collection_where_def)
  obtain all where all: "distinct all" "set all = scope_rows ?rws ''collection_path'' (show_path coll)"
      "r = apply_window query (ordered_matches database query filters orders (map (doc_of cd) all))"
    by (rule evaluate_scan_eq [OF assms(1,2) _ q]) auto
  have scope: "scope_rows ?rws ''collection_path'' x = {row. \<exists>i. ?rws i = Some row \<and> rs_collection_path (row_set row) = x}" for x
    by (auto simp: scope_rows_def match_column_leaf leaf_cond_def column_at_def row_document_simps match_leaf_simps)
  have ok: "docs_ok database (map (doc_of cd) all)"
    using docs_ok_rows [OF assms(2) all(1)] all(2) by (auto simp: scope)
  have dec: "decode_row cd row = Inr d \<longleftrightarrow> d = doc_of cd row" if "?rws i = Some row" for i row d
    using rows_indexed_doc [OF assms(2) that] by (auto simp: row_indexed_def)
  have "set (ordered_matches database query filters orders (map (doc_of cd) all)) =
      {d. \<exists>i row. ?rws i = Some row \<and> rs_collection_path (row_set row) = show_path coll \<and> decode_row cd row = Inr d
        \<and> list_all (matches_filter database d) filters \<and> order_exists orders d \<and> keeps database query orders d}"
    (is "_ = ?R")
  proof
    show "set (ordered_matches database query filters orders (map (doc_of cd) all)) \<subseteq> ?R"
    proof
      fix d assume "d \<in> set (ordered_matches database query filters orders (map (doc_of cd) all))"
      then obtain i row where "d = doc_of cd row" "?rws i = Some row" "rs_collection_path (row_set row) = show_path coll"
          "passes database filters orders d" "keeps database query orders d"
        unfolding ordered_matches_set set_map all(2) scope by blast
      then show "d \<in> ?R" using dec [of i row d] by (auto simp: passes_def)
    qed
    show "?R \<subseteq> set (ordered_matches database query filters orders (map (doc_of cd) all))"
      unfolding ordered_matches_set set_map all(2) scope using dec by (auto simp: passes_def)
  qed
  then show ?thesis using all(3) ordered_matches_sorted [OF ok] by blast
qed

theorem query_results_witness:
  "\<exists>r st' full. run_query_scanning one_row numbering_codec sample_db [] sample_query sample_state = (Inr r, st')
    \<and> r = apply_window sample_query full \<and> distinct full"
proof -
  obtain r st' where r: "run_query_scanning one_row numbering_codec sample_db [] sample_query sample_state = (Inr r, st')"
    using sample_query_runs unfolding run_query_scanning_def by blast
  have "sq_from sample_query = [\<lparr>cs_collection_id = ''c'', cs_all_descendants = False\<rparr>]" "child [] ''c'' = Inr [''c'']"
    "query_filters sample_query = Inr [FieldFilter \<lparr>ff_field = Some ''m.a'', ff_op = OpArrayContains, ff_value = Some (IntegerValue 1)\<rparr>]"
    by (simp_all add: sample_query_def child_def validate_segment_def query_filters_def)
  from query_results [OF one_row_laws _ this r] sample_indexed r show ?thesis by fastforce
qed

section \<open>Paging by cursor\<close>

definition cursor_at :: "database_name \<Rightarrow> query_order list \<Rightarrow> stored_document \<Rightarrow> query_cursor" where
  "cursor_at database orders d =
     \<lparr>cu_values = map (\<lambda>ord. the (field_value database d (order_path ord))) orders, cu_before = False\<rparr>"

lemma compare_cursor_at:
  "doc_valid database orders e \<Longrightarrow> doc_valid database orders d \<Longrightarrow>
   compare_doc_to_cursor database e (cursor_at database orders d) orders = compare_docs database e d orders"
proof (induction orders)
  case (Cons ord orders)
  then have "doc_valid database orders e" "doc_valid database orders d" by (auto simp: doc_valid_def)
  then show ?case using Cons by (auto simp: compare_doc_to_cursor_def cursor_at_def doc_valid_def Let_def)
qed (simp add: compare_doc_to_cursor_def)

lemma sorted_suffix:
  assumes "sorted_wrt (\<lambda>a b. cmp a b \<noteq> Greater) L" "distinct L" "0 < k" "k \<le> length L"
    and "\<And>a b. a \<in> set L \<Longrightarrow> b \<in> set L \<Longrightarrow> cmp b a = reverse_ord (cmp a b)"
    and "\<And>a b. a \<in> set L \<Longrightarrow> b \<in> set L \<Longrightarrow> cmp a b = Equal \<longleftrightarrow> a = b"
  shows "filter (\<lambda>e. cmp e (L ! (k - 1)) = Greater) L = drop k L"
proof -
  let ?d = "L ! (k - 1)"
  have d: "?d \<in> set L" using assms(3,4) by simp
  have low: "cmp e ?d \<noteq> Greater" if "e \<in> set (take k L)" for e
  proof -
    from that obtain i where "i < length (take k L)" "e = take k L ! i" by (metis in_set_conv_nth)
    then have i: "i < k" "i < length L" "e = L ! i" using assms(4) by auto
    show ?thesis
    proof (cases "i = k - 1")
      case True
      then show ?thesis using i assms(6) [OF d d] by simp
    next
      case False
      then show ?thesis using sorted_wrt_nth_less [OF assms(1), of i "k - 1"] i assms(3,4) by simp
    qed
  qed
  have high: "cmp e ?d = Greater" if "e \<in> set (drop k L)" for e
  proof -
    from that obtain i where "i < length (drop k L)" "e = drop k L ! i" by (metis in_set_conv_nth)
    then have i: "k + i < length L" "e = L ! (k + i)" using assms(4) by auto
    have e: "e \<in> set L" using that by (rule in_set_dropD)
    have "cmp ?d e \<noteq> Greater" using sorted_wrt_nth_less [OF assms(1), of "k - 1" "k + i"] i assms(3) by simp
    moreover have "?d \<noteq> e" using i assms(2,3) by (auto simp: nth_eq_iff_index_eq)
    ultimately show ?thesis using assms(5) [OF d e] assms(6) [OF d e] by (cases "cmp ?d e") auto
  qed
  have "filter (\<lambda>e. cmp e ?d = Greater) (take k L @ drop k L) = drop k L"
    unfolding filter_append using low high by (auto simp: filter_empty_conv filter_id_conv)
  then show ?thesis by simp
qed

text \<open>
  C32. Paging by cursor neither repeats nor skips a document: the query resumed after the last
  document of a page (its order-by values as an exclusive start cursor) returns the next page of
  the full result.
\<close>

theorem cursor_continues_page:
  assumes "docs_ok database docs" "sq_start_at query = None" "sq_offset query = 0" "sq_limit query = Some n"
    and orders_def: "orders = normalize_orders query filters"
    and "finish_query database query filters orders False docs = Inr page" "page \<noteq> []"
    and "finish_query database (query\<lparr>sq_start_at := Some (cursor_at database orders (last page))\<rparr>)
      filters orders False docs = Inr resumed"
    and "finish_query database (query\<lparr>sq_limit := None\<rparr>) filters orders False docs = Inr full"
  shows "page = take (length page) full \<and> resumed = take (nat (sint n)) (drop (length page) full)"
proof -
  let ?cmp = "\<lambda>a b. compare_docs database a b orders"
  define L where "L = ordered_matches database query filters orders docs"
  have keeps_limit: "keeps database (query\<lparr>sq_limit := None\<rparr>) orders = keeps database query orders"
    by (simp add: keeps_def [abs_def])
  have full: "full = L"
    using finish_query_Inr [OF assms(9)] assms(3)
    by (simp add: L_def ordered_matches_def keeps_limit apply_window_def)
  have "page = apply_window query L" using finish_query_Inr [OF assms(6)] by (simp add: L_def)
  then have page: "page = take (nat (sint n)) L" "0 < sint n"
    using assms(3,4,7) by (auto simp: apply_window_def max_def split: if_splits)
  let ?k = "length page"
  have k: "0 < ?k" "?k \<le> length L" "last page = L ! (?k - 1)"
    using assms(7) page by (auto simp: last_conv_nth)
  have Lin: "d \<in> set docs \<and> passes database filters orders d" if "d \<in> set L" for d
    using that by (auto simp: L_def ordered_matches_set)
  have valid: "doc_valid database orders d" if "d \<in> set L" for d
    using docs_ok_valid [OF assms(1)] Lin [OF that] by (auto simp: passes_def)
  have name: "NAME_FIELD \<in> order_path ` set orders" by (simp add: orders_def normalize_orders_name)
  have eq: "?cmp a b = Equal \<longleftrightarrow> a = b" if "a \<in> set L" "b \<in> set L" for a b
    using compare_docs_Equal [OF name valid valid] docs_order.cmp_self [OF valid] Lin that assms(1)
    unfolding docs_ok_def by metis
  have rev: "?cmp b a = reverse_ord (?cmp a b)" if "a \<in> set L" "b \<in> set L" for a b
    by (rule docs_order.cmp_rev [OF valid [OF that(1)] valid [OF that(2)]])
  have suffix: "filter (\<lambda>e. ?cmp e (last page) = Greater) L = drop ?k L"
    unfolding k(3) using sorted_suffix [OF _ _ k(1,2) rev eq] ordered_matches_sorted [OF assms(1)] by (simp add: L_def)
  have last: "last page \<in> set L" using k(1,2) unfolding k(3) by (intro nth_mem) linarith
  let ?q = "query\<lparr>sq_start_at := Some (cursor_at database orders (last page))\<rparr>"
  let ?S = "sort_by ?cmp (filter (passes database filters orders) docs)"
  have "ordered_matches database ?q filters orders docs = filter (\<lambda>e. ?cmp e (last page) = Greater) L"
  proof -
    have "keeps database ?q orders e \<longleftrightarrow> keeps database query orders e \<and> ?cmp e (last page) = Greater" if "e \<in> set ?S" for e
    proof -
      have "doc_valid database orders e"
        using that docs_ok_valid [OF assms(1)] by (auto simp: passes_def)
      then have "compare_doc_to_cursor database e (cursor_at database orders (last page)) orders = ?cmp e (last page)"
        using compare_cursor_at valid [OF last] by blast
      then show ?thesis using assms(2) by (auto simp: keeps_def keep_start_def Let_def cursor_at_def)
    qed
    then show ?thesis unfolding L_def ordered_matches_def filter_filter by (intro filter_cong) auto
  qed
  then have "resumed = apply_window ?q (drop ?k L)" using finish_query_Inr [OF assms(8)] suffix by simp
  then show ?thesis using assms(3,4) page full by (auto simp: apply_window_def max_def min_def)
qed

definition page_query :: structured_query where
  "page_query = sample_query\<lparr>sq_where := None, sq_order_by := [], sq_limit := Some 1\<rparr>"

definition page_docs :: "stored_document list" where
  "page_docs = map (\<lambda>i. \<lparr>sd_path = [''c'', i], create_time_us = 1, update_time_us = 1, sd_fields = []\<rparr>) [''b'', ''a'']"

lemma page_docs_ok: "docs_ok sample_db page_docs"
  by (auto simp: docs_ok_def page_docs_def path_wf_def field_value_def get_field_def get_segments_Nil_map split: if_splits)

theorem cursor_continues_page_witness:
  "\<exists>page resumed full orders. page \<noteq> []
    \<and> finish_query sample_db page_query [] orders False page_docs = Inr page
    \<and> finish_query sample_db (page_query\<lparr>sq_start_at := Some (cursor_at sample_db orders (last page))\<rparr>) [] orders False page_docs = Inr resumed
    \<and> page = take (length page) full \<and> resumed = take 1 (drop (length page) full)"
proof -
  define orders where "orders = normalize_orders page_query []"
  have o: "orders = [\<lparr>or_field = Some NAME_FIELD, or_direction = direction_ascending\<rparr>]"
    by (simp add: orders_def normalize_orders_def page_query_def sample_query_def inequality_paths_def map_filter_simps Let_def)
  have fin: "\<exists>r. finish_query sample_db (page_query\<lparr>sq_limit := l, sq_start_at := c\<rparr>) [] orders False page_docs = Inr r"
    if "\<forall>cur. c = Some cur \<longrightarrow> length (cu_values cur) \<le> length orders" for l c
    using that by (cases c) (auto simp: finish_query_def apply_cursor_def validate_cursor_def page_query_def sample_query_def Let_def)
  have q: "page_query\<lparr>sq_limit := Some 1, sq_start_at := c\<rparr> = page_query\<lparr>sq_start_at := c\<rparr>"
    "page_query\<lparr>sq_limit := Some 1, sq_start_at := None\<rparr> = page_query"
    "page_query\<lparr>sq_limit := None, sq_start_at := None\<rparr> = page_query\<lparr>sq_limit := None\<rparr>" for c
    by (simp_all add: page_query_def sample_query_def)
  obtain page where page: "finish_query sample_db page_query [] orders False page_docs = Inr page"
    using fin [of None "Some 1"] q by auto
  obtain resumed where resumed: "finish_query sample_db (page_query\<lparr>sq_start_at := Some (cursor_at sample_db orders (last page))\<rparr>)
      [] orders False page_docs = Inr resumed"
    using fin [of "Some (cursor_at sample_db orders (last page))" "Some 1"] q by (auto simp: cursor_at_def)
  obtain full where full: "finish_query sample_db (page_query\<lparr>sq_limit := None\<rparr>) [] orders False page_docs = Inr full"
    using fin [of None None] q by auto
  have "ordered_matches sample_db page_query [] orders page_docs \<noteq> []"
  proof -
    have "hd page_docs \<in> set (ordered_matches sample_db page_query [] orders page_docs)"
      unfolding ordered_matches_set
      by (simp add: page_docs_def passes_def order_exists_def o keeps_def page_query_def sample_query_def)
    then show ?thesis by auto
  qed
  then have ne: "page \<noteq> []" using finish_query_Inr [OF page]
    by (simp add: apply_window_def page_query_def sample_query_def Let_def)
  have "page = take (length page) full \<and> resumed = take (nat (sint (1::i32))) (drop (length page) full)"
    by (rule cursor_continues_page [OF page_docs_ok _ _ _ orders_def page ne resumed full])
       (simp_all add: page_query_def sample_query_def)
  then show ?thesis using ne page resumed by auto
qed

section \<open>Filters and aggregations\<close>

text \<open>The filters a query evaluates are never composite.\<close>

definition leaf_filter :: "filter_type \<Rightarrow> bool" where
  "leaf_filter f \<longleftrightarrow> (case f of CompositeFilter op fs \<Rightarrow> False | _ \<Rightarrow> True)"

lemma flatten_and_leaves:
  "flatten_and f out = Inr fs \<Longrightarrow> list_all leaf_filter out \<Longrightarrow> list_all leaf_filter fs"
  "flatten_all gs out = Inr fs \<Longrightarrow> list_all leaf_filter out \<Longrightarrow> list_all leaf_filter fs"
  by (induction f out and gs out arbitrary: fs and fs rule: flatten_and_flatten_all.induct)
     (auto simp: leaf_filter_def split: if_splits sum.splits)

text \<open>
  The comparison filters partition: for an operand that is neither null nor NaN, a value of
  the operand's type that is not NaN passes exactly one of less-than, equal and greater-than,
  any other value passes none; the non-strict filters are their unions and not-equal passes
  every other value that is neither null nor NaN.
\<close>

theorem comparison_filters_partition:
  assumes "storable v" "storable x" "\<not> is_null x" "\<not> is_nan x"
  shows "length (filter (\<lambda>op. matches_field_op op v x) [OpLessThan, OpEqual, OpGreaterThan])
      = (if same_type_rank v x \<and> \<not> is_nan v then 1 else 0)
    \<and> matches_field_op OpLessThanOrEqual v x = (matches_field_op OpLessThan v x \<or> matches_field_op OpEqual v x)
    \<and> matches_field_op OpGreaterThanOrEqual v x = (matches_field_op OpGreaterThan v x \<or> matches_field_op OpEqual v x)
    \<and> matches_field_op OpNotEqual v x = (\<not> is_null v \<and> \<not> is_nan v \<and> \<not> matches_field_op OpEqual v x)"
  using assms
  by (cases "compare_values v x") (simp_all add: matches_field_op_def inequality_def query_eq_def Let_def)

theorem comparison_filters_partition_witness:
  "length (filter (\<lambda>op. matches_field_op op (IntegerValue 1) (DoubleValue 0)) [OpLessThan, OpEqual, OpGreaterThan])
      = (if same_type_rank (IntegerValue 1) (DoubleValue 0) \<and> \<not> is_nan (IntegerValue 1) then 1 else 0)
    \<and> matches_field_op OpLessThanOrEqual (IntegerValue 1) (DoubleValue 0)
        = (matches_field_op OpLessThan (IntegerValue 1) (DoubleValue 0) \<or> matches_field_op OpEqual (IntegerValue 1) (DoubleValue 0))"
  using comparison_filters_partition [of "IntegerValue 1" "DoubleValue 0"]
  by (simp add: is_null_def is_nan_def f64_is_nan_def f64_mag_def)

definition int_at :: "string \<Rightarrow> stored_document \<Rightarrow> int" where
  "int_at field d = (case get_field (sd_fields d) field of Some (IntegerValue i) \<Rightarrow> sint i | _ \<Rightarrow> 0)"

definition has_double :: "string \<Rightarrow> stored_document \<Rightarrow> bool" where
  "has_double field d \<longleftrightarrow> (case get_field (sd_fields d) field of Some (DoubleValue _) \<Rightarrow> True | _ \<Rightarrow> False)"

lemma fold_document_sum:
  "nf_int_sum (fold_document field st d) =
     Option.bind (nf_int_sum st) (\<lambda>s. if in_i64 (sint s + int_at field d) then Some (word_of_int (sint s + int_at field d)) else None)
   \<and> nf_seen_double (fold_document field st d) = (nf_seen_double st \<or> has_double field d)"
proof -
  have "in_i64 (sint s)" for s :: i64 by (rule sint_i64_range)
  then show ?thesis
    by (cases "nf_int_sum st")
       (auto simp: fold_document_def int_at_def has_double_def checked_add_i64_def split: option.splits fvalue.splits)
qed

fun add_ints :: "i64 \<Rightarrow> int list \<Rightarrow> i64 option" where
  "add_ints s [] = Some s"
| "add_ints s (x # xs) = (if in_i64 (sint s + x) then add_ints (word_of_int (sint s + x)) xs else None)"

lemma numeric_fold_ints:
  "nf_int_sum (foldl (fold_document field) st docs) =
     Option.bind (nf_int_sum st) (\<lambda>s. add_ints s (map (int_at field) docs))"
  by (induction docs arbitrary: st) (auto simp: fold_document_sum split: Option.bind_splits)

lemma numeric_fold_double:
  "nf_seen_double (foldl (fold_document field) st docs) = (nf_seen_double st \<or> list_ex (has_double field) docs)"
  by (induction docs arbitrary: st) (auto simp: fold_document_sum)

lemma add_ints_eq:
  "add_ints s xs = (if \<forall>k \<le> length xs. in_i64 (sint s + sum_list (take k xs)) then Some (word_of_int (sint s + sum_list xs)) else None)"
proof (induction xs arbitrary: s)
  case Nil
  then show ?case using sint_i64_range [of s] by simp
next
  case (Cons x xs)
  have le: "(\<forall>k \<le> Suc n. P k) \<longleftrightarrow> P 0 \<and> (\<forall>k \<le> n. P (Suc k))" for n and P :: "nat \<Rightarrow> bool"
    using All_less_Suc2 [of "Suc n" P] by (simp add: less_Suc_eq_le)
  have all: "(\<forall>k \<le> length (x # xs). in_i64 (sint s + sum_list (take k (x # xs))))
      \<longleftrightarrow> (\<forall>k \<le> length xs. in_i64 (sint s + x + sum_list (take k xs)))"
    using sint_i64_range [of s] by (simp add: le add.assoc)
  show ?case
  proof (cases "in_i64 (sint s + x)")
    case True
    define t :: i64 where "t = word_of_int (sint s + x)"
    have t: "sint t = sint s + x" using True unfolding t_def by (rule sint_word_of_int_i64)
    have "add_ints s (x # xs) = add_ints t xs" using True by (simp only: add_ints.simps t_def if_True)
    then show ?thesis unfolding all Cons.IH t by (simp only: sum_list.Cons add.assoc)
  next
    case False
    then have "\<not> (\<forall>k \<le> length xs. in_i64 (sint s + x + sum_list (take k xs)))" by (intro notI) (drule spec [of _ 0], simp)
    then show ?thesis unfolding all using False by simp
  qed
qed

text \<open>
  The sum aggregation is an integer exactly when no summed field is a double and no partial
  sum leaves the 64-bit range, and then it is the exact sum of the integer fields; everything
  that is not a number is skipped.
\<close>

theorem sum_exact:
  "(\<exists>s. agg_value docs (AggSum (Some field)) = IntegerValue s \<and> sint s = sum_list (map (int_at field) docs)) =
     (\<not> list_ex (has_double field) docs
      \<and> list_all (\<lambda>k. in_i64 (sum_list (map (int_at field) (take k docs)))) [0..<Suc (length docs)])"
proof -
  let ?st = "\<lparr>nf_int_sum = Some 0, nf_double_sum = 0, nf_count = 0, nf_seen_double = False\<rparr>"
  have v: "agg_value docs (AggSum (Some field)) = into_sum (foldl (fold_document field) ?st docs)"
    by (simp add: agg_value_def numeric_fold_def agg_field_def)
  have all: "list_all P [0..<Suc n] \<longleftrightarrow> (\<forall>k \<le> n. P k)" for n and P :: "nat \<Rightarrow> bool"
    by (auto simp: list_all_iff less_Suc_eq_le)
  let ?ok = "\<forall>k \<le> length docs. in_i64 (sum_list (map (int_at field) (take k docs)))"
  have r: "?ok \<Longrightarrow> in_i64 (sum_list (map (int_at field) docs))" by (drule spec [of _ "length docs"]) simp
  have st: "nf_int_sum (foldl (fold_document field) ?st docs) =
      (if ?ok then Some (word_of_int (sum_list (map (int_at field) docs))) else None)"
    by (simp add: numeric_fold_ints add_ints_eq take_map)
  show ?thesis unfolding v all into_sum_def st numeric_fold_double
    using r by (cases ?ok; cases "list_ex (has_double field) docs") simp_all
qed

end
