(* ===== verification/ListenView.thy ===== *)
theory ListenView
  imports Listen QueryProps ServiceProps
begin

text \<open>
  What a client of a Listen stream sees: the documents of each of its targets, read off the
  responses; what the loops of a session send; the initial state of a target.
\<close>

section \<open>The client\<close>

text \<open>A client's documents of each target, with their update times, by name.\<close>

type_synonym client = "i32 \<Rightarrow> string \<Rightarrow> timestamp option"

definition drop_document :: "string \<Rightarrow> i32 list \<Rightarrow> client \<Rightarrow> client" where
  "drop_document name ids c = (\<lambda>i. if i \<in> set ids then (c i)(name := None) else c i)"

definition client_step :: "client \<Rightarrow> listen_response \<Rightarrow> client" where
  "client_step c r =
     (case r of
        Target_change tc \<Rightarrow>
          (if tc_kind tc \<in> {Add_change, Remove_change, Reset_change}
           then (\<lambda>i. if i \<in> set (tc_ids tc) then (\<lambda>_. None) else c i) else c)
      | Document_change doc ids \<Rightarrow> (\<lambda>i. if i \<in> set ids then (c i)(wd_name doc := wd_update_time doc) else c i)
      | Document_delete name ids t \<Rightarrow> drop_document name ids c
      | Document_remove name ids t \<Rightarrow> drop_document name ids c)"

definition client_of :: "listen_response list \<Rightarrow> client" where
  "client_of rs = foldl client_step (\<lambda>_ _. None) rs"

lemma client_of_append: "client_of (rs @ rs') = foldl client_step (client_of rs) rs'"
  by (simp add: client_of_def)

definition member_name :: "database_name \<Rightarrow> string \<Rightarrow> string" where
  "member_name database pk = documents_root database @ ''/'' @ pk"

text \<open>Documents \<open>w\<close> by name are the members \<open>m\<close> by path; the root path is no document.\<close>

definition mirrors :: "database_name \<Rightarrow> (string \<Rightarrow> timestamp option) \<Rightarrow> (string \<times> i64) list \<Rightarrow> bool" where
  "mirrors database w m \<longleftrightarrow> (\<forall>pk. pk \<noteq> [] \<longrightarrow> w (member_name database pk) = map_option timestamp_from_us (hm_get m pk))"

lemma member_name_inject [simp]: "member_name database k = member_name database l \<longleftrightarrow> k = l"
  by (simp add: member_name_def)

lemma doc_name:
  "show_name \<lparr>rn_database = database, rn_path = path\<rparr> =
     (if path = [] then documents_root database else member_name database (show_path path))"
  by (simp add: show_name_def member_name_def documents_root_def)

lemma mirrors_empty: "mirrors database (\<lambda>_. None) []"
  by (simp add: mirrors_def)

lemma mirrors_insert:
  assumes "mirrors database w m"
  shows "mirrors database (w(show_name \<lparr>rn_database = database, rn_path = path\<rparr> := Some (timestamp_from_us us)))
    (hm_insert (show_path path) us m)"
proof -
  have "documents_root database \<noteq> member_name database pk" "member_name database pk \<noteq> documents_root database" for pk
    by (simp_all add: member_name_def)
  moreover have "show_path [] = []" by (simp add: show_path_def)
  ultimately show ?thesis using assms by (auto simp: mirrors_def doc_name update_conv)
qed

lemma mirrors_remove:
  assumes "mirrors database w m"
  shows "mirrors database (w(member_name database pk := None)) (hm_remove pk m)"
  using assms by (auto simp: mirrors_def delete_conv)

section \<open>What the loops send\<close>

definition change_message :: "database_name \<Rightarrow> i32 \<Rightarrow> stored_document \<Rightarrow> listen_response" where
  "change_message database i doc = Document_change (to_wire_document \<lparr>rn_database = database, rn_path = sd_path doc\<rparr> doc) [i]"

lemma listen_simps:
  "returns a ls st = (Inr a, ls, st)" "ends e ls st = (Inl e, ls, st)" "session ls st = (Inr ls, ls, st)"
  "modify f ls st = (Inr (), f ls, st)"
  "send r ls st = (Inr (), ls\<lparr>ls_out := ls_out ls @ [r]\<rparr>, st)"
  by (simp_all add: returns_def ends_def session_def modify_def send_def)

lemma next_do_Inr:
  "next_do m f ls st = (Inr b, ls', st') \<longleftrightarrow> (\<exists>a ls1 st1. m ls st = (Inr a, ls1, st1) \<and> f a ls1 st1 = (Inr b, ls', st'))"
  by (auto simp: next_do_def split: prod.splits sum.splits)

lemma send_documents_out:
  "send_documents database docs i ls st = (Inr (), ls\<lparr>ls_out := ls_out ls @ map (change_message database i) docs\<rparr>, st)"
  by (induction docs arbitrary: ls) (simp_all add: next_do_def listen_simps send_document_change_def change_message_def)

lemma send_deletes_out:
  "send_deletes database paths i t ls st =
     (Inr (), ls\<lparr>ls_out := ls_out ls @ map (\<lambda>p. Document_delete (full_name database p) [i] (timestamp_from_us t)) paths\<rparr>, st)"
  by (induction paths arbitrary: ls) (simp_all add: next_do_def listen_simps)

lemma send_removes_out:
  "send_removes database keys i t ls st =
     (Inr (), ls\<lparr>ls_out := ls_out ls @ map (\<lambda>k. Document_remove (member_name database k) [i] (timestamp_from_us t)) keys\<rparr>, st)"
  by (induction keys arbitrary: ls) (simp_all add: next_do_def listen_simps member_name_def)

text \<open>Sent messages of one target leave the others alone.\<close>

lemma client_changes:
  "foldl client_step c (map (change_message database i) docs) j =
     (if j = i then fold (\<lambda>doc w. w(show_name \<lparr>rn_database = database, rn_path = sd_path doc\<rparr> :=
        Some (timestamp_from_us (update_time_us doc)))) docs (c i) else c j)"
  by (induction docs arbitrary: c) (simp_all add: client_step_def change_message_def to_wire_document_def)

lemma client_drops:
  "foldl client_step c (map (\<lambda>p. Document_delete (f p) [i] t) xs) j =
     (if j = i then fold (\<lambda>p w. w(f p := None)) xs (c i) else c j)"
  "foldl client_step c (map (\<lambda>p. Document_remove (f p) [i] t) xs) j =
     (if j = i then fold (\<lambda>p w. w(f p := None)) xs (c i) else c j)"
  by (induction xs arbitrary: c) (simp_all add: client_step_def drop_document_def)

lemma fold_drops: "fold (\<lambda>p w. w(f p := None)) xs w n = (if n \<in> f ` set xs then None else w n)"
  by (induction xs arbitrary: w) auto

lemma mirrors_documents:
  assumes "mirrors database w m"
  shows "mirrors database
    (fold (\<lambda>doc w. w(show_name \<lparr>rn_database = database, rn_path = sd_path doc\<rparr> := Some (timestamp_from_us (update_time_us doc)))) docs w)
    (fold (\<lambda>doc. hm_insert (show_path (sd_path doc)) (update_time_us doc)) docs m)"
  using assms by (induction docs arbitrary: w m) (simp_all add: mirrors_insert)

lemma members_get:
  "hm_get (fold (\<lambda>doc. hm_insert (show_path (sd_path doc)) (update_time_us doc)) docs m) pk =
     (case find (\<lambda>doc. show_path (sd_path doc) = pk) (rev docs) of Some doc \<Rightarrow> Some (update_time_us doc) | None \<Rightarrow> hm_get m pk)"
  by (induction docs rule: rev_induct) (auto simp: update_conv)

section \<open>What a session keeps\<close>

definition kind_ok :: "target_kind \<Rightarrow> bool" where
  "kind_ok kind \<longleftrightarrow> (case kind of Documents_target paths \<Rightarrow> distinct paths \<and> list_all path_wf paths | Query_target _ _ \<Rightarrow> True)"

text \<open>Every target but those of \<open>X\<close> is as the client sees it.\<close>

definition tracked :: "i32 set \<Rightarrow> listen_session \<Rightarrow> bool" where
  "tracked X ls \<longleftrightarrow> (\<forall>i t. hm_get (ls_targets ls) i = Some t \<longrightarrow> kind_ok (ts_kind t) \<and>
     (i \<notin> X \<longrightarrow> (\<exists>db. ls_database ls = Some db \<and> mirrors db (client_of (ls_out ls) i) (ts_members t))))"

lemma trackedD:
  "tracked X ls \<Longrightarrow> hm_get (ls_targets ls) i = Some t \<Longrightarrow> kind_ok (ts_kind t)"
  "tracked X ls \<Longrightarrow> hm_get (ls_targets ls) i = Some t \<Longrightarrow> i \<notin> X \<Longrightarrow> ls_database ls = Some db \<Longrightarrow>
     mirrors db (client_of (ls_out ls) i) (ts_members t)"
  by (auto simp: tracked_def)

text \<open>The driver answers a lookup with the row of the identifier that was asked for.\<close>

definition keyed_reads :: "'s mongo \<Rightarrow> bool" where
  "keyed_reads mg \<longleftrightarrow> (\<forall>s c i row s'. find_one mg s c i = (Inr (Some row), s') \<longrightarrow> row_id row = i)"

lemma get_document_path:
  assumes "keyed_reads mg" "path_wf path" "get_document mg cd database path s = (Inr (Some doc), s')"
  shows "sd_path doc = path"
proof -
  obtain row where row: "find_one mg s (collection_name database) (show_path path) = (Inr (Some row), s')"
      "decode_row cd row = Inr doc"
    using assms(3) by (auto simp: get_document_def map_sum_def split: prod.splits sum.splits option.splits)
  then have "row_id row = show_path path" using assms(1) unfolding keyed_reads_def by blast
  then show ?thesis using row(2) parse_path_show [OF assms(2)] by (auto simp: decode_row_def split: option.splits sum.splits)
qed

lemma may_read_same: "may_read sv auth database path doc ls st = (r, ls', st') \<Longrightarrow> ls' = ls"
  by (auto simp: may_read_def next_do_def asks_def listen_simps Let_def split: prod.splits)

lemma read_documents_result:
  assumes "keyed_reads (rc_mongo (sv_context sv))"
  shows "list_all path_wf paths \<Longrightarrow> read_documents sv auth database paths ls st = (Inr r, ls', st') \<Longrightarrow>
    ls' = ls \<and> (\<forall>found missing. r = Some (found, missing) \<longrightarrow>
      set missing \<subseteq> set paths \<and> sd_path ` set found \<subseteq> set paths \<and> (distinct paths \<longrightarrow> sd_path ` set found \<inter> set missing = {}))"
proof (induction paths arbitrary: st st' r)
  case (Cons path paths)
  from Cons.prems(2) obtain doc st1 allowed st2 ls2 where
    doc: "asks (on_driver (\<lambda>d. let (r, d) = get_document (rc_mongo (sv_context sv)) (rc_codec (sv_context sv)) database path d
        in (map_sum (\<lambda>e. Internal (rc_error_text (sv_context sv) e)) id r, d))) ls st = (Inr (Inr doc), ls, st1)"
    and m: "may_read sv auth database path doc ls st1 = (Inr allowed, ls2, st2)"
    and rest: "(if \<not> allowed then returns None
         else next_do (read_documents sv auth database paths) (\<lambda>rest.
           returns (map_option (\<lambda>(found, missing).
             case doc of Some d \<Rightarrow> (d # found, missing) | None \<Rightarrow> (found, path # missing)) rest))) ls2 st2 = (Inr r, ls', st')"
    by (auto simp: next_do_Inr asks_def listen_simps Let_def split: prod.splits sum.splits)
  have ls2: "ls2 = ls" by (rule may_read_same [OF m])
  have at_path: "sd_path d = path" if "doc = Some d" for d
  proof -
    from doc that obtain s' where "get_document (rc_mongo (sv_context sv)) (rc_codec (sv_context sv)) database path (st_driver st) = (Inr (Some d), s')"
      by (auto simp: asks_def on_driver_def Let_def map_sum_def split: prod.splits sum.splits)
    with get_document_path [OF assms] Cons.prems(1) show ?thesis by auto
  qed
  show ?case
  proof (cases allowed)
    case False
    then show ?thesis using rest ls2 by (simp add: listen_simps)
  next
    case True
    then obtain r1 st3 where r1: "read_documents sv auth database paths ls st2 = (Inr r1, ls', st3)"
        "r = map_option (\<lambda>(found, missing). case doc of Some d \<Rightarrow> (d # found, missing) | None \<Rightarrow> (found, path # missing)) r1"
      using rest ls2 by (auto simp: next_do_Inr listen_simps)
    from Cons.IH [OF _ r1(1)] Cons.prems(1) r1(2) at_path show ?thesis
      by (cases doc; cases r1) fastforce+
  qed
qed (simp add: listen_simps)

lemma initial_documents_result:
  assumes "keyed_reads (rc_mongo (sv_context sv))" "kind_ok kind"
    "initial_documents sv auth database kind ls st = (Inr r, ls', st')"
  shows "ls' = ls \<and> (\<forall>found missing. r = Some (found, missing) \<longrightarrow>
    list_all path_wf missing \<and> sd_path ` set found \<inter> set missing = {} \<and> (missing \<noteq> [] \<longrightarrow> (\<forall>doc \<in> set found. path_wf (sd_path doc))))"
proof (cases kind)
  case (Documents_target paths)
  then have "list_all path_wf paths" "distinct paths" using assms(2) by (simp_all add: kind_ok_def)
  with read_documents_result [OF assms(1), of paths auth database ls st r ls' st'] assms(3) Documents_target
  show ?thesis by (fastforce simp: initial_documents_def list_all_iff)
next
  case (Query_target par query)
  then show ?thesis using assms(3)
    by (auto simp: initial_documents_def next_do_Inr listen_simps may_list_def asks_def run_target_query_def Let_def
        split: list.splits sum.splits if_splits prod.splits)
qed

lemma update_members_result:
  "update_members i f ls st = (Inr u, ls', st') \<longleftrightarrow>
     (\<exists>t. hm_get (ls_targets ls) i = Some t \<and> st' = st
        \<and> ls' = ls\<lparr>ls_targets := hm_insert i (t\<lparr>ts_members := f (ts_members t)\<rparr>) (ls_targets ls)\<rparr>)"
  by (auto simp: update_members_def next_do_Inr the_target_def listen_simps split: option.splits)

text \<open>Sessions that differ in what they read and send, by the messages \<open>out\<close>.\<close>

lemma read_time_result:
  "read_time us ls st = (Inr t, ls', st') \<Longrightarrow> ls' = ls\<lparr>ls_last_read := t\<rparr> \<and> st' = st"
  by (auto simp: read_time_def Let_def)

lemma snapshot_marker_result:
  "send_snapshot_marker us ls st = (Inr (), ls', st') \<Longrightarrow>
     st' = st \<and> (\<exists>t. ls' = ls\<lparr>ls_last_read := t, ls_out := ls_out ls @ [Target_change \<lparr>tc_kind = No_change, tc_ids = [],
        tc_cause = None, tc_resume_token = be_bytes 8 (t :: u64), tc_read_time = Some (timestamp_from_us t)\<rparr>]\<rparr>)"
  by (auto simp: send_snapshot_marker_def next_do_Inr send_target_change_def listen_simps dest!: read_time_result)

text \<open>Messages that are no changes of targets, or are for other targets.\<close>

lemma client_marker [simp]:
  "client_step c (Target_change \<lparr>tc_kind = No_change, tc_ids = ids, tc_cause = e, tc_resume_token = tk, tc_read_time = t\<rparr>) = c"
  "client_step c (Target_change \<lparr>tc_kind = Current_change, tc_ids = ids, tc_cause = e, tc_resume_token = tk, tc_read_time = t\<rparr>) = c"
  by (simp_all add: client_step_def)

lemma tracked_other:
  assumes "tracked X ls" "ls_database ls' = ls_database ls"
    "\<And>j. j \<noteq> i \<Longrightarrow> hm_get (ls_targets ls') j = hm_get (ls_targets ls) j"
    "\<And>j. j \<noteq> i \<Longrightarrow> client_of (ls_out ls') j = client_of (ls_out ls) j"
    "\<And>t. hm_get (ls_targets ls') i = Some t \<Longrightarrow> kind_ok (ts_kind t) \<and>
       (\<exists>db. ls_database ls = Some db \<and> mirrors db (client_of (ls_out ls') i) (ts_members t))"
  shows "tracked (X - {i}) ls'"
  unfolding tracked_def
proof (intro allI impI)
  fix j t
  assume t: "hm_get (ls_targets ls') j = Some t"
  show "kind_ok (ts_kind t) \<and>
     (j \<notin> X - {i} \<longrightarrow> (\<exists>db. ls_database ls' = Some db \<and> mirrors db (client_of (ls_out ls') j) (ts_members t)))"
  proof (cases "j = i")
    case True
    then show ?thesis using assms(5) t assms(2) by auto
  next
    case False
    then show ?thesis using assms(1,2) assms(3,4) [OF False] t by (auto simp: tracked_def)
  qed
qed

lemma initial_sent:
  assumes "keyed_reads (rc_mongo (sv_context sv))" "tracked {i} ls" "hm_get (ls_targets ls) i = Some t"
    "client_of (ls_out ls) i = (\<lambda>_. None)" "send_initial_state sv auth i ls st = (Inr (), ls', st')"
  shows "tracked {} ls' \<and> ls_database ls' = ls_database ls"
proof -
  note kind = trackedD(1) [OF assms(2,3)]
  from assms(5) obtain db where db: "ls_database ls = Some db"
    by (auto simp: send_initial_state_def next_do_Inr the_database_def split: option.splits)
  from assms(3,5) db obtain r ls1 st1 where r: "initial_documents sv auth db (ts_kind t) ls st = (Inr r, ls1, st1)"
    and rest: "(case r of
       None \<Rightarrow> deny_target i
     | Some (found, missing) \<Rightarrow>
         next_do (server_now sv) (\<lambda>now.
         next_do (send_documents db found i) (\<lambda>_.
         next_do (read_time now) (\<lambda>read_us.
         next_do (send_deletes db missing i read_us) (\<lambda>_.
         next_do (update_members i (\<lambda>_. members_of found)) (\<lambda>_.
         next_do (send_target_change Current_change [i] (Some read_us) []) (\<lambda>_.
         send_snapshot_marker now))))))) ls1 st1 = (Inr (), ls', st')"
    by (auto simp: send_initial_state_def next_do_Inr the_database_def the_target_def)
  note r = initial_documents_result [OF assms(1) kind r]
  then have ls1: "ls1 = ls" by simp
  show ?thesis
  proof (cases r)
    case None
    then have ls': "ls' = ls\<lparr>ls_targets := hm_remove i (ls_targets ls), ls_out := ls_out ls @
        [Target_change \<lparr>tc_kind = Remove_change, tc_ids = [i],
           tc_cause = Some (Permission_denied ''Missing or insufficient permissions.''), tc_resume_token = [], tc_read_time = None\<rparr>]\<rparr>"
      using rest ls1 by (auto simp: deny_target_def next_do_Inr listen_simps)
    have "tracked ({i} - {i}) ls'"
      by (rule tracked_other [OF assms(2)]) (auto simp: ls' delete_conv client_of_append client_step_def)
    then show ?thesis by (simp add: ls')
  next
    case (Some p)
    obtain found missing where p: "p = (found, missing)" by (cases p)
    let ?dels = "\<lambda>u. map (\<lambda>p. Document_delete (full_name db p) [i] (timestamp_from_us u)) missing"
    obtain u v where ls': "ls' = ls\<lparr>ls_targets := hm_insert i (t\<lparr>ts_members := members_of found\<rparr>) (ls_targets ls), ls_last_read := v,
        ls_out := ls_out ls @ map (change_message db i) found @ ?dels u @
          [Target_change \<lparr>tc_kind = Current_change, tc_ids = [i], tc_cause = None, tc_resume_token = [],
             tc_read_time = Some (timestamp_from_us u)\<rparr>,
           Target_change \<lparr>tc_kind = No_change, tc_ids = [], tc_cause = None, tc_resume_token = be_bytes 8 (v :: u64),
             tc_read_time = Some (timestamp_from_us v)\<rparr>]\<rparr>"
      using rest Some p ls1 assms(3)
      by (auto simp: next_do_Inr server_now_def send_documents_out send_deletes_out send_target_change_def listen_simps
          update_members_result dest!: read_time_result snapshot_marker_result)
    have out: "client_of (ls_out ls') j = foldl client_step (foldl client_step (client_of (ls_out ls)) (map (change_message db i) found)) (?dels u) j" for j
      by (simp add: ls' client_of_append)
    let ?w = "fold (\<lambda>doc w. w(show_name \<lparr>rn_database = db, rn_path = sd_path doc\<rparr> :=
        Some (timestamp_from_us (update_time_us doc)))) found (\<lambda>_. None)"
    have view: "client_of (ls_out ls') i = (\<lambda>n. if n \<in> full_name db ` set missing then None else ?w n)"
      unfolding out client_drops(1) client_changes using fold_drops [of "full_name db" missing] by (auto simp: assms(4))
    have w: "mirrors db ?w (members_of found)"
      unfolding members_of_def by (rule mirrors_documents [OF mirrors_empty])
    have gone: "hm_get (members_of found) (show_path q) = None" if q: "q \<in> set missing" for q
    proof -
      have wf: "path_wf q" "\<forall>doc \<in> set found. path_wf (sd_path doc)" "q \<notin> sd_path ` set found"
        using r Some p q by (auto simp: list_all_iff)
      then have "\<forall>doc \<in> set found. show_path (sd_path doc) \<noteq> show_path q" by (auto simp: show_path_inject)
      then have "find (\<lambda>doc. show_path (sd_path doc) = show_path q) (rev found) = None" by (auto simp: find_None_iff)
      then show ?thesis unfolding members_of_def members_get by simp
    qed
    have "mirrors db (client_of (ls_out ls') i) (members_of found)"
      unfolding mirrors_def view
    proof (intro allI impI)
      fix k :: string
      assume "k \<noteq> []"
      then have k: "?w (member_name db k) = map_option timestamp_from_us (hm_get (members_of found) k)"
        using w by (simp add: mirrors_def)
      have "k \<in> show_path ` set missing" if "member_name db k \<in> full_name db ` set missing"
        using that by (auto simp: full_name_def member_name_def)
      then show "(if member_name db k \<in> full_name db ` set missing then None else ?w (member_name db k))
          = map_option timestamp_from_us (hm_get (members_of found) k)"
        using k gone by auto
    qed
    then have "tracked ({i} - {i}) ls'"
      using kind db
      by (intro tracked_other [OF assms(2)]) (auto simp: out client_drops client_changes, auto simp: ls' update_conv)
    then show ?thesis by (simp add: ls')
  qed
qed

end
