(* ===== verification/ListenProps.thy ===== *)
theory ListenProps
  imports ListenView
begin

text \<open>
  The documents a client sees of each target are the members the session tracks, through
  requests, events and resyncs; after an event that may concern a query they are its results.
\<close>

section \<open>What a query answers\<close>

text \<open>A find answers no identifier twice.\<close>

definition keyed_finds :: "'s query_driver \<Rightarrow> bool" where
  "keyed_finds qd \<longleftrightarrow> (\<forall>s c flt opts rs s'. find_rows qd s c flt opts = (Inr rs, s') \<longrightarrow> distinct (map row_id rs))"

definition doc_key :: "stored_document \<Rightarrow> string" where "doc_key doc = show_path (sd_path doc)"

lemma collect_rows_keys: "collect_rows cd rows = Inr docs \<Longrightarrow> map doc_key docs = map row_id rows"
proof (induction rows arbitrary: docs)
  case (Cons row rows)
  then show ?case using parse_path_Inr [of "row_id row"]
    by (auto simp: decode_row_def doc_key_def map_sum_def split: sum.splits option.splits)
qed simp

lemma distinct_keys_mono: "distinct (map f xs) \<Longrightarrow> distinct ys \<Longrightarrow> set ys \<subseteq> set xs \<Longrightarrow> distinct (map f ys)"
  by (auto simp: distinct_map intro: inj_on_subset)

lemma apply_window_distinct: "distinct docs \<Longrightarrow> distinct (apply_window query docs)"
  and apply_window_subset: "set (apply_window query docs) \<subseteq> set docs"
  by (auto simp: apply_window_def Let_def split: option.splits dest!: in_set_takeD in_set_dropD)

lemma finish_query_keys:
  assumes "finish_query database query filters ords paged docs = Inr r" "distinct (map doc_key docs)"
  shows "distinct (map doc_key r)"
proof -
  let ?docs = "ordered_matches database query filters ords docs"
  have docs: "distinct ?docs" "set ?docs \<subseteq> set docs"
    using assms(2) by (auto simp: ordered_matches_def distinct_map)
  have "r = (if paged then ?docs else apply_window query ?docs)" by (rule finish_query_Inr [OF assms(1)])
  then have "distinct r \<and> set r \<subseteq> set docs"
    using docs apply_window_distinct [OF docs(1), of query] apply_window_subset [of query ?docs] by (auto split: if_splits)
  then show ?thesis using distinct_keys_mono [OF assms(2)] by blast
qed

lemma run_query_keys:
  assumes "keyed_finds qd" "run_query qd cd database par query st = (Inr docs, st')"
  shows "distinct (map doc_key docs)"
proof -
  obtain selector filters predicate window found where
    f: "fetch_candidates qd cd database par selector predicate window st = (Inr found, st')"
    and r: "finish_query database query filters (normalize_orders query filters) (window \<noteq> None) found = Inr docs"
    using assms(2) unfolding run_query_def by (elim evaluate_query_parts)
  obtain k x where "list_where qd cd database [(k, BStr x)] predicate window st = (Inr found, st')"
    using f by (metis fetch_candidates_cases)
  then obtain s c flt opts rows s' where "find_rows qd s c flt opts = (Inr rows, s')" "collect_rows cd rows = Inr found"
    by (auto simp: list_where_def fetch_def split: prod.splits sum.splits)
  then have "distinct (map doc_key found)" using assms(1) collect_rows_keys unfolding keyed_finds_def by metis
  with finish_query_keys [OF r] show ?thesis .
qed

section \<open>Events\<close>

lemma member_of_docs: "hm_get (members_of docs) k = map_option update_time_us (find (\<lambda>doc. doc_key doc = k) (rev docs))"
  by (auto simp: members_of_def members_get doc_key_def split: option.splits)

lemma find_unique: "distinct (map f xs) \<Longrightarrow> x \<in> set xs \<Longrightarrow> find (\<lambda>y. f y = f x) (rev xs) = Some x"
proof -
  assume d: "distinct (map f xs)" and x: "x \<in> set xs"
  then obtain y where y: "find (\<lambda>y. f y = f x) (rev xs) = Some y" by (cases "find (\<lambda>y. f y = f x) (rev xs)") (auto simp: find_None_iff)
  then have "y \<in> set xs" "f y = f x" by (auto simp: find_Some_iff) (metis nth_mem length_rev set_rev)
  then show ?thesis using y d x by (auto simp: distinct_map dest: inj_onD)
qed

lemma diff_mirrors:
  assumes "mirrors db w m" "distinct (map doc_key docs)"
  shows "mirrors db
    (\<lambda>n. if n \<in> member_name db ` set (departed m (members_of docs)) then None
         else fold (\<lambda>doc w. w(show_name \<lparr>rn_database = db, rn_path = sd_path doc\<rparr> := Some (timestamp_from_us (update_time_us doc))))
           (entered m docs) w n)
    (members_of docs)"
  unfolding mirrors_def
proof (intro allI impI)
  fix k :: string
  assume k: "k \<noteq> []"
  let ?v = "fold (\<lambda>doc w. w(show_name \<lparr>rn_database = db, rn_path = sd_path doc\<rparr> := Some (timestamp_from_us (update_time_us doc))))
           (entered m docs) w"
  let ?m = "fold (\<lambda>doc. hm_insert (show_path (sd_path doc)) (update_time_us doc)) (entered m docs) m"
  have v: "?v (member_name db k) = map_option timestamp_from_us (hm_get ?m k)"
    using mirrors_documents [OF assms(1), of "entered m docs"] k by (simp add: mirrors_def)
  have de: "distinct (map doc_key (entered m docs))" using assms(2) by (simp add: entered_def distinct_map_filter)
  have gone: "member_name db k \<in> member_name db ` set (departed m (members_of docs)) \<longleftrightarrow>
      hm_get m k \<noteq> None \<and> hm_get (members_of docs) k = None"
    by (auto simp: departed_def map_of_eq_None_iff image_iff)
  have "hm_get ?m k = hm_get (members_of docs) k" if "\<not> (hm_get m k \<noteq> None \<and> hm_get (members_of docs) k = None)"
  proof (cases "\<exists>doc \<in> set docs. doc_key doc = k")
    case True
    then obtain doc where doc: "doc \<in> set docs" "doc_key doc = k" by blast
    then have new: "hm_get (members_of docs) k = Some (update_time_us doc)"
      using find_unique [OF assms(2) doc(1)] by (simp add: member_of_docs)
    show ?thesis
    proof (cases "doc \<in> set (entered m docs)")
      case True
      then show ?thesis using find_unique [OF de True] doc(2) new by (simp add: members_get doc_key_def [abs_def] doc_key_def)
    next
      case False
      then have "hm_get m k = Some (update_time_us doc)" using doc by (auto simp: entered_def doc_key_def)
      moreover have "find (\<lambda>d. doc_key d = k) (rev (entered m docs)) = None"
        using False doc assms(2) by (auto simp: find_None_iff entered_def distinct_map dest: inj_onD)
      ultimately show ?thesis using new by (simp add: members_get doc_key_def)
    qed
  next
    case False
    then have "find (\<lambda>d. doc_key d = k) (rev docs) = None" "find (\<lambda>d. doc_key d = k) (rev (entered m docs)) = None"
      by (auto simp: find_None_iff entered_def)
    then show ?thesis using that by (simp add: member_of_docs members_get doc_key_def)
  qed
  then show "(if member_name db k \<in> member_name db ` set (departed m (members_of docs)) then None else ?v (member_name db k))
      = map_option timestamp_from_us (hm_get (members_of docs) k)"
    using gone v by auto
qed

section \<open>Events keep the mirror\<close>

definition keyed_driver :: "('k, 'd, 's) service \<Rightarrow> bool" where
  "keyed_driver sv \<longleftrightarrow> keyed_reads (rc_mongo (sv_context sv)) \<and> keyed_finds (sv_query_driver sv)"

lemma tracked_same:
  assumes "tracked {} ls" "ls_database ls' = ls_database ls"
    "\<And>j. j \<noteq> i \<Longrightarrow> hm_get (ls_targets ls') j = hm_get (ls_targets ls) j"
    "\<And>j. j \<noteq> i \<Longrightarrow> client_of (ls_out ls') j = client_of (ls_out ls) j"
    "hm_get (ls_targets ls) i = Some t" "hm_get (ls_targets ls') i = Some (t\<lparr>ts_members := m\<rparr>)"
    "ls_database ls = Some db" "mirrors db (client_of (ls_out ls') i) m"
  shows "tracked {} ls'"
proof -
  have "tracked ({} - {i}) ls'"
    by (rule tracked_other [OF assms(1-4)]) (use trackedD(1) [OF assms(1,5)] assms(6-8) in auto)
  then show ?thesis by simp
qed

lemma document_events_tracked:
  assumes "tracked {} ls" "ls_database ls = Some db"
    "\<forall>delta \<in> set deltas. \<forall>doc. dd_after delta = Some doc \<longrightarrow> sd_path doc = dd_path delta"
    "document_events db us i deltas ls st = (Inr (), ls', st')"
  shows "tracked {} ls' \<and> ls_database ls' = ls_database ls \<and> st' = st"
  using assms
proof (induction deltas arbitrary: ls st)
  case Nil
  then show ?case by (simp add: listen_simps)
next
  case (Cons delta deltas)
  obtain t ls1 u where t: "hm_get (ls_targets ls) i = Some t"
    and ls1: "ls1 = (case dd_after delta of
        Some doc \<Rightarrow> ls\<lparr>ls_targets := hm_insert i (t\<lparr>ts_members := hm_insert (show_path (dd_path delta)) (update_time_us doc) (ts_members t)\<rparr>) (ls_targets ls),
          ls_out := ls_out ls @ [change_message db i doc]\<rparr>
      | None \<Rightarrow> ls\<lparr>ls_targets := hm_insert i (t\<lparr>ts_members := hm_remove (show_path (dd_path delta)) (ts_members t)\<rparr>) (ls_targets ls),
          ls_last_read := u,
          ls_out := ls_out ls @ [Document_delete (full_name db (dd_path delta)) [i] (timestamp_from_us u)]\<rparr>)"
    and rest: "document_events db us i deltas ls1 st = (Inr (), ls', st')"
    using Cons.prems(4)
    by (cases "dd_after delta")
       (auto simp: next_do_Inr update_members_result send_document_change_def change_message_def listen_simps dest!: read_time_result)
  note mir = trackedD(2) [OF Cons.prems(1) t _ Cons.prems(2)]
  have "tracked {} ls1"
  proof (cases "dd_after delta")
    case None
    have "mirrors db ((client_of (ls_out ls) i)(member_name db (show_path (dd_path delta)) := None)) (hm_remove (show_path (dd_path delta)) (ts_members t))"
      using mir by (intro mirrors_remove) simp
    then show ?thesis using ls1 None Cons.prems(2) t
      by (intro tracked_same [OF Cons.prems(1), of ls1 i])
         (auto simp: update_conv client_of_append client_step_def drop_document_def full_name_def member_name_def)
  next
    case (Some doc)
    then have p: "sd_path doc = dd_path delta" using Cons.prems(3) by simp
    have "mirrors db ((client_of (ls_out ls) i)(show_name \<lparr>rn_database = db, rn_path = dd_path delta\<rparr> := Some (timestamp_from_us (update_time_us doc))))
        (hm_insert (show_path (dd_path delta)) (update_time_us doc) (ts_members t))"
      using mir by (intro mirrors_insert) simp
    then show ?thesis using ls1 Some Cons.prems(2) t p
      by (intro tracked_same [OF Cons.prems(1), of ls1 i])
         (auto simp: update_conv client_of_append client_step_def change_message_def to_wire_document_def)
  qed
  moreover have "ls_database ls1 = ls_database ls" using ls1 by (cases "dd_after delta") auto
  ultimately show ?case using Cons.IH [OF _ _ _ rest] Cons.prems(2,3) by simp
qed

lemma run_target_query_Inr:
  "run_target_query sv kind db par query ls st = (Inr docs, ls', st') \<Longrightarrow>
     ls' = ls \<and> (\<exists>q. run_query (sv_query_driver sv) (rc_codec (sv_context sv)) db par query (st_query st) = (Inr docs, q))"
  by (auto simp: run_target_query_def Let_def map_sum_def split: prod.splits sum.splits)

lemma query_event_result:
  assumes "keyed_finds (sv_query_driver sv)" "tracked {} ls" "ls_database ls = Some db" "hm_get (ls_targets ls) i = Some t"
    and cover: "list_ex (\<lambda>delta. query_may_cover par query (dd_path delta)) (ce_changes event)"
    and ev: "query_event sv db event i t par query ls st = (Inr b, ls', st')"
  shows "tracked {} ls' \<and> ls_database ls' = ls_database ls \<and> (\<exists>docs q.
    run_query (sv_query_driver sv) (rc_codec (sv_context sv)) db par query (st_query st) = (Inr docs, q)
      \<and> mirrors db (client_of (ls_out ls') i) (members_of docs))"
proof -
  obtain docs st1 ls1 where q: "run_target_query sv Internal db par query ls st = (Inr docs, ls1, st1)"
    and rest: "(let new_members = members_of docs;
            news = entered (ts_members t) docs;
            gone = departed (ts_members t) new_members
        in if news = [] \<and> gone = [] then returns False
           else
             next_do (update_members i (\<lambda>_. new_members)) (\<lambda>_.
             next_do (send_documents db news i) (\<lambda>_.
             next_do (read_time (ce_commit_us event)) (\<lambda>read_us.
             next_do (send_removes db gone i read_us) (\<lambda>_. returns True))))) ls1 st1 = (Inr b, ls', st')"
    using ev cover unfolding query_event_def by (auto simp: next_do_Inr)
  from run_target_query_Inr [OF q] obtain s where ls1: "ls1 = ls"
    and s: "run_query (sv_query_driver sv) (rc_codec (sv_context sv)) db par query (st_query st) = (Inr docs, s)" by blast
  let ?news = "entered (ts_members t) docs" and ?gone = "departed (ts_members t) (members_of docs)"
  note diff = diff_mirrors [OF trackedD(2) [OF assms(2,4) _ assms(3)] run_query_keys [OF assms(1) s]]
  show ?thesis
  proof (cases "?news = [] \<and> ?gone = []")
    case True
    then have "ls' = ls" using rest ls1 by (simp add: listen_simps)
    moreover have "mirrors db (client_of (ls_out ls) i) (members_of docs)" using diff True by simp
    ultimately show ?thesis using assms(2) s by auto
  next
    case False
    then obtain u where ls': "ls' = ls\<lparr>ls_targets := hm_insert i (t\<lparr>ts_members := members_of docs\<rparr>) (ls_targets ls), ls_last_read := u,
        ls_out := ls_out ls @ map (change_message db i) ?news @
          map (\<lambda>k. Document_remove (member_name db k) [i] (timestamp_from_us u)) ?gone\<rparr>"
      using rest [unfolded Let_def if_not_P [OF False]] ls1 assms(4)
      by (auto simp: next_do_Inr update_members_result send_documents_out send_removes_out listen_simps dest!: read_time_result)
    have out: "client_of (ls_out ls') j = foldl client_step (foldl client_step (client_of (ls_out ls)) (map (change_message db i) ?news))
        (map (\<lambda>k. Document_remove (member_name db k) [i] (timestamp_from_us u)) ?gone) j" for j
      by (simp add: ls' client_of_append)
    have m: "mirrors db (client_of (ls_out ls') i) (members_of docs)"
      using diff unfolding out client_drops(2) client_changes by (simp add: fold_drops [abs_def])
    have "tracked {} ls'" using assms(3,4) m
      by (intro tracked_same [OF assms(2), of ls' i]) (auto simp: out client_drops client_changes, auto simp: ls' update_conv)
    then show ?thesis using s m ls' by auto
  qed
qed

lemma query_event_tracked:
  assumes "keyed_finds (sv_query_driver sv)" "tracked {} ls" "ls_database ls = Some db" "hm_get (ls_targets ls) i = Some t"
    "query_event sv db event i t par query ls st = (Inr b, ls', st')"
  shows "tracked {} ls' \<and> ls_database ls' = ls_database ls"
proof (cases "list_ex (\<lambda>delta. query_may_cover par query (dd_path delta)) (ce_changes event)")
  case False
  then show ?thesis using assms(2,5) by (simp add: query_event_def listen_simps)
next
  case True
  then show ?thesis using query_event_result [OF assms(1-4) True assms(5)] by simp
qed

lemma target_event_tracked:
  assumes "keyed_driver sv" "tracked {} ls" "ls_database ls = Some db" "event_ok event"
    "target_event sv db event i ls st = (Inr b, ls', st')"
  shows "tracked {} ls' \<and> ls_database ls' = ls_database ls"
proof -
  obtain t where t: "hm_get (ls_targets ls) i = Some t"
    using assms(5) by (auto simp: target_event_def next_do_Inr the_target_def split: option.splits)
  show ?thesis
  proof (cases "ts_kind t")
    case (Documents_target paths)
    then have "document_events db (ce_commit_us event) i (filter (\<lambda>delta. dd_path delta \<in> set paths) (ce_changes event)) ls st = (Inr (), ls', st')"
      using assms(5) t by (auto simp: target_event_def next_do_Inr the_target_def listen_simps Let_def)
    from document_events_tracked [OF assms(2,3) _ this] assms(4) show ?thesis by (simp add: event_ok_def)
  next
    case (Query_target par query)
    then have "query_event sv db event i t par query ls st = (Inr b, ls', st')"
      using assms(5) t by (auto simp: target_event_def next_do_Inr the_target_def)
    from query_event_tracked [OF _ assms(2,3) t this] assms(1) show ?thesis by (simp add: keyed_driver_def)
  qed
qed

lemma target_events_tracked:
  assumes "keyed_driver sv" "event_ok event"
  shows "tracked {} ls \<Longrightarrow> ls_database ls = Some db \<Longrightarrow> target_events sv db event ids ls st = (Inr b, ls', st') \<Longrightarrow>
    tracked {} ls' \<and> ls_database ls' = ls_database ls"
proof (induction ids arbitrary: ls st b)
  case (Cons i ids)
  then obtain b1 ls1 st1 b2 where ev: "target_event sv db event i ls st = (Inr b1, ls1, st1)"
      "target_events sv db event ids ls1 st1 = (Inr b2, ls', st')"
    by (auto simp: next_do_Inr listen_simps)
  from target_event_tracked [OF assms(1) Cons.prems(1,2) assms(2) ev(1)] Cons.IH [OF _ _ ev(2)] Cons.prems(2)
  show ?case by simp
qed (simp add: listen_simps)

lemma tracked_out:
  assumes "tracked X ls" "ls_targets ls' = ls_targets ls" "ls_database ls' = ls_database ls" "client_of (ls_out ls') = client_of (ls_out ls)"
  shows "tracked X ls'"
  using assms by (simp add: tracked_def)

lemma handle_event_tracked:
  assumes "keyed_driver sv" "tracked {} ls" "event_ok event" "handle_event sv event ls st = (Inr (), ls', st')"
  shows "tracked {} ls'"
proof (cases "ls_database ls = Some (ce_database event)")
  case False
  then show ?thesis using assms(2,4) by (simp add: handle_event_def next_do_def listen_simps)
next
  case True
  then obtain b ls1 st1 where e: "target_events sv (ce_database event) event (map fst (ls_targets ls)) ls st = (Inr b, ls1, st1)"
    and m: "(if b then send_snapshot_marker (ce_commit_us event) else returns ()) ls1 st1 = (Inr (), ls', st')"
    using assms(4) by (auto simp: handle_event_def next_do_Inr listen_simps)
  have "tracked {} ls1" using target_events_tracked [OF assms(1,3,2) True e] by simp
  then show ?thesis using m
    by (cases b) (auto simp: listen_simps client_of_append intro: tracked_out dest!: snapshot_marker_result)
qed

section \<open>Requests and resyncs keep the mirror\<close>

lemma tracked_weaken: "tracked X ls \<Longrightarrow> X \<subseteq> Y \<Longrightarrow> tracked Y ls"
  by (auto simp: tracked_def)

lemma tracked_remove: "tracked X ls \<Longrightarrow> tracked X (ls\<lparr>ls_targets := hm_remove i (ls_targets ls)\<rparr>)"
  by (auto simp: tracked_def delete_conv)

lemma parsed_Inr: "parsed sv r ls st = (Inr a, ls', st') \<longleftrightarrow> r = Inr a \<and> ls' = ls \<and> st' = st"
  by (auto simp: parsed_def listen_simps split: sum.splits)

lemma parse_document_wf: "parse_document name = Inr n \<Longrightarrow> path_wf (rn_path n)"
proof -
  assume "parse_document name = Inr n"
  moreover have "path_wf []" by (simp add: path_wf_def)
  ultimately show ?thesis
    by (auto simp: parse_document_def parse_name_def Let_def dest: parse_path_Inr
        split: if_splits sum.splits option.splits prod.splits list.splits)
qed

lemma document_paths_Inr:
  "document_paths sv names ls st = (Inr paths, ls', st') \<Longrightarrow>
     ls' = ls \<and> st' = st \<and> map Inr paths = map (\<lambda>name. map_sum id rn_path (parse_document name)) names \<and> list_all path_wf paths"
proof (induction names arbitrary: paths)
  case (Cons name names)
  then show ?case by (auto simp: next_do_Inr parsed_Inr listen_simps dest: parse_document_wf)
qed (simp add: listen_simps)

lemma kind_of_target_ok:
  assumes "target_ok target" "kind_of_target sv target ls st = (Inr kind, ls', st')"
  shows "ls' = ls \<and> st' = st \<and> kind_ok kind"
proof (cases "lt_type target")
  case None
  then show ?thesis using assms(2) by (simp add: kind_of_target_def listen_simps)
next
  case (Some ty)
  show ?thesis
  proof (cases ty)
    case (Documents_type names)
    then obtain paths where p: "document_paths sv names ls st = (Inr paths, ls', st')" "kind = Documents_target paths"
      using assms(2) Some by (auto simp: kind_of_target_def next_do_Inr listen_simps)
    note p' = document_paths_Inr [OF p(1)]
    have "distinct (map Inr paths :: (engine_error + resource_path) list)"
      using p' assms(1) Some Documents_type by (simp add: target_ok_def)
    then have "distinct paths" by (simp only: distinct_map)
    then show ?thesis using p' p(2) by (simp add: kind_ok_def)
  next
    case (Query_type parent_text query)
    then show ?thesis using assms(2) Some
      by (auto simp: kind_of_target_def next_do_Inr parsed_Inr listen_simps kind_ok_def split: option.splits)
  qed
qed

lemma client_clears [simp]:
  "client_step c (Target_change \<lparr>tc_kind = Add_change, tc_ids = [i], tc_cause = e, tc_resume_token = tk, tc_read_time = t\<rparr>) = c(i := (\<lambda>_. None))"
  "client_step c (Target_change \<lparr>tc_kind = Reset_change, tc_ids = [i], tc_cause = e, tc_resume_token = tk, tc_read_time = t\<rparr>) = c(i := (\<lambda>_. None))"
  by (auto simp: client_step_def)

lemma add_target_tracked:
  assumes "keyed_driver sv" "tracked {} ls" "target_ok target" "add_target sv auth target ls st = (Inr (), ls', st')"
  shows "tracked {} ls'"
proof -
  obtain i ls1 where i: "choose_id (lt_target_id target) ls st = (Inr i, ls1, st)"
    and ls1: "ls_targets ls1 = ls_targets ls" "ls_database ls1 = ls_database ls" "ls_out ls1 = ls_out ls"
    by (cases "lt_target_id target = 0") (auto simp: choose_id_def)
  from assms(4) i obtain kind ls2 st2 where k: "kind_of_target sv target ls1 st = (Inr kind, ls2, st2)"
    and rest: "next_do (if lt_resume target then send_target_change Reset_change [i] None [] else returns ()) (\<lambda>_.
       next_do (send_target_change Add_change [i] None []) (\<lambda>_.
       next_do (modify (\<lambda>ls. ls\<lparr>ls_targets := hm_insert i \<lparr>ts_kind = kind, ts_members = []\<rparr> (ls_targets ls)\<rparr>)) (\<lambda>_.
       send_initial_state sv auth i))) ls2 st2 = (Inr (), ls', st')"
    by (auto simp: add_target_def next_do_Inr listen_simps split: if_splits)
  from kind_of_target_ok [OF assms(3) k] have k: "ls2 = ls1" "kind_ok kind" by simp_all
  from rest obtain ls3 where s: "send_initial_state sv auth i ls3 st2 = (Inr (), ls', st')"
    and t3: "ls_targets ls3 = hm_insert i \<lparr>ts_kind = kind, ts_members = []\<rparr> (ls_targets ls)"
    and c3: "client_of (ls_out ls3) = (client_of (ls_out ls))(i := (\<lambda>_. None))" and d3: "ls_database ls3 = ls_database ls"
    using k(1) ls1
    by (cases "lt_resume target") (force simp: next_do_Inr send_target_change_def listen_simps client_of_append)+
  have "tracked {i} ls3"
    using assms(2) k(2) by (auto simp: tracked_def t3 c3 d3 update_conv)
  moreover have "client_of (ls_out ls3) i = (\<lambda>_. None)" by (simp add: c3)
  ultimately show ?thesis
    using initial_sent [of sv i ls3 _ auth st2 ls' st'] s assms(1) by (simp add: t3 update_conv keyed_driver_def)
qed

lemma pin_database_result:
  "pin_database db ls st = (Inr (), ls', st') \<Longrightarrow>
     st' = st \<and> (ls' = ls \<and> ls_database ls = Some db \<or> ls_database ls = None \<and> ls' = ls\<lparr>ls_database := Some db\<rparr>)"
  by (auto simp: pin_database_def next_do_Inr listen_simps split: option.splits if_splits)

lemma handle_request_tracked:
  assumes "keyed_driver sv" "tracked {} ls" "input_ok (Request_input req)" "handle_request sv auth req ls st = (Inr (), ls', st')"
  shows "tracked {} ls'"
proof -
  obtain db ls1 where pin: "pin_database db ls st = (Inr (), ls1, st)"
    and rest: "(case lr_change req of
       Some (Add_target target) \<Rightarrow> add_target sv auth target
     | Some (Remove_target i) \<Rightarrow> modify (\<lambda>ls. ls\<lparr>ls_targets := hm_remove i (ls_targets ls)\<rparr>)
     | None \<Rightarrow> returns ()) ls1 st = (Inr (), ls', st')"
    using assms(4) by (auto simp: handle_request_def next_do_Inr parsed_Inr dest: pin_database_result)
  have t1: "tracked {} ls1" using pin_database_result [OF pin] assms(2) by (auto simp: tracked_def)
  show ?thesis
  proof (cases "lr_change req")
    case None
    then show ?thesis using rest t1 by (simp add: listen_simps)
  next
    case (Some change)
    show ?thesis
    proof (cases change)
      case (Add_target target)
      then show ?thesis using add_target_tracked [OF assms(1) t1, of target auth st ls' st'] rest Some assms(3)
        by (simp add: input_ok_def)
    next
      case (Remove_target i)
      then show ?thesis using tracked_remove [OF t1, of i] rest Some by (simp add: listen_simps)
    qed
  qed
qed

lemma resync_tracked:
  assumes "keyed_driver sv"
  shows "tracked {} ls \<Longrightarrow> resync sv auth ids ls st = (Inr (), ls', st') \<Longrightarrow> tracked {} ls'"
proof (induction ids arbitrary: ls st)
  case (Cons i ids)
  let ?ls1 = "ls\<lparr>ls_out := ls_out ls @ [Target_change \<lparr>tc_kind = Reset_change, tc_ids = [i], tc_cause = None, tc_resume_token = [],
      tc_read_time = None\<rparr>]\<rparr>"
  let ?ls2 = "snd (clear_members i ?ls1 st)"
  from Cons.prems(2) obtain ls2 ls3 st3 where c: "clear_members i ?ls1 st = (Inr (), ls2, st)"
    and s: "send_initial_state sv auth i ls2 st = (Inr (), ls3, st3)" and rest: "resync sv auth ids ls3 st3 = (Inr (), ls', st')"
    by (auto simp: next_do_Inr send_target_change_def listen_simps clear_members_def)
  obtain t where t: "hm_get (ls_targets ls2) i = Some t"
    using s by (auto simp: send_initial_state_def next_do_Inr the_database_def the_target_def split: option.splits)
  have out: "ls_out ls2 = ls_out ?ls1" "ls_database ls2 = ls_database ls"
    using c by (auto simp: clear_members_def listen_simps split: option.splits)
  have "tracked {i} ls2"
    using Cons.prems(1) c unfolding tracked_def out client_of_append
    by (auto simp: clear_members_def listen_simps update_conv client_of_append split: option.splits if_splits)
  moreover have "client_of (ls_out ls2) i = (\<lambda>_. None)" by (simp add: out client_of_append)
  ultimately have "tracked {} ls3" using initial_sent [OF _ _ t _ s] assms by (simp add: keyed_driver_def)
  then show ?case using Cons.IH rest by blast
qed (simp add: listen_simps)

lemma handle_input_tracked:
  assumes "keyed_driver sv" "tracked {} ls" "input_ok i" "handle_input sv auth i ls st = (Inr (), ls', st')"
  shows "tracked {} ls'"
proof (cases i)
  case (Request_input req)
  then show ?thesis using handle_request_tracked [OF assms(1,2)] assms(3,4) by (auto simp: handle_input_def)
next
  case (Event_input event)
  then show ?thesis using handle_event_tracked [OF assms(1,2)] assms(3,4) by (auto simp: handle_input_def input_ok_def)
next
  case Lagged_input
  then show ?thesis using resync_tracked [OF assms(1,2)] assms(4)
    by (auto simp: handle_input_def resync_all_def next_do_Inr listen_simps)
qed

lemma listening_tracked:
  assumes "keyed_driver sv"
  shows "listening sv auth inputs ls \<Longrightarrow> tracked {} ls"
proof (induction rule: listening.induct)
  case start
  show ?case by (simp add: tracked_def new_session_def)
next
  case (input inputs ls i st ls' st')
  then show ?case using handle_input_tracked [OF assms] by blast
qed

section \<open>What a listener sees\<close>

text \<open>
  C17. A listener's view is the one the session tracks: on every open stream, whatever requests,
  commit events and lags came in whatever order, the documents of a target that the sent changes,
  deletions and removals add up to, with their update times, are exactly the members of the target.
\<close>

theorem listener_view_tracked:
  assumes "keyed_driver sv" "listening sv auth inputs ls" "hm_get (ls_targets ls) i = Some t"
  shows "\<exists>db. ls_database ls = Some db \<and>
    (\<forall>k. k \<noteq> [] \<longrightarrow> client_of (ls_out ls) i (documents_root db @ ''/'' @ k) = map_option timestamp_from_us (hm_get (ts_members t) k))"
  using listening_tracked [OF assms(1,2)] assms(3) by (auto simp: tracked_def mirrors_def member_name_def)

text \<open>
  C18. A query listener is current after an event: when a change of the event may concern the query, the
  client's documents of the target are afterwards exactly the results of the query, run
  over the database as it is then, each at its update time and no others.
\<close>

theorem query_listener_current:
  assumes "keyed_driver sv" "listening sv auth inputs ls" "ls_database ls = Some db" "hm_get (ls_targets ls) i = Some t"
    "ts_kind t = Query_target par query" "list_ex (\<lambda>delta. query_may_cover par query (dd_path delta)) (ce_changes event)"
    "target_event sv db event i ls st = (Inr b, ls', st')"
  shows "\<exists>docs q. run_query (sv_query_driver sv) (rc_codec (sv_context sv)) db par query (st_query st) = (Inr docs, q)
    \<and> (\<forall>doc \<in> set docs. show_path (sd_path doc) \<noteq> [] \<longrightarrow>
          client_of (ls_out ls') i (full_name db (sd_path doc)) = Some (timestamp_from_us (update_time_us doc)))
    \<and> (\<forall>k. k \<noteq> [] \<longrightarrow> k \<notin> (\<lambda>doc. show_path (sd_path doc)) ` set docs \<longrightarrow> client_of (ls_out ls') i (documents_root db @ ''/'' @ k) = None)"
proof -
  have "query_event sv db event i t par query ls st = (Inr b, ls', st')"
    using assms(4,5,7) by (auto simp: target_event_def next_do_Inr the_target_def)
  from query_event_result [OF _ listening_tracked [OF assms(1,2)] assms(3,4,6) this] assms(1) obtain docs q where
    q: "run_query (sv_query_driver sv) (rc_codec (sv_context sv)) db par query (st_query st) = (Inr docs, q)"
    and m: "mirrors db (client_of (ls_out ls') i) (members_of docs)" by (auto simp: keyed_driver_def)
  have keys: "distinct (map doc_key docs)" using run_query_keys [OF _ q] assms(1) by (simp add: keyed_driver_def)
  have "client_of (ls_out ls') i (full_name db (sd_path doc)) = Some (timestamp_from_us (update_time_us doc))"
    if "doc \<in> set docs" "show_path (sd_path doc) \<noteq> []" for doc
    using find_unique [OF keys that(1)] m that(2)
    by (simp add: mirrors_def full_name_def member_name_def member_of_docs doc_key_def)
  moreover have "client_of (ls_out ls') i (documents_root db @ ''/'' @ k) = None"
    if k: "k \<noteq> []" "k \<notin> (\<lambda>doc. show_path (sd_path doc)) ` set docs" for k
  proof -
    have "find (\<lambda>doc. doc_key doc = k) (rev docs) = None" using k(2) by (auto simp: find_None_iff doc_key_def)
    then show ?thesis using m k(1) by (simp add: mirrors_def member_name_def member_of_docs)
  qed
  ultimately show ?thesis using q by auto
qed

section \<open>A session\<close>

text \<open>The server of one document, whose driver looks at the identifiers of its rows.\<close>

definition keyed_row :: "row_map \<Rightarrow> string \<Rightarrow> string \<Rightarrow> doc_row option" where
  "keyed_row s c i = (case s c i of None \<Rightarrow> None | Some row \<Rightarrow> if row_id row = i then Some row else None)"

definition watched_service :: "(unit, row_map, row_map) service" where
  "watched_service = map_service\<lparr>
     sv_context := map_context\<lparr>rc_mongo := map_mongo\<lparr>find_one := (\<lambda>s c i. (Inr (keyed_row s c i), s))\<rparr>\<rparr>,
     sv_query_driver := \<lparr>create_indexes = (\<lambda>s _ _. (Inr (), s)),
       find_rows = (\<lambda>s c flt _. (Inr (case keyed_row s c ''c/x'' of None \<Rightarrow> [] | Some row \<Rightarrow> [row]), s))\<rparr>\<rparr>"

lemma watched_keyed: "keyed_driver watched_service"
  by (auto simp: keyed_driver_def keyed_reads_def keyed_finds_def watched_service_def keyed_row_def split: option.splits if_splits)

definition watched_query :: structured_query where
  "watched_query = \<lparr>sq_from = [\<lparr>cs_collection_id = ''c'', cs_all_descendants = False\<rparr>], sq_where = None, sq_order_by = [],
     sq_start_at = None, sq_end_at = None, sq_offset = 0, sq_limit = None\<rparr>"

definition watch_request :: listen_request where
  "watch_request = \<lparr>lr_database = ''projects/p/databases/d'', lr_change = Some (Add_target \<lparr>lt_target_id = 1,
     lt_type = Some (Query_type ''projects/p/databases/d/documents'' (Some watched_query)), lt_resume = False\<rparr>)\<rparr>"

lemma watched_simps: "rc_codec (sv_context watched_service) = empty_codec" "sv_registry watched_service = []"
    "rc_now_us (sv_context watched_service) d = 7"
  by (simp_all add: watched_service_def map_service_def map_context_def)

lemma watched_fetch:
  assumes "qs_session q = one_document"
  shows "\<exists>q'. fetch_candidates (sv_query_driver watched_service) empty_codec sample_db [] \<lparr>cs_collection_id = ''c'', cs_all_descendants = False\<rparr> p w q
      = (Inr [sample_stored], q') \<and> qs_session q' = one_document"
  using assms
  by (cases p) (simp_all add: fetch_candidates_def child_def validate_segment_def list_collection_where_def list_where_def narrowed_def
      ensure_query_indexes_def fetch_def watched_service_def Let_def keyed_row_def sample_path one_document_def
      decode_row_def empty_codec_def sample_stored_def)

lemma watched_finish:
  "finish_query sample_db watched_query [] (normalize_orders watched_query []) b [sample_stored] = Inr [sample_stored]"
proof -
  have "finish_query sample_db watched_query [] (normalize_orders watched_query []) True [sample_stored] = Inr [sample_stored]"
    "finish_query sample_db watched_query [] (normalize_orders watched_query []) False [sample_stored] = Inr [sample_stored]"
    unfolding sample_db_def watched_query_def sample_stored_def by code_simp+
  then show ?thesis by (cases b) simp_all
qed

lemma watched_run:
  assumes "qs_session q = one_document"
  shows "\<exists>q'. run_query (sv_query_driver watched_service) empty_codec sample_db [] watched_query q = (Inr [sample_stored], q')
    \<and> qs_session q' = one_document"
proof -
  have s: "sq_from watched_query = [\<lparr>cs_collection_id = ''c'', cs_all_descendants = False\<rparr>]" "query_filters watched_query = Inr []"
    by (simp_all add: watched_query_def query_filters_def)
  obtain p w where pw: "plan_query watched_query [] (normalize_orders watched_query []) True = (p, w)" by force
  obtain q' where "fetch_candidates (sv_query_driver watched_service) empty_codec sample_db [] \<lparr>cs_collection_id = ''c'', cs_all_descendants = False\<rparr> p w q
      = (Inr [sample_stored], q')" "qs_session q' = one_document" using watched_fetch [OF assms] by blast
  then show ?thesis by (simp add: run_query_def evaluate_query_def s pw watched_finish)
qed

definition watched_target :: target_state where
  "watched_target = \<lparr>ts_kind = Query_target [] watched_query, ts_members = [(''c/x'', 5)]\<rparr>"

lemma watched_initial:
  assumes "qs_session (st_query st) = one_document" "ls_database ls = Some sample_db"
    "hm_get (ls_targets ls) 1 = Some (watched_target\<lparr>ts_members := []\<rparr>)"
  shows "\<exists>ls' st'. send_initial_state watched_service Unauthenticated 1 ls st = (Inr (), ls', st')
    \<and> qs_session (st_query st') = one_document \<and> ls_database ls' = Some sample_db \<and> hm_get (ls_targets ls') 1 = Some watched_target
    \<and> length (ls_out ls') = length (ls_out ls) + 3"
proof -
  have q: "initial_documents watched_service Unauthenticated sample_db (Query_target [] watched_query) ls st = (Inr (Some ([sample_stored], [])), ls, st\<lparr>st_query := q\<rparr>) \<Longrightarrow> qs_session q = one_document \<Longrightarrow> ?thesis" for q
    using assms
    by (simp add: send_initial_state_def next_do_def the_database_def the_target_def watched_target_def server_now_def send_documents_out
        read_time_def send_deletes_out update_members_def listen_simps send_target_change_def send_snapshot_marker_def Let_def members_of_def
        sample_stored_def sample_path update_conv del: send_documents.simps send_deletes.simps)
  obtain q' where "run_query (sv_query_driver watched_service) empty_codec sample_db [] watched_query (st_query st) = (Inr [sample_stored], q')"
    "qs_session q' = one_document" using watched_run [OF assms(1)] by blast
  then show ?thesis
    by (intro q [of q'])
      (simp_all add: initial_documents_def next_do_def may_list_def run_target_query_def listen_simps watched_simps asks_def check_access_def on_driver_def
        open_check watched_query_def child_def validate_segment_def)
qed

lemma watched_session:
  "\<exists>ls st. handle_request watched_service Unauthenticated watch_request new_session fresh_server = (Inr (), ls, st)
    \<and> qs_session (st_query st) = one_document \<and> ls_database ls = Some sample_db \<and> hm_get (ls_targets ls) 1 = Some watched_target
    \<and> length (ls_out ls) = 4"
proof -
  have n: "parse_name ''projects/p/databases/d/documents'' = Inr \<lparr>rn_database = sample_db, rn_path = []\<rparr>"
    unfolding sample_db_def by code_simp
  have f: "qs_session (st_query fresh_server) = one_document" by (simp add: fresh_server_def)
  show ?thesis
    using watched_initial [of fresh_server "new_session\<lparr>ls_database := Some sample_db,
        ls_targets := [(1, watched_target\<lparr>ts_members := []\<rparr>)],
        ls_out := [Target_change \<lparr>tc_kind = Add_change, tc_ids = [1], tc_cause = None, tc_resume_token = [],
          tc_read_time = None\<rparr>]\<rparr>", OF f]
    by (simp add: handle_request_def next_do_def watch_request_def parsed_def sample_database_text listen_simps pin_database_def new_session_def
     add_target_def choose_id_def kind_of_target_def n send_target_change_def watched_target_def update_conv)
qed

lemma watched_listening:
  "\<exists>ls (st :: (unit, row_map) server). listening watched_service Unauthenticated [Request_input watch_request] ls
    \<and> qs_session (st_query st) = one_document \<and> ls_database ls = Some sample_db \<and> hm_get (ls_targets ls) 1 = Some watched_target
    \<and> length (ls_out ls) = 4"
proof -
  obtain ls and st :: "(unit, row_map) server" where
    h: "handle_request watched_service Unauthenticated watch_request new_session fresh_server = (Inr (), ls, st)"
    and r: "qs_session (st_query st) = one_document" "ls_database ls = Some sample_db" "hm_get (ls_targets ls) 1 = Some watched_target"
      "length (ls_out ls) = 4"
    using watched_session by blast
  have "input_ok (Request_input watch_request)" by (simp add: input_ok_def watch_request_def target_ok_def)
  moreover have "handle_input watched_service Unauthenticated (Request_input watch_request) new_session fresh_server = (Inr (), ls, st)"
    using h by (simp add: handle_input_def)
  ultimately have "listening watched_service Unauthenticated [Request_input watch_request] ls"
    using listening.input [OF listening.start] by fastforce
  then show ?thesis using r by blast
qed

theorem listener_view_tracked_witness:
  "\<exists>ls. listening watched_service Unauthenticated [Request_input watch_request] ls
    \<and> client_of (ls_out ls) 1 ''projects/p/databases/d/documents/c/x'' = Some (timestamp_from_us 5)"
proof -
  obtain ls where l: "listening watched_service Unauthenticated [Request_input watch_request] ls" "ls_database ls = Some sample_db"
      "hm_get (ls_targets ls) 1 = Some watched_target"
    using watched_listening by blast
  have "documents_root sample_db @ ''/c/x'' = ''projects/p/databases/d/documents/c/x''"
    unfolding sample_db_def by code_simp
  with listener_view_tracked [OF watched_keyed l(1,3)] l(2) l show ?thesis
    by (auto simp: watched_target_def dest!: spec [of _ "''c/x''"])
qed

theorem query_listener_current_witness:
  "\<exists>(ls :: listen_session) docs. doc_key ` set docs = {''c/x''}
    \<and> (\<forall>doc \<in> set docs. show_path (sd_path doc) \<noteq> [] \<longrightarrow>
          client_of (ls_out ls) 1 (full_name sample_db (sd_path doc)) = Some (timestamp_from_us (update_time_us doc)))"
proof -
  obtain ls and st :: "(unit, row_map) server" where
    l: "listening watched_service Unauthenticated [Request_input watch_request] ls" "ls_database ls = Some sample_db" "hm_get (ls_targets ls) 1 = Some watched_target"
    and st: "qs_session (st_query st) = one_document"
    using watched_listening by blast
  let ?event = "\<lparr>ce_database = sample_db, ce_changes = [\<lparr>dd_path = [''c'', ''x''], dd_before = None, dd_after = Some sample_stored\<rparr>],
     ce_commit_us = 5, ce_origin = Local\<rparr>"
  obtain q where q: "run_query (sv_query_driver watched_service) empty_codec sample_db [] watched_query (st_query st) = (Inr [sample_stored], q)"
    using watched_run [OF st] by blast
  have k: "ts_kind watched_target = Query_target [] watched_query" by (simp add: watched_target_def)
  have c: "list_ex (\<lambda>delta. query_may_cover [] watched_query (dd_path delta)) (ce_changes ?event)"
    unfolding watched_query_def by code_simp
  have "target_event watched_service sample_db ?event 1 ls st = (Inr False, ls, st\<lparr>st_query := q\<rparr>)"
    using l(3) c q
    by (simp add: target_event_def next_do_def the_target_def k query_event_def run_target_query_def watched_simps Let_def listen_simps)
      (simp add: watched_target_def entered_def departed_def members_of_def sample_stored_def sample_path update_conv listen_simps)
  from query_listener_current [OF watched_keyed l k c this] q obtain docs where "docs = [sample_stored]"
    "\<forall>doc \<in> set docs. show_path (sd_path doc) \<noteq> [] \<longrightarrow>
          client_of (ls_out ls) 1 (full_name sample_db (sd_path doc)) = Some (timestamp_from_us (update_time_us doc))"
    by (auto simp: watched_simps)
  moreover have "doc_key sample_stored = ''c/x''" by (simp add: doc_key_def sample_stored_def sample_path)
  ultimately show ?thesis by (intro exI [of _ ls] exI [of _ docs]) simp
qed

end
