(* ===== verification/ListenTimes.thy ===== *)
theory ListenTimes
  imports ListenProps
begin

text \<open>
  The snapshot markers of a stream: their read times are strictly increasing.  What an action may
  add to the last read time is counted against the messages it sends.
\<close>

section \<open>Times\<close>

definition nanoseconds :: "timestamp \<Rightarrow> int" where
  "nanoseconds t = sint (fst t) * 1000000000 + sint (snd t)"

fun snapshot_times :: "listen_response list \<Rightarrow> int list" where
  "snapshot_times [] = []"
| "snapshot_times (Target_change tc # rs) =
     (case tc_read_time tc of
        Some t \<Rightarrow> if tc_kind tc = No_change then nanoseconds t # snapshot_times rs else snapshot_times rs
      | None \<Rightarrow> snapshot_times rs)"
| "snapshot_times (Document_change doc ids # rs) = snapshot_times rs"
| "snapshot_times (Document_delete name ids t # rs) = snapshot_times rs"
| "snapshot_times (Document_remove name ids t # rs) = snapshot_times rs"

lemma snapshot_times_append: "snapshot_times (rs @ rs') = snapshot_times rs @ snapshot_times rs'"
  by (induction rs rule: snapshot_times.induct) (simp_all split: option.splits)

lemma nanoseconds_us: "nanoseconds (timestamp_from_us us) = 1000 * sint us"
proof -
  have "in_i64 (sint us div 1000000)" using sint_i64_range [of us] by (auto simp: in_i64_def)
  then have s: "sint (word_of_int (sint us div 1000000) :: i64) = sint us div 1000000" by (rule sint_word_of_int_i64)
  have "sint us mod 1000000 * 1000 < 2 ^ 31" using pos_mod_bound [of 1000000 "sint us"] by simp
  then have n: "sint (word_of_int (sint us mod 1000000 * 1000) :: i32) = sint us mod 1000000 * 1000"
    by (intro sint_i32_of_int) simp_all
  show ?thesis using div_mult_mod_eq [of "sint us" 1000000]
    unfolding nanoseconds_def timestamp_from_us_def fst_conv snd_conv s n by linarith
qed

section \<open>Actions and their cost\<close>

text \<open>
  The last read time is at most \<open>T\<close> and one for every message sent, with \<open>k\<close> more: a read
  time raises \<open>k\<close>, a message lowers it.
\<close>

definition timed :: "int \<Rightarrow> int \<Rightarrow> listen_session \<Rightarrow> bool" where
  "timed T k ls \<longleftrightarrow> sorted_wrt (<) (snapshot_times (ls_out ls)) \<and> (\<forall>t \<in> set (snapshot_times (ls_out ls)). t \<le> 1000 * sint (ls_last_read ls))
     \<and> 0 \<le> sint (ls_last_read ls) \<and> sint (ls_last_read ls) \<le> T + int (length (ls_out ls)) + k \<and> 0 \<le> int (length (ls_out ls)) + k"

definition timed_run :: "int \<Rightarrow> int \<Rightarrow> ('k, 'd, 'a) listen \<Rightarrow> int \<Rightarrow> bool" where
  "timed_run T j m k \<longleftrightarrow> (\<forall>ls st a ls' st'. m ls st = (Inr a, ls', st') \<longrightarrow>
     length (ls_out ls) \<le> length (ls_out ls') \<and>
     (T + int (length (ls_out ls')) + 1 < 2 ^ 63 \<longrightarrow> timed T j ls \<longrightarrow> timed T k ls'))"

lemma timed_weaken: "timed T j ls \<Longrightarrow> j \<le> k \<Longrightarrow> timed T k ls"
  by (auto simp: timed_def)

lemma run_next:
  assumes "timed_run T j m k" "\<And>a. timed_run T k (f a) l"
  shows "timed_run T j (next_do m f) l"
  unfolding timed_run_def
proof (intro allI impI)
  fix ls st b ls' st'
  assume "next_do m f ls st = (Inr b, ls', st')"
  then obtain a ls1 st1 where "m ls st = (Inr a, ls1, st1)" "f a ls1 st1 = (Inr b, ls', st')" by (auto simp: next_do_Inr)
  then have 1: "length (ls_out ls) \<le> length (ls_out ls1)" "T + int (length (ls_out ls1)) + 1 < 2 ^ 63 \<Longrightarrow> timed T j ls \<Longrightarrow> timed T k ls1"
    and 2: "length (ls_out ls1) \<le> length (ls_out ls')" "T + int (length (ls_out ls')) + 1 < 2 ^ 63 \<Longrightarrow> timed T k ls1 \<Longrightarrow> timed T l ls'"
    using assms unfolding timed_run_def by blast+
  then show "length (ls_out ls) \<le> length (ls_out ls') \<and> (T + int (length (ls_out ls')) + 1 < 2 ^ 63 \<longrightarrow> timed T j ls \<longrightarrow> timed T l ls')"
    by (auto intro!: 1(2) 2(2))
qed

lemma run_weaken: "timed_run T j m k \<Longrightarrow> k \<le> l \<Longrightarrow> timed_run T j m l"
  unfolding timed_run_def using timed_weaken by blast

text \<open>Actions that neither send nor read the time.\<close>

lemma run_quiet:
  "(\<And>ls st a ls' st'. m ls st = (Inr a, ls', st') \<Longrightarrow> ls_out ls' = ls_out ls \<and> ls_last_read ls' = ls_last_read ls) \<Longrightarrow> timed_run T j m j"
  by (fastforce simp: timed_run_def timed_def)

lemma run_plain:
  "timed_run T j (returns a) j" "timed_run T j session j" "timed_run T j (asks h) j"
  "timed_run T j (the_target i) j" "timed_run T j the_database j" "timed_run T j (server_now sv) j"
  by (auto intro!: run_quiet simp: listen_simps asks_def the_target_def the_database_def server_now_def Let_def
      split: prod.splits option.splits)

lemma run_plain':
  "timed_run T j (update_members i g) j" "timed_run T j (run_target_query sv kind db par query) j"
  "timed_run T j (parsed sv r) j" "timed_run T j (choose_id i) j" "timed_run T j (clear_members i) j"
  by (rule run_quiet, auto simp: update_members_result parsed_Inr choose_id_def clear_members_def listen_simps
      dest: run_target_query_Inr split: if_splits option.splits)+

lemma run_pin: "timed_run T j (pin_database db) j"
  by (rule run_quiet) (use pin_database_result in fastforce)

lemma run_ends: "timed_run T j (ends e) k"
  by (simp add: timed_run_def listen_simps)

lemma run_targets: "timed_run T j (modify (\<lambda>ls. ls\<lparr>ls_targets := f (ls_targets ls)\<rparr>)) j"
  by (rule run_quiet) (simp add: listen_simps)

lemma run_send: "snapshot_times [r] = [] \<Longrightarrow> timed_run T j (send r) (j - 1)"
  by (auto simp: timed_run_def timed_def listen_simps snapshot_times_append)

lemma run_change: "kind \<noteq> No_change \<Longrightarrow> timed_run T j (send_target_change kind ids t token) (j - 1)"
  unfolding send_target_change_def by (rule run_send) (simp split: option.splits)

lemma read_time_up:
  assumes "sint us \<le> T" "j \<le> 0" "timed T j ls" "T + int (length (ls_out ls)) + 1 < 2 ^ 63" "read_time us ls st = (Inr t, ls', st')"
  shows "sint (ls_last_read ls) < sint t \<and> sint t \<le> T + int (length (ls_out ls)) + j + 1 \<and> ls' = ls\<lparr>ls_last_read := t\<rparr>"
proof -
  let ?last = "ls_last_read ls"
  have b: "0 \<le> sint ?last" "sint ?last \<le> T + int (length (ls_out ls)) + j" "0 \<le> int (length (ls_out ls)) + j"
    using assms(3) by (auto simp: timed_def)
  have "?last + 1 = word_of_int (sint ?last + 1)" by simp
  moreover have "in_i64 (sint ?last + 1)" using b assms(2,4) by (auto simp: in_i64_def)
  ultimately have "sint (?last + 1) = sint ?last + 1" using sint_word_of_int_i64 by metis
  moreover have "t = (if sint (?last + 1) \<le> sint us then us else ?last + 1)" "ls' = ls\<lparr>ls_last_read := t\<rparr>"
    using assms(5) by (auto simp: read_time_def Let_def)
  ultimately show ?thesis using b assms(1) by auto
qed

lemma run_read_time: "sint us \<le> T \<Longrightarrow> j \<le> 0 \<Longrightarrow> timed_run T j (read_time us) (j + 1)"
  unfolding timed_run_def
proof (intro allI impI)
  fix ls st t ls' st'
  assume a: "sint us \<le> T" "j \<le> 0" and r: "read_time us ls st = (Inr t, ls', st')"
  have out: "ls_out ls' = ls_out ls" using r by (auto simp: read_time_def Let_def)
  have "timed T (j + 1) ls'" if "T + int (length (ls_out ls)) + 1 < 2 ^ 63" and t: "timed T j ls"
    using read_time_up [OF a t that(1) r] t by (fastforce simp: timed_def)
  then show "length (ls_out ls) \<le> length (ls_out ls') \<and> (T + int (length (ls_out ls')) + 1 < 2 ^ 63 \<longrightarrow> timed T j ls \<longrightarrow> timed T (j + 1) ls')"
    by (simp add: out)
qed

text \<open>A marker is sent with a new read time, later than that of any marker before.\<close>

lemma run_marker: "sint us \<le> T \<Longrightarrow> j \<le> 0 \<Longrightarrow> timed_run T j (send_snapshot_marker us) j"
  unfolding timed_run_def
proof (intro allI impI)
  fix ls st a ls' st'
  assume a: "sint us \<le> T" "j \<le> 0" and r: "send_snapshot_marker us ls st = (Inr a, ls', st')"
  obtain t ls1 st1 where t: "read_time us ls st = (Inr t, ls1, st1)" and l1: "ls1 = ls\<lparr>ls_last_read := t\<rparr>"
    by (auto simp: read_time_def Let_def)
  have new: "ls' = ls1\<lparr>ls_out := ls_out ls1 @ [Target_change \<lparr>tc_kind = No_change, tc_ids = [], tc_cause = None,
        tc_resume_token = be_bytes 8 (t :: u64), tc_read_time = Some (timestamp_from_us t)\<rparr>]\<rparr>"
    using r t by (simp add: send_snapshot_marker_def next_do_def send_target_change_def listen_simps)
  have "timed T j ls'" if "T + int (length (ls_out ls)) + 1 < 2 ^ 63" and i: "timed T j ls"
    using read_time_up [OF a i that(1) t] i
    by (fastforce simp: timed_def new l1 snapshot_times_append nanoseconds_us sorted_wrt_append)
  then show "length (ls_out ls) \<le> length (ls_out ls') \<and> (T + int (length (ls_out ls')) + 1 < 2 ^ 63 \<longrightarrow> timed T j ls \<longrightarrow> timed T j ls')"
    by (simp add: new l1)
qed

section \<open>The operations of a session\<close>

lemma run_case_option: "(\<And>x. y = Some x \<Longrightarrow> timed_run T j (f x) k) \<Longrightarrow> timed_run T j n k \<Longrightarrow> timed_run T j (case y of None \<Rightarrow> n | Some x \<Rightarrow> f x) k"
  by (cases y) simp_all

lemma run_case_sum: "(\<And>x. y = Inl x \<Longrightarrow> timed_run T j (f x) k) \<Longrightarrow> (\<And>x. y = Inr x \<Longrightarrow> timed_run T j (g x) k) \<Longrightarrow>
    timed_run T j (case y of Inl x \<Rightarrow> f x | Inr x \<Rightarrow> g x) k"
  by (cases y) simp_all

lemma run_if: "timed_run T j m k \<Longrightarrow> timed_run T j n k \<Longrightarrow> timed_run T j (if b then m else n) k"
  by simp

lemma run_same: "timed_run T j m j \<Longrightarrow> (\<And>a. timed_run T j (f a) j) \<Longrightarrow> timed_run T j (next_do m f) j"
  by (rule run_next)

lemmas run_rules = run_same run_plain run_plain' run_pin run_ends run_targets run_case_option run_case_sum run_if

lemma run_send_documents: "timed_run T j (send_documents database docs i) (j - int (length docs))"
proof (induction docs arbitrary: j)
  case Nil
  show ?case by (simp add: run_plain)
next
  case (Cons doc docs)
  have "timed_run T j (send_document_change database doc i) (j - 1)"
    unfolding send_document_change_def by (rule run_send) simp
  from run_next [OF this Cons.IH [of "j - 1"]] show ?case by (simp add: algebra_simps)
qed

lemma run_send_deletes: "timed_run T j (send_deletes database paths i t) (j - int (length paths))"
proof (induction paths arbitrary: j)
  case Nil
  show ?case by (simp add: run_plain)
next
  case (Cons path paths)
  have "timed_run T j (send (Document_delete (full_name database path) [i] (timestamp_from_us t))) (j - 1)"
    by (rule run_send) simp
  from run_next [OF this Cons.IH [of "j - 1"]] show ?case by (simp add: algebra_simps)
qed

lemma run_send_removes: "timed_run T j (send_removes database keys i t) (j - int (length keys))"
proof (induction keys arbitrary: j)
  case Nil
  show ?case by (simp add: run_plain)
next
  case (Cons k keys)
  have "timed_run T j (send (Document_remove (documents_root database @ ''/'' @ k) [i] (timestamp_from_us t))) (j - 1)"
    by (rule run_send) simp
  from run_next [OF this Cons.IH [of "j - 1"]] show ?case by (simp add: algebra_simps)
qed

lemma run_may_read: "timed_run T j (may_read sv auth database path doc) j"
  unfolding may_read_def by (intro run_rules)

lemma run_read_documents: "timed_run T j (read_documents sv auth database paths) j"
  by (induction paths) (auto intro!: run_rules run_may_read)

lemma run_initial_documents: "timed_run T j (initial_documents sv auth database kind) j"
  by (cases kind) (auto simp: initial_documents_def may_list_def intro!: run_rules run_read_documents split: list.splits)

lemma run_kind_of_target: "timed_run T j (kind_of_target sv target) j"
proof -
  have "timed_run T j (document_paths sv names) j" for names
    by (induction names) (auto intro!: run_rules)
  note run_rules this
  then show ?thesis unfolding kind_of_target_def
    by (cases "lt_type target") (auto intro!: run_rules split: target_type.split)
qed

text \<open>The sends of one target: the time is read at no message more than are sent.\<close>

lemma run_deny: "timed_run T j (deny_target i) (j - 1)"
  unfolding deny_target_def by (intro run_next [OF run_targets] run_send) simp

lemma run_now:
  assumes "\<And>d. sint (rc_now_us (sv_context sv) d) \<le> T" "\<And>now. sint now \<le> T \<Longrightarrow> timed_run T j (f now) k"
  shows "timed_run T j (next_do (server_now sv) f) k"
  unfolding timed_run_def
proof (intro allI impI)
  fix ls st a ls' st'
  assume "next_do (server_now sv) f ls st = (Inr a, ls', st')"
  then have "f (rc_now_us (sv_context sv) (st_driver st)) ls st = (Inr a, ls', st')" by (simp add: next_do_def server_now_def)
  with assms(2) [OF assms(1), unfolded timed_run_def]
  show "length (ls_out ls) \<le> length (ls_out ls') \<and> (T + int (length (ls_out ls')) + 1 < 2 ^ 63 \<longrightarrow> timed T j ls \<longrightarrow> timed T k ls')"
    by blast
qed

lemma run_initial:
  assumes "\<And>d. sint (rc_now_us (sv_context sv) d) \<le> T"
  shows "timed_run T 0 (send_initial_state sv auth i) 0"
proof -
  have sent: "timed_run T 0 (next_do (send_documents database found i) (\<lambda>_.
         next_do (read_time now) (\<lambda>read_us.
         next_do (send_deletes database missing i read_us) (\<lambda>_.
         next_do (update_members i (\<lambda>_. members_of found)) (\<lambda>_.
         next_do (send_target_change Current_change [i] (Some read_us) []) (\<lambda>_.
         send_snapshot_marker now)))))) 0" (is "timed_run T 0 ?m 0") if n: "sint now \<le> T" for database found missing now
  proof (rule run_next [where k = 0])
    show "timed_run T 0 (send_documents database found i) 0" by (rule run_weaken [OF run_send_documents]) simp
    fix u :: unit
    show "timed_run T 0 (next_do (read_time now) (\<lambda>read_us.
         next_do (send_deletes database missing i read_us) (\<lambda>_.
         next_do (update_members i (\<lambda>_. members_of found)) (\<lambda>_.
         next_do (send_target_change Current_change [i] (Some read_us) []) (\<lambda>_.
         send_snapshot_marker now))))) 0"
    proof (rule run_next [where k = 1])
      show "timed_run T 0 (read_time now) 1" using run_read_time [OF n, of 0] by simp
      fix read_us
      show "timed_run T 1 (next_do (send_deletes database missing i read_us) (\<lambda>_.
         next_do (update_members i (\<lambda>_. members_of found)) (\<lambda>_.
         next_do (send_target_change Current_change [i] (Some read_us) []) (\<lambda>_.
         send_snapshot_marker now)))) 0"
        using run_change [of Current_change T 1 "[i]" "Some read_us" "[]"] run_marker [OF n, of 0]
        by (intro run_next [where k = 1] run_weaken [OF run_send_deletes] run_plain' run_next [where j = 1 and k = 0]) simp_all
    qed
  qed
  show ?thesis
    unfolding send_initial_state_def
    by (intro run_same run_plain run_initial_documents run_case_option run_weaken [OF run_deny])
      (auto intro!: run_now [OF assms] sent)
qed

lemma run_document_events:
  assumes "sint us \<le> T"
  shows "timed_run T 0 (document_events database us i deltas) 0"
proof (induction deltas)
  case (Cons delta deltas)
  have "timed_run T 0 (case dd_after delta of
          Some doc \<Rightarrow>
            next_do (update_members i (hm_insert (show_path (dd_path delta)) (update_time_us doc))) (\<lambda>_.
            send_document_change database doc i)
        | None \<Rightarrow>
            next_do (update_members i (hm_remove (show_path (dd_path delta)))) (\<lambda>_.
            next_do (read_time us) (\<lambda>read_us.
            send (Document_delete (full_name database (dd_path delta)) [i] (timestamp_from_us read_us))))) 0"
  proof (intro run_case_option)
    fix doc
    have "timed_run T 0 (send_document_change database doc i) 0"
      unfolding send_document_change_def by (rule run_weaken [OF run_send]) simp_all
    then show "timed_run T 0 (next_do (update_members i (hm_insert (show_path (dd_path delta)) (update_time_us doc))) (\<lambda>_.
        send_document_change database doc i)) 0" by (intro run_same run_plain')
  next
    have "timed_run T 0 (next_do (read_time us) (\<lambda>read_us.
        send (Document_delete (full_name database (dd_path delta)) [i] (timestamp_from_us read_us)))) 0"
    proof (rule run_next [OF run_read_time [OF assms, of 0]])
      show "timed_run T (0 + 1) (send (Document_delete (full_name database (dd_path delta)) [i] (timestamp_from_us read_us))) 0" for read_us
        using run_send [of "Document_delete (full_name database (dd_path delta)) [i] (timestamp_from_us read_us)" T "0 + 1"] by simp
    qed simp
    then show "timed_run T 0 (next_do (update_members i (hm_remove (show_path (dd_path delta)))) (\<lambda>_.
        next_do (read_time us) (\<lambda>read_us.
        send (Document_delete (full_name database (dd_path delta)) [i] (timestamp_from_us read_us))))) 0"
      by (rule run_same [OF run_plain'(1)])
  qed
  then show ?case unfolding document_events.simps by (intro run_same Cons.IH)
qed (simp add: run_plain)

lemma run_query_event:
  assumes us: "sint (ce_commit_us event) \<le> T"
  shows "timed_run T 0 (query_event sv database event i t par query) 0"
proof -
  have sent: "timed_run T 0 (if news = [] \<and> gone = [] then returns False
           else
             next_do (update_members i (\<lambda>_. m)) (\<lambda>_.
             next_do (send_documents database news i) (\<lambda>_.
             next_do (read_time (ce_commit_us event)) (\<lambda>read_us.
             next_do (send_removes database gone i read_us) (\<lambda>_. returns True))))) 0" (is "timed_run T 0 (if _ then _ else ?m) 0")
    for news gone m
  proof (cases "news = [] \<and> gone = []")
    case True
    then show ?thesis by (simp add: run_plain)
  next
    case False
    then have n: "1 - int (length news) - int (length gone) \<le> 0" by (cases news; cases gone) auto
    have "timed_run T 0 ?m (1 - int (length news) - int (length gone))"
    proof (rule run_next [OF run_plain'(1)], rule run_next [OF run_send_documents])
      show "timed_run T (0 - int (length news)) (next_do (read_time (ce_commit_us event)) (\<lambda>read_us.
             next_do (send_removes database gone i read_us) (\<lambda>_. returns True))) (1 - int (length news) - int (length gone))"
      proof (rule run_next [OF run_read_time [OF us, of "0 - int (length news)"]])
        show "timed_run T (0 - int (length news) + 1) (next_do (send_removes database gone i read_us) (\<lambda>_. returns True))
            (1 - int (length news) - int (length gone))" for read_us
          using run_next [OF run_send_removes run_plain(1), of T "1 - int (length news)" database gone i read_us] by simp
      qed simp
    qed
    from run_weaken [OF this n] show ?thesis unfolding if_not_P [OF False] .
  qed
  show ?thesis
    unfolding query_event_def Let_def by (intro run_if run_plain run_same run_plain' sent)
qed

lemma run_target_events:
  assumes "sint (ce_commit_us event) \<le> T"
  shows "timed_run T 0 (target_events sv database event ids) 0"
proof -
  have "timed_run T 0 (target_event sv database event i) 0" for i
    unfolding target_event_def Let_def
    by (intro run_same run_plain)
      (auto split: target_kind.split intro!: run_same run_plain run_document_events run_query_event assms)
  then show ?thesis by (induction ids) (auto intro!: run_same run_plain)
qed

section \<open>Sessions\<close>

lemma run_handle_event:
  assumes "sint (ce_commit_us event) \<le> T"
  shows "timed_run T 0 (handle_event sv event) 0"
  unfolding handle_event_def
  by (intro run_same run_if run_plain run_target_events [OF assms] run_marker [OF assms] order_refl)

lemma run_handle_request:
  assumes "\<And>d. sint (rc_now_us (sv_context sv) d) \<le> T"
  shows "timed_run T 0 (handle_request sv auth req) 0"
proof -
  have change: "timed_run T 0 (send_target_change kind ids t token) 0" if "kind \<noteq> No_change" for kind ids t token
    by (rule run_weaken [OF run_change [OF that]]) simp
  have "timed_run T 0 (add_target sv auth target) 0" for target
    unfolding add_target_def
    by (intro run_same run_plain run_plain' run_if run_ends run_kind_of_target change run_targets run_initial [OF assms]) simp_all
  then show ?thesis
    unfolding handle_request_def
    by (intro run_same run_plain' run_pin run_case_option) (auto split: listen_change.split intro!: run_plain run_targets)
qed

lemma run_resync:
  assumes "\<And>d. sint (rc_now_us (sv_context sv) d) \<le> T"
  shows "timed_run T 0 (resync sv auth ids) 0"
proof (induction ids)
  case (Cons i ids)
  have "timed_run T 0 (send_target_change Reset_change [i] None []) 0"
    by (rule run_weaken [OF run_change]) simp_all
  then show ?case unfolding resync.simps by (intro run_same run_plain' run_initial [OF assms] Cons.IH)
qed (simp add: run_plain)

lemma run_handle_input:
  assumes "\<And>d. sint (rc_now_us (sv_context sv) d) \<le> T" "\<And>event. i = Event_input event \<Longrightarrow> sint (ce_commit_us event) \<le> T"
  shows "timed_run T 0 (handle_input sv auth i) 0"
  using assms run_resync [OF assms(1)]
  by (cases i) (auto simp: handle_input_def resync_all_def intro!: run_handle_request run_handle_event run_same run_plain)

lemma listening_timed:
  assumes "\<And>d. sint (rc_now_us (sv_context sv) d) \<le> T" "0 \<le> T"
  shows "listening sv auth inputs ls \<Longrightarrow> \<forall>event. Event_input event \<in> set inputs \<longrightarrow> sint (ce_commit_us event) \<le> T \<Longrightarrow>
    T + int (length (ls_out ls)) + 1 < 2 ^ 63 \<Longrightarrow> timed T 0 ls"
proof (induction rule: listening.induct)
  case start
  then show ?case using assms(2) by (simp add: timed_def new_session_def)
next
  case (input inputs ls i st ls' st')
  have "timed_run T 0 (handle_input sv auth i) 0" using input.prems(1) by (intro run_handle_input assms(1)) auto
  then have r: "length (ls_out ls) \<le> length (ls_out ls')" "timed T 0 ls \<Longrightarrow> timed T 0 ls'"
    using input.hyps(3) input.prems(2) unfolding timed_run_def by blast+
  have "timed T 0 ls" using input.IH input.prems r(1) by auto
  then show ?case by (rule r(2))
qed

text \<open>
  C36. The read times of a stream's snapshot markers are strictly increasing, whatever the order
  in which commit times and clock readings come, as long as they and the number of messages stay
  below the largest 64-bit time.
\<close>

theorem snapshot_times_increase:
  assumes "listening sv auth inputs ls"
    "\<And>d. sint (rc_now_us (sv_context sv) d) \<le> T" "0 \<le> T"
    "\<forall>event. Event_input event \<in> set inputs \<longrightarrow> sint (ce_commit_us event) \<le> T"
    "T + int (length (ls_out ls)) + 1 < 2 ^ 63"
  shows "sorted_wrt (<) (snapshot_times (ls_out ls))"
  using listening_timed [OF assms(2,3,1,4,5)] by (simp add: timed_def)

theorem snapshot_times_increase_witness:
  "\<exists>ls. listening watched_service Unauthenticated [Request_input watch_request] ls \<and> length (ls_out ls) = 4
    \<and> sorted_wrt (<) (snapshot_times (ls_out ls))"
proof -
  obtain ls where l: "listening watched_service Unauthenticated [Request_input watch_request] ls" "length (ls_out ls) = 4"
    using watched_listening by blast
  have "sorted_wrt (<) (snapshot_times (ls_out ls))"
    by (rule snapshot_times_increase [OF l(1), of 7]) (simp_all add: watched_simps l(2))
  then show ?thesis using l by blast
qed

end
