(* ===== verification/Functions.thy ===== *)
theory Functions
  imports Service
begin

text \<open>
  \<open>functions.rs\<close>: the registry of triggers, path patterns, and the dispatcher over the events of
  the hub.  Payloads are records; their rendering as JSON and the HTTP client are of other crates.
  Every delivery is a task of its own, so an event stands for the list of deliveries it starts.
\<close>

section \<open>Kinds of events\<close>

datatype event_kind = Created | Updated | Deleted | Written

definition type_name :: "event_kind \<Rightarrow> string" where
  "type_name k =
     (case k of
        Created \<Rightarrow> ''google.cloud.firestore.document.v1.created''
      | Updated \<Rightarrow> ''google.cloud.firestore.document.v1.updated''
      | Deleted \<Rightarrow> ''google.cloud.firestore.document.v1.deleted''
      | Written \<Rightarrow> ''google.cloud.firestore.document.v1.written'')"

definition actual_kind :: "document_delta \<Rightarrow> event_kind" where
  "actual_kind delta =
     (case (dd_before delta, dd_after delta) of
        (None, Some _) \<Rightarrow> Created
      | (Some _, Some _) \<Rightarrow> Updated
      | _ \<Rightarrow> Deleted)"

definition covers :: "event_kind \<Rightarrow> event_kind \<Rightarrow> bool" where
  "covers k actual \<longleftrightarrow> k = Written \<or> k = actual"

section \<open>Patterns\<close>

datatype pattern_seg = Literal string | Capture string | Glob string

definition parse_segment :: "string \<Rightarrow> pattern_seg" where
  "parse_segment seg =
     (case Option.bind (strip_prefix ''{'' seg) (strip_suffix ''}'') of
        Some inner \<Rightarrow> (case strip_suffix ''=**'' inner of Some name \<Rightarrow> Glob name | None \<Rightarrow> Capture inner)
      | None \<Rightarrow> Literal seg)"

definition parse_pattern :: "string \<Rightarrow> pattern_seg list" where
  "parse_pattern text = map parse_segment (filter (\<lambda>s. s \<noteq> []) (split_on CHR ''/'' text))"

text \<open>The loop over the segments from part \<open>i\<close> of the path on.\<close>

fun match_parts :: "pattern_seg list \<Rightarrow> string list \<Rightarrow> nat \<Rightarrow> (string \<times> string) list \<Rightarrow> (string \<times> string) list option" where
  "match_parts [] parts i params = (if i = length parts then Some params else None)"
| "match_parts (Literal lit # segments) parts i params =
     (if i < length parts then (if parts ! i \<noteq> lit then None else match_parts segments parts (i + 1) params) else None)"
| "match_parts (Capture name # segments) parts i params =
     (if i < length parts then match_parts segments parts (i + 1) (params @ [(name, parts ! i)]) else None)"
| "match_parts (Glob name # segments) parts i params =
     (let trailing = length segments
      in if length parts < i + trailing + 1 then None
         else let took = length parts - trailing - i
              in match_parts segments parts (i + took) (params @ [(name, join ''/'' (take took (drop i parts)))]))"

definition match_pattern :: "pattern_seg list \<Rightarrow> resource_path \<Rightarrow> (string \<times> string) list option" where
  "match_pattern segments path = match_parts segments path 0 []"

section \<open>The registry\<close>

record trigger_spec =
  ts_id :: string
  ts_pattern :: string
  ts_event :: event_kind
  ts_endpoint :: string

record trigger =
  tr_id :: string
  tr_segments :: "pattern_seg list"
  tr_event :: event_kind
  tr_endpoint :: string

definition replace_triggers :: "trigger_spec list \<Rightarrow> trigger list" where
  "replace_triggers specs =
     map (\<lambda>spec. \<lparr>tr_id = ts_id spec, tr_segments = parse_pattern (ts_pattern spec), tr_event = ts_event spec,
       tr_endpoint = ts_endpoint spec\<rparr>) specs"

section \<open>Times\<close>

definition calendar_date :: "int \<Rightarrow> int \<times> int \<times> int" where
  "calendar_date z =
     (let z = z + 719468;
          era = (if 0 \<le> z then z else z - 146096) sdiv 146097;
          doe = z - era * 146097;
          yoe = (doe - doe sdiv 1460 + doe sdiv 36524 - doe sdiv 146096) sdiv 365;
          y = yoe + era * 400;
          doy = doe - (365 * yoe + yoe sdiv 4 - yoe sdiv 100);
          mp = (5 * doy + 2) sdiv 153;
          d = doy - (153 * mp + 2) sdiv 5 + 1;
          m = (if mp < 10 then mp + 3 else mp - 9)
      in (if m \<le> 2 then y + 1 else y, m, d))"

text \<open>\<open>{:0w}\<close> of an integer: zeros after the sign up to the width.\<close>

definition zero_padded :: "nat \<Rightarrow> int \<Rightarrow> string" where
  "zero_padded w n =
     (let digits = show_nat (nat \<bar>n\<bar>); sign = (if n < 0 then ''-'' else [])
      in sign @ replicate (w - length sign - length digits) CHR ''0'' @ digits)"

definition rfc3339 :: "i64 \<Rightarrow> string" where
  "rfc3339 us =
     (let secs = sint us div 1000000; micros = sint us mod 1000000;
          days = secs div 86400; sod = secs mod 86400;
          (y, m, d) = calendar_date days
      in zero_padded 4 y @ ''-'' @ zero_padded 2 m @ ''-'' @ zero_padded 2 d @ ''T''
         @ zero_padded 2 (sod sdiv 3600) @ '':'' @ zero_padded 2 ((sod sdiv 60) smod 60) @ '':'' @ zero_padded 2 (sod smod 60)
         @ ''.'' @ zero_padded 6 micros @ ''Z'')"

section \<open>Dispatch\<close>

text \<open>A missing document is the empty object of the payload.\<close>

record cloud_event =
  cl_type :: string
  cl_source :: string
  cl_subject :: string
  cl_id :: string
  cl_time :: string
  cl_params :: "(string \<times> string) list"
  cl_old_value :: "wire_document option"
  cl_value :: "wire_document option"

definition event_document :: "string \<Rightarrow> stored_document \<Rightarrow> wire_document" where
  "event_document name doc =
     \<lparr>wd_name = name, wd_fields = sd_fields doc, wd_create_time = Some (timestamp_from_us (create_time_us doc)),
      wd_update_time = Some (timestamp_from_us (update_time_us doc))\<rparr>"

definition cloud_event ::
  "trigger \<Rightarrow> event_kind \<Rightarrow> database_name \<Rightarrow> document_delta \<Rightarrow> i64 \<Rightarrow> (string \<times> string) list \<Rightarrow> cloud_event" where
  "cloud_event trigger actual database delta commit_us params =
     (let path = show_path (dd_path delta); name = documents_root database @ ''/'' @ path
      in \<lparr>cl_type = type_name actual, cl_source = ''//firestore.googleapis.com/'' @ show_database database,
          cl_subject = ''documents/'' @ path,
          cl_id = tr_id trigger @ ''-'' @ path @ ''-'' @ show_int (sint commit_us),
          cl_time = rfc3339 commit_us,
          cl_params = fold (\<lambda>(k, v). hm_insert k v) params [],
          cl_old_value = map_option (event_document name) (dd_before delta),
          cl_value = map_option (event_document name) (dd_after delta)\<rparr>)"

record delivery =
  dl_endpoint :: string
  dl_trigger_id :: string
  dl_payload :: cloud_event

fun trigger_deliveries :: "commit_event \<Rightarrow> trigger \<Rightarrow> document_delta list \<Rightarrow> delivery list" where
  "trigger_deliveries event trigger [] = []"
| "trigger_deliveries event trigger (delta # deltas) =
     (let actual = actual_kind delta; rest = trigger_deliveries event trigger deltas
      in if \<not> covers (tr_event trigger) actual then rest
         else case match_pattern (tr_segments trigger) (dd_path delta) of
             None \<Rightarrow> rest
           | Some params \<Rightarrow>
               \<lparr>dl_endpoint = tr_endpoint trigger, dl_trigger_id = tr_id trigger,
                dl_payload = cloud_event trigger actual (ce_database event) delta (ce_commit_us event) params\<rparr> # rest)"

definition dispatch_event :: "trigger list \<Rightarrow> commit_event \<Rightarrow> delivery list" where
  "dispatch_event registry event =
     (if ce_origin event \<noteq> Local then []
      else if registry = [] then []
      else concat (map (\<lambda>trigger. trigger_deliveries event trigger (ce_changes event)) registry))"

text \<open>What the hub delivers, with the registry as it is then; \<open>None\<close> is a lag.\<close>

fun dispatcher :: "(trigger list \<times> commit_event option) list \<Rightarrow> delivery list" where
  "dispatcher [] = []"
| "dispatcher ((registry, None) # events) = dispatcher events"
| "dispatcher ((registry, Some event) # events) = dispatch_event registry event @ dispatcher events"

text \<open>
  Posting one payload: the client is a function on its own state, answering the HTTP status or
  \<open>None\<close> for an error.  The waits between attempts are left out.
\<close>

definition MAX_ATTEMPTS :: nat where "MAX_ATTEMPTS = 3"

function deliver_from ::
  "('s \<Rightarrow> string \<Rightarrow> cloud_event \<Rightarrow> nat option \<times> 's) \<Rightarrow> string \<Rightarrow> cloud_event \<Rightarrow> nat \<Rightarrow> 's \<Rightarrow> 's" where
  "deliver_from post endpoint payload attempt s =
     (if MAX_ATTEMPTS < attempt then s
      else let (r, s) = post s endpoint payload
           in case r of
                Some code \<Rightarrow> if 200 \<le> code \<and> code < 300 then s else deliver_from post endpoint payload (attempt + 1) s
              | None \<Rightarrow> deliver_from post endpoint payload (attempt + 1) s)"
  by pat_completeness auto
termination by (relation "measure (\<lambda>(post, endpoint, payload, attempt, s). MAX_ATTEMPTS + 1 - attempt)") auto

definition deliver_event ::
  "('s \<Rightarrow> string \<Rightarrow> cloud_event \<Rightarrow> nat option \<times> 's) \<Rightarrow> delivery \<Rightarrow> 's \<Rightarrow> 's" where
  "deliver_event post d s = deliver_from post (dl_endpoint d) (dl_payload d) 1 s"

declare deliver_from.simps [simp del]

end
