(* ===== verification/FunctionsProps.thy ===== *)
theory FunctionsProps
  imports Functions
begin

text \<open>
  Patterns of triggers read as divisions of a path, and which events start a delivery.
\<close>

section \<open>Patterns as divisions of a path\<close>

text \<open>The segments a pattern segment may stand for, and what a division binds.\<close>

fun stands_for :: "pattern_seg \<Rightarrow> string list \<Rightarrow> bool" where
  "stands_for (Literal lit) piece \<longleftrightarrow> piece = [lit]"
| "stands_for (Capture name) piece \<longleftrightarrow> length piece = 1"
| "stands_for (Glob name) piece \<longleftrightarrow> piece \<noteq> []"

fun bound_by :: "pattern_seg list \<Rightarrow> string list list \<Rightarrow> (string \<times> string) list" where
  "bound_by (Literal lit # segments) (piece # pieces) = bound_by segments pieces"
| "bound_by (Capture name # segments) (piece # pieces) = (name, hd piece) # bound_by segments pieces"
| "bound_by (Glob name # segments) (piece # pieces) = (name, join ''/'' piece) # bound_by segments pieces"
| "bound_by _ _ = []"

definition divides :: "pattern_seg list \<Rightarrow> string list \<Rightarrow> string list list \<Rightarrow> bool" where
  "divides segments parts pieces \<longleftrightarrow> list_all2 stands_for segments pieces \<and> concat pieces = parts"

fun is_glob :: "pattern_seg \<Rightarrow> bool" where
  "is_glob (Glob name) = True"
| "is_glob _ = False"

lemma divides_Cons:
  "divides (seg # segments) parts pieces \<longleftrightarrow>
     (\<exists>piece rest. pieces = piece # rest \<and> stands_for seg piece \<and> (\<exists>parts'. parts = piece @ parts' \<and> divides segments parts' rest))"
  by (auto simp: divides_def list_all2_Cons1)

lemma divides_Nil: "divides [] parts pieces \<longleftrightarrow> parts = [] \<and> pieces = []"
  by (auto simp: divides_def)

lemma drop_one: "i < length parts \<Longrightarrow> drop i parts = [parts ! i] @ drop (i + 1) parts"
  by (simp add: Cons_nth_drop_Suc)

lemma match_parts_sound:
  "match_parts segments parts i params = Some r \<Longrightarrow> i \<le> length parts \<Longrightarrow>
     \<exists>pieces. divides segments (drop i parts) pieces \<and> r = params @ bound_by segments pieces"
proof (induction segments parts i params arbitrary: r rule: match_parts.induct)
  case (1 parts i params)
  then show ?case by (simp add: divides_Nil split: if_splits)
next
  case (2 lit segments parts i params)
  then have i: "i < length parts" "parts ! i = lit" by (auto split: if_splits)
  with 2 obtain pieces where "divides segments (drop (i + 1) parts) pieces" "r = params @ bound_by segments pieces" by auto
  then show ?case using drop_one [OF i(1)] i(2) by (intro exI [of _ "[lit] # pieces"]) (auto simp: divides_Cons)
next
  case (3 name segments parts i params)
  then have i: "i < length parts" by (auto split: if_splits)
  with 3 obtain pieces where "divides segments (drop (i + 1) parts) pieces"
    "r = (params @ [(name, parts ! i)]) @ bound_by segments pieces" by fastforce
  then show ?case using drop_one [OF i] by (intro exI [of _ "[parts ! i] # pieces"]) (auto simp: divides_Cons)
next
  case (4 name segments parts i params)
  let ?took = "length parts - length segments - i"
  from 4 have i: "i + length segments + 1 \<le> length parts" by (auto simp: Let_def split: if_splits)
  with 4 obtain pieces where "divides segments (drop (i + ?took) parts) pieces"
    "r = (params @ [(name, join ''/'' (take ?took (drop i parts)))]) @ bound_by segments pieces"
    by (fastforce simp: Let_def)
  moreover have "drop i parts = take ?took (drop i parts) @ drop (i + ?took) parts"
    by (metis add.commute append_take_drop_id drop_drop)
  moreover have "take ?took (drop i parts) \<noteq> []" using i by auto
  ultimately show ?case
    by (intro exI [of _ "take ?took (drop i parts) # pieces"]) (auto simp: divides_Cons)
qed

lemma divides_globless: "divides segments parts pieces \<Longrightarrow> \<forall>seg \<in> set segments. \<not> is_glob seg \<Longrightarrow> length parts = length segments"
proof (induction segments arbitrary: parts pieces)
  case (Cons seg segments)
  then show ?case by (cases seg) (auto simp: divides_Cons)
qed (simp add: divides_Nil)

lemma match_parts_complete:
  "divides segments (drop i parts) pieces \<Longrightarrow> i \<le> length parts \<Longrightarrow> length (filter is_glob segments) \<le> 1 \<Longrightarrow>
     match_parts segments parts i params = Some (params @ bound_by segments pieces)"
proof (induction segments parts i params arbitrary: pieces rule: match_parts.induct)
  case (1 parts i params)
  then show ?case by (auto simp: divides_Nil)
next
  case (2 lit segments parts i params)
  then obtain rest parts' where p: "pieces = [lit] # rest" "drop i parts = [lit] @ parts'" "divides segments parts' rest"
    by (auto simp: divides_Cons)
  then have i: "i < length parts" by (metis append_Cons drop_eq_Nil list.distinct(1) not_less)
  then have "parts ! i = lit" "parts' = drop (i + 1) parts" using p(2) drop_one [OF i] by auto
  then show ?case using 2 i p by simp
next
  case (3 name segments parts i params)
  then obtain x rest parts' where p: "pieces = [x] # rest" "drop i parts = [x] @ parts'" "divides segments parts' rest"
    by (auto simp: divides_Cons length_Suc_conv)
  then have i: "i < length parts" by (metis append_Cons drop_eq_Nil list.distinct(1) not_less)
  then have "parts ! i = x" "parts' = drop (i + 1) parts" using p(2) drop_one [OF i] by auto
  then show ?case using 3 i p by simp
next
  case (4 name segments parts i params)
  then obtain piece rest parts' where p: "pieces = piece # rest" "piece \<noteq> []" "drop i parts = piece @ parts'" "divides segments parts' rest"
    by (auto simp: divides_Cons)
  have "\<forall>seg \<in> set segments. \<not> is_glob seg" using 4(4) by (auto simp: filter_empty_conv)
  from divides_globless [OF p(4) this] have l: "length parts' = length segments" .
  have total: "length parts - i = length piece + length segments" using arg_cong [OF p(3), of length] l by simp
  then have took: "length parts - length segments - i = length piece" "\<not> length parts < i + length segments + 1"
    using length_greater_0_conv [of piece] p(2) 4(3) by linarith+
  have parts': "parts' = drop (i + length piece) parts" using p(3) by (metis add.commute append_eq_conv_conj drop_drop)
  have taken: "take (length piece) (drop i parts) = piece" using p(3) by simp
  have "match_parts segments parts (i + length piece) (params @ [(name, join ''/'' piece)])
      = Some ((params @ [(name, join ''/'' piece)]) @ bound_by segments rest)"
    using 4(1) [OF refl took(2) took(1) [symmetric], of rest] p(4) parts' total 4(3,4) taken by simp
  then show ?case using took p by (simp add: Let_def)
qed

text \<open>
  C37. A pattern with at most one glob matches a document path exactly when the path can be
  divided among its segments, a literal standing for itself, a capture for one segment and a glob
  for one or more, and it binds the parts of that division.
\<close>

theorem match_pattern_divides:
  assumes "length (filter is_glob segments) \<le> 1"
  shows "match_pattern segments path = Some params \<longleftrightarrow> (\<exists>pieces. divides segments path pieces \<and> params = bound_by segments pieces)"
  using match_parts_sound [of segments path 0 "[]" params] match_parts_complete [of segments 0 path _ "[]"] assms
  by (auto simp: match_pattern_def)

theorem match_pattern_divides_witness:
  "match_pattern (parse_pattern ''chats/{c}/{rest=**}'') [''chats'', ''a'', ''messages'', ''m''] = Some [(''c'', ''a''), (''rest'', ''messages/m'')]"
proof -
  have p: "parse_pattern ''chats/{c}/{rest=**}'' = [Literal ''chats'', Capture ''c'', Glob ''rest'']" by code_simp
  have "divides [Literal ''chats'', Capture ''c'', Glob ''rest''] [''chats'', ''a'', ''messages'', ''m'']
      [[''chats''], [''a''], [''messages'', ''m'']]"
    by (simp add: divides_def)
  then show ?thesis
    unfolding p by (subst match_pattern_divides) (auto intro!: exI [of _ "[[''chats''], [''a''], [''messages'', ''m'']]"])
qed

text \<open>With two globs the first takes all it may, and a division can be missed.\<close>

lemma two_globs:
  "match_pattern [Glob ''a'', Literal ''x'', Glob ''b''] [''p'', ''x'', ''q'', ''r''] = None"
  "divides [Glob ''a'', Literal ''x'', Glob ''b''] [''p'', ''x'', ''q'', ''r''] [[''p''], [''x''], [''q'', ''r'']]"
  by code_simp (simp add: divides_def)

section \<open>What is dispatched\<close>

lemma trigger_deliveries_set:
  "d \<in> set (trigger_deliveries event trigger deltas) \<longleftrightarrow> (\<exists>delta params. delta \<in> set deltas
     \<and> covers (tr_event trigger) (actual_kind delta) \<and> match_pattern (tr_segments trigger) (dd_path delta) = Some params
     \<and> d = \<lparr>dl_endpoint = tr_endpoint trigger, dl_trigger_id = tr_id trigger,
            dl_payload = cloud_event trigger (actual_kind delta) (ce_database event) delta (ce_commit_us event) params\<rparr>)"
  by (induction deltas) (auto simp: Let_def split: option.splits)

lemma dispatch_event_set:
  "d \<in> set (dispatch_event registry event) \<longleftrightarrow> ce_origin event = Local \<and> (\<exists>trigger \<in> set registry.
     d \<in> set (trigger_deliveries event trigger (ce_changes event)))"
  by (auto simp: dispatch_event_def)

text \<open>An event that another instance rebuilt from a notice starts no delivery here.\<close>

lemma rebuilt_not_dispatched: "rebuild mg cd notice s = (Some event, s') \<Longrightarrow> dispatch_event registry event = []"
  by (auto simp: rebuild_def Let_def dispatch_event_def split: prod.splits if_splits)

text \<open>A delete of a document that never existed is a deletion to the triggers.\<close>

lemma deletion_of_nothing: "actual_kind \<lparr>dd_path = path, dd_before = None, dd_after = None\<rparr> = Deleted"
  by (simp add: actual_kind_def)

lemma calendar_date_civil: "calendar_date = civil_from_days"
  by (rule ext) (simp only: calendar_date_def civil_from_days_def)

text \<open>A payload is posted until a success, at most three times.\<close>

definition succeeded :: "nat option \<Rightarrow> bool" where
  "succeeded r \<longleftrightarrow> (case r of Some code \<Rightarrow> 200 \<le> code \<and> code < 300 | None \<Rightarrow> False)"

lemma deliver_from_step:
  assumes "attempt \<le> MAX_ATTEMPTS"
  shows "deliver_from post endpoint payload attempt s =
    (let (r, s') = post s endpoint payload in if succeeded r then s' else deliver_from post endpoint payload (attempt + 1) s')"
  using assms by (subst deliver_from.simps) (auto simp: succeeded_def Let_def split: prod.splits option.splits)

lemma deliver_event_attempts:
  "deliver_event post d s =
     (let (r1, s1) = post s (dl_endpoint d) (dl_payload d)
      in if succeeded r1 then s1
         else let (r2, s2) = post s1 (dl_endpoint d) (dl_payload d)
              in if succeeded r2 then s2 else snd (post s2 (dl_endpoint d) (dl_payload d)))"
proof -
  have "deliver_from post endpoint payload (Suc (Suc (Suc (Suc 0)))) s = s" for endpoint payload s
    by (subst deliver_from.simps) (simp add: MAX_ATTEMPTS_def)
  then show ?thesis
    by (simp add: deliver_event_def deliver_from_step MAX_ATTEMPTS_def split_beta Let_def)
qed

end
