(* ===== verification/Lexer.thy ===== *)
theory Lexer
  imports RulesStd
begin

text \<open>
  \<open>lexer.rs\<close>: the tokens of the rules language.  The source is its UTF-8 bytes; the position of
  \<open>Lexer\<close> is kept as the rest of the source with the number of bytes before it.  Reading past the
  end, which panics in the source, is the failure \<open>Lex_panic\<close>.
\<close>

section \<open>Tokens\<close>

datatype tok =
    Ident string | Str string | IntLit i64 | FloatLit f64
  | LParen | RParen | LBrace | RBrace | LBracket | RBracket
  | Comma | Semi | Colon | Question | Dot | Slash | Star | Percent | Plus | Minus
  | EqTok | EqEq | NotEq | Lt_tok | Le_tok | Gt_tok | Ge_tok | AndAnd | OrOr | Not_tok | Assign | Eof

record lex_token =
  lt_tok :: tok
  lt_line :: u32
  lt_col :: u32
  lt_offset :: nat

datatype lex_message = Message string | Unexpected_character char | Invalid_escape char

datatype lex_failure = Lex_error lex_message u32 u32 | Lex_panic

record lexer =
  lx_rest :: string
  lx_pos :: nat
  lx_line :: u32
  lx_col :: u32

definition new_lexer :: "string \<Rightarrow> lexer" where
  "new_lexer src = \<lparr>lx_rest = src, lx_pos = 0, lx_line = 1, lx_col = 1\<rparr>"

section \<open>The cursor\<close>

definition newline :: char where "newline = CHR 0x0A"

definition lex_bump :: "lexer \<Rightarrow> lex_failure + char \<times> lexer" where
  "lex_bump lx =
     (case lx_rest lx of
        [] \<Rightarrow> Inl Lex_panic
      | b # rest \<Rightarrow>
          Inr (b, \<lparr>lx_rest = rest, lx_pos = lx_pos lx + 1,
                  lx_line = (if b = newline then lx_line lx + 1 else lx_line lx),
                  lx_col = (if b = newline then 1 else lx_col lx + 1)\<rparr>))"

text \<open>\<open>bump\<close> where the character is known to be there.\<close>

definition skip_char :: "lexer \<Rightarrow> lexer" where
  "skip_char lx = (case lex_bump lx of Inl _ \<Rightarrow> lx | Inr (_, lx') \<Rightarrow> lx')"

definition lex_peek :: "lexer \<Rightarrow> char" where
  "lex_peek lx = (case lx_rest lx of b # _ \<Rightarrow> b | [] \<Rightarrow> CHR 0x00)"

definition lex_peek2 :: "lexer \<Rightarrow> char" where
  "lex_peek2 lx = (case lx_rest lx of _ # b # _ \<Rightarrow> b | _ \<Rightarrow> CHR 0x00)"

definition lex_err :: "lexer \<Rightarrow> lex_message \<Rightarrow> lex_failure" where
  "lex_err lx message = Lex_error message (lx_line lx) (lx_col lx)"

lemma rest_skip_char [simp]: "lx_rest (skip_char lx) = tl (lx_rest lx)"
  by (cases "lx_rest lx") (simp_all add: skip_char_def lex_bump_def)

lemma lex_bump_rest: "lex_bump lx = Inr (b, lx') \<Longrightarrow> lx_rest lx = b # lx_rest lx'"
  by (auto simp: lex_bump_def split: list.splits)

lemma lex_peek_rest: "lex_peek lx \<noteq> CHR 0x00 \<Longrightarrow> lx_rest lx \<noteq> []"
  by (auto simp: lex_peek_def)

section \<open>Spaces and comments\<close>

definition is_blank :: "char \<Rightarrow> bool" where
  "is_blank c \<longleftrightarrow> c = CHR '' '' \<or> c = CHR 0x09 \<or> c = CHR 0x0D \<or> c = newline"

function skip_line :: "lexer \<Rightarrow> lexer" where
  "skip_line lx = (if lx_rest lx \<noteq> [] \<and> lex_peek lx \<noteq> newline then skip_line (skip_char lx) else lx)"
  by pat_completeness auto
termination by (relation "measure (\<lambda>lx. length (lx_rest lx))") auto

function skip_block :: "lexer \<Rightarrow> lex_failure + lexer" where
  "skip_block lx =
     (if lx_rest lx = [] then Inl (lex_err lx (Message ''unterminated block comment''))
      else if lex_peek lx = CHR ''*'' \<and> lex_peek2 lx = CHR ''/'' then Inr (skip_char (skip_char lx))
      else skip_block (skip_char lx))"
  by pat_completeness auto
termination by (relation "measure (\<lambda>lx. length (lx_rest lx))") auto

declare skip_line.simps [simp del] skip_block.simps [simp del]

lemma skip_line_rest: "length (lx_rest (skip_line lx)) \<le> length (lx_rest lx)"
proof (induction lx rule: skip_line.induct)
  case (1 lx)
  show ?case
  proof (cases "lx_rest lx \<noteq> [] \<and> lex_peek lx \<noteq> newline")
    case True
    have "length (lx_rest (skip_line (skip_char lx))) \<le> length (lx_rest (skip_char lx))" by (rule 1 [OF True])
    also have "\<dots> \<le> length (lx_rest lx)" by simp
    finally show ?thesis using True by (subst skip_line.simps) simp
  qed (subst skip_line.simps, auto)
qed

lemma skip_line_step: "lx_rest lx \<noteq> [] \<Longrightarrow> lex_peek lx \<noteq> newline \<Longrightarrow> length (lx_rest (skip_line lx)) < length (lx_rest lx)"
  using skip_line_rest [of "skip_char lx"] by (subst skip_line.simps) (cases "lx_rest lx"; auto)

lemma skip_block_rest: "skip_block lx = Inr lx' \<Longrightarrow> length (lx_rest lx') < length (lx_rest lx)"
proof (induction lx rule: skip_block.induct)
  case (1 lx)
  show ?case
  proof (cases "lx_rest lx = [] \<or> lex_peek lx = CHR ''*'' \<and> lex_peek2 lx = CHR ''/''")
    case True
    then show ?thesis using 1(2) by (subst (asm) skip_block.simps) (cases "lx_rest lx"; auto)
  next
    case False
    then have "skip_block (skip_char lx) = Inr lx'" using 1(2) by (subst (asm) skip_block.simps) auto
    from 1(1) [OF _ _ this] False show ?thesis by (cases "lx_rest lx") auto
  qed
qed

function skip_trivia :: "lexer \<Rightarrow> lex_failure + lexer" where
  "skip_trivia lx =
     (if is_blank (lex_peek lx) then skip_trivia (skip_char lx)
      else if lex_peek lx = CHR ''/'' \<and> lex_peek2 lx = CHR ''/'' then skip_trivia (skip_line lx)
      else if lex_peek lx = CHR ''/'' \<and> lex_peek2 lx = CHR ''*'' then
        (case skip_block (skip_char (skip_char lx)) of Inl e \<Rightarrow> Inl e | Inr lx \<Rightarrow> skip_trivia lx)
      else Inr lx)"
  by pat_completeness auto
termination
proof (relation "measure (\<lambda>lx. length (lx_rest lx))")
  fix lx
  assume "is_blank (lex_peek lx)"
  then have "lx_rest lx \<noteq> []" by (intro lex_peek_rest) (auto simp: is_blank_def newline_def)
  then show "(skip_char lx, lx) \<in> measure (\<lambda>lx. length (lx_rest lx))" by simp
next
  fix lx
  assume a: "lex_peek lx = CHR ''/'' \<and> lex_peek2 lx = CHR ''/''"
  then have "lx_rest lx \<noteq> []" by (intro lex_peek_rest) simp
  then show "(skip_line lx, lx) \<in> measure (\<lambda>lx. length (lx_rest lx))"
    using skip_line_step [of lx] a by (simp add: newline_def)
next
  fix lx lx'
  assume "skip_block (skip_char (skip_char lx)) = Inr lx'"
  from skip_block_rest [OF this] show "(lx', lx) \<in> measure (\<lambda>lx. length (lx_rest lx))" by simp
qed simp

declare skip_trivia.simps [simp del]

section \<open>Strings, numbers and names\<close>

definition backslash :: char where "backslash = CHR 0x5C"

text \<open>\<open>char::to_digit(16)\<close>.\<close>

definition hex_digit_value :: "char \<Rightarrow> nat option" where
  "hex_digit_value c =
     (let n = of_char c :: nat
      in if 48 \<le> n \<and> n \<le> 57 then Some (n - 48)
         else if 97 \<le> n \<and> n \<le> 102 then Some (n - 87)
         else if 65 \<le> n \<and> n \<le> 70 then Some (n - 55) else None)"

fun hex_escape :: "nat \<Rightarrow> nat \<Rightarrow> lexer \<Rightarrow> lex_failure + nat \<times> lexer" where
  "hex_escape 0 code lx = Inr (code, lx)"
| "hex_escape (Suc n) code lx =
     (case lex_bump lx of
        Inl e \<Rightarrow> Inl e
      | Inr (h, lx) \<Rightarrow>
          (case hex_digit_value h of
             None \<Rightarrow> Inl (lex_err lx (Message (''invalid '' @ [backslash] @ ''u escape'')))
           | Some d \<Rightarrow> hex_escape n (code * 16 + d) lx))"

text \<open>\<open>char::from_u32\<close> and \<open>String::push\<close> for a code below \<open>0x10000\<close>.\<close>

definition utf8_of_code :: "nat \<Rightarrow> string option" where
  "utf8_of_code code =
     (if 0xD800 \<le> code \<and> code < 0xE000 then None
      else Some (map char_of
        (if code < 0x80 then [code]
         else if code < 0x800 then [0xC0 + code div 64, 0x80 + code mod 64]
         else [0xE0 + code div 4096, 0x80 + code div 64 mod 64, 0x80 + code mod 64 :: nat])))"

definition utf8_len :: "char \<Rightarrow> nat" where
  "utf8_len first =
     (let n = of_char first :: nat
      in if n \<le> 0x7F then 1 else if 0xC0 \<le> n \<and> n \<le> 0xDF then 2 else if 0xE0 \<le> n \<and> n \<le> 0xEF then 3 else 4)"

text \<open>\<open>from_utf8\<close> on the bytes of one character.\<close>

definition utf8_char_ok :: "string \<Rightarrow> bool" where
  "utf8_char_ok s \<longleftrightarrow>
     (case map (of_char :: char \<Rightarrow> nat) s of
        [a] \<Rightarrow> a \<le> 0x7F
      | [a, b] \<Rightarrow> 0xC2 \<le> a \<and> a \<le> 0xDF \<and> 0x80 \<le> b \<and> b \<le> 0xBF
      | [a, b, c] \<Rightarrow>
          (if a = 0xE0 then 0xA0 \<le> b \<and> b \<le> 0xBF
           else if a = 0xED then 0x80 \<le> b \<and> b \<le> 0x9F
           else 0xE1 \<le> a \<and> a \<le> 0xEF \<and> 0x80 \<le> b \<and> b \<le> 0xBF) \<and> 0x80 \<le> c \<and> c \<le> 0xBF
      | [a, b, c, d] \<Rightarrow>
          (if a = 0xF0 then 0x90 \<le> b \<and> b \<le> 0xBF
           else if a = 0xF4 then 0x80 \<le> b \<and> b \<le> 0x8F
           else 0xF1 \<le> a \<and> a \<le> 0xF3 \<and> 0x80 \<le> b \<and> b \<le> 0xBF) \<and> 0x80 \<le> c \<and> c \<le> 0xBF \<and> 0x80 \<le> d \<and> d \<le> 0xBF
      | _ \<Rightarrow> False)"

fun take_bytes :: "nat \<Rightarrow> lexer \<Rightarrow> lex_failure + string \<times> lexer" where
  "take_bytes 0 lx = Inr ([], lx)"
| "take_bytes (Suc n) lx =
     (case lex_bump lx of
        Inl e \<Rightarrow> Inl e
      | Inr (b, lx) \<Rightarrow> (case take_bytes n lx of Inl e \<Rightarrow> Inl e | Inr (bs, lx) \<Rightarrow> Inr (b # bs, lx)))"

definition simple_escape :: "char \<Rightarrow> char option" where
  "simple_escape e =
     (if e = CHR ''n'' then Some newline else if e = CHR ''t'' then Some (CHR 0x09)
      else if e = CHR ''r'' then Some (CHR 0x0D)
      else if e = backslash \<or> e = CHR 0x27 \<or> e = CHR 0x22 \<or> e = CHR ''/'' then Some e else None)"

lemma hex_escape_rest: "hex_escape n code lx = Inr (r, lx') \<Longrightarrow> length (lx_rest lx) = n + length (lx_rest lx')"
proof (induction n arbitrary: code lx)
  case (Suc n)
  then obtain h lx1 d where b: "lex_bump lx = Inr (h, lx1)" "hex_escape n (code * 16 + d) lx1 = Inr (r, lx')"
    by (auto split: sum.splits prod.splits option.splits)
  then show ?case using Suc.IH [OF b(2)] lex_bump_rest [OF b(1)] by simp
qed simp

lemma take_bytes_rest: "take_bytes n lx = Inr (bs, lx') \<Longrightarrow> lx_rest lx = bs @ lx_rest lx'"
proof (induction n arbitrary: lx bs)
  case (Suc n)
  then obtain b lx1 bs' where b: "lex_bump lx = Inr (b, lx1)" "take_bytes n lx1 = Inr (bs', lx')" "bs = b # bs'"
    by (auto split: sum.splits prod.splits)
  then show ?case using Suc.IH [OF b(2)] lex_bump_rest [OF b(1)] by simp
qed simp

function lex_string :: "char \<Rightarrow> string \<Rightarrow> lexer \<Rightarrow> lex_failure + string \<times> lexer" where
  "lex_string quote out lx =
     (if lx_rest lx = [] then Inl (lex_err lx (Message ''unterminated string''))
      else
        case lex_bump lx of
          Inl e \<Rightarrow> Inl e
        | Inr (b, lx1) \<Rightarrow>
            if b = quote then Inr (out, lx1)
            else if b = backslash then
              (case lex_bump lx1 of
                 Inl e \<Rightarrow> Inl e
               | Inr (e, lx2) \<Rightarrow>
                   (case simple_escape e of
                      Some c \<Rightarrow> lex_string quote (out @ [c]) lx2
                    | None \<Rightarrow>
                        if e \<noteq> CHR ''u'' then Inl (lex_err lx2 (Invalid_escape e))
                        else
                          (case hex_escape 4 0 lx2 of
                             Inl f \<Rightarrow> Inl f
                           | Inr (code, lx3) \<Rightarrow>
                               (case utf8_of_code code of
                                  None \<Rightarrow> Inl (lex_err lx3 (Message (''invalid '' @ [backslash] @ ''u escape'')))
                                | Some c \<Rightarrow> lex_string quote (out @ c) lx3))))
            else
              (case take_bytes (utf8_len b - 1) lx1 of
                 Inl e \<Rightarrow> Inl e
               | Inr (bs, lx2) \<Rightarrow>
                   if utf8_char_ok (b # bs) then lex_string quote (out @ b # bs) lx2
                   else Inl (lex_err lx2 (Message ''invalid UTF-8''))))"
  by pat_completeness auto
termination
  by (relation "measure (\<lambda>(_, _, lx). length (lx_rest lx))")
    (auto dest!: lex_bump_rest hex_escape_rest take_bytes_rest)

declare lex_string.simps [simp del]

function take_chars :: "(char \<Rightarrow> bool) \<Rightarrow> lexer \<Rightarrow> string \<times> lexer" where
  "take_chars P lx =
     (if lx_rest lx \<noteq> [] \<and> P (lex_peek lx)
      then (let (s, lx') = take_chars P (skip_char lx) in (lex_peek lx # s, lx'))
      else ([], lx))"
  by pat_completeness auto
termination by (relation "measure (\<lambda>(_, lx). length (lx_rest lx))") auto

declare take_chars.simps [simp del]

definition is_ident_start :: "char \<Rightarrow> bool" where
  "is_ident_start c \<longleftrightarrow>
     (let n = of_char c :: nat in 65 \<le> n \<and> n \<le> 90 \<or> 97 \<le> n \<and> n \<le> 122 \<or> c = CHR ''_'' \<or> c = CHR ''$'')"

definition is_ident_char :: "char \<Rightarrow> bool" where
  "is_ident_char c \<longleftrightarrow> is_ident_start c \<or> is_ascii_digit c"

definition lex_number :: "char \<Rightarrow> lexer \<Rightarrow> lex_failure + tok \<times> lexer" where
  "lex_number first lx =
     (let (digits, lx) = take_chars is_ascii_digit lx; text = first # digits
      in if lex_peek lx = CHR ''.'' \<and> is_ascii_digit (lex_peek2 lx) then
           (let (decimals, lx) = take_chars is_ascii_digit (skip_char lx)
            in case parse_f64 (text @ CHR ''.'' # decimals) of
                 Some x \<Rightarrow> Inr (FloatLit x, lx)
               | None \<Rightarrow> Inl (lex_err lx (Message ''invalid float literal'')))
         else
           (case parse_i64 text of
              Some i \<Rightarrow> Inr (IntLit i, lx)
            | None \<Rightarrow> Inl (lex_err lx (Message ''integer literal out of range''))))"

definition lex_ident :: "char \<Rightarrow> lexer \<Rightarrow> tok \<times> lexer" where
  "lex_ident first lx = (let (s, lx) = take_chars is_ident_char lx in (Ident (first # s), lx))"

section \<open>The tokens of a source\<close>

text \<open>The characters that are tokens by themselves.\<close>

definition punctuation :: "char \<Rightarrow> tok option" where
  "punctuation b =
     map_of [(CHR ''('', LParen), (CHR '')'', RParen), (CHR ''{'', LBrace), (CHR ''}'', RBrace),
       (CHR ''['', LBracket), (CHR '']'', RBracket), (CHR '','', Comma), (CHR '';'', Semi), (CHR '':'', Colon),
       (CHR ''?'', Question), (CHR ''.'', Dot), (CHR ''/'', Slash), (CHR ''*'', Star), (CHR ''%'', Percent),
       (CHR ''+'', Plus), (CHR ''-'', Minus)] b"

text \<open>The characters that take an equals sign, with the token with and without it.\<close>

definition with_equals :: "char \<Rightarrow> (tok \<times> tok) option" where
  "with_equals b =
     map_of [(CHR ''='', EqEq, Assign), (CHR ''!'', NotEq, Not_tok), (CHR ''<'', Le_tok, Lt_tok), (CHR ''>'', Ge_tok, Gt_tok)] b"

definition next_token :: "lexer \<Rightarrow> lex_failure + tok \<times> lexer" where
  "next_token lx =
     (case lex_bump lx of
        Inl e \<Rightarrow> Inl e
      | Inr (b, lx) \<Rightarrow>
          (case punctuation b of
             Some t \<Rightarrow> Inr (t, lx)
           | None \<Rightarrow>
               (case with_equals b of
                  Some (eq, plain) \<Rightarrow> if lex_peek lx = CHR ''='' then Inr (eq, skip_char lx) else Inr (plain, lx)
                | None \<Rightarrow>
                    if b = CHR ''&'' then
                      (if lex_peek lx = CHR ''&'' then Inr (AndAnd, skip_char lx)
                       else Inl (lex_err lx (Message (''expected '' @ [CHR 0x27] @ ''&&'' @ [CHR 0x27]))))
                    else if b = CHR ''|'' then
                      (if lex_peek lx = CHR ''|'' then Inr (OrOr, skip_char lx)
                       else Inl (lex_err lx (Message (''expected '' @ [CHR 0x27] @ ''||'' @ [CHR 0x27]))))
                    else if b = CHR 0x27 \<or> b = CHR 0x22 then
                      (case lex_string b [] lx of Inl e \<Rightarrow> Inl e | Inr (s, lx) \<Rightarrow> Inr (Str s, lx))
                    else if is_ascii_digit b then lex_number b lx
                    else if is_ident_start b then Inr (lex_ident b lx)
                    else Inl (lex_err lx (Unexpected_character b)))))"

lemma skip_trivia_rest: "skip_trivia lx = Inr lx' \<Longrightarrow> length (lx_rest lx') \<le> length (lx_rest lx)"
proof (induction lx rule: skip_trivia.induct)
  case (1 lx)
  show ?case
  proof (cases "is_blank (lex_peek lx)")
    case True
    then have "skip_trivia (skip_char lx) = Inr lx'" using 1(4) by (subst (asm) skip_trivia.simps) simp
    from 1(1) [OF True this] show ?thesis by simp
  next
    case nb: False
    show ?thesis
    proof (cases "lex_peek lx = CHR ''/'' \<and> lex_peek2 lx = CHR ''/''")
      case True
      then have "skip_trivia (skip_line lx) = Inr lx'" using 1(4) nb by (subst (asm) skip_trivia.simps) simp
      from 1(2) [OF nb True this] show ?thesis using skip_line_rest [of lx] by simp
    next
      case nl: False
      show ?thesis
      proof (cases "lex_peek lx = CHR ''/'' \<and> lex_peek2 lx = CHR ''*''")
        case True
        then obtain lx2 where b: "skip_block (skip_char (skip_char lx)) = Inr lx2" "skip_trivia lx2 = Inr lx'"
          using 1(4) nb nl by (subst (asm) skip_trivia.simps) (auto split: sum.splits)
        from 1(3) [OF nb nl True b] show ?thesis using skip_block_rest [OF b(1)] by simp
      next
        case False
        then show ?thesis using 1(4) nb nl by (subst (asm) skip_trivia.simps) auto
      qed
    qed
  qed
qed

lemma lex_string_rest: "lex_string quote out lx = Inr (s, lx') \<Longrightarrow> length (lx_rest lx') < length (lx_rest lx)"
proof (induction quote out lx rule: lex_string.induct)
  case (1 quote out lx)
  from 1(4) have ne: "lx_rest lx \<noteq> []" by (subst (asm) lex_string.simps) (auto split: if_splits)
  then obtain b lx1 where b: "lex_bump lx = Inr (b, lx1)"
    using 1(4) by (subst (asm) lex_string.simps) (auto split: sum.splits prod.splits)
  note r = lex_bump_rest [OF b]
  show ?case
  proof (cases "b = quote")
    case True
    then show ?thesis using 1(4) ne b r by (subst (asm) lex_string.simps) auto
  next
    case q: False
    show ?thesis
    proof (cases "b = backslash")
      case bs: True
      then obtain e lx2 where e: "lex_bump lx1 = Inr (e, lx2)"
        using 1(4) ne b q by (subst (asm) lex_string.simps) (auto split: sum.splits prod.splits)
      note r2 = lex_bump_rest [OF e]
      show ?thesis
      proof (cases "simple_escape e")
        case (Some c)
        then have "lex_string quote (out @ [c]) lx2 = Inr (s, lx')"
          using 1(4) ne b q bs e by (subst (asm) lex_string.simps) auto
        from 1(2) [OF ne b refl q bs e refl Some this] show ?thesis using r r2 by simp
      next
        case None
        with 1(4) ne b q bs e have u: "e = CHR ''u''"
          by (subst (asm) lex_string.simps) (auto split: if_splits)
        then obtain code lx3 c where h: "hex_escape 4 0 lx2 = Inr (code, lx3)" "utf8_of_code code = Some c"
            "lex_string quote (out @ c) lx3 = Inr (s, lx')"
          using 1(4) ne b q bs e None by (subst (asm) lex_string.simps) (auto split: sum.splits prod.splits option.splits)
        from 1(1) [OF ne b refl q bs e refl None _ h(1) refl h(2,3)] u show ?thesis
          using r r2 hex_escape_rest [OF h(1)] by simp
      qed
    next
      case bs: False
      then obtain bs' lx2 where t: "take_bytes (utf8_len b - 1) lx1 = Inr (bs', lx2)" "utf8_char_ok (b # bs')"
          "lex_string quote (out @ b # bs') lx2 = Inr (s, lx')"
        using 1(4) ne b q by (subst (asm) lex_string.simps) (auto split: sum.splits prod.splits if_splits)
      from 1(3) [OF ne b refl q bs t(1) refl t(2,3)] show ?thesis using r take_bytes_rest [OF t(1)] by simp
    qed
  qed
qed

lemma take_chars_rest: "take_chars P lx = (s, lx') \<Longrightarrow> lx_rest lx = s @ lx_rest lx'"
proof (induction P lx arbitrary: s rule: take_chars.induct)
  case (1 P lx)
  show ?case
  proof (cases "lx_rest lx \<noteq> [] \<and> P (lex_peek lx)")
    case True
    obtain s' lx1 where t: "take_chars P (skip_char lx) = (s', lx1)" by fastforce
    from 1(2) True t have "s = lex_peek lx # s'" "lx' = lx1" by (subst (asm) take_chars.simps, simp)+
    with 1(1) [OF True] t True show ?thesis by (cases "lx_rest lx") (auto simp: lex_peek_def)
  next
    case False
    then show ?thesis using 1(2) by (subst (asm) take_chars.simps) auto
  qed
qed

lemma lex_number_rest: "lex_number b lx = Inr (t, lx') \<Longrightarrow> length (lx_rest lx') \<le> length (lx_rest lx)"
proof -
  assume n: "lex_number b lx = Inr (t, lx')"
  obtain ds lx1 where d: "take_chars is_ascii_digit lx = (ds, lx1)" by fastforce
  obtain es lx2 where e: "take_chars is_ascii_digit (skip_char lx1) = (es, lx2)" by fastforce
  have "lx' = lx1 \<or> lx' = lx2" using n by (auto simp: lex_number_def d e Let_def split: if_splits option.splits)
  then show ?thesis
    using arg_cong [OF take_chars_rest [OF d], of length] arg_cong [OF take_chars_rest [OF e], of length] by auto
qed

lemma next_token_rest: "next_token lx = Inr (t, lx') \<Longrightarrow> length (lx_rest lx') < length (lx_rest lx)"
proof -
  assume n: "next_token lx = Inr (t, lx')"
  then obtain b lx1 where b: "lex_bump lx = Inr (b, lx1)"
    by (auto simp: next_token_def split: sum.splits prod.splits)
  have "length (lx_rest lx') \<le> length (lx_rest lx1)"
    using n
    by (auto simp: next_token_def b lex_ident_def Let_def
        split: option.splits prod.splits if_splits sum.splits
        dest!: lex_string_rest lex_number_rest take_chars_rest)
  then show ?thesis using lex_bump_rest [OF b] by simp
qed

text \<open>\<open>tokenize\<close>; the tokens before are given in \<open>out\<close>.\<close>

function tokenize_from :: "lex_token list \<Rightarrow> lexer \<Rightarrow> lex_failure + lex_token list" where
  "tokenize_from out lx =
     (case skip_trivia lx of
        Inl e \<Rightarrow> Inl e
      | Inr lx1 \<Rightarrow>
          (let here = (\<lambda>t. \<lparr>lt_tok = t, lt_line = lx_line lx1, lt_col = lx_col lx1, lt_offset = lx_pos lx1\<rparr>)
           in if lx_rest lx1 = [] then Inr (out @ [here Eof])
              else
                case next_token lx1 of
                  Inl e \<Rightarrow> Inl e
                | Inr (t, lx2) \<Rightarrow> tokenize_from (out @ [here t]) lx2))"
  by pat_completeness auto
termination
  by (relation "measure (\<lambda>(_, lx). length (lx_rest lx))") (auto dest!: skip_trivia_rest next_token_rest)

declare tokenize_from.simps [simp del]

definition tokenize :: "string \<Rightarrow> lex_failure + lex_token list" where
  "tokenize src = tokenize_from [] (new_lexer src)"

end
