(* ===== verification/Parser.thy ===== *)
theory Parser
  imports Lexer
begin

text \<open>
  \<open>parser.rs\<close>: rulesets and expressions from tokens.  The cursor of \<open>Parser\<close> is kept as the
  tokens from it on, the last of which is never passed.  Expressions recurse on the depth the
  source limits; the loops take the tokens ahead as fuel, and \<open>Out_of_fuel\<close>, the answer without
  any, is never given (\<open>ParserProps\<close>).
\<close>

datatype parse_message =
    Lexical lex_message | Text string | Expected tok tok | Expected_identifier tok | Expected_key tok
  | Unexpected tok | Unknown_operation string

datatype parse_failure = Issue parse_message u32 u32 | Parse_panic | Out_of_fuel

record parser =
  ps_source :: string
  ps_tokens :: "lex_token list"

type_synonym 'a parse = "parser \<Rightarrow> parse_failure + 'a \<times> parser"

definition MAX_EXPR_DEPTH :: nat where "MAX_EXPR_DEPTH = 100"
definition MAX_MATCH_DEPTH :: nat where "MAX_MATCH_DEPTH = 10"

section \<open>The cursor\<close>

definition current_token :: "parser \<Rightarrow> lex_token" where
  "current_token st = hd (ps_tokens st)"

definition cur :: "parser \<Rightarrow> tok" where "cur st = lt_tok (current_token st)"

definition next_parser :: "parser \<Rightarrow> parser" where
  "next_parser st = (case ps_tokens st of _ # t # ts \<Rightarrow> st\<lparr>ps_tokens := t # ts\<rparr> | _ \<Rightarrow> st)"

definition issue :: "parser \<Rightarrow> parse_message \<Rightarrow> parse_failure" where
  "issue st message = Issue message (lt_line (current_token st)) (lt_col (current_token st))"

definition yields :: "'a \<Rightarrow> 'a parse" where "yields a st = Inr (a, st)"

definition fails :: "parse_message \<Rightarrow> 'a parse" where "fails message st = Inl (issue st message)"

definition quoted :: "string \<Rightarrow> string" where "quoted s = [CHR 0x27] @ s @ [CHR 0x27]"

definition and_parse :: "'a parse \<Rightarrow> ('a \<Rightarrow> 'b parse) \<Rightarrow> 'b parse" where
  "and_parse m f st = (case m st of Inl e \<Rightarrow> Inl e | Inr (a, st) \<Rightarrow> f a st)"

definition bump :: "tok parse" where "bump st = Inr (cur st, next_parser st)"

definition eat :: "tok \<Rightarrow> bool parse" where
  "eat t st = (if cur st = t then Inr (True, next_parser st) else Inr (False, st))"

definition expect :: "tok \<Rightarrow> unit parse" where
  "expect t st = (if cur st = t then Inr ((), next_parser st) else Inl (issue st (Expected t (cur st))))"

definition eat_ident :: "string \<Rightarrow> bool parse" where "eat_ident kw = eat (Ident kw)"

definition expect_ident :: "string parse" where
  "expect_ident st =
     (case cur st of
        Ident s \<Rightarrow> Inr (s, next_parser st)
      | other \<Rightarrow> Inl (issue st (Expected_identifier other)))"

section \<open>Paths\<close>

text \<open>The text of a path: up to a blank or a delimiter outside brackets.\<close>

fun path_extent :: "nat \<Rightarrow> string \<Rightarrow> string" where
  "path_extent depth [] = []"
| "path_extent depth (b # bs) =
     (if is_blank b \<or> b = CHR '','' \<or> b = CHR '';'' \<or> b = CHR '']''
      then (if depth = 0 then [] else b # path_extent depth bs)
      else if b = CHR ''('' \<or> b = CHR ''{'' then b # path_extent (depth + 1) bs
      else if b = CHR '')'' \<or> b = CHR ''}'' then (if depth = 0 then [] else b # path_extent (depth - 1) bs)
      else b # path_extent depth bs)"

fun resync :: "nat \<Rightarrow> lex_token list \<Rightarrow> lex_token list" where
  "resync i (t # t' # ts) = (if lt_offset t < i \<and> lt_tok t \<noteq> Eof then resync i (t' # ts) else t # t' # ts)"
| "resync i ts = ts"

definition scan_raw_path :: "string list parse" where
  "scan_raw_path st =
     (if cur st \<noteq> Slash then Inl (issue st (Text (''expected '' @ quoted ''/'')))
      else
        (let start = lt_offset (current_token st);
             text = path_extent 0 (drop start (ps_source st));
             st = st\<lparr>ps_tokens := resync (start + length text) (ps_tokens st)\<rparr>;
             segments = tl (split_on (CHR ''/'') text)
         in if [] \<in> set segments then Inl (issue st (Text ''empty path segment''))
            else Inr (segments, st)))"

definition splice_text :: "string \<Rightarrow> string option" where
  "splice_text seg = Option.bind (strip_prefix ''$('' seg) (strip_suffix '')'')"

text \<open>
  The parts of a path literal.  \<open>sub\<close> parses the text of a splice; the source reports its
  issues at the start of the path.
\<close>

fun path_parts :: "(string \<Rightarrow> parse_failure + expr) \<Rightarrow> u32 \<times> u32 \<Rightarrow> string list \<Rightarrow> parse_failure + expr path_part list" where
  "path_parts sub at [] = Inr []"
| "path_parts sub at (seg # segs) =
     (case splice_text seg of
        None \<Rightarrow> map_sum id ((#) (Static seg)) (path_parts sub at segs)
      | Some inner \<Rightarrow>
          (case sub inner of
             Inl (Issue m _ _) \<Rightarrow> Inl (Issue m (fst at) (snd at))
           | Inl e \<Rightarrow> Inl e
           | Inr e \<Rightarrow> map_sum id ((#) (Splice e)) (path_parts sub at segs)))"

definition path_literal :: "(string \<Rightarrow> parse_failure + expr) \<Rightarrow> expr parse" where
  "path_literal sub st =
     (let at = (lt_line (current_token st), lt_col (current_token st))
      in case scan_raw_path st of
           Inl e \<Rightarrow> Inl e
         | Inr (segments, st) \<Rightarrow> map_sum id (\<lambda>parts. (EPath parts, st)) (path_parts sub at segments))"

section \<open>Expressions\<close>

datatype infix_form = Binary_form bin_op | Ternary_form | Is_form

text \<open>The binding power of a token after an operand, with what it makes.\<close>

definition infix_of :: "tok \<Rightarrow> (nat \<times> infix_form) option" where
  "infix_of t =
     (case t of
        Question \<Rightarrow> Some (1, Ternary_form)
      | OrOr \<Rightarrow> Some (2, Binary_form Or)
      | AndAnd \<Rightarrow> Some (3, Binary_form And)
      | EqEq \<Rightarrow> Some (4, Binary_form Eq)
      | NotEq \<Rightarrow> Some (4, Binary_form Ne)
      | Lt_tok \<Rightarrow> Some (5, Binary_form Lt)
      | Le_tok \<Rightarrow> Some (5, Binary_form Le)
      | Gt_tok \<Rightarrow> Some (5, Binary_form Gt)
      | Ge_tok \<Rightarrow> Some (5, Binary_form Ge)
      | Ident s \<Rightarrow> if s = ''in'' then Some (5, Binary_form In) else if s = ''is'' then Some (5, Is_form) else None
      | Plus \<Rightarrow> Some (6, Binary_form Add)
      | Minus \<Rightarrow> Some (6, Binary_form Sub)
      | Star \<Rightarrow> Some (7, Binary_form Mul)
      | Slash \<Rightarrow> Some (7, Binary_form Div)
      | Percent \<Rightarrow> Some (7, Binary_form Mod)
      | _ \<Rightarrow> None)"

text \<open>A bound on the iterations of a loop that reads a token in each.\<close>

definition loop_fuel :: "parser \<Rightarrow> nat" where "loop_fuel st = length (ps_tokens st) + 1"

text \<open>
  The loops take the parser \<open>ex\<close> of the expressions in them, by their least binding power.
  \<open>items\<close> reads expressions up to a closing bracket, for list literals and call arguments;
  \<open>range_end\<close> is the part of a range after its colon.
\<close>

fun infix_loop :: "nat \<Rightarrow> (nat \<Rightarrow> expr parse) \<Rightarrow> nat \<Rightarrow> expr \<Rightarrow> expr parse" where
  "infix_loop 0 ex min_bp lhs st = Inl Out_of_fuel"
| "infix_loop (Suc n) ex min_bp lhs st =
     (case infix_of (cur st) of
        None \<Rightarrow> Inr (lhs, st)
      | Some (op_bp, form) \<Rightarrow>
          if op_bp < min_bp then Inr (lhs, st)
          else
            (case form of
               Binary_form op \<Rightarrow>
                 and_parse (ex (op_bp + 1)) (\<lambda>rhs. infix_loop n ex min_bp (EBinary op lhs rhs))
             | Ternary_form \<Rightarrow>
                 and_parse (ex 0) (\<lambda>then_e. and_parse (expect Colon) (\<lambda>_. and_parse (ex 1) (\<lambda>otherwise.
                 infix_loop n ex min_bp (ETernary lhs then_e otherwise))))
             | Is_form \<Rightarrow>
                 and_parse expect_ident (\<lambda>ty. infix_loop n ex min_bp (EIs lhs ty))) (next_parser st))"

fun more_items :: "nat \<Rightarrow> expr parse \<Rightarrow> tok \<Rightarrow> expr list parse" where
  "more_items 0 ex close st = Inl Out_of_fuel"
| "more_items (Suc n) ex close st =
     and_parse ex (\<lambda>e. and_parse (eat Comma) (\<lambda>again.
       if again then and_parse (more_items n ex close) (\<lambda>es. yields (e # es))
       else and_parse (expect close) (\<lambda>_. yields [e]))) st"

definition items :: "expr parse \<Rightarrow> tok \<Rightarrow> expr list parse" where
  "items ex close =
     and_parse (eat close) (\<lambda>closed. if closed then yields [] else (\<lambda>st. more_items (loop_fuel st) ex close st))"

definition map_key :: "string parse" where
  "map_key st =
     (case cur st of
        Str s \<Rightarrow> Inr (s, next_parser st)
      | Ident s \<Rightarrow> Inr (s, next_parser st)
      | other \<Rightarrow> Inl (issue (next_parser st) (Expected_key other)))"

fun map_entries :: "nat \<Rightarrow> expr parse \<Rightarrow> (string \<times> expr) list parse" where
  "map_entries 0 ex st = Inl Out_of_fuel"
| "map_entries (Suc n) ex st =
     and_parse map_key (\<lambda>key. and_parse (expect Colon) (\<lambda>_. and_parse ex (\<lambda>e. and_parse (eat Comma) (\<lambda>again.
       if again then and_parse (map_entries n ex) (\<lambda>es. yields ((key, e) # es))
       else and_parse (expect RBrace) (\<lambda>_. yields [(key, e)]))))) st"

definition map_literal :: "expr parse \<Rightarrow> (string \<times> expr) list parse" where
  "map_literal ex =
     and_parse (eat RBrace) (\<lambda>closed. if closed then yields [] else (\<lambda>st. map_entries (loop_fuel st) ex st))"

definition range_end :: "expr parse \<Rightarrow> expr option parse" where
  "range_end ex st =
     (if cur st = RBracket then and_parse (expect RBracket) (\<lambda>_. yields None)
      else and_parse ex (\<lambda>e. and_parse (expect RBracket) (\<lambda>_. yields (Some e)))) st"

text \<open>What follows a \<open>[\<close>: an index or a range.\<close>

definition bracket :: "expr parse \<Rightarrow> expr \<Rightarrow> expr parse" where
  "bracket ex e =
     and_parse (eat Colon) (\<lambda>open_range.
       if open_range then and_parse (range_end ex) (\<lambda>hi. yields (ERange e None hi))
       else
         and_parse ex (\<lambda>lo. and_parse (eat Colon) (\<lambda>is_range.
           if is_range then and_parse (range_end ex) (\<lambda>hi. yields (ERange e (Some lo) hi))
           else and_parse (expect RBracket) (\<lambda>_. yields (EIndex e lo)))))"

text \<open>What follows a dot: a member or a call of a method.\<close>

definition dotted :: "expr parse \<Rightarrow> expr \<Rightarrow> expr parse" where
  "dotted ex e =
     and_parse expect_ident (\<lambda>name. and_parse (eat LParen) (\<lambda>called.
       if called then and_parse (items ex RParen) (\<lambda>es. yields (ECall (Some e) name es))
       else yields (EMember e name)))"

fun postfix_loop :: "nat \<Rightarrow> expr parse \<Rightarrow> expr \<Rightarrow> expr parse" where
  "postfix_loop 0 ex e st = Inl Out_of_fuel"
| "postfix_loop (Suc n) ex e st =
     (if cur st = Dot then and_parse (dotted ex e) (postfix_loop n ex) (next_parser st)
      else if cur st = LBracket then and_parse (bracket ex e) (postfix_loop n ex) (next_parser st)
      else Inr (e, st))"

text \<open>An expression that starts with a name.\<close>

definition named :: "expr parse \<Rightarrow> string \<Rightarrow> expr parse" where
  "named ex name =
     (if name = ''true'' then yields (EBool True)
      else if name = ''false'' then yields (EBool False)
      else if name = ''null'' then yields ENull
      else and_parse (eat LParen) (\<lambda>called.
        if called then and_parse (items ex RParen) (\<lambda>es. yields (ECall None name es))
        else yields (EIdent name)))"

definition primary :: "(string \<Rightarrow> parse_failure + expr) \<Rightarrow> (nat \<Rightarrow> expr parse) \<Rightarrow> expr parse" where
  "primary sub ex st =
     (case cur st of
        Not_tok \<Rightarrow> and_parse (ex 8) (\<lambda>e. yields (EUnary NotOp e)) (next_parser st)
      | Minus \<Rightarrow> and_parse (ex 8) (\<lambda>e. yields (EUnary NegOp e)) (next_parser st)
      | Slash \<Rightarrow> path_literal sub st
      | IntLit i \<Rightarrow> Inr (EInt i, next_parser st)
      | FloatLit x \<Rightarrow> Inr (EFloat x, next_parser st)
      | Str s \<Rightarrow> Inr (EStr s, next_parser st)
      | LParen \<Rightarrow> and_parse (ex 0) (\<lambda>e. and_parse (expect RParen) (\<lambda>_. yields e)) (next_parser st)
      | LBracket \<Rightarrow> and_parse (items (ex 0) RBracket) (\<lambda>es. yields (EList es)) (next_parser st)
      | LBrace \<Rightarrow> and_parse (map_literal (ex 0)) (\<lambda>es. yields (EMap es)) (next_parser st)
      | Ident name \<Rightarrow> named (ex 0) name (next_parser st)
      | other \<Rightarrow> Inl (issue st (Unexpected other)))"

definition prefix_expr :: "(string \<Rightarrow> parse_failure + expr) \<Rightarrow> (nat \<Rightarrow> expr parse) \<Rightarrow> expr parse" where
  "prefix_expr sub ex = and_parse (primary sub ex) (\<lambda>e st. postfix_loop (loop_fuel st) (ex 0) e st)"

text \<open>
  \<open>expr\<close>, with the levels of nesting that are left of \<open>MAX_EXPR_DEPTH\<close>, on which it recurses.
\<close>

fun parse_expr :: "nat \<Rightarrow> (string \<Rightarrow> parse_failure + expr) \<Rightarrow> nat \<Rightarrow> expr parse" where
  "parse_expr 0 sub min_bp st = Inl (issue st (Text ''expression too complex''))"
| "parse_expr (Suc k) sub min_bp st =
     and_parse (prefix_expr sub (parse_expr k sub))
       (\<lambda>e st. infix_loop (loop_fuel st) (parse_expr k sub) min_bp e st) st"

definition lexed :: "string \<Rightarrow> parse_failure + parser" where
  "lexed source =
     (case tokenize source of
        Inl (Lex_error m l c) \<Rightarrow> Inl (Issue (Lexical m) l c)
      | Inl Lex_panic \<Rightarrow> Inl Parse_panic
      | Inr tokens \<Rightarrow> Inr \<lparr>ps_source = source, ps_tokens = tokens\<rparr>)"

text \<open>
  \<open>parse_expression\<close>, which calls itself through the splices of paths.  The text of a splice is
  shorter than the source it is in, whose length is the fuel.
\<close>

fun parse_expression_at :: "nat \<Rightarrow> string \<Rightarrow> parse_failure + expr" where
  "parse_expression_at 0 source = Inl Out_of_fuel"
| "parse_expression_at (Suc k) source =
     (case lexed source of
        Inl e \<Rightarrow> Inl e
      | Inr st \<Rightarrow>
          (case parse_expr MAX_EXPR_DEPTH (parse_expression_at k) 0 st of
             Inl e \<Rightarrow> Inl e
           | Inr (e, st) \<Rightarrow> if cur st \<noteq> Eof then Inl (issue st (Text ''trailing input after expression'')) else Inr e))"

definition parse_expression :: "string \<Rightarrow> parse_failure + expr" where
  "parse_expression source = parse_expression_at (length source + 1) source"

section \<open>Rulesets\<close>

text \<open>An expression of a statement, where no other is open.\<close>

definition rule_expr :: "expr parse" where
  "rule_expr st = parse_expr MAX_EXPR_DEPTH parse_expression 0 st"

fun match_segs :: "rules_version \<Rightarrow> nat \<Rightarrow> nat \<Rightarrow> bool \<Rightarrow> string list \<Rightarrow> parse_message + match_seg list" where
  "match_segs version len i glob_seen [] = Inr []"
| "match_segs version len i glob_seen (seg # segs) =
     (case Option.bind (strip_prefix ''{'' seg) (strip_suffix ''}'') of
        None \<Rightarrow> map_sum id ((#) (Literal seg)) (match_segs version len (i + 1) glob_seen segs)
      | Some inner \<Rightarrow>
          (case strip_suffix ''=**'' inner of
             None \<Rightarrow> map_sum id ((#) (Capture inner)) (match_segs version len (i + 1) glob_seen segs)
           | Some name \<Rightarrow>
               if glob_seen then Inl (Text ''only one recursive wildcard is permitted'')
               else if version = V1 \<and> i \<noteq> len - 1 then
                 Inl (Text ''recursive wildcards must be the last path segment in rules_version 1'')
               else map_sum id ((#) (Glob name)) (match_segs version len (i + 1) True segs)))"

definition match_path :: "rules_version \<Rightarrow> match_seg list parse" where
  "match_path version st =
     (case scan_raw_path st of
        Inl e \<Rightarrow> Inl e
      | Inr (raw, st) \<Rightarrow>
          (case match_segs version (length raw) 0 False raw of
             Inl m \<Rightarrow> Inl (issue st m)
           | Inr segments \<Rightarrow>
               if segments = [] then Inl (issue st (Text ''empty match path'')) else Inr (segments, st)))"

text \<open>The identifiers after a first one, each behind a separator: methods, and the parts of a service name.\<close>

fun more_idents :: "nat \<Rightarrow> tok \<Rightarrow> string list parse" where
  "more_idents 0 sep st = Inl Out_of_fuel"
| "more_idents (Suc n) sep st =
     and_parse (eat sep) (\<lambda>again.
       if again then
         and_parse expect_ident (\<lambda>s. and_parse (more_idents n sep) (\<lambda>ss. yields (s # ss)))
       else yields []) st"

definition known_methods :: "string list" where
  "known_methods = [''read'', ''write'', ''get'', ''list'', ''create'', ''update'', ''delete'']"

definition allow_condition :: "expr parse" where
  "allow_condition =
     and_parse (eat Colon) (\<lambda>conditional.
       if conditional then
         and_parse (eat_ident ''if'') (\<lambda>found.
           if found then rule_expr else fails (Text (''expected '' @ quoted ''if'')))
       else yields (EBool True))"

definition parse_allow :: "allow_rule parse" where
  "parse_allow st =
     and_parse bump (\<lambda>_. and_parse expect_ident (\<lambda>m.
       and_parse (\<lambda>st. more_idents (loop_fuel st) Comma st) (\<lambda>ms.
         case find (\<lambda>m. m \<notin> set known_methods) (m # ms) of
           Some unknown \<Rightarrow> fails (Unknown_operation unknown)
         | None \<Rightarrow>
             and_parse allow_condition (\<lambda>condition. and_parse (expect Semi) (\<lambda>_.
               yields \<lparr>al_methods = m # ms, al_condition = condition, al_line = lt_line (current_token st)\<rparr>))))) st"

fun param_loop :: "nat \<Rightarrow> string list parse" where
  "param_loop 0 st = Inl Out_of_fuel"
| "param_loop (Suc n) st =
     and_parse expect_ident (\<lambda>p. and_parse (eat Comma) (\<lambda>again.
       if again then and_parse (param_loop n) (\<lambda>ps. yields (p # ps))
       else and_parse (expect RParen) (\<lambda>_. yields [p]))) st"

fun let_loop :: "nat \<Rightarrow> (string \<times> expr) list parse" where
  "let_loop 0 st = Inl Out_of_fuel"
| "let_loop (Suc n) st =
     and_parse (eat_ident ''let'') (\<lambda>again.
       if again then
         and_parse expect_ident (\<lambda>x. and_parse (expect Assign) (\<lambda>_. and_parse rule_expr (\<lambda>e.
         and_parse (expect Semi) (\<lambda>_. and_parse (let_loop n) (\<lambda>lets. yields ((x, e) # lets))))))
       else yields []) st"

text \<open>The block of a function, up to its brace, and its parameters.\<close>

definition function_body :: "string \<Rightarrow> string list \<Rightarrow> function_decl parse" where
  "function_body name params =
     and_parse (\<lambda>st. let_loop (loop_fuel st) st) (\<lambda>lets. and_parse (eat_ident ''return'') (\<lambda>found.
       if \<not> found then fails (Text (''expected '' @ quoted ''return''))
       else
         and_parse rule_expr (\<lambda>body. and_parse (expect Semi) (\<lambda>_. and_parse (expect RBrace) (\<lambda>_.
         yields \<lparr>fd_name = name, fd_params = params, fd_lets = lets, fd_body = body\<rparr>)))))"

definition param_list :: "string list parse" where
  "param_list =
     and_parse (eat RParen) (\<lambda>closed. if closed then yields [] else (\<lambda>st. param_loop (loop_fuel st) st))"

definition parse_function :: "function_decl parse" where
  "parse_function =
     and_parse bump (\<lambda>_. and_parse expect_ident (\<lambda>name. and_parse (expect LParen) (\<lambda>_.
     and_parse param_list (\<lambda>params. and_parse (expect LBrace) (\<lambda>_. function_body name params)))))"

text \<open>The statements of a block, in order of their kinds.\<close>

record block =
  bl_functions :: "function_decl list"
  bl_allows :: "allow_rule list"
  bl_children :: "match_rule list"

definition empty_block :: block where
  "empty_block = \<lparr>bl_functions = [], bl_allows = [], bl_children = []\<rparr>"

fun match_rule_at :: "nat \<Rightarrow> rules_version \<Rightarrow> nat \<Rightarrow> match_rule parse"
  and match_body :: "nat \<Rightarrow> rules_version \<Rightarrow> nat \<Rightarrow> block \<Rightarrow> block parse"
where
  "match_rule_at 0 version depth st = Inl Out_of_fuel"
| "match_rule_at (Suc n) version depth st =
     (if MAX_MATCH_DEPTH < depth then Inl (issue st (Text ''match statements nested too deeply''))
      else
        and_parse bump (\<lambda>_. and_parse (match_path version) (\<lambda>path. and_parse (expect LBrace) (\<lambda>_.
        and_parse (match_body n version depth empty_block) (\<lambda>b.
        yields (MatchRule path (bl_functions b) (bl_allows b) (bl_children b)))))) st)"
| "match_body 0 version depth b st = Inl Out_of_fuel"
| "match_body (Suc n) version depth b st =
     and_parse (eat RBrace) (\<lambda>closed.
       if closed then yields b
       else (\<lambda>st.
         (if cur st = Ident ''function'' then
            and_parse parse_function (\<lambda>f. match_body n version depth (b\<lparr>bl_functions := bl_functions b @ [f]\<rparr>))
          else if cur st = Ident ''match'' then
            and_parse (match_rule_at n version (depth + 1)) (\<lambda>r.
              match_body n version depth (b\<lparr>bl_children := bl_children b @ [r]\<rparr>))
          else if cur st = Ident ''allow'' then
            and_parse parse_allow (\<lambda>a. match_body n version depth (b\<lparr>bl_allows := bl_allows b @ [a]\<rparr>))
          else fails (Text (''expected '' @ quoted ''allow'' @ '', '' @ quoted ''match'' @ '' or '' @ quoted ''function''))) st)) st"

definition match_rule :: "rules_version \<Rightarrow> match_rule parse" where
  "match_rule version st = match_rule_at (2 * length (ps_tokens st) + 2) version 1 st"

fun service_body :: "nat \<Rightarrow> rules_version \<Rightarrow> function_decl list \<Rightarrow> match_rule list \<Rightarrow> (function_decl list \<times> match_rule list) parse" where
  "service_body 0 version fs ms st = Inl Out_of_fuel"
| "service_body (Suc n) version fs ms st =
     and_parse (eat RBrace) (\<lambda>closed.
       if closed then yields (fs, ms)
       else (\<lambda>st.
         (if cur st = Ident ''function'' then and_parse parse_function (\<lambda>f. service_body n version (fs @ [f]) ms)
          else if cur st = Ident ''match'' then and_parse (match_rule version) (\<lambda>r. service_body n version fs (ms @ [r]))
          else fails (Text (''expected '' @ quoted ''match'' @ '' or '' @ quoted ''function''))) st)) st"

text \<open>One service: its dotted name and its block.\<close>

definition parse_service :: "rules_version \<Rightarrow> service_rules parse" where
  "parse_service version =
     and_parse (eat_ident ''service'') (\<lambda>found.
       if \<not> found then fails (Text (''expected '' @ quoted ''service''))
       else
         and_parse expect_ident (\<lambda>first. and_parse (\<lambda>st. more_idents (loop_fuel st) Dot st) (\<lambda>rest.
         and_parse (expect LBrace) (\<lambda>_. and_parse (\<lambda>st. service_body (loop_fuel st) version [] [] st) (\<lambda>(fs, ms).
         yields \<lparr>sr_name = join ''.'' (first # rest), sr_functions = fs, sr_matches = ms\<rparr>)))))"

fun services :: "nat \<Rightarrow> rules_version \<Rightarrow> service_rules list parse" where
  "services 0 version st = Inl Out_of_fuel"
| "services (Suc n) version st =
     (if cur st = Eof then Inr ([], st)
      else and_parse (parse_service version) (\<lambda>s. and_parse (services n version) (\<lambda>ss. yields (s # ss))) st)"

definition parse_version :: "rules_version parse" where
  "parse_version =
     and_parse (eat_ident ''rules_version'') (\<lambda>given.
       if given then
         and_parse (expect Assign) (\<lambda>_. and_parse bump (\<lambda>t.
           and_parse
             (case t of
                Str v \<Rightarrow>
                  (if v = ''1'' then yields V1 else if v = ''2'' then yields V2
                   else fails (Text ''unsupported rules_version''))
              | _ \<Rightarrow> fails (Text ''unsupported rules_version'')) (\<lambda>version.
           and_parse (expect Semi) (\<lambda>_. yields version))))
       else yields V1)"

definition parse_ruleset :: "ruleset parse" where
  "parse_ruleset =
     and_parse parse_version (\<lambda>version. and_parse (\<lambda>st. services (loop_fuel st) version st) (\<lambda>ss.
     yields \<lparr>rs_version = version, rs_services = ss\<rparr>))"

definition parse_rules :: "string \<Rightarrow> parse_failure + ruleset" where
  "parse_rules source =
     (case lexed source of Inl e \<Rightarrow> Inl e | Inr st \<Rightarrow> map_sum id fst (parse_ruleset st))"

end
