(* ===== verification/Rest.thy ===== *)
theory Rest
  imports Service Parser Functions
begin

text \<open>
  \<open>rest.rs\<close>: HTTP requests as calls of the service, the endpoints of an administrator, and errors
  as HTTP answers.  Transcoding between JSON and messages is of other crates and a parameter;
  headers of answers but the content are left out, as are the endpoints of identities.
\<close>

section \<open>Codes\<close>

datatype grpc_code =
    Code_ok | Code_cancelled | Code_unknown | Code_invalid_argument | Code_deadline_exceeded | Code_not_found
  | Code_already_exists | Code_permission_denied | Code_resource_exhausted | Code_failed_precondition | Code_aborted
  | Code_out_of_range | Code_unimplemented | Code_internal | Code_unavailable | Code_data_loss | Code_unauthenticated

definition http_code :: "grpc_code \<Rightarrow> nat \<times> string" where
  "http_code code =
     (case code of
        Code_ok \<Rightarrow> (200, ''OK'')
      | Code_invalid_argument \<Rightarrow> (400, ''INVALID_ARGUMENT'')
      | Code_failed_precondition \<Rightarrow> (400, ''FAILED_PRECONDITION'')
      | Code_out_of_range \<Rightarrow> (400, ''OUT_OF_RANGE'')
      | Code_unauthenticated \<Rightarrow> (401, ''UNAUTHENTICATED'')
      | Code_permission_denied \<Rightarrow> (403, ''PERMISSION_DENIED'')
      | Code_not_found \<Rightarrow> (404, ''NOT_FOUND'')
      | Code_aborted \<Rightarrow> (409, ''ABORTED'')
      | Code_already_exists \<Rightarrow> (409, ''ALREADY_EXISTS'')
      | Code_resource_exhausted \<Rightarrow> (429, ''RESOURCE_EXHAUSTED'')
      | Code_cancelled \<Rightarrow> (499, ''CANCELLED'')
      | Code_data_loss \<Rightarrow> (500, ''DATA_LOSS'')
      | Code_unknown \<Rightarrow> (500, ''UNKNOWN'')
      | Code_internal \<Rightarrow> (500, ''INTERNAL'')
      | Code_unimplemented \<Rightarrow> (501, ''UNIMPLEMENTED'')
      | Code_unavailable \<Rightarrow> (503, ''UNAVAILABLE'')
      | Code_deadline_exceeded \<Rightarrow> (504, ''DEADLINE_EXCEEDED''))"

definition status_code :: "status \<Rightarrow> grpc_code \<times> string" where
  "status_code status =
     (case status of
        Unauthenticated_status m \<Rightarrow> (Code_unauthenticated, m)
      | Invalid_argument m \<Rightarrow> (Code_invalid_argument, m)
      | Permission_denied m \<Rightarrow> (Code_permission_denied, m)
      | Unavailable m \<Rightarrow> (Code_unavailable, m)
      | Internal m \<Rightarrow> (Code_internal, m)
      | Not_found m \<Rightarrow> (Code_not_found, m)
      | Already_exists m \<Rightarrow> (Code_already_exists, m)
      | Aborted_status m \<Rightarrow> (Code_aborted, m)
      | Failed_precondition m \<Rightarrow> (Code_failed_precondition, m)
      | Unimplemented_status m \<Rightarrow> (Code_unimplemented, m))"

section \<open>Answers\<close>

text \<open>A body is a text or the object of an error, by code, message and name; a handler that panics gives none.\<close>

datatype http_body = Text_body string | Error_body nat string string | Panicked

record http_response =
  hr_code :: nat
  hr_session :: "string option"
  hr_body :: http_body

definition text_response :: "nat \<Rightarrow> string \<Rightarrow> http_response" where
  "text_response code body = \<lparr>hr_code = code, hr_session = None, hr_body = Text_body body\<rparr>"

definition code_response :: "grpc_code \<Rightarrow> string \<Rightarrow> http_response" where
  "code_response code message =
     (let (http, name) = http_code code in \<lparr>hr_code = http, hr_session = None, hr_body = Error_body http message name\<rparr>)"

definition status_response :: "status \<Rightarrow> http_response" where
  "status_response status = (let (code, message) = status_code status in code_response code message)"

section \<open>The service over HTTP\<close>

record transcoder =
  jt_commit :: "string \<Rightarrow> status + commit_request"
  jt_batch_get :: "string \<Rightarrow> status + batch_get_request"
  jt_run_query :: "string \<Rightarrow> status + query_request"
  jt_aggregation :: "string \<Rightarrow> status + aggregation_request"
  jt_begin :: "string \<Rightarrow> status + transaction_options option"
  jt_rollback :: "string \<Rightarrow> status + token"
  jt_commit_answer :: "commit_response \<Rightarrow> status + string"
  jt_batch_get_answer :: "batch_get_response \<Rightarrow> status + string"
  jt_query_answer :: "query_response \<Rightarrow> status + string"
  jt_aggregation_answer :: "(string \<times> fvalue) list \<times> timestamp \<Rightarrow> status + string"
  jt_begin_answer :: "token \<Rightarrow> status + string"
  jt_json :: "string \<Rightarrow> string + json"
  jt_triggers :: "string \<Rightarrow> string + trigger_spec list"
  jt_issue :: "parse_failure \<Rightarrow> string"

definition rsplit_once :: "char \<Rightarrow> string \<Rightarrow> (string \<times> string) option" where
  "rsplit_once c s = map_option (\<lambda>(b, a). (rev a, rev b)) (split_once c (rev s))"

definition database_of :: "string \<Rightarrow> status + string" where
  "database_of resource =
     (case strip_suffix ''/documents'' resource of
        None \<Rightarrow> Inl (Invalid_argument ''expected {database}/documents resource'')
      | Some d \<Rightarrow> Inr d)"

definition known :: "status + 'a \<Rightarrow> ('k, 'd, 'a) handler" where
  "known r = (case r of Inl e \<Rightarrow> refuse e | Inr a \<Rightarrow> answer a)"

fun rendered :: "('a \<Rightarrow> status + string) \<Rightarrow> 'a list \<Rightarrow> status + string list" where
  "rendered render [] = Inr []"
| "rendered render (a # as) =
     (case render a of
        Inl e \<Rightarrow> Inl e
      | Inr text \<Rightarrow> map_sum id ((#) text) (rendered render as))"

definition collect_json :: "('a \<Rightarrow> status + string) \<Rightarrow> 'a list \<Rightarrow> status + string" where
  "collect_json render answers = map_sum id (\<lambda>parts. ''['' @ join '','' parts @ '']'') (rendered render answers)"

text \<open>\<open>{method:?}\<close> is the method with quotes, as these names need no escapes.\<close>

definition dispatch ::
  "('k, 'd, 's) service \<Rightarrow> transcoder \<Rightarrow> string \<Rightarrow> string \<Rightarrow> string option \<Rightarrow> (string \<Rightarrow> string) \<Rightarrow> ('k, 'd, string) handler" where
  "dispatch sv tc path body header debug =
     (case rsplit_once CHR '':'' path of
        None \<Rightarrow> refuse (Not_found ''unknown REST path'')
      | Some (resource, method_name) \<Rightarrow>
          (let body = (if body = [] then ''{}'' else body)
           in if method_name = ''commit'' then
                and_then (known (jt_commit tc body)) (\<lambda>req.
                and_then (known (database_of resource)) (\<lambda>database.
                and_then (commit sv header (req\<lparr>mq_database := database\<rparr>)) (\<lambda>resp.
                known (jt_commit_answer tc resp))))
              else if method_name = ''batchGet'' then
                and_then (known (jt_batch_get tc body)) (\<lambda>req.
                and_then (known (database_of resource)) (\<lambda>database.
                and_then (batch_get_documents sv header (req\<lparr>bq_database := database\<rparr>)) (\<lambda>answers.
                known (collect_json (jt_batch_get_answer tc) answers))))
              else if method_name = ''runQuery'' then
                and_then (known (jt_run_query tc body)) (\<lambda>req.
                and_then (run_query_call sv header (req\<lparr>rq_parent := resource\<rparr>)) (\<lambda>answers.
                known (collect_json (jt_query_answer tc) answers)))
              else if method_name = ''runAggregationQuery'' then
                and_then (known (jt_aggregation tc body)) (\<lambda>req.
                and_then (run_aggregation_query sv (req\<lparr>aq_parent := resource\<rparr>)) (\<lambda>item.
                known (collect_json (jt_aggregation_answer tc) [item])))
              else if method_name = ''beginTransaction'' then
                and_then (known (jt_begin tc body)) (\<lambda>options.
                and_then (known (database_of resource)) (\<lambda>database.
                and_then (begin_transaction_call sv database options) (\<lambda>token.
                known (jt_begin_answer tc token))))
              else if method_name = ''rollback'' then
                and_then (known (jt_rollback tc body)) (\<lambda>token.
                and_then (known (database_of resource)) (\<lambda>database.
                and_then (rollback_call token) (\<lambda>_. answer ''{}'')))
              else refuse (Not_found (''unknown REST method '' @ debug method_name))))"

text \<open>\<open>v1_post\<close> but for the two paths of the identity endpoints.\<close>

definition identity_path :: "string \<Rightarrow> bool" where
  "identity_path path \<longleftrightarrow> path = ''accounts:signInWithCustomToken'' \<or> path = ''token''"

definition v1_post ::
  "('k, 'd, 's) service \<Rightarrow> transcoder \<Rightarrow> (string \<Rightarrow> ('k, 'd) server \<Rightarrow> http_response \<times> ('k, 'd) server)
     \<Rightarrow> string \<Rightarrow> string \<Rightarrow> string option \<Rightarrow> (string \<Rightarrow> string) \<Rightarrow> ('k, 'd) server \<Rightarrow> http_response \<times> ('k, 'd) server" where
  "v1_post sv tc identity path body header debug st =
     (if identity_path path then identity path st
      else case dispatch sv tc path body header debug st of
          (Inr text, st) \<Rightarrow> (text_response 200 text, st)
        | (Inl status, st) \<Rightarrow> (status_response status, st))"

section \<open>The endpoints of an administrator\<close>

definition require_admin :: "('k, 'd, 's) service \<Rightarrow> string option \<Rightarrow> string \<Rightarrow> ('k, 'd, unit) handler" where
  "require_admin sv header project st =
     (if \<not> guards_admin_api (sv_policy sv) then (Inr (), st)
      else case authorized sv header st of
          (Inr auth, st) \<Rightarrow>
            (case for_project project auth of
               Admin _ \<Rightarrow> (Inr (), st)
             | _ \<Rightarrow> (Inl (Permission_denied ''admin credentials required for this endpoint''), st))
        | (Inl _, st) \<Rightarrow> (Inl (Permission_denied ''admin credentials required for this endpoint''), st))"

function trim_end_matches :: "string \<Rightarrow> string \<Rightarrow> string" where
  "trim_end_matches suffix s =
     (if suffix = [] then s
      else case strip_suffix suffix s of None \<Rightarrow> s | Some t \<Rightarrow> trim_end_matches suffix t)"
  by pat_completeness auto
termination by (relation "measure (\<lambda>(suffix, s). length s)") (auto simp: strip_suffix_Some)

declare trim_end_matches.simps [simp del]

definition json_get :: "string \<Rightarrow> json \<Rightarrow> json option" where
  "json_get name j = (case j of JObject m \<Rightarrow> map_of m name | _ \<Rightarrow> None)"

text \<open>\<open>pointer("/rules/files/0/content")\<close>; an object with the member \<open>0\<close> is looked into as well.\<close>

definition rules_content :: "json \<Rightarrow> string" where
  "rules_content j =
     (case Option.bind (json_get ''rules'' j) (json_get ''files'') of
        None \<Rightarrow> []
      | Some files \<Rightarrow>
          (case (case files of JArray (first # _) \<Rightarrow> Some first | _ \<Rightarrow> json_get ''0'' files) of
             None \<Rightarrow> []
           | Some first_file \<Rightarrow> (case json_get ''content'' first_file of Some (JString source) \<Rightarrow> source | _ \<Rightarrow> [])))"

definition set_security_rules ::
  "('k, 'd, 's) service \<Rightarrow> transcoder \<Rightarrow> string \<Rightarrow> string option \<Rightarrow> string \<Rightarrow> ('k, 'd) server
     \<Rightarrow> http_response \<times> registry \<times> ('k, 'd) server" where
  "set_security_rules sv tc path_text header body st =
     (let project = trim_end_matches '':securityRules'' path_text; registry = sv_registry sv
      in case require_admin sv header project st of
           (Inl status, st) \<Rightarrow> (status_response status, registry, st)
         | (Inr _, st) \<Rightarrow>
             (case jt_json tc body of
                Inl e \<Rightarrow> (status_response (Invalid_argument (''invalid JSON: '' @ e)), registry, st)
              | Inr json_body \<Rightarrow>
                  (case parse_rules (rules_content json_body) of
                     Inl (Issue m line col) \<Rightarrow>
                       (status_response (Invalid_argument (''Error compiling rules:'' @ [CHR 0x0A] @ jt_issue tc (Issue m line col))),
                        registry, st)
                   | Inl _ \<Rightarrow> (\<lparr>hr_code = 500, hr_session = None, hr_body = Panicked\<rparr>, registry, st)
                   | Inr rules \<Rightarrow>
                       (text_response 200 ''{}'',
                        registry_set \<lparr>project_id = project, database_id = ''(default)''\<rparr> rules registry, st))))"

definition set_triggers ::
  "('k, 'd, 's) service \<Rightarrow> transcoder \<Rightarrow> trigger list \<Rightarrow> string \<Rightarrow> string option \<Rightarrow> string \<Rightarrow> ('k, 'd) server
     \<Rightarrow> http_response \<times> trigger list \<times> ('k, 'd) server" where
  "set_triggers sv tc triggers project header body st =
     (case require_admin sv header project st of
        (Inl status, st) \<Rightarrow> (status_response status, triggers, st)
      | (Inr _, st) \<Rightarrow>
          (case jt_triggers tc body of
             Inl e \<Rightarrow> (status_response (Invalid_argument (''invalid triggers: '' @ e)), triggers, st)
           | Inr specs \<Rightarrow>
               (text_response 200 (''{'' @ [CHR 0x22] @ ''registered'' @ [CHR 0x22] @ '':'' @ show_nat (length specs) @ ''}''),
                replace_triggers specs, st)))"

definition clear_data ::
  "('k, 'd, 's) service \<Rightarrow> (database_name \<Rightarrow> 'd \<Rightarrow> (engine_error + unit) \<times> 'd) \<Rightarrow> string \<Rightarrow> string \<Rightarrow> string option
     \<Rightarrow> ('k, 'd) server \<Rightarrow> http_response \<times> ('k, 'd) server" where
  "clear_data sv clear_database project database_text header st =
     (case require_admin sv header project st of
        (Inl status, st) \<Rightarrow> (status_response status, st)
      | (Inr _, st) \<Rightarrow>
          (case on_driver (\<lambda>d. let (r, d) = clear_database \<lparr>project_id = project, database_id = database_text\<rparr> d
                              in (map_sum (\<lambda>e. Internal (rc_error_text (sv_context sv) e)) id r, d)) st of
             (Inr _, st) \<Rightarrow> (text_response 200 ''{}'', st)
           | (Inl status, st) \<Rightarrow> (status_response status, st)))"

end
