(* ===== verification/ParserRuns.thy ===== *)
theory ParserRuns
  imports Parser
begin

text \<open>
  The parser ends: no loop runs out of fuel, since every iteration passes a token and the last
  token is the end of input.
\<close>

section \<open>Runs of a parser\<close>

definition ahead :: "parser \<Rightarrow> nat" where "ahead st = length (ps_tokens st)"

definition ended :: "lex_token list \<Rightarrow> bool" where
  "ended ts \<longleftrightarrow> ts \<noteq> [] \<and> lt_tok (last ts) = Eof"

definition ok :: "string \<Rightarrow> parser \<Rightarrow> bool" where
  "ok src st \<longleftrightarrow> ended (ps_tokens st) \<and> ps_source st = src"

text \<open>It answers, and leaves at most \<open>k\<close> tokens.\<close>

definition runs :: "string \<Rightarrow> nat \<Rightarrow> 'a parse \<Rightarrow> parser \<Rightarrow> bool" where
  "runs src k m st \<longleftrightarrow> (case m st of Inl e \<Rightarrow> e \<noteq> Out_of_fuel | Inr (_, st') \<Rightarrow> ok src st' \<and> ahead st' \<le> k)"

lemma runsI:
  assumes "m st \<noteq> Inl Out_of_fuel" "\<And>a st'. m st = Inr (a, st') \<Longrightarrow> ok src st' \<and> ahead st' \<le> k"
  shows "runs src k m st"
  using assms by (auto simp: runs_def split: sum.split)

lemma runs_mono: "runs src j m st \<Longrightarrow> j \<le> k \<Longrightarrow> runs src k m st"
  by (auto simp: runs_def split: sum.splits)

lemma runs_and_parse:
  assumes "runs src j m st" "\<And>a st'. ok src st' \<Longrightarrow> ahead st' \<le> j \<Longrightarrow> runs src k (f a) st'"
  shows "runs src k (and_parse m f) st"
proof (cases "m st")
  case (Inl e)
  then show ?thesis using assms(1) by (simp add: runs_def and_parse_def)
next
  case (Inr p)
  obtain a st' where p: "p = (a, st')" by (cases p)
  then have "ok src st'" "ahead st' \<le> j" using assms(1) Inr by (simp_all add: runs_def)
  from assms(2) [OF this, of a] show ?thesis using Inr p by (simp add: runs_def and_parse_def)
qed

lemma next_parser_ok: "ok src st \<Longrightarrow> ok src (next_parser st)"
  by (auto simp: ok_def ended_def next_parser_def split: list.split)

lemma next_parser_ahead: "ahead (next_parser st) \<le> ahead st"
  by (auto simp: ahead_def next_parser_def split: list.split)

lemma next_parser_less: "ok src st \<Longrightarrow> cur st \<noteq> Eof \<Longrightarrow> ahead (next_parser st) < ahead st"
  by (cases "ps_tokens st" rule: remdups_adj.cases)
    (auto simp: ok_def ended_def next_parser_def cur_def current_token_def ahead_def)

lemma ahead_pos: "ok src st \<Longrightarrow> 0 < ahead st"
  by (auto simp: ok_def ended_def ahead_def)

lemma next_parser_lt: "ahead st' < ahead (next_parser st) \<Longrightarrow> ahead st' < ahead st"
  using next_parser_ahead less_le_trans by blast

lemma runs_cong: "m st = m' st' \<Longrightarrow> runs src k m' st' \<Longrightarrow> runs src k m st"
  by (simp add: runs_def)

lemma next_parser_le: "ahead st' \<le> ahead (next_parser st) \<Longrightarrow> ahead st' \<le> ahead st"
  using next_parser_ahead le_trans by blast

lemma loop_fuel_ahead: "loop_fuel st = ahead st + 1"
  by (simp add: loop_fuel_def ahead_def)

lemma runs_yields [simp]: "runs src k (yields a) st \<longleftrightarrow> ok src st \<and> ahead st \<le> k"
  by (simp add: runs_def yields_def)

lemma runs_fails [simp]: "runs src k (fails m) st"
  by (simp add: runs_def fails_def issue_def)

lemma runs_bind_fails [simp]: "runs src k (and_parse (fails m) f) st"
  by (simp add: runs_def fails_def and_parse_def issue_def)

lemma runs_bind_yields: "runs src k (f a) st \<Longrightarrow> runs src k (and_parse (yields a) f) st"
  by (simp add: runs_def yields_def and_parse_def)

lemma runs_issue: "m st = Inl (issue st' msg) \<Longrightarrow> runs src k m st"
  by (simp add: runs_def issue_def)

lemma and_parse_eat:
  "and_parse (eat t) f st = (if cur st = t then f True (next_parser st) else f False st)"
  by (simp add: and_parse_def eat_def)

lemma and_parse_bump: "and_parse bump f st = f (cur st) (next_parser st)"
  by (simp add: and_parse_def bump_def)

lemma runs_bind_eat:
  assumes "cur st = t \<Longrightarrow> runs src k (f True) (next_parser st)" "cur st \<noteq> t \<Longrightarrow> runs src k (f False) st"
  shows "runs src k (and_parse (eat t) f) st"
  using assms by (simp add: runs_def and_parse_eat)

lemma runs_bind_bump: "runs src k (f (cur st)) (next_parser st) \<Longrightarrow> runs src k (and_parse bump f) st"
  by (simp add: runs_def and_parse_bump)

lemma runs_expect: "ok src st \<Longrightarrow> t \<noteq> Eof \<Longrightarrow> runs src (ahead st - 1) (expect t) st"
  using next_parser_less [of src st] next_parser_ok [of src st]
  by (auto simp: runs_def expect_def issue_def)

lemma runs_expect_ident: "ok src st \<Longrightarrow> runs src (ahead st - 1) expect_ident st"
  using next_parser_less [of src st] next_parser_ok [of src st]
  by (auto simp: runs_def expect_ident_def issue_def split: tok.split)

text \<open>Where the number of tokens left is not of interest.\<close>

lemma runs_bind_expect:
  assumes "ok src st" "t \<noteq> Eof" "\<And>st'. ok src st' \<Longrightarrow> ahead st' < ahead st \<Longrightarrow> runs src k (f ()) st'"
  shows "runs src k (and_parse (expect t) f) st"
  by (rule runs_and_parse [OF runs_expect [OF assms(1,2)]])
    (use assms(3) ahead_pos [OF assms(1)] in auto)

lemma runs_bind_expect_ident:
  assumes "ok src st" "\<And>s st'. ok src st' \<Longrightarrow> ahead st' < ahead st \<Longrightarrow> runs src k (f s) st'"
  shows "runs src k (and_parse expect_ident f) st"
  by (rule runs_and_parse [OF runs_expect_ident [OF assms(1)]])
    (use assms(2) ahead_pos [OF assms(1)] in auto)

section \<open>The loops of expressions\<close>

locale expr_parser =
  fixes src :: string and ex :: "nat \<Rightarrow> expr parse"
  assumes ex_runs: "ok src st \<Longrightarrow> runs src (ahead st) (ex bp) st"
begin

lemma bind_ex:
  assumes "ok src st" "\<And>e st'. ok src st' \<Longrightarrow> ahead st' \<le> ahead st \<Longrightarrow> runs src k (f e) st'"
  shows "runs src k (and_parse (ex bp) f) st"
  by (rule runs_and_parse [OF ex_runs [OF assms(1)]]) (use assms(2) in auto)

lemmas binds = bind_ex runs_bind_expect runs_bind_expect_ident

lemma infix_loop_runs:
  "ok src st \<Longrightarrow> ahead st \<le> n \<Longrightarrow> ahead st \<le> k \<Longrightarrow> runs src k (infix_loop n ex q lhs) st"
proof (induction n arbitrary: lhs st)
  case 0
  then show ?case using ahead_pos [of src st] by simp
next
  case (Suc n)
  show ?case
  proof (cases "infix_of (cur st)")
    case None
    then show ?thesis using Suc.prems by (simp add: runs_def)
  next
    case (Some p)
    then have "cur st \<noteq> Eof" by (auto simp: infix_of_def)
    note less = next_parser_less [OF Suc.prems(1) this] and ok = next_parser_ok [OF Suc.prems(1)]
    obtain bp form where p: "p = (bp, form)" by (cases p)
    show ?thesis
    proof (cases "bp < q")
      case True
      then show ?thesis using Suc.prems Some p by (simp add: runs_def)
    next
      case False
      have "runs src k
          (case form of
             Binary_form op \<Rightarrow> and_parse (ex (bp + 1)) (\<lambda>rhs. infix_loop n ex q (EBinary op lhs rhs))
           | Ternary_form \<Rightarrow> and_parse (ex 0) (\<lambda>then_e. and_parse (expect Colon) (\<lambda>_. and_parse (ex 1) (\<lambda>otherwise.
               infix_loop n ex q (ETernary lhs then_e otherwise))))
           | Is_form \<Rightarrow> and_parse expect_ident (\<lambda>ty. infix_loop n ex q (EIs lhs ty))) (next_parser st)"
        using less ok Suc.prems(2,3) by (cases form) (auto intro!: binds Suc.IH)
      then show ?thesis using Some p False by (simp add: runs_def)
    qed
  qed
qed

lemma more_items_runs:
  "ok src st \<Longrightarrow> close \<noteq> Eof \<Longrightarrow> ahead st \<le> n \<Longrightarrow> ahead st \<le> k \<Longrightarrow> runs src k (more_items n (ex 0) close) st"
proof (induction n arbitrary: st k)
  case 0
  then show ?case using ahead_pos [of src st] by simp
next
  case (Suc n)
  have IH: "ok src st' \<Longrightarrow> ahead st' \<le> ahead st \<Longrightarrow> cur st' = Comma \<Longrightarrow>
      runs src k (and_parse (more_items n (ex 0) close) (\<lambda>es. yields (e # es))) (next_parser st')" for st' e
    using next_parser_less [of src st'] next_parser_ok [of src st'] Suc.prems
    by (intro runs_and_parse [OF Suc.IH [of "next_parser st'" k]]) auto
  have "runs src k
      (and_parse (ex 0) (\<lambda>e. and_parse (eat Comma) (\<lambda>again.
         if again then and_parse (more_items n (ex 0) close) (\<lambda>es. yields (e # es))
         else and_parse (expect close) (\<lambda>_. yields [e])))) st"
    using Suc.prems IH by (auto intro!: binds runs_bind_eat)
  then show ?case by (simp add: runs_def)
qed

lemma more_items_fueled:
  "ok src st \<Longrightarrow> close \<noteq> Eof \<Longrightarrow> ahead st \<le> k \<Longrightarrow> runs src k (\<lambda>st. more_items (loop_fuel st) (ex 0) close st) st"
  using more_items_runs [of st close "loop_fuel st" k] by (simp add: runs_def loop_fuel_ahead)

lemma items_runs: "ok src st \<Longrightarrow> close \<noteq> Eof \<Longrightarrow> ahead st \<le> k \<Longrightarrow> runs src k (items (ex 0) close) st"
  unfolding items_def
  using next_parser_ok [of src st] next_parser_ahead [of st]
  by (intro runs_bind_eat) (auto intro!: more_items_fueled)

lemma map_entries_runs:
  "ok src st \<Longrightarrow> ahead st \<le> n \<Longrightarrow> ahead st \<le> k \<Longrightarrow> runs src k (map_entries n (ex 0)) st"
proof (induction n arbitrary: st k)
  case 0
  then show ?case using ahead_pos [of src st] by simp
next
  case (Suc n)
  have key: "runs src (ahead st) map_key st"
    using next_parser_ok [OF Suc.prems(1)] next_parser_ahead [of st]
    by (auto simp: runs_def map_key_def issue_def split: tok.split)
  have IH: "ok src st' \<Longrightarrow> ahead st' \<le> ahead st \<Longrightarrow> cur st' = Comma \<Longrightarrow>
      runs src k (and_parse (map_entries n (ex 0)) (\<lambda>es. yields (e # es))) (next_parser st')" for st' e
    using next_parser_less [of src st'] next_parser_ok [of src st'] Suc.prems
    by (intro runs_and_parse [OF Suc.IH [of "next_parser st'" k]]) auto
  have "runs src k
      (and_parse map_key (\<lambda>key. and_parse (expect Colon) (\<lambda>_. and_parse (ex 0) (\<lambda>e. and_parse (eat Comma) (\<lambda>again.
       if again then and_parse (map_entries n (ex 0)) (\<lambda>es. yields ((key, e) # es))
       else and_parse (expect RBrace) (\<lambda>_. yields [(key, e)])))))) st"
    using Suc.prems IH by (auto intro!: runs_and_parse [OF key] binds runs_bind_eat)
  then show ?case by (simp add: runs_def)
qed

lemma map_entries_fueled:
  "ok src st \<Longrightarrow> ahead st \<le> k \<Longrightarrow> runs src k (\<lambda>st. map_entries (loop_fuel st) (ex 0) st) st"
  using map_entries_runs [of st "loop_fuel st" k] by (simp add: runs_def loop_fuel_ahead)

lemma map_literal_runs: "ok src st \<Longrightarrow> ahead st \<le> k \<Longrightarrow> runs src k (map_literal (ex 0)) st"
  unfolding map_literal_def
  using next_parser_ok [of src st] next_parser_ahead [of st]
  by (intro runs_bind_eat) (auto intro!: map_entries_fueled)

lemma range_end_runs: "ok src st \<Longrightarrow> ahead st \<le> k \<Longrightarrow> runs src k (range_end (ex 0)) st"
  by (rule runs_cong [OF range_end_def]) (auto intro!: binds)

lemma bind_range_end:
  assumes "ok src st" "\<And>e st'. ok src st' \<Longrightarrow> ahead st' \<le> ahead st \<Longrightarrow> runs src k (f e) st'"
  shows "runs src k (and_parse (range_end (ex 0)) f) st"
  by (rule runs_and_parse [OF range_end_runs [OF assms(1) order_refl]]) (use assms(2) in auto)

lemma bind_items:
  assumes "ok src st" "close \<noteq> Eof" "\<And>e st'. ok src st' \<Longrightarrow> ahead st' \<le> ahead st \<Longrightarrow> runs src k (f e) st'"
  shows "runs src k (and_parse (items (ex 0) close) f) st"
  by (rule runs_and_parse [OF items_runs [OF assms(1,2) order_refl]]) (use assms(3) in auto)

lemma bracket_runs: "ok src st \<Longrightarrow> ahead st \<le> k \<Longrightarrow> runs src k (bracket (ex 0) e) st"
  unfolding bracket_def
  by (auto intro!: runs_bind_eat binds bind_range_end next_parser_ok dest!: next_parser_le)

lemma dotted_runs: "ok src st \<Longrightarrow> ahead st \<le> k \<Longrightarrow> runs src k (dotted (ex 0) e) st"
  unfolding dotted_def
  by (auto intro!: runs_bind_eat binds bind_items next_parser_ok dest!: next_parser_le intro: le_trans [OF next_parser_ahead])

lemma postfix_loop_runs:
  "ok src st \<Longrightarrow> ahead st \<le> n \<Longrightarrow> ahead st \<le> k \<Longrightarrow> runs src k (postfix_loop n (ex 0) e) st"
proof (induction n arbitrary: e st)
  case 0
  then show ?case using ahead_pos [of src st] by simp
next
  case (Suc n)
  have step: "runs src k (and_parse m (postfix_loop n (ex 0))) (next_parser st)"
    if "runs src (ahead (next_parser st)) m (next_parser st)" "cur st \<noteq> Eof" for m
    using next_parser_less [OF Suc.prems(1) that(2)] Suc.prems(2,3)
    by (intro runs_and_parse [OF that(1)] Suc.IH) auto
  show ?case
    using Suc.prems step [OF dotted_runs] step [OF bracket_runs] next_parser_ok [OF Suc.prems(1)]
    by (cases "cur st = Dot"; cases "cur st = LBracket") (auto simp: runs_def)
qed

lemma bind_ex8:
  assumes "ok src st"
  shows "runs src (ahead st) (and_parse (ex bp) (\<lambda>e. yields (f e))) st"
  using assms by (auto intro!: binds)

lemma named_runs: "ok src st \<Longrightarrow> ahead st \<le> k \<Longrightarrow> runs src k (named (ex 0) name) st"
  unfolding named_def
  by (auto intro!: runs_bind_eat bind_items next_parser_ok dest!: next_parser_le intro: le_trans [OF next_parser_ahead])

end

section \<open>Paths\<close>

lemma resync_ended: "ended ts \<Longrightarrow> ended (resync i ts) \<and> length (resync i ts) \<le> length ts"
proof (induction i ts rule: resync.induct)
  case (1 i t t' ts)
  then show ?case by (auto simp: ended_def)
qed auto

lemma path_extent_length: "length (path_extent d s) \<le> length s"
  by (induction d s rule: path_extent.induct) auto

lemma split_on_length: "seg \<in> set (split_on c s) \<Longrightarrow> length seg \<le> length s"
proof (induction s arbitrary: seg)
  case (Cons x xs)
  show ?case
  proof (cases "split_on c xs")
    case (Cons y ys)
    with Cons.prems Cons.IH [of seg] Cons.IH [of y] show ?thesis by (auto split: if_splits)
  qed simp
qed simp

lemma scan_raw_path_runs: "ok src st \<Longrightarrow> ahead st \<le> k \<Longrightarrow> runs src k scan_raw_path st"
  using resync_ended [of "ps_tokens st"]
  by (auto simp: runs_def scan_raw_path_def issue_def Let_def ok_def ahead_def intro: le_trans)

lemma scan_raw_path_segments:
  assumes "scan_raw_path st = Inr (segments, st')" "seg \<in> set segments"
  shows "length seg \<le> length (ps_source st)"
proof -
  let ?text = "path_extent 0 (drop (lt_offset (current_token st)) (ps_source st))"
  have "seg \<in> set (split_on CHR ''/'' ?text)"
    using assms by (auto simp: scan_raw_path_def Let_def split: if_splits intro: list.set_sel(2))
  from split_on_length [OF this] show ?thesis
    using path_extent_length [of 0 "drop (lt_offset (current_token st)) (ps_source st)"] by simp
qed

text \<open>The splices shorter than a source answer.\<close>

definition splices :: "string \<Rightarrow> (string \<Rightarrow> parse_failure + expr) \<Rightarrow> bool" where
  "splices src sub \<longleftrightarrow> (\<forall>s. length s < length src \<longrightarrow> sub s \<noteq> Inl Out_of_fuel)"

lemma path_parts_fueled:
  assumes "splices src sub" "\<forall>seg \<in> set segs. length seg \<le> length src"
  shows "path_parts sub at segs \<noteq> Inl Out_of_fuel"
  using assms(2)
proof (induction segs)
  case (Cons seg segs)
  have rest: "map_sum id f (path_parts sub at segs) \<noteq> Inl Out_of_fuel" for f :: "expr path_part list \<Rightarrow> expr path_part list"
    using Cons by (cases "path_parts sub at segs") auto
  show ?case
  proof (cases "splice_text seg")
    case None
    then show ?thesis using rest by simp
  next
    case (Some inner)
    then have "length inner < length seg"
      by (auto simp: splice_text_def strip_prefix_Some strip_suffix_Some bind_eq_Some_conv)
    then have "sub inner \<noteq> Inl Out_of_fuel" using assms(1) Cons.prems by (simp add: splices_def)
    then show ?thesis using Some rest by (auto split: sum.split parse_failure.split)
  qed
qed simp

lemma path_literal_runs:
  assumes "splices src sub" "ok src st" "ahead st \<le> k"
  shows "runs src k (path_literal sub) st"
proof (cases "scan_raw_path st")
  case (Inl e)
  then show ?thesis using scan_raw_path_runs [OF assms(2,3)] by (simp add: runs_def path_literal_def)
next
  case (Inr p)
  obtain segs st' where p: "p = (segs, st')" by (cases p)
  have "\<forall>seg \<in> set segs. length seg \<le> length src"
    using scan_raw_path_segments [of st segs st'] Inr p assms(2) by (simp add: ok_def)
  note parts = path_parts_fueled [OF assms(1) this]
  show ?thesis
    using scan_raw_path_runs [OF assms(2,3)] Inr p parts
    by (cases "path_parts sub (lt_line (current_token st), lt_col (current_token st)) segs")
      (auto simp: runs_def path_literal_def Let_def)
qed

context expr_parser begin

lemma primary_runs:
  assumes "splices src sub" "ok src st"
  shows "runs src (ahead st) (primary sub ex) st"
proof -
  note ok = next_parser_ok [OF assms(2)] and le = next_parser_ahead [of st]
  have one: "runs src (ahead st) (and_parse (ex bp) (\<lambda>e. yields (f e))) (next_parser st)" for bp and f :: "expr \<Rightarrow> expr"
    using ok le by (auto intro!: binds)
  have "runs src (ahead st) (and_parse (ex 0) (\<lambda>e. and_parse (expect RParen) (\<lambda>_. yields e))) (next_parser st)"
    using ok le by (auto intro!: binds)
  moreover have "runs src (ahead st) (and_parse (items (ex 0) RBracket) (\<lambda>es. yields (EList es))) (next_parser st)"
    using ok le by (auto intro!: bind_items)
  moreover have "runs src (ahead st) (and_parse (map_literal (ex 0)) (\<lambda>es. yields (EMap es))) (next_parser st)"
    by (rule runs_and_parse [OF map_literal_runs [OF ok order_refl]]) (use le in auto)
  moreover note one [of 8 "EUnary NotOp"] one [of 8 "EUnary NegOp"] named_runs [OF ok le] path_literal_runs [OF assms order_refl]
  ultimately show ?thesis
    using ok le by (cases "cur st") (auto simp: primary_def runs_def issue_def)
qed

lemma prefix_expr_runs:
  assumes "splices src sub" "ok src st"
  shows "runs src (ahead st) (prefix_expr sub ex) st"
  unfolding prefix_expr_def
proof (rule runs_and_parse [OF primary_runs [OF assms]])
  fix e st'
  assume a: "ok src st'" "ahead st' \<le> ahead st"
  show "runs src (ahead st) (\<lambda>st. postfix_loop (loop_fuel st) (ex 0) e st) st'"
    using postfix_loop_runs [OF a(1), of "loop_fuel st'" "ahead st" e] a(2) by (simp add: runs_def loop_fuel_ahead)
qed

text \<open>One level of nesting more.\<close>

lemma level_runs:
  assumes "splices src sub" "ok src st"
  shows "runs src (ahead st) (and_parse (prefix_expr sub ex) (\<lambda>e st. infix_loop (loop_fuel st) ex bp e st)) st"
proof (rule runs_and_parse [OF prefix_expr_runs [OF assms]])
  fix e st'
  assume a: "ok src st'" "ahead st' \<le> ahead st"
  show "runs src (ahead st) (\<lambda>st. infix_loop (loop_fuel st) ex bp e st) st'"
    using infix_loop_runs [OF a(1), of "loop_fuel st'" "ahead st" bp e] a(2) by (simp add: runs_def loop_fuel_ahead)
qed

end

lemma parse_expr_locale: "splices src sub \<Longrightarrow> expr_parser src (parse_expr k sub)"
proof (induction k)
  case 0
  show ?case by (unfold_locales) (simp add: runs_def issue_def)
next
  case (Suc k)
  from Suc have "expr_parser src (parse_expr k sub)" by simp
  from expr_parser.level_runs [OF this Suc.prems] show ?case
    by (unfold_locales) (simp add: runs_def)
qed

section \<open>Standalone expressions\<close>

lemma lexed_ok: "lexed source = Inr st \<Longrightarrow> ok source st"
proof -
  assume l: "lexed source = Inr st"
  have "tokenize_from out lx = Inr ts \<Longrightarrow> ended ts" for out lx ts
  proof (induction out lx arbitrary: ts rule: tokenize_from.induct)
    case (1 out lx)
    from 1(2) obtain lx1 where s: "skip_trivia lx = Inr lx1" by (subst (asm) tokenize_from.simps) (auto split: sum.splits)
    show ?case
    proof (cases "lx_rest lx1 = []")
      case True
      then show ?thesis using 1(2) s by (subst (asm) tokenize_from.simps) (auto simp: Let_def ended_def)
    next
      case False
      with 1(2) s obtain t lx2 where n: "next_token lx1 = Inr (t, lx2)"
          "tokenize_from (out @ [\<lparr>lt_tok = t, lt_line = lx_line lx1, lt_col = lx_col lx1, lt_offset = lx_pos lx1\<rparr>]) lx2 = Inr ts"
        by (subst (asm) tokenize_from.simps) (auto simp: Let_def split: sum.splits prod.splits)
      from 1(1) [OF s refl False n(1) refl n(2)] show ?thesis .
    qed
  qed
  then show ?thesis using l
    by (auto simp: lexed_def tokenize_def ok_def split: sum.splits lex_failure.splits)
qed

lemma lexed_fueled: "lexed source \<noteq> Inl Out_of_fuel"
  by (auto simp: lexed_def split: sum.splits lex_failure.splits)

lemma parse_expression_at_fueled: "length source < k \<Longrightarrow> parse_expression_at k source \<noteq> Inl Out_of_fuel"
proof (induction k arbitrary: source)
  case (Suc k)
  show ?case
  proof (cases "lexed source")
    case (Inl e)
    then show ?thesis using lexed_fueled [of source] by auto
  next
    case (Inr st)
    have "splices source (parse_expression_at k)" using Suc by (simp add: splices_def)
    from expr_parser.ex_runs [OF parse_expr_locale [OF this, of MAX_EXPR_DEPTH] lexed_ok [OF Inr], of 0]
    show ?thesis using Inr by (auto simp: runs_def issue_def split: sum.splits)
  qed
qed simp

lemma parse_expression_fueled: "parse_expression source \<noteq> Inl Out_of_fuel"
  unfolding parse_expression_def by (rule parse_expression_at_fueled) simp

lemma rule_splices: "splices src parse_expression"
  by (simp add: splices_def parse_expression_fueled)

interpretation rx: expr_parser src "parse_expr MAX_EXPR_DEPTH parse_expression" for src
  by (rule parse_expr_locale [OF rule_splices])

section \<open>Statements\<close>

lemma rule_expr_runs: "ok src st \<Longrightarrow> runs src (ahead st) rule_expr st"
  using rx.ex_runs [of src st 0] by (simp add: runs_def rule_expr_def)

lemma bind_rule_expr:
  assumes "ok src st" "\<And>e st'. ok src st' \<Longrightarrow> ahead st' \<le> ahead st \<Longrightarrow> runs src k (f e) st'"
  shows "runs src k (and_parse rule_expr f) st"
  by (rule runs_and_parse [OF rule_expr_runs [OF assms(1)]]) (use assms(2) in auto)

lemmas stmt_binds = bind_rule_expr runs_bind_expect runs_bind_expect_ident

text \<open>A token that is passed leaves fewer ahead.\<close>

lemma runs_bind_eat_less:
  assumes "ok src st" "t \<noteq> Eof"
    "\<And>st'. ok src st' \<Longrightarrow> ahead st' < ahead st \<Longrightarrow> runs src k (f True) st'" "runs src k (f False) st"
  shows "runs src k (and_parse (eat t) f) st"
  using assms next_parser_ok [of src st] next_parser_less [of src st] by (auto intro!: runs_bind_eat)

lemma more_idents_runs:
  "ok src st \<Longrightarrow> sep \<noteq> Eof \<Longrightarrow> ahead st \<le> n \<Longrightarrow> runs src (ahead st) (more_idents n sep) st"
proof (induction n arbitrary: st)
  case 0
  then show ?case using ahead_pos [of src st] by simp
next
  case (Suc n)
  have loop: "runs src (ahead st) (and_parse (more_idents n sep) (\<lambda>ss. yields (s # ss))) st'"
    if "ok src st'" "ahead st' < ahead st" for s st'
    by (rule runs_and_parse [OF Suc.IH]) (use that Suc.prems in auto)
  show ?case
    by (rule runs_cong [OF more_idents.simps(2)])
      (use Suc.prems loop in \<open>auto intro!: runs_bind_eat_less stmt_binds\<close>)
qed

lemma param_loop_runs: "ok src st \<Longrightarrow> ahead st \<le> n \<Longrightarrow> runs src (ahead st) (param_loop n) st"
proof (induction n arbitrary: st)
  case 0
  then show ?case using ahead_pos [of src st] by simp
next
  case (Suc n)
  have loop: "runs src (ahead st) (and_parse (param_loop n) (\<lambda>ps. yields (p # ps))) st'"
    if "ok src st'" "ahead st' < ahead st" for p st'
    by (rule runs_and_parse [OF Suc.IH]) (use that Suc.prems in auto)
  show ?case
    by (rule runs_cong [OF param_loop.simps(2)])
      (use Suc.prems loop in \<open>auto intro!: runs_bind_eat_less stmt_binds\<close>)
qed

lemma let_loop_runs: "ok src st \<Longrightarrow> ahead st \<le> n \<Longrightarrow> runs src (ahead st) (let_loop n) st"
proof (induction n arbitrary: st)
  case 0
  then show ?case using ahead_pos [of src st] by simp
next
  case (Suc n)
  have loop: "runs src (ahead st) (and_parse (let_loop n) (\<lambda>ls. yields (l # ls))) st'"
    if "ok src st'" "ahead st' < ahead st" for l st'
    by (rule runs_and_parse [OF Suc.IH]) (use that Suc.prems in auto)
  show ?case
    by (rule runs_cong [OF let_loop.simps(2)])
      (use Suc.prems loop in \<open>auto intro!: runs_bind_eat_less stmt_binds simp: eat_ident_def\<close>)
qed

text \<open>The loops with the fuel they are started with.\<close>

lemma fueled:
  assumes "ok src st"
  shows "sep \<noteq> Eof \<Longrightarrow> runs src (ahead st) (\<lambda>st. more_idents (loop_fuel st) sep st) st"
    "runs src (ahead st) (\<lambda>st. param_loop (loop_fuel st) st) st"
    "runs src (ahead st) (\<lambda>st. let_loop (loop_fuel st) st) st"
  using more_idents_runs [OF assms, of sep "loop_fuel st"] param_loop_runs [OF assms, of "loop_fuel st"]
    let_loop_runs [OF assms, of "loop_fuel st"]
  by (simp_all add: runs_def loop_fuel_ahead)

lemma match_path_runs: "ok src st \<Longrightarrow> runs src (ahead st) (match_path version) st"
  using scan_raw_path_runs [of src st "ahead st"]
  by (auto simp: runs_def match_path_def issue_def split: sum.splits)

lemma allow_condition_runs: "ok src st \<Longrightarrow> runs src (ahead st) allow_condition st"
  unfolding allow_condition_def
  by (auto intro!: runs_bind_eat_less runs_mono [OF rule_expr_runs] simp: eat_ident_def)

lemma parse_allow_runs:
  assumes "ok src st" "cur st \<noteq> Eof"
  shows "runs src (ahead st - 1) parse_allow st"
proof (rule runs_cong [OF parse_allow_def], rule runs_bind_bump, rule runs_bind_expect_ident [OF next_parser_ok [OF assms(1)]])
  note less = next_parser_less [OF assms]
  fix m st1
  assume s1: "ok src st1" "ahead st1 < ahead (next_parser st)"
  let ?tail = "\<lambda>m ms. and_parse allow_condition (\<lambda>condition. and_parse (expect Semi) (\<lambda>_.
    yields \<lparr>al_methods = m # ms, al_condition = condition, al_line = lt_line (current_token st)\<rparr>))"
  have tail: "runs src (ahead st - 1) (?tail m ms) st2" if "ok src st2" "ahead st2 \<le> ahead st1" for ms st2
    by (rule runs_and_parse [OF allow_condition_runs [OF that(1)]])
      (use that s1 less in \<open>auto intro!: stmt_binds\<close>)
  show "runs src (ahead st - 1)
      (and_parse (\<lambda>st. more_idents (loop_fuel st) Comma st) (\<lambda>ms.
         case find (\<lambda>m. m \<notin> set known_methods) (m # ms) of
           Some unknown \<Rightarrow> fails (Unknown_operation unknown)
         | None \<Rightarrow> ?tail m ms)) st1"
    by (rule runs_and_parse [OF fueled(1) [OF s1(1)]]) (use tail in \<open>auto split: option.split\<close>)
qed

lemma function_body_runs: "ok src st \<Longrightarrow> runs src (ahead st) (function_body name params) st"
  unfolding function_body_def
  by (rule runs_and_parse [OF fueled(3)]) (auto intro!: runs_bind_eat_less stmt_binds simp: eat_ident_def)

lemma param_list_runs: "ok src st \<Longrightarrow> runs src (ahead st) param_list st"
  unfolding param_list_def
  by (auto intro!: runs_bind_eat_less fueled(2))

lemma parse_function_runs:
  assumes "ok src st" "cur st \<noteq> Eof"
  shows "runs src (ahead st - 1) parse_function st"
  unfolding parse_function_def
proof (rule runs_bind_bump, rule runs_bind_expect_ident [OF next_parser_ok [OF assms(1)]], rule runs_bind_expect)
  note less = next_parser_less [OF assms]
  fix name st1 st2
  assume s1: "ok src st1" "ahead st1 < ahead (next_parser st)"
  then show "ok src st1" "LParen \<noteq> Eof" by simp_all
  assume s2: "ok src st2" "ahead st2 < ahead st1"
  have body: "runs src (ahead st - 1) (and_parse (expect LBrace) (\<lambda>_. function_body name params)) st'"
    if "ok src st'" "ahead st' \<le> ahead st2" for params st'
    using that s1 s2 less by (auto intro!: runs_bind_expect runs_mono [OF function_body_runs])
  show "runs src (ahead st - 1)
      (and_parse param_list (\<lambda>params. and_parse (expect LBrace) (\<lambda>_. function_body name params))) st2"
    by (rule runs_and_parse [OF param_list_runs [OF s2(1)] body])
qed

section \<open>Blocks and rulesets\<close>

text \<open>A match block takes two units of fuel for each token.\<close>

lemma match_runs:
  "ok src st \<Longrightarrow> cur st \<noteq> Eof \<Longrightarrow> 2 * ahead st < n \<Longrightarrow> runs src (ahead st - 1) (match_rule_at n version depth) st"
  "ok src st \<Longrightarrow> 2 * ahead st + 1 < n \<Longrightarrow> runs src (ahead st) (match_body n version depth b) st"
proof (induction n arbitrary: st depth b)
  case (Suc n)
  {
    case 1
    note less = next_parser_less [OF 1(1,2)]
    have body: "runs src (ahead st - 1) (and_parse (match_body n version depth empty_block) (\<lambda>b.
        yields (MatchRule path (bl_functions b) (bl_allows b) (bl_children b)))) st'"
      if "ok src st'" "ahead st' < ahead st" for path st'
      by (rule runs_and_parse [OF Suc.IH(2)]) (use that 1 in auto)
    have "runs src (ahead st - 1)
        (and_parse bump (\<lambda>_. and_parse (match_path version) (\<lambda>path. and_parse (expect LBrace) (\<lambda>_.
         and_parse (match_body n version depth empty_block) (\<lambda>b.
         yields (MatchRule path (bl_functions b) (bl_allows b) (bl_children b))))))) st"
      by (rule runs_bind_bump, rule runs_and_parse [OF match_path_runs [OF next_parser_ok [OF 1(1)]]])
        (use less in \<open>auto intro!: runs_bind_expect body simp del: One_nat_def\<close>)
    then show ?case by (auto simp: runs_def issue_def)
  next
    case 2
    have next_stmt: "runs src (ahead st) (and_parse m (\<lambda>x. match_body n version depth (f x))) st'"
      if "ok src st'" "ahead st' \<le> ahead st" "runs src (ahead st' - 1) m st'" for f st' and m :: "'b parse"
      by (rule runs_and_parse [OF that(3) runs_mono [OF Suc.IH(2)]]) (use that 2 ahead_pos [OF that(1)] in auto)
    have match_rule: "runs src (ahead st' - 1) (match_rule_at n version (depth + 1)) st'"
      if "ok src st'" "ahead st' \<le> ahead st" "cur st' \<noteq> Eof" for st'
      by (rule Suc.IH(1)) (use that 2 in auto)
    let ?stmts = "(\<lambda>st.
         (if cur st = Ident ''function'' then
            and_parse parse_function (\<lambda>f. match_body n version depth (b\<lparr>bl_functions := bl_functions b @ [f]\<rparr>))
          else if cur st = Ident ''match'' then
            and_parse (match_rule_at n version (depth + 1)) (\<lambda>r.
              match_body n version depth (b\<lparr>bl_children := bl_children b @ [r]\<rparr>))
          else if cur st = Ident ''allow'' then
            and_parse parse_allow (\<lambda>a. match_body n version depth (b\<lparr>bl_allows := bl_allows b @ [a]\<rparr>))
          else fails (Text (''expected '' @ quoted ''allow'' @ '', '' @ quoted ''match'' @ '' or '' @ quoted ''function''))) st)"
    have stmts: "runs src (ahead st) ?stmts st'"
      if "ok src st'" "ahead st' \<le> ahead st" for st'
      using next_stmt [OF that parse_function_runs [OF that(1)], of "\<lambda>f. b\<lparr>bl_functions := bl_functions b @ [f]\<rparr>"]
        next_stmt [OF that match_rule [OF that], of "\<lambda>r. b\<lparr>bl_children := bl_children b @ [r]\<rparr>"]
        next_stmt [OF that parse_allow_runs [OF that(1)], of "\<lambda>a. b\<lparr>bl_allows := bl_allows b @ [a]\<rparr>"]
      by (auto simp: runs_def fails_def issue_def)
    have "runs src (ahead st) (and_parse (eat RBrace) (\<lambda>closed. if closed then yields b else ?stmts)) st"
    proof (rule runs_bind_eat_less [OF 2(1)], goal_cases)
      case (2 st')
      then show ?case by simp
    next
      case 3
      show ?case unfolding if_False by (rule stmts [OF \<open>ok src st\<close> order_refl])
    qed simp
    then show ?case by (simp only: runs_def match_body.simps)
  }
qed auto

lemma match_rule_runs: "ok src st \<Longrightarrow> cur st \<noteq> Eof \<Longrightarrow> runs src (ahead st - 1) (match_rule version) st"
  using match_runs(1) [of src st "2 * length (ps_tokens st) + 2" version 1]
  by (simp add: runs_def match_rule_def ahead_def)

lemma service_body_runs: "ok src st \<Longrightarrow> ahead st \<le> n \<Longrightarrow> runs src (ahead st) (service_body n version fs ms) st"
proof (induction n arbitrary: st fs ms)
  case 0
  then show ?case using ahead_pos [of src st] by simp
next
  case (Suc n)
  have next_stmt: "runs src (ahead st) (and_parse m (\<lambda>x. service_body n version (f x) (g x))) st"
    if "runs src (ahead st - 1) m st" for f :: "'b \<Rightarrow> _" and g :: "'b \<Rightarrow> _" and m :: "'b parse"
    by (rule runs_and_parse [OF that runs_mono [OF Suc.IH]]) (use Suc.prems ahead_pos [OF Suc.prems(1)] in auto)
  let ?stmts = "(\<lambda>st.
      (if cur st = Ident ''function'' then and_parse parse_function (\<lambda>f. service_body n version (fs @ [f]) ms)
       else if cur st = Ident ''match'' then and_parse (match_rule version) (\<lambda>r. service_body n version fs (ms @ [r]))
       else fails (Text (''expected '' @ quoted ''match'' @ '' or '' @ quoted ''function''))) st)"
  have stmts: "runs src (ahead st) ?stmts st"
    using next_stmt [OF parse_function_runs [OF Suc.prems(1)], of "\<lambda>f. fs @ [f]" "\<lambda>_. ms"]
      next_stmt [OF match_rule_runs [OF Suc.prems(1)], of version "\<lambda>_. fs" "\<lambda>r. ms @ [r]"]
    by (auto simp: runs_def fails_def issue_def)
  have "runs src (ahead st) (and_parse (eat RBrace) (\<lambda>closed. if closed then yields (fs, ms) else ?stmts)) st"
  proof (rule runs_bind_eat_less [OF Suc.prems(1)], goal_cases)
    case (2 st')
    then show ?case by simp
  next
    case 3
    show ?case unfolding if_False by (rule stmts)
  qed simp
  then show ?case by (simp only: runs_def service_body.simps)
qed

lemma parse_service_runs: "ok src st \<Longrightarrow> runs src (ahead st - 1) (parse_service version) st"
proof -
  assume st: "ok src st"
  have body: "runs src (ahead st') (\<lambda>st. service_body (loop_fuel st) version [] [] st) st'" if "ok src st'" for st'
    using service_body_runs [OF that, of "loop_fuel st'"] by (simp add: runs_def loop_fuel_ahead)
  have "runs src (ahead st - 1) (and_parse (expect LBrace) (\<lambda>_.
      and_parse (\<lambda>st. service_body (loop_fuel st) version [] [] st) (\<lambda>(fs, ms).
      yields \<lparr>sr_name = join ''.'' (first # rest), sr_functions = fs, sr_matches = ms\<rparr>))) st'"
    if "ok src st'" "ahead st' < ahead st" for first rest st'
    by (rule runs_bind_expect [OF that(1)], simp, rule runs_and_parse [OF body]) (use that in auto)
  note tail = this
  have "runs src (ahead st - 1) (and_parse (\<lambda>st. more_idents (loop_fuel st) Dot st) (\<lambda>rest. and_parse (expect LBrace) (\<lambda>_.
      and_parse (\<lambda>st. service_body (loop_fuel st) version [] [] st) (\<lambda>(fs, ms).
      yields \<lparr>sr_name = join ''.'' (first # rest), sr_functions = fs, sr_matches = ms\<rparr>)))) st'"
    if "ok src st'" "ahead st' < ahead st" for first st'
    by (rule runs_and_parse [OF fueled(1) [OF that(1)]], simp, rule tail) (use that in auto)
  then show ?thesis
    unfolding parse_service_def eat_ident_def using st
    by (auto intro!: runs_bind_eat_less runs_bind_expect_ident simp del: One_nat_def)
qed

lemma services_runs: "ok src st \<Longrightarrow> ahead st \<le> n \<Longrightarrow> runs src (ahead st) (services n version) st"
proof (induction n arbitrary: st)
  case 0
  then show ?case using ahead_pos [of src st] by simp
next
  case (Suc n)
  have loop: "runs src (ahead st) (and_parse (services n version) (\<lambda>ss. yields (s # ss))) st'"
    if "ok src st'" "ahead st' \<le> ahead st - 1" for s st'
    by (rule runs_and_parse [OF Suc.IH]) (use that Suc.prems in auto)
  have "runs src (ahead st) (and_parse (parse_service version) (\<lambda>s. and_parse (services n version) (\<lambda>ss. yields (s # ss)))) st"
    by (rule runs_and_parse [OF parse_service_runs [OF Suc.prems(1)] loop])
  then show ?case using Suc.prems by (simp add: runs_def)
qed

lemma parse_version_runs: "ok src st \<Longrightarrow> runs src (ahead st) parse_version st"
  unfolding parse_version_def eat_ident_def
  by (intro runs_bind_eat_less)
    (auto intro!: runs_bind_expect runs_bind_bump runs_bind_yields next_parser_ok dest!: next_parser_le next_parser_lt split: tok.split)

text \<open>
  C26. Parsing ends: the loops of the parser never use up the tokens they are bounded by, and the
  splices of paths, which are parsed by a parser of their own, are shorter than the text they are in.
\<close>

theorem parsing_ends: "parse_rules source \<noteq> Inl Out_of_fuel"
proof (cases "lexed source")
  case (Inl e)
  then show ?thesis using lexed_fueled [of source] by (auto simp: parse_rules_def)
next
  case (Inr st)
  have all: "runs source (ahead st') (\<lambda>st. services (loop_fuel st) version st) st'" if "ok source st'" for version st'
    using services_runs [OF that, of "loop_fuel st'"] by (simp add: runs_def loop_fuel_ahead)
  have "runs source (ahead st) parse_ruleset st"
    unfolding parse_ruleset_def
    by (rule runs_and_parse [OF parse_version_runs [OF lexed_ok [OF Inr]]], rule runs_and_parse [OF all]) auto
  then show ?thesis using Inr by (auto simp: parse_rules_def runs_def split: sum.splits)
qed

end
