(* ===== verification/ParserProps.thy ===== *)
theory ParserProps
  imports ParserRuns RulesSpec
begin

text \<open>What a parsed ruleset satisfies.\<close>

section \<open>Results of parsers\<close>

lemma and_parse_Inr:
  "and_parse m f st = Inr (a, st') \<longleftrightarrow> (\<exists>x st1. m st = Inr (x, st1) \<and> f x st1 = Inr (a, st'))"
  by (auto simp: and_parse_def split: sum.split)

lemma parse_results [simp]:
  "yields a st = Inr (b, st') \<longleftrightarrow> b = a \<and> st' = st"
  "fails m st \<noteq> Inr r"
  by (auto simp: yields_def fails_def)

lemma map_fst_Inr: "map_sum id fst r = Inr a \<Longrightarrow> (\<And>b. r = Inr (a, b) \<Longrightarrow> P) \<Longrightarrow> P"
  by (cases r) auto

text \<open>The documented form of a match path and of a match block, nested at most \<open>k\<close> deep.\<close>

definition valid_path :: "rules_version \<Rightarrow> match_seg list \<Rightarrow> bool" where
  "valid_path version segs \<longleftrightarrow>
     segs \<noteq> [] \<and> length (filter is_glob segs) \<le> 1 \<and> (version = V1 \<longrightarrow> \<not> list_ex is_glob (butlast segs))"

definition valid_allow :: "allow_rule \<Rightarrow> bool" where
  "valid_allow a \<longleftrightarrow> al_methods a \<noteq> [] \<and> set (al_methods a) \<subseteq> set known_methods"

fun valid_match :: "rules_version \<Rightarrow> nat \<Rightarrow> match_rule \<Rightarrow> bool" where
  "valid_match version 0 r \<longleftrightarrow> False"
| "valid_match version (Suc k) r \<longleftrightarrow>
     valid_path version (mr_path r) \<and> list_all valid_allow (mr_allows r) \<and> list_all (valid_match version k) (mr_children r)"

definition valid_block :: "rules_version \<Rightarrow> nat \<Rightarrow> block \<Rightarrow> bool" where
  "valid_block version k b \<longleftrightarrow> list_all valid_allow (bl_allows b) \<and> list_all (valid_match version k) (bl_children b)"

lemma match_segs_length: "match_segs version len i glob_seen segs = Inr ss \<Longrightarrow> length ss = length segs"
proof (induction segs arbitrary: i glob_seen ss)
  case (Cons seg segs)
  then show ?case
    by (cases "match_segs version len (i + 1) glob_seen segs"; cases "match_segs version len (i + 1) True segs")
      (auto split: option.splits if_splits)
qed simp

lemma match_segs_globs:
  "match_segs version len i glob_seen segs = Inr ss \<Longrightarrow> i + length segs = len \<Longrightarrow>
     length (filter is_glob ss) \<le> (if glob_seen then 0 else 1) \<and> (version = V1 \<longrightarrow> \<not> list_ex is_glob (butlast ss))"
proof (induction segs arbitrary: i glob_seen ss)
  case (Cons seg segs)
  show ?case
  proof (cases "Option.bind (strip_prefix ''{'' seg) (strip_suffix ''}'')")
    case None
    obtain ss' where s: "match_segs version len (i + 1) glob_seen segs = Inr ss'" "ss = Literal seg # ss'"
      using Cons.prems(1) unfolding match_segs.simps None option.case
      by (cases "match_segs version len (i + 1) glob_seen segs") auto
    then show ?thesis using Cons.IH [OF s(1)] Cons.prems(2) by auto
  next
    case (Some inner)
    show ?thesis
    proof (cases "strip_suffix ''=**'' inner")
      case None
      then obtain ss' where s: "match_segs version len (i + 1) glob_seen segs = Inr ss'" "ss = Capture inner # ss'"
        using Cons.prems(1) Some by (cases "match_segs version len (i + 1) glob_seen segs") auto
      then show ?thesis using Cons.IH [OF s(1)] Cons.prems(2) by auto
    next
      case (Some name)
      with Cons.prems(1) \<open>Option.bind _ _ = Some inner\<close> obtain ss' where
        s: "\<not> glob_seen" "\<not> (version = V1 \<and> i \<noteq> len - 1)" "match_segs version len (i + 1) True segs = Inr ss'" "ss = Glob name # ss'"
        by (cases "match_segs version len (i + 1) True segs") (auto split: if_splits)
      have "ss' = []" if "version = V1"
      proof -
        have "length segs = 0" using that s(2) Cons.prems(2) by (cases len) auto
        then show ?thesis using match_segs_length [OF s(3)] by simp
      qed
      then show ?thesis using Cons.IH [OF s(3)] Cons.prems(2) s by auto
    qed
  qed
qed auto

lemma match_path_valid: "match_path version st = Inr (path, st') \<Longrightarrow> valid_path version path"
  using match_segs_globs [of version _ 0 False]
  by (auto simp: match_path_def valid_path_def split: sum.splits if_splits)

lemma parse_allow_valid: "parse_allow st = Inr (a, st') \<Longrightarrow> valid_allow a"
proof -
  assume "parse_allow st = Inr (a, st')"
  then obtain m ms st1 where "(case find (\<lambda>m. m \<notin> set known_methods) (m # ms) of
      Some unknown \<Rightarrow> fails (Unknown_operation unknown)
    | None \<Rightarrow> and_parse allow_condition (\<lambda>condition. and_parse (expect Semi) (\<lambda>_.
        yields \<lparr>al_methods = m # ms, al_condition = condition, al_line = lt_line (current_token st)\<rparr>))) st1 = Inr (a, st')"
    by (auto simp: parse_allow_def and_parse_Inr simp del: find.simps)
  then have "find (\<lambda>m. m \<notin> set known_methods) (m # ms) = None" "al_methods a = m # ms"
    by (auto simp: and_parse_Inr simp del: find.simps split: option.splits)
  then show "valid_allow a" by (auto simp: valid_allow_def find_None_iff simp del: find.simps)
qed

lemma match_valid:
  "match_rule_at n version depth st = Inr (r, st') \<Longrightarrow> valid_match version (MAX_MATCH_DEPTH + 1 - depth) r"
  "match_body n version depth b st = Inr (b', st') \<Longrightarrow> valid_block version (MAX_MATCH_DEPTH - depth) b \<Longrightarrow>
     valid_block version (MAX_MATCH_DEPTH - depth) b'"
proof (induction n arbitrary: depth st r st' b b')
  case (Suc n)
  {
    case 1
    then have d: "depth \<le> MAX_MATCH_DEPTH" by (auto split: if_splits)
    with 1 obtain path st1 st2 st3 b where p: "match_path version st1 = Inr (path, st2)"
        "match_body n version depth empty_block st3 = Inr (b, st')"
        "r = MatchRule path (bl_functions b) (bl_allows b) (bl_children b)"
      by (auto simp: and_parse_Inr bump_def)
    have "valid_block version (MAX_MATCH_DEPTH - depth) b"
      by (rule Suc.IH(2) [OF p(2)]) (simp add: valid_block_def empty_block_def)
    then show ?case using match_path_valid [OF p(1)] d p(3) by (simp add: valid_block_def Suc_diff_le)
  next
    case 2
    consider "b' = b"
      | f st1 where "match_body n version depth (b\<lparr>bl_functions := bl_functions b @ [f]\<rparr>) st1 = Inr (b', st')"
      | r st0 st1 where "match_rule_at n version (depth + 1) st0 = Inr (r, st1)"
          "match_body n version depth (b\<lparr>bl_children := bl_children b @ [r]\<rparr>) st1 = Inr (b', st')"
      | a st0 st1 where "parse_allow st0 = Inr (a, st1)"
          "match_body n version depth (b\<lparr>bl_allows := bl_allows b @ [a]\<rparr>) st1 = Inr (b', st')"
      using 2(1) by (auto simp: and_parse_Inr split: if_splits)
    then show ?case
    proof cases
      case 1
      then show ?thesis using 2(2) by simp
    next
      case 2
      show ?thesis by (rule Suc.IH(2) [OF 2]) (use \<open>valid_block _ _ b\<close> in \<open>simp add: valid_block_def\<close>)
    next
      case 3
      show ?thesis
        by (rule Suc.IH(2) [OF 3(2)])
          (use Suc.IH(1) [OF 3(1)] \<open>valid_block _ _ b\<close> in \<open>simp add: valid_block_def\<close>)
    next
      case 4
      show ?thesis
        by (rule Suc.IH(2) [OF 4(2)])
          (use parse_allow_valid [OF 4(1)] \<open>valid_block _ _ b\<close> in \<open>simp add: valid_block_def\<close>)
    qed
  }
qed auto

lemma match_rule_valid: "match_rule version st = Inr (r, st') \<Longrightarrow> valid_match version MAX_MATCH_DEPTH r"
  unfolding match_rule_def by (drule match_valid(1)) simp

lemma service_body_valid:
  "service_body n version fs ms st = Inr ((fs', ms'), st') \<Longrightarrow> list_all (valid_match version MAX_MATCH_DEPTH) ms \<Longrightarrow>
     list_all (valid_match version MAX_MATCH_DEPTH) ms'"
proof (induction n arbitrary: fs ms st)
  case (Suc n)
  consider "ms' = ms"
    | f st1 where "service_body n version (fs @ [f]) ms st1 = Inr ((fs', ms'), st')"
    | r st0 st1 where "match_rule version st0 = Inr (r, st1)" "service_body n version fs (ms @ [r]) st1 = Inr ((fs', ms'), st')"
    using Suc.prems(1) by (auto simp: and_parse_Inr split: if_splits)
  then show ?case
  proof cases
    case 3
    show ?thesis by (rule Suc.IH [OF 3(2)]) (use match_rule_valid [OF 3(1)] Suc.prems(2) in simp)
  qed (use Suc in auto)
qed simp

lemma services_valid:
  "services n version st = Inr (ss, st') \<Longrightarrow> s \<in> set ss \<Longrightarrow> list_all (valid_match version MAX_MATCH_DEPTH) (sr_matches s)"
proof (induction n arbitrary: st ss)
  case (Suc n)
  show ?case
  proof (cases "cur st = Eof")
    case False
    then obtain s0 ss' st1 where p: "parse_service version st = Inr (s0, st1)" "services n version st1 = Inr (ss', st')" "ss = s0 # ss'"
      using Suc.prems(1) by (auto simp: and_parse_Inr)
    from p(1) obtain fs ms st2 st3 m where "service_body m version [] [] st2 = Inr ((fs, ms), st3)" "sr_matches s0 = ms"
      by (auto simp: parse_service_def and_parse_Inr split: if_splits)
    with service_body_valid have "list_all (valid_match version MAX_MATCH_DEPTH) (sr_matches s0)" by fastforce
    then show ?thesis using Suc.IH [OF p(2)] Suc.prems(2) p(3) by auto
  qed (use Suc.prems in auto)
qed simp

lemma parse_rules_valid:
  assumes "parse_rules source = Inr rs"
  shows "\<forall>s \<in> set (rs_services rs). list_all (valid_match (rs_version rs) 10) (sr_matches s)"
proof -
  from assms obtain st st' where "parse_ruleset st = Inr (rs, st')"
    by (auto simp: parse_rules_def split: sum.splits elim: map_fst_Inr)
  then obtain n st1 st2 where "services n (rs_version rs) st1 = Inr (rs_services rs, st2)"
    by (auto simp: parse_ruleset_def and_parse_Inr)
  then show ?thesis using services_valid by (fastforce simp: MAX_MATCH_DEPTH_def)
qed

text \<open>
  C7. In a ruleset that parses, every match path is not empty and has at most one recursive wildcard,
  in version 1 only at its end; every allow statement names one or more of the seven methods; and
  match blocks are nested at most ten deep.
\<close>

theorem parsed_rules_valid:
  assumes "parse_rules source = Inr rs"
  shows "\<forall>s \<in> set (rs_services rs). list_all (valid_match (rs_version rs) 10) (sr_matches s)"
  using assms by (rule parse_rules_valid)

definition sample_rules :: string where
  "sample_rules = ''service a { match /b/{c=**} { allow get, list; match /d { allow write; } } }''"

definition sample_tree :: ruleset where
  "sample_tree = \<lparr>rs_version = V1, rs_services = [\<lparr>sr_name = ''a'', sr_functions = [], sr_matches =
     [MatchRule [Literal ''b'', Glob ''c''] [] [\<lparr>al_methods = [''get'', ''list''], al_condition = EBool True, al_line = 1\<rparr>]
        [MatchRule [Literal ''d''] [] [\<lparr>al_methods = [''write''], al_condition = EBool True, al_line = 1\<rparr>] []]]\<rparr>]\<rparr>"

lemma sample_parses: "parse_rules sample_rules = Inr sample_tree"
  by code_simp

theorem parsed_rules_valid_witness:
  "list_all (valid_match V1 10) (sr_matches (hd (rs_services sample_tree)))"
  using parsed_rules_valid [OF sample_parses] by (simp add: sample_tree_def)

text \<open>
  A splice is recognised after the text is split at slashes: one that holds a slash itself is not
  parsed, and its pieces are taken for names.
\<close>

lemma splice_with_slash:
  "parse_expression ''/a/$(b/c)'' = Inr (EPath [Static ''a'', Static ''$(b'', Static ''c)''])"
  by code_simp

text \<open>A backslash at the end of the source makes the lexer read past it.\<close>

lemma trailing_backslash: "parse_rules [CHR 0x27, backslash] = Inl Parse_panic"
  by code_simp

end
