(* ===== verification/RestProps.thy ===== *)
theory RestProps
  imports Rest ParserProps ServiceProps
begin

text \<open>
  The HTTP surface: its calls are requests of the service, its administrator's endpoints are
  guarded, and the rules it loads are valid.
\<close>

section \<open>Calls\<close>

text \<open>The answer of a method as the text of an HTTP answer.\<close>

definition reply :: "('a \<Rightarrow> status + string) \<Rightarrow> status + 'a \<Rightarrow> status + string" where
  "reply render r = (case r of Inl status \<Rightarrow> Inl status | Inr a \<Rightarrow> render a)"

definition http_answer :: "status + string \<Rightarrow> http_response" where
  "http_answer r = (case r of Inl status \<Rightarrow> status_response status | Inr text \<Rightarrow> text_response 200 text)"

text \<open>
  What the documentation of the HTTP surface promises: the last part of an address names a method,
  the part before it the resource, and the method is called once, on the message of the body with
  the database or the parent of the address, for the caller of the header.
\<close>

inductive exchange ::
  "('k, 'd, 's) service \<Rightarrow> transcoder \<Rightarrow> string \<Rightarrow> string \<Rightarrow> string option \<Rightarrow> ('k, 'd) server
     \<Rightarrow> status + string \<Rightarrow> ('k, 'd) server \<Rightarrow> bool" for sv tc where
  commits: "jt_commit tc body = Inr req \<Longrightarrow> commit sv header (req\<lparr>mq_database := database\<rparr>) st = (r, st') \<Longrightarrow>
    exchange sv tc (database @ ''/documents:commit'') body header st (reply (jt_commit_answer tc) r) st'"
| gets: "jt_batch_get tc body = Inr req \<Longrightarrow> batch_get_documents sv header (req\<lparr>bq_database := database\<rparr>) st = (r', st') \<Longrightarrow>
    exchange sv tc (database @ ''/documents:batchGet'') body header st (reply (collect_json (jt_batch_get_answer tc)) r') st'"
| queries: "jt_run_query tc body = Inr req \<Longrightarrow> run_query_call sv header (req\<lparr>rq_parent := resource\<rparr>) st = (r'', st') \<Longrightarrow>
    exchange sv tc (resource @ '':runQuery'') body header st (reply (collect_json (jt_query_answer tc)) r'') st'"
| aggregates: "jt_aggregation tc body = Inr req \<Longrightarrow> run_aggregation_query sv (req\<lparr>aq_parent := resource\<rparr>) st = (q, st') \<Longrightarrow>
    exchange sv tc (resource @ '':runAggregationQuery'') body header st
      (reply (\<lambda>item. collect_json (jt_aggregation_answer tc) [item]) q) st'"
| begins: "jt_begin tc body = Inr options \<Longrightarrow> begin_transaction_call sv database options st = (b, st') \<Longrightarrow>
    exchange sv tc (database @ ''/documents:beginTransaction'') body header st (reply (jt_begin_answer tc) b) st'"
| rolls_back: "jt_rollback tc body = Inr token \<Longrightarrow> rollback_call token st = (u, st') \<Longrightarrow>
    exchange sv tc (database @ ''/documents:rollback'') body header st (reply (\<lambda>_. Inr ''{}'') u) st'"

lemma known_Inr: "known (Inr a) = answer a"
  by (simp add: known_def)

lemma known_Inl: "known (Inl e) = refuse e"
  by (simp add: known_def)

lemma and_then_answer: "and_then (answer a) f = f a"
  by (simp add: fun_eq_iff and_then_def answer_def)

lemma and_then_refuse: "and_then (refuse e) f = refuse e"
  by (simp add: fun_eq_iff and_then_def refuse_def)

lemmas known_simps = known_Inr known_Inl and_then_answer and_then_refuse

lemma and_then_reply: "and_then h (\<lambda>a. known (render a)) st = (reply render (fst (h st)), snd (h st))"
  by (simp add: and_then_def reply_def known_def refuse_def answer_def split: sum.split prod.split)

lemma and_then_reply_text: "and_then h (\<lambda>_. answer text) st = (reply (\<lambda>_. Inr text) (fst (h st)), snd (h st))"
  by (simp add: and_then_def reply_def answer_def split: sum.split prod.split)

lemma rsplit_once_Some: "rsplit_once c s = Some (a, b) \<longleftrightarrow> s = a @ c # b \<and> c \<notin> set b"
proof -
  have "rsplit_once c s = Some (a, b) \<longleftrightarrow> split_once c (rev s) = Some (rev b, rev a)"
    by (auto simp: rsplit_once_def split: prod.splits)
  also have "\<dots> \<longleftrightarrow> s = a @ c # b \<and> c \<notin> set b"
    using rev_swap [of s "rev b @ c # rev a"] by (auto simp: split_once_Some)
  finally show ?thesis .
qed

lemma database_of_Inr: "database_of resource = Inr d \<longleftrightarrow> resource = d @ ''/documents''"
proof -
  have "strip_suffix ''/documents'' resource = Some d \<longleftrightarrow> resource = d @ ''/documents''" by (rule strip_suffix_Some)
  then show ?thesis by (auto simp: database_of_def split: option.split)
qed

text \<open>An address of the documentation is split as the code splits it.\<close>

lemma address_split: "path = resource @ CHR '':'' # m \<Longrightarrow> CHR '':'' \<notin> set m \<Longrightarrow> rsplit_once CHR '':'' path = Some (resource, m)"
  by (simp add: rsplit_once_Some)

lemma exchange_dispatch:
  assumes "exchange sv tc path (if body = [] then ''{}'' else body) header st r st'"
  shows "dispatch sv tc path body header debug st = (r, st')"
  using assms
proof cases
  case (commits req database q)
  have "rsplit_once CHR '':'' path = Some (database @ ''/documents'', ''commit'')"
    by (rule address_split) (simp_all add: commits(1))
  then show ?thesis using commits(2-4)
    by (simp add: dispatch_def Let_def known_simps and_then_reply and_then_reply_text database_of_Inr [THEN iffD2])
next
  case (gets req database q)
  have "rsplit_once CHR '':'' path = Some (database @ ''/documents'', ''batchGet'')"
    by (rule address_split) (simp_all add: gets(1))
  then show ?thesis using gets(2-4)
    by (simp add: dispatch_def Let_def known_simps and_then_reply and_then_reply_text database_of_Inr [THEN iffD2])
next
  case (queries req resource q)
  have "rsplit_once CHR '':'' path = Some (resource, ''runQuery'')"
    by (rule address_split) (simp_all add: queries(1))
  then show ?thesis using queries(2-4)
    by (simp add: dispatch_def Let_def known_simps and_then_reply)
next
  case (aggregates req resource q)
  have "rsplit_once CHR '':'' path = Some (resource, ''runAggregationQuery'')"
    by (rule address_split) (simp_all add: aggregates(1))
  then show ?thesis using aggregates(2-4)
    by (simp add: dispatch_def Let_def known_simps and_then_reply)
next
  case (begins options database q)
  have "rsplit_once CHR '':'' path = Some (database @ ''/documents'', ''beginTransaction'')"
    by (rule address_split) (simp_all add: begins(1))
  then show ?thesis using begins(2-4)
    by (simp add: dispatch_def Let_def known_simps and_then_reply and_then_reply_text database_of_Inr [THEN iffD2])
next
  case (rolls_back token u database)
  have "rsplit_once CHR '':'' path = Some (database @ ''/documents'', ''rollback'')"
    by (rule address_split) (simp_all add: rolls_back(1))
  then show ?thesis using rolls_back(2-4)
    by (simp add: dispatch_def Let_def known_simps and_then_reply and_then_reply_text database_of_Inr [THEN iffD2])
qed

lemma exchange_exists:
  "jt_commit tc body = Inr rc \<Longrightarrow> \<exists>r st'. exchange sv tc (database @ ''/documents:commit'') body header st r st'"
  "jt_batch_get tc body = Inr rg \<Longrightarrow> \<exists>r st'. exchange sv tc (database @ ''/documents:batchGet'') body header st r st'"
  "jt_run_query tc body = Inr rq \<Longrightarrow> \<exists>r st'. exchange sv tc (resource @ '':runQuery'') body header st r st'"
  "jt_aggregation tc body = Inr ra \<Longrightarrow> \<exists>r st'. exchange sv tc (resource @ '':runAggregationQuery'') body header st r st'"
  "jt_begin tc body = Inr rb \<Longrightarrow> \<exists>r st'. exchange sv tc (database @ ''/documents:beginTransaction'') body header st r st'"
  "jt_rollback tc body = Inr rr \<Longrightarrow> \<exists>r st'. exchange sv tc (database @ ''/documents:rollback'') body header st r st'"
  by (metis exchange.intros surj_pair)+

lemma no_exchange_refused:
  assumes nx: "\<nexists>r st'. exchange sv tc path (if body = [] then ''{}'' else body) header st r st'"
  shows "\<exists>e. dispatch sv tc path body header debug st = (Inl e, st)"
proof (cases "rsplit_once CHR '':'' path")
  case None
  then show ?thesis by (simp add: dispatch_def refuse_def)
next
  case (Some p)
  obtain resource m where p: "p = (resource, m)" by (cases p)
  note sp = Some [unfolded p]
  have path: "path = resource @ CHR '':'' # m" using sp by (simp add: rsplit_once_Some)
  let ?body = "if body = [] then ''{}'' else body"
  note refused = dispatch_def sp Let_def known_simps refuse_def
  have c: False if "m = ''commit''" "jt_commit tc ?body = Inr req" "database_of resource = Inr d" for req d
    using exchange_exists(1) [where sv = sv and header = header and st = st and database = d, OF that(2)] nx path that by (simp add: database_of_Inr)
  have g: False if "m = ''batchGet''" "jt_batch_get tc ?body = Inr req" "database_of resource = Inr d" for req d
    using exchange_exists(2) [where sv = sv and header = header and st = st and database = d, OF that(2)] nx path that by (simp add: database_of_Inr)
  have q: False if "m = ''runQuery''" "jt_run_query tc ?body = Inr req" for req
    using exchange_exists(3) [where sv = sv and header = header and st = st and resource = resource, OF that(2)] nx path that by (simp add: database_of_Inr)
  have a: False if "m = ''runAggregationQuery''" "jt_aggregation tc ?body = Inr req" for req
    using exchange_exists(4) [where sv = sv and header = header and st = st and resource = resource, OF that(2)] nx path that by (simp add: database_of_Inr)
  have b: False if "m = ''beginTransaction''" "jt_begin tc ?body = Inr req" "database_of resource = Inr d" for req d
    using exchange_exists(5) [where sv = sv and header = header and st = st and database = d, OF that(2)] nx path that by (simp add: database_of_Inr)
  have r: False if "m = ''rollback''" "jt_rollback tc ?body = Inr req" "database_of resource = Inr d" for req d
    using exchange_exists(6) [where sv = sv and header = header and st = st and database = d, OF that(2)] nx path that by (simp add: database_of_Inr)
  let ?refuses = "\<exists>e. dispatch sv tc path body header debug st = (Inl e, st)"
  have c': "m = ''commit'' \<Longrightarrow> ?refuses"
    using c by (cases "jt_commit tc ?body"; cases "database_of resource") (simp_all add: refused, blast?)
  have g': "m = ''batchGet'' \<Longrightarrow> ?refuses"
    using g by (cases "jt_batch_get tc ?body"; cases "database_of resource") (simp_all add: refused, blast?)
  have q': "m = ''runQuery'' \<Longrightarrow> ?refuses"
    using q by (cases "jt_run_query tc ?body") (simp_all add: refused, blast?)
  have a': "m = ''runAggregationQuery'' \<Longrightarrow> ?refuses"
    using a by (cases "jt_aggregation tc ?body") (simp_all add: refused, blast?)
  have b': "m = ''beginTransaction'' \<Longrightarrow> ?refuses"
    using b by (cases "jt_begin tc ?body"; cases "database_of resource") (simp_all add: refused, blast?)
  have r': "m = ''rollback'' \<Longrightarrow> ?refuses"
    using r by (cases "jt_rollback tc ?body"; cases "database_of resource") (simp_all add: refused, blast?)
  consider "m = ''commit''" | "m = ''batchGet''" | "m = ''runQuery''" | "m = ''runAggregationQuery''" | "m = ''beginTransaction''"
    | "m = ''rollback''" | "m \<notin> {''commit'', ''batchGet'', ''runQuery'', ''runAggregationQuery'', ''beginTransaction'', ''rollback''}"
    by auto
  then show ?thesis
  proof cases
    case 7
    then show ?thesis by (simp add: refused)
  qed (rule c' g' q' a' b' r', assumption)+
qed

lemma refused_code: "400 \<le> hr_code (status_response status)"
  by (cases status) (simp_all add: status_response_def status_code_def code_response_def http_code_def)

text \<open>
  C38. The HTTP surface is the service.  A post whose address names a method of the service and whose
  body is a message of it is answered with what that method answers, called once on that message with
  the database or parent of the address for the caller of the header, and leaves the server as that
  call does: its value as the text of a 200, its status as the error of that status.  Any other
  post calls nothing: the server stays as it was, and the answer is an error.  (The two
  addresses of the identity endpoints are apart.)
\<close>

theorem rest_is_a_request:
  assumes "\<not> identity_path path"
  shows "(\<forall>r st'. exchange sv tc path (if body = [] then ''{}'' else body) header st r st' \<longrightarrow>
      v1_post sv tc identity path body header debug st = (http_answer r, st'))
    \<and> ((\<nexists>r st'. exchange sv tc path (if body = [] then ''{}'' else body) header st r st') \<longrightarrow>
      (\<exists>resp. v1_post sv tc identity path body header debug st = (resp, st) \<and> 400 \<le> hr_code resp))"
proof -
  have post: "v1_post sv tc identity path body header debug st = (http_answer r, st')"
    if "dispatch sv tc path body header debug st = (r, st')" for r st'
    using assms that by (simp add: v1_post_def http_answer_def split: sum.split)
  have "\<exists>resp. v1_post sv tc identity path body header debug st = (resp, st) \<and> 400 \<le> hr_code resp"
    if "\<nexists>r st'. exchange sv tc path (if body = [] then ''{}'' else body) header st r st'"
    using post no_exchange_refused [OF that, of debug] by (auto simp: http_answer_def refused_code)
  then show ?thesis using post exchange_dispatch by blast
qed

text \<open>So a client that speaks HTTP drives the server along its runs, with one request or none.\<close>

lemma exchange_serves: "exchange sv tc path body header st r st' \<Longrightarrow> \<exists>req. st' = serve sv req st"
proof (induction rule: exchange.induct)
  case (commits body req header database st r st')
  then show ?case by (intro exI [of _ "CommitWrites header (req\<lparr>mq_database := database\<rparr>)"]) (simp add: serve_def)
next
  case (gets body req header database st r' st')
  then show ?case by (intro exI [of _ "BatchGetDocuments header (req\<lparr>bq_database := database\<rparr>)"]) (simp add: serve_def)
next
  case (queries body req header resource st r'' st')
  then show ?case by (intro exI [of _ "RunQuery header (req\<lparr>rq_parent := resource\<rparr>)"]) (simp add: serve_def)
next
  case (aggregates body req resource st q st' header)
  then show ?case by (intro exI [of _ "RunAggregationQuery (req\<lparr>aq_parent := resource\<rparr>)"]) (simp add: serve_def)
next
  case (begins body options database st b st' header)
  then show ?case by (intro exI [of _ "BeginTransaction database options"]) (simp add: serve_def)
next
  case (rolls_back body token st u st' database header)
  then show ?case by (intro exI [of _ "Rollback token"]) (simp add: serve_def)
qed

section \<open>The endpoints of an administrator\<close>

text \<open>
  C20. With verified tokens only an administrator of the project reaches the emulator's endpoints:
  for anyone else loading rules, registering triggers and erasing a database answer 403, and the
  rules, the triggers and the database are as they were, the key cache apart.
\<close>

theorem admin_endpoints_guarded:
  assumes "sv_policy sv = Verify_with config" "authorized sv header st = (r, st1)"
    "\<forall>auth a. r = Inr auth \<longrightarrow> for_project project auth \<noteq> Admin a"
  shows "\<exists>resp. hr_code resp = 403
    \<and> (trim_end_matches '':securityRules'' path_text = project \<longrightarrow> set_security_rules sv tc path_text header body st = (resp, sv_registry sv, st1))
    \<and> set_triggers sv tc triggers project header body st = (resp, triggers, st1)
    \<and> clear_data sv clear_database project database_text header st = (resp, st1)"
proof -
  let ?e = "Permission_denied ''admin credentials required for this endpoint''"
  have g: "guards_admin_api (sv_policy sv)" by (simp add: guards_admin_api_def assms(1))
  have "require_admin sv header project st = (Inl ?e, st1)"
    using assms(3) g by (auto simp: require_admin_def assms(2) split: sum.splits authorization.splits)
  then show ?thesis
    by (intro exI [of _ "status_response ?e"])
      (simp add: set_security_rules_def set_triggers_def clear_data_def status_response_def status_code_def code_response_def http_code_def Let_def)
qed

section \<open>Loading rules\<close>

definition rules_ok :: "ruleset \<Rightarrow> bool" where
  "rules_ok rs \<longleftrightarrow> (\<forall>s \<in> set (rs_services rs). list_all (valid_match (rs_version rs) 10) (sr_matches s))"

text \<open>
  C13. Loading rules replaces those of the project's default database or none: after an answer of
  200 that database has a ruleset that parsed from the body and is well-formed, those of every other database stay; after
  any other answer the registry is as it was, and an error in the rules is never a missing answer of
  the parser.
\<close>

theorem rules_loaded:
  assumes "set_security_rules sv tc path_text header body st = (resp, registry, st')" "bt_wf (sv_registry sv)"
  shows "(hr_code resp = 200 \<and> (\<exists>json_body rules. jt_json tc body = Inr json_body \<and> parse_rules (rules_content json_body) = Inr rules
        \<and> rules_ok rules \<and> (\<forall>database. registry_get registry database =
            (if show_database database = show_database \<lparr>project_id = trim_end_matches '':securityRules'' path_text, database_id = ''(default)''\<rparr>
             then Some rules else registry_get (sv_registry sv) database)))
     \<or> hr_code resp \<noteq> 200 \<and> registry = sv_registry sv)"
proof -
  have code: "hr_code (status_response status) \<noteq> 200" for status
    by (cases status) (simp_all add: status_response_def status_code_def code_response_def http_code_def)
  have ok: "parse_rules source = Inr rules \<Longrightarrow> rules_ok rules" for source rules
    using parse_rules_valid by (simp add: rules_ok_def)
  show ?thesis
    using assms
    by (auto simp: set_security_rules_def Let_def code text_response_def ok registry_get_def registry_set_def bt_get_insert
        split: sum.splits parse_failure.splits prod.splits)
qed

section \<open>Examples\<close>

definition sample_transcoder :: transcoder where
  "sample_transcoder = \<lparr>jt_commit = (\<lambda>_. Inl (Internal [])), jt_batch_get = (\<lambda>_. Inl (Internal [])),
     jt_run_query = (\<lambda>_. Inl (Internal [])), jt_aggregation = (\<lambda>_. Inl (Internal [])), jt_begin = (\<lambda>_. Inr None),
     jt_rollback = (\<lambda>_. Inl (Internal [])), jt_commit_answer = (\<lambda>_. Inr []), jt_batch_get_answer = (\<lambda>_. Inr []),
     jt_query_answer = (\<lambda>_. Inr []), jt_aggregation_answer = (\<lambda>_. Inr []), jt_begin_answer = (\<lambda>_. Inr ''{}''),
     jt_json = (\<lambda>source. Inr (JObject [(''rules'', JObject [(''files'', JArray [JObject [(''content'', JString source)]])])])),
     jt_triggers = (\<lambda>_. Inr []), jt_issue = (\<lambda>_. [])\<rparr>"

theorem rest_is_a_request_witness:
  "v1_post map_service sample_transcoder (\<lambda>_ st. (text_response 200 [], st)) ''projects/p/databases/d/documents:beginTransaction'' []
        None id fresh_server = (text_response 200 ''{}'', begun_server)"
proof -
  let ?path = "''projects/p/databases/d'' @ ''/documents:beginTransaction''"
  have p: "\<not> identity_path ?path" by (simp add: identity_path_def)
  have "snd (begin_transaction_call map_service ''projects/p/databases/d'' None fresh_server) = begun_server"
    using begun by (simp add: serve_def)
  moreover have "\<exists>token. fst (begin_transaction_call map_service ''projects/p/databases/d'' None fresh_server) = Inr token"
    by (simp add: begin_transaction_call_def and_then_def parsed_as_def answer_def sample_database_text
        begin_transaction_with_def txns_call_def Let_def split: prod.split)
  ultimately obtain token where b: "begin_transaction_call map_service ''projects/p/databases/d'' None fresh_server
      = (Inr token, begun_server)" by (metis prod.collapse)
  have "exchange map_service sample_transcoder ?path ''{}'' None fresh_server
      (reply (jt_begin_answer sample_transcoder) (Inr token)) begun_server"
    by (rule exchange.begins [OF _ b]) (simp add: sample_transcoder_def)
  then have "v1_post map_service sample_transcoder (\<lambda>_ st. (text_response 200 [], st)) ?path [] None id fresh_server
      = (http_answer (reply (jt_begin_answer sample_transcoder) (Inr token)), begun_server)"
    using rest_is_a_request [OF p, of map_service sample_transcoder "[]" None fresh_server "\<lambda>_ st. (text_response 200 [], st)" id] by simp
  then show ?thesis by (simp add: http_answer_def reply_def sample_transcoder_def)
qed

theorem rules_loaded_witness:
  "\<exists>resp registry st' rules. set_security_rules map_service sample_transcoder ''p:securityRules'' None sample_rules fresh_server = (resp, registry, st')
    \<and> registry_get registry \<lparr>project_id = ''p'', database_id = ''(default)''\<rparr> = Some rules \<and> rules_ok rules"
proof -
  obtain resp registry st' where r: "set_security_rules map_service sample_transcoder ''p:securityRules'' None sample_rules fresh_server = (resp, registry, st')"
    by (metis prod_cases3)
  have t: "trim_end_matches '':securityRules'' ''p:securityRules'' = ''p''"
    by code_simp
  have "rules_content (JObject [(''rules'', JObject [(''files'', JArray [JObject [(''content'', JString source)]])])]) = source" for source
    by (simp add: rules_content_def json_get_def)
  then have "hr_code resp = 200"
    using r by (auto simp: set_security_rules_def require_admin_def guards_admin_api_def map_service_def Let_def sample_transcoder_def
      sample_parses text_response_def)
  moreover have "bt_wf (sv_registry map_service)" by (simp add: map_service_def)
  ultimately show ?thesis using rules_loaded [OF r] r by (auto simp: t)
qed

definition guarded_service :: "(unit, row_map, row_map) service" where
  "guarded_service = map_service\<lparr>sv_policy := Verify_with \<lparr>vc_external = None, vc_admin_token = None\<rparr>\<rparr>"

theorem admin_endpoints_guarded_witness:
  "\<exists>resp. hr_code resp = 403
    \<and> set_triggers guarded_service sample_transcoder [] ''p'' None [] fresh_server = (resp, [], fresh_server)"
proof -
  have "sv_policy guarded_service = Verify_with \<lparr>vc_external = None, vc_admin_token = None\<rparr>" by (simp add: guarded_service_def)
  moreover have "authorized guarded_service None fresh_server = (Inr Unauthenticated, fresh_server)"
    by (simp add: authorized_def guarded_service_def authorize_def verify_authorize_def)
  moreover have "\<forall>auth a. Inr Unauthenticated = (Inr auth :: status + authorization) \<longrightarrow> for_project ''p'' auth \<noteq> Admin a"
    by (simp add: for_project_def)
  ultimately show ?thesis
    using admin_endpoints_guarded [of guarded_service _ None fresh_server "Inr Unauthenticated" fresh_server "''p''"] by blast
qed

end
