(* ===== verification/WebChannel.thy ===== *)
theory WebChannel
  imports Rest Listen
begin

text \<open>
  \<open>webchannel.rs\<close>: the streaming transport of browsers.  A channel buffers the messages of its
  RPC as arrays with increasing ids until the client acknowledges them; a back channel follows the
  buffer; forward posts carry the client's messages, each request id once.  The RPC behind a
  channel answers at any time (\<open>push_array\<close>).  Form decoding is of another crate and a parameter, and bytes
  of a body are characters.
\<close>

section \<open>Channels\<close>

text \<open>The messages handed to the RPC so far; \<open>ch_open\<close> says that it still takes them.\<close>

datatype forward_sender = To_listen "listen_request list" | To_write "stream_request list"

record channel =
  ch_forward :: forward_sender
  ch_open :: bool
  ch_arrays :: "(u64 \<times> string) list"
  ch_next_id :: u64
  ch_last_id :: u64
  ch_seen_rids :: "string list"
  ch_terminated :: bool

definition make_session :: "forward_sender \<Rightarrow> channel" where
  "make_session sender =
     \<lparr>ch_forward = sender, ch_open = True, ch_arrays = [], ch_next_id = 1, ch_last_id = 0, ch_seen_rids = [], ch_terminated = False\<rparr>"

definition push_array :: "string \<Rightarrow> channel \<Rightarrow> channel" where
  "push_array payload ch =
     (let i = ch_next_id ch
      in ch\<lparr>ch_next_id := i + 1, ch_last_id := i, ch_arrays := ch_arrays ch @ [(i, payload)]\<rparr>)"

definition alloc_control_id :: "channel \<Rightarrow> u64 \<times> channel" where
  "alloc_control_id ch = (ch_next_id ch, ch\<lparr>ch_next_id := ch_next_id ch + 1\<rparr>)"

definition ack :: "u64 \<Rightarrow> channel \<Rightarrow> channel" where
  "ack aid ch = ch\<lparr>ch_arrays := filter (\<lambda>(i, _). aid < i) (ch_arrays ch)\<rparr>"

section \<open>Framing\<close>

text \<open>The code point of the bytes of one character, and its UTF-16 units.\<close>

definition code_point :: "string \<Rightarrow> nat" where
  "code_point c =
     (case map of_char c of
        [b] \<Rightarrow> b
      | [b, b'] \<Rightarrow> (b - 0xC0) * 64 + (b' - 0x80)
      | [b, b', b''] \<Rightarrow> (b - 0xE0) * 4096 + (b' - 0x80) * 64 + (b'' - 0x80)
      | [b, b', b'', b'''] \<Rightarrow> (b - 0xF0) * 262144 + (b' - 0x80) * 4096 + (b'' - 0x80) * 64 + (b''' - 0x80)
      | _ \<Rightarrow> 0)"

definition encode_utf16 :: "string \<Rightarrow> nat list" where
  "encode_utf16 c =
     (let n = code_point c
      in if n < 0x10000 then [n] else [0xD800 + (n - 0x10000) div 0x400, 0xDC00 + (n - 0x10000) mod 0x400])"

definition hex4 :: "nat \<Rightarrow> string" where
  "hex4 n = [hex_digit (n div 4096 mod 16), hex_digit (n div 256 mod 16), hex_digit (n div 16 mod 16), hex_digit (n mod 16)]"

definition is_ascii :: "string \<Rightarrow> bool" where
  "is_ascii c \<longleftrightarrow> (case c of [b] \<Rightarrow> (of_char b :: nat) < 128 | _ \<Rightarrow> False)"

definition ascii_json :: "string \<Rightarrow> string" where
  "ascii_json json =
     concat (map (\<lambda>c. if is_ascii c then c else concat (map (\<lambda>unit. CHR 0x5C # CHR ''u'' # hex4 unit) (encode_utf16 c))) (chars json))"

definition frame :: "string \<Rightarrow> string" where
  "frame payload = show_nat (length payload) @ CHR 0x0A # payload"

section \<open>Forms\<close>

type_synonym form = "string \<Rightarrow> (string \<times> string) list"

definition form_fields :: "form \<Rightarrow> string \<Rightarrow> (string \<times> string) list" where
  "form_fields parse raw = fold (\<lambda>(k, v). hm_insert k v) (parse raw) []"

definition query_map :: "form \<Rightarrow> string option \<Rightarrow> (string \<times> string) list" where
  "query_map parse raw = (case raw of None \<Rightarrow> [] | Some raw \<Rightarrow> form_fields parse raw)"

text \<open>\<open>parse::<u64>()\<close> and \<open>parse::<usize>()\<close>.\<close>

definition parse_unsigned :: "string \<Rightarrow> nat option" where
  "parse_unsigned s =
     (case parse_nat (case s of c # cs \<Rightarrow> if c = CHR ''+'' then cs else s | [] \<Rightarrow> s) of
        Some n \<Rightarrow> if n < 2 ^ 64 then Some n else None
      | None \<Rightarrow> None)"

definition str_lines :: "string \<Rightarrow> string list" where
  "str_lines s =
     (let parts = split_on CHR 0x0A s;
          strip = (\<lambda>line. case strip_suffix [CHR 0x0D] line of Some l \<Rightarrow> l | None \<Rightarrow> line)
      in map strip (butlast parts) @ (if last parts = [] then [] else [last parts]))"

fun authorization_line :: "string list \<Rightarrow> string option" where
  "authorization_line [] = None"
| "authorization_line (line # lines) =
     (case split_once CHR '':'' line of
        None \<Rightarrow> authorization_line lines
      | Some (name, v) \<Rightarrow>
          if to_ascii_lowercase (trim name) = ''authorization'' then Some (trim v) else authorization_line lines)"

definition auth_from_body ::
  "('k, 'd, 's) service \<Rightarrow> form \<Rightarrow> string \<Rightarrow> ('k, 'd) server \<Rightarrow> authorization \<times> ('k, 'd) server" where
  "auth_from_body sv parse body st =
     (case hm_get (form_fields parse body) ''headers'' of
        None \<Rightarrow> (Unauthenticated, st)
      | Some block \<Rightarrow>
          (case authorized sv (authorization_line (str_lines block)) st of
             (Inr auth, st) \<Rightarrow> (auth, st)
           | (Inl _, st) \<Rightarrow> (Unauthenticated, st)))"

definition decode_forward_body :: "form \<Rightarrow> string \<Rightarrow> string list" where
  "decode_forward_body parse body =
     (let fields = form_fields parse body;
          n = (case Option.bind (hm_get fields ''count'') parse_unsigned of Some n \<Rightarrow> n | None \<Rightarrow> 0)
      in List.map_filter (\<lambda>i. hm_get fields (''req'' @ show_nat i @ ''___data__'')) [0..<n])"

section \<open>Requests\<close>

record message_decoder =
  md_listen :: "string \<Rightarrow> status + listen_request"
  md_write :: "string \<Rightarrow> status + stream_request"

datatype delivery_error = Refused status | Stream_ended

fun deliver :: "message_decoder \<Rightarrow> string list \<Rightarrow> channel \<Rightarrow> (delivery_error + unit) \<times> channel" where
  "deliver md [] ch = (Inr (), ch)"
| "deliver md (json # jsons) ch =
     (case (case ch_forward ch of
              To_listen sent \<Rightarrow> map_sum id (\<lambda>m. To_listen (sent @ [m])) (md_listen md json)
            | To_write sent \<Rightarrow> map_sum id (\<lambda>m. To_write (sent @ [m])) (md_write md json)) of
        Inl status \<Rightarrow> (Inl (Refused status), ch)
      | Inr sent \<Rightarrow> if \<not> ch_open ch then (Inl Stream_ended, ch) else deliver md jsons (ch\<lparr>ch_forward := sent\<rparr>))"

definition error_response :: "delivery_error \<Rightarrow> http_response" where
  "error_response e =
     (case e of Refused status \<Rightarrow> status_response status | Stream_ended \<Rightarrow> code_response Code_cancelled ''stream ended'')"

definition unknown_sid :: http_response where
  "unknown_sid = text_response 400 ''Error: Unknown SID''"

text \<open>
  Channels live as long as something refers to them: the store holds them all, and the table of
  sessions says which are still found by name.
\<close>

record web_state =
  wb_channels :: "channel list"
  wb_sessions :: "(string \<times> nat) list"
  wb_counter :: u64

definition on_channel :: "nat \<Rightarrow> (channel \<Rightarrow> channel) \<Rightarrow> web_state \<Rightarrow> web_state" where
  "on_channel n f w = w\<lparr>wb_channels := (wb_channels w)[n := f (wb_channels w ! n)]\<rparr>"

definition take_ack :: "(string \<times> string) list \<Rightarrow> channel \<Rightarrow> channel" where
  "take_ack params ch =
     (case Option.bind (hm_get params ''AID'') parse_unsigned of Some aid \<Rightarrow> ack (of_nat aid) ch | None \<Rightarrow> ch)"

definition forward_channel ::
  "message_decoder \<Rightarrow> form \<Rightarrow> (string \<times> string) list \<Rightarrow> string \<Rightarrow> channel \<Rightarrow> http_response \<times> channel" where
  "forward_channel md parse params body ch =
     (let ch = take_ack params ch;
          (is_new, ch) = (case hm_get params ''RID'' of
             Some rid \<Rightarrow> (rid \<notin> set (ch_seen_rids ch), ch\<lparr>ch_seen_rids := List.insert rid (ch_seen_rids ch)\<rparr>)
           | None \<Rightarrow> (True, ch));
          (r, ch) = (if is_new then deliver md (decode_forward_body parse body) ch else (Inr (), ch))
      in case r of
           Inl e \<Rightarrow> (error_response e, ch)
         | Inr _ \<Rightarrow> (text_response 200 (frame (''[1,'' @ show_nat (unat (ch_last_id ch)) @ '',0]'')), ch))"

definition forward_post ::
  "message_decoder \<Rightarrow> form \<Rightarrow> string \<Rightarrow> (string \<times> string) list \<Rightarrow> string \<Rightarrow> web_state \<Rightarrow> http_response \<times> web_state" where
  "forward_post md parse sid params body w =
     (case hm_get (wb_sessions w) sid of
        None \<Rightarrow> (unknown_sid, w)
      | Some n \<Rightarrow>
          (let (resp, ch) = forward_channel md parse params body (wb_channels w ! n)
           in (resp, w\<lparr>wb_channels := (wb_channels w)[n := ch]\<rparr>)))"

fun show_hex :: "nat \<Rightarrow> string" where
  "show_hex n = (if n < 16 then [hex_digit n] else show_hex (n div 16) @ [hex_digit (n mod 16)])"

declare show_hex.simps [simp del]

definition quote :: "string \<Rightarrow> string" where "quote s = CHR 0x22 # s @ [CHR 0x22]"

text \<open>The RPC of a name starts with the caller's authorization; the answer says where it runs.\<close>

definition handshake ::
  "('k, 'd, 's) service \<Rightarrow> message_decoder \<Rightarrow> form \<Rightarrow> string \<Rightarrow> string \<Rightarrow> web_state \<Rightarrow> ('k, 'd) server
     \<Rightarrow> (http_response \<times> (authorization \<times> nat) option) \<times> web_state \<times> ('k, 'd) server" where
  "handshake sv md parse rpc body w st =
     (let (auth, st) = auth_from_body sv parse body st;
          sid = ''wf'' @ show_nat (unat (wb_counter w)) @ ''-'' @ show_hex (unat (rc_now_us (sv_context sv) (st_driver st)));
          w = w\<lparr>wb_counter := wb_counter w + 1\<rparr>
      in case (if rpc = ''Listen'' then Some (To_listen []) else if rpc = ''Write'' then Some (To_write []) else None) of
           None \<Rightarrow> ((text_response 404 ''unknown rpc'', None), w, st)
         | Some sender \<Rightarrow>
             (let n = length (wb_channels w);
                  (r, ch) = deliver md (decode_forward_body parse body) (make_session sender);
                  w = w\<lparr>wb_channels := wb_channels w @ [ch], wb_sessions := hm_insert sid n (wb_sessions w)\<rparr>
              in case r of
                   Inl e \<Rightarrow> ((error_response e, Some (auth, n)), w, st)
                 | Inr _ \<Rightarrow>
                     ((\<lparr>hr_code = 200, hr_session = Some sid,
                        hr_body = Text_body (frame (''[[0,['' @ quote ''c'' @ '','' @ quote sid @ '',null,8]]]''))\<rparr>, Some (auth, n)), w, st)))"

section \<open>Back channels\<close>

record back_task =
  bk_cursor :: u64
  bk_long_polling :: bool
  bk_hold_ms :: nat

definition noop :: "channel \<Rightarrow> string \<times> channel" where
  "noop ch = (let (i, ch) = alloc_control_id ch in (frame (''[['' @ show_nat (unat i) @ '',['' @ quote ''noop'' @ '']]]''), ch))"

text \<open>The start of a back channel: its first chunk and the task that follows.\<close>

definition start_back :: "(string \<times> string) list \<Rightarrow> channel \<Rightarrow> (string \<times> back_task) \<times> channel" where
  "start_back params ch =
     (let (chunk, ch) = noop (take_ack params ch)
      in ((chunk, \<lparr>bk_cursor = 0, bk_long_polling = hm_get params ''CI'' = Some ''1'',
            bk_hold_ms = (case Option.bind (hm_get params ''TO'') parse_unsigned of Some t \<Rightarrow> t | None \<Rightarrow> 30000)\<rparr>), ch))"

definition backchannel ::
  "(string \<times> string) list \<Rightarrow> web_state \<Rightarrow> (http_response + string \<times> back_task) \<times> web_state" where
  "backchannel params w =
     (case Option.bind (hm_get params ''SID'') (hm_get (wb_sessions w)) of
        None \<Rightarrow> (Inl unknown_sid, w)
      | Some n \<Rightarrow>
          (let (started, ch) = start_back params (wb_channels w ! n)
           in (Inr started, w\<lparr>wb_channels := (wb_channels w)[n := ch]\<rparr>)))"

definition pending :: "u64 \<Rightarrow> channel \<Rightarrow> (u64 \<times> string) list" where
  "pending cursor ch = filter (\<lambda>(i, _). cursor < i) (ch_arrays ch)"

definition array_frame :: "u64 \<times> string \<Rightarrow> string" where
  "array_frame a = (case a of (i, payload) \<Rightarrow> frame (''[['' @ show_nat (unat i) @ '','' @ payload @ '']]''))"

text \<open>
  One turn of the loop after \<open>elapsed\<close> milliseconds: arrays are sent, with the end of a long
  poll after them, or the task ends, or it waits for a push.
\<close>

datatype turn = Sends string bool | Ends | Waits

definition back_turn :: "nat \<Rightarrow> channel \<Rightarrow> back_task \<Rightarrow> turn \<times> back_task" where
  "back_turn elapsed ch task =
     (if ch_terminated ch then (Ends, task)
      else
        (let ps = pending (bk_cursor task) ch
         in if ps \<noteq> [] then (Sends (concat (map array_frame ps)) (bk_long_polling task), task\<lparr>bk_cursor := fst (last ps)\<rparr>)
            else if bk_long_polling task \<and> bk_hold_ms task \<le> elapsed then (Ends, task)
            else (Waits, task)))"

section \<open>Dispatch\<close>

datatype web_answer = Answered http_response | Streams string back_task

definition handle_channel ::
  "('k, 'd, 's) service \<Rightarrow> message_decoder \<Rightarrow> form \<Rightarrow> string \<Rightarrow> string option \<Rightarrow> string \<Rightarrow> web_state \<Rightarrow> ('k, 'd) server
     \<Rightarrow> web_answer \<times> web_state \<times> ('k, 'd) server" where
  "handle_channel sv md parse rpc raw_query body w st =
     (let params = query_map parse raw_query
      in if hm_get params ''TYPE'' = Some ''terminate'' then
           (Answered (text_response 204 []),
            (case hm_get params ''SID'' of Some sid \<Rightarrow> w\<lparr>wb_sessions := hm_remove sid (wb_sessions w)\<rparr> | None \<Rightarrow> w), st)
         else if hm_get params ''RID'' = Some ''rpc'' then
           (let (r, w) = backchannel params w
            in (case r of Inl resp \<Rightarrow> Answered resp | Inr (chunk, task) \<Rightarrow> Streams chunk task, w, st))
         else
           (case hm_get params ''SID'' of
              None \<Rightarrow> (let ((resp, _), w, st) = handshake sv md parse rpc body w st in (Answered resp, w, st))
            | Some sid \<Rightarrow> (let (resp, w) = forward_post md parse sid params body w in (Answered resp, w, st))))"

text \<open>The path of the middleware: the RPC of a channel's path.\<close>

definition channel_rpc :: "string \<Rightarrow> string option" where
  "channel_rpc path = Option.bind (strip_prefix ''/google.firestore.v1.Firestore/'' path) (strip_suffix ''/channel'')"

definition code_name :: "grpc_code \<Rightarrow> string" where
  "code_name code =
     (case code of
        Code_ok \<Rightarrow> ''OK''
      | Code_cancelled \<Rightarrow> ''CANCELLED''
      | Code_unknown \<Rightarrow> ''UNKNOWN''
      | Code_invalid_argument \<Rightarrow> ''INVALID_ARGUMENT''
      | Code_deadline_exceeded \<Rightarrow> ''DEADLINE_EXCEEDED''
      | Code_not_found \<Rightarrow> ''NOT_FOUND''
      | Code_already_exists \<Rightarrow> ''ALREADY_EXISTS''
      | Code_permission_denied \<Rightarrow> ''PERMISSION_DENIED''
      | Code_resource_exhausted \<Rightarrow> ''RESOURCE_EXHAUSTED''
      | Code_failed_precondition \<Rightarrow> ''FAILED_PRECONDITION''
      | Code_aborted \<Rightarrow> ''ABORTED''
      | Code_out_of_range \<Rightarrow> ''OUT_OF_RANGE''
      | Code_unimplemented \<Rightarrow> ''UNIMPLEMENTED''
      | Code_internal \<Rightarrow> ''INTERNAL''
      | Code_unavailable \<Rightarrow> ''UNAVAILABLE''
      | Code_data_loss \<Rightarrow> ''DATA_LOSS''
      | Code_unauthenticated \<Rightarrow> ''UNAUTHENTICATED'')"

text \<open>
  What the RPC answers becomes an array: its JSON, or the object of the status it ended with, whose
  text \<open>error_json\<close> renders.
\<close>

definition rpc_answer :: "(string \<Rightarrow> string \<Rightarrow> string) \<Rightarrow> status + string \<Rightarrow> channel \<Rightarrow> channel" where
  "rpc_answer error_json item ch =
     (case item of
        Inr json \<Rightarrow> push_array (''['' @ ascii_json json @ '']'') ch
      | Inl status \<Rightarrow>
          (let (code, message) = status_code status
           in push_array (''['' @ ascii_json (error_json (code_name code) message) @ '']'') ch))"

lemma code_names_agree: "code_name code = snd (http_code code)"
  by (cases code) (simp_all add: code_name_def http_code_def)

end
