(* ===== verification/WebChannelProps.thy ===== *)
theory WebChannelProps
  imports WebChannel
begin

text \<open>
  The wire of a channel: frames read back, escaped text is ASCII; no array is lost or sent twice on a
  back channel; a repeated request delivers nothing again.
\<close>

section \<open>Frames\<close>

text \<open>A reader of frames, as the client has one: a length, a line end, and so many characters.\<close>

function deframe :: "string \<Rightarrow> string list option" where
  "deframe s =
     (if s = [] then Some []
      else case split_once CHR 0x0A s of
          None \<Rightarrow> None
        | Some (len, rest) \<Rightarrow>
            (case parse_nat len of
               None \<Rightarrow> None
             | Some n \<Rightarrow> if length rest < n then None else map_option ((#) (take n rest)) (deframe (drop n rest))))"
  by pat_completeness auto
termination
  by (relation "measure length") (auto simp: split_once_Some)

declare deframe.simps [simp del]

text \<open>
  Frames can be read back: the client that takes a length and then so many characters gets
  from any sequence of frames exactly the payloads that were framed, in order.
\<close>

theorem frames_roundtrip: "deframe (concat (map frame payloads)) = Some payloads"
proof (induction payloads)
  case Nil
  show ?case by (simp add: deframe.simps)
next
  case (Cons p ps)
  have "CHR 0x0A \<notin> set (show_nat (length p))"
    using show_nat_digits [of "CHR 0x0A" "length p"] by (auto simp: is_ascii_digit_def)
  then have s: "split_once CHR 0x0A (frame p @ rest) = Some (show_nat (length p), p @ rest)" for rest
    by (simp add: frame_def split_once_Some)
  show ?case
    by (subst deframe.simps) (simp add: s parse_nat_show Cons.IH, simp add: frame_def)
qed

lemma hex_digit_ascii: "n < 16 \<Longrightarrow> (of_char (hex_digit n) :: nat) < 128"
  by (simp add: hex_digit_def)

lemma ascii_json_ascii: "c \<in> set (ascii_json json) \<Longrightarrow> (of_char c :: nat) < 128"
  by (auto simp: ascii_json_def is_ascii_def hex4_def hex_digit_ascii split: if_splits list.splits)

section \<open>What a wire carries\<close>

text \<open>
  Every frame of a back channel is an id with a payload; a keep-alive is one with the payload
  \<open>keep_alive\<close>.  \<open>on_wire\<close> reads the bytes of a back channel.
\<close>

definition keep_alive :: string where "keep_alive = ''['' @ quote ''noop'' @ '']''"

definition wire_of :: "(u64 \<times> string) list \<Rightarrow> string" where "wire_of fs = concat (map array_frame fs)"

definition on_wire :: "string \<Rightarrow> u64 \<times> string \<Rightarrow> bool" where
  "on_wire wire a \<longleftrightarrow> (\<exists>fs. wire = wire_of fs \<and> a \<in> set fs)"

lemma wire_of_append [simp]: "wire_of (fs @ gs) = wire_of fs @ wire_of gs"
  by (simp add: wire_of_def)

lemma noop_frame: "noop ch = (wire_of [(ch_next_id ch, keep_alive)], ch\<lparr>ch_next_id := ch_next_id ch + 1\<rparr>)"
  by (simp add: noop_def alloc_control_id_def wire_of_def array_frame_def keep_alive_def)

lemma array_body_inject:
  assumes "show_nat n @ CHR '','' # p = show_nat m @ CHR '','' # q"
  shows "n = m \<and> p = q"
proof -
  have d: "CHR '','' \<notin> set (show_nat k)" for k
    using show_nat_digits [of "CHR '',''" k] by (auto simp: is_ascii_digit_def)
  have "split_once CHR '','' (show_nat k @ CHR '','' # r) = Some (show_nat k, r)" for k r
    using d by (simp add: split_once_Some)
  from this [of n p] this [of m q] have "show_nat n = show_nat m" "p = q" unfolding assms by auto
  then show ?thesis using parse_nat_show by (metis option.inject)
qed

lemma wire_of_inject: "wire_of fs = wire_of gs \<longleftrightarrow> fs = gs"
proof
  define body where "body = (\<lambda>(i :: u64, payload). ''[['' @ show_nat (unat i) @ '','' @ payload @ '']]'')"
  have f: "wire_of hs = concat (map frame (map body hs))" for hs
    by (induction hs) (auto simp: wire_of_def array_frame_def body_def)
  have "inj body"
    by (rule injI) (auto simp: body_def word_unat_eq_iff dest!: array_body_inject)
  assume "wire_of fs = wire_of gs"
  then have "map body fs = map body gs" unfolding f using frames_roundtrip by (metis option.inject)
  then show "fs = gs" using \<open>inj body\<close> by (simp add: inj_map_eq_map)
qed simp

lemma on_wire_of [simp]: "on_wire (wire_of fs) a \<longleftrightarrow> a \<in> set fs"
  by (auto simp: on_wire_def wire_of_inject)

section \<open>A channel and its back channels\<close>

text \<open>
  An acknowledgement a client may make after reading the arrays \<open>pushed\<close> from \<open>wires\<close>: none
  yet, or the id of an array, not of a keep-alive, that one of its back channels carried.
\<close>

definition sound_ack :: "u64 \<Rightarrow> (u64 \<times> string) list \<Rightarrow> string list \<Rightarrow> bool" where
  "sound_ack k pushed wires \<longleftrightarrow> k = 0 \<or> (\<exists>a \<in> set pushed. fst a = k \<and> (\<exists>w \<in> set wires. on_wire w a))"

definition acked :: "(string \<times> string) list \<Rightarrow> (u64 \<times> string) list \<Rightarrow> string list \<Rightarrow> (u64 \<times> bool) list" where
  "acked params pushed wires =
     (case Option.bind (hm_get params ''AID'') parse_unsigned of
        Some aid \<Rightarrow> [(of_nat aid, sound_ack (of_nat aid) pushed wires)]
      | None \<Rightarrow> [])"

text \<open>
  What may happen to a channel: \<open>pushed\<close> are the arrays pushed so far, \<open>acks\<close> the
  acknowledgements received, each with whether it was sound when it came, and \<open>wires\<close> the bytes
  that its back channels put out, the present one first.  \<open>control\<close> is the keep-alive of a back
  channel that a reconnection left behind.  The ids stay below the largest word.
\<close>

inductive channel_run ::
  "channel \<Rightarrow> (u64 \<times> string) list \<Rightarrow> (u64 \<times> bool) list \<Rightarrow> back_task \<Rightarrow> string list \<Rightarrow> bool" where
  opened: "bk_cursor task = 0 \<Longrightarrow> channel_run (make_session sender) [] [] task [[]]"
| push: "channel_run ch pushed acks task wires \<Longrightarrow> ch_next_id ch \<noteq> - 1 \<Longrightarrow>
    channel_run (push_array payload ch) (pushed @ [(ch_next_id ch, payload)]) acks task wires"
| control: "channel_run ch pushed acks task wires \<Longrightarrow> ch_next_id ch \<noteq> - 1 \<Longrightarrow>
    channel_run (snd (alloc_control_id ch)) pushed acks task wires"
| keeps_alive: "channel_run ch pushed acks task (wire # wires) \<Longrightarrow> ch_next_id ch \<noteq> - 1 \<Longrightarrow> noop ch = (chunk, ch') \<Longrightarrow>
    channel_run ch' pushed acks task ((wire @ chunk) # wires)"
| post: "channel_run ch pushed acks task wires \<Longrightarrow>
    channel_run (snd (forward_channel md parse params body ch)) pushed (acked params pushed wires @ acks) task wires"
| reconnect: "channel_run ch pushed acks task wires \<Longrightarrow> ch_next_id ch \<noteq> - 1 \<Longrightarrow> start_back params ch = ((chunk, task'), ch') \<Longrightarrow>
    channel_run ch' pushed (acked params pushed wires @ acks) task' (chunk # wires)"
| follow: "channel_run ch pushed acks task (wire # wires) \<Longrightarrow> back_turn elapsed ch task = (Sends out over, task') \<Longrightarrow>
    channel_run ch pushed acks task' ((wire @ out) # wires)"

text \<open>The invariant, over the frames of each back channel.\<close>

abbreviation by_id :: "(u64 \<times> string) list \<Rightarrow> bool" where
  "by_id as \<equiv> sorted_wrt (\<lambda>a b. fst a < fst b) as"

definition arrays_of :: "(u64 \<times> string) list \<Rightarrow> (u64 \<times> string) list \<Rightarrow> (u64 \<times> string) list" where
  "arrays_of pushed fs = filter (\<lambda>f. f \<in> set pushed) fs"

definition frames_ok :: "u64 \<Rightarrow> (u64 \<times> string) list \<Rightarrow> (u64 \<times> string) list \<Rightarrow> bool" where
  "frames_ok next pushed fs \<longleftrightarrow> by_id (arrays_of pushed fs)
     \<and> (\<forall>f \<in> set fs. fst f < next \<and> (f \<in> set pushed \<or> snd f = keep_alive))"

definition tracked_buffer :: "channel \<Rightarrow> (u64 \<times> string) list \<Rightarrow> (u64 \<times> bool) list \<Rightarrow> bool" where
  "tracked_buffer ch pushed acks \<longleftrightarrow>
     by_id pushed \<and> (\<forall>a \<in> set pushed. 0 < fst a \<and> fst a < ch_next_id ch) \<and> 0 < ch_next_id ch
   \<and> (\<exists>P. ch_arrays ch = filter P pushed) \<and> (\<forall>a \<in> set pushed. (\<forall>k \<in> set acks. fst k < fst a) \<longrightarrow> a \<in> set (ch_arrays ch))"

definition tracked_present ::
  "channel \<Rightarrow> (u64 \<times> string) list \<Rightarrow> back_task \<Rightarrow> (u64 \<times> string) list \<Rightarrow> bool" where
  "tracked_present ch pushed task fs \<longleftrightarrow>
     bk_cursor task < ch_next_id ch \<and> (\<forall>f \<in> set fs. f \<in> set pushed \<longrightarrow> fst f \<le> bk_cursor task)
   \<and> (\<forall>a \<in> set (ch_arrays ch). fst a \<le> bk_cursor task \<longrightarrow> a \<in> set fs)"

text \<open>What is buffered up to an array that some back channel carried was carried itself.\<close>

definition tracked_past ::
  "channel \<Rightarrow> (u64 \<times> string) list \<Rightarrow> (u64 \<times> bool) list \<Rightarrow> (u64 \<times> string) set \<Rightarrow> bool" where
  "tracked_past ch pushed acks carried \<longleftrightarrow>
     (\<forall>b \<in> carried. b \<in> set pushed \<longrightarrow> (\<forall>a \<in> set (ch_arrays ch). fst a \<le> fst b \<longrightarrow> a \<in> carried))
   \<and> ((\<forall>k \<in> set acks. snd k) \<longrightarrow> (\<forall>a \<in> set pushed. a \<in> set (ch_arrays ch) \<or> a \<in> carried))"

definition tracked_channel ::
  "channel \<Rightarrow> (u64 \<times> string) list \<Rightarrow> (u64 \<times> bool) list \<Rightarrow> back_task \<Rightarrow> (u64 \<times> string) list list \<Rightarrow> bool" where
  "tracked_channel ch pushed acks task fss \<longleftrightarrow>
     fss \<noteq> [] \<and> tracked_buffer ch pushed acks \<and> (\<forall>fs \<in> set fss. frames_ok (ch_next_id ch) pushed fs)
   \<and> tracked_present ch pushed task (hd fss) \<and> tracked_past ch pushed acks (\<Union> (set ` set fss))"

lemma next_up: "i \<noteq> - 1 \<Longrightarrow> j < i + (1 :: u64) \<longleftrightarrow> j < i \<or> j = i"
proof -
  assume "i \<noteq> - 1"
  then have "1 + i \<noteq> 0" by (metis add.commute add_eq_0_iff minus_minus)
  then have "unat (i + 1) = Suc (unat i)" using unatSuc [of i] by (simp add: add.commute)
  then show ?thesis by (auto simp: word_less_nat_alt less_Suc_eq dest: unsigned_word_eqI)
qed

lemmas tracked_defs = tracked_channel_def tracked_buffer_def tracked_present_def tracked_past_def

lemma sound_ack_frames:
  "sound_ack k pushed (map wire_of fss) \<longleftrightarrow> k = 0 \<or> (\<exists>a \<in> set pushed. fst a = k \<and> a \<in> \<Union> (set ` set fss))"
  by (auto simp: sound_ack_def)

lemma tracked_ack:
  assumes "tracked_channel ch pushed acks task fss"
  shows "tracked_channel (ack aid ch) pushed ((aid, sound_ack aid pushed (map wire_of fss)) # acks) task fss"
proof -
  let ?sound = "sound_ack aid pushed (map wire_of fss)" and ?carried = "\<Union> (set ` set fss)"
  have m: "set (ch_arrays (ack aid ch)) = {a \<in> set (ch_arrays ch). aid < fst a}" "ch_next_id (ack aid ch) = ch_next_id ch"
    by (auto simp: ack_def)
  obtain P where P: "ch_arrays ch = filter P pushed" using assms by (auto simp: tracked_defs)
  then have "ch_arrays (ack aid ch) = filter (\<lambda>a. P a \<and> aid < fst a) pushed"
    by (simp add: ack_def split_def conj_commute)
  then have "\<exists>Q. ch_arrays (ack aid ch) = filter Q pushed" by blast
  then have buffer: "tracked_buffer (ack aid ch) pushed ((aid, ?sound) # acks)"
    using assms unfolding tracked_channel_def tracked_buffer_def m by auto
  have "aid < fst a" if s: "?sound" and a: "a \<in> set (ch_arrays ch)" "a \<notin> ?carried" for a
  proof (rule ccontr)
    assume "\<not> aid < fst a"
    moreover have "0 < fst a" using assms a(1) P by (auto simp: tracked_defs)
    ultimately have "aid \<noteq> 0" by (auto simp: word_le_0_iff not_less)
    then obtain b where "b \<in> set pushed" "fst b = aid" "b \<in> ?carried" using s unfolding sound_ack_frames by blast
    then show False using assms a \<open>\<not> aid < fst a\<close> unfolding tracked_channel_def tracked_past_def not_less by blast
  qed
  then have "tracked_past (ack aid ch) pushed ((aid, ?sound) # acks) ?carried"
    using assms unfolding tracked_channel_def tracked_past_def m by auto
  then show ?thesis using assms buffer unfolding tracked_channel_def tracked_present_def m by auto
qed

lemma tracked_take_ack:
  "tracked_channel ch pushed acks task fss \<Longrightarrow>
     tracked_channel (take_ack params ch) pushed (acked params pushed (map wire_of fss) @ acks) task fss"
  using tracked_ack by (auto simp: take_ack_def acked_def split: option.splits)

lemma tracked_same_arrays:
  "tracked_channel ch pushed acks task fss \<Longrightarrow> ch_arrays ch' = ch_arrays ch \<Longrightarrow> ch_next_id ch' = ch_next_id ch \<Longrightarrow>
     tracked_channel ch' pushed acks task fss"
  by (simp add: tracked_defs)

lemma deliver_arrays:
  "deliver md jsons ch = (r, ch') \<Longrightarrow> ch_arrays ch' = ch_arrays ch \<and> ch_next_id ch' = ch_next_id ch"
proof (induction md jsons ch arbitrary: r ch' rule: deliver.induct)
  case (2 md json jsons ch)
  then show ?case by (auto simp: split: sum.splits forward_sender.splits if_splits)
qed simp

lemma forward_arrays:
  "ch_arrays (snd (forward_channel md parse params body ch)) = ch_arrays (take_ack params ch)
    \<and> ch_next_id (snd (forward_channel md parse params body ch)) = ch_next_id (take_ack params ch)"
  by (auto simp: forward_channel_def Let_def split: option.splits prod.splits sum.splits if_splits dest!: deliver_arrays)

lemma frames_ok_next: "frames_ok n pushed fs \<Longrightarrow> n \<noteq> - 1 \<Longrightarrow> frames_ok (n + 1) pushed fs"
  by (auto simp: frames_ok_def next_up)

lemma tracked_control:
  assumes "tracked_channel ch pushed acks task fss" "ch_next_id ch \<noteq> - 1"
  shows "tracked_channel (ch\<lparr>ch_next_id := ch_next_id ch + 1\<rparr>) pushed acks task fss"
  using assms next_up [OF assms(2)] frames_ok_next by (auto simp: tracked_defs)

text \<open>A keep-alive on the present back channel.\<close>

lemma tracked_noop:
  assumes "tracked_channel ch pushed acks task (fs # fss)" "ch_next_id ch \<noteq> - 1"
  shows "tracked_channel (ch\<lparr>ch_next_id := ch_next_id ch + 1\<rparr>) pushed acks task ((fs @ [(ch_next_id ch, keep_alive)]) # fss)"
proof -
  let ?n = "(ch_next_id ch, keep_alive)"
  have t: "tracked_channel (ch\<lparr>ch_next_id := ch_next_id ch + 1\<rparr>) pushed acks task (fs # fss)" by (rule tracked_control [OF assms])
  have new: "?n \<notin> set pushed" using assms(1) by (auto simp: tracked_defs)
  then have a: "arrays_of pushed (fs @ [?n]) = arrays_of pushed fs" by (simp add: arrays_of_def)
  have "frames_ok (ch_next_id ch + 1) pushed (fs @ [?n])"
    using t unfolding tracked_channel_def frames_ok_def a by (auto simp: next_up [OF assms(2)])
  moreover have "tracked_past (ch\<lparr>ch_next_id := ch_next_id ch + 1\<rparr>) pushed acks (\<Union> (set ` set ((fs @ [?n]) # fss)))"
    using t new unfolding tracked_channel_def tracked_past_def by auto
  ultimately show ?thesis using t new unfolding tracked_channel_def tracked_present_def by auto
qed

lemma tracked_push:
  assumes "tracked_channel ch pushed acks task fss" "ch_next_id ch \<noteq> - 1"
  shows "tracked_channel (push_array payload ch) (pushed @ [(ch_next_id ch, payload)]) acks task fss"
proof -
  let ?new = "(ch_next_id ch, payload)"
  let ?ch = "push_array payload ch"
  have n: "ch_next_id ?ch = ch_next_id ch + 1" "ch_arrays ?ch = ch_arrays ch @ [?new]" by (simp_all add: push_array_def Let_def)
  obtain P where P: "ch_arrays ch = filter P pushed" using assms(1) by (auto simp: tracked_defs)
  have fresh: "?new \<notin> set pushed" using assms(1) by (auto simp: tracked_defs)
  then have "filter P pushed = filter (\<lambda>a. P a \<or> a = ?new) pushed" by (intro filter_cong) auto
  then have "ch_arrays ?ch = filter (\<lambda>a. P a \<or> a = ?new) (pushed @ [?new])" by (simp add: n P)
  then have "\<exists>Q. ch_arrays ?ch = filter Q (pushed @ [?new])" by blast
  then have buffer: "tracked_buffer ?ch (pushed @ [?new]) acks"
    using assms(1) unfolding tracked_channel_def tracked_buffer_def n by (auto simp: sorted_wrt_append next_up [OF assms(2)])
  have absent: "?new \<notin> set fs" if "fs \<in> set fss" for fs
    using assms(1) that by (fastforce simp: tracked_channel_def frames_ok_def)
  then have "arrays_of (pushed @ [?new]) fs = arrays_of pushed fs" if "fs \<in> set fss" for fs
    using that by (auto simp: arrays_of_def intro!: filter_cong)
  then have frames: "\<forall>fs \<in> set fss. frames_ok (ch_next_id ch + 1) (pushed @ [?new]) fs"
    using assms(1) unfolding tracked_channel_def frames_ok_def by (auto simp: next_up [OF assms(2)])
  have "fss \<noteq> []" using assms(1) by (simp add: tracked_channel_def)
  then have h: "?new \<notin> set (hd fss)" using absent by simp
  have present: "tracked_present ?ch (pushed @ [?new]) task (hd fss)"
    using assms(1) h unfolding tracked_channel_def tracked_present_def n by (auto simp: next_up [OF assms(2)])
  have old: "fst b < ch_next_id ch" if "b \<in> set pushed" for b using assms(1) that by (auto simp: tracked_defs)
  have "tracked_past ?ch (pushed @ [?new]) acks (\<Union> (set ` set fss))"
    using assms(1) absent old unfolding tracked_channel_def tracked_past_def n by (fastforce simp: not_le)
  then show ?thesis using buffer frames present \<open>fss \<noteq> []\<close> unfolding tracked_channel_def n by blast
qed

lemma tracked_array:
  "tracked_channel ch pushed acks task fss \<Longrightarrow> a \<in> set (ch_arrays ch) \<Longrightarrow> a \<in> set pushed \<and> 0 < fst a"
  unfolding tracked_channel_def tracked_buffer_def by force

lemma tracked_reconnect:
  assumes "tracked_channel ch pushed acks task fss" "bk_cursor task' = 0"
  shows "tracked_channel ch pushed acks task' ([] # fss)"
proof -
  have "\<forall>a \<in> set (ch_arrays ch). fst a \<noteq> 0" using tracked_array [OF assms(1)] by force
  then have "tracked_present ch pushed task' []" using assms by (auto simp: tracked_defs word_le_0_iff)
  moreover have "frames_ok n pushed []" for n by (simp add: frames_ok_def arrays_of_def)
  moreover have "\<Union> (set ` set ([] # fss)) = \<Union> (set ` set fss)" by simp
  ultimately show ?thesis using assms(1) unfolding tracked_channel_def by (auto simp del: Union_image_insert image_insert)
qed

lemma by_id_last: "by_id xs \<Longrightarrow> a \<in> set xs \<Longrightarrow> fst a \<le> fst (last xs)"
proof (induction xs rule: rev_induct)
  case (snoc x xs)
  then show ?case by (auto simp: sorted_wrt_append intro: less_imp_le)
qed simp

lemma tracked_follow:
  assumes "tracked_channel ch pushed acks task (fs # fss)" "back_turn elapsed ch task = (Sends out over, task')"
  shows "out = wire_of (pending (bk_cursor task) ch)"
    "tracked_channel ch pushed acks task' ((fs @ pending (bk_cursor task) ch) # fss)"
proof -
  let ?ps = "pending (bk_cursor task) ch"
  from assms(2) have ne: "?ps \<noteq> []" and task': "bk_cursor task' = fst (last ?ps)" and "out = wire_of ?ps"
    by (auto simp: back_turn_def wire_of_def Let_def split: if_splits)
  then show "out = wire_of ?ps" by simp
  obtain P where P: "ch_arrays ch = filter P pushed" using assms(1) by (auto simp: tracked_defs)
  have mem: "a \<in> set ?ps \<longleftrightarrow> a \<in> set (ch_arrays ch) \<and> bk_cursor task < fst a" for a by (auto simp: pending_def)
  have sub: "set ?ps \<subseteq> set pushed" using P mem by auto
  have "by_id pushed" using assms(1) by (simp add: tracked_defs)
  then have sp: "by_id ?ps" unfolding pending_def P by (intro sorted_wrt_filter)
  have last: "fst a \<le> fst (last ?ps)" if "a \<in> set ?ps" for a using by_id_last [OF sp that] .
  have "last ?ps \<in> set ?ps" using ne by simp
  then have l: "last ?ps \<in> set pushed" "bk_cursor task < fst (last ?ps)" using sub mem by blast+
  have p: "arrays_of pushed ?ps = ?ps" using sub unfolding arrays_of_def by (intro filter_True) auto
  have present: "tracked_present ch pushed task (fs :: (u64 \<times> string) list)" using assms(1) by (simp add: tracked_channel_def)
  have "fst x < fst y" if "x \<in> set (arrays_of pushed fs)" "y \<in> set ?ps" for x y
  proof (rule le_less_trans)
    show "fst x \<le> bk_cursor task" using that(1) present by (simp add: tracked_present_def arrays_of_def)
    show "bk_cursor task < fst y" using that(2) mem by blast
  qed
  moreover have "by_id (arrays_of pushed fs)" using assms(1) by (simp add: tracked_channel_def frames_ok_def)
  ultimately have "by_id (arrays_of pushed fs @ ?ps)" using sp by (simp add: sorted_wrt_append)
  then have frames: "frames_ok (ch_next_id ch) pushed (fs @ ?ps)"
    using assms(1) sub p by (auto simp: frames_ok_def tracked_defs arrays_of_def)
  have "tracked_present ch pushed task' (fs @ ?ps)"
    using present l last mem assms(1) unfolding tracked_present_def task'
    by (auto simp: tracked_defs not_le intro: less_imp_le order_trans)
  moreover have "tracked_past ch pushed acks (\<Union> (set ` set ((fs @ ?ps) # fss)))"
  proof -
    have "a \<in> set fs \<union> set ?ps" if "a \<in> set (ch_arrays ch)" "fst a \<le> fst b" "b \<in> set ?ps" for a b
      using that present mem by (cases "fst a \<le> bk_cursor task") (auto simp: tracked_present_def not_le)
    then show ?thesis using assms(1) unfolding tracked_channel_def tracked_past_def by auto
  qed
  ultimately show "tracked_channel ch pushed acks task' ((fs @ ?ps) # fss)"
    using assms(1) frames unfolding tracked_channel_def by simp
qed

lemma turn_empties:
  assumes "tracked_channel ch pushed acks task fss" "pending cursor ch \<noteq> []"
  shows "pending (fst (last (pending cursor ch))) ch = []"
proof -
  obtain P where P: "ch_arrays ch = filter P pushed" using assms(1) by (auto simp: tracked_defs)
  have "by_id pushed" using assms(1) by (simp add: tracked_defs)
  then have s: "by_id (pending cursor ch)" unfolding pending_def P by (intro sorted_wrt_filter)
  have "cursor < fst (last (pending cursor ch))" using last_in_set [OF assms(2)] by (auto simp: pending_def)
  moreover have "fst a \<le> fst (last (pending cursor ch))" if "a \<in> set (ch_arrays ch)" "cursor < fst a" for a
    using by_id_last [OF s, of a] that by (cases a) (simp add: pending_def)
  ultimately show ?thesis by (fastforce simp: pending_def filter_empty_conv not_less)
qed

lemma channel_run_tracked:
  "channel_run ch pushed acks task wires \<Longrightarrow> \<exists>fss. wires = map wire_of fss \<and> tracked_channel ch pushed acks task fss"
proof (induction rule: channel_run.induct)
  case (opened task sender)
  then show ?case
    by (intro exI [of _ "[[]]"]) (auto simp: tracked_defs frames_ok_def arrays_of_def make_session_def wire_of_def)
next
  case (push ch pushed acks task wires payload)
  then show ?case using tracked_push by blast
next
  case (control ch pushed acks task wires)
  then show ?case using tracked_control by (auto simp: alloc_control_id_def)
next
  case (keeps_alive ch pushed acks task wire wires chunk ch')
  then obtain fs fss where f: "wire = wire_of fs" "wires = map wire_of fss" "tracked_channel ch pushed acks task (fs # fss)"
    by (auto simp: Cons_eq_map_conv)
  show ?case using tracked_noop [OF f(3) keeps_alive.hyps(2)] keeps_alive.hyps(3) f(1,2)
    by (intro exI [of _ "(fs @ [(ch_next_id ch, keep_alive)]) # fss"]) (auto simp: noop_frame)
next
  case (post ch pushed acks task wires md parse params body)
  then show ?case using tracked_take_ack tracked_same_arrays forward_arrays by metis
next
  case (reconnect ch pushed acks task wires params chunk task' ch')
  then obtain fss where f: "wires = map wire_of fss" "tracked_channel ch pushed acks task fss" by blast
  have n: "ch_next_id (take_ack params ch) = ch_next_id ch" by (simp add: take_ack_def ack_def split: option.splits)
  have s: "chunk = wire_of [(ch_next_id ch, keep_alive)]" "bk_cursor task' = 0"
    "ch' = (take_ack params ch)\<lparr>ch_next_id := ch_next_id ch + 1\<rparr>"
    using reconnect.hyps(3) by (auto simp: start_back_def noop_frame n Let_def)
  from tracked_noop [OF tracked_reconnect [OF tracked_take_ack [OF f(2), of params] s(2)]] reconnect.hyps(2)
  show ?case unfolding f(1) s by (intro exI [of _ "[(ch_next_id ch, keep_alive)] # fss"]) (simp add: n)
next
  case (follow ch pushed acks task wire wires elapsed out over task')
  then obtain fs fss where f: "wire = wire_of fs" "wires = map wire_of fss" "tracked_channel ch pushed acks task (fs # fss)"
    by (auto simp: Cons_eq_map_conv)
  show ?case using tracked_follow [OF f(3) follow.hyps(2)] f(1,2)
    by (intro exI [of _ "(fs @ pending (bk_cursor task) ch) # fss"]) simp
qed

text \<open>
  C19. What a channel's clients get, through pushes, posts, acknowledgements, keep-alives and
  reconnections in any order.  The bytes of every back channel are frames of pushed arrays and
  keep-alives, and the arrays among them come with strictly increasing ids, so none comes twice on a
  back channel.  An array past every acknowledgement is still buffered, for the back channels to
  come, and a buffered array is on the present back channel or pending there.  When the client
  acknowledged only ids of arrays that a back channel of its own carried, every array pushed was
  carried by some back channel or is pending on the present one: nothing is lost.  The next turn of
  the present back channel sends what is pending, all of it, and leaves nothing pending.
\<close>

theorem channel_loses_nothing:
  assumes "channel_run ch pushed acks task wires"
  shows "(\<forall>wire \<in> set wires. \<exists>frames. wire = concat (map array_frame frames)
        \<and> (\<forall>f \<in> set frames. f \<in> set pushed \<or> snd f = keep_alive)
        \<and> sorted_wrt (\<lambda>a b. fst a < fst b) (filter (\<lambda>f. f \<in> set pushed) frames))
    \<and> (\<forall>a \<in> set pushed. (\<forall>k \<in> set acks. fst k < fst a) \<longrightarrow> a \<in> set (ch_arrays ch))
    \<and> (\<forall>a \<in> set (ch_arrays ch). on_wire (hd wires) a \<or> a \<in> set (pending (bk_cursor task) ch))
    \<and> ((\<forall>k \<in> set acks. snd k) \<longrightarrow>
        (\<forall>a \<in> set pushed. (\<exists>wire \<in> set wires. on_wire wire a) \<or> a \<in> set (pending (bk_cursor task) ch)))
    \<and> (\<not> ch_terminated ch \<and> pending (bk_cursor task) ch \<noteq> [] \<longrightarrow> (\<exists>over task'.
        back_turn elapsed ch task = (Sends (concat (map array_frame (pending (bk_cursor task) ch))) over, task')
        \<and> pending (bk_cursor task') ch = []))"
proof -
  obtain fss where w: "wires = map wire_of fss" and t: "tracked_channel ch pushed acks task fss"
    using channel_run_tracked [OF assms] by blast
  have h: "hd wires = wire_of (hd fss)" "hd fss \<in> set fss" using t w by (auto simp: tracked_channel_def hd_map)
  have ok: "frames_ok (ch_next_id ch) pushed fs" if "fs \<in> set fss" for fs using t that by (simp add: tracked_channel_def)
  have frames: "\<exists>frames. wire = concat (map array_frame frames)
        \<and> (\<forall>f \<in> set frames. f \<in> set pushed \<or> snd f = keep_alive)
        \<and> sorted_wrt (\<lambda>a b. fst a < fst b) (filter (\<lambda>f. f \<in> set pushed) frames)" if "wire \<in> set wires" for wire
    using that ok unfolding w by (fastforce simp: wire_of_def frames_ok_def arrays_of_def)
  have present: "a \<in> set (hd fss) \<or> a \<in> set (pending (bk_cursor task) ch)" if "a \<in> set (ch_arrays ch)" for a
    using t that by (cases "fst a \<le> bk_cursor task") (auto simp: tracked_channel_def tracked_present_def pending_def not_le)
  have past: "(\<exists>fs \<in> set fss. a \<in> set fs) \<or> a \<in> set (pending (bk_cursor task) ch)"
    if "\<forall>k \<in> set acks. snd k" "a \<in> set pushed" for a
    using t that present h(2) unfolding tracked_channel_def tracked_past_def by blast
  have "a \<in> set (ch_arrays ch)" if "a \<in> set pushed" "\<forall>k \<in> set acks. fst k < fst a" for a
    using t that unfolding tracked_channel_def tracked_buffer_def by blast
  moreover have "\<exists>over task'. back_turn elapsed ch task = (Sends (concat (map array_frame (pending (bk_cursor task) ch))) over, task')
      \<and> pending (bk_cursor task') ch = []" if "\<not> ch_terminated ch" "pending (bk_cursor task) ch \<noteq> []"
    using that turn_empties [OF t that(2)] by (simp add: back_turn_def Let_def)
  ultimately show ?thesis using frames present past unfolding h by (simp add: w)
qed

section \<open>Examples\<close>

definition sample_decoder :: message_decoder where
  "sample_decoder = \<lparr>md_listen = (\<lambda>_. Inl (Internal [])), md_write = (\<lambda>_. Inl (Internal []))\<rparr>"

definition sample_channel :: channel where
  "sample_channel = push_array ''[2]'' (push_array ''[1]'' (make_session (To_listen [])))"

definition sample_task :: back_task where
  "sample_task = \<lparr>bk_cursor = 0, bk_long_polling = False, bk_hold_ms = 30000\<rparr>"

text \<open>A post with the acknowledgement \<open>2\<close> and no message.\<close>

definition post_two :: "channel \<Rightarrow> channel" where
  "post_two ch = snd (forward_channel sample_decoder (\<lambda>_. []) [(''AID'', ''2'')] [] ch)"

lemma two: "Option.bind (hm_get [(''AID'', ''2'')] ''AID'') parse_unsigned = Some 2"
  by (simp add: parse_unsigned_def parse_nat_def is_ascii_digit_def digit_value_def)

lemma post_two_arrays: "ch_arrays (post_two ch) = filter (\<lambda>a. 2 < fst a) (ch_arrays ch)"
  using forward_arrays [of sample_decoder "\<lambda>_. []" "[(''AID'', ''2'')]" "[]" ch] two
  by (simp add: post_two_def take_ack_def ack_def split_def)

lemma post_two_run:
  assumes "channel_run ch pushed acks task wires"
  shows "channel_run (post_two ch) pushed ((2, sound_ack 2 pushed wires) # acks) task wires"
  using channel_run.post [OF assms, of sample_decoder "\<lambda>_. []" "[(''AID'', ''2'')]" "[]"]
  unfolding post_two_def acked_def two by simp

lemma back_run:
  assumes "channel_run ch pushed acks task wires" "ch_next_id ch \<noteq> - 1"
  shows "channel_run (ch\<lparr>ch_next_id := ch_next_id ch + 1\<rparr>) pushed acks sample_task (wire_of [(ch_next_id ch, keep_alive)] # wires)"
  using channel_run.reconnect [OF assms, of "[]"] by (simp add: start_back_def take_ack_def noop_frame acked_def sample_task_def Let_def)

theorem channel_loses_nothing_witness:
  "\<exists>ch task wires. channel_run ch [(1, ''[1]''), (2, ''[2]'')] [(2, True)] task wires \<and> ch_arrays ch = []
    \<and> (\<forall>a \<in> {(1, ''[1]''), (2, ''[2]'')}. \<exists>wire \<in> set wires. on_wire wire a)"
proof -
  let ?pushed = "[(1, ''[1]''), (2, ''[2]'')]"
  have o: "channel_run (make_session (To_listen [])) [] [] sample_task [[]]"
    by (rule channel_run.opened) (simp add: sample_task_def)
  have r: "channel_run sample_channel ?pushed [] sample_task [[]]"
    using channel_run.push [OF channel_run.push [OF o, of "''[1]''"], of "''[2]''"]
    by (simp add: sample_channel_def make_session_def push_array_def Let_def)
  let ?ch = "sample_channel\<lparr>ch_next_id := 4\<rparr>" and ?first = "wire_of [(3, keep_alive)]"
  have n: "ch_next_id sample_channel = 3" "ch_arrays sample_channel = ?pushed" "\<not> ch_terminated sample_channel"
    by (simp_all add: sample_channel_def make_session_def push_array_def Let_def)
  have b: "channel_run ?ch ?pushed [] sample_task [?first, []]" using back_run [OF r] by (simp add: n)
  have "back_turn 0 ?ch sample_task = (Sends (wire_of ?pushed) False, sample_task\<lparr>bk_cursor := 2\<rparr>)"
    by (simp add: back_turn_def pending_def wire_of_def sample_task_def n)
  from channel_run.follow [OF b this]
  have f: "channel_run ?ch ?pushed [] (sample_task\<lparr>bk_cursor := 2\<rparr>) [wire_of ([(3, keep_alive)] @ ?pushed), []]"
    unfolding wire_of_append .
  have s: "sound_ack 2 ?pushed [wire_of ([(3, keep_alive)] @ ?pushed), []]"
    unfolding sound_ack_def by (simp del: wire_of_append)
  have p: "channel_run (post_two ?ch) ?pushed [(2, True)] (sample_task\<lparr>bk_cursor := 2\<rparr>) [wire_of ([(3, keep_alive)] @ ?pushed), []]"
    using post_two_run [OF f] s by simp
  have e: "ch_arrays (post_two ?ch) = []" by (simp add: post_two_arrays n)
  then have none: "pending c (post_two ?ch) = []" for c by (simp add: pending_def)
  have sound: "\<forall>k \<in> set [(2 :: u64, True)]. snd k" by simp
  note carried = channel_loses_nothing [OF p, THEN conjunct2, THEN conjunct2, THEN conjunct2, THEN conjunct1, THEN mp, OF sound, unfolded none]
  show ?thesis using p e carried
    by (intro exI [of _ "post_two ?ch"] exI [of _ "sample_task\<lparr>bk_cursor := 2\<rparr>"]
        exI [of _ "[wire_of ([(3, keep_alive)] @ ?pushed), []]"] conjI) (assumption, assumption, simp del: wire_of_append)
qed

text \<open>
  The acknowledgement of a keep-alive is not sound, although the client read its id from its back
  channel: an array pushed before, and not yet sent, is dropped.
\<close>

lemma acked_keep_alive_loses:
  "\<exists>ch task wires. channel_run ch [(1, ''[1]'')] [(2, False)] task wires \<and> on_wire (hd wires) (2, keep_alive)
    \<and> ch_arrays ch = [] \<and> (\<forall>wire \<in> set wires. \<not> on_wire wire (1, ''[1]''))"
proof -
  let ?ch = "push_array ''[1]'' (make_session (To_listen []))"
  have o: "channel_run (make_session (To_listen [])) [] [] sample_task [[]]"
    by (rule channel_run.opened) (simp add: sample_task_def)
  have r: "channel_run ?ch [(1, ''[1]'')] [] sample_task [[]]"
    using channel_run.push [OF o, of "''[1]''"] by (simp add: make_session_def)
  have n: "ch_next_id ?ch = 2" "ch_arrays ?ch = [(1, ''[1]'')]" by (simp_all add: make_session_def push_array_def Let_def)
  have b: "channel_run (?ch\<lparr>ch_next_id := 3\<rparr>) [(1, ''[1]'')] [] sample_task [wire_of [(2, keep_alive)], wire_of []]"
    using back_run [OF r] by (simp add: n) (simp add: wire_of_def)
  have s: "\<not> sound_ack 2 [(1, ''[1]'')] [wire_of [(2, keep_alive)], wire_of []]"
    unfolding sound_ack_def by simp
  have "channel_run (post_two (?ch\<lparr>ch_next_id := 3\<rparr>)) [(1, ''[1]'')] [(2, False)] sample_task
      [wire_of [(2, keep_alive)], wire_of []]"
    using post_two_run [OF b] s by simp
  moreover have "ch_arrays (post_two (?ch\<lparr>ch_next_id := 3\<rparr>)) = []" by (simp add: post_two_arrays n)
  ultimately show ?thesis by fastforce
qed

section \<open>Retransmissions\<close>

lemma post_repeated:
  assumes "hm_get params ''RID'' = Some rid" "hm_get params' ''RID'' = Some rid"
    "forward_channel md parse params body ch = (resp, ch1)"
    "set (ch_seen_rids ch1) \<subseteq> set (ch_seen_rids ch2)"
  shows "forward_channel md parse params' body' ch2
      = (text_response 200 (frame (''[1,'' @ show_nat (unat (ch_last_id ch2)) @ '',0]'')), take_ack params' ch2)"
proof -
  have seen: "ch_seen_rids ch' = ch_seen_rids ch" if "deliver md jsons ch = (r, ch')" for jsons ch r ch'
    using that
  proof (induction md jsons ch arbitrary: r ch' rule: deliver.induct)
    case (2 md json jsons ch)
    then show ?case by (auto split: sum.splits forward_sender.splits if_splits)
  qed simp
  have "rid \<in> set (ch_seen_rids ch1)"
    using assms(1,3) by (auto simp: forward_channel_def Let_def split: prod.splits sum.splits if_splits dest!: seen)
  then have "rid \<in> set (ch_seen_rids (take_ack params' ch2))" "ch_last_id (take_ack params' ch2) = ch_last_id ch2"
    using assms(4) by (auto simp: take_ack_def ack_def split: option.splits)
  then show ?thesis by (simp add: forward_channel_def assms(2) Let_def)
qed

text \<open>
  A client may repeat a post: once a request id was posted to a channel, a later post under the
  same id, whatever happened in between and whatever it holds, hands nothing to the RPC and answers
  with the last array id.
\<close>

theorem repeated_post_ignored:
  assumes "hm_get params ''RID'' = Some rid" "hm_get params' ''RID'' = Some rid"
    "forward_channel md parse params body ch = (resp, ch1)"
    "set (ch_seen_rids ch1) \<subseteq> set (ch_seen_rids ch2)"
  shows "forward_channel md parse params' body' ch2
      = (text_response 200 (frame (''[1,'' @ show_nat (unat (ch_last_id ch2)) @ '',0]'')), take_ack params' ch2)"
  using assms by (rule post_repeated)

theorem repeated_post_ignored_witness:
  "\<exists>resp ch. forward_channel sample_decoder (\<lambda>_. [(''count'', ''1''), (''req0___data__'', ''x'')]) [(''RID'', ''7'')] [] sample_channel = (resp, ch)
    \<and> snd (forward_channel sample_decoder (\<lambda>_. [(''count'', ''1''), (''req0___data__'', ''x'')]) [(''RID'', ''7'')] [] ch) = ch"
proof -
  let ?form = "\<lambda>_. [(''count'', ''1''), (''req0___data__'', ''x'')]"
  obtain resp ch where f: "forward_channel sample_decoder ?form [(''RID'', ''7'')] [] sample_channel = (resp, ch)" by fastforce
  have r: "hm_get [(''RID'', ''7'')] ''RID'' = Some ''7''" by simp
  have "snd (forward_channel sample_decoder ?form [(''RID'', ''7'')] [] ch) = take_ack [(''RID'', ''7'')] ch"
    using repeated_post_ignored [OF r r f subset_refl, of "[]"] by simp
  then show ?thesis using f by (simp add: take_ack_def)
qed

text \<open>
  The id is recorded before the messages are decoded: when they are not, the retransmission answers 200
  though nothing was handed over.
\<close>

lemma failed_post_recorded:
  assumes "hm_get params ''RID'' = Some rid" "forward_channel md parse params body ch = (resp, ch1)" "hr_code resp \<noteq> 200"
  shows "hr_code (fst (forward_channel md parse params body ch1)) = 200
    \<and> ch_forward (snd (forward_channel md parse params body ch1)) = ch_forward ch1"
proof -
  have "ch_forward (take_ack params ch1) = ch_forward ch1" by (simp add: take_ack_def ack_def split: option.splits)
  moreover have "forward_channel md parse params body ch1
      = (text_response 200 (frame (''[1,'' @ show_nat (unat (ch_last_id ch1)) @ '',0]'')), take_ack params ch1)"
    by (rule post_repeated [OF assms(1,1,2)]) simp
  ultimately show ?thesis by (simp add: text_response_def)
qed

text \<open>A keep-alive takes an id after those of buffered arrays and is sent before them.\<close>

lemma noop_before_arrays:
  "fst (fst (start_back [] sample_channel)) = frame (''[['' @ show_nat 3 @ '',['' @ quote ''noop'' @ '']]]'')
    \<and> map fst (ch_arrays (snd (start_back [] sample_channel))) = [1, 2]"
  by (simp add: start_back_def noop_def alloc_control_id_def take_ack_def sample_channel_def push_array_def make_session_def Let_def)

end
