(* ===== verification/RulesData.thy ===== *)
theory RulesData
  imports RulesDate
begin

text \<open>
  Properties of rule data: dates against the calendar, equality of maps, base 64.
\<close>

section \<open>Dates\<close>

text \<open>
  C35. \<open>timestamp.date\<close> and the accessors agree on the Gregorian calendar: for every date that
  exists in the years 1 to 9999, the timestamp made of it has that year, month and day, at midnight.
\<close>

theorem date_roundtrip:
  assumes "valid_date (sint y) (sint m) (sint d)"
  shows "\<exists>s. global lib ''timestamp.date'' [VInt y, VInt m, VInt d] = VTimestamp s 0
    \<and> call_method lib (VTimestamp s 0) ''year'' [] = VInt y
    \<and> call_method lib (VTimestamp s 0) ''month'' [] = VInt m
    \<and> call_method lib (VTimestamp s 0) ''day'' [] = VInt d
    \<and> call_method lib (VTimestamp s 0) ''hours'' [] = VInt 0"
proof -
  obtain z where z: "days_from_civil (sint y) (sint m) (sint d) = Some z" using date_encoded [OF assms] by metis
  define s :: i64 where "s = word_of_int (z * 86400)"
  have "in_i64 (z * 86400)" using days_from_civil_range [OF assms z] by (auto simp: in_i64_def)
  then have s: "sint s = z * 86400" unfolding s_def by (rule sint_word_of_int_i64)
  have c: "civil_from_days z = (sint y, sint m, sint d)" by (rule civil_of_days [OF assms z])
  have w: "word_of_int (sint x) = x" for x :: i64 by simp
  have d: "sint s div 86400 = z" "sint s mod 86400 = 0" by (simp_all add: s)
  have "global lib ''timestamp.date'' [VInt y, VInt m, VInt d] = VTimestamp s 0"
    by (simp add: global_def z s_def)
  moreover have "call_method lib (VTimestamp s 0) ''year'' [] = VInt y"
    "call_method lib (VTimestamp s 0) ''month'' [] = VInt m"
    "call_method lib (VTimestamp s 0) ''day'' [] = VInt d"
    "call_method lib (VTimestamp s 0) ''hours'' [] = VInt 0"
    by (simp_all add: call_method_def timestamp_method_def c d w Let_def sdiv_nonneg del: word_of_int_uint)
  ultimately show ?thesis by blast
qed

theorem date_roundtrip_witness:
  "\<forall>lib. \<exists>s. global lib ''timestamp.date'' [VInt 2024, VInt 2, VInt 29] = VTimestamp s 0
    \<and> call_method lib (VTimestamp s 0) ''year'' [] = VInt 2024
    \<and> call_method lib (VTimestamp s 0) ''month'' [] = VInt 2
    \<and> call_method lib (VTimestamp s 0) ''day'' [] = VInt 29
    \<and> call_method lib (VTimestamp s 0) ''hours'' [] = VInt 0"
  by (rule allI, rule date_roundtrip) (simp add: valid_date_def days_in_month_def leap_year_def)

section \<open>Equality of maps\<close>

lemma equals_entries_keys:
  "length a = length b \<Longrightarrow> equals_entries a b \<longleftrightarrow> map fst a = map fst b \<and> list_all2 equals (map snd a) (map snd b)"
  by (induction a b rule: list_induct2) auto

text \<open>
  Equality of maps is extensional although the code compares entries by position: two
  \<open>BTreeMap\<close>s are equal exactly when they have the same keys and equal values under each.
\<close>

theorem map_equality:
  assumes "bt_wf a" "bt_wf b"
  shows "equals (VMap a) (VMap b) \<longleftrightarrow>
    (\<forall>k. case (bt_get a k, bt_get b k) of
           (Some v, Some w) \<Rightarrow> equals v w | (None, None) \<Rightarrow> True | _ \<Rightarrow> False)"
proof
  assume "equals (VMap a) (VMap b)"
  then have e: "length a = length b" "map fst a = map fst b" "list_all2 equals (map snd a) (map snd b)"
    by (auto simp: equals_entries_keys)
  show "\<forall>k. case (bt_get a k, bt_get b k) of (Some v, Some w) \<Rightarrow> equals v w | (None, None) \<Rightarrow> True | _ \<Rightarrow> False"
  proof
    fix k
    from e show "case (bt_get a k, bt_get b k) of (Some v, Some w) \<Rightarrow> equals v w | (None, None) \<Rightarrow> True | _ \<Rightarrow> False"
      by (induction a b rule: list_induct2) auto
  qed
next
  assume r: "\<forall>k. case (bt_get a k, bt_get b k) of (Some v, Some w) \<Rightarrow> equals v w | (None, None) \<Rightarrow> True | _ \<Rightarrow> False"
  have "bt_get a k = None \<longleftrightarrow> bt_get b k = None" for k
    using r [rule_format, of k] by (auto split: option.splits)
  then have "dom (bt_get a) = dom (bt_get b)" by (simp add: dom_def)
  then have "set (map fst a) = set (map fst b)" by (simp add: dom_map_of_conv_image_fst)
  then have keys: "map fst a = map fst b"
    using assms by (simp add: bt_wf_def strict_sorted_equal)
  then have len: "length a = length b" by (metis length_map)
  have "list_all2 equals (map snd a) (map snd b)"
  proof (rule list_all2_all_nthI)
    show "length (map snd a) = length (map snd b)" using len by simp
    fix n assume n: "n < length (map snd a)"
    obtain k v where a: "a ! n = (k, v)" by fastforce
    obtain l w where b: "b ! n = (l, w)" by fastforce
    have "l = k" using keys n a b len by (metis fst_conv length_map nth_map)
    moreover have "bt_get a k = Some v"
      using bt_wf_distinct [OF assms(1)] n a by (metis length_map map_of_is_SomeI nth_mem)
    moreover have "bt_get b l = Some w"
      using bt_wf_distinct [OF assms(2)] n b len by (metis length_map map_of_is_SomeI nth_mem)
    ultimately have "equals v w" using r [rule_format, of k] by simp
    then show "equals (map snd a ! n) (map snd b ! n)" using n a b len by simp
  qed
  then show "equals (VMap a) (VMap b)" using len keys by (simp add: equals_entries_keys)
qed

theorem map_equality_witness:
  "equals (VMap [(''a'', VInt 1), (''b'', VNull)]) (VMap [(''a'', VInt 1), (''b'', VNull)]) \<longleftrightarrow>
    (\<forall>k. case (bt_get [(''a'', VInt 1), (''b'', VNull)] k, bt_get [(''a'', VInt 1), (''b'', VNull)] k) of
           (Some v, Some w) \<Rightarrow> equals v w | (None, None) \<Rightarrow> True | _ \<Rightarrow> False)"
  by (rule map_equality) (simp_all add: less_char_def)

section \<open>Base 64\<close>

text \<open>Reading base 64 back: the 24 bits of four characters.\<close>

definition base64_value :: "char \<Rightarrow> nat" where
  "base64_value c = length (takeWhile (\<lambda>t. t \<noteq> c) base64_table)"

fun base64_decode :: "string \<Rightarrow> nat list" where
  "base64_decode (c0 # c1 # c2 # c3 # cs) =
     (let n = base64_value c0 * 2 ^ 18 + base64_value c1 * 2 ^ 12;
          n2 = n + base64_value c2 * 2 ^ 6;
          n3 = n2 + base64_value c3
      in if c2 = CHR ''='' then [n div 2 ^ 16]
         else if c3 = CHR ''='' then [n2 div 2 ^ 16, n2 div 2 ^ 8 mod 2 ^ 8]
         else [n3 div 2 ^ 16, n3 div 2 ^ 8 mod 2 ^ 8, n3 mod 2 ^ 8] @ base64_decode cs)"
| "base64_decode _ = []"

lemma table_value: "k < 64 \<Longrightarrow> base64_value (base64_table ! k) = k \<and> base64_table ! k \<noteq> CHR ''=''"
proof -
  have "list_all (\<lambda>k. base64_value (base64_table ! k) = k \<and> base64_table ! k \<noteq> CHR ''='') [0..<64]" by code_simp
  then show "k < 64 \<Longrightarrow> base64_value (base64_table ! k) = k \<and> base64_table ! k \<noteq> CHR ''=''" by (simp add: list_all_iff)
qed

lemma sextet: "base64_char n k = base64_table ! (unat n div 2 ^ k mod 64)"
proof -
  have "w AND 63 = take_bit 6 w" for w :: u32 by (simp add: take_bit_eq_mask mask_eq_exp_minus_1)
  then have "unat (drop_bit k n AND 63) = take_bit 6 (drop_bit k (unat n))"
    by (simp only: unsigned_take_bit_eq unat_drop_bit_eq)
  then show ?thesis by (simp add: base64_char_def take_bit_eq_mod drop_bit_eq_div)
qed

lemma sextet_value: "base64_value (base64_char n k) = unat n div 2 ^ k mod 64" "base64_char n k \<noteq> CHR ''=''"
  using table_value [of "unat n div 2 ^ k mod 64"] by (simp_all add: sextet)

definition chunk_bits :: "u8 \<Rightarrow> u8 \<Rightarrow> u8 \<Rightarrow> u32" where
  "chunk_bits b0 b1 b2 = push_bit 16 (ucast b0) OR push_bit 8 (ucast b1) OR ucast b2"

lemma unat_u8_shift:
  fixes b :: u8
  shows "unat (push_bit 16 (ucast b) :: u32) = unat b * 2 ^ 16" "unat (push_bit 8 (ucast b) :: u32) = unat b * 2 ^ 8"
    "unat (ucast b :: u32) = unat b"
  using unat_u8_less [of b]
  by (simp_all only: unsigned_push_bit_eq unsigned_ucast_eq) (simp_all add: take_bit_eq_mod push_bit_eq_mult)

lemma unat_chunk_bits: "unat (chunk_bits b0 b1 b2) = unat b0 * 2 ^ 16 + unat b1 * 2 ^ 8 + unat b2"
proof -
  let ?x = "push_bit 16 (ucast b0) :: u32" and ?y = "push_bit 8 (ucast b1) :: u32" and ?z = "ucast b2 :: u32"
  have 1: "?y OR ?z = ?y + ?z"
    by (rule disjunctive_add_eq_or [symmetric]) (auto simp: bit_eq_iff bit_simps dest!: bit_imp_le_length)
  have 2: "?x OR (?y OR ?z) = ?x + (?y OR ?z)"
    by (rule disjunctive_add_eq_or [symmetric]) (auto simp: bit_eq_iff bit_simps dest!: bit_imp_le_length)
  have "chunk_bits b0 b1 b2 = ?x + (?y + ?z)" by (simp only: chunk_bits_def or.assoc 2) (simp only: 1)
  moreover have yz: "unat (?y + ?z) = unat b1 * 2 ^ 8 + unat b2"
    using unat_u8_less [of b1] unat_u8_less [of b2] by (subst unat_word_ariths) (simp add: unat_u8_shift)
  moreover have "unat (?x + (?y + ?z)) = unat b0 * 2 ^ 16 + unat (?y + ?z)"
    using unat_u8_less [of b0] unat_u8_less [of b1] unat_u8_less [of b2]
    by (subst unat_word_ariths) (simp add: unat_u8_shift yz)
  ultimately show ?thesis by simp
qed

lemma sextets:
  fixes N :: nat
  assumes "N < 2 ^ 24"
  shows "N div 2 ^ 18 mod 64 * 2 ^ 18 + N div 2 ^ 12 mod 64 * 2 ^ 12 + N div 2 ^ 6 mod 64 * 2 ^ 6 + N mod 64 = N"
proof -
  define n1 n2 n3 where "n1 = N div 64" and "n2 = n1 div 64" and "n3 = n2 div 64"
  have d: "N div 2 ^ 6 = n1" "N div 2 ^ 12 = n2" "N div 2 ^ 18 = n3"
    by (simp_all add: n1_def n2_def n3_def div_mult2_eq [symmetric])
  have m: "n3 mod 64 = n3" using assms by (simp add: d(3) [symmetric])
  have "N = n1 * 64 + N mod 64" "n1 = n2 * 64 + n1 mod 64" "n2 = n3 * 64 + n2 mod 64"
    by (simp_all add: n1_def n2_def n3_def)
  then show ?thesis unfolding d m by simp
qed

lemma byte_parts:
  fixes x y z :: nat
  assumes "y < 256" "z < 256"
  shows "(x * 65536 + y * 256 + z) div 65536 = x" "(x * 65536 + y * 256 + z) div 256 mod 256 = y"
    "(x * 65536 + y * 256 + z) mod 256 = z"
proof -
  have s: "x * 65536 + y * 256 + z = (x * 256 + y) * 256 + z" by simp
  have d: "((x * 256 + y) * 256 + z) div 256 = x * 256 + y" using assms by simp
  have "((x * 256 + y) * 256 + z) div 65536 = ((x * 256 + y) * 256 + z) div 256 div 256" by (simp add: div_mult2_eq [symmetric])
  then show "(x * 65536 + y * 256 + z) div 65536 = x" unfolding s d using assms by simp
  show "(x * 65536 + y * 256 + z) div 256 mod 256 = y" unfolding s d using assms by simp
  show "(x * 65536 + y * 256 + z) mod 256 = z" unfolding s mod_mult_self3 using assms by simp
qed

lemma base64_one_byte:
  "base64_decode (base64_encode [b0]) = map unat [b0] \<and> length (base64_encode [b0]) = 4 * ((length [b0] + 2) div 3)"
proof -
  have c: "base64_chunk [b0] = [base64_char (chunk_bits b0 0 0) 18, base64_char (chunk_bits b0 0 0) 12, CHR ''='', CHR ''='']"
    by (simp add: base64_chunk_def chunk_bits_def Let_def)
  have N: "unat (chunk_bits b0 0 0) < 2 ^ 24" using unat_u8_less [of b0] by (simp add: unat_chunk_bits)
  have "unat (chunk_bits b0 0 0) div 2 ^ 6 mod 64 = 0" "unat (chunk_bits b0 0 0) mod 64 = 0"
    by (simp_all add: unat_chunk_bits)
  with sextets [OF N] have n: "unat (chunk_bits b0 0 0) div 2 ^ 18 mod 64 * 2 ^ 18 + unat (chunk_bits b0 0 0) div 2 ^ 12 mod 64 * 2 ^ 12
      = unat (chunk_bits b0 0 0)" by (simp only: mult_0 add_0_right)
  have "unat (chunk_bits b0 0 0) div 2 ^ 16 = unat b0" by (simp add: unat_chunk_bits)
  then show ?thesis by (simp only: base64_encode.simps c base64_decode.simps Let_def sextet_value n) simp
qed

lemma base64_two_bytes:
  "base64_decode (base64_encode [b0, b1]) = map unat [b0, b1] \<and> length (base64_encode [b0, b1]) = 4 * ((length [b0, b1] + 2) div 3)"
proof -
  have c: "base64_chunk [b0, b1] = [base64_char (chunk_bits b0 b1 0) 18, base64_char (chunk_bits b0 b1 0) 12,
      base64_char (chunk_bits b0 b1 0) 6, CHR ''='']"
    by (simp add: base64_chunk_def chunk_bits_def Let_def)
  have N: "unat (chunk_bits b0 b1 0) < 2 ^ 24"
    using unat_u8_less [of b0] unat_u8_less [of b1] by (simp add: unat_chunk_bits)
  have "unat (chunk_bits b0 b1 0) mod 64 = 0" by (simp add: unat_chunk_bits)
  with sextets [OF N] have n: "unat (chunk_bits b0 b1 0) div 2 ^ 18 mod 64 * 2 ^ 18 + unat (chunk_bits b0 b1 0) div 2 ^ 12 mod 64 * 2 ^ 12
      + unat (chunk_bits b0 b1 0) div 2 ^ 6 mod 64 * 2 ^ 6 = unat (chunk_bits b0 b1 0)" by (simp only: mult_0 add_0_right)
  have "unat (chunk_bits b0 b1 0) div 2 ^ 16 = unat b0" "unat (chunk_bits b0 b1 0) div 2 ^ 8 mod 2 ^ 8 = unat b1"
    using byte_parts [OF unat_u8_less unat_u8_less, of "unat b0" b1 0] by (simp_all add: unat_chunk_bits)
  then show ?thesis by (simp only: base64_encode.simps c base64_decode.simps Let_def sextet_value n) (simp add: sextet_value)
qed

text \<open>
  \<open>toBase64\<close> loses nothing: reading the encoding back gives the bytes encoded, whatever
  their number, and the encoding has four characters for every three bytes begun.
\<close>

theorem base64_roundtrip:
  "base64_decode (base64_encode bytes) = map unat bytes \<and> length (base64_encode bytes) = 4 * ((length bytes + 2) div 3)"
proof (induction bytes rule: base64_encode.induct)
  case (2 b0 b1 b2 bs)
  have N: "unat (chunk_bits b0 b1 b2) < 2 ^ 24"
    using unat_u8_less [of b0] unat_u8_less [of b1] unat_u8_less [of b2] by (simp add: unat_chunk_bits)
  have l: "(5 + n) div 3 = Suc ((2 + n) div 3)" for n :: nat by simp
  have c: "base64_chunk [b0, b1, b2] = map (base64_char (chunk_bits b0 b1 b2)) [18, 12, 6, 0]"
    by (simp add: base64_chunk_def chunk_bits_def Let_def)
  show ?case using 2 sextets [OF N] byte_parts [OF unat_u8_less unat_u8_less, of "unat b0" b1 b2]
    by (simp add: c sextet_value Let_def unat_chunk_bits l)
next
  case "3_1"
  show ?case by (rule base64_one_byte)
next
  case "3_2"
  show ?case by (rule base64_two_bytes)
qed simp

end
