(* ===== verification/LexProps.thy ===== *)
theory LexProps
  imports Lexer
begin

text \<open>Printing tokens, and that the lexer reads back what was printed.\<close>

section \<open>The printer\<close>

definition quote_mark :: char where "quote_mark = CHR 0x27"

definition escape_string :: "string \<Rightarrow> string" where
  "escape_string s = concat (map (\<lambda>b. if b = quote_mark \<or> b = backslash then [backslash, b] else [b]) s)"

definition show_tok :: "tok \<Rightarrow> string" where
  "show_tok t =
     (case t of
        Ident s \<Rightarrow> s | Str s \<Rightarrow> quote_mark # escape_string s @ [quote_mark] | IntLit i \<Rightarrow> show_int (sint i) | FloatLit _ \<Rightarrow> []
      | LParen \<Rightarrow> ''('' | RParen \<Rightarrow> '')'' | LBrace \<Rightarrow> ''{'' | RBrace \<Rightarrow> ''}'' | LBracket \<Rightarrow> ''['' | RBracket \<Rightarrow> '']''
      | Comma \<Rightarrow> '','' | Semi \<Rightarrow> '';'' | Colon \<Rightarrow> '':'' | Question \<Rightarrow> ''?'' | Dot \<Rightarrow> ''.'' | Slash \<Rightarrow> ''/'' | Star \<Rightarrow> ''*''
      | Percent \<Rightarrow> ''%'' | Plus \<Rightarrow> ''+'' | Minus \<Rightarrow> ''-'' | EqTok \<Rightarrow> [] | EqEq \<Rightarrow> ''=='' | NotEq \<Rightarrow> ''!='' | Lt_tok \<Rightarrow> ''<''
      | Le_tok \<Rightarrow> ''<='' | Gt_tok \<Rightarrow> ''>'' | Ge_tok \<Rightarrow> ''>='' | AndAnd \<Rightarrow> ''&&'' | OrOr \<Rightarrow> ''||'' | Not_tok \<Rightarrow> ''!''
      | Assign \<Rightarrow> ''='' | Eof \<Rightarrow> [])"

text \<open>
  Tokens with one printed form: names of name characters, strings of well-formed UTF-8, integers
  without a sign.  \<open>Eq\<close> is never produced, and floats have many forms.
\<close>

definition utf8_ok :: "string \<Rightarrow> bool" where
  "utf8_ok s \<longleftrightarrow> (\<exists>cs. s = concat cs \<and> list_all utf8_char_ok cs)"

definition tok_ok :: "tok \<Rightarrow> bool" where
  "tok_ok t \<longleftrightarrow>
     (case t of
        Ident s \<Rightarrow> s \<noteq> [] \<and> is_ident_start (hd s) \<and> list_all is_ident_char s
      | Str s \<Rightarrow> utf8_ok s
      | IntLit i \<Rightarrow> 0 \<le> sint i
      | FloatLit _ \<Rightarrow> False | EqTok \<Rightarrow> False | Eof \<Rightarrow> False
      | _ \<Rightarrow> True)"

definition render :: "tok list \<Rightarrow> string" where
  "render ts = concat (map (\<lambda>t. show_tok t @ '' '') ts)"

section \<open>Reading back\<close>

lemma lex_bump_Cons:
  "lx_rest lx = b # rest \<Longrightarrow> \<exists>lx'. lex_bump lx = Inr (b, lx') \<and> lx_rest lx' = rest"
  by (simp add: lex_bump_def)

lemma take_chars_while:
  "lx_rest lx = s @ rest \<Longrightarrow> list_all P s \<Longrightarrow> rest = [] \<or> \<not> P (hd rest) \<Longrightarrow>
     \<exists>lx'. take_chars P lx = (s, lx') \<and> lx_rest lx' = rest"
proof (induction s arbitrary: lx)
  case Nil
  then show ?case by (subst take_chars.simps) (auto simp: lex_peek_def split: list.split)
next
  case (Cons c s)
  then obtain lx' where "take_chars P (skip_char lx) = (s, lx')" "lx_rest lx' = rest"
    using Cons.IH [of "skip_char lx"] Cons.prems by fastforce
  then show ?case using Cons.prems by (subst take_chars.simps) (simp add: lex_peek_def)
qed

lemma take_bytes_append:
  "lx_rest lx = s @ rest \<Longrightarrow> \<exists>lx'. take_bytes (length s) lx = Inr (s, lx') \<and> lx_rest lx' = rest"
proof (induction s arbitrary: lx)
  case (Cons b s)
  obtain lx1 where b: "lex_bump lx = Inr (b, lx1)" "lx_rest lx1 = s @ rest"
    using lex_bump_Cons [of lx b "s @ rest"] Cons.prems by auto
  then show ?case using Cons.IH [OF b(2)] by auto
qed simp

text \<open>A character is its first byte and continuation bytes, none of which is a mark.\<close>

lemma utf8_char_parts:
  assumes "utf8_char_ok c"
  shows "\<exists>b bs. c = b # bs \<and> length bs = utf8_len b - 1 \<and> (bs \<noteq> [] \<longrightarrow> 128 \<le> (of_char b :: nat))
    \<and> (\<forall>x \<in> set bs. 128 \<le> (of_char x :: nat))"
proof -
  obtain b bs where c: "c = b # bs" using assms by (cases c) (auto simp: utf8_char_ok_def)
  from assms have "length bs \<le> 3"
    by (auto simp: c utf8_char_ok_def split: list.splits)
  then consider "bs = []" | x where "bs = [x]" | x y where "bs = [x, y]" | x y z where "bs = [x, y, z]"
    by (cases bs rule: list.exhaust; (simp; fail)?) (auto simp: length_Suc_conv le_Suc_eq numeral_eq_Suc)
  then have "length bs = utf8_len b - 1 \<and> (bs \<noteq> [] \<longrightarrow> 128 \<le> (of_char b :: nat)) \<and> (\<forall>x \<in> set bs. 128 \<le> (of_char x :: nat))"
    using assms by cases (auto simp: c utf8_char_ok_def utf8_len_def Let_def split: if_splits)
  with c show ?thesis by blast
qed

lemma marks_small: "(of_char quote_mark :: nat) = 39" "(of_char backslash :: nat) = 92"
  by (simp_all add: quote_mark_def backslash_def)

lemma escape_append [simp]: "escape_string (s @ t) = escape_string s @ escape_string t" "escape_string [] = []"
  by (simp_all add: escape_string_def)

lemma escape_plain: "\<forall>x \<in> set bs. 128 \<le> (of_char x :: nat) \<Longrightarrow> escape_string bs = bs"
proof (induction bs)
  case (Cons b bs)
  have "b \<noteq> quote_mark \<and> b \<noteq> backslash" using Cons.prems marks_small by fastforce
  then show ?case using Cons by (simp add: escape_string_def)
qed simp

lemma lex_string_plain:
  assumes "lx_rest lx = c @ rest" "utf8_char_ok c" "hd c \<noteq> quote" "hd c \<noteq> backslash"
  shows "\<exists>lx'. lex_string quote out lx = lex_string quote (out @ c) lx' \<and> lx_rest lx' = rest"
proof -
  obtain b bs where c: "c = b # bs" "length bs = utf8_len b - 1" using utf8_char_parts [OF assms(2)] by blast
  obtain lx1 where b: "lex_bump lx = Inr (b, lx1)" "lx_rest lx1 = bs @ rest"
    using lex_bump_Cons [of lx b "bs @ rest"] assms(1) c by auto
  obtain lx2 where t: "take_bytes (utf8_len b - 1) lx1 = Inr (bs, lx2)" "lx_rest lx2 = rest"
    using take_bytes_append [OF b(2)] c(2) by auto
  then show ?thesis using assms b c by (subst lex_string.simps) auto
qed

lemma lex_string_escaped:
  assumes "lx_rest lx = backslash # e # rest" "simple_escape e = Some c" "quote \<noteq> backslash"
  shows "\<exists>lx'. lex_string quote out lx = lex_string quote (out @ [c]) lx' \<and> lx_rest lx' = rest"
proof -
  obtain lx1 where b: "lex_bump lx = Inr (backslash, lx1)" "lx_rest lx1 = e # rest"
    using lex_bump_Cons [OF assms(1)] by auto
  obtain lx2 where "lex_bump lx1 = Inr (e, lx2)" "lx_rest lx2 = rest" using lex_bump_Cons [OF b(2)] by auto
  then show ?thesis using assms b by (subst lex_string.simps) auto
qed

lemma lex_string_back:
  "list_all utf8_char_ok cs \<Longrightarrow> lx_rest lx = escape_string (concat cs) @ quote_mark # rest \<Longrightarrow>
     \<exists>lx'. lex_string quote_mark out lx = Inr (out @ concat cs, lx') \<and> lx_rest lx' = rest"
proof (induction cs arbitrary: lx out)
  case Nil
  obtain lx1 where "lex_bump lx = Inr (quote_mark, lx1)" "lx_rest lx1 = rest"
    using lex_bump_Cons [of lx quote_mark rest] Nil by auto
  then show ?case using Nil by (subst lex_string.simps) auto
next
  case (Cons c cs)
  obtain b bs where c: "c = b # bs" and p: "bs \<noteq> [] \<longrightarrow> 128 \<le> (of_char b :: nat)" "\<forall>x \<in> set bs. 128 \<le> (of_char x :: nat)"
    using utf8_char_parts [of c] Cons.prems(1) by auto
  have "\<exists>lx'. lex_string quote_mark out lx = lex_string quote_mark (out @ c) lx'
      \<and> lx_rest lx' = escape_string (concat cs) @ quote_mark # rest"
  proof (cases "b = quote_mark \<or> b = backslash")
    case True
    then have "bs = []" using p(1) marks_small by auto
    then have cb: "c = [b]" using c by simp
    have "simple_escape b = Some b" using True by (auto simp: simple_escape_def quote_mark_def backslash_def)
    moreover have "lx_rest lx = backslash # b # escape_string (concat cs) @ quote_mark # rest"
      using Cons.prems(2) True cb by (simp add: escape_string_def)
    moreover have "quote_mark \<noteq> backslash" by (simp add: quote_mark_def backslash_def)
    ultimately show ?thesis unfolding cb using lex_string_escaped by blast
  next
    case False
    then have "escape_string c = c" using escape_plain [OF p(2)] by (simp add: c escape_string_def)
    then have "lx_rest lx = c @ escape_string (concat cs) @ quote_mark # rest" using Cons.prems(2) by simp
    then show ?thesis using Cons.prems(1) False c by (intro lex_string_plain) auto
  qed
  then obtain lx1 where l: "lex_string quote_mark out lx = lex_string quote_mark (out @ c) lx1"
    "lx_rest lx1 = escape_string (concat cs) @ quote_mark # rest" by blast
  from Cons.IH [OF _ l(2), of "out @ c"] Cons.prems(1) show ?case by (auto simp: l(1))
qed

lemma tables_None:
  assumes "P b" "list_all (\<lambda>c. \<not> P c) ''(){}[],;:?./*%+-=!<>&|''" "\<not> P (CHR 0x27)" "\<not> P (CHR 0x22)"
  shows "punctuation b = None \<and> with_equals b = None \<and> b \<noteq> CHR ''&'' \<and> b \<noteq> CHR ''|'' \<and> b \<noteq> CHR 0x27 \<and> b \<noteq> CHR 0x22"
proof -
  have "b \<notin> set ''(){}[],;:?./*%+-=!<>&|''" using assms(1,2) unfolding list_all_iff by blast
  then show ?thesis using assms(1,3,4) by (auto simp: punctuation_def with_equals_def)
qed

lemma digit_first: "is_ascii_digit b \<Longrightarrow> punctuation b = None \<and> with_equals b = None \<and> b \<noteq> CHR ''&'' \<and> b \<noteq> CHR ''|''
    \<and> b \<noteq> CHR 0x27 \<and> b \<noteq> CHR 0x22"
  by (rule tables_None [where P = is_ascii_digit]) (simp_all add: is_ascii_digit_def)

lemma ident_first: "is_ident_start b \<Longrightarrow> punctuation b = None \<and> with_equals b = None \<and> b \<noteq> CHR ''&'' \<and> b \<noteq> CHR ''|''
    \<and> b \<noteq> CHR 0x27 \<and> b \<noteq> CHR 0x22"
  by (rule tables_None [where P = is_ident_start]) (simp_all add: is_ident_start_def)

lemma ident_no_digit: "is_ident_start b \<Longrightarrow> \<not> is_ascii_digit b"
  by (auto simp: is_ident_start_def Let_def is_ascii_digit_def)

lemma space_ends: "\<not> is_ident_char (CHR '' '')" "\<not> is_ascii_digit (CHR '' '')"
  by (simp_all add: is_ident_char_def is_ident_start_def is_ascii_digit_def)

lemma next_token_back:
  assumes "tok_ok t" "lx_rest lx = show_tok t @ CHR '' '' # rest"
  shows "\<exists>lx'. next_token lx = Inr (t, lx') \<and> lx_rest lx' = CHR '' '' # rest"
proof (cases t)
  case (Ident x)
  then obtain b s where x: "x = b # s" "is_ident_start b" "list_all is_ident_char s"
    using assms(1) by (cases x) (auto simp: tok_ok_def)
  obtain lx1 where b: "lex_bump lx = Inr (b, lx1)" "lx_rest lx1 = s @ CHR '' '' # rest"
    using lex_bump_Cons [of lx b "s @ CHR '' '' # rest"] assms(2) x Ident by (auto simp: show_tok_def)
  obtain lx2 where "take_chars is_ident_char lx1 = (s, lx2)" "lx_rest lx2 = CHR '' '' # rest"
    using take_chars_while [OF b(2) x(3)] space_ends by auto
  then show ?thesis using b x ident_first [OF x(2)] ident_no_digit [OF x(2)] by (simp add: next_token_def lex_ident_def Ident)
next
  case (Str x)
  then obtain cs where x: "x = concat cs" "list_all utf8_char_ok cs" using assms(1) by (auto simp: tok_ok_def utf8_ok_def)
  obtain lx1 where b: "lex_bump lx = Inr (quote_mark, lx1)" "lx_rest lx1 = escape_string (concat cs) @ quote_mark # CHR '' '' # rest"
    using lex_bump_Cons [of lx quote_mark "escape_string (concat cs) @ quote_mark # CHR '' '' # rest"] assms(2) x Str
    by (auto simp: show_tok_def)
  obtain lx2 where "lex_string quote_mark [] lx1 = Inr (x, lx2)" "lx_rest lx2 = CHR '' '' # rest"
    using lex_string_back [OF x(2) b(2), of "[]"] x(1) by auto
  then show ?thesis using b by (simp add: next_token_def Str punctuation_def with_equals_def quote_mark_def)
next
  case (IntLit i)
  then have nn: "0 \<le> sint i" using assms(1) by (simp add: tok_ok_def)
  obtain b s where n: "show_nat (nat (sint i)) = b # s" by (metis show_nat_nonempty neq_Nil_conv)
  have show_i: "show_int (sint i) = b # s" using n nn by (simp add: show_int_def)
  have d: "is_ascii_digit b" "list_all is_ascii_digit s"
    using show_nat_digits [of _ "nat (sint i)"] n by (auto simp: list_all_iff)
  obtain lx1 where b: "lex_bump lx = Inr (b, lx1)" "lx_rest lx1 = s @ CHR '' '' # rest"
    using lex_bump_Cons [of lx b "s @ CHR '' '' # rest"] assms(2) show_i IntLit by (auto simp: show_tok_def)
  obtain lx2 where t: "take_chars is_ascii_digit lx1 = (s, lx2)" "lx_rest lx2 = CHR '' '' # rest"
    using take_chars_while [OF b(2) d(2)] space_ends by auto
  have "parse_i64 (b # s) = Some i" using parse_show_i64 [of i] show_i by simp
  then show ?thesis using b t digit_first [OF d(1)] d(1)
    by (simp add: next_token_def lex_number_def IntLit lex_peek_def)
qed (use assms in \<open>auto simp: show_tok_def tok_ok_def next_token_def punctuation_def with_equals_def lex_peek_def skip_char_def
      lex_bump_def\<close>)

text \<open>A printed token starts with no blank and no comment.\<close>

lemma show_tok_start:
  assumes "tok_ok t" "lx_rest lx = show_tok t @ CHR '' '' # rest"
  shows "skip_trivia lx = Inr lx"
proof -
  have "\<not> is_blank (lex_peek lx) \<and> \<not> (lex_peek lx = CHR ''/'' \<and> (lex_peek2 lx = CHR ''/'' \<or> lex_peek2 lx = CHR ''*''))"
  proof (cases t)
    case (Ident x)
    then show ?thesis using assms
      by (cases x) (auto simp: tok_ok_def show_tok_def lex_peek_def is_blank_def newline_def is_ident_start_def Let_def)
  next
    case (IntLit i)
    then obtain b s where "show_int (sint i) = b # s" "is_ascii_digit b"
      using assms(1) show_nat_digits [of _ "nat (sint i)"] show_nat_nonempty [of "nat (sint i)"]
      by (cases "show_nat (nat (sint i))") (auto simp: tok_ok_def show_int_def)
    then show ?thesis using assms(2) IntLit
      by (auto simp: show_tok_def lex_peek_def is_blank_def newline_def is_ascii_digit_def)
  qed (use assms in \<open>auto simp: show_tok_def tok_ok_def lex_peek_def lex_peek2_def is_blank_def newline_def quote_mark_def\<close>)
  then show ?thesis by (subst skip_trivia.simps) auto
qed

lemma skip_space: "lx_rest lx = CHR '' '' # rest \<Longrightarrow> skip_trivia lx = skip_trivia (skip_char lx)"
  by (subst skip_trivia.simps) (simp add: lex_peek_def is_blank_def)

lemma skip_end: "lx_rest lx = [] \<Longrightarrow> skip_trivia lx = Inr lx"
  by (subst skip_trivia.simps) (simp add: lex_peek_def is_blank_def newline_def)

lemma tokenize_from_render:
  "list_all tok_ok ts \<Longrightarrow> lx_rest lx = render ts \<or> lx_rest lx = CHR '' '' # render ts \<Longrightarrow>
     \<exists>toks. tokenize_from out lx = Inr (out @ toks) \<and> map lt_tok toks = ts @ [Eof]"
proof (induction ts arbitrary: lx out)
  case Nil
  then obtain lx1 where "skip_trivia lx = Inr lx1" "lx_rest lx1 = []"
    using skip_end [of lx] skip_end [of "skip_char lx"] skip_space [of lx] by (auto simp: render_def)
  then show ?case by (subst tokenize_from.simps) (simp add: Let_def)
next
  case (Cons t ts)
  have r: "render (t # ts) = show_tok t @ CHR '' '' # render ts" by (simp add: render_def)
  obtain lx1 where s: "skip_trivia lx = Inr lx1" "lx_rest lx1 = show_tok t @ CHR '' '' # render ts"
    using Cons.prems show_tok_start [of t lx "render ts"] show_tok_start [of t "skip_char lx" "render ts"]
      skip_space [of lx] by (auto simp: r)
  obtain lx2 where n: "next_token lx1 = Inr (t, lx2)" "lx_rest lx2 = CHR '' '' # render ts"
    using next_token_back [of t lx1] s(2) Cons.prems(1) by auto
  let ?k = "\<lparr>lt_tok = t, lt_line = lx_line lx1, lt_col = lx_col lx1, lt_offset = lx_pos lx1\<rparr>"
  obtain toks where "tokenize_from (out @ [?k]) lx2 = Inr ((out @ [?k]) @ toks)" "map lt_tok toks = ts @ [Eof]"
    using Cons.IH [of lx2 "out @ [?k]"] Cons.prems(1) n(2) by auto
  then show ?case using s n by (subst tokenize_from.simps) (simp add: Let_def)
qed

text \<open>
  The lexer reads back what a printer writes: a list of tokens with strings escaped, names
  and integers spelled out and a space after each, is lexed as those tokens and the end of input.
\<close>

theorem lexer_roundtrip:
  assumes "list_all tok_ok ts"
  shows "\<exists>toks. tokenize (render ts) = Inr toks \<and> map lt_tok toks = ts @ [Eof]"
  using tokenize_from_render [OF assms, of "new_lexer (render ts)" "[]"] by (simp add: tokenize_def new_lexer_def)

theorem lexer_roundtrip_witness:
  "\<exists>toks. tokenize (render [Ident ''a'', EqEq, Str ''it'', AndAnd, Not_tok, LParen, IntLit 7, RParen]) = Inr toks
    \<and> map lt_tok toks = [Ident ''a'', EqEq, Str ''it'', AndAnd, Not_tok, LParen, IntLit 7, RParen, Eof]"
proof -
  have "utf8_ok ''it''" unfolding utf8_ok_def
    by (rule exI [of _ "[''i'', ''t'']"]) (simp add: utf8_char_ok_def)
  then have "list_all tok_ok [Ident ''a'', EqEq, Str ''it'', AndAnd, Not_tok, LParen, IntLit 7, RParen]"
    by (simp add: tok_ok_def is_ident_start_def is_ident_char_def)
  from lexer_roundtrip [OF this] show ?thesis by simp
qed

end
