(* ===== verification/ParserTrip.thy ===== *)
theory ParserTrip
  imports ParserRuns LexProps
begin

text \<open>
  Printing expressions with as few parentheses as the binding powers allow, and that the parser
  reads back what was printed.
\<close>

section \<open>The printer\<close>

definition op_power :: "bin_op \<Rightarrow> nat" where
  "op_power op =
     (case op of
        Or \<Rightarrow> 2 | And \<Rightarrow> 3 | Eq \<Rightarrow> 4 | Ne \<Rightarrow> 4 | Lt \<Rightarrow> 5 | Le \<Rightarrow> 5 | Gt \<Rightarrow> 5 | Ge \<Rightarrow> 5 | In \<Rightarrow> 5
      | Add \<Rightarrow> 6 | Sub \<Rightarrow> 6 | Mul \<Rightarrow> 7 | Div \<Rightarrow> 7 | Mod \<Rightarrow> 7)"

definition op_tok :: "bin_op \<Rightarrow> tok" where
  "op_tok op =
     (case op of
        Or \<Rightarrow> OrOr | And \<Rightarrow> AndAnd | Eq \<Rightarrow> EqEq | Ne \<Rightarrow> NotEq | Lt \<Rightarrow> Lt_tok | Le \<Rightarrow> Le_tok | Gt \<Rightarrow> Gt_tok
      | Ge \<Rightarrow> Ge_tok | In \<Rightarrow> Ident ''in'' | Add \<Rightarrow> Plus | Sub \<Rightarrow> Minus | Mul \<Rightarrow> Star | Div \<Rightarrow> Slash | Mod \<Rightarrow> Percent)"

definition un_tok :: "un_op \<Rightarrow> tok" where
  "un_tok op = (case op of NotOp \<Rightarrow> Not_tok | NegOp \<Rightarrow> Minus)"

definition wrap :: "bool \<Rightarrow> tok list \<Rightarrow> tok list" where
  "wrap c ts = (if c then LParen # ts @ [RParen] else ts)"

fun commas :: "tok list list \<Rightarrow> tok list" where
  "commas [] = []"
| "commas [ts] = ts"
| "commas (ts # us # tss) = ts @ Comma # commas (us # tss)"

text \<open>\<open>unparse p e\<close> is for a place where only operators of power \<open>p\<close> and above stay bare.\<close>

fun unparse :: "nat \<Rightarrow> expr \<Rightarrow> tok list" where
  "unparse p ENull = [Ident ''null'']"
| "unparse p (EBool b) = [Ident (if b then ''true'' else ''false'')]"
| "unparse p (EInt i) = [IntLit i]"
| "unparse p (EFloat x) = [FloatLit x]"
| "unparse p (EStr s) = [Str s]"
| "unparse p (EList es) = LBracket # commas (map (unparse 0) es) @ [RBracket]"
| "unparse p (EMap es) = LBrace # commas (map (\<lambda>(k, e). Str k # Colon # unparse 0 e) es) @ [RBrace]"
| "unparse p (EPath parts) = []"
| "unparse p (EIdent x) = [Ident x]"
| "unparse p (EMember e x) = unparse 9 e @ [Dot, Ident x]"
| "unparse p (EIndex e i) = unparse 9 e @ LBracket # unparse 0 i @ [RBracket]"
| "unparse p (ERange e lo hi) =
     unparse 9 e @ LBracket # (case lo of None \<Rightarrow> [] | Some x \<Rightarrow> unparse 0 x) @ Colon #
       (case hi of None \<Rightarrow> [] | Some x \<Rightarrow> unparse 0 x) @ [RBracket]"
| "unparse p (ECall t f es) =
     (case t of None \<Rightarrow> [] | Some e \<Rightarrow> unparse 9 e @ [Dot]) @ Ident f # LParen # commas (map (unparse 0) es) @ [RParen]"
| "unparse p (EUnary op e) = wrap (8 < p) (un_tok op # unparse 8 e)"
| "unparse p (EBinary op a b) =
     wrap (op_power op < p) (unparse (op_power op) a @ op_tok op # unparse (op_power op + 1) b)"
| "unparse p (ETernary c t e) = wrap (1 < p) (unparse 2 c @ Question # unparse 0 t @ Colon # unparse 1 e)"
| "unparse p (EIs e ty) = wrap (5 < p) (unparse 5 e @ [Ident ''is'', Ident ty])"

definition most :: "nat list \<Rightarrow> nat" where "most ns = foldr max ns 0"

definition wraps :: "bool \<Rightarrow> nat \<Rightarrow> nat" where "wraps c n = (if c then n + 1 else n)"

text \<open>The nesting of expressions that the parser needs to read \<open>unparse p e\<close>.\<close>

fun need :: "nat \<Rightarrow> expr \<Rightarrow> nat" where
  "need p (EList es) = 1 + most (map (need 0) es)"
| "need p (EMap es) = 1 + most (map (\<lambda>(k, e). need 0 e) es)"
| "need p (EMember e x) = need 9 e"
| "need p (EIndex e i) = max (need 9 e) (1 + need 0 i)"
| "need p (ERange e lo hi) =
     max (need 9 e) (1 + max (case lo of None \<Rightarrow> 0 | Some x \<Rightarrow> need 0 x) (case hi of None \<Rightarrow> 0 | Some x \<Rightarrow> need 0 x))"
| "need p (ECall t f es) = max (case t of None \<Rightarrow> 0 | Some e \<Rightarrow> need 9 e) (1 + most (map (need 0) es))"
| "need p (EUnary op e) = wraps (8 < p) (1 + need 8 e)"
| "need p (EBinary op a b) = wraps (op_power op < p) (max (need (op_power op) a) (1 + need (op_power op + 1) b))"
| "need p (ETernary c t e) = wraps (1 < p) (max (need 2 c) (1 + max (need 0 t) (need 1 e)))"
| "need p (EIs e ty) = wraps (5 < p) (need 5 e)"
| "need p e = 1"

definition ident :: "string \<Rightarrow> bool" where "ident x \<longleftrightarrow> tok_ok (Ident x)"

definition variable :: "string \<Rightarrow> bool" where
  "variable x \<longleftrightarrow> ident x \<and> x \<noteq> ''true'' \<and> x \<noteq> ''false'' \<and> x \<noteq> ''null''"

text \<open>
  Expressions with one printed form: names that are names, strings of well-formed UTF-8, integers
  without a sign (a sign is an operator); no floats, and no paths, which are scanned from the source.
\<close>

fun printable :: "expr \<Rightarrow> bool" where
  "printable ENull \<longleftrightarrow> True"
| "printable (EBool b) \<longleftrightarrow> True"
| "printable (EInt i) \<longleftrightarrow> 0 \<le> sint i"
| "printable (EFloat x) \<longleftrightarrow> False"
| "printable (EStr s) \<longleftrightarrow> utf8_ok s"
| "printable (EList es) \<longleftrightarrow> (\<forall>e \<in> set es. printable e)"
| "printable (EMap es) \<longleftrightarrow> (\<forall>(k, e) \<in> set es. utf8_ok k \<and> printable e)"
| "printable (EPath parts) \<longleftrightarrow> False"
| "printable (EIdent x) \<longleftrightarrow> variable x"
| "printable (EMember e x) \<longleftrightarrow> printable e \<and> ident x"
| "printable (EIndex e i) \<longleftrightarrow> printable e \<and> printable i"
| "printable (ERange e lo hi) \<longleftrightarrow>
     printable e \<and> (case lo of None \<Rightarrow> True | Some x \<Rightarrow> printable x) \<and> (case hi of None \<Rightarrow> True | Some x \<Rightarrow> printable x)"
| "printable (ECall t f es) \<longleftrightarrow>
     (case t of None \<Rightarrow> variable f | Some e \<Rightarrow> ident f \<and> printable e) \<and> (\<forall>e \<in> set es. printable e)"
| "printable (EUnary op e) \<longleftrightarrow> printable e"
| "printable (EBinary op a b) \<longleftrightarrow> printable a \<and> printable b"
| "printable (ETernary c t e) \<longleftrightarrow> printable c \<and> printable t \<and> printable e"
| "printable (EIs e ty) \<longleftrightarrow> printable e \<and> ident ty"

text \<open>The power of the outermost operator; primaries have 9.\<close>

definition strength :: "expr \<Rightarrow> nat" where
  "strength e =
     (case e of EUnary _ _ \<Rightarrow> 8 | EBinary op _ _ \<Rightarrow> op_power op | ETernary _ _ _ \<Rightarrow> 1 | EIs _ _ \<Rightarrow> 5 | _ \<Rightarrow> 9)"

lemma op_power_range: "2 \<le> op_power op" "op_power op \<le> 7"
  by (cases op; simp add: op_power_def)+

lemma infix_of_op [simp]: "infix_of (op_tok op) = Some (op_power op, Binary_form op)"
  by (cases op) (simp_all add: infix_of_def op_tok_def op_power_def)

lemma infix_of_le: "infix_of t = Some (bp, form) \<Longrightarrow> bp \<le> 7"
  by (auto simp: infix_of_def split: tok.splits if_splits)

lemma unparse_strength:
  "unparse p e = (if strength e < p \<and> strength e < 9 then LParen # unparse 0 e @ [RParen] else unparse 0 e)"
proof (cases e)
  case (EBinary op a b)
  then show ?thesis using op_power_range(2) [of op] by (simp add: strength_def wrap_def)
qed (simp_all add: strength_def wrap_def)

lemma need_strength:
  "need p e = (if strength e < p \<and> strength e < 9 then 1 + need 0 e else need 0 e)"
proof (cases e)
  case (EBinary op a b)
  then show ?thesis using op_power_range(2) [of op] by (simp add: strength_def wraps_def)
qed (simp_all add: strength_def wraps_def)

lemma need_pos: "0 < need p e"
  by (induction p e rule: need.induct) (auto simp: wraps_def less_max_iff_disj)

lemma most_le: "most ns \<le> k \<longleftrightarrow> (\<forall>n \<in> set ns. n \<le> k)"
  by (induction ns) (auto simp: most_def)

text \<open>The tokens an expression starts with.\<close>

definition opens :: "tok list \<Rightarrow> bool" where
  "opens ts \<longleftrightarrow> ts \<noteq> [] \<and> hd ts \<notin> {RParen, RBracket, RBrace, Colon}"

lemma opens_append [simp]: "opens ts \<Longrightarrow> opens (ts @ us)"
  by (auto simp: opens_def)

lemma opens_Cons [simp]: "opens (t # ts) \<longleftrightarrow> t \<notin> {RParen, RBracket, RBrace, Colon}"
  by (simp add: opens_def)

lemma unparse_start: "printable e \<Longrightarrow> opens (unparse p e)"
  by (induction p e rule: unparse.induct) (auto simp: wrap_def un_tok_def split: un_op.split option.splits)

section \<open>States at tokens\<close>

text \<open>The tokens ahead are \<open>ts\<close>, the last of which is the end of input.\<close>

definition at_toks :: "string \<Rightarrow> parser \<Rightarrow> tok list \<Rightarrow> bool" where
  "at_toks src st ts \<longleftrightarrow> map lt_tok (ps_tokens st) = ts \<and> ps_source st = src \<and> ts \<noteq> [] \<and> last ts = Eof"

lemma at_ok: "at_toks src st ts \<Longrightarrow> ok src st"
  by (auto simp: at_toks_def ok_def ended_def last_map)

lemma at_ahead: "at_toks src st ts \<Longrightarrow> ahead st = length ts"
  by (auto simp: at_toks_def ahead_def)

lemma at_cur: "at_toks src st (t # ts) \<Longrightarrow> cur st = t"
  by (auto simp: at_toks_def cur_def current_token_def)

lemma at_next: "at_toks src st (t # ts) \<Longrightarrow> ts \<noteq> [] \<Longrightarrow> at_toks src (next_parser st) ts"
  by (auto simp: at_toks_def next_parser_def split: list.split)

text \<open>\<open>m\<close> reads the tokens \<open>ts\<close> as \<open>a\<close>, whatever tokens \<open>us\<close> follow.\<close>

definition reads :: "string \<Rightarrow> 'a parse \<Rightarrow> parser \<Rightarrow> 'a \<Rightarrow> tok list \<Rightarrow> bool" where
  "reads src m st a us \<longleftrightarrow> (\<exists>st'. m st = Inr (a, st') \<and> at_toks src st' us)"

lemma reads_bind:
  assumes "reads src m st a us" "\<And>st'. at_toks src st' us \<Longrightarrow> reads src (f a) st' b vs"
  shows "reads src (and_parse m f) st b vs"
  using assms by (auto simp: reads_def and_parse_def)

lemma reads_yields [simp]: "reads src (yields a) st b us \<longleftrightarrow> b = a \<and> at_toks src st us"
  by (auto simp: reads_def yields_def)

lemma reads_expect: "at_toks src st (t # us) \<Longrightarrow> us \<noteq> [] \<Longrightarrow> reads src (expect t) st () us"
  by (simp add: reads_def expect_def at_cur at_next)

lemma reads_expect_ident: "at_toks src st (Ident x # us) \<Longrightarrow> us \<noteq> [] \<Longrightarrow> reads src expect_ident st x us"
  by (simp add: reads_def expect_ident_def at_cur at_next)

lemma reads_eat: "at_toks src st (t # us) \<Longrightarrow> us \<noteq> [] \<Longrightarrow> reads src (eat t) st True us"
  by (simp add: reads_def eat_def at_cur at_next)

lemma reads_eat_not: "at_toks src st us \<Longrightarrow> us \<noteq> [] \<Longrightarrow> hd us \<noteq> t \<Longrightarrow> reads src (eat t) st False us"
  by (cases us) (simp_all add: reads_def eat_def at_cur)

section \<open>Fuel does not matter\<close>

lemma refuel_bind:
  assumes "\<And>a st'. f a st' \<noteq> Inl Out_of_fuel \<Longrightarrow> g a st' = f a st'" "and_parse m f st \<noteq> Inl Out_of_fuel"
  shows "and_parse m g st = and_parse m f st"
  using assms by (auto simp: and_parse_def split: sum.splits)

lemma infix_loop_refuel:
  "infix_loop n ex q e st \<noteq> Inl Out_of_fuel \<Longrightarrow> n \<le> m \<Longrightarrow> infix_loop m ex q e st = infix_loop n ex q e st"
proof (induction n arbitrary: m e st)
  case (Suc n)
  obtain m' where m: "m = Suc m'" "n \<le> m'" using Suc.prems(2) by (cases m) auto
  note IH = Suc.IH [OF _ m(2)]
  have b: "and_parse p (\<lambda>x. infix_loop m' ex q (f x)) st' = and_parse p (\<lambda>x. infix_loop n ex q (f x)) st'"
    if "and_parse p (\<lambda>x. infix_loop n ex q (f x)) st' \<noteq> Inl Out_of_fuel" for p :: "expr parse" and f st'
    by (rule refuel_bind [OF IH that])
  have i: "and_parse p (\<lambda>x. infix_loop m' ex q (f x)) st' = and_parse p (\<lambda>x. infix_loop n ex q (f x)) st'"
    if "and_parse p (\<lambda>x. infix_loop n ex q (f x)) st' \<noteq> Inl Out_of_fuel" for p :: "string parse" and f st'
    by (rule refuel_bind [OF IH that])
  have t: "and_parse (ex 0) (\<lambda>t. and_parse (expect Colon) (\<lambda>_. and_parse (ex 1) (\<lambda>u. infix_loop m' ex q (ETernary e t u)))) st'
      = and_parse (ex 0) (\<lambda>t. and_parse (expect Colon) (\<lambda>_. and_parse (ex 1) (\<lambda>u. infix_loop n ex q (ETernary e t u)))) st'"
    if "and_parse (ex 0) (\<lambda>t. and_parse (expect Colon) (\<lambda>_. and_parse (ex 1) (\<lambda>u. infix_loop n ex q (ETernary e t u)))) st'
      \<noteq> Inl Out_of_fuel" for st'
    by (rule refuel_bind [OF refuel_bind [OF refuel_bind [OF IH]] that])
  show ?case
    using Suc.prems(1) b i t unfolding m(1) infix_loop.simps
    by (auto split: option.splits prod.splits if_splits infix_form.splits)
qed simp

lemma postfix_loop_refuel:
  "postfix_loop n ex e st \<noteq> Inl Out_of_fuel \<Longrightarrow> n \<le> m \<Longrightarrow> postfix_loop m ex e st = postfix_loop n ex e st"
proof (induction n arbitrary: m e st)
  case (Suc n)
  obtain m' where m: "m = Suc m'" "n \<le> m'" using Suc.prems(2) by (cases m) auto
  have "and_parse p (postfix_loop m' ex) st' = and_parse p (postfix_loop n ex) st'"
    if "and_parse p (postfix_loop n ex) st' \<noteq> Inl Out_of_fuel" for p st'
    by (rule refuel_bind [OF Suc.IH [OF _ m(2)] that])
  then show ?case using Suc.prems(1) unfolding m(1) by (auto split: if_splits)
qed simp

context expr_parser begin

lemma infix_refuel:
  assumes "ok src st" "loop_fuel st \<le> n"
  shows "infix_loop n ex q e st = infix_loop (loop_fuel st) ex q e st"
proof (rule infix_loop_refuel [OF _ assms(2)])
  show "infix_loop (loop_fuel st) ex q e st \<noteq> Inl Out_of_fuel"
    using infix_loop_runs [OF assms(1), of "loop_fuel st" "ahead st" q e] by (auto simp: runs_def loop_fuel_ahead)
qed

lemma postfix_refuel:
  assumes "ok src st" "loop_fuel st \<le> n"
  shows "postfix_loop n (ex 0) e st = postfix_loop (loop_fuel st) (ex 0) e st"
proof (rule postfix_loop_refuel [OF _ assms(2)])
  show "postfix_loop (loop_fuel st) (ex 0) e st \<noteq> Inl Out_of_fuel"
    using postfix_loop_runs [OF assms(1), of "loop_fuel st" "ahead st" e] by (auto simp: runs_def loop_fuel_ahead)
qed

end

section \<open>Reading back\<close>

text \<open>Tokens that do not continue an expression printed for power \<open>p\<close>, and those that end it.\<close>

definition calm :: "nat \<Rightarrow> tok list \<Rightarrow> bool" where
  "calm p us \<longleftrightarrow> hd us \<notin> {Dot, LBracket, LParen} \<and>
     (case infix_of (hd us) of None \<Rightarrow> True | Some (bp, _) \<Rightarrow> bp \<le> p \<and> 1 < p)"

definition halts :: "nat \<Rightarrow> tok list \<Rightarrow> bool" where
  "halts q us \<longleftrightarrow> (case infix_of (hd us) of None \<Rightarrow> True | Some (bp, _) \<Rightarrow> bp < q)"

text \<open>The parser comes to the point where \<open>e\<close> is read, before any operator or postfix that follows.\<close>

definition back_at :: "string \<Rightarrow> (string \<Rightarrow> parse_failure + expr) \<Rightarrow> nat \<Rightarrow> expr \<Rightarrow> bool" where
  "back_at src sub p e \<longleftrightarrow> (\<forall>k q st us. need p e \<le> Suc k \<longrightarrow> q \<le> p \<longrightarrow> us \<noteq> [] \<longrightarrow> calm p us \<longrightarrow>
     at_toks src st (unparse p e @ us) \<longrightarrow>
     (\<exists>st'. at_toks src st' us \<and> parse_expr (Suc k) sub q st = infix_loop (loop_fuel st') (parse_expr k sub) q e st'))"

definition primary_back :: "string \<Rightarrow> (string \<Rightarrow> parse_failure + expr) \<Rightarrow> expr \<Rightarrow> bool" where
  "primary_back src sub e \<longleftrightarrow> (\<forall>k st us. need 9 e \<le> Suc k \<longrightarrow> us \<noteq> [] \<longrightarrow> hd us \<noteq> LParen \<longrightarrow>
     at_toks src st (unparse 9 e @ us) \<longrightarrow>
     (\<exists>st'. at_toks src st' us \<and> prefix_expr sub (parse_expr k sub) st = postfix_loop (loop_fuel st') (parse_expr k sub 0) e st'))"

definition reads_back :: "string \<Rightarrow> (string \<Rightarrow> parse_failure + expr) \<Rightarrow> expr \<Rightarrow> bool" where
  "reads_back src sub e \<longleftrightarrow> (\<forall>p. back_at src sub p e) \<and> primary_back src sub e"

lemma back_atD:
  assumes "back_at src sub p e" "at_toks src st (unparse p e @ us)" "need p e \<le> Suc k" "q \<le> p" "us \<noteq> []" "calm p us"
  obtains st' where "at_toks src st' us"
    "parse_expr (Suc k) sub q st = infix_loop (loop_fuel st') (parse_expr k sub) q e st'"
  using assms unfolding back_at_def by blast

lemma primary_backD:
  assumes "primary_back src sub e" "at_toks src st (unparse 9 e @ us)" "need 9 e \<le> Suc k" "us \<noteq> []" "hd us \<noteq> LParen"
  obtains st' where "at_toks src st' us"
    "prefix_expr sub (parse_expr k sub) st = postfix_loop (loop_fuel st') (parse_expr k sub 0) e st'"
  using assms unfolding primary_back_def by blast

lemma infix_loop_halts: "at_toks src st us \<Longrightarrow> halts q us \<Longrightarrow> infix_loop (loop_fuel st) ex q e st = Inr (e, st)"
  by (cases us) (auto simp: loop_fuel_ahead halts_def at_cur at_toks_def cur_def current_token_def split: option.splits prod.splits)

lemma postfix_loop_halts:
  "at_toks src st us \<Longrightarrow> calm p us \<Longrightarrow> postfix_loop (loop_fuel st) ex e st = Inr (e, st)"
  by (cases us) (auto simp: loop_fuel_ahead calm_def at_cur at_toks_def cur_def current_token_def)

lemma expr_reads:
  assumes "back_at src sub p e" "need p e \<le> k" "q \<le> p" "us \<noteq> []" "calm p us" "halts q us"
    "at_toks src st (unparse p e @ us)"
  shows "reads src (parse_expr k sub q) st e us"
proof -
  obtain k' where k: "k = Suc k'" using assms(2) need_pos [of p e] by (cases k) auto
  from assms obtain st' where "at_toks src st' us" "parse_expr k sub q st = infix_loop (loop_fuel st') (parse_expr k' sub) q e st'"
    unfolding back_at_def k by blast
  then show ?thesis using infix_loop_halts [OF _ assms(6)] by (auto simp: reads_def)
qed

text \<open>An expression in brackets, or up to another mark that is no operator.\<close>

definition mark :: "tok \<Rightarrow> bool" where
  "mark t \<longleftrightarrow> t \<in> {RParen, RBracket, RBrace, Colon, Comma, Eof}"

lemma mark_calm: "mark t \<Longrightarrow> calm p (t # us) \<and> halts q (t # us)"
  by (auto simp: mark_def calm_def halts_def infix_of_def)

lemma inner_reads:
  assumes "reads_back src sub e" "need 0 e \<le> k" "at_toks src st (unparse 0 e @ t # us)" "mark t"
  shows "reads src (parse_expr k sub 0) st e (t # us)"
  using assms mark_calm [OF assms(4)] by (intro expr_reads [of _ _ 0]) (auto simp: reads_back_def)

lemma primary_prefix:
  assumes "reads src (primary sub ex) st e us"
  shows "\<exists>st'. at_toks src st' us \<and> prefix_expr sub ex st = postfix_loop (loop_fuel st') (ex 0) e st'"
  using assms by (auto simp: reads_def prefix_expr_def and_parse_def)

lemma prefix_level:
  assumes "prefix_expr sub (parse_expr k sub) st = Inr (e, st')"
  shows "parse_expr (Suc k) sub q st = infix_loop (loop_fuel st') (parse_expr k sub) q e st'"
  using assms by (simp add: and_parse_def)

lemma primary_back_at:
  assumes "primary_back src sub e" "unparse p e = unparse 9 e" "need p e = need 9 e"
  shows "back_at src sub p e"
  unfolding back_at_def
proof (intro allI impI)
  fix k q st us
  assume a: "need p e \<le> Suc k" "q \<le> p" "us \<noteq> []" "calm p us" "at_toks src st (unparse p e @ us)"
  have "hd us \<noteq> LParen" using a(4) by (simp add: calm_def)
  with primary_backD [OF assms(1), of st us k] a assms(2,3) obtain st' where st': "at_toks src st' us"
      "prefix_expr sub (parse_expr k sub) st = postfix_loop (loop_fuel st') (parse_expr k sub 0) e st'"
    by metis
  then show "\<exists>st'. at_toks src st' us \<and> parse_expr (Suc k) sub q st = infix_loop (loop_fuel st') (parse_expr k sub) q e st'"
    using prefix_level [of sub k st e st' q] postfix_loop_halts [OF st'(1) a(4)] by auto
qed

section \<open>Operators\<close>

lemma unary_back:
  assumes "reads_back src sub e" "p \<le> 8"
  shows "back_at src sub p (EUnary op e)"
  unfolding back_at_def
proof (intro allI impI)
  fix k q st us
  assume a: "need p (EUnary op e) \<le> Suc k" "q \<le> p" "us \<noteq> []" "calm p us" "at_toks src st (unparse p (EUnary op e) @ us)"
  from a(5) assms(2) have st: "at_toks src st (un_tok op # unparse 8 e @ us)" by (simp add: wrap_def)
  have "calm 8 us" "halts 8 us"
    using a(4) assms(2) by (auto simp: calm_def halts_def split: option.splits dest: infix_of_le)
  then have "reads src (parse_expr k sub 8) (next_parser st) e us"
    using a(1,3) assms st by (intro expr_reads [of _ _ 8]) (auto simp: reads_back_def wraps_def intro: at_next)
  then obtain st' where st': "at_toks src st' us" "parse_expr k sub 8 (next_parser st) = Inr (e, st')"
    by (auto simp: reads_def)
  have "primary sub (parse_expr k sub) st = Inr (EUnary op e, st')"
    using at_cur [OF st] st'(2) by (cases op) (simp_all add: primary_def un_tok_def and_parse_def yields_def)
  then have "prefix_expr sub (parse_expr k sub) st = Inr (EUnary op e, st')"
    using postfix_loop_halts [OF st'(1) a(4)] by (simp add: prefix_expr_def and_parse_def)
  from prefix_level [OF this] st'(1)
  show "\<exists>st'. at_toks src st' us \<and>
      parse_expr (Suc k) sub q st = infix_loop (loop_fuel st') (parse_expr k sub) q (EUnary op e) st'" by blast
qed

text \<open>One iteration of the loop over operators.\<close>

lemma infix_iteration:
  assumes "splices src sub" "at_toks src st (t # us)" "infix_of t = Some (bp, form)" "q \<le> bp"
    "\<And>n. infix_loop (Suc n) (parse_expr k sub) q e st = and_parse m (\<lambda>x. infix_loop n (parse_expr k sub) q (f x)) st1"
    "reads src m st1 x vs" "length vs \<le> length us"
  shows "\<exists>st'. at_toks src st' vs \<and>
    infix_loop (loop_fuel st) (parse_expr k sub) q e st = infix_loop (loop_fuel st') (parse_expr k sub) q (f x) st'"
proof -
  obtain st' where st': "m st1 = Inr (x, st')" "at_toks src st' vs" using assms(6) by (auto simp: reads_def)
  have "loop_fuel st' \<le> ahead st"
    using at_ahead [OF assms(2)] at_ahead [OF st'(2)] assms(7) by (simp add: loop_fuel_ahead)
  then have "infix_loop (ahead st) (parse_expr k sub) q (f x) st' = infix_loop (loop_fuel st') (parse_expr k sub) q (f x) st'"
    by (rule expr_parser.infix_refuel [OF parse_expr_locale [OF assms(1)] at_ok [OF st'(2)]])
  moreover have "loop_fuel st = Suc (ahead st)" by (simp add: loop_fuel_ahead)
  ultimately have "infix_loop (loop_fuel st) (parse_expr k sub) q e st = infix_loop (loop_fuel st') (parse_expr k sub) q (f x) st'"
    using assms(5) [of "ahead st"] st'(1) by (simp add: and_parse_def)
  then show ?thesis using st'(2) by blast
qed

lemma binary_back:
  assumes "splices src sub" "reads_back src sub a" "reads_back src sub b" "p \<le> op_power op"
  shows "back_at src sub p (EBinary op a b)"
  unfolding back_at_def
proof (intro allI impI)
  let ?w = "op_power op"
  fix k q st us
  assume h: "need p (EBinary op a b) \<le> Suc k" "q \<le> p" "us \<noteq> []" "calm p us"
    "at_toks src st (unparse p (EBinary op a b) @ us)"
  from h(5) assms(4) have st: "at_toks src st (unparse ?w a @ op_tok op # unparse (?w + 1) b @ us)" by (simp add: wrap_def)
  have calm_op: "calm ?w (op_tok op # vs)" for vs
    using op_power_range(1) [of op] by (cases op) (simp_all add: calm_def infix_of_def op_tok_def op_power_def)
  have "need ?w a \<le> Suc k" "need (?w + 1) b \<le> k" using h(1) assms(4) by (auto simp: wraps_def)
  then obtain st1 where st1: "at_toks src st1 (op_tok op # unparse (?w + 1) b @ us)"
      "parse_expr (Suc k) sub q st = infix_loop (loop_fuel st1) (parse_expr k sub) q a st1"
    using back_atD [of src sub ?w a st "op_tok op # unparse (?w + 1) b @ us" k q] assms(2,4) st h(2) calm_op
    by (metis reads_back_def list.distinct(1) order.trans)
  have "reads src (parse_expr k sub (?w + 1)) (next_parser st1) b us"
    using at_next [OF st1(1)] h(3,4) assms(3,4) \<open>need (?w + 1) b \<le> k\<close>
    by (intro expr_reads [of _ _ "?w + 1"]) (auto simp: reads_back_def calm_def halts_def split: option.splits)
  moreover have "infix_loop (Suc n) (parse_expr k sub) q a st1 =
      and_parse (parse_expr k sub (?w + 1)) (\<lambda>b. infix_loop n (parse_expr k sub) q (EBinary op a b)) (next_parser st1)" for n
    using at_cur [OF st1(1)] h(2) assms(4) by simp
  ultimately show "\<exists>st'. at_toks src st' us \<and>
      parse_expr (Suc k) sub q st = infix_loop (loop_fuel st') (parse_expr k sub) q (EBinary op a b) st'"
    unfolding st1(2) using h(2) assms(4)
    by (intro infix_iteration [OF assms(1) st1(1) infix_of_op]) auto
qed

lemma is_back:
  assumes "splices src sub" "reads_back src sub e" "p \<le> 5"
  shows "back_at src sub p (EIs e ty)"
  unfolding back_at_def
proof (intro allI impI)
  fix k q st us
  assume h: "need p (EIs e ty) \<le> Suc k" "q \<le> p" "us \<noteq> []" "calm p us" "at_toks src st (unparse p (EIs e ty) @ us)"
  from h(5) assms(3) have st: "at_toks src st (unparse 5 e @ Ident ''is'' # Ident ty # us)" by (simp add: wrap_def)
  have "calm 5 (Ident ''is'' # Ident ty # us)" by (simp add: calm_def infix_of_def)
  with back_atD [of src sub 5 e st "Ident ''is'' # Ident ty # us" k q] assms st h(1,2) obtain st1 where
    st1: "at_toks src st1 (Ident ''is'' # Ident ty # us)"
      "parse_expr (Suc k) sub q st = infix_loop (loop_fuel st1) (parse_expr k sub) q e st1"
    by (auto simp: reads_back_def wraps_def)
  have "reads src expect_ident (next_parser st1) ty us"
    using at_next [OF st1(1)] h(3) by (auto intro: reads_expect_ident)
  moreover have i: "infix_of (Ident ''is'') = Some (5, Is_form)" by (simp add: infix_of_def)
  moreover have "infix_loop (Suc n) (parse_expr k sub) q e st1 =
      and_parse expect_ident (\<lambda>ty. infix_loop n (parse_expr k sub) q (EIs e ty)) (next_parser st1)" for n
    using at_cur [OF st1(1)] h(2) assms(3) by (simp add: i)
  ultimately show "\<exists>st'. at_toks src st' us \<and>
      parse_expr (Suc k) sub q st = infix_loop (loop_fuel st') (parse_expr k sub) q (EIs e ty) st'"
    unfolding st1(2)
    using infix_iteration [OF assms(1) st1(1) i, where f = "EIs e" and x = ty and vs = us] h(2) assms(3) by auto
qed

text \<open>What a conditional has behind its question mark.\<close>

definition branches :: "(nat \<Rightarrow> expr parse) \<Rightarrow> (expr \<times> expr) parse" where
  "branches ex = and_parse (ex 0) (\<lambda>t. and_parse (expect Colon) (\<lambda>_. and_parse (ex 1) (\<lambda>e. yields (t, e))))"

lemma branches_bind:
  "and_parse (ex 0) (\<lambda>t. and_parse (expect Colon) (\<lambda>_. and_parse (ex 1) (\<lambda>e. f (t, e)))) st = and_parse (branches ex) f st"
  by (simp add: branches_def and_parse_def yields_def split: sum.split)

lemma ternary_back:
  assumes "splices src sub" "reads_back src sub c" "reads_back src sub t" "reads_back src sub e" "p \<le> 1"
  shows "back_at src sub p (ETernary c t e)"
  unfolding back_at_def
proof (intro allI impI)
  fix k q st us
  let ?tail = "unparse 0 t @ Colon # unparse 1 e @ us"
  assume h: "need p (ETernary c t e) \<le> Suc k" "q \<le> p" "us \<noteq> []" "calm p us" "at_toks src st (unparse p (ETernary c t e) @ us)"
  from h(5) assms(5) have st: "at_toks src st (unparse 2 c @ Question # ?tail)" by (simp add: wrap_def)
  from h(1) assms(5) have need: "need 2 c \<le> Suc k" "need 0 t \<le> k" "need 1 e \<le> k" by (auto simp: wraps_def)
  have "calm 2 (Question # ?tail)" by (simp add: calm_def infix_of_def)
  with back_atD [of src sub 2 c st "Question # ?tail" k q] assms st need(1) h(2) obtain st1 where
    st1: "at_toks src st1 (Question # ?tail)"
      "parse_expr (Suc k) sub q st = infix_loop (loop_fuel st1) (parse_expr k sub) q c st1"
    by (auto simp: reads_back_def)
  have ends: "calm 1 us" "halts 1 us"
    using h(4) assms(5) by (auto simp: calm_def halts_def split: option.splits)
  have "reads src (branches (parse_expr k sub)) (next_parser st1) (t, e) us"
    unfolding branches_def
  proof (rule reads_bind)
    show "reads src (parse_expr k sub 0) (next_parser st1) t (Colon # unparse 1 e @ us)"
      using at_next [OF st1(1)] need(2) assms(3) h(3) by (intro inner_reads) (auto simp: mark_def)
    fix st2
    assume st2: "at_toks src st2 (Colon # unparse 1 e @ us)"
    show "reads src (and_parse (expect Colon) (\<lambda>_. and_parse (parse_expr k sub 1) (\<lambda>e. yields (t, e)))) st2 (t, e) us"
    proof (rule reads_bind [OF reads_expect [OF st2]])
      show "unparse 1 e @ us \<noteq> []" using h(3) by simp
      fix st3
      assume "at_toks src st3 (unparse 1 e @ us)"
      then have "reads src (parse_expr k sub 1) st3 e us"
        using need(3) assms(4) h(3) ends by (intro expr_reads [of _ _ 1]) (auto simp: reads_back_def)
      then show "reads src (and_parse (parse_expr k sub 1) (\<lambda>e. yields (t, e))) st3 (t, e) us"
        by (rule reads_bind) simp
    qed
  qed
  moreover have i: "infix_of Question = Some (1, Ternary_form)" by (simp add: infix_of_def)
  moreover have "infix_loop (Suc n) (parse_expr k sub) q c st1 =
      and_parse (branches (parse_expr k sub)) (\<lambda>x. infix_loop n (parse_expr k sub) q (case x of (t, e) \<Rightarrow> ETernary c t e)) (next_parser st1)" for n
    using at_cur [OF st1(1)] h(2) assms(5) by (simp add: i flip: branches_bind)
  ultimately show "\<exists>st'. at_toks src st' us \<and>
      parse_expr (Suc k) sub q st = infix_loop (loop_fuel st') (parse_expr k sub) q (ETernary c t e) st'"
    unfolding st1(2)
    using infix_iteration [OF assms(1) st1(1) i, where f = "\<lambda>(t, e). ETernary c t e" and x = "(t, e)" and vs = us] h(2) assms(5)
    by auto
qed

section \<open>Primaries\<close>

lemma more_items_reads:
  assumes "\<forall>e \<in> set es. reads_back src sub e \<and> need 0 e \<le> k" "es \<noteq> []" "length es \<le> n"
    "at_toks src st (commas (map (unparse 0) es) @ t # us)" "mark t" "t \<noteq> Comma" "us \<noteq> []"
  shows "reads src (more_items n (parse_expr k sub 0) t) st es us"
  using assms(1-4)
proof (induction es arbitrary: n st)
  case (Cons e es)
  then obtain n' where n: "n = Suc n'" by (cases n) auto
  have eq: "more_items n (parse_expr k sub 0) t st =
      and_parse (parse_expr k sub 0) (\<lambda>e. and_parse (eat Comma) (\<lambda>again.
       if again then and_parse (more_items n' (parse_expr k sub 0) t) (\<lambda>es. yields (e # es))
       else and_parse (expect t) (\<lambda>_. yields [e]))) st"
    by (simp add: n)
  show ?case
  proof (cases es)
    case Nil
    have "reads src (parse_expr k sub 0) st e (t # us)"
      using Cons.prems Nil assms(5) by (intro inner_reads) auto
    then show ?thesis
      unfolding reads_def eq unfolding reads_def [symmetric] Nil
    proof (rule reads_bind)
      fix st1
      assume "at_toks src st1 (t # us)"
      then have "reads src (eat Comma) st1 False (t # us)" using assms(6) by (intro reads_eat_not) auto
      then show "reads src (and_parse (eat Comma) (\<lambda>again.
         if again then and_parse (more_items n' (parse_expr k sub 0) t) (\<lambda>es. yields (e # es))
         else and_parse (expect t) (\<lambda>_. yields [e]))) st1 [e] us"
        by (rule reads_bind) (use assms(7) in \<open>auto intro: reads_bind [OF reads_expect]\<close>)
    qed
  next
    case (Cons e' es')
    let ?vs = "commas (map (unparse 0) es) @ t # us"
    have "reads src (parse_expr k sub 0) st e (Comma # ?vs)"
      using Cons.prems Cons by (intro inner_reads) (auto simp: mark_def)
    then show ?thesis
      unfolding reads_def eq unfolding reads_def [symmetric]
    proof (rule reads_bind)
      fix st1
      assume "at_toks src st1 (Comma # ?vs)"
      then have "reads src (eat Comma) st1 True ?vs" by (rule reads_eat) simp
      then show "reads src (and_parse (eat Comma) (\<lambda>again.
         if again then and_parse (more_items n' (parse_expr k sub 0) t) (\<lambda>es. yields (e # es))
         else and_parse (expect t) (\<lambda>_. yields [e]))) st1 (e # es) us"
        by (rule reads_bind)
          (use Cons.IH [of n'] Cons.prems n Cons in \<open>auto intro!: reads_bind [where a = es]\<close>)
    qed
  qed
qed simp

lemma commas_length: "length tss \<le> length (commas tss) + 1"
  by (induction tss rule: commas.induct) auto

lemma commas_opens: "tss \<noteq> [] \<Longrightarrow> opens (hd tss) \<Longrightarrow> opens (commas tss)"
  by (induction tss rule: commas.induct) auto

lemma reads_eat_opens:
  "at_toks src st us \<Longrightarrow> opens us \<Longrightarrow> t \<in> {RParen, RBracket, RBrace, Colon} \<Longrightarrow> reads src (eat t) st False us"
  by (rule reads_eat_not) (auto simp: opens_def)

text \<open>Expressions that are printed and read back, with the nesting that is left.\<close>

definition readable :: "string \<Rightarrow> (string \<Rightarrow> parse_failure + expr) \<Rightarrow> nat \<Rightarrow> expr \<Rightarrow> bool" where
  "readable src sub k e \<longleftrightarrow> reads_back src sub e \<and> printable e \<and> need 0 e \<le> k"

lemma items_reads:
  assumes "\<forall>e \<in> set es. readable src sub k e"
    "at_toks src st (commas (map (unparse 0) es) @ t # us)" "t = RParen \<or> t = RBracket" "us \<noteq> []"
  shows "reads src (items (parse_expr k sub 0) t) st es us"
  unfolding items_def
proof (cases "es = []")
  case True
  then have "reads src (eat t) st True us" using assms(2,4) by (auto intro: reads_eat)
  then show "reads src (and_parse (eat t) (\<lambda>closed. if closed then yields [] else (\<lambda>st. more_items (loop_fuel st) (parse_expr k sub 0) t st))) st es us"
    by (rule reads_bind) (simp add: True)
next
  case False
  let ?vs = "commas (map (unparse 0) es) @ t # us"
  have "opens (hd (map (unparse 0) es))" using False assms(1) by (cases es) (auto simp: readable_def unparse_start)
  then have "opens ?vs" using False by (simp add: commas_opens)
  with assms(2,3) have "reads src (eat t) st False ?vs" by (auto intro: reads_eat_opens)
  then show "reads src (and_parse (eat t) (\<lambda>closed. if closed then yields [] else (\<lambda>st. more_items (loop_fuel st) (parse_expr k sub 0) t st))) st es us"
  proof (rule reads_bind)
    fix st1
    assume st1: "at_toks src st1 ?vs"
    have "length es \<le> loop_fuel st1"
      using at_ahead [OF st1] commas_length [of "map (unparse 0) es"] by (simp add: loop_fuel_ahead)
    then have "reads src (more_items (loop_fuel st1) (parse_expr k sub 0) t) st1 es us"
      using assms False st1 by (intro more_items_reads) (auto simp: readable_def mark_def)
    then show "reads src (if False then yields [] else (\<lambda>st. more_items (loop_fuel st) (parse_expr k sub 0) t st)) st1 es us"
      by (simp add: reads_def)
  qed
qed

abbreviation entry_toks :: "string \<times> expr \<Rightarrow> tok list" where
  "entry_toks \<equiv> (\<lambda>(k, e). Str k # Colon # unparse 0 e)"

lemma reads_map_key: "at_toks src st (Str x # us) \<Longrightarrow> us \<noteq> [] \<Longrightarrow> reads src map_key st x us"
  by (simp add: reads_def map_key_def at_cur at_next)

lemma map_entries_reads:
  assumes "\<forall>e \<in> snd ` set es. readable src sub k e" "es \<noteq> []" "length es \<le> n"
    "at_toks src st (commas (map entry_toks es) @ RBrace # us)" "us \<noteq> []"
  shows "reads src (map_entries n (parse_expr k sub 0)) st es us"
  using assms(1-4)
proof (induction es arbitrary: n st)
  case (Cons x es)
  obtain key e where x: "x = (key, e)" by (cases x)
  obtain n' where n: "n = Suc n'" using Cons.prems by (cases n) auto
  let ?cont = "\<lambda>again. if again then and_parse (map_entries n' (parse_expr k sub 0)) (\<lambda>es. yields ((key, e) # es))
    else and_parse (expect RBrace) (\<lambda>_. yields [(key, e)])"
  have e: "readable src sub k e" using Cons.prems(1) x by simp
  have step: "reads src (map_entries n (parse_expr k sub 0)) st (x # es) us"
    if toks: "at_toks src st (Str key # Colon # unparse 0 e @ t # vs)" "mark t"
      and cont: "\<And>st. at_toks src st (t # vs) \<Longrightarrow> reads src (and_parse (eat Comma) ?cont) st (x # es) us" for t vs
  proof -
    have "reads src (and_parse map_key (\<lambda>key. and_parse (expect Colon) (\<lambda>_. and_parse (parse_expr k sub 0) (\<lambda>e. and_parse (eat Comma) (\<lambda>again.
       if again then and_parse (map_entries n' (parse_expr k sub 0)) (\<lambda>es. yields ((key, e) # es))
       else and_parse (expect RBrace) (\<lambda>_. yields [(key, e)])))))) st (x # es) us"
    proof (rule reads_bind [OF reads_map_key [OF toks(1)]], simp, rule reads_bind [OF reads_expect], assumption, simp, rule reads_bind)
      fix st2
      assume "at_toks src st2 (unparse 0 e @ t # vs)"
      then show "reads src (parse_expr k sub 0) st2 e (t # vs)"
        using e toks(2) by (intro inner_reads) (auto simp: readable_def)
    qed (rule cont)
    then show ?thesis by (simp add: n reads_def)
  qed
  show ?case
  proof (cases es)
    case Nil
    show ?thesis
    proof (rule step)
      show "at_toks src st (Str key # Colon # unparse 0 e @ RBrace # us)" using Cons.prems(4) x Nil by simp
      fix st1
      assume "at_toks src st1 (RBrace # us)"
      then have "reads src (eat Comma) st1 False (RBrace # us)" by (intro reads_eat_not) auto
      then show "reads src (and_parse (eat Comma) ?cont) st1 (x # es) us"
        by (rule reads_bind) (use assms(5) x Nil in \<open>auto intro: reads_bind [OF reads_expect]\<close>)
    qed (simp add: mark_def)
  next
    case (Cons e' es')
    let ?vs = "commas (map entry_toks es) @ RBrace # us"
    show ?thesis
    proof (rule step)
      show "at_toks src st (Str key # Colon # unparse 0 e @ Comma # ?vs)" using Cons.prems(4) x Cons by simp
      fix st1
      assume "at_toks src st1 (Comma # ?vs)"
      then have "reads src (eat Comma) st1 True ?vs" by (rule reads_eat) simp
      then show "reads src (and_parse (eat Comma) ?cont) st1 (x # es) us"
        by (rule reads_bind)
          (use Cons.IH [of n'] Cons.prems n x Cons in \<open>auto intro!: reads_bind [where a = es]\<close>)
    qed (simp add: mark_def)
  qed
qed simp

lemma map_literal_reads:
  assumes "\<forall>e \<in> snd ` set es. readable src sub k e"
    "at_toks src st (commas (map entry_toks es) @ RBrace # us)" "us \<noteq> []"
  shows "reads src (map_literal (parse_expr k sub 0)) st es us"
  unfolding map_literal_def
proof (cases "es = []")
  case True
  then have "reads src (eat RBrace) st True us" using assms(2,3) by (auto intro: reads_eat)
  then show "reads src (and_parse (eat RBrace) (\<lambda>closed. if closed then yields [] else (\<lambda>st. map_entries (loop_fuel st) (parse_expr k sub 0) st))) st es us"
    by (rule reads_bind) (simp add: True)
next
  case False
  let ?vs = "commas (map entry_toks es) @ RBrace # us"
  have "opens (hd (map entry_toks es))" using False by (cases es) auto
  then have "opens ?vs" using False by (simp add: commas_opens)
  with assms(2) have "reads src (eat RBrace) st False ?vs" by (auto intro: reads_eat_opens)
  then show "reads src (and_parse (eat RBrace) (\<lambda>closed. if closed then yields [] else (\<lambda>st. map_entries (loop_fuel st) (parse_expr k sub 0) st))) st es us"
  proof (rule reads_bind)
    fix st1
    assume st1: "at_toks src st1 ?vs"
    have "length es \<le> loop_fuel st1"
      using at_ahead [OF st1] commas_length [of "map entry_toks es"] by (simp add: loop_fuel_ahead)
    then have "reads src (map_entries (loop_fuel st1) (parse_expr k sub 0)) st1 es us"
      using assms False st1 by (intro map_entries_reads) auto
    then show "reads src (if False then yields [] else (\<lambda>st. map_entries (loop_fuel st) (parse_expr k sub 0) st)) st1 es us"
      by (simp add: reads_def)
  qed
qed

abbreviation bound_toks :: "expr option \<Rightarrow> tok list" where
  "bound_toks b \<equiv> (case b of None \<Rightarrow> [] | Some x \<Rightarrow> unparse 0 x)"

lemma range_end_reads:
  assumes "\<forall>e \<in> set_option hi. readable src sub k e" "at_toks src st (bound_toks hi @ RBracket # us)" "us \<noteq> []"
  shows "reads src (range_end (parse_expr k sub 0)) st hi us"
proof (cases hi)
  case None
  then have "reads src (and_parse (expect RBracket) (\<lambda>_. yields None)) st hi us"
    using assms(2,3) by (auto intro!: reads_bind [OF reads_expect])
  then show ?thesis using assms(2) None by (simp add: reads_def range_end_def at_cur)
next
  case (Some e)
  have e: "readable src sub k e" using assms(1) Some by simp
  have "reads src (and_parse (parse_expr k sub 0) (\<lambda>e. and_parse (expect RBracket) (\<lambda>_. yields (Some e)))) st hi us"
  proof (rule reads_bind)
    show "reads src (parse_expr k sub 0) st e (RBracket # us)"
      using e assms(2) Some by (intro inner_reads) (auto simp: readable_def mark_def)
  qed (use Some assms(3) in \<open>auto intro!: reads_bind [OF reads_expect]\<close>)
  moreover have "cur st \<noteq> RBracket"
    using e assms(2) Some unparse_start [of e 0]
    by (cases "unparse 0 e") (auto simp: readable_def opens_def at_cur)
  ultimately show ?thesis by (simp add: reads_def range_end_def)
qed

lemma open_range_reads:
  assumes "\<forall>e \<in> set_option hi. readable src sub k e" "at_toks src st (Colon # bound_toks hi @ RBracket # us)" "us \<noteq> []"
  shows "reads src (bracket (parse_expr k sub 0) e) st (ERange e None hi) us"
  unfolding bracket_def
proof (rule reads_bind [OF reads_eat [OF assms(2)]], simp, unfold if_True, rule reads_bind)
  fix st1
  assume "at_toks src st1 (bound_toks hi @ RBracket # us)"
  from range_end_reads [OF assms(1) this assms(3)]
  show "reads src (range_end (parse_expr k sub 0)) st1 hi us" .
qed simp

lemma closed_bracket_reads:
  assumes "readable src sub k i" "at_toks src st (unparse 0 i @ t # vs)" "mark t"
    "\<And>st. at_toks src st (t # vs) \<Longrightarrow> reads src (and_parse (eat Colon) (\<lambda>is_range.
       if is_range then and_parse (range_end (parse_expr k sub 0)) (\<lambda>hi. yields (ERange e (Some i) hi))
       else and_parse (expect RBracket) (\<lambda>_. yields (EIndex e i)))) st x us"
  shows "reads src (bracket (parse_expr k sub 0) e) st x us"
  unfolding bracket_def
proof (rule reads_bind)
  have "opens (unparse 0 i @ t # vs)" using assms(1) by (simp add: readable_def unparse_start)
  with assms(2) show "reads src (eat Colon) st False (unparse 0 i @ t # vs)" by (auto intro: reads_eat_opens)
  fix st1
  assume "at_toks src st1 (unparse 0 i @ t # vs)"
  then have "reads src (parse_expr k sub 0) st1 i (t # vs)"
    using assms(1,3) by (intro inner_reads) (auto simp: readable_def)
  then show "reads src (if False then and_parse (range_end (parse_expr k sub 0)) (\<lambda>hi. yields (ERange e None hi))
      else and_parse (parse_expr k sub 0) (\<lambda>lo. and_parse (eat Colon) (\<lambda>is_range.
       if is_range then and_parse (range_end (parse_expr k sub 0)) (\<lambda>hi. yields (ERange e (Some lo) hi))
       else and_parse (expect RBracket) (\<lambda>_. yields (EIndex e lo))))) st1 x us"
    unfolding if_False by (rule reads_bind) (rule assms(4))
qed

lemma index_reads:
  assumes "readable src sub k i" "at_toks src st (unparse 0 i @ RBracket # us)" "us \<noteq> []"
  shows "reads src (bracket (parse_expr k sub 0) e) st (EIndex e i) us"
proof (rule closed_bracket_reads [OF assms(1,2)])
  fix st1
  assume "at_toks src st1 (RBracket # us)"
  then have "reads src (eat Colon) st1 False (RBracket # us)" by (intro reads_eat_not) auto
  then show "reads src (and_parse (eat Colon) (\<lambda>is_range.
       if is_range then and_parse (range_end (parse_expr k sub 0)) (\<lambda>hi. yields (ERange e (Some i) hi))
       else and_parse (expect RBracket) (\<lambda>_. yields (EIndex e i)))) st1 (EIndex e i) us"
    by (rule reads_bind) (use assms(3) in \<open>auto intro!: reads_bind [OF reads_expect]\<close>)
qed (simp add: mark_def)

lemma range_reads:
  assumes "readable src sub k i" "\<forall>e \<in> set_option hi. readable src sub k e"
    "at_toks src st (unparse 0 i @ Colon # bound_toks hi @ RBracket # us)" "us \<noteq> []"
  shows "reads src (bracket (parse_expr k sub 0) e) st (ERange e (Some i) hi) us"
proof (rule closed_bracket_reads [OF assms(1,3)])
  fix st1
  assume "at_toks src st1 (Colon # bound_toks hi @ RBracket # us)"
  then have "reads src (eat Colon) st1 True (bound_toks hi @ RBracket # us)" by (rule reads_eat) simp
  then show "reads src (and_parse (eat Colon) (\<lambda>is_range.
       if is_range then and_parse (range_end (parse_expr k sub 0)) (\<lambda>hi. yields (ERange e (Some i) hi))
       else and_parse (expect RBracket) (\<lambda>_. yields (EIndex e i)))) st1 (ERange e (Some i) hi) us"
  proof (rule reads_bind)
    fix st2
    assume "at_toks src st2 (bound_toks hi @ RBracket # us)"
    from range_end_reads [OF assms(2) this assms(4)]
    show "reads src (if True then and_parse (range_end (parse_expr k sub 0)) (\<lambda>hi. yields (ERange e (Some i) hi))
       else and_parse (expect RBracket) (\<lambda>_. yields (EIndex e i))) st2 (ERange e (Some i) hi) us"
      unfolding if_True by (rule reads_bind) simp
  qed
qed (simp add: mark_def)

lemma member_reads:
  assumes "at_toks src st (Ident x # us)" "us \<noteq> []" "hd us \<noteq> LParen"
  shows "reads src (dotted ex e) st (EMember e x) us"
  unfolding dotted_def
  by (rule reads_bind [OF reads_expect_ident [OF assms(1,2)]], rule reads_bind [OF reads_eat_not]) (use assms in auto)

lemma method_reads:
  assumes "\<forall>e \<in> set es. readable src sub k e"
    "at_toks src st (Ident f # LParen # commas (map (unparse 0) es) @ RParen # us)" "us \<noteq> []"
  shows "reads src (dotted (parse_expr k sub 0) e) st (ECall (Some e) f es) us"
  unfolding dotted_def
proof (rule reads_bind [OF reads_expect_ident [OF assms(2)]], simp, rule reads_bind [OF reads_eat], assumption, simp, unfold if_True, rule reads_bind)
  fix st1
  assume "at_toks src st1 (commas (map (unparse 0) es) @ RParen # us)"
  from items_reads [OF assms(1) this _ assms(3)]
  show "reads src (items (parse_expr k sub 0) RParen) st1 es us" by simp
qed simp

text \<open>One iteration of the loop over postfixes.\<close>

lemma postfix_iteration:
  assumes "splices src sub" "at_toks src st (t # us)"
    "\<And>n. postfix_loop (Suc n) (parse_expr k sub 0) e st = and_parse m (postfix_loop n (parse_expr k sub 0)) st1"
    "reads src m st1 x vs" "length vs \<le> length us"
  shows "\<exists>st'. at_toks src st' vs \<and>
    postfix_loop (loop_fuel st) (parse_expr k sub 0) e st = postfix_loop (loop_fuel st') (parse_expr k sub 0) x st'"
proof -
  obtain st' where st': "m st1 = Inr (x, st')" "at_toks src st' vs" using assms(4) by (auto simp: reads_def)
  have "loop_fuel st' \<le> ahead st"
    using at_ahead [OF assms(2)] at_ahead [OF st'(2)] assms(5) by (simp add: loop_fuel_ahead)
  then have "postfix_loop (ahead st) (parse_expr k sub 0) x st' = postfix_loop (loop_fuel st') (parse_expr k sub 0) x st'"
    by (rule expr_parser.postfix_refuel [OF parse_expr_locale [OF assms(1)] at_ok [OF st'(2)]])
  then have "postfix_loop (loop_fuel st) (parse_expr k sub 0) e st = postfix_loop (loop_fuel st') (parse_expr k sub 0) x st'"
    using assms(3) [of "ahead st"] st'(1) by (simp add: loop_fuel_ahead and_parse_def)
  then show ?thesis using st'(2) by blast
qed

lemma postfix_back:
  assumes "splices src sub" "primary_back src sub e" "need 9 e \<le> need 9 x" "t = Dot \<or> t = LBracket"
    "unparse 9 x = unparse 9 e @ t # ts"
    "\<And>k st us. need 9 x \<le> Suc k \<Longrightarrow> us \<noteq> [] \<Longrightarrow> hd us \<noteq> LParen \<Longrightarrow> at_toks src st (ts @ us) \<Longrightarrow>
       reads src ((if t = Dot then dotted else bracket) (parse_expr k sub 0) e) st x us"
  shows "primary_back src sub x"
  unfolding primary_back_def
proof (intro allI impI)
  fix k st us
  assume h: "need 9 x \<le> Suc k" "us \<noteq> []" "hd us \<noteq> LParen" "at_toks src st (unparse 9 x @ us)"
  have "hd (t # ts @ us) \<noteq> LParen" using assms(4) by auto
  with primary_backD [OF assms(2), of st "t # ts @ us" k] h(1,4) assms(3,5) obtain st1 where
    st1: "at_toks src st1 (t # ts @ us)"
      "prefix_expr sub (parse_expr k sub) st = postfix_loop (loop_fuel st1) (parse_expr k sub 0) e st1" by auto
  have "reads src ((if t = Dot then dotted else bracket) (parse_expr k sub 0) e) (next_parser st1) x us"
    using assms(6) [OF h(1-3)] at_next [OF st1(1)] h(2) by simp
  then show "\<exists>st'. at_toks src st' us \<and>
      prefix_expr sub (parse_expr k sub) st = postfix_loop (loop_fuel st') (parse_expr k sub 0) x st'"
    unfolding st1(2) using at_cur [OF st1(1)] assms(4)
    by (intro postfix_iteration [OF assms(1) st1(1)]) auto
qed

lemma primary_atom:
  assumes "\<And>k st us. need 9 e \<le> Suc k \<Longrightarrow> us \<noteq> [] \<Longrightarrow> hd us \<noteq> LParen \<Longrightarrow> at_toks src st (unparse 9 e @ us) \<Longrightarrow>
    reads src (primary sub (parse_expr k sub)) st e us"
  shows "primary_back src sub e"
  unfolding primary_back_def using primary_prefix [OF assms] by blast

lemma leaf_back:
  assumes "case e of ENull \<Rightarrow> True | EBool _ \<Rightarrow> True | EInt _ \<Rightarrow> True | EStr _ \<Rightarrow> True | _ \<Rightarrow> False"
  shows "primary_back src sub e"
  using assms
  by (intro primary_atom, cases e) (auto simp: reads_def primary_def named_def at_cur yields_def intro: at_next)

lemma ident_back: "variable x \<Longrightarrow> primary_back src sub (EIdent x)"
proof (rule primary_atom)
  fix k st us
  assume v: "variable x" and h: "us \<noteq> []" "hd us \<noteq> LParen" "at_toks src st (unparse 9 (EIdent x) @ us)"
  then have "reads src (eat LParen) (next_parser st) False us" by (auto intro: reads_eat_not at_next)
  then have "reads src (named (parse_expr k sub 0) x) (next_parser st) (EIdent x) us"
    unfolding named_def using v by (auto simp: variable_def elim!: reads_bind)
  then show "reads src (primary sub (parse_expr k sub)) st (EIdent x) us"
    using h(3) by (auto simp: reads_def primary_def at_cur)
qed

lemma call_back:
  assumes "variable f" "\<And>k. need 9 (ECall None f es) \<le> Suc k \<Longrightarrow> \<forall>e \<in> set es. readable src sub k e"
  shows "primary_back src sub (ECall None f es)"
proof (rule primary_atom)
  fix k st us
  assume h: "need 9 (ECall None f es) \<le> Suc k" "us \<noteq> []" "at_toks src st (unparse 9 (ECall None f es) @ us)"
  let ?vs = "commas (map (unparse 0) es) @ RParen # us"
  from h have "reads src (eat LParen) (next_parser st) True ?vs" by (auto intro: reads_eat at_next)
  moreover have "reads src (and_parse (items (parse_expr k sub 0) RParen) (\<lambda>es. yields (ECall None f es))) st' (ECall None f es) us"
    if "at_toks src st' ?vs" for st'
    by (rule reads_bind [OF items_reads [OF assms(2) [OF h(1)] that _ h(2)]]) simp_all
  ultimately have "reads src (named (parse_expr k sub 0) f) (next_parser st) (ECall None f es) us"
    unfolding named_def using assms(1) by (auto simp: variable_def elim!: reads_bind)
  then show "reads src (primary sub (parse_expr k sub)) st (ECall None f es) us"
    using h(3) by (auto simp: reads_def primary_def at_cur)
qed

lemma list_back:
  assumes "\<And>k. need 9 (EList es) \<le> Suc k \<Longrightarrow> \<forall>e \<in> set es. readable src sub k e"
  shows "primary_back src sub (EList es)"
proof (rule primary_atom)
  fix k st us
  assume h: "need 9 (EList es) \<le> Suc k" "us \<noteq> []" "at_toks src st (unparse 9 (EList es) @ us)"
  from h(3) have "at_toks src (next_parser st) (commas (map (unparse 0) es) @ RBracket # us)" by (auto intro: at_next)
  from items_reads [OF assms [OF h(1)] this _ h(2)]
  have "reads src (and_parse (items (parse_expr k sub 0) RBracket) (\<lambda>es. yields (EList es))) (next_parser st) (EList es) us"
    by (auto intro: reads_bind)
  then show "reads src (primary sub (parse_expr k sub)) st (EList es) us"
    using h(3) by (auto simp: reads_def primary_def at_cur)
qed

lemma map_back:
  assumes "\<And>k. need 9 (EMap es) \<le> Suc k \<Longrightarrow> \<forall>e \<in> snd ` set es. readable src sub k e"
  shows "primary_back src sub (EMap es)"
proof (rule primary_atom)
  fix k st us
  assume h: "need 9 (EMap es) \<le> Suc k" "us \<noteq> []" "at_toks src st (unparse 9 (EMap es) @ us)"
  from h(3) have "at_toks src (next_parser st) (commas (map entry_toks es) @ RBrace # us)" by (auto intro: at_next)
  from map_literal_reads [OF assms [OF h(1)] this h(2)]
  have "reads src (and_parse (map_literal (parse_expr k sub 0)) (\<lambda>es. yields (EMap es))) (next_parser st) (EMap es) us"
    by (auto intro: reads_bind)
  then show "reads src (primary sub (parse_expr k sub)) st (EMap es) us"
    using h(3) by (auto simp: reads_def primary_def at_cur)
qed

lemma parens_back:
  assumes "back_at src sub 0 e" "strength e < 9"
  shows "primary_back src sub e"
proof (rule primary_atom)
  fix k st us
  assume h: "need 9 e \<le> Suc k" "us \<noteq> []" "at_toks src st (unparse 9 e @ us)"
  have need: "need 0 e \<le> k" using h(1) assms(2) need_strength [of 9 e] by simp
  from h(3) assms(2) have st: "at_toks src st (LParen # unparse 0 e @ RParen # us)" using unparse_strength [of 9 e] by simp
  have "reads src (parse_expr k sub 0) (next_parser st) e (RParen # us)"
    using at_next [OF st] mark_calm [of RParen 0 us 0] need by (intro expr_reads [OF assms(1)]) (auto simp: mark_def)
  then have "reads src (and_parse (parse_expr k sub 0) (\<lambda>e. and_parse (expect RParen) (\<lambda>_. yields e))) (next_parser st) e us"
    by (rule reads_bind) (use h(2) in \<open>auto intro!: reads_bind [OF reads_expect]\<close>)
  then show "reads src (primary sub (parse_expr k sub)) st e us"
    using at_cur [OF st] by (auto simp: reads_def primary_def)
qed

text \<open>From the bare forms of an expression to all its forms.\<close>

lemma operator_back:
  assumes "\<And>p. p \<le> strength e \<Longrightarrow> back_at src sub p e" "strength e < 9"
  shows "reads_back src sub e"
proof -
  have p: "primary_back src sub e" by (rule parens_back [OF assms(1) assms(2)]) simp
  moreover have "back_at src sub p e" for p
  proof (cases "p \<le> strength e")
    case False
    then show ?thesis
      using p assms(2) unparse_strength [of p e] unparse_strength [of 9 e] need_strength [of p e] need_strength [of 9 e]
      by (intro primary_back_at) auto
  qed (rule assms(1))
  ultimately show ?thesis by (simp add: reads_back_def)
qed

lemma plain_back: "primary_back src sub e \<Longrightarrow> strength e = 9 \<Longrightarrow> reads_back src sub e"
proof -
  assume e: "primary_back src sub e" "strength e = 9"
  have "back_at src sub p e" for p
    using e(2) unparse_strength [of p e] unparse_strength [of 9 e] need_strength [of p e] need_strength [of 9 e]
    by (intro primary_back_at [OF e(1)]) auto
  then show "reads_back src sub e" using e(1) by (simp add: reads_back_def)
qed

text \<open>The parts of an expression, each smaller.\<close>

lemma part_sizes:
  "e \<in> set es \<Longrightarrow> size e < size (EList es)" "e \<in> snd ` set kes \<Longrightarrow> size e < size (EMap kes)"
  "e \<in> set es \<Longrightarrow> size e < size (ECall t f es)" "size x < size (ECall (Some x) f es)"
  "size x < size (ERange x lo hi)" "e \<in> set_option lo \<Longrightarrow> size e < size (ERange x lo hi)"
  "e \<in> set_option hi \<Longrightarrow> size e < size (ERange x lo hi)"
  by (auto simp: less_Suc_eq_le intro!: size_list_estimation' trans_le_add2)

theorem all_read_back:
  assumes "splices src sub" "printable e"
  shows "reads_back src sub e"
  using assms(2)
proof (induction e rule: measure_induct_rule [where f = size])
  case (less e)
  have IH: "reads_back src sub x" if "size x < size e" "printable x" for x using less.IH that by blast
  have part: "readable src sub k x" if "size x < size e" "printable x" "need 0 x \<le> k" for k x
    using IH [OF that(1,2)] that by (simp add: readable_def)
  show ?case
  proof (cases e)
    case (EList es)
    have "primary_back src sub e"
      unfolding EList by (rule list_back) (use less.prems EList in \<open>auto intro!: part part_sizes simp: most_le\<close>)
    then show ?thesis by (rule plain_back) (simp add: EList strength_def)
  next
    case (EMap es)
    have "primary_back src sub e"
      unfolding EMap by (rule map_back) (use less.prems EMap in \<open>auto intro!: part part_sizes simp: most_le; force\<close>)
    then show ?thesis by (rule plain_back) (simp add: EMap strength_def)
  next
    case (ECall t f es)
    show ?thesis
    proof (cases t)
      case None
      have "primary_back src sub e"
        unfolding ECall None
        by (rule call_back) (use less.prems ECall None in \<open>auto intro!: part part_sizes simp: most_le\<close>)
      then show ?thesis by (rule plain_back) (simp add: ECall strength_def)
    next
      case (Some x)
      have x: "reads_back src sub x" by (rule IH) (use less.prems ECall Some in \<open>auto intro: part_sizes\<close>)
      have "primary_back src sub e"
        unfolding ECall Some
        by (rule postfix_back [OF assms(1), where e = x and t = Dot and ts = "Ident f # LParen # commas (map (unparse 0) es) @ [RParen]"])
          (use x less.prems ECall Some in \<open>auto simp: reads_back_def most_le intro!: method_reads part part_sizes\<close>)
      then show ?thesis by (rule plain_back) (simp add: ECall strength_def)
    qed
  next
    case (EMember x y)
    have x: "reads_back src sub x" by (rule IH) (use less.prems EMember in auto)
    have "primary_back src sub e"
      unfolding EMember
      by (rule postfix_back [OF assms(1), where e = x and t = Dot and ts = "[Ident y]"])
        (use x in \<open>auto simp: reads_back_def intro!: member_reads\<close>)
    then show ?thesis by (rule plain_back) (simp add: EMember strength_def)
  next
    case (EIndex x i)
    have x: "reads_back src sub x" by (rule IH) (use less.prems EIndex in auto)
    have "primary_back src sub e"
      unfolding EIndex
      by (rule postfix_back [OF assms(1), where e = x and t = LBracket and ts = "unparse 0 i @ [RBracket]"])
        (use x less.prems EIndex in \<open>auto simp: reads_back_def intro!: index_reads part\<close>)
    then show ?thesis by (rule plain_back) (simp add: EIndex strength_def)
  next
    case (ERange x lo hi)
    have x: "reads_back src sub x" by (rule IH) (use less.prems ERange in \<open>auto intro: part_sizes\<close>)
    have hi: "\<forall>e \<in> set_option hi. readable src sub k e" if "need 9 e \<le> Suc k" for k
      using that less.prems ERange by (auto intro!: part part_sizes(7))
    have "primary_back src sub e"
    proof (cases lo)
      case None
      show ?thesis
        unfolding ERange None
        by (rule postfix_back [OF assms(1), where e = x and t = LBracket and ts = "Colon # bound_toks hi @ [RBracket]"])
          (use x hi ERange None in \<open>auto simp: reads_back_def intro!: open_range_reads\<close>)
    next
      case (Some l)
      have l: "readable src sub k l" if "need 9 e \<le> Suc k" for k
        using that less.prems ERange Some by (auto intro!: part part_sizes(6))
      have e: "e = ERange x (Some l) hi" using ERange Some by simp
      show ?thesis
        unfolding e
      proof (rule postfix_back [OF assms(1), where e = x and t = LBracket and ts = "unparse 0 l @ Colon # bound_toks hi @ [RBracket]"], goal_cases)
        case (5 k st us)
        then have "need 9 e \<le> Suc k" by (simp add: e)
        from range_reads [OF l [OF this] hi [OF this]] 5 show ?case by simp
      qed (use x in \<open>simp_all add: reads_back_def\<close>)
    qed
    then show ?thesis by (rule plain_back) (simp add: ERange strength_def)
  next
    case (EUnary op x)
    have x: "reads_back src sub x" by (rule IH) (use less.prems EUnary in auto)
    show ?thesis
      unfolding EUnary by (rule operator_back, rule unary_back [OF x]) (simp_all add: strength_def)
  next
    case (EBinary op a b)
    have a: "reads_back src sub a" and b: "reads_back src sub b" using less.prems EBinary by (auto intro: IH)
    show ?thesis
      unfolding EBinary
      by (rule operator_back, rule binary_back [OF assms(1) a b])
        (use op_power_range(2) [of op] in \<open>simp_all add: strength_def\<close>)
  next
    case (ETernary c t x)
    have sub: "reads_back src sub c" "reads_back src sub t" "reads_back src sub x"
      using less.prems ETernary by (auto intro: IH)
    show ?thesis
      unfolding ETernary by (rule operator_back, rule ternary_back [OF assms(1) sub]) (simp_all add: strength_def)
  next
    case (EIs x ty)
    have x: "reads_back src sub x" by (rule IH) (use less.prems EIs in auto)
    show ?thesis
      unfolding EIs by (rule operator_back, rule is_back [OF assms(1) x]) (simp_all add: strength_def)
  next
    case (EIdent x)
    then show ?thesis using less.prems by (auto intro!: plain_back ident_back simp: strength_def)
  qed (use less.prems in \<open>auto intro!: plain_back leaf_back simp: strength_def\<close>)
qed

section \<open>From text to trees\<close>

lemma tok_ok_simps [simp]:
  "tok_ok LParen" "tok_ok RParen" "tok_ok LBracket" "tok_ok RBracket" "tok_ok LBrace" "tok_ok RBrace" "tok_ok Comma"
  "tok_ok Colon" "tok_ok Question" "tok_ok Dot" "tok_ok (Str s) \<longleftrightarrow> utf8_ok s" "tok_ok (IntLit i) \<longleftrightarrow> 0 \<le> sint i"
  "tok_ok (Ident ''true'')" "tok_ok (Ident ''false'')" "tok_ok (Ident ''null'')" "tok_ok (Ident ''is'')"
  "tok_ok (op_tok op)" "tok_ok (un_tok u)"
  by (cases op; cases u; simp add: tok_ok_def op_tok_def un_tok_def is_ident_start_def is_ident_char_def)+

lemma commas_toks: "\<forall>ts \<in> set tss. list_all tok_ok ts \<Longrightarrow> list_all tok_ok (commas tss)"
  by (induction tss rule: commas.induct) auto

lemma unparse_toks: "printable e \<Longrightarrow> list_all tok_ok (unparse p e)"
proof (induction p e rule: unparse.induct)
  case (6 p es)
  then have "list_all tok_ok (commas (map (unparse 0) es))" by (intro commas_toks) auto
  then show ?case by simp
next
  case (7 p es)
  have "list_all tok_ok (entry_toks x)" if "x \<in> set es" for x
    using 7 that by (cases x) fastforce
  then have "list_all tok_ok (commas (map entry_toks es))" by (intro commas_toks) auto
  then show ?case by simp
next
  case (13 p t f es)
  then have "list_all tok_ok (commas (map (unparse 0) es))" by (intro commas_toks) auto
  then show ?case using 13 by (cases t) (auto simp: ident_def variable_def)
qed (auto simp: wrap_def ident_def variable_def split: option.splits)

text \<open>
  C6. An expression that is printed with only the parentheses its operators need, and whose nesting
  is within the limit of a hundred, parses back to itself: the binding powers and the association
  of the operators are those of the printer.
\<close>

theorem expression_roundtrip:
  assumes "printable e" "need 0 e \<le> 100"
  shows "parse_expression (render (unparse 0 e)) = Inr e"
proof -
  let ?src = "render (unparse 0 e)" and ?sub = "parse_expression_at (length (render (unparse 0 e)))"
  obtain toks where toks: "tokenize ?src = Inr toks" "map lt_tok toks = unparse 0 e @ [Eof]"
    using tokenize_from_render [OF unparse_toks [OF assms(1), of 0], of "new_lexer ?src" "[]"]
    by (auto simp: tokenize_def new_lexer_def)
  let ?st = "\<lparr>ps_source = ?src, ps_tokens = toks\<rparr>"
  have sub: "splices ?src ?sub" by (simp add: splices_def parse_expression_at_fueled)
  have "at_toks ?src ?st (unparse 0 e @ [Eof])" using toks(2) by (simp add: at_toks_def)
  then have "reads ?src (parse_expr MAX_EXPR_DEPTH ?sub 0) ?st e [Eof]"
    using assms(2) all_read_back [OF sub assms(1)] mark_calm [of Eof 0 "[]" 0]
    by (intro expr_reads [of _ _ 0]) (auto simp: reads_back_def MAX_EXPR_DEPTH_def mark_def)
  then obtain st' where st': "parse_expr MAX_EXPR_DEPTH ?sub 0 ?st = Inr (e, st')" "at_toks ?src st' [Eof]"
    by (auto simp: reads_def)
  have "lexed ?src = Inr ?st" using toks(1) by (simp add: lexed_def)
  then show ?thesis using st' at_cur [OF st'(2)] by (simp add: parse_expression_def)
qed

text \<open>\<open>!a.b[0] || (c || d) && x - (y - 1) in [z]\<close>.\<close>

theorem expression_roundtrip_witness:
  "parse_expression (render (unparse 0
     (EBinary Or (EUnary NotOp (EIndex (EMember (EIdent ''a'') ''b'') (EInt 0)))
       (EBinary And (EBinary Or (EIdent ''c'') (EIdent ''d''))
         (EBinary In (EBinary Sub (EIdent ''x'') (EBinary Sub (EIdent ''y'') (EInt 1))) (EList [EIdent ''z'']))))))
   = Inr (EBinary Or (EUnary NotOp (EIndex (EMember (EIdent ''a'') ''b'') (EInt 0)))
       (EBinary And (EBinary Or (EIdent ''c'') (EIdent ''d''))
         (EBinary In (EBinary Sub (EIdent ''x'') (EBinary Sub (EIdent ''y'') (EInt 1))) (EList [EIdent ''z'']))))"
  by (rule expression_roundtrip)
    (simp_all add: variable_def ident_def tok_ok_def is_ident_start_def is_ident_char_def wraps_def op_power_def most_def)

end
