(* ===== verification/Spec2Isabelle.thy ===== *)
theory Spec2Isabelle
  imports ServiceProps FanoutProps ListenProps ListenTimes FunctionsProps RestProps WebChannelProps QueryProps RulesData ParserProps ParserTrip
begin

text \<open>
  Waldflam is a Firestore-compatible database server in Rust over MongoDB.  This development
  models its engine (\<open>src/crates/waldflam-engine\<close>), its security rules
  (\<open>src/crates/waldflam-rules\<close>) and the part of the server that serves requests with them
  (\<open>auth.rs\<close>, \<open>rules.rs\<close>, \<open>service.rs\<close>, \<open>write_stream.rs\<close>,
  \<open>listen.rs\<close>, \<open>webchannel.rs\<close>, \<open>functions.rs\<close> and \<open>rest.rs\<close> of
  \<open>src/crates/waldflam-server\<close>), and proves what makes them correct.

  How the parts interact: a request carries an authorization (\<open>auth.rs\<close>); the handler in
  \<open>service.rs\<close> parses its names, asks \<open>rules.rs\<close> whether the ruleset permits it, which
  reads documents through the engine's store, and records what a transaction reads
  (\<open>txn.rs\<close>); a write then goes through \<open>commit.rs\<close>, which applies it in a MongoDB
  transaction and stores beside every row the order-preserving keys of its fields
  (\<open>index_key.rs\<close>), and leaves a notice from which other instances rebuild the event
  (\<open>fanout.rs\<close>); a query is planned (\<open>plan.rs\<close>) into a filter, a sort and a
  window on those keys, and what the driver returns is filtered, sorted and cut again in memory
  (\<open>query.rs\<close>).  The ruleset itself is text, lexed, parsed, matched and evaluated.

  Engine, bottom up:

  \<^item> Prelude, Strings, F64, Decimal, SortBy: machine words, Rust's \<open>Ordering\<close>, strings as
    byte lists, binary64 arithmetic by exact scaled integers and rounding, decimal printing, the
    stable sort; the contract \<open>key_sep\<close> of keys that order like what they encode, with its
    locales \<open>order_key\<close> and \<open>tagged_key\<close>, and the locale \<open>cmp_order\<close> of
    comparators that a sort may rely on.
  \<^item> Values, Order (\<open>order.rs\<close>): values and their total order.
  \<^item> Encoding (\<open>encoding.rs\<close>), EncodingSpec, EncodingOrder, NumberOrder: the ordered byte
    encoding of numbers as the source computes it on words; its arithmetic form; the order of
    that form; and the value of a number as an integer, to which \<open>from_i64\<close>,
    \<open>from_f64\<close>, \<open>cmp_doubles\<close> and \<open>cmp_int_double\<close> are shown to agree.
  \<^item> IndexKey (\<open>index_key.rs\<close>): index keys of whole values and their hexadecimal form.
  \<^item> Paths (\<open>path.rs\<close>, \<open>error.rs\<close>), FieldPaths (\<open>fields.rs\<close>): resource names, dotted
    field paths; the locale \<open>field_access\<close> is the interface of field access.
  \<^item> Store (\<open>store.rs\<close>): rows and index columns over a MongoDB driver that is a parameter
    (\<open>mongo\<close>), with its documented behaviour as \<open>mongo_laws\<close>.
  \<^item> Commit (\<open>commit.rs\<close>, \<open>watch.rs\<close>), CommitProps, CommitBatch, CommitLive:
    preconditions, masks, transforms, the batch inside a transaction and the retry loops; what a
    batch does to the rows, what it does when it fails, when the retries end in success, and
    that only a commit call answered \<open>Committed\<close> is reported as success.
  \<^item> Txn (\<open>txn.rs\<close>): the table of transactions, the versions they read and their validation.
  \<^item> Fanout (\<open>fanout.rs\<close>, \<open>watch.rs\<close>), FanoutProps: the events an instance publishes of the
    notices that batches store (\<open>notices_law\<close>), against the event of the instance that committed.
  \<^item> Query (\<open>query.rs\<close>), Plan (\<open>plan.rs\<close>), QueryRun (the query entry points of
    \<open>store.rs\<close>): filters, sort, cursors, windows and aggregations in memory; the plan of a
    query; and the two ways to run it, planned and scanning.
  \<^item> QuerySpec, QueryClause, QueryPlan, QueryEquiv, QueryProps: an evaluator of the driver's
    filters, the meaning of each clause a plan emits against the filter it stands for, the
    superset and order lemmas of plans, the equivalence of a planned query with a scan, and the
    properties of queries.
\<close>

text \<open>
  Rules:

  \<^item> Lexer (\<open>lexer.rs\<close>), LexProps: the tokens of a source, each step of the cursor as in the
    source; a printer of tokens that the lexer reads back.
  \<^item> Parser (\<open>parser.rs\<close>), ParserRuns, ParserProps, ParserTrip: expressions by binding powers,
    path literals read from the source text, statements and blocks.  Expressions recurse on the
    depth that the source limits to a hundred, its loops on the tokens ahead, which suffices
    because every turn passes a token (the locale \<open>expr_parser\<close> holds what a parser of
    subexpressions keeps); what a parsed ruleset satisfies; and that printed expressions parse
    back.
  \<^item> RulesValue (\<open>value.rs\<close>, \<open>ast.rs\<close>), RulesStd (\<open>stdlib.rs\<close>): the values of
    the rules language, its syntax trees, its global functions and methods, the calendar and
    the base 64 and hexadecimal forms.
  \<^item> RulesEval (\<open>eval.rs\<close>): the evaluator with its budget of 10000 steps, 20 lookups and
    20 nested calls.  It recurses on the steps left and the size of the expression, so it is
    total; \<open>fatal\<close> is the state after the budget ran out.
  \<^item> RulesMatch (\<open>matcher.rs\<close>): match paths with captures and the walk over match blocks.
  \<^item> RulesRun, RulesType, RulesSpec: the locales \<open>run_contract\<close> (a property of the host and
    the values that every evaluation keeps) and \<open>run_simulation\<close> (two hosts that answer
    alike give the same results), the well-formedness of values, and the declarative reading
    of match paths and of a ruleset as a list of candidate conditions.
  \<^item> RulesLaws, RulesCache: the interpretations of the locales on the evaluator and the store
    (budget, typing, caching, and hosts kept as they are).
  \<^item> RulesDate, RulesData, RulesProps, RulesOps, RulesChecks: calendar arithmetic, and the
    properties of rules.

  Server:

  \<^item> Auth (\<open>auth.rs\<close>), RulesBind (\<open>rules.rs\<close>): authorizations, the request and resource
    variables, the lookup cache over the store, the checks of single requests and of batches.
  \<^item> Service (\<open>service.rs\<close>, \<open>write_stream.rs\<close>): every unary method as a handler over
    the state of the process and the store, the stream of writes, and a run of requests.  Each
    request is one step of its instance, as commits are under its commit lock; that lock is local to
    the process, so what other instances write after a read set was validated, before its writes are
    applied, is a parameter (\<open>sv_others\<close>).
  \<^item> ServiceRun, ServiceProps: the locale \<open>server_relation\<close> of relations between states that
    every handler keeps, its interpretations (events published, transactions begun, reads
    carried), and the properties of transactions and of batches of reads.
  \<^item> Listen (\<open>listen.rs\<close>): a session of the watch protocol, its targets and their members, over a
    server that may change between any two inputs; \<open>listening\<close> are the sessions still open after
    some requests, commit events and lags.
  \<^item> ListenView, ListenProps, ListenTimes: the client's documents, read off the messages; that they
    are the members of each target, and a query's results after an event; the count of messages
    against read times by which the snapshot markers increase.
  \<^item> WebChannel (\<open>webchannel.rs\<close>), WebChannelProps: the transport of browsers, a buffer of numbered
    arrays with acknowledgements, posts and back channels; the relation \<open>channel_run\<close> of what may
    happen to a channel, with the bytes every back channel put out; that none carries an array
    twice, and that a client that acknowledges arrays only (not keep-alives) misses none.
  \<^item> Functions (\<open>functions.rs\<close>), FunctionsProps: triggers, their path patterns and the deliveries an
    event starts; patterns read as divisions of a path.
  \<^item> Rest (\<open>rest.rs\<close>), RestProps: posts as calls of the service, against the relation
    \<open>exchange\<close> of addresses, bodies and the one call each stands for; the guarded endpoints of
    an administrator, the loading of rules.

  What the lemmas show.  Index keys of values order like the values, also in composite keys; a
  planned query returns exactly what a scan returns; a batch is the writes in order or nothing;
  a commit reported as done was acknowledged, and one that meets only transient errors ends;
  a transaction's commit finds what it read unchanged when it validates; other instances rebuild
  the events published,
  and listeners see the documents their session tracks;
  a request is permitted only through a condition that evaluated to true, the walk over a
  ruleset is the search through its candidate conditions, parsing and evaluation end, and
  caching lookups changes no decision.
\<close>

text \<open>
  Parameters and hypotheses.  The MongoDB driver is a record of functions (\<open>mongo\<close>);
  \<open>mongo_laws\<close> and \<open>query_laws\<close> state its documented behaviour (reads see what was
  written, filters select by byte order, sorts and limits apply), and concrete instances satisfy
  them in the witnesses.  \<open>keyed_driver\<close> says that lookups answer the row asked for and that no
  search answers an identifier twice.  \<open>rules_lib\<close> holds what the rules evaluator takes from
  crates and \<open>libm\<close> (regular expressions, Unicode case, float printing, powers and
  trigonometry) and \<open>auth_world\<close> what
  \<open>auth.rs\<close> takes from outside (token signatures, the clock, the credential
  store).  \<open>reads_stable\<close>, \<open>unchanging\<close> and \<open>counts_calls\<close> say of a host of the evaluator
  that its reads repeat, leave it unchanged, or are counted.  \<open>reads_answer\<close> and \<open>notices_law\<close>
  say of a driver that its reads do not fail and that inserted notices are appended to their collection.  The equivalence of planned and
  scanning queries asks that order-by fields are distinct and that document fields avoid the
  reserved names of the mirror, as its statement shows.

  Integers are 64-bit words read as signed where the source has \<open>i64\<close>; where the source uses
  unchecked operators the model wraps as a release build does.  Strings are their UTF-8 bytes.

  Fuel: the retry loops of the source are bounded (ten attempts, three commits), so the model's
  recursion is on that bound; the evaluator recurses on its own step budget; the loops of the
  parser have the number of tokens ahead as fuel and splices the length of the text, which
  \<open>parsing_ends\<close> shows to be enough; everything else recurses structurally or on the size of a
  value or the rest of a source.

  Not modelled.  The change stream and its resumption (the driver's); the broadcast channel of
  events and the scheduling of asynchronous tasks over it; credential storage and sealing, token signing, TLS and the
  key-set fetch (cryptography and network of other crates), with the endpoints of identities in
  \<open>rest.rs\<close> that call them; the gRPC front end, HTTP routing and headers, and the transcoding between
  JSON, forms and messages (crates; a parameter, \<open>transcoder\<close> and \<open>message_decoder\<close>); backoff between
  attempts and timeouts, which only wait; index creation and the time-to-live setting, which are single
  driver calls.
\<close>

end
